(* ===== verification/Kontrol_Prelude.thy ===== *)
theory Kontrol_Prelude
  imports Main "HOL-Library.Char_ord" "HOL-Library.List_Lexorder" "HOL-Library.Product_Lexorder"
begin

text \<open>
  What the component theories share: the model of the SQLite tables the stores write to, the
  JavaScript values and string functions the code uses, and the two generic interfaces most
  stores follow (an invariant kept by every step, and a fenced claim).

  \<^item> A table is the list of its rows in rowid order. \<open>select\<close> is \<open>filter\<close>,
    \<open>select ... limit 1\<close> is \<open>find\<close>, an \<open>update\<close> is \<open>sql_update\<close> with the number
    \<open>sql_changes\<close> of rows it wrote, a \<open>delete\<close> is \<open>sql_delete\<close>. \<open>order by\<close> is
    stable on rowid order, the order SQLite's sorter leaves equal keys in.
  \<^item> A timestamp is the number of milliseconds since the epoch: \<open>toISOString\<close> prints it in
    a fixed-width form whose text order is the order of the numbers.
  \<^item> Strings are lists of code units below 256. \<open>undefined\<close> and \<open>NULL\<close> are
    \<open>None\<close>; \<open>truthy\<close> is the test \<open>if (x)\<close> on an optional string.
\<close>

named_theorems table_simps
named_theorems js_simps

type_synonym iso_time = int
type_synonym 'r table = "'r list"

section \<open>Tables\<close>

definition sql_changes :: "('r \<Rightarrow> bool) \<Rightarrow> 'r table \<Rightarrow> nat" where
  "sql_changes P t = length (filter P t)"

definition sql_update :: "('r \<Rightarrow> bool) \<Rightarrow> ('r \<Rightarrow> 'r) \<Rightarrow> 'r table \<Rightarrow> 'r table" where
  "sql_update P f t = map (\<lambda>r. if P r then f r else r) t"

definition sql_delete :: "('r \<Rightarrow> bool) \<Rightarrow> 'r table \<Rightarrow> 'r table" where
  "sql_delete P t = filter (\<lambda>r. \<not> P r) t"

definition order_asc :: "('r \<Rightarrow> 'k::linorder) \<Rightarrow> 'r table \<Rightarrow> 'r table" where
  "order_asc k t = sort_key k t"

definition order_desc :: "('r \<Rightarrow> 'k::linorder) \<Rightarrow> 'r table \<Rightarrow> 'r table" where
  "order_desc k t = rev (sort_key k (rev t))"

definition first_row :: "'r table \<Rightarrow> 'r option" where
  "first_row t = (case t of [] \<Rightarrow> None | r # _ \<Rightarrow> Some r)"

lemma length_sql_update [simp]: "length (sql_update P f t) = length t"
  by (simp add: sql_update_def)

lemma sql_update_Nil [simp]: "sql_update P f [] = []"
  by (simp add: sql_update_def)

lemma sql_update_Cons [simp]:
  "sql_update P f (r # t) = (if P r then f r else r) # sql_update P f t"
  by (simp add: sql_update_def)

lemma sql_update_append [simp]:
  "sql_update P f (t @ u) = sql_update P f t @ sql_update P f u"
  by (simp add: sql_update_def)

lemma sql_changes_Nil [simp]: "sql_changes P [] = 0"
  by (simp add: sql_changes_def)

lemma sql_changes_Cons [simp]:
  "sql_changes P (r # t) = (if P r then Suc (sql_changes P t) else sql_changes P t)"
  by (simp add: sql_changes_def)

lemma set_sql_update:
  "set (sql_update P f t) = f ` {r \<in> set t. P r} \<union> {r \<in> set t. \<not> P r}"
  by (auto simp: sql_update_def)

lemma mem_sql_updateE:
  assumes "r' \<in> set (sql_update P f t)"
  obtains r where "r \<in> set t" "P r" "r' = f r" | "r' \<in> set t" "\<not> P r'"
  using assms by (auto simp: set_sql_update)

lemma set_sql_delete [simp]: "set (sql_delete P t) = {r \<in> set t. \<not> P r}"
  by (auto simp: sql_delete_def)

lemma map_sql_update:
  assumes "\<And>r. r \<in> set t \<Longrightarrow> P r \<Longrightarrow> k (f r) = k r"
  shows "map k (sql_update P f t) = map k t"
  using assms by (induction t) auto

lemma distinct_sql_delete: "distinct (map k t) \<Longrightarrow> distinct (map k (sql_delete P t))"
  by (simp add: sql_delete_def distinct_map_filter)

lemma sql_changes_zero_iff [table_simps]: "sql_changes P t = 0 \<longleftrightarrow> (\<forall>r \<in> set t. \<not> P r)"
  by (induction t) auto

lemma sql_changes_pos_iff: "0 < sql_changes P t \<longleftrightarrow> (\<exists>r \<in> set t. P r)"
  by (induction t) auto

lemma sql_update_none:
  assumes "\<forall>r \<in> set t. \<not> P r"
  shows "sql_update P f t = t"
  using assms by (induction t) auto

lemma sql_update_cong_rows:
  assumes "\<And>r. r \<in> set t \<Longrightarrow> (if P r then f r else r) = (if Q r then g r else r)"
  shows "sql_update P f t = sql_update Q g t"
  using assms by (induction t) auto

text \<open>A predicate that pins the primary key matches at most one row.\<close>

lemma sql_changes_le_one:
  assumes "distinct (map k t)" and "\<And>r. P r \<Longrightarrow> k r = v"
  shows "sql_changes P t \<le> 1"
  using assms(1)
proof (induction t)
  case Nil
  then show ?case by simp
next
  case (Cons r t)
  show ?case
  proof (cases "P r")
    case True
    have "\<not> P r'" if "r' \<in> set t" for r'
    proof
      assume "P r'"
      then have "k r' = k r" using True assms(2) by metis
      with that Cons.prems show False by (metis distinct.simps(2) image_eqI list.set_map list.simps(9))
    qed
    then have "sql_changes P t = 0" by (simp add: sql_changes_zero_iff)
    with True show ?thesis by simp
  next
    case False
    with Cons show ?thesis by simp
  qed
qed

lemma sql_changes_eq_one_iff:
  assumes "distinct (map k t)" and "\<And>r. P r \<Longrightarrow> k r = v"
  shows "sql_changes P t = 1 \<longleftrightarrow> (\<exists>r \<in> set t. P r)"
proof -
  have "sql_changes P t \<le> 1" using assms by (rule sql_changes_le_one)
  with sql_changes_pos_iff [of P t] show ?thesis by linarith
qed

lemma find_Some_mem: "find P t = Some r \<Longrightarrow> r \<in> set t \<and> P r"
  by (induction t) (auto split: if_splits)

lemma find_None_iff_all: "find P t = None \<longleftrightarrow> (\<forall>r \<in> set t. \<not> P r)"
  by (induction t) auto

lemma find_unique_key:
  assumes "distinct (map k t)" and "r \<in> set t"
  shows "find (\<lambda>r'. k r' = k r) t = Some r"
  using assms
proof (induction t)
  case Nil
  then show ?case by simp
next
  case (Cons a t)
  then show ?case by (cases "a = r") auto
qed

lemma key_unique:
  assumes "distinct (map k t)" "r \<in> set t" "r' \<in> set t" "k r = k r'"
  shows "r = r'"
  using assms by (metis distinct_map inj_on_eq_iff)

lemma distinct_set_single: "distinct xs \<Longrightarrow> set xs = {a} \<Longrightarrow> xs = [a]"
  by (cases xs; cases "tl xs") auto

lemma sql_update_one_row:
  assumes "distinct (map k t)" "ex \<in> set t" "P ex" "\<And>x. P x \<Longrightarrow> k x = k ex"
  shows "sql_update P f t = map (\<lambda>x. if x = ex then f ex else x) t"
proof -
  have "P x \<longleftrightarrow> x = ex" if "x \<in> set t" for x
    using key_unique [OF assms(1) that assms(2)] assms(3,4) by metis
  then show ?thesis unfolding sql_update_def by (intro map_cong refl) simp
qed

lemma find_replaced_row:
  assumes "distinct (map k t)" "ex \<in> set t" "k y = k ex"
  shows "find (\<lambda>x. k x = k ex) (map (\<lambda>x. if x = ex then y else x) t) = Some y"
proof -
  let ?t = "map (\<lambda>x. if x = ex then y else x) t"
  have "map k ?t = map k t" using assms(3) by (intro nth_equalityI) auto
  then have "distinct (map k ?t)" using assms(1) by argo
  moreover have "y \<in> set ?t" using assms(2) by auto
  ultimately have "find (\<lambda>x. k x = k y) ?t = Some y" by (rule find_unique_key)
  then show ?thesis unfolding assms(3) .
qed

lemma set_order_asc [simp]: "set (order_asc k t) = set t"
  by (simp add: order_asc_def)

lemma set_order_desc [simp]: "set (order_desc k t) = set t"
  by (simp add: order_desc_def)

lemma order_Nil_iff [simp]: "order_asc k t = [] \<longleftrightarrow> t = []" "order_desc k t = [] \<longleftrightarrow> t = []"
  by (metis length_0_conv length_sort order_asc_def)
    (metis length_0_conv length_sort length_rev order_desc_def)

lemma length_order_desc [simp]: "length (order_desc k t) = length t"
  by (simp add: order_desc_def)

lemma sorted_order_asc [simp]: "sorted (map k (order_asc k t))"
  by (simp add: order_asc_def)

lemma first_row_SomeD: "first_row t = Some r \<Longrightarrow> r \<in> set t"
  by (auto simp: first_row_def split: list.splits)

lemma first_row_None_iff [simp]: "first_row t = None \<longleftrightarrow> t = []"
  by (auto simp: first_row_def split: list.splits)

lemma first_row_simps [simp]: "first_row [] = None" "first_row (r # t) = Some r"
  by (simp_all add: first_row_def)

lemma order_Nil [simp]: "order_asc k [] = []" "order_desc k [] = []"
  by (simp_all add: order_asc_def order_desc_def)

lemma first_row_asc_min:
  assumes "first_row (order_asc k t) = Some r" and "r' \<in> set t"
  shows "k r \<le> k r'"
proof -
  obtain u where u: "order_asc k t = r # u"
    using assms(1) by (auto simp: first_row_def split: list.splits)
  have "r' \<in> set (r # u)" using assms(2) u by (metis set_order_asc)
  moreover have "sorted (map k (r # u))" using sorted_order_asc [of k t] u by simp
  ultimately show ?thesis by auto
qed

lemma first_row_desc_max:
  assumes "first_row (order_desc k t) = Some r"
  shows "r \<in> set t \<and> (\<forall>x \<in> set t. k x \<le> k r)"
proof -
  obtain u where u: "order_desc k t = r # u"
    using assms by (auto simp: first_row_def split: list.splits)
  then have "sort_key k (rev t) = rev u @ [r]"
    by (metis order_desc_def rev.simps(2) rev_swap)
  then have "sorted (map k (rev u @ [r]))" and mem: "set (rev u @ [r]) = set t"
    by (metis sorted_sort_key, metis set_rev set_sort)
  then have "\<forall>x \<in> set (rev u). k x \<le> k r" by (simp add: sorted_append)
  then show ?thesis using mem by fastforce
qed

lemma first_row_desc_last:
  assumes "\<And>x. x \<in> set xs \<Longrightarrow> k x < k y"
  shows "first_row (order_desc k (xs @ [y])) = Some y"
proof -
  obtain z where z: "first_row (order_desc k (xs @ [y])) = Some z" by (cases "first_row (order_desc k (xs @ [y]))") auto
  then have "z \<in> set xs \<or> z = y" by (auto dest: first_row_SomeD)
  moreover have "k y \<le> k z" using first_row_desc_max [OF z] by simp
  ultimately show ?thesis using z assms by fastforce
qed

section \<open>JavaScript values\<close>

text \<open>
  A parsed JSON value. A number is a mathematical integer or, when it has a fraction or an
  exponent that leaves the integers, the text of its decimal form (the code only ever asks
  whether such a number is an integer).
\<close>

datatype json =
    JNull
  | JBool bool
  | JInt int
  | JDec string
  | JStr string
  | JArr "json list"
  | JObj "(string \<times> json) list"

definition js_get :: "(string \<times> json) list \<Rightarrow> string \<Rightarrow> json option" where
  "js_get fields k = map_of (rev fields) k"

definition truthy :: "string option \<Rightarrow> bool" where
  "truthy x = (case x of None \<Rightarrow> False | Some s \<Rightarrow> s \<noteq> [])"

lemma truthy_simps [simp, js_simps]:
  "truthy None = False"
  "truthy (Some s) = (s \<noteq> [])"
  by (simp_all add: truthy_def)

definition coalesce :: "'a option \<Rightarrow> 'a \<Rightarrow> 'a" where
  "coalesce x d = (case x of None \<Rightarrow> d | Some v \<Rightarrow> v)"

lemma coalesce_simps [simp, js_simps]:
  "coalesce None d = d"
  "coalesce (Some v) d = v"
  by (simp_all add: coalesce_def)

definition or_else :: "'a option \<Rightarrow> 'a option \<Rightarrow> 'a option" where
  "or_else x y = (case x of None \<Rightarrow> y | Some v \<Rightarrow> Some v)"

lemma or_else_simps [simp, js_simps]:
  "or_else None y = y"
  "or_else (Some v) y = Some v"
  by (simp_all add: or_else_def)

definition starts_with :: "string \<Rightarrow> string \<Rightarrow> bool" where
  "starts_with s p \<longleftrightarrow> take (length p) s = p"

definition ends_with :: "string \<Rightarrow> string \<Rightarrow> bool" where
  "ends_with s p \<longleftrightarrow> starts_with (rev s) (rev p)"

text \<open>White space of \<open>String.prototype.trim\<close> below code unit 256.\<close>

definition js_space :: "char \<Rightarrow> bool" where
  "js_space c \<longleftrightarrow> of_char c \<in> {9 :: nat, 10, 11, 12, 13, 32, 160}"

definition trim_start :: "string \<Rightarrow> string" where
  "trim_start s = dropWhile js_space s"

definition trim_end :: "string \<Rightarrow> string" where
  "trim_end s = rev (dropWhile js_space (rev s))"

definition trim :: "string \<Rightarrow> string" where
  "trim s = trim_end (trim_start s)"

text \<open>The UTF-8 length of a text of code units below 256.\<close>

definition utf8_length :: "string \<Rightarrow> nat" where
  "utf8_length s = sum_list (map (\<lambda>c. if (of_char c :: nat) < 128 then 1 else 2) s)"

text \<open>\<open>String.prototype.toLowerCase\<close> on code units below 256.\<close>

definition lower_char :: "char \<Rightarrow> char" where
  "lower_char c =
     (let n = of_char c :: nat
      in if (65 \<le> n \<and> n \<le> 90) \<or> (192 \<le> n \<and> n \<le> 222 \<and> n \<noteq> 215) then char_of (n + 32) else c)"

definition to_lower :: "string \<Rightarrow> string" where
  "to_lower s = map lower_char s"

lemma starts_with_append [simp]: "starts_with (p @ s) p"
  by (simp add: starts_with_def)

lemma starts_with_iff: "starts_with s p \<longleftrightarrow> (\<exists>u. s = p @ u)"
  by (metis append_eq_conv_conj append_take_drop_id starts_with_append starts_with_def)

text \<open>\<open>lines.join\<close> and the decimal text of a number in a template string.\<close>

fun join :: "string \<Rightarrow> string list \<Rightarrow> string" where
  "join sep [] = []"
| "join sep [x] = x"
| "join sep (x # y # xs) = x @ sep @ join sep (y # xs)"

fun show_nat :: "nat \<Rightarrow> string" where
  "show_nat n = (if n < 10 then [char_of (48 + n)] else show_nat (n div 10) @ [char_of (48 + n mod 10)])"

declare show_nat.simps [simp del]

definition show_int :: "int \<Rightarrow> string" where
  "show_int n = (if n < 0 then ''-'' else []) @ show_nat (nat \<bar>n\<bar>)"

text \<open>\<open>JSON.stringify\<close> of a parsed value, without indentation.\<close>

definition hex_digit :: "nat \<Rightarrow> char" where
  "hex_digit n = char_of (if n < 10 then 48 + n else 87 + n)"

definition json_char :: "char \<Rightarrow> string" where
  "json_char c =
     (let n = of_char c :: nat
      in if n = 34 then [CHR 0x5C, CHR 0x22] else if n = 92 then [CHR 0x5C, CHR 0x5C]
         else if n = 8 then [CHR 0x5C, CHR ''b''] else if n = 12 then [CHR 0x5C, CHR ''f'']
         else if n = 10 then [CHR 0x5C, CHR ''n''] else if n = 13 then [CHR 0x5C, CHR ''r''] else if n = 9 then [CHR 0x5C, CHR ''t'']
         else if n < 32 then [CHR 0x5C] @ ''u00'' @ [hex_digit (n div 16), hex_digit (n mod 16)] else [c])"

definition json_string :: "string \<Rightarrow> string" where
  "json_string s = [CHR 0x22] @ concat (map json_char s) @ [CHR 0x22]"

fun json_stringify :: "json \<Rightarrow> string" where
  "json_stringify JNull = ''null''"
| "json_stringify (JBool b) = (if b then ''true'' else ''false'')"
| "json_stringify (JInt n) = show_int n"
| "json_stringify (JDec s) = s"
| "json_stringify (JStr s) = json_string s"
| "json_stringify (JArr vs) = ''['' @ join '','' (map json_stringify vs) @ '']''"
| "json_stringify (JObj fs) = ''{'' @ join '','' (map (\<lambda>(k, v). json_string k @ '':'' @ json_stringify v) fs) @ ''}''"

definition newline :: string where
  "newline = [CHR 0x0A]"

text \<open>
  \<open>Array.prototype.sort\<close> with a comparator: a stable sort. Where the comparator is a
  consistent total preorder, as the standard asks, the stable result is unique, so an
  insertion sort computes it.
\<close>

fun js_insert :: "('a \<Rightarrow> 'a \<Rightarrow> int) \<Rightarrow> 'a \<Rightarrow> 'a list \<Rightarrow> 'a list" where
  "js_insert cmp x [] = [x]"
| "js_insert cmp x (y # ys) = (if cmp x y \<le> 0 then x # y # ys else y # js_insert cmp x ys)"

definition js_sort :: "('a \<Rightarrow> 'a \<Rightarrow> int) \<Rightarrow> 'a list \<Rightarrow> 'a list" where
  "js_sort cmp xs = foldr (js_insert cmp) xs []"

lemma set_js_insert [simp]: "set (js_insert cmp x ys) = insert x (set ys)"
  by (induction ys) auto

lemma set_js_sort [simp]: "set (js_sort cmp xs) = set xs"
  by (induction xs) (auto simp: js_sort_def)

lemma js_sort_Nil_iff [simp]: "js_sort cmp xs = [] \<longleftrightarrow> xs = []"
  by (metis set_empty set_js_sort)

definition last_elem :: "'a list \<Rightarrow> 'a option" where
  "last_elem xs = (if xs = [] then None else Some (last xs))"

lemma last_elem_SomeD: "last_elem xs = Some x \<Longrightarrow> x \<in> set xs"
  by (auto simp: last_elem_def split: if_splits)

lemma last_elem_None_iff [simp]: "last_elem xs = None \<longleftrightarrow> xs = []"
  by (simp add: last_elem_def)

lemma js_insert_sorted_wrt:
  assumes "sorted_wrt (\<lambda>a b. cmp a b \<le> 0) ys"
    and "\<And>a b c. cmp a b \<le> 0 \<Longrightarrow> cmp b c \<le> 0 \<Longrightarrow> cmp a c \<le> 0"
    and "\<And>a b. cmp a b \<le> 0 \<or> cmp b a \<le> 0"
  shows "sorted_wrt (\<lambda>a b. cmp a b \<le> 0) (js_insert cmp x ys)"
  using assms(1)
proof (induction ys)
  case Nil
  then show ?case by simp
next
  case (Cons y ys)
  show ?case
  proof (cases "cmp x y \<le> 0")
    case True
    with Cons.prems assms(2) show ?thesis by fastforce
  next
    case False
    then have "cmp y x \<le> 0" using assms(3) by blast
    with Cons False show ?thesis by auto
  qed
qed

lemma js_sort_sorted_wrt:
  assumes "\<And>a b c. cmp a b \<le> 0 \<Longrightarrow> cmp b c \<le> 0 \<Longrightarrow> cmp a c \<le> 0"
    and "\<And>a b. cmp a b \<le> 0 \<or> cmp b a \<le> 0"
  shows "sorted_wrt (\<lambda>a b. cmp a b \<le> 0) (js_sort cmp xs)"
proof (induction xs)
  case Nil
  then show ?case by (simp add: js_sort_def)
next
  case (Cons x xs)
  then have "sorted_wrt (\<lambda>a b. cmp a b \<le> 0) (js_insert cmp x (js_sort cmp xs))"
    using assms by (rule js_insert_sorted_wrt)
  then show ?case by (simp add: js_sort_def)
qed

lemma last_elem_js_sort_max:
  assumes "last_elem (js_sort cmp xs) = Some m" and "x \<in> set xs"
    and trans: "\<And>a b c. cmp a b \<le> 0 \<Longrightarrow> cmp b c \<le> 0 \<Longrightarrow> cmp a c \<le> 0"
    and total: "\<And>a b. cmp a b \<le> 0 \<or> cmp b a \<le> 0"
  shows "cmp x m \<le> 0"
proof -
  let ?ys = "js_sort cmp xs"
  have ne: "?ys \<noteq> []" and m: "m = last ?ys"
    using assms(1) by (auto simp: last_elem_def split: if_splits)
  then have split: "?ys = butlast ?ys @ [m]" by simp
  have "sorted_wrt (\<lambda>a b. cmp a b \<le> 0) (butlast ?ys @ [m])"
    using js_sort_sorted_wrt [of cmp xs] trans total split by metis
  then have before: "\<forall>a \<in> set (butlast ?ys). cmp a m \<le> 0"
    by (simp add: sorted_wrt_append)
  have "x \<in> set (butlast ?ys @ [m])"
    using assms(2) split set_js_sort by metis
  then show ?thesis using before total [of m m] by auto
qed

section \<open>Invariants kept by every step\<close>

inductive reachable :: "('s \<Rightarrow> bool) \<Rightarrow> ('s \<Rightarrow> 's \<Rightarrow> bool) \<Rightarrow> 's \<Rightarrow> bool"
  for start :: "'s \<Rightarrow> bool" and step :: "'s \<Rightarrow> 's \<Rightarrow> bool" where
  reachable_start: "start s \<Longrightarrow> reachable start step s"
| reachable_step: "reachable start step s \<Longrightarrow> step s s' \<Longrightarrow> reachable start step s'"

locale store_invariant =
  fixes start :: "'s \<Rightarrow> bool"
    and step :: "'s \<Rightarrow> 's \<Rightarrow> bool"
    and inv :: "'s \<Rightarrow> bool"
  assumes inv_start: "start s \<Longrightarrow> inv s"
    and inv_step: "inv s \<Longrightarrow> step s s' \<Longrightarrow> inv s'"
begin

lemma inv_reachable:
  assumes "reachable start step s"
  shows "inv s"
  using assms
proof induction
  case (reachable_start s)
  then show ?case by (rule inv_start)
next
  case (reachable_step s s')
  then show ?case using inv_step by blast
qed

end

section \<open>Fenced claims\<close>

text \<open>
  The contract the claim-based stores share. \<open>holds t c s\<close> says that claim \<open>c\<close> owns its
  row at clock reading \<open>t\<close>; \<open>act\<close> is a transition that presents the claim and reports
  whether it was applied. A claim that does not hold changes nothing, a claim that holds is
  accepted, and an accepted claim is used up. \<open>other\<close> is any step of the rest of the system:
  it never gives a used-up claim back.
\<close>

locale fenced_store =
  fixes holds :: "'t \<Rightarrow> 'c \<Rightarrow> 's \<Rightarrow> bool"
    and spent :: "'c \<Rightarrow> 's \<Rightarrow> bool"
    and act :: "'op \<Rightarrow> 't \<Rightarrow> 'c \<Rightarrow> 's \<Rightarrow> 's \<times> bool"
    and other :: "'s \<Rightarrow> 's \<Rightarrow> bool"
    and ok :: "'s \<Rightarrow> bool"
  assumes fence_reject: "\<not> holds t c s \<Longrightarrow> act x t c s = (s, False)"
    and fence_accept: "ok s \<Longrightarrow> holds t c s \<Longrightarrow> snd (act x t c s)"
    and fence_spent: "ok s \<Longrightarrow> holds t c s \<Longrightarrow> spent c (fst (act x t c s))"
    and spent_not_held: "spent c s \<Longrightarrow> \<not> holds t c s"
    and spent_other: "ok s \<Longrightarrow> spent c s \<Longrightarrow> other s s' \<Longrightarrow> spent c s'"
    and ok_act: "ok s \<Longrightarrow> ok (fst (act x t c s))"
    and ok_other: "ok s \<Longrightarrow> other s s' \<Longrightarrow> ok s'"
begin

lemma act_applied_iff: "ok s \<Longrightarrow> snd (act x t c s) \<longleftrightarrow> holds t c s"
  using fence_accept fence_reject by force

lemma spent_rejects: "spent c s \<Longrightarrow> act x t c s = (s, False)"
  by (simp add: fence_reject spent_not_held)

lemma spent_forever:
  assumes "ok s" "spent c s" "other\<^sup>*\<^sup>* s s'"
  shows "ok s' \<and> spent c s'"
  using assms(3,1,2)
proof (induction rule: rtranclp_induct)
  case base
  then show ?case by simp
next
  case (step y z)
  then show ?case using ok_other spent_other by blast
qed

lemma accepted_at_most_once:
  assumes "ok s" and "snd (act x t c s)" and "other\<^sup>*\<^sup>* (fst (act x t c s)) s'"
  shows "act y u c s' = (s', False)"
proof -
  have "holds t c s" using assms(1,2) act_applied_iff by blast
  then have "spent c (fst (act x t c s))" using fence_spent assms(1) by blast
  then have "spent c s'" using spent_forever [OF ok_act [OF assms(1)] _ assms(3)] by blast
  then show ?thesis by (rule spent_rejects)
qed

end

section \<open>Refinement of a run\<close>

text \<open>
  A list of operations run one after the other, stopping at the first error. Where every
  operation of a detailed state implements the operation of an abstract one, with the same
  errors, whole runs do. \<open>env\<close> is what both sides only read.
\<close>

fun run_ops :: "('op \<Rightarrow> 's \<Rightarrow> 'e + 's) \<Rightarrow> 'op list \<Rightarrow> 's \<Rightarrow> 'e + 's" where
  "run_ops f [] s = Inr s"
| "run_ops f (x # xs) s = (case f x s of Inl e \<Rightarrow> Inl e | Inr s' \<Rightarrow> run_ops f xs s')"

locale run_refinement =
  fixes ok :: "'env \<Rightarrow> bool"
    and inv :: "'c \<Rightarrow> bool"
    and abst :: "'env \<Rightarrow> 'c \<Rightarrow> 'a"
    and cstep :: "'env \<Rightarrow> 'op \<Rightarrow> 'c \<Rightarrow> 'e + 'c"
    and astep :: "'env \<Rightarrow> 'op \<Rightarrow> 'a \<Rightarrow> 'e + 'a"
  assumes step_refines: "ok env \<Longrightarrow> inv c \<Longrightarrow> astep env x (abst env c) = map_sum id (abst env) (cstep env x c)"
    and step_inv: "ok env \<Longrightarrow> inv c \<Longrightarrow> cstep env x c = Inr c' \<Longrightarrow> inv c'"
begin

lemma run_refines:
  assumes "ok env" "inv c"
  shows "run_ops (astep env) xs (abst env c) = map_sum id (abst env) (run_ops (cstep env) xs c)"
  using assms(2)
proof (induction xs arbitrary: c)
  case Nil
  then show ?case by simp
next
  case (Cons x xs)
  then show ?case
    using step_refines [OF assms(1) Cons.prems, of x] step_inv [OF assms(1) Cons.prems]
    by (cases "cstep env x c") auto
qed

lemma run_inv:
  assumes "ok env" "inv c" "run_ops (cstep env) xs c = Inr c'"
  shows "inv c'"
  using assms(2,3)
proof (induction xs arbitrary: c)
  case Nil
  then show ?case by simp
next
  case (Cons x xs)
  then show ?case using step_inv [OF assms(1) Cons.prems(1)] by (auto split: sum.splits)
qed

end

section \<open>Keyset pagination\<close>

text \<open>
  A listing is read page by page; a page that is not the last one comes with a cursor, the key of
  its last row, and the next call returns the rows after it. \<open>lt\<close> is the order of the
  listing, ascending or descending.
\<close>

fun walk :: "('c option \<Rightarrow> 'r list \<times> 'c option) \<Rightarrow> nat \<Rightarrow> 'c option \<Rightarrow> 'r list" where
  "walk page 0 c = []"
| "walk page (Suc n) c =
     (let (p, nxt) = page c
      in case nxt of None \<Rightarrow> p | Some k \<Rightarrow> p @ walk page n (Some k))"

definition after_cursor :: "('c \<Rightarrow> 'c \<Rightarrow> bool) \<Rightarrow> ('r \<Rightarrow> 'c) \<Rightarrow> 'c option \<Rightarrow> 'r \<Rightarrow> bool" where
  "after_cursor lt key c r = (case c of None \<Rightarrow> True | Some k \<Rightarrow> lt k (key r))"

locale keyset_pager =
  fixes lt :: "'c \<Rightarrow> 'c \<Rightarrow> bool"
    and key :: "'r \<Rightarrow> 'c"
    and rows :: "'s \<Rightarrow> 'r list"
    and page :: "'s \<Rightarrow> 'c option \<Rightarrow> 'r list \<times> 'c option"
    and ok :: "'s \<Rightarrow> bool"
  assumes lt_trans: "lt x y \<Longrightarrow> lt y z \<Longrightarrow> lt x z"
    and lt_irrefl: "\<not> lt x x"
    and rows_sorted: "ok s \<Longrightarrow> sorted_wrt (\<lambda>a b. lt (key a) (key b)) (rows s)"
    and page_last: "ok s \<Longrightarrow> page s c = (p, None) \<Longrightarrow> p = filter (after_cursor lt key c) (rows s)"
    and page_more: "ok s \<Longrightarrow> page s c = (p, Some k) \<Longrightarrow>
      p \<noteq> [] \<and> k = key (last p) \<and> (\<exists>rest. filter (after_cursor lt key c) (rows s) = p @ rest)"
begin

lemma rows_after_page:
  assumes "ok s" "page s c = (p, Some k)"
  shows "filter (after_cursor lt key c) (rows s) = p @ filter (after_cursor lt key (Some k)) (rows s)"
proof -
  from page_more [OF assms] obtain rest where p: "p \<noteq> []" "k = key (last p)"
    and split: "filter (after_cursor lt key c) (rows s) = p @ rest" by blast
  have sorted: "sorted_wrt (\<lambda>a b. lt (key a) (key b)) (p @ rest)"
    using rows_sorted [OF assms(1)] split by (metis sorted_wrt_filter)
  have pre: "\<not> lt k (key x)" if "x \<in> set p" for x
  proof -
    have "p = butlast p @ [last p]" using p(1) by simp
    with sorted have "\<forall>y \<in> set (butlast p). lt (key y) (key (last p))"
      by (metis list.set_intros(1) sorted_wrt_append)
    with that p show ?thesis
      by (metis UnE \<open>p = butlast p @ [last p]\<close> empty_iff insert_iff list.set(1) list.set(2) lt_irrefl
          lt_trans set_append)
  qed
  have post: "lt k (key x)" if "x \<in> set rest" for x
    using sorted that p by (auto simp: sorted_wrt_append)
  have sub: "after_cursor lt key (Some k) x \<Longrightarrow> after_cursor lt key c x" for x
  proof -
    have "after_cursor lt key c (last p)"
    proof -
      have "last p \<in> set (filter (after_cursor lt key c) (rows s))"
        unfolding split using p(1) by simp
      then show ?thesis by simp
    qed
    then show "after_cursor lt key (Some k) x \<Longrightarrow> after_cursor lt key c x"
      using p(2) lt_trans by (auto simp: after_cursor_def split: option.splits)
  qed
  have "filter (after_cursor lt key (Some k)) (rows s)
      = filter (after_cursor lt key (Some k)) (filter (after_cursor lt key c) (rows s))"
    using sub by (auto intro: filter_cong)
  also have "\<dots> = rest"
    unfolding split using pre post by (simp add: after_cursor_def filter_id_conv filter_empty_conv)
  finally show ?thesis using split by simp
qed

lemma walk_rows:
  assumes "ok s" "length (filter (after_cursor lt key c) (rows s)) < n"
  shows "walk (page s) n c = filter (after_cursor lt key c) (rows s)"
  using assms(2)
proof (induction n arbitrary: c)
  case 0
  then show ?case by simp
next
  case (Suc n)
  obtain p nxt where pg: "page s c = (p, nxt)" by fastforce
  show ?case
  proof (cases nxt)
    case None
    with pg page_last [OF assms(1)] show ?thesis by simp
  next
    case (Some k)
    note split = rows_after_page [OF assms(1) pg [unfolded Some]]
    have "p \<noteq> []" using page_more [OF assms(1) pg [unfolded Some]] by blast
    then have "length (filter (after_cursor lt key (Some k)) (rows s)) < n"
      using Suc.prems split by (cases p) auto
    with Suc.IH [OF this] split Some pg show ?thesis by simp
  qed
qed

lemma walk_all:
  assumes "ok s" "length (rows s) < n"
  shows "walk (page s) n None = rows s"
proof -
  have "filter (after_cursor lt key None) (rows s) = rows s"
    by (simp add: after_cursor_def filter_id_conv)
  with walk_rows [OF assms(1), of None n] assms(2) show ?thesis by simp
qed

end

text \<open>
  How the listings find out whether there is another page: they ask for one row more than the
  page holds.
\<close>

definition probe_page :: "nat \<Rightarrow> 'r table \<Rightarrow> 'r list \<times> bool" where
  "probe_page n rows =
     (let probed = take (n + 1) rows; hasMore = length probed > n
      in (if hasMore then take n probed else probed, hasMore))"

lemma probe_page_last: "probe_page n rows = (p, False) \<Longrightarrow> p = rows"
  by (auto simp: probe_page_def Let_def split: if_splits)

lemma probe_page_more:
  assumes "probe_page n rows = (p, True)" "0 < n"
  shows "p \<noteq> [] \<and> rows = p @ drop n rows"
proof -
  have len: "n < length rows" and p: "p = take n rows"
    using assms by (auto simp: probe_page_def Let_def min_def split: if_splits)
  with assms(2) show ?thesis by auto
qed

lemma strict_sorted_order_asc:
  assumes "distinct (map k t)"
  shows "sorted_wrt (\<lambda>a b. k a < k b) (order_asc k t)"
proof -
  have "sorted (map k (order_asc k t)) \<and> distinct (map k (order_asc k t))"
    using assms by (auto simp: order_asc_def distinct_map inj_on_def)
  then have "sorted_wrt (<) (map k (order_asc k t))"
    using strict_sorted_iff by blast
  then show ?thesis by (simp add: sorted_wrt_map)
qed

lemma strict_sorted_order_desc:
  assumes "distinct (map k t)"
  shows "sorted_wrt (\<lambda>a b. k b < k a) (order_desc k t)"
proof -
  have "distinct (map k (rev t))" using assms by (simp add: distinct_map)
  from strict_sorted_order_asc [OF this] show ?thesis
    by (simp add: order_desc_def order_asc_def sorted_wrt_rev)
qed

lemma filter_order_asc: "filter P (order_asc k t) = order_asc k (filter P t)"
  by (simp add: order_asc_def filter_sort)

lemma filter_order_desc: "filter P (order_desc k t) = order_desc k (filter P t)"
  by (simp add: order_desc_def rev_filter [symmetric] filter_sort)

lemma mem_probe_pageD: "probe_page n rows = (p, b) \<Longrightarrow> r \<in> set p \<Longrightarrow> r \<in> set rows"
  by (auto simp: probe_page_def Let_def split: if_splits dest: in_set_takeD)

lemma probe_page_map: "probe_page n (map f rows) = apfst (map f) (probe_page n rows)"
  by (simp add: probe_page_def Let_def take_map)

lemma last_elem_map [simp]: "last_elem (map f xs) = map_option f (last_elem xs)"
  by (simp add: last_elem_def last_map)

end
