(* ===== verification/Dispatch_Outbox.thy ===== *)
theory Dispatch_Outbox
  imports Kontrol_Prelude
begin

text \<open>
  The durable dispatch outbox of src/src/dispatch-outbox.ts: events that a worker claims with
  a lease and a fencing token, and then releases, completes, fails, or suspends. The state is
  the table \<open>dispatch_outbox\<close>, the in-process listeners, and the notifications queued with
  \<open>queueMicrotask\<close>. A stored row and the event object \<open>rowToEvent\<close> makes of it carry the
  same fields, so both are the record \<open>outbox_row\<close>. Clock readings, generated ids and
  tokens are arguments: \<open>now\<close> is a reading of \<open>new Date()\<close>, \<open>now_ms\<close> a reading of
  \<open>Date.now()\<close> in the same call.
\<close>

section \<open>State\<close>

datatype outbox_status =
  OPending | OClaimed | OSuspended | OCompleted | OFailed | ODeadLettered

record outbox_row =
  ob_id :: string
  ob_eventType :: string
  ob_aggregateId :: string
  ob_aggregateRevision :: int
  ob_payload :: "(string \<times> json) list"
  ob_status :: outbox_status
  ob_attemptCount :: nat
  ob_failureCount :: nat
  ob_availableAt :: iso_time
  ob_claimedBy :: "string option"
  ob_claimExpiresAt :: "iso_time option"
  ob_claimToken :: "string option"
  ob_lastError :: "string option"
  ob_createdAt :: iso_time
  ob_completedAt :: "iso_time option"

record outbox_claim =
  oc_eventId :: string
  oc_claimOwner :: string
  oc_claimToken :: string

record outbox =
  ox_rows :: "outbox_row table"
  ox_listeners :: "(nat \<times> string list option) list"
  ox_microtasks :: "outbox_row list"

datatype outbox_error =
    OutboxUniqueViolation
  | OutboxInvalidPayloadKey
  | OutboxInvalidReasonPrefix

record enqueue_input =
  ei_eventType :: string
  ei_aggregateId :: string
  ei_aggregateRevision :: "int option"
  ei_payload :: "(string \<times> json) list option"
  ei_availableAt :: "iso_time option"

section \<open>Operations\<close>

text \<open>\<open>payloadRevision\<close>: the payload's own \<open>revision\<close> when it is a non-negative integer.\<close>

definition payloadRevision :: "(string \<times> json) list option \<Rightarrow> int option" where
  "payloadRevision payload =
     (case payload of
        None \<Rightarrow> None
      | Some obj \<Rightarrow>
          (case js_get obj ''revision'' of
             Some (JInt n) \<Rightarrow> if 0 \<le> n then Some n else None
           | _ \<Rightarrow> None))"

definition ob_logical :: "outbox_row \<Rightarrow> string \<times> string \<times> int" where
  "ob_logical r = (ob_eventType r, ob_aggregateId r, ob_aggregateRevision r)"

definition getByLogical :: "string \<Rightarrow> string \<Rightarrow> int \<Rightarrow> outbox_row table \<Rightarrow> outbox_row option" where
  "getByLogical eventType aggregateId aggregateRevision t =
     find (\<lambda>r. ob_eventType r = eventType \<and> ob_aggregateId r = aggregateId
             \<and> ob_aggregateRevision r = aggregateRevision) t"

text \<open>
  \<open>notify\<close> calls every listener whose filter admits the event; a throwing listener is
  ignored. The value is the list of listeners called.
\<close>

definition notify :: "outbox \<Rightarrow> outbox_row \<Rightarrow> nat list" where
  "notify st ev =
     map fst (filter (\<lambda>(l, types). case types of None \<Rightarrow> True | Some ts \<Rightarrow> ob_eventType ev \<in> set ts)
       (ox_listeners st))"

definition subscribe :: "nat \<Rightarrow> string list option \<Rightarrow> outbox \<Rightarrow> outbox" where
  "subscribe entry eventTypes st = st\<lparr>ox_listeners := ox_listeners st @ [(entry, eventTypes)]\<rparr>"

definition unsubscribe :: "nat \<Rightarrow> outbox \<Rightarrow> outbox" where
  "unsubscribe entry st = st\<lparr>ox_listeners := filter (\<lambda>(l, _). l \<noteq> entry) (ox_listeners st)\<rparr>"

definition queue_notify :: "outbox_row \<Rightarrow> outbox \<Rightarrow> outbox" where
  "queue_notify ev st = st\<lparr>ox_microtasks := ox_microtasks st @ [ev]\<rparr>"

definition enqueue ::
  "enqueue_input \<Rightarrow> iso_time \<Rightarrow> string \<Rightarrow> outbox \<Rightarrow> outbox_error + (outbox \<times> outbox_row)" where
  "enqueue input now uuid st =
     (let rev = coalesce (or_else (ei_aggregateRevision input) (payloadRevision (ei_payload input))) 0
      in case getByLogical (ei_eventType input) (ei_aggregateId input) rev (ox_rows st) of
           Some existing \<Rightarrow> Inr (st, existing)
         | None \<Rightarrow>
             (let id = ''out_'' @ uuid;
                  event = \<lparr>ob_id = id, ob_eventType = ei_eventType input,
                           ob_aggregateId = ei_aggregateId input, ob_aggregateRevision = rev,
                           ob_payload = coalesce (ei_payload input) [], ob_status = OPending,
                           ob_attemptCount = 0, ob_failureCount = 0,
                           ob_availableAt = coalesce (ei_availableAt input) now,
                           ob_claimedBy = None, ob_claimExpiresAt = None, ob_claimToken = None,
                           ob_lastError = None, ob_createdAt = now, ob_completedAt = None\<rparr>
              in if id \<in> ob_id ` set (ox_rows st) then Inl OutboxUniqueViolation
                 else Inr (queue_notify event (st\<lparr>ox_rows := ox_rows st @ [event]\<rparr>), event)))"

text \<open>
  \<open>claimNext\<close> is a select followed by a compare-and-set. The two are separate definitions,
  so that another process may run between them.
\<close>

definition claim_eligible :: "iso_time \<Rightarrow> string list \<Rightarrow> string list \<Rightarrow> outbox_row \<Rightarrow> bool" where
  "claim_eligible now eventTypes exclude r \<longleftrightarrow>
     ob_status r = OPending \<and> ob_availableAt r \<le> now
     \<and> (eventTypes \<noteq> [] \<longrightarrow> ob_eventType r \<in> set eventTypes)
     \<and> (exclude \<noteq> [] \<longrightarrow> ob_aggregateId r \<notin> set exclude)"

definition claim_candidate ::
  "iso_time \<Rightarrow> string list \<Rightarrow> string list \<Rightarrow> outbox \<Rightarrow> outbox_row option" where
  "claim_candidate now eventTypes exclude st =
     first_row (order_asc ob_availableAt (filter (claim_eligible now eventTypes exclude) (ox_rows st)))"

definition claim_cas ::
  "string \<Rightarrow> iso_time \<Rightarrow> string \<Rightarrow> outbox_row \<Rightarrow> outbox \<Rightarrow> outbox \<times> outbox_row option" where
  "claim_cas workerId claimExpiresAt token candidate st =
     (let P = (\<lambda>r. ob_id r = ob_id candidate \<and> ob_status r = OPending);
          f = (\<lambda>r. r\<lparr>ob_status := OClaimed, ob_claimedBy := Some workerId,
                     ob_claimExpiresAt := Some claimExpiresAt, ob_claimToken := Some token,
                     ob_attemptCount := ob_attemptCount candidate + 1\<rparr>);
          st' = st\<lparr>ox_rows := sql_update P f (ox_rows st)\<rparr>
      in if sql_changes P (ox_rows st) = 0 then (st', None)
         else (st', find (\<lambda>r. ob_id r = ob_id candidate) (ox_rows st')))"

definition claimNext ::
  "string \<Rightarrow> int \<Rightarrow> string list \<Rightarrow> string list \<Rightarrow> iso_time \<Rightarrow> iso_time \<Rightarrow> string \<Rightarrow> outbox
     \<Rightarrow> outbox \<times> outbox_row option" where
  "claimNext workerId leaseMs eventTypes exclude now now_ms uuid st =
     (case claim_candidate now eventTypes exclude st of
        None \<Rightarrow> (st, None)
      | Some candidate \<Rightarrow> claim_cas workerId (now_ms + leaseMs) (''clm_'' @ uuid) candidate st)"

text \<open>
  \<open>reapExpiredClaims\<close> selects the expired claims and resets each with a compare-and-set on
  the claim it saw.
\<close>

definition reap_expired :: "iso_time \<Rightarrow> outbox_row \<Rightarrow> bool" where
  "reap_expired cutoff r \<longleftrightarrow>
     ob_status r = OClaimed
     \<and> (case ob_claimExpiresAt r of None \<Rightarrow> False | Some e \<Rightarrow> e < cutoff)"

definition reap_reset :: "outbox_row \<Rightarrow> outbox_row" where
  "reap_reset r =
     r\<lparr>ob_status := OPending, ob_claimedBy := None, ob_claimExpiresAt := None, ob_claimToken := None\<rparr>"

definition reap_matches :: "iso_time \<Rightarrow> outbox_row \<Rightarrow> outbox_row \<Rightarrow> bool" where
  "reap_matches cutoff seen r \<longleftrightarrow>
     ob_id r = ob_id seen \<and> reap_expired cutoff r
     \<and> ob_claimedBy r = ob_claimedBy seen \<and> ob_claimToken r = ob_claimToken seen
     \<and> ob_claimExpiresAt r = ob_claimExpiresAt seen"

fun reap_loop :: "iso_time \<Rightarrow> outbox_row list \<Rightarrow> outbox_row table \<Rightarrow> outbox_row table \<times> nat" where
  "reap_loop cutoff [] t = (t, 0)"
| "reap_loop cutoff (seen # rest) t =
     (let (t', n) = reap_loop cutoff rest (sql_update (reap_matches cutoff seen) reap_reset t)
      in (t', sql_changes (reap_matches cutoff seen) t + n))"

definition reapExpiredClaims :: "int \<Rightarrow> iso_time \<Rightarrow> outbox \<Rightarrow> outbox \<times> nat" where
  "reapExpiredClaims leaseMs now_ms st =
     (let cutoff = now_ms - leaseMs;
          (t, n) = reap_loop cutoff (filter (reap_expired cutoff) (ox_rows st)) (ox_rows st)
      in (st\<lparr>ox_rows := t\<rparr>, n))"

definition outbox_get :: "string \<Rightarrow> outbox \<Rightarrow> outbox_row option" where
  "outbox_get eventId st = find (\<lambda>r. ob_id r = eventId) (ox_rows st)"

definition listByAggregate :: "string \<Rightarrow> outbox \<Rightarrow> outbox_row list" where
  "listByAggregate aggregateId st =
     order_asc ob_createdAt (filter (\<lambda>r. ob_aggregateId r = aggregateId) (ox_rows st))"

definition fencedClaimWhere :: "iso_time \<Rightarrow> outbox_claim \<Rightarrow> outbox_row \<Rightarrow> bool" where
  "fencedClaimWhere now claim r \<longleftrightarrow>
     ob_id r = oc_eventId claim \<and> ob_status r = OClaimed
     \<and> ob_claimedBy r = Some (oc_claimOwner claim) \<and> ob_claimToken r = Some (oc_claimToken claim)
     \<and> (case ob_claimExpiresAt r of None \<Rightarrow> True | Some e \<Rightarrow> e > now)"

definition fenced_update ::
  "(outbox_row \<Rightarrow> outbox_row) \<Rightarrow> iso_time \<Rightarrow> outbox_claim \<Rightarrow> outbox \<Rightarrow> outbox \<times> bool" where
  "fenced_update f now claim st =
     (st\<lparr>ox_rows := sql_update (fencedClaimWhere now claim) f (ox_rows st)\<rparr>,
      sql_changes (fencedClaimWhere now claim) (ox_rows st) = 1)"

definition outbox_release ::
  "outbox_claim \<Rightarrow> int \<Rightarrow> string option \<Rightarrow> iso_time \<Rightarrow> iso_time \<Rightarrow> outbox \<Rightarrow> outbox \<times> bool" where
  "outbox_release claim retryDelayMs note now_ms now st =
     fenced_update
       (\<lambda>r. r\<lparr>ob_status := OPending, ob_claimedBy := None, ob_claimExpiresAt := None,
              ob_claimToken := None, ob_availableAt := now_ms + retryDelayMs, ob_lastError := note\<rparr>)
       now claim st"

definition outbox_markCompleted ::
  "outbox_claim \<Rightarrow> iso_time \<Rightarrow> iso_time \<Rightarrow> outbox \<Rightarrow> outbox \<times> bool" where
  "outbox_markCompleted claim at now st =
     fenced_update
       (\<lambda>r. r\<lparr>ob_status := OCompleted, ob_completedAt := Some at, ob_claimToken := None,
              ob_claimedBy := None, ob_claimExpiresAt := None\<rparr>)
       now claim st"

definition outbox_markFailed ::
  "outbox_claim \<Rightarrow> string \<Rightarrow> int \<Rightarrow> iso_time \<Rightarrow> iso_time \<Rightarrow> iso_time \<Rightarrow> outbox \<Rightarrow> outbox \<times> bool" where
  "outbox_markFailed claim err retryDelayMs now_read now_ms now_write st =
     (case find (fencedClaimWhere now_read claim) (ox_rows st) of
        None \<Rightarrow> (st, False)
      | Some row \<Rightarrow>
          (let failures = ob_failureCount row + 1
           in if failures \<ge> 3
              then fenced_update
                     (\<lambda>r. r\<lparr>ob_status := ODeadLettered, ob_failureCount := failures,
                            ob_lastError := Some err, ob_claimToken := None, ob_claimedBy := None,
                            ob_claimExpiresAt := None\<rparr>)
                     now_write claim st
              else fenced_update
                     (\<lambda>r. r\<lparr>ob_status := OPending, ob_claimedBy := None, ob_claimExpiresAt := None,
                            ob_claimToken := None, ob_failureCount := failures,
                            ob_lastError := Some err,
                            ob_availableAt := now_ms + retryDelayMs * 2 ^ (failures - 1)\<rparr>)
                     now_write claim st))"

definition outbox_markSuspended ::
  "outbox_claim \<Rightarrow> string \<Rightarrow> iso_time \<Rightarrow> outbox \<Rightarrow> outbox \<times> bool" where
  "outbox_markSuspended claim reason now st =
     fenced_update
       (\<lambda>r. r\<lparr>ob_status := OSuspended, ob_claimedBy := None, ob_claimExpiresAt := None,
              ob_claimToken := None, ob_lastError := Some reason\<rparr>)
       now claim st"

text \<open>
  \<open>resumeSuspended\<close>. SQLite's \<open>json_extract\<close> yields the text of a string, and the
  rendered JSON of an array or object (\<open>render\<close>, a parameter); a number, a boolean or null
  never equals the text it is compared with.
\<close>

definition key_char :: "char \<Rightarrow> bool" where
  "key_char c \<longleftrightarrow>
     (CHR ''A'' \<le> c \<and> c \<le> CHR ''Z'') \<or> (CHR ''a'' \<le> c \<and> c \<le> CHR ''z'')
     \<or> (CHR ''0'' \<le> c \<and> c \<le> CHR ''9'') \<or> c = CHR ''_''"

definition payload_field_is :: "(json \<Rightarrow> string) \<Rightarrow> string \<Rightarrow> string \<Rightarrow> outbox_row \<Rightarrow> bool" where
  "payload_field_is render key val r =
     (case js_get (ob_payload r) key of
        Some (JStr s) \<Rightarrow> s = val
      | Some (JArr xs) \<Rightarrow> render (JArr xs) = val
      | Some (JObj xs) \<Rightarrow> render (JObj xs) = val
      | _ \<Rightarrow> False)"

definition reason_matches :: "string option \<Rightarrow> outbox_row \<Rightarrow> bool" where
  "reason_matches reasonPrefix r =
     (case reasonPrefix of
        None \<Rightarrow> True
      | Some p \<Rightarrow> (case ob_lastError r of None \<Rightarrow> False | Some e \<Rightarrow> take (length p) e = p))"

fun resume_loop :: "iso_time \<Rightarrow> string list \<Rightarrow> outbox \<Rightarrow> outbox \<times> nat" where
  "resume_loop now [] st = (st, 0)"
| "resume_loop now (eventId # rest) st =
     (let P = (\<lambda>r. ob_id r = eventId \<and> ob_status r = OSuspended);
          st' = st\<lparr>ox_rows := sql_update P
                     (\<lambda>r. r\<lparr>ob_status := OPending, ob_availableAt := now, ob_lastError := None\<rparr>)
                     (ox_rows st)\<rparr>
      in if sql_changes P (ox_rows st) \<noteq> 1 then resume_loop now rest st'
         else let st'' = (case find (\<lambda>r. ob_id r = eventId) (ox_rows st') of
                            None \<Rightarrow> st' | Some row \<Rightarrow> queue_notify row st');
                  (st3, n) = resume_loop now rest st''
              in (st3, Suc n))"

definition resumeSuspended ::
  "(json \<Rightarrow> string) \<Rightarrow> string \<Rightarrow> string \<Rightarrow> string \<Rightarrow> string option \<Rightarrow> iso_time \<Rightarrow> outbox
     \<Rightarrow> outbox_error + (outbox \<times> nat)" where
  "resumeSuspended render eventType payloadKey payloadValue reasonPrefix now st =
     (if \<not> (payloadKey \<noteq> [] \<and> list_all key_char payloadKey) then Inl OutboxInvalidPayloadKey
      else if (case reasonPrefix of None \<Rightarrow> False
               | Some p \<Rightarrow> p = [] \<or> length p > 160
                   \<or> list_ex (\<lambda>c. of_char c \<in> {13 :: nat, 10, 0}) p)
      then Inl OutboxInvalidReasonPrefix
      else Inr (resume_loop now
             (map ob_id (filter (\<lambda>r. ob_eventType r = eventType \<and> ob_status r = OSuspended
                                  \<and> payload_field_is render payloadKey payloadValue r
                                  \<and> reason_matches reasonPrefix r) (ox_rows st)))
             st))"

definition outbox_listPending :: "nat \<Rightarrow> string list \<Rightarrow> outbox \<Rightarrow> outbox_row list" where
  "outbox_listPending limit eventTypes st =
     take limit (order_asc ob_availableAt
       (filter (\<lambda>r. ob_status r = OPending \<and> (eventTypes \<noteq> [] \<longrightarrow> ob_eventType r \<in> set eventTypes))
         (ox_rows st)))"

definition hasActive :: "string \<Rightarrow> string \<Rightarrow> outbox \<Rightarrow> bool" where
  "hasActive eventType aggregateId st =
     (find (\<lambda>r. ob_eventType r = eventType \<and> ob_aggregateId r = aggregateId
              \<and> (ob_status r = OPending \<or> ob_status r = OClaimed \<or> ob_status r = OSuspended))
        (ox_rows st) \<noteq> None)"

definition hasLogical :: "string \<Rightarrow> string \<Rightarrow> int \<Rightarrow> outbox \<Rightarrow> bool" where
  "hasLogical eventType aggregateId aggregateRevision st =
     (getByLogical eventType aggregateId aggregateRevision (ox_rows st) \<noteq> None)"

definition redriveDeadLetter ::
  "string \<Rightarrow> string \<Rightarrow> int \<Rightarrow> iso_time \<Rightarrow> outbox \<Rightarrow> outbox \<times> outbox_row option" where
  "redriveDeadLetter eventType aggregateId aggregateRevision now st =
     (case getByLogical eventType aggregateId aggregateRevision (ox_rows st) of
        None \<Rightarrow> (st, None)
      | Some existing \<Rightarrow>
          if ob_status existing \<noteq> ODeadLettered then (st, None)
          else let P = (\<lambda>r. ob_id r = ob_id existing \<and> ob_status r = ODeadLettered
                         \<and> ob_failureCount r = ob_failureCount existing
                         \<and> ob_attemptCount r = ob_attemptCount existing);
                   st' = st\<lparr>ox_rows := sql_update P
                           (\<lambda>r. r\<lparr>ob_status := OPending, ob_attemptCount := 0, ob_failureCount := 0,
                                  ob_availableAt := now, ob_claimedBy := None,
                                  ob_claimExpiresAt := None, ob_claimToken := None,
                                  ob_lastError := None, ob_completedAt := None\<rparr>) (ox_rows st)\<rparr>
               in if sql_changes P (ox_rows st) \<noteq> 1 then (st', None)
                  else (case find (\<lambda>r. ob_id r = ob_id existing) (ox_rows st') of
                          None \<Rightarrow> (st', None)
                        | Some ev \<Rightarrow> (queue_notify ev st', Some ev)))"

section \<open>Every transition that presents a claim\<close>

text \<open>
  The four fenced transitions as one family. \<open>elapsed\<close> is the time between the read and the
  write of \<open>markFailed\<close>, so that its first clock reading is not later than its second.
\<close>

datatype fenced_op =
    ActRelease int "string option" iso_time
  | ActComplete iso_time
  | ActFail string int iso_time nat
  | ActSuspend string

fun run_fenced :: "fenced_op \<Rightarrow> iso_time \<Rightarrow> outbox_claim \<Rightarrow> outbox \<Rightarrow> outbox \<times> bool" where
  "run_fenced (ActRelease delay note now_ms) now c st = outbox_release c delay note now_ms now st"
| "run_fenced (ActComplete at) now c st = outbox_markCompleted c at now st"
| "run_fenced (ActFail err delay now_ms elapsed) now c st =
     outbox_markFailed c err delay (now - int elapsed) now_ms now st"
| "run_fenced (ActSuspend reason) now c st = outbox_markSuspended c reason now st"

text \<open>
  The steps of the outbox, with the set of tokens minted so far as a history variable:
  \<open>randomUUID\<close> never repeats, so a claim takes a token outside it.
\<close>

type_synonym outbox_sys = "outbox \<times> string set"

inductive outbox_step :: "outbox_sys \<Rightarrow> outbox_sys \<Rightarrow> bool" where
  step_enqueue: "enqueue input now uuid st = Inr (st', ev) \<Longrightarrow> outbox_step (st, T) (st', T)"
| step_claim: "''clm_'' @ uuid \<notin> T \<Longrightarrow>
     claimNext w leaseMs types excl now now_ms uuid st = (st', r) \<Longrightarrow>
     outbox_step (st, T) (st', insert (''clm_'' @ uuid) T)"
| step_reap: "reapExpiredClaims leaseMs now_ms st = (st', n) \<Longrightarrow> outbox_step (st, T) (st', T)"
| step_fenced: "run_fenced x now c st = (st', b) \<Longrightarrow> outbox_step (st, T) (st', T)"
| step_resume: "resumeSuspended render et k v p now st = Inr (st', n) \<Longrightarrow>
     outbox_step (st, T) (st', T)"
| step_redrive: "redriveDeadLetter et ag rv now st = (st', r) \<Longrightarrow> outbox_step (st, T) (st', T)"
| step_subscribe: "outbox_step (st, T) (subscribe l types st, T)"
| step_unsubscribe: "outbox_step (st, T) (unsubscribe l st, T)"

definition outbox_start :: "outbox_sys \<Rightarrow> bool" where
  "outbox_start s \<longleftrightarrow> ox_rows (fst s) = []"

section \<open>The invariant\<close>

definition row_ok :: "outbox_row \<Rightarrow> bool" where
  "row_ok r \<longleftrightarrow>
     (if ob_status r = OClaimed
      then ob_claimedBy r \<noteq> None \<and> ob_claimExpiresAt r \<noteq> None \<and> ob_claimToken r \<noteq> None
      else ob_claimedBy r = None \<and> ob_claimExpiresAt r = None \<and> ob_claimToken r = None)
     \<and> (if ob_status r = ODeadLettered then ob_failureCount r = 3 else ob_failureCount r < 3)"

definition row_tokens :: "outbox \<Rightarrow> string set" where
  "row_tokens st = {tok. \<exists>r \<in> set (ox_rows st). ob_claimToken r = Some tok}"

definition outbox_ok :: "outbox_sys \<Rightarrow> bool" where
  "outbox_ok s \<longleftrightarrow>
     (let t = ox_rows (fst s)
      in distinct (map ob_id t) \<and> distinct (map ob_logical t)
         \<and> (\<forall>r \<in> set t. row_ok r)
         \<and> row_tokens (fst s) \<subseteq> snd s
         \<and> (\<forall>r \<in> set t. \<forall>r' \<in> set t. \<forall>tok.
              ob_claimToken r = Some tok \<longrightarrow> ob_claimToken r' = Some tok \<longrightarrow> ob_id r = ob_id r'))"

lemma outbox_okD:
  assumes "outbox_ok (st, T)"
  shows "distinct (map ob_id (ox_rows st))"
    and "distinct (map ob_logical (ox_rows st))"
    and "r \<in> set (ox_rows st) \<Longrightarrow> row_ok r"
    and "row_tokens st \<subseteq> T"
    and "r \<in> set (ox_rows st) \<Longrightarrow> r' \<in> set (ox_rows st) \<Longrightarrow>
      ob_claimToken r = Some tok \<Longrightarrow> ob_claimToken r' = Some tok \<Longrightarrow> ob_id r = ob_id r'"
  using assms unfolding outbox_ok_def Let_def fst_conv snd_conv by blast+

lemma outbox_okI:
  assumes "distinct (map ob_id (ox_rows st))" "distinct (map ob_logical (ox_rows st))"
    and "\<And>r. r \<in> set (ox_rows st) \<Longrightarrow> row_ok r" "row_tokens st \<subseteq> T"
    and "\<And>r r' tok. r \<in> set (ox_rows st) \<Longrightarrow> r' \<in> set (ox_rows st) \<Longrightarrow>
      ob_claimToken r = Some tok \<Longrightarrow> ob_claimToken r' = Some tok \<Longrightarrow> ob_id r = ob_id r'"
  shows "outbox_ok (st, T)"
  using assms unfolding outbox_ok_def Let_def fst_conv snd_conv by blast

lemma row_tokens_listeners [simp]: "row_tokens (st\<lparr>ox_listeners := l\<rparr>) = row_tokens st"
  by (simp add: row_tokens_def)

lemma row_tokens_queue [simp]: "row_tokens (queue_notify ev st) = row_tokens st"
  by (simp add: row_tokens_def queue_notify_def)

lemma ox_rows_queue [simp]: "ox_rows (queue_notify ev st) = ox_rows st"
  by (simp add: queue_notify_def)

lemma outbox_ok_queue [simp]: "outbox_ok (queue_notify ev st, T) = outbox_ok (st, T)"
  by (simp add: outbox_ok_def)

lemma outbox_ok_listeners [simp]: "outbox_ok (st\<lparr>ox_listeners := l\<rparr>, T) = outbox_ok (st, T)"
  by (simp add: outbox_ok_def)

text \<open>A write that clears the token of every row it touches keeps the invariant.\<close>

definition clearing :: "(outbox_row \<Rightarrow> bool) \<Rightarrow> (outbox_row \<Rightarrow> outbox_row) \<Rightarrow> outbox_row table \<Rightarrow> bool" where
  "clearing P f t \<longleftrightarrow>
     (\<forall>r \<in> set t. P r \<longrightarrow>
        ob_id (f r) = ob_id r \<and> ob_logical (f r) = ob_logical r \<and> row_ok (f r)
        \<and> ob_claimToken (f r) = None)"

lemma clearing_keeps:
  assumes ok: "outbox_ok (st, T)" and cl: "clearing P f (ox_rows st)"
  shows "outbox_ok (st\<lparr>ox_rows := sql_update P f (ox_rows st)\<rparr>, T)"
    and "row_tokens (st\<lparr>ox_rows := sql_update P f (ox_rows st)\<rparr>) \<subseteq> row_tokens st"
proof -
  let ?t = "ox_rows st" and ?u = "sql_update P f (ox_rows st)"
  have ids: "map ob_id ?u = map ob_id ?t" and logs: "map ob_logical ?u = map ob_logical ?t"
    using cl by (auto simp: clearing_def intro: map_sql_update)
  have rows: "row_ok r \<and> (ob_claimToken r = Some tok \<longrightarrow> r \<in> set ?t)" if "r \<in> set ?u" for r tok
    using that cl ok by (auto simp: set_sql_update clearing_def outbox_ok_def Let_def)
  show toks: "row_tokens (st\<lparr>ox_rows := ?u\<rparr>) \<subseteq> row_tokens st"
    using rows by (auto simp: row_tokens_def)
  show "outbox_ok (st\<lparr>ox_rows := ?u\<rparr>, T)"
    using ok ids logs rows toks by (fastforce simp: outbox_ok_def Let_def)
qed

lemma fenced_row_ok:
  assumes "outbox_ok (st, T)" "r \<in> set (ox_rows st)" "fencedClaimWhere now c r"
  shows "ob_failureCount r < 3"
  using assms by (auto simp: outbox_ok_def Let_def fencedClaimWhere_def row_ok_def split: if_splits)

lemma fenced_update_keeps:
  assumes "outbox_ok (st, T)" "clearing (fencedClaimWhere now c) f (ox_rows st)"
  shows "outbox_ok (fst (fenced_update f now c st), T)"
    and "row_tokens (fst (fenced_update f now c st)) \<subseteq> row_tokens st"
  using clearing_keeps [OF assms] by (simp_all add: fenced_update_def)

lemma fenced_same_row:
  assumes "outbox_ok (st, T)" "r \<in> set (ox_rows st)" "r' \<in> set (ox_rows st)"
    and "fencedClaimWhere now c r" "fencedClaimWhere now' c r'"
  shows "r' = r"
  using assms key_unique [of ob_id "ox_rows st" r' r]
  by (simp add: outbox_ok_def Let_def fencedClaimWhere_def)

lemma run_fenced_shape:
  assumes ok: "outbox_ok (st, T)"
  shows "run_fenced x now c st = (st, False) \<and> \<not> (\<exists>r \<in> set (ox_rows st). fencedClaimWhere now c r)
    \<or> (\<exists>f. run_fenced x now c st = fenced_update f now c st
          \<and> clearing (fencedClaimWhere now c) f (ox_rows st))"
proof (cases x)
  case (ActFail err delay now_ms el)
  show ?thesis
  proof (cases "find (fencedClaimWhere (now - int el) c) (ox_rows st)")
    case None
    have "\<not> fencedClaimWhere now c r" if "r \<in> set (ox_rows st)" for r
    proof
      assume "fencedClaimWhere now c r"
      then have "fencedClaimWhere (now - int el) c r"
        by (auto simp: fencedClaimWhere_def split: option.splits)
      with None that show False by (auto simp: find_None_iff_all)
    qed
    with None ActFail show ?thesis by (simp add: outbox_markFailed_def)
  next
    case (Some row)
    then have row: "row \<in> set (ox_rows st)" "fencedClaimWhere (now - int el) c row"
      by (auto dest: find_Some_mem)
    have only: "r = row" if "r \<in> set (ox_rows st)" "fencedClaimWhere now c r" for r
      using fenced_same_row [OF ok row(1) that(1) row(2) that(2)] .
    have "ob_failureCount row < 3" using fenced_row_ok [OF ok row] .
    then show ?thesis using Some ActFail only
      by (auto simp: outbox_markFailed_def Let_def clearing_def row_ok_def ob_logical_def)
  qed
qed (use fenced_row_ok [OF ok] in
    \<open>auto simp: outbox_release_def outbox_markCompleted_def outbox_markSuspended_def
      clearing_def row_ok_def ob_logical_def\<close>)

definition outbox_holds :: "iso_time \<Rightarrow> outbox_claim \<Rightarrow> outbox_sys \<Rightarrow> bool" where
  "outbox_holds now c s \<longleftrightarrow> (\<exists>r \<in> set (ox_rows (fst s)). fencedClaimWhere now c r)"

definition outbox_spent :: "outbox_claim \<Rightarrow> outbox_sys \<Rightarrow> bool" where
  "outbox_spent c s \<longleftrightarrow> oc_claimToken c \<in> snd s \<and> oc_claimToken c \<notin> row_tokens (fst s)"

definition run_fenced_sys ::
  "fenced_op \<Rightarrow> iso_time \<Rightarrow> outbox_claim \<Rightarrow> outbox_sys \<Rightarrow> outbox_sys \<times> bool" where
  "run_fenced_sys x now c s =
     (let (st', b) = run_fenced x now c (fst s) in ((st', snd s), b))"

lemma fenced_changes_one_iff:
  assumes "outbox_ok (st, T)"
  shows "sql_changes (fencedClaimWhere now c) (ox_rows st) = 1
    \<longleftrightarrow> (\<exists>r \<in> set (ox_rows st). fencedClaimWhere now c r)"
  using assms
  by (intro sql_changes_eq_one_iff [where k = ob_id and v = "oc_eventId c"])
    (auto simp: outbox_ok_def Let_def fencedClaimWhere_def)

lemma run_fenced_keeps:
  assumes "outbox_ok (st, T)" "run_fenced x now c st = (st', b)"
  shows "outbox_ok (st', T) \<and> row_tokens st' \<subseteq> row_tokens st"
  using run_fenced_shape [OF assms(1), of x now c] assms fenced_update_keeps [OF assms(1)]
  by (metis fst_conv order_refl)

lemma fenced_update_reject:
  assumes "\<forall>r \<in> set (ox_rows st). \<not> fencedClaimWhere now c r"
  shows "fenced_update f now c st = (st, False)"
  using assms sql_changes_zero_iff [of "fencedClaimWhere now c" "ox_rows st"]
  by (simp add: fenced_update_def sql_update_none)

lemma run_fenced_reject:
  assumes "\<not> outbox_holds now c (st, T)"
  shows "run_fenced x now c st = (st, False)"
  using assms fenced_update_reject [of st now c]
  by (cases x) (auto simp: outbox_holds_def outbox_release_def outbox_markCompleted_def
      outbox_markFailed_def outbox_markSuspended_def Let_def split: option.splits)

lemma run_fenced_accept:
  assumes "outbox_ok (st, T)" "outbox_holds now c (st, T)"
  shows "snd (run_fenced x now c st)"
  using run_fenced_shape [OF assms(1), of x now c] assms fenced_changes_one_iff [OF assms(1)]
  by (auto simp: outbox_holds_def fenced_update_def)

lemma run_fenced_spends:
  assumes ok: "outbox_ok (st, T)" and h: "outbox_holds now c (st, T)"
  shows "oc_claimToken c \<in> T \<and> oc_claimToken c \<notin> row_tokens (fst (run_fenced x now c st))"
proof -
  obtain r where r: "r \<in> set (ox_rows st)" "fencedClaimWhere now c r"
    using h by (auto simp: outbox_holds_def)
  then have tok: "ob_claimToken r = Some (oc_claimToken c)" by (simp add: fencedClaimWhere_def)
  have inT: "oc_claimToken c \<in> T" using ok r tok by (auto simp: outbox_ok_def row_tokens_def Let_def)
  obtain f where f: "run_fenced x now c st = fenced_update f now c st"
      "clearing (fencedClaimWhere now c) f (ox_rows st)"
    using run_fenced_shape [OF ok, of x now c] h by (auto simp: outbox_holds_def)
  have "fencedClaimWhere now c r'" if "r' \<in> set (ox_rows st)" "ob_claimToken r' = Some (oc_claimToken c)" for r'
  proof -
    have "ob_id r' = ob_id r" using outbox_okD(5) [OF ok that(1) r(1) that(2) tok] .
    then have "r' = r" using outbox_okD(1) [OF ok] r that by (intro key_unique [of ob_id "ox_rows st"])
    then show ?thesis using r by simp
  qed
  with f(2) have "oc_claimToken c \<notin> row_tokens (fst (fenced_update f now c st))"
    by (auto simp: row_tokens_def fenced_update_def set_sql_update clearing_def)
  with f(1) inT show ?thesis by simp
qed

lemma enqueue_keeps:
  assumes ok: "outbox_ok (st, T)" and e: "enqueue input now uuid st = Inr (st', ev)"
  shows "outbox_ok (st', T) \<and> row_tokens st' \<subseteq> row_tokens st"
proof -
  let ?rv = "coalesce (or_else (ei_aggregateRevision input) (payloadRevision (ei_payload input))) 0"
  show ?thesis
  proof (cases "getByLogical (ei_eventType input) (ei_aggregateId input) ?rv (ox_rows st)")
    case (Some r)
    with e ok show ?thesis by (simp add: enqueue_def)
  next
    case None
    then have "(ei_eventType input, ei_aggregateId input, ?rv) \<notin> ob_logical ` set (ox_rows st)"
      by (auto simp: getByLogical_def find_None_iff_all ob_logical_def)
    then obtain fresh: "ob_logical ev \<notin> ob_logical ` set (ox_rows st)" "ob_id ev \<notin> ob_id ` set (ox_rows st)"
      and ev: "row_ok ev" "ob_claimToken ev = None"
      and st': "st' = queue_notify ev (st\<lparr>ox_rows := ox_rows st @ [ev]\<rparr>)"
      using None e by (auto simp: enqueue_def Let_def row_ok_def ob_logical_def split: if_splits)
    have toks: "row_tokens st' = row_tokens st" using ev by (auto simp: st' row_tokens_def)
    have "outbox_ok (st', T)"
    proof (rule outbox_okI)
      show "ob_id r = ob_id r'" if "r \<in> set (ox_rows st')" "r' \<in> set (ox_rows st')"
        "ob_claimToken r = Some tok" "ob_claimToken r' = Some tok" for r r' tok
      proof -
        have "r \<in> set (ox_rows st)" "r' \<in> set (ox_rows st)" using that ev(2) by (auto simp: st')
        then show ?thesis using that(3,4) by (rule outbox_okD(5) [OF ok])
      qed
    qed (use fresh ev toks outbox_okD [OF ok] in \<open>auto simp: st'\<close>)
    with toks show ?thesis by simp
  qed
qed

lemma claim_candidateD:
  assumes "claim_candidate now types excl st = Some r"
  shows "r \<in> set (ox_rows st) \<and> claim_eligible now types excl r"
  using first_row_SomeD [OF assms [unfolded claim_candidate_def]] by simp

lemma claim_cas_keeps:
  assumes ok: "outbox_ok (st, T)" and new: "tok \<notin> T"
    and e: "claim_cas w expiry tok cand st = (st', r)"
  shows "outbox_ok (st', insert tok T) \<and> row_tokens st' \<subseteq> insert tok (row_tokens st)"
proof -
  let ?P = "\<lambda>r. ob_id r = ob_id cand \<and> ob_status r = OPending"
  let ?f = "\<lambda>r. r\<lparr>ob_status := OClaimed, ob_claimedBy := Some w, ob_claimExpiresAt := Some expiry,
                   ob_claimToken := Some tok, ob_attemptCount := ob_attemptCount cand + 1\<rparr>"
  let ?u = "sql_update ?P ?f (ox_rows st)"
  have st': "st' = st\<lparr>ox_rows := ?u\<rparr>"
    using e by (auto simp: claim_cas_def Let_def split: if_splits)
  have ids: "map ob_id ?u = map ob_id (ox_rows st)"
    and logs: "map ob_logical ?u = map ob_logical (ox_rows st)"
    by (auto intro!: map_sql_update simp: ob_logical_def)
  have rows: "row_ok r" if "r \<in> set ?u" for r
  proof -
    have upd: "row_ok (?f r0)" if "row_ok r0" "ob_status r0 = OPending" for r0
      using that by (simp add: row_ok_def)
    show ?thesis using that outbox_okD(3) [OF ok] upd by (auto simp: set_sql_update)
  qed
  have tok_new: "ob_claimToken r \<noteq> Some tok" if "r \<in> set (ox_rows st)" for r
    using that outbox_okD(4) [OF ok] new by (auto simp: row_tokens_def)
  have toks: "row_tokens st' \<subseteq> insert tok (row_tokens st)"
    by (auto simp: st' row_tokens_def set_sql_update)
  have prov: "(k = tok \<and> ob_id r = ob_id cand) \<or> (k \<noteq> tok \<and> r \<in> set (ox_rows st))"
    if "r \<in> set ?u" "ob_claimToken r = Some k" for r k
    using that tok_new by (auto simp: set_sql_update)
  have inj: "ob_id r = ob_id r'" if "r \<in> set ?u" "r' \<in> set ?u" "ob_claimToken r = Some k"
      "ob_claimToken r' = Some k" for r r' k
    using prov [OF that(1,3)] prov [OF that(2,4)] outbox_okD(5) [OF ok _ _ that(3,4)] by auto
  have "outbox_ok (st', insert tok T)"
  proof (rule outbox_okI)
    show "distinct (map ob_id (ox_rows st'))" using outbox_okD(1) [OF ok] ids by (simp add: st')
    show "distinct (map ob_logical (ox_rows st'))" using outbox_okD(2) [OF ok] logs by (simp add: st')
    show "row_tokens st' \<subseteq> insert tok T" using toks outbox_okD(4) [OF ok] by blast
    show "row_ok r" if "r \<in> set (ox_rows st')" for r using that rows by (simp add: st')
    show "ob_id r = ob_id r'" if "r \<in> set (ox_rows st')" "r' \<in> set (ox_rows st')"
      "ob_claimToken r = Some k" "ob_claimToken r' = Some k" for r r' k
      using inj [OF _ _ that(3,4)] that(1,2) by (simp add: st')
  qed
  with toks show ?thesis by simp
qed

lemma outbox_ok_mono: "outbox_ok (st, T) \<Longrightarrow> T \<subseteq> U \<Longrightarrow> outbox_ok (st, U)"
  unfolding outbox_ok_def Let_def fst_conv snd_conv by blast

lemma claimNext_keeps:
  assumes "outbox_ok (st, T)" "''clm_'' @ uuid \<notin> T"
    and "claimNext w leaseMs types excl now now_ms uuid st = (st', r)"
  shows "outbox_ok (st', insert (''clm_'' @ uuid) T)
    \<and> row_tokens st' \<subseteq> insert (''clm_'' @ uuid) (row_tokens st)"
  using assms claim_cas_keeps [OF assms(1,2)]
  by (fastforce simp: claimNext_def split: option.splits intro: outbox_ok_mono)

lemma reap_clearing: "outbox_ok (st, T) \<Longrightarrow> clearing (reap_matches cutoff seen) reap_reset (ox_rows st)"
  by (auto simp: clearing_def reap_matches_def reap_expired_def reap_reset_def row_ok_def ob_logical_def
      outbox_ok_def Let_def split: if_splits)

lemma reap_loop_keeps:
  assumes "outbox_ok (st, T)"
  shows "outbox_ok (st\<lparr>ox_rows := fst (reap_loop cutoff seen (ox_rows st))\<rparr>, T)
    \<and> row_tokens (st\<lparr>ox_rows := fst (reap_loop cutoff seen (ox_rows st))\<rparr>) \<subseteq> row_tokens st"
  using assms
proof (induction seen arbitrary: st)
  case Nil
  then show ?case by simp
next
  case (Cons r rest)
  note k = clearing_keeps [OF Cons.prems reap_clearing [OF Cons.prems], of cutoff r]
  from Cons.IH [OF k(1)] k(2) show ?case
    by (auto simp: Let_def case_prod_beta)
qed

lemma reapExpiredClaims_keeps:
  assumes "outbox_ok (st, T)" "reapExpiredClaims leaseMs now_ms st = (st', n)"
  shows "outbox_ok (st', T) \<and> row_tokens st' \<subseteq> row_tokens st"
  using reap_loop_keeps [OF assms(1)] assms(2)
  by (auto simp: reapExpiredClaims_def Let_def case_prod_beta)

lemma resume_loop_keeps:
  assumes "outbox_ok (st, T)"
  shows "outbox_ok (fst (resume_loop now ids st), T)
    \<and> row_tokens (fst (resume_loop now ids st)) \<subseteq> row_tokens st"
  using assms
proof (induction ids arbitrary: st)
  case Nil
  then show ?case by simp
next
  case (Cons i rest)
  let ?P = "\<lambda>r. ob_id r = i \<and> ob_status r = OSuspended"
  let ?f = "\<lambda>r. r\<lparr>ob_status := OPending, ob_availableAt := now, ob_lastError := None\<rparr>"
  let ?s = "st\<lparr>ox_rows := sql_update ?P ?f (ox_rows st)\<rparr>"
  have "clearing ?P ?f (ox_rows st)"
    using Cons.prems by (auto simp: clearing_def row_ok_def ob_logical_def outbox_ok_def Let_def split: if_splits)
  note k = clearing_keeps [OF Cons.prems this]
  have next_state: "fst (resume_loop now (i # rest) st) = fst (resume_loop now rest s')"
    if "s' = (if sql_changes ?P (ox_rows st) \<noteq> 1 then ?s
              else case find (\<lambda>r. ob_id r = i) (ox_rows ?s) of None \<Rightarrow> ?s | Some row \<Rightarrow> queue_notify row ?s)" for s'
    using that by (simp add: Let_def case_prod_beta)
  let ?n = "if sql_changes ?P (ox_rows st) \<noteq> 1 then ?s
            else case find (\<lambda>r. ob_id r = i) (ox_rows ?s) of None \<Rightarrow> ?s | Some row \<Rightarrow> queue_notify row ?s"
  have "outbox_ok (?n, T)" "row_tokens ?n \<subseteq> row_tokens st"
    using k by (auto split: option.splits)
  with Cons.IH [of ?n] next_state [OF refl] show ?case by auto
qed

lemma resumeSuspended_keeps:
  assumes "outbox_ok (st, T)" "resumeSuspended render et k v p now st = Inr (st', n)"
  shows "outbox_ok (st', T) \<and> row_tokens st' \<subseteq> row_tokens st"
proof -
  obtain ids where "resume_loop now ids st = (st', n)"
    using assms(2) by (simp add: resumeSuspended_def split: if_split_asm)
  then show ?thesis using resume_loop_keeps [OF assms(1), of now ids] by simp
qed

lemma redriveDeadLetter_keeps:
  assumes ok: "outbox_ok (st, T)" and e: "redriveDeadLetter et ag rv now st = (st', r)"
  shows "outbox_ok (st', T) \<and> row_tokens st' \<subseteq> row_tokens st"
proof -
  have "clearing P f (ox_rows st)"
    if "f = (\<lambda>r. r\<lparr>ob_status := OPending, ob_attemptCount := 0, ob_failureCount := 0,
               ob_availableAt := now, ob_claimedBy := None, ob_claimExpiresAt := None,
               ob_claimToken := None, ob_lastError := None, ob_completedAt := None\<rparr>)" for P f
    using that by (auto simp: clearing_def row_ok_def ob_logical_def)
  note k = clearing_keeps [OF ok this [OF refl]]
  from e ok show ?thesis
    unfolding redriveDeadLetter_def Let_def
    by (simp split: option.splits if_splits) (use k in force)+
qed

lemmas outbox_keeps =
  enqueue_keeps claimNext_keeps reapExpiredClaims_keeps run_fenced_keeps resumeSuspended_keeps
  redriveDeadLetter_keeps

lemma outbox_step_keeps:
  assumes "outbox_step s s'" "outbox_ok s"
  shows "outbox_ok s' \<and> snd s \<subseteq> snd s'
    \<and> row_tokens (fst s') \<subseteq> row_tokens (fst s) \<union> (snd s' - snd s)"
  using assms
proof (induction rule: outbox_step.induct)
  case (step_claim uuid T w leaseMs types excl now now_ms st st' r)
  from claimNext_keeps [OF step_claim(3,1,2)] show ?case using step_claim(1) by auto
qed (auto dest: outbox_keeps simp: subscribe_def unsubscribe_def)

interpretation outbox_inv: store_invariant outbox_start outbox_step outbox_ok
proof unfold_locales
  show "outbox_ok s" if "outbox_start s" for s
    using that by (simp add: outbox_start_def outbox_ok_def row_tokens_def Let_def)
  show "outbox_ok s'" if "outbox_ok s" "outbox_step s s'" for s s'
    using outbox_step_keeps [OF that(2,1)] by simp
qed

interpretation outbox_fence:
  fenced_store outbox_holds outbox_spent run_fenced_sys outbox_step outbox_ok
proof unfold_locales
  fix now c x and s :: outbox_sys
  obtain st T where s: "s = (st, T)" by (cases s)
  show "run_fenced_sys x now c s = (s, False)" if "\<not> outbox_holds now c s"
    using that run_fenced_reject [of now c st T x] by (simp add: s run_fenced_sys_def)
  show "snd (run_fenced_sys x now c s)" if "outbox_ok s" "outbox_holds now c s"
    using that run_fenced_accept [of st T now c x] by (simp add: s run_fenced_sys_def case_prod_beta)
  show "outbox_spent c (fst (run_fenced_sys x now c s))" if "outbox_ok s" "outbox_holds now c s"
    using that run_fenced_spends [of st T now c x]
    by (simp add: s run_fenced_sys_def case_prod_beta outbox_spent_def)
  show "\<not> outbox_holds now c s" if "outbox_spent c s"
    using that by (auto simp: outbox_spent_def outbox_holds_def row_tokens_def fencedClaimWhere_def)
  show "outbox_ok (fst (run_fenced_sys x now c s))" if "outbox_ok s"
    using that run_fenced_keeps [of st T x now c "fst (run_fenced x now c st)" "snd (run_fenced x now c st)"]
    by (simp add: s run_fenced_sys_def case_prod_beta)
next
  show "outbox_spent c s'" if "outbox_ok s" "outbox_spent c s" "outbox_step s s'" for c s s'
    using outbox_step_keeps [OF that(3,1)] that(2) by (auto simp: outbox_spent_def)
  show "outbox_ok s'" if "outbox_ok s" "outbox_step s s'" for s s'
    using that by (rule outbox_inv.inv_step)
qed

section \<open>Properties\<close>

subsection \<open>Claiming\<close>

lemma claim_cas_win:
  assumes ok: "outbox_ok (st, T)" and c: "cand \<in> set (ox_rows st)" "ob_status cand = OPending"
  shows "claim_cas w expiry tok cand st =
    (st\<lparr>ox_rows := sql_update (\<lambda>r. r = cand)
        (\<lambda>r. r\<lparr>ob_status := OClaimed, ob_claimedBy := Some w, ob_claimExpiresAt := Some expiry,
               ob_claimToken := Some tok, ob_attemptCount := ob_attemptCount cand + 1\<rparr>) (ox_rows st)\<rparr>,
     Some (cand\<lparr>ob_status := OClaimed, ob_claimedBy := Some w, ob_claimExpiresAt := Some expiry,
               ob_claimToken := Some tok, ob_attemptCount := ob_attemptCount cand + 1\<rparr>))"
proof -
  let ?P = "\<lambda>r. ob_id r = ob_id cand \<and> ob_status r = OPending"
  let ?f = "\<lambda>r. r\<lparr>ob_status := OClaimed, ob_claimedBy := Some w, ob_claimExpiresAt := Some expiry,
               ob_claimToken := Some tok, ob_attemptCount := ob_attemptCount cand + 1\<rparr>"
  have eq: "?P r \<longleftrightarrow> r = cand" if "r \<in> set (ox_rows st)" for r
    using that c key_unique [OF outbox_okD(1) [OF ok]] by metis
  have upd: "sql_update ?P ?f (ox_rows st) = sql_update (\<lambda>r. r = cand) ?f (ox_rows st)"
    using eq by (intro sql_update_cong_rows) simp
  have "map ob_id (sql_update (\<lambda>r. r = cand) ?f (ox_rows st)) = map ob_id (ox_rows st)"
    by (intro map_sql_update) simp
  moreover have "?f cand \<in> set (sql_update (\<lambda>r. r = cand) ?f (ox_rows st))"
    using c by (auto simp: set_sql_update)
  ultimately have "find (\<lambda>r. ob_id r = ob_id (?f cand)) (sql_update (\<lambda>r. r = cand) ?f (ox_rows st))
      = Some (?f cand)"
    using outbox_okD(1) [OF ok] by (intro find_unique_key) simp_all
  moreover have "sql_changes ?P (ox_rows st) \<noteq> 0"
    using c by (auto simp: sql_changes_zero_iff)
  ultimately show ?thesis unfolding claim_cas_def Let_def upd by simp
qed

lemma claim_cas_lose:
  assumes "\<And>r. r \<in> set (ox_rows st) \<Longrightarrow> ob_id r = ob_id cand \<Longrightarrow> ob_status r \<noteq> OPending"
  shows "claim_cas w expiry tok cand st = (st, None)"
proof -
  let ?P = "\<lambda>r. ob_id r = ob_id cand \<and> ob_status r = OPending"
  have none: "\<forall>r \<in> set (ox_rows st). \<not> ?P r" using assms by blast
  then have "sql_changes ?P (ox_rows st) = 0" by (simp add: sql_changes_zero_iff)
  then show ?thesis unfolding claim_cas_def Let_def sql_update_none [OF none] by simp
qed

text \<open>
  C1. Two workers that both selected the same pending event and then both run their
  compare-and-set, in whatever order, never both get it: the first wins, the second gets null
  and leaves the table as the winner wrote it.
\<close>

theorem outbox_claim_race_one_winner:
  assumes "outbox_ok (st, T)" and "cand \<in> set (ox_rows st)" and "ob_status cand = OPending"
  shows "snd (claim_cas w1 e1 tok1 cand st) =
      Some (cand\<lparr>ob_status := OClaimed, ob_claimedBy := Some w1,
              ob_claimExpiresAt := Some e1, ob_claimToken := Some tok1,
              ob_attemptCount := ob_attemptCount cand + 1\<rparr>)
    \<and> claim_cas w2 e2 tok2 cand (fst (claim_cas w1 e1 tok1 cand st))
      = (fst (claim_cas w1 e1 tok1 cand st), None)"
proof -
  note win = claim_cas_win [OF assms, of w1 e1 tok1]
  let ?st1 = "fst (claim_cas w1 e1 tok1 cand st)"
  have "ob_status r \<noteq> OPending" if "r \<in> set (ox_rows ?st1)" "ob_id r = ob_id cand" for r
    using that win assms(2,3) key_unique [OF outbox_okD(1) [OF assms(1)], of r cand]
    by (auto simp: set_sql_update)
  then have "claim_cas w2 e2 tok2 cand ?st1 = (?st1, None)" by (rule claim_cas_lose)
  with win show ?thesis by simp
qed

definition demo_row :: outbox_row where
  "demo_row = \<lparr>ob_id = ''out_1'', ob_eventType = ''dispatch'', ob_aggregateId = ''agg'',
     ob_aggregateRevision = 0, ob_payload = [], ob_status = OPending, ob_attemptCount = 0,
     ob_failureCount = 0, ob_availableAt = 5, ob_claimedBy = None, ob_claimExpiresAt = None,
     ob_claimToken = None, ob_lastError = None, ob_createdAt = 5, ob_completedAt = None\<rparr>"

definition demo_outbox :: outbox where
  "demo_outbox = \<lparr>ox_rows = [demo_row], ox_listeners = [], ox_microtasks = []\<rparr>"

lemma demo_outbox_ok: "outbox_ok (demo_outbox, {})"
  by (simp add: outbox_ok_def demo_outbox_def demo_row_def row_ok_def row_tokens_def Let_def)

theorem outbox_claim_race_one_winner_witness:
  "snd (claim_cas ''b'' 90 ''clm_2'' demo_row (fst (claim_cas ''a'' 80 ''clm_1'' demo_row demo_outbox))) = None"
proof -
  have "demo_row \<in> set (ox_rows demo_outbox)" "ob_status demo_row = OPending"
    by (simp_all add: demo_outbox_def demo_row_def)
  from outbox_claim_race_one_winner [OF demo_outbox_ok this] show ?thesis by simp
qed

lemma claimNext_None_iff:
  assumes "outbox_ok (st, T)"
  shows "snd (claimNext w leaseMs types excl now now_ms uuid st) = None
    \<longleftrightarrow> (\<forall>r \<in> set (ox_rows st). \<not> claim_eligible now types excl r)"
proof (cases "claim_candidate now types excl st")
  case None
  then have "filter (claim_eligible now types excl) (ox_rows st) = []"
    by (metis claim_candidate_def first_row_None_iff set_empty set_order_asc)
  with None show ?thesis by (simp add: claimNext_def filter_empty_conv)
next
  case (Some c)
  then have c: "c \<in> set (ox_rows st)" "claim_eligible now types excl c"
    using claim_candidateD by blast+
  then have "ob_status c = OPending" by (simp add: claim_eligible_def)
  with Some c show ?thesis
    using claim_cas_win [OF assms c(1)] by (auto simp: claimNext_def)
qed

lemma claimNext_first_eligible:
  assumes "outbox_ok (st, T)"
    and "claimNext w leaseMs types excl now now_ms uuid st = (st', res)"
  shows "case res of
      None \<Rightarrow> st' = st \<and> (\<forall>r \<in> set (ox_rows st). \<not> claim_eligible now types excl r)
    | Some ev \<Rightarrow> \<exists>c. c \<in> set (ox_rows st) \<and> claim_eligible now types excl c
        \<and> (\<forall>r \<in> set (ox_rows st). claim_eligible now types excl r \<longrightarrow>
              ob_availableAt c \<le> ob_availableAt r)
        \<and> ev = c\<lparr>ob_status := OClaimed, ob_claimedBy := Some w,
                 ob_claimExpiresAt := Some (now_ms + leaseMs),
                 ob_claimToken := Some (''clm_'' @ uuid), ob_attemptCount := ob_attemptCount c + 1\<rparr>
        \<and> ox_rows st' = map (\<lambda>r. if r = c then ev else r) (ox_rows st)"
proof (cases "claim_candidate now types excl st")
  case None
  with assms claimNext_None_iff [OF assms(1), of w leaseMs types excl now now_ms uuid] show ?thesis
    by (auto simp: claimNext_def)
next
  case (Some c)
  then have c: "c \<in> set (ox_rows st)" "claim_eligible now types excl c"
    using claim_candidateD by blast+
  have least: "ob_availableAt c \<le> ob_availableAt r"
    if "r \<in> set (ox_rows st)" "claim_eligible now types excl r" for r
    using first_row_asc_min [OF Some [unfolded claim_candidate_def]] that by simp
  have "ob_status c = OPending" using c by (simp add: claim_eligible_def)
  from claim_cas_win [OF assms(1) c(1) this, of w "now_ms + leaseMs" "''clm_'' @ uuid"] Some assms(2)
  have st': "ox_rows st' = map (\<lambda>r. if r = c then the res else r) (ox_rows st)"
    and res: "res = Some (c\<lparr>ob_status := OClaimed, ob_claimedBy := Some w,
                 ob_claimExpiresAt := Some (now_ms + leaseMs),
                 ob_claimToken := Some (''clm_'' @ uuid), ob_attemptCount := ob_attemptCount c + 1\<rparr>)"
    by (auto simp: claimNext_def sql_update_def)
  show ?thesis using c least st' by (auto simp: res)
qed

lemma claim_eligible_alt:
  "claim_eligible now types excl r \<longleftrightarrow> ob_status r = OPending \<and> ob_availableAt r \<le> now
     \<and> (types = [] \<or> ob_eventType r \<in> set types) \<and> ob_aggregateId r \<notin> set excl"
  by (auto simp: claim_eligible_def)

text \<open>
  C5. \<open>claimNext\<close> hands out the pending event of the wanted types, and of no excluded
  aggregate, that became available first (at the latest now), marked
  claimed by the caller with the lease and the fresh token, leaves every other row alone, and
  returns null exactly when no pending event is available to the caller.
\<close>

theorem claimNext_earliest:
  fixes types excl now
  defines "ready \<equiv> \<lambda>r. ob_status r = OPending \<and> ob_availableAt r \<le> now
     \<and> (types = [] \<or> ob_eventType r \<in> set types) \<and> ob_aggregateId r \<notin> set excl"
  assumes "outbox_ok (st, T)"
    and "claimNext w leaseMs types excl now now_ms uuid st = (st', res)"
  shows "case res of
      None \<Rightarrow> st' = st \<and> (\<forall>r \<in> set (ox_rows st). \<not> ready r)
    | Some ev \<Rightarrow> \<exists>c. c \<in> set (ox_rows st) \<and> ready c
        \<and> (\<forall>r \<in> set (ox_rows st). ready r \<longrightarrow> ob_availableAt c \<le> ob_availableAt r)
        \<and> ev = c\<lparr>ob_status := OClaimed, ob_claimedBy := Some w,
                 ob_claimExpiresAt := Some (now_ms + leaseMs),
                 ob_claimToken := Some (''clm_'' @ uuid), ob_attemptCount := ob_attemptCount c + 1\<rparr>
        \<and> ox_rows st' = map (\<lambda>r. if r = c then ev else r) (ox_rows st)"
  using claimNext_first_eligible [OF assms(2,3)] unfolding claim_eligible_alt ready_def .

theorem claimNext_earliest_witness:
  "snd (claimNext ''w'' 100 [] [] 9 9 ''u'' demo_outbox) =
     Some (demo_row\<lparr>ob_status := OClaimed, ob_claimedBy := Some ''w'',
        ob_claimExpiresAt := Some 109, ob_claimToken := Some ''clm_u'', ob_attemptCount := 1\<rparr>)"
proof -
  obtain st' res where e: "claimNext ''w'' 100 [] [] 9 9 ''u'' demo_outbox = (st', res)"
    by (cases "claimNext ''w'' 100 [] [] 9 9 ''u'' demo_outbox")
  have "claim_eligible 9 [] [] demo_row" "ox_rows demo_outbox = [demo_row]"
    by (simp_all add: demo_outbox_def demo_row_def claim_eligible_def)
  with claimNext_earliest [OF demo_outbox_ok e] show ?thesis
    by (cases res) (auto simp: e demo_row_def claim_eligible_alt)
qed

subsection \<open>Fencing\<close>

text \<open>
  C6. A claim is used at most once. Once a release, completion, failure or suspension that
  presents a claim has been applied, no later transition with that claim is applied, whatever
  the outbox and its other workers did in between.
\<close>

theorem outbox_claim_used_once:
  assumes "reachable outbox_start outbox_step (st, T)"
    and "run_fenced x now c st = (st1, True)"
    and "outbox_step\<^sup>*\<^sup>* (st1, T) (st2, T')"
  shows "run_fenced y later c st2 = (st2, False)"
proof -
  have "snd (run_fenced_sys x now c (st, T))" "fst (run_fenced_sys x now c (st, T)) = (st1, T)"
    using assms(2) by (simp_all add: run_fenced_sys_def)
  with assms(3) have "run_fenced_sys y later c (st2, T') = ((st2, T'), False)"
    using outbox_fence.accepted_at_most_once [OF outbox_inv.inv_reachable [OF assms(1)]] by metis
  then show ?thesis by (simp add: run_fenced_sys_def case_prod_beta prod_eq_iff)
qed

definition empty_outbox :: outbox where
  "empty_outbox = \<lparr>ox_rows = [], ox_listeners = [], ox_microtasks = []\<rparr>"

definition demo_input :: enqueue_input where
  "demo_input = \<lparr>ei_eventType = ''dispatch'', ei_aggregateId = ''agg'', ei_aggregateRevision = None,
     ei_payload = None, ei_availableAt = None\<rparr>"

definition demo_claimed :: outbox where
  "demo_claimed = demo_outbox\<lparr>ox_microtasks := [demo_row],
     ox_rows := [demo_row\<lparr>ob_status := OClaimed, ob_claimedBy := Some ''w'',
       ob_claimExpiresAt := Some 109, ob_claimToken := Some ''clm_u'', ob_attemptCount := 1\<rparr>]\<rparr>"

definition demo_claim :: outbox_claim where
  "demo_claim = \<lparr>oc_eventId = ''out_1'', oc_claimOwner = ''w'', oc_claimToken = ''clm_u''\<rparr>"

lemma demo_enqueue:
  "enqueue demo_input 5 ''1'' empty_outbox = Inr (demo_outbox\<lparr>ox_microtasks := [demo_row]\<rparr>, demo_row)"
  by (simp add: enqueue_def demo_input_def empty_outbox_def getByLogical_def payloadRevision_def
      queue_notify_def demo_outbox_def demo_row_def Let_def)

lemma demo_claimed_reachable: "reachable outbox_start outbox_step (demo_claimed, {''clm_u''})"
proof -
  have "reachable outbox_start outbox_step (empty_outbox, {})"
    by (rule reachable_start) (simp add: outbox_start_def empty_outbox_def)
  then have "reachable outbox_start outbox_step (demo_outbox\<lparr>ox_microtasks := [demo_row]\<rparr>, {})"
    by (rule reachable_step) (rule step_enqueue, rule demo_enqueue)
  moreover have "claimNext ''w'' 100 [] [] 9 9 ''u'' (demo_outbox\<lparr>ox_microtasks := [demo_row]\<rparr>)
      = (demo_claimed, Some (hd (ox_rows demo_claimed)))"
    by (simp add: claimNext_def claim_candidate_def claim_eligible_def demo_outbox_def demo_row_def
        order_asc_def first_row_def claim_cas_def demo_claimed_def Let_def)
  then have "outbox_step (demo_outbox\<lparr>ox_microtasks := [demo_row]\<rparr>, {}) (demo_claimed, {''clm_u''})"
    using step_claim [of "''u''" "{}"] by simp
  ultimately show ?thesis by (rule reachable_step)
qed

lemma demo_complete:
  "run_fenced (ActComplete 50) 50 demo_claim demo_claimed =
     (fst (run_fenced (ActComplete 50) 50 demo_claim demo_claimed), True)"
  by (simp add: outbox_markCompleted_def fenced_update_def demo_claimed_def demo_claim_def
      demo_outbox_def demo_row_def fencedClaimWhere_def)

theorem outbox_claim_used_once_witness:
  "\<not> snd (run_fenced (ActRelease 0 None 60) 60 demo_claim
            (fst (run_fenced (ActComplete 50) 50 demo_claim demo_claimed)))"
  using outbox_claim_used_once [OF demo_claimed_reachable demo_complete rtranclp.rtrancl_refl] by simp

lemma reset_not_expired [simp]: "\<not> reap_expired cutoff (reap_reset r)"
  by (simp add: reap_expired_def reap_reset_def)

lemma reap_loop_eq:
  assumes "distinct (map ob_id t)" "distinct seen" "set seen \<subseteq> set t"
    and "\<forall>x \<in> set seen. reap_expired cutoff x"
  shows "reap_loop cutoff seen t =
    (map (\<lambda>x. if x \<in> set seen then reap_reset x else x) t, length seen)"
  using assms
proof (induction seen arbitrary: t)
  case Nil
  then show ?case by simp
next
  case (Cons s rest)
  let ?t = "sql_update (reap_matches cutoff s) reap_reset t"
  have m: "reap_matches cutoff s x \<longleftrightarrow> x = s" if "x \<in> set t" for x
    using that Cons.prems key_unique [OF Cons.prems(1), of x s] by (auto simp: reap_matches_def)
  have t: "?t = map (\<lambda>x. if x = s then reap_reset x else x) t"
    using m by (simp add: sql_update_def)
  have one: "sql_changes (reap_matches cutoff s) t = 1"
    using Cons.prems m
    by (subst sql_changes_eq_one_iff [where k = ob_id and v = "ob_id s"]) (auto simp: reap_matches_def)
  have "map ob_id ?t = map ob_id t" by (simp add: t reap_reset_def)
  then have ids: "distinct (map ob_id ?t)" using Cons.prems(1) by simp
  have "x \<in> set ?t" if "x \<in> set rest" for x using that Cons.prems by (auto simp: t image_iff)
  then have IH: "reap_loop cutoff rest ?t = (map (\<lambda>x. if x \<in> set rest then reap_reset x else x) ?t, length rest)"
    using Cons.prems ids by (intro Cons.IH) auto
  have "reap_reset s \<notin> set rest" "s \<notin> set rest" using Cons.prems reset_not_expired by auto
  then have "map (\<lambda>x. if x \<in> set rest then reap_reset x else x) ?t
      = map (\<lambda>x. if x \<in> set (s # rest) then reap_reset x else x) t"
    by (auto simp: t)
  with IH one show ?case by simp
qed

lemma reapExpiredClaims_eq:
  assumes "outbox_ok (st, T)"
  shows "reapExpiredClaims leaseMs now_ms st =
    (st\<lparr>ox_rows := map (\<lambda>r. if reap_expired (now_ms - leaseMs) r
        then r\<lparr>ob_status := OPending, ob_claimedBy := None, ob_claimExpiresAt := None,
               ob_claimToken := None\<rparr> else r) (ox_rows st)\<rparr>,
     length (filter (reap_expired (now_ms - leaseMs)) (ox_rows st)))"
proof -
  let ?c = "now_ms - leaseMs"
  have "distinct (filter (reap_expired ?c) (ox_rows st))"
    using outbox_okD(1) [OF assms] by (simp add: distinct_map)
  then have "reap_loop ?c (filter (reap_expired ?c) (ox_rows st)) (ox_rows st) =
      (map (\<lambda>x. if x \<in> set (filter (reap_expired ?c) (ox_rows st)) then reap_reset x else x) (ox_rows st),
       length (filter (reap_expired ?c) (ox_rows st)))"
    using outbox_okD(1) [OF assms] by (intro reap_loop_eq) auto
  then show ?thesis by (simp add: reapExpiredClaims_def Let_def reap_reset_def cong: map_cong)
qed

text \<open>
  Crash recovery: \<open>reapExpiredClaims\<close> returns every event whose lease ended before the
  cutoff to pending with its owner, lease and token cleared and its retry budget untouched,
  changes nothing else, and reports how many it reset.
\<close>

theorem reapExpiredClaims_complete:
  assumes "outbox_ok (st, T)"
  shows "reapExpiredClaims leaseMs now_ms st =
    (st\<lparr>ox_rows := map (\<lambda>r. if reap_expired (now_ms - leaseMs) r
        then r\<lparr>ob_status := OPending, ob_claimedBy := None, ob_claimExpiresAt := None,
               ob_claimToken := None\<rparr> else r) (ox_rows st)\<rparr>,
     length (filter (reap_expired (now_ms - leaseMs)) (ox_rows st)))"
  using assms by (rule reapExpiredClaims_eq)

theorem reapExpiredClaims_complete_witness:
  "map ob_status (ox_rows (fst (reapExpiredClaims 0 500 demo_claimed))) = [OPending]"
  using reapExpiredClaims_complete [OF outbox_inv.inv_reachable [OF demo_claimed_reachable], of 0 500]
  by (simp add: demo_claimed_def demo_outbox_def demo_row_def reap_expired_def)

text \<open>
  A claimant whose lease ran out and was reaped stays fenced out for ever: after the reaper
  has reset the row, no transition with the old token is applied, even when another worker has
  claimed the same event since.
\<close>

theorem reaped_claimant_fenced:
  assumes "reachable outbox_start outbox_step (st, T)"
    and "r \<in> set (ox_rows st)" and "ob_claimToken r = Some (oc_claimToken c)"
    and "reap_expired (now_ms - leaseMs) r"
    and "outbox_step\<^sup>*\<^sup>* (fst (reapExpiredClaims leaseMs now_ms st), T) (st2, T')"
  shows "run_fenced y later c st2 = (st2, False)"
proof -
  have ok: "outbox_ok (st, T)" by (rule outbox_inv.inv_reachable [OF assms(1)])
  let ?st1 = "fst (reapExpiredClaims leaseMs now_ms st)"
  have ok1: "outbox_ok (?st1, T)"
    using reapExpiredClaims_keeps [OF ok] by (metis prod.collapse)
  have "oc_claimToken c \<in> T" using outbox_okD(4) [OF ok] assms(2,3) by (auto simp: row_tokens_def)
  moreover have "oc_claimToken c \<notin> row_tokens ?st1"
  proof -
    have "r' = r" if "r' \<in> set (ox_rows st)" "ob_claimToken r' = Some (oc_claimToken c)" for r'
      using outbox_okD(5) [OF ok that(1) assms(2) that(2) assms(3)] key_unique [OF outbox_okD(1) [OF ok] that(1) assms(2)]
      by simp
    then show ?thesis
      using assms(4)
      by (auto simp: row_tokens_def reapExpiredClaims_eq [OF ok] split: if_splits)
  qed
  ultimately have "outbox_spent c (?st1, T)" by (simp add: outbox_spent_def)
  then have "outbox_spent c (st2, T')" using outbox_fence.spent_forever [OF ok1 _ assms(5)] by blast
  then have "run_fenced_sys y later c (st2, T') = ((st2, T'), False)"
    by (rule outbox_fence.spent_rejects)
  then show ?thesis by (simp add: run_fenced_sys_def case_prod_beta prod_eq_iff)
qed

theorem reaped_claimant_fenced_witness:
  "run_fenced (ActComplete 600) 600 demo_claim (fst (reapExpiredClaims 0 500 demo_claimed))
     = (fst (reapExpiredClaims 0 500 demo_claimed), False)"
proof -
  let ?r = "hd (ox_rows demo_claimed)"
  have "?r \<in> set (ox_rows demo_claimed)" "ob_claimToken ?r = Some (oc_claimToken demo_claim)"
    "reap_expired (500 - 0) ?r"
    by (simp_all add: demo_claimed_def demo_claim_def demo_outbox_def demo_row_def reap_expired_def)
  from reaped_claimant_fenced [OF demo_claimed_reachable this rtranclp.rtrancl_refl] show ?thesis .
qed

subsection \<open>Retries\<close>

text \<open>
  The retry budget: a failure reported under a live claim counts once. The first two put the
  event back to pending after one and two times the retry delay; the third dead-letters it. The
  other events are not touched.
\<close>

theorem markFailed_budget:
  assumes "outbox_ok (st, T)" and "r \<in> set (ox_rows st)"
    and "fencedClaimWhere now_read c r" and "fencedClaimWhere now_write c r"
  shows "outbox_markFailed c err delay now_read now_ms now_write st =
    (st\<lparr>ox_rows := map (\<lambda>x. if x = r then
         (if ob_failureCount r < 2
          then r\<lparr>ob_status := OPending, ob_claimedBy := None, ob_claimExpiresAt := None,
                 ob_claimToken := None, ob_failureCount := ob_failureCount r + 1,
                 ob_lastError := Some err,
                 ob_availableAt := now_ms + delay * (if ob_failureCount r = 0 then 1 else 2)\<rparr>
          else r\<lparr>ob_status := ODeadLettered, ob_failureCount := 3, ob_lastError := Some err,
                 ob_claimToken := None, ob_claimedBy := None, ob_claimExpiresAt := None\<rparr>)
         else x) (ox_rows st)\<rparr>, True)"
proof -
  have same: "fencedClaimWhere t c x \<longleftrightarrow> x = r" if "x \<in> set (ox_rows st)" "t \<in> {now_read, now_write}" for x t
    using that assms fenced_same_row [OF assms(1)] by blast
  have read: "find (fencedClaimWhere now_read c) (ox_rows st) = Some r"
    using assms(2,3) same find_Some_mem [of "fencedClaimWhere now_read c" "ox_rows st"]
    by (cases "find (fencedClaimWhere now_read c) (ox_rows st)") (auto simp: find_None_iff_all)
  have one: "sql_changes (fencedClaimWhere now_write c) (ox_rows st) = 1"
    using fenced_changes_one_iff [OF assms(1)] assms(2,4) by blast
  have upd: "sql_update (fencedClaimWhere now_write c) f (ox_rows st)
      = map (\<lambda>x. if x = r then f r else x) (ox_rows st)" for f
    using same by (simp add: sql_update_def)
  have "ob_failureCount r < 3" using fenced_row_ok [OF assms(1,2,4)] .
  then consider "ob_failureCount r = 0" | "ob_failureCount r = 1" | "ob_failureCount r = 2" by linarith
  then show ?thesis
    by cases (simp_all add: outbox_markFailed_def read fenced_update_def one upd)
qed

theorem markFailed_budget_witness:
  "ob_availableAt (hd (ox_rows (fst (outbox_markFailed demo_claim ''boom'' 1000 50 50 50 demo_claimed)))) = 1050"
proof -
  let ?r = "hd (ox_rows demo_claimed)"
  have "?r \<in> set (ox_rows demo_claimed)" "fencedClaimWhere 50 demo_claim ?r" "fencedClaimWhere 50 demo_claim ?r"
    by (simp_all add: demo_claimed_def demo_claim_def demo_outbox_def demo_row_def fencedClaimWhere_def)
  from markFailed_budget [OF outbox_inv.inv_reachable [OF demo_claimed_reachable] this] show ?thesis
    by (simp add: demo_claimed_def demo_outbox_def demo_row_def)
qed

subsection \<open>Enqueueing\<close>

text \<open>
  Enqueueing is idempotent on the logical key (event type, aggregate, revision): once an
  event has been enqueued, enqueueing the same key again, at any later time and with any payload
  that names the same revision, returns the stored event and changes nothing.
\<close>

theorem enqueue_idempotent:
  assumes "enqueue i1 now1 u1 st = Inr (st1, ev)"
    and "ei_eventType i2 = ei_eventType i1" and "ei_aggregateId i2 = ei_aggregateId i1"
    and "coalesce (or_else (ei_aggregateRevision i2) (payloadRevision (ei_payload i2))) 0
       = coalesce (or_else (ei_aggregateRevision i1) (payloadRevision (ei_payload i1))) 0"
  shows "enqueue i2 now2 u2 st1 = Inr (st1, ev)"
proof -
  let ?rv = "coalesce (or_else (ei_aggregateRevision i1) (payloadRevision (ei_payload i1))) 0"
  have "getByLogical (ei_eventType i1) (ei_aggregateId i1) ?rv (ox_rows st1) = Some ev"
  proof (cases "getByLogical (ei_eventType i1) (ei_aggregateId i1) ?rv (ox_rows st)")
    case None
    with assms(1) have ev: "ox_rows st1 = ox_rows st @ [ev]" "ob_eventType ev = ei_eventType i1"
      "ob_aggregateId ev = ei_aggregateId i1" "ob_aggregateRevision ev = ?rv"
      by (auto simp: enqueue_def Let_def split: if_splits)
    have app: "find P (xs @ [x]) = Some x" if "find P xs = None" "P x" for P :: "outbox_row \<Rightarrow> bool" and xs x
      using that by (induction xs) (auto split: if_splits)
    show ?thesis using None ev unfolding getByLogical_def by (simp add: app)
  qed (use assms(1) in \<open>auto simp: enqueue_def\<close>)
  with assms(2-4) show ?thesis by (simp add: enqueue_def)
qed

theorem enqueue_idempotent_witness:
  "enqueue demo_input 900 ''2'' (demo_outbox\<lparr>ox_microtasks := [demo_row]\<rparr>)
     = Inr (demo_outbox\<lparr>ox_microtasks := [demo_row]\<rparr>, demo_row)"
  by (rule enqueue_idempotent [OF demo_enqueue refl refl refl])

subsection \<open>Reachable states\<close>

text \<open>
  In every reachable state of the outbox ids and logical keys are unique, a row carries a
  claim token, an owner and a lease exactly while it is claimed, no two rows carry the same
  token, and a row is dead-lettered exactly when it has used up its three failures.
\<close>

theorem outbox_reachable_wf:
  assumes "reachable outbox_start outbox_step (st, T)"
  shows "distinct (map ob_id (ox_rows st)) \<and> distinct (map ob_logical (ox_rows st))
    \<and> (\<forall>r \<in> set (ox_rows st).
         (ob_status r = OClaimed \<longleftrightarrow> ob_claimToken r \<noteq> None)
         \<and> (ob_status r = OClaimed \<longleftrightarrow> ob_claimedBy r \<noteq> None)
         \<and> (ob_status r = OClaimed \<longleftrightarrow> ob_claimExpiresAt r \<noteq> None)
         \<and> ob_failureCount r \<le> 3
         \<and> (ob_status r = ODeadLettered \<longleftrightarrow> ob_failureCount r = 3))
    \<and> (\<forall>r \<in> set (ox_rows st). \<forall>r' \<in> set (ox_rows st).
         ob_claimToken r \<noteq> None \<longrightarrow> ob_claimToken r = ob_claimToken r' \<longrightarrow> r = r')"
proof -
  have ok: "outbox_ok (st, T)" by (rule outbox_inv.inv_reachable [OF assms])
  have "(ob_status r = OClaimed \<longleftrightarrow> ob_claimToken r \<noteq> None)
         \<and> (ob_status r = OClaimed \<longleftrightarrow> ob_claimedBy r \<noteq> None)
         \<and> (ob_status r = OClaimed \<longleftrightarrow> ob_claimExpiresAt r \<noteq> None)
         \<and> ob_failureCount r \<le> 3
         \<and> (ob_status r = ODeadLettered \<longleftrightarrow> ob_failureCount r = 3)" if "r \<in> set (ox_rows st)" for r
    using outbox_okD(3) [OF ok that] by (auto simp: row_ok_def split: if_splits)
  moreover have "r = r'" if "r \<in> set (ox_rows st)" "r' \<in> set (ox_rows st)"
      "ob_claimToken r \<noteq> None" "ob_claimToken r = ob_claimToken r'" for r r'
  proof -
    from that obtain tok where "ob_claimToken r = Some tok" "ob_claimToken r' = Some tok" by auto
    then have "ob_id r = ob_id r'" by (rule outbox_okD(5) [OF ok that(1,2)])
    then show ?thesis using key_unique [OF outbox_okD(1) [OF ok] that(1,2)] by simp
  qed
  ultimately show ?thesis using outbox_okD(1,2) [OF ok] by blast
qed

theorem outbox_reachable_wf_witness:
  "reachable outbox_start outbox_step (demo_claimed, {''clm_u''})
   \<and> list_all (\<lambda>r. ob_status r = OClaimed \<longleftrightarrow> ob_claimToken r \<noteq> None) (ox_rows demo_claimed)"
  using demo_claimed_reachable outbox_reachable_wf [OF demo_claimed_reachable] unfolding list_all_iff by blast

end
