(* ===== verification/Policy_Rules.thy ===== *)
theory Policy_Rules
  imports Kontrol_Prelude "HOL-Library.AList"
begin

text \<open>
  The rule side of src/src/policy.ts: how the policy configuration is read from the environment,
  how a path is matched against a rule, and which rule decides a call (\<open>evaluate\<close>).

  \<^item> The environment is the list of its entries in the order of \<open>Object.entries\<close>. The JSON
    parser of the path rules is a parameter: it gives the entries at the type the code casts
    them to, or nothing on a syntax error.
  \<^item> \<open>globMatch\<close> compiles a pattern to a regular expression by five textual replacements.
    \<open>glob_tokens\<close> is what they produce, one token per literal, \<open>[^/]*\<close>, \<open>.\<close> or \<open>.*\<close>, read
    from left to right, the text of the placeholder included; \<open>glob_run\<close> is the anchored match.
    As in the regular expression, \<open>.\<close> does not match a line terminator.
  \<^item> Tool rules are an object, the list of its entries in insertion order: tool names are never names of \<open>Object.prototype\<close>.
\<close>

section \<open>Data\<close>

datatype policy_mode = Allow | Deny | Ask

datatype policy_source = SrcPath | SrcTool | SrcDefault

record policy_path =
  pp_relativePath :: string
  pp_absolutePath :: string

datatype policy_input_path = RawPath string | ResolvedPath policy_path

record path_rule =
  pr_pattern :: string
  pr_mode :: policy_mode

type_synonym tool_rules = "(string \<times> policy_mode) list"

record policy_config =
  pc_defaultMode :: policy_mode
  pc_toolRules :: tool_rules
  pc_pathRules :: "path_rule list"

record policy_decision =
  pd_mode :: policy_mode
  pd_approvalKey :: "string option"
  pd_source :: policy_source
  pd_matchedPattern :: "string option"

datatype policy_error =
    PathRulesNotJson
  | PathRuleIncomplete
  | UnknownPolicyTool string
  | BadToolMode string string
  | UnknownPolicyKey string
  | BadGlobalMode string

record rule_entry =
  re_pattern :: "string option"
  re_mode :: "string option"

type_synonym environment = "(string \<times> string) list"

section \<open>Reading the configuration\<close>

definition SECURE_BASELINE_TOOL_RULES :: tool_rules where
  "SECURE_BASELINE_TOOL_RULES = [(''bash'', Ask), (''write'', Ask), (''edit'', Ask), (''apply_patch'', Ask)]"

definition CANONICAL_TOOLS :: "string list" where
  "CANONICAL_TOOLS = [''read'', ''write'', ''edit'', ''grep'', ''glob'', ''ls'', ''bash'', ''apply_patch'']"

definition KNOWN_POLICY_CONFIGURATION_KEYS :: "string list" where
  "KNOWN_POLICY_CONFIGURATION_KEYS =
     [''KONTROL_POLICY_MODE'', ''KONTROL_POLICY_PATH_RULES'', ''KONTROL_POLICY_APPROVAL_TIMEOUT_MS'',
      ''KONTROL_POLICY_DIRECT_APPROVAL_TTL_MS'', ''KONTROL_POLICY_DIRECT_REATTACH_GRACE_MS'']"

definition CANONICAL_TOOL_ALIASES :: "string \<rightharpoonup> string" where
  "CANONICAL_TOOL_ALIASES = map_of
     [(''kontrol-shell'', ''bash''), (''kontrol-read'', ''read''), (''kontrol-write'', ''write''),
      (''kontrol-edit'', ''edit''), (''kontrol-grep'', ''grep''), (''kontrol-glob'', ''glob''),
      (''exec_command'', ''bash'')]"

definition canonicalTool :: "string \<Rightarrow> string" where
  "canonicalTool tool = coalesce (CANONICAL_TOOL_ALIASES tool) tool"

definition parseMode :: "string option \<Rightarrow> policy_mode option" where
  "parseMode value =
     (if \<not> truthy value then None
      else let v = to_lower (the value)
           in if v = ''allow'' then Some Allow
              else if v = ''deny'' then Some Deny
              else if v = ''ask'' then Some Ask
              else None)"

fun read_path_rules :: "rule_entry list \<Rightarrow> policy_error + path_rule list" where
  "read_path_rules [] = Inr []"
| "read_path_rules (e # es) =
     (case parseMode (re_mode e) of
        None \<Rightarrow> Inl PathRuleIncomplete
      | Some m \<Rightarrow>
          if \<not> truthy (re_pattern e) then Inl PathRuleIncomplete
          else case read_path_rules es of
                 Inl err \<Rightarrow> Inl err
               | Inr rs \<Rightarrow> Inr (\<lparr>pr_pattern = the (re_pattern e), pr_mode = m\<rparr> # rs))"

definition exact_mode :: "string \<Rightarrow> policy_mode option" where
  "exact_mode v =
     (if v = ''allow'' then Some Allow else if v = ''ask'' then Some Ask
      else if v = ''deny'' then Some Deny else None)"

definition tool_prefix :: string where
  "tool_prefix = ''KONTROL_POLICY_TOOL_''"

definition dashed :: "string \<Rightarrow> string" where
  "dashed s = map (\<lambda>c. if c = CHR ''_'' then CHR ''-'' else c) s"

definition env_tool :: "string \<Rightarrow> string option" where
  "env_tool suffix =
     find (\<lambda>candidate. candidate \<in> set CANONICAL_TOOLS)
       (map canonicalTool [to_lower suffix, dashed (to_lower suffix)])"

fun read_env :: "environment \<Rightarrow> tool_rules \<Rightarrow> policy_error + tool_rules" where
  "read_env [] toolRules = Inr toolRules"
| "read_env ((key, v) # rest) toolRules =
     (if starts_with key tool_prefix
      then case env_tool (drop (length tool_prefix) key) of
             None \<Rightarrow> Inl (UnknownPolicyTool key)
           | Some tool \<Rightarrow>
               (case exact_mode v of
                  None \<Rightarrow> Inl (BadToolMode key v)
                | Some m \<Rightarrow> read_env rest (AList.update tool m toolRules))
      else if starts_with key ''KONTROL_POLICY_'' \<and> key \<notin> set KNOWN_POLICY_CONFIGURATION_KEYS
      then Inl (UnknownPolicyKey key)
      else read_env rest toolRules)"

fun add_baseline :: "tool_rules \<Rightarrow> tool_rules \<Rightarrow> tool_rules" where
  "add_baseline [] toolRules = toolRules"
| "add_baseline ((tool, m) # rest) toolRules =
     add_baseline rest (if map_of toolRules tool = None then AList.update tool m toolRules else toolRules)"

definition loadPolicyConfig ::
  "(string \<Rightarrow> rule_entry list option) \<Rightarrow> environment \<Rightarrow> policy_error + policy_config" where
  "loadPolicyConfig json_parse env =
     (let pathRulesJson = map_of env ''KONTROL_POLICY_PATH_RULES'';
          globalMode = map_of env ''KONTROL_POLICY_MODE'';
          parsed = (if truthy pathRulesJson
                    then case json_parse (the pathRulesJson) of
                           None \<Rightarrow> Inl PathRulesNotJson
                         | Some entries \<Rightarrow> read_path_rules entries
                    else Inr [])
      in case parsed of
           Inl err \<Rightarrow> Inl err
         | Inr pathRules \<Rightarrow>
             (case read_env env [] of
                Inl err \<Rightarrow> Inl err
              | Inr toolRules \<Rightarrow>
                  (let toolRules' = (if parseMode globalMode = None
                                     then add_baseline SECURE_BASELINE_TOOL_RULES toolRules
                                     else toolRules)
                   in case parseMode (Some (coalesce globalMode ''allow'')) of
                        None \<Rightarrow> Inl (BadGlobalMode (coalesce globalMode []))
                      | Some m \<Rightarrow>
                          Inr \<lparr>pc_defaultMode = m, pc_toolRules = toolRules', pc_pathRules = pathRules\<rparr>)))"

definition policyCanAsk :: "policy_config \<Rightarrow> bool" where
  "policyCanAsk cfg \<longleftrightarrow>
     pc_defaultMode cfg = Ask \<or> list_ex (\<lambda>m. m = Ask) (map snd (pc_toolRules cfg))
     \<or> list_ex (\<lambda>rule. pr_mode rule = Ask) (pc_pathRules cfg)"

section \<open>Matching\<close>

datatype glob_token = Lit char | Star | AnyChar | GlobStar

definition placeholder :: string where
  "placeholder = ''<<<GLOBSTAR>>>''"

function glob_tokens :: "string \<Rightarrow> glob_token list" where
  "glob_tokens s =
     (case s of
        [] \<Rightarrow> []
      | c # cs \<Rightarrow>
          if starts_with s ''**'' then GlobStar # glob_tokens (drop 2 s)
          else if starts_with s placeholder then GlobStar # glob_tokens (drop 14 s)
          else (if c = CHR ''*'' then Star else if c = CHR ''?'' then AnyChar else Lit c) # glob_tokens cs)"
  by pat_completeness auto
termination by (relation "measure length") auto

declare glob_tokens.simps [simp del]

definition line_terminator :: "char \<Rightarrow> bool" where
  "line_terminator c \<longleftrightarrow> of_char c \<in> {10 :: nat, 13}"

fun glob_run :: "glob_token list \<Rightarrow> string \<Rightarrow> bool" where
  "glob_run [] s = (s = [])"
| "glob_run (Lit c # ts) [] = False"
| "glob_run (Lit c # ts) (x # s) = (x = c \<and> glob_run ts s)"
| "glob_run (AnyChar # ts) [] = False"
| "glob_run (AnyChar # ts) (x # s) = (\<not> line_terminator x \<and> glob_run ts s)"
| "glob_run (Star # ts) [] = glob_run ts []"
| "glob_run (Star # ts) (x # s) = (glob_run ts (x # s) \<or> (x \<noteq> CHR ''/'' \<and> glob_run (Star # ts) s))"
| "glob_run (GlobStar # ts) [] = glob_run ts []"
| "glob_run (GlobStar # ts) (x # s) =
     (glob_run ts (x # s) \<or> (\<not> line_terminator x \<and> glob_run (GlobStar # ts) s))"

definition globMatch :: "string \<Rightarrow> string \<Rightarrow> bool" where
  "globMatch path pattern = glob_run (glob_tokens pattern) path"

definition normalizePolicyPath :: "string \<Rightarrow> string" where
  "normalizePolicyPath path =
     (let p = map (\<lambda>c. if c = CHR 0x5C then CHR ''/'' else c) path
      in if starts_with p ''./'' then drop 2 p else p)"

definition pathCandidates :: "policy_input_path \<Rightarrow> string list" where
  "pathCandidates path =
     (case path of
        RawPath p \<Rightarrow> [normalizePolicyPath p]
      | ResolvedPath pp \<Rightarrow> [normalizePolicyPath (pp_relativePath pp), normalizePolicyPath (pp_absolutePath pp)])"

definition pathRuleSpecificity :: "string \<Rightarrow> nat" where
  "pathRuleSpecificity pattern = length (filter (\<lambda>c. c \<notin> {CHR ''?'', CHR ''*''}) pattern)"

definition path_present :: "policy_input_path option \<Rightarrow> bool" where
  "path_present path =
     (case path of None \<Rightarrow> False | Some (RawPath p) \<Rightarrow> p \<noteq> [] | Some (ResolvedPath pp) \<Rightarrow> True)"

definition rule_applies :: "string list \<Rightarrow> path_rule \<Rightarrow> bool" where
  "rule_applies candidates rule = list_ex (\<lambda>candidate. globMatch candidate (pr_pattern rule)) candidates"

fun best_rule :: "string list \<Rightarrow> path_rule list \<Rightarrow> path_rule option \<Rightarrow> path_rule option" where
  "best_rule candidates [] best = best"
| "best_rule candidates (rule # rules) best =
     (if \<not> rule_applies candidates rule then best_rule candidates rules best
      else case best of
             None \<Rightarrow> best_rule candidates rules (Some rule)
           | Some b \<Rightarrow>
               if pathRuleSpecificity (pr_pattern b) < pathRuleSpecificity (pr_pattern rule)
               then best_rule candidates rules (Some rule)
               else best_rule candidates rules best)"

definition evaluate :: "policy_config \<Rightarrow> string \<Rightarrow> policy_input_path option \<Rightarrow> policy_decision" where
  "evaluate cfg tool path =
     (let canon = canonicalTool tool;
          best = (if path_present path
                  then best_rule (pathCandidates (the path)) (pc_pathRules cfg) None else None)
      in case best of
           Some b \<Rightarrow>
             \<lparr>pd_mode = pr_mode b, pd_approvalKey = Some (''path:'' @ pr_pattern b),
              pd_source = SrcPath, pd_matchedPattern = Some (pr_pattern b)\<rparr>
         | None \<Rightarrow>
             (case map_of (pc_toolRules cfg) canon of
                Some m \<Rightarrow>
                  \<lparr>pd_mode = m, pd_approvalKey = Some (''tool:'' @ canon),
                   pd_source = SrcTool, pd_matchedPattern = Some canon\<rparr>
              | None \<Rightarrow>
                  \<lparr>pd_mode = pc_defaultMode cfg, pd_approvalKey = Some (''default:'' @ canon),
                   pd_source = SrcDefault, pd_matchedPattern = None\<rparr>))"

section \<open>Lemmas\<close>

lemma best_rule_spec:
  assumes "best_rule cands rules best = Some b"
  shows "(best = Some b \<and> (\<forall>r \<in> set rules. rule_applies cands r \<longrightarrow>
              pathRuleSpecificity (pr_pattern r) \<le> pathRuleSpecificity (pr_pattern b)))
    \<or> (\<exists>pre post. rules = pre @ b # post \<and> rule_applies cands b
        \<and> (\<forall>r \<in> set pre \<union> set_option best. rule_applies cands r \<or> best = Some r \<longrightarrow>
              pathRuleSpecificity (pr_pattern r) < pathRuleSpecificity (pr_pattern b))
        \<and> (\<forall>r \<in> set post. rule_applies cands r \<longrightarrow>
              pathRuleSpecificity (pr_pattern r) \<le> pathRuleSpecificity (pr_pattern b)))"
  using assms
proof (induction rules arbitrary: best)
  case Nil
  then show ?case by simp
next
  case (Cons rule rules)
  let ?sp = "\<lambda>r. pathRuleSpecificity (pr_pattern r)"
  show ?case
  proof (cases "rule_applies cands rule \<and> (\<forall>b'. best = Some b' \<longrightarrow> ?sp b' < ?sp rule)")
    case True
    then have "best_rule cands rules (Some rule) = Some b"
      using Cons.prems by (auto split: option.splits)
    from Cons.IH [OF this] show ?thesis
    proof (elim disjE exE conjE)
      assume "Some rule = Some b" "\<forall>r \<in> set rules. rule_applies cands r \<longrightarrow> ?sp r \<le> ?sp b"
      then show ?thesis using True by (intro disjI2 exI [of _ "[]"] exI [of _ rules]) auto
    next
      fix pre post
      assume *: "rules = pre @ b # post" "rule_applies cands b"
        "\<forall>r \<in> set pre \<union> set_option (Some rule). rule_applies cands r \<or> Some rule = Some r \<longrightarrow> ?sp r < ?sp b"
        "\<forall>r \<in> set post. rule_applies cands r \<longrightarrow> ?sp r \<le> ?sp b"
      have "?sp r < ?sp b" if "best = Some r" for r
        using * True that by fastforce
      then show ?thesis using * True
        by (intro disjI2 exI [of _ "rule # pre"] exI [of _ post]) auto
    qed
  next
    case False
    then have "best_rule cands rules best = Some b"
      using Cons.prems by (auto split: option.splits if_splits)
    from Cons.IH [OF this] show ?thesis
    proof (elim disjE exE conjE)
      assume "best = Some b" "\<forall>r \<in> set rules. rule_applies cands r \<longrightarrow> ?sp r \<le> ?sp b"
      then show ?thesis using False by auto
    next
      fix pre post
      assume *: "rules = pre @ b # post" "rule_applies cands b"
        "\<forall>r \<in> set pre \<union> set_option best. rule_applies cands r \<or> best = Some r \<longrightarrow> ?sp r < ?sp b"
        "\<forall>r \<in> set post. rule_applies cands r \<longrightarrow> ?sp r \<le> ?sp b"
      have "?sp rule < ?sp b" if "rule_applies cands rule"
        using * False that by (fastforce simp: not_less)
      then show ?thesis using *
        by (intro disjI2 exI [of _ "rule # pre"] exI [of _ post]) auto
    qed
  qed
qed

lemma best_rule_None_iff:
  "best_rule cands rules best = None \<longleftrightarrow> best = None \<and> (\<forall>r \<in> set rules. \<not> rule_applies cands r)"
  by (induction rules arbitrary: best) (auto split: option.splits)

lemma glob_run_lits: "glob_run (map Lit d @ ts) s \<longleftrightarrow> (\<exists>u. s = d @ u \<and> glob_run ts u)"
proof (induction d arbitrary: s)
  case Nil
  then show ?case by simp
next
  case (Cons c d)
  then show ?case by (cases s) auto
qed

lemma glob_run_globstar_end: "glob_run [GlobStar] s \<longleftrightarrow> (\<forall>c \<in> set s. \<not> line_terminator c)"
  by (induction s) auto

lemma glob_run_star_end: "glob_run [Star] s \<longleftrightarrow> CHR ''/'' \<notin> set s"
  by (induction s) auto

definition literal_text :: "string \<Rightarrow> bool" where
  "literal_text d \<longleftrightarrow> list_all (\<lambda>c. c \<notin> {CHR ''*'', CHR ''?'', CHR ''<''}) d"

lemma glob_tokens_literal:
  "literal_text d \<Longrightarrow> glob_tokens (d @ s) = map Lit d @ glob_tokens s"
proof (induction d)
  case Nil
  then show ?case by simp
next
  case (Cons c d)
  then show ?case
    by (subst glob_tokens.simps) (simp add: literal_text_def starts_with_def placeholder_def)
qed

lemma glob_tokens_globstar [simp]: "glob_tokens ''**'' = [GlobStar]"
  by (simp add: glob_tokens.simps [of "''**''"] starts_with_def glob_tokens.simps [of "[]"])

lemma map_of_add_baseline:
  "map_of (add_baseline b r) t = or_else (map_of r t) (map_of b t)"
  by (induction b r rule: add_baseline.induct) (auto simp: update_conv' or_else_def split: option.splits)

lemma read_env_untouched:
  assumes "read_env env r = Inr r'"
    and "\<forall>(k, v) \<in> set env. starts_with k tool_prefix \<longrightarrow> env_tool (drop (length tool_prefix) k) \<noteq> Some t"
  shows "map_of r' t = map_of r t"
  using assms
proof (induction env r rule: read_env.induct)
  case (1 r)
  then show ?case by simp
next
  case (2 key v rest r)
  then show ?case
    by (auto simp: update_conv' split: if_splits option.splits)
qed

definition env_entry_ok :: "string \<times> string \<Rightarrow> bool" where
  "env_entry_ok kv \<longleftrightarrow>
     (if starts_with (fst kv) tool_prefix
      then env_tool (drop (length tool_prefix) (fst kv)) \<noteq> None \<and> exact_mode (snd kv) \<noteq> None
      else starts_with (fst kv) ''KONTROL_POLICY_'' \<longrightarrow> fst kv \<in> set KNOWN_POLICY_CONFIGURATION_KEYS)"

lemma read_env_total: "(\<exists>r'. read_env env r = Inr r') \<longleftrightarrow> list_all env_entry_ok env"
proof (induction env r rule: read_env.induct)
  case (1 r)
  then show ?case by simp
next
  case (2 key v rest r)
  then show ?case
    by (cases "env_tool (drop (length tool_prefix) key)"; cases "exact_mode v") (auto simp: env_entry_ok_def)
qed

lemma read_env_InrD: "read_env env r = Inr r' \<Longrightarrow> list_all env_entry_ok env"
  using read_env_total by blast

lemma loadPolicyConfig_InrD:
  assumes "loadPolicyConfig jp env = Inr cfg"
  obtains toolRules where "read_env env [] = Inr toolRules"
    and "pc_toolRules cfg = (if parseMode (map_of env ''KONTROL_POLICY_MODE'') = None
           then add_baseline SECURE_BASELINE_TOOL_RULES toolRules else toolRules)"
    and "parseMode (Some (coalesce (map_of env ''KONTROL_POLICY_MODE'') ''allow'')) = Some (pc_defaultMode cfg)"
  using assms unfolding loadPolicyConfig_def Let_def
  by (auto split: sum.splits option.splits)

lemma evaluate_no_path_rule:
  assumes "path_present path \<longrightarrow> (\<forall>r \<in> set (pc_pathRules cfg). \<not> rule_applies (pathCandidates (the path)) r)"
  shows "evaluate cfg tool path =
     (case map_of (pc_toolRules cfg) (canonicalTool tool) of
        Some m \<Rightarrow>
          \<lparr>pd_mode = m, pd_approvalKey = Some (''tool:'' @ canonicalTool tool),
           pd_source = SrcTool, pd_matchedPattern = Some (canonicalTool tool)\<rparr>
      | None \<Rightarrow>
          \<lparr>pd_mode = pc_defaultMode cfg, pd_approvalKey = Some (''default:'' @ canonicalTool tool),
           pd_source = SrcDefault, pd_matchedPattern = None\<rparr>)"
proof -
  have "path_present path \<Longrightarrow> best_rule (pathCandidates (the path)) (pc_pathRules cfg) None = None"
    using assms by (simp add: best_rule_None_iff)
  then show ?thesis by (simp add: evaluate_def Let_def)
qed

section \<open>Properties\<close>

text \<open>
  C27. When some path rule matches the call, the decision is that of the most specific matching
  rule: no other matching rule has more literal characters, and every matching rule declared
  before it has fewer. Its approval key names the rule's pattern, not the concrete path, so it
  does not depend on the tool either.
\<close>

theorem evaluate_most_specific:
  assumes "path_present path"
    and "\<exists>r \<in> set (pc_pathRules cfg). rule_applies (pathCandidates (the path)) r"
  shows "\<exists>pre b post. pc_pathRules cfg = pre @ b # post
    \<and> rule_applies (pathCandidates (the path)) b
    \<and> evaluate cfg tool path = \<lparr>pd_mode = pr_mode b, pd_approvalKey = Some (''path:'' @ pr_pattern b),
          pd_source = SrcPath, pd_matchedPattern = Some (pr_pattern b)\<rparr>
    \<and> (\<forall>r \<in> set pre. rule_applies (pathCandidates (the path)) r \<longrightarrow>
          pathRuleSpecificity (pr_pattern r) < pathRuleSpecificity (pr_pattern b))
    \<and> (\<forall>r \<in> set post. rule_applies (pathCandidates (the path)) r \<longrightarrow>
          pathRuleSpecificity (pr_pattern r) \<le> pathRuleSpecificity (pr_pattern b))"
proof -
  obtain b where b: "best_rule (pathCandidates (the path)) (pc_pathRules cfg) None = Some b"
    using assms(2) best_rule_None_iff [of "pathCandidates (the path)" "pc_pathRules cfg" None] by auto
  have "evaluate cfg tool path = \<lparr>pd_mode = pr_mode b, pd_approvalKey = Some (''path:'' @ pr_pattern b),
          pd_source = SrcPath, pd_matchedPattern = Some (pr_pattern b)\<rparr>"
    using assms(1) b by (simp add: evaluate_def Let_def)
  then show ?thesis using best_rule_spec [OF b] by fastforce
qed

definition demo_policy :: policy_config where
  "demo_policy = \<lparr>pc_defaultMode = Allow, pc_toolRules = [(''bash'', Ask)],
     pc_pathRules = [\<lparr>pr_pattern = ''src/**'', pr_mode = Allow\<rparr>, \<lparr>pr_pattern = ''src/private/**'', pr_mode = Deny\<rparr>]\<rparr>"

theorem evaluate_most_specific_witness:
  "pd_mode (evaluate demo_policy ''read'' (Some (RawPath ''./src/private/key''))) = Deny"
proof -
  let ?p = "Some (RawPath ''./src/private/key'')"
  have "path_present ?p" "\<exists>r \<in> set (pc_pathRules demo_policy). rule_applies (pathCandidates (the ?p)) r"
    by code_simp+
  from evaluate_most_specific [OF this, of "''read''"]
  obtain b where "b \<in> set (pc_pathRules demo_policy)" and "pd_mode (evaluate demo_policy ''read'' ?p) = pr_mode b"
    by fastforce
  moreover have "pd_mode (evaluate demo_policy ''read'' ?p) = Deny" by code_simp
  ultimately show ?thesis by simp
qed

text \<open>
  The secure baseline: with no global mode and no rule of the operator for it, every mutating
  tool, under any of its aliases, asks for approval, whatever else the environment holds, unless
  a path rule decides the call.
\<close>

theorem secure_baseline_asks:
  assumes "loadPolicyConfig jp env = Inr cfg"
    and "map_of env ''KONTROL_POLICY_MODE'' = None"
    and "canonicalTool tool \<in> {''bash'', ''write'', ''edit'', ''apply_patch''}"
    and "\<forall>(k, v) \<in> set env. starts_with k tool_prefix \<longrightarrow>
           env_tool (drop (length tool_prefix) k) \<noteq> Some (canonicalTool tool)"
    and "path_present path \<longrightarrow> (\<forall>r \<in> set (pc_pathRules cfg). \<not> rule_applies (pathCandidates (the path)) r)"
  shows "evaluate cfg tool path = \<lparr>pd_mode = Ask, pd_approvalKey = Some (''tool:'' @ canonicalTool tool),
          pd_source = SrcTool, pd_matchedPattern = Some (canonicalTool tool)\<rparr>"
proof -
  obtain r where r: "read_env env [] = Inr r"
    and rules: "pc_toolRules cfg = add_baseline SECURE_BASELINE_TOOL_RULES r"
    using loadPolicyConfig_InrD [OF assms(1)] assms(2) by (metis parseMode_def truthy_simps(1))
  have "map_of r (canonicalTool tool) = None"
    using read_env_untouched [OF r assms(4)] by simp
  then have "map_of (pc_toolRules cfg) (canonicalTool tool) = Some Ask"
    using assms(3) unfolding rules map_of_add_baseline by (auto simp: SECURE_BASELINE_TOOL_RULES_def)
  then show ?thesis using evaluate_no_path_rule [OF assms(5)] by simp
qed

theorem secure_baseline_asks_witness:
  "\<exists>cfg. loadPolicyConfig (\<lambda>s. None) [(''PATH'', ''/bin''), (''KONTROL_POLICY_TOOL_WRITE'', ''allow'')] = Inr cfg
     \<and> pd_mode (evaluate cfg ''exec_command'' None) = Ask \<and> pd_mode (evaluate cfg ''kontrol-write'' None) = Allow"
proof -
  let ?env = "[(''PATH'', ''/bin''), (''KONTROL_POLICY_TOOL_WRITE'', ''allow'')]"
  define cfg where "cfg = projr (loadPolicyConfig (\<lambda>s. None) ?env)"
  have "isl (loadPolicyConfig (\<lambda>s. None) ?env) = False" by code_simp
  then have cfg: "loadPolicyConfig (\<lambda>s. None) ?env = Inr cfg" by (simp add: cfg_def sum.collapse(2))
  have canon: "canonicalTool ''exec_command'' = ''bash''" by code_simp
  have env: "\<forall>(k, v) \<in> set ?env. starts_with k tool_prefix \<longrightarrow>
           env_tool (drop (length tool_prefix) k) \<noteq> Some ''bash''"
    by code_simp
  have "pd_mode (evaluate cfg ''exec_command'' None) = Ask"
    using secure_baseline_asks [OF cfg, of "''exec_command''" None] env canon by (simp add: path_present_def)
  moreover have "pd_mode (evaluate cfg ''kontrol-write'' None) = Allow"
    unfolding cfg_def by code_simp
  ultimately show ?thesis using cfg by blast
qed

text \<open>
  A policy configuration fails closed: if it loads, every \<open>KONTROL_POLICY_TOOL_*\<close> entry names a
  known tool and has exactly one of the three modes, every other \<open>KONTROL_POLICY_*\<close> entry has a
  known key, and the default mode is the global one when there is one and \<open>allow\<close> otherwise.
\<close>

theorem loadPolicyConfig_fail_closed:
  assumes "loadPolicyConfig jp env = Inr cfg"
  shows "(\<forall>(k, v) \<in> set env. starts_with k tool_prefix \<longrightarrow>
            (\<exists>t \<in> set CANONICAL_TOOLS. env_tool (drop (length tool_prefix) k) = Some t)
            \<and> v \<in> {''allow'', ''ask'', ''deny''})
    \<and> (\<forall>(k, v) \<in> set env. starts_with k ''KONTROL_POLICY_'' \<and> \<not> starts_with k tool_prefix \<longrightarrow>
            k \<in> set KNOWN_POLICY_CONFIGURATION_KEYS)
    \<and> (case map_of env ''KONTROL_POLICY_MODE'' of
          None \<Rightarrow> pc_defaultMode cfg = Allow
        | Some m \<Rightarrow> parseMode (Some m) = Some (pc_defaultMode cfg))"
proof -
  obtain r where r: "read_env env [] = Inr r"
    and m: "parseMode (Some (coalesce (map_of env ''KONTROL_POLICY_MODE'') ''allow'')) = Some (pc_defaultMode cfg)"
    using loadPolicyConfig_InrD [OF assms] by blast
  have tool: "t \<in> set CANONICAL_TOOLS" if "env_tool x = Some t" for x t
    using that find_Some_mem unfolding env_tool_def by fastforce
  have ok: "env_entry_ok kv" if "kv \<in> set env" for kv
    using read_env_InrD [OF r] that by (simp add: list_all_iff)
  have "(\<exists>t \<in> set CANONICAL_TOOLS. env_tool (drop (length tool_prefix) k) = Some t) \<and> v \<in> {''allow'', ''ask'', ''deny''}"
    if "(k, v) \<in> set env" "starts_with k tool_prefix" for k v
    using ok [OF that(1)] that(2) tool by (auto simp: env_entry_ok_def exact_mode_def split: if_splits)
  moreover have "k \<in> set KNOWN_POLICY_CONFIGURATION_KEYS"
    if "(k, v) \<in> set env" "starts_with k ''KONTROL_POLICY_''" "\<not> starts_with k tool_prefix" for k v
    using ok [OF that(1)] that(2,3) by (simp add: env_entry_ok_def)
  moreover have "parseMode (Some ''allow'') = Some Allow" by code_simp
  ultimately show ?thesis using m by (auto split: option.splits)
qed

theorem loadPolicyConfig_fail_closed_witness:
  "\<exists>cfg. loadPolicyConfig (\<lambda>s. None) [(''KONTROL_POLICY_MODE'', ''DENY'')] = Inr cfg \<and> pc_defaultMode cfg = Deny
     \<and> (\<forall>cfg'. loadPolicyConfig (\<lambda>s. None) [(''KONTROL_POLICY_TOOL_BASH'', ''asks'')] \<noteq> Inr cfg')"
proof -
  let ?load = "loadPolicyConfig (\<lambda>s. None)"
  let ?env = "[(''KONTROL_POLICY_MODE'', ''DENY'')]"
  have "isl (?load ?env) = False" by code_simp
  then obtain cfg where cfg: "?load ?env = Inr cfg" by (cases "?load ?env") auto
  have "parseMode (Some ''DENY'') = Some Deny" by code_simp
  with loadPolicyConfig_fail_closed [OF cfg] have "pc_defaultMode cfg = Deny" by simp
  moreover have "isl (?load [(''KONTROL_POLICY_TOOL_BASH'', ''asks'')])" by code_simp
  ultimately show ?thesis using cfg by (cases "?load [(''KONTROL_POLICY_TOOL_BASH'', ''asks'')]") auto
qed

text \<open>
  The start-up gate on a reviewer is sound: when \<open>policyCanAsk\<close> says no, no tool call on any
  path is ever answered with \<open>ask\<close>.
\<close>

theorem policyCanAsk_sound:
  assumes "\<not> policyCanAsk cfg"
  shows "pd_mode (evaluate cfg tool path) \<noteq> Ask"
proof (cases "path_present path \<and> (\<exists>r \<in> set (pc_pathRules cfg). rule_applies (pathCandidates (the path)) r)")
  case True
  then obtain b where b: "best_rule (pathCandidates (the path)) (pc_pathRules cfg) None = Some b"
    using best_rule_None_iff [of "pathCandidates (the path)" "pc_pathRules cfg" None] by auto
  then have "b \<in> set (pc_pathRules cfg)" using best_rule_spec [OF b] by auto
  then show ?thesis using True b assms by (auto simp: evaluate_def policyCanAsk_def list_ex_iff)
next
  case False
  then have no_rule: "path_present path \<longrightarrow> (\<forall>r \<in> set (pc_pathRules cfg). \<not> rule_applies (pathCandidates (the path)) r)"
    by blast
  have "m \<noteq> Ask" if "map_of (pc_toolRules cfg) (canonicalTool tool) = Some m" for m
    using map_of_SomeD [OF that] assms by (force simp: policyCanAsk_def list_ex_iff)
  moreover have "pc_defaultMode cfg \<noteq> Ask" using assms by (simp add: policyCanAsk_def)
  ultimately show ?thesis
    unfolding evaluate_no_path_rule [OF no_rule] by (simp split: option.splits)
qed

theorem policyCanAsk_sound_witness:
  "pd_mode (evaluate \<lparr>pc_defaultMode = Allow, pc_toolRules = [(''bash'', Deny)], pc_pathRules = []\<rparr> ''bash'' None) \<noteq> Ask"
  by (rule policyCanAsk_sound) (simp add: policyCanAsk_def)

text \<open>
  What a subtree rule \<open>dir/**\<close> covers: exactly the paths below \<open>dir\<close> whose remainder holds no
  line terminator. A deny rule therefore covers every ordinary path of the subtree, but a file
  name with a line feed in it escapes the rule.
\<close>

theorem glob_subtree_exact:
  assumes "literal_text dir"
  shows "globMatch path (dir @ ''/**'') \<longleftrightarrow>
    (\<exists>rest. path = dir @ ''/'' @ rest \<and> (\<forall>c \<in> set rest. \<not> line_terminator c))"
proof -
  have lit: "literal_text (dir @ ''/'')" using assms by (simp add: literal_text_def)
  have "glob_tokens (dir @ ''/**'') = map Lit (dir @ ''/'') @ [GlobStar]"
    using glob_tokens_literal [OF lit, of "''**''"] by simp
  then show ?thesis
    unfolding globMatch_def by (simp add: glob_run_lits glob_run_globstar_end del: map_append)
qed

theorem glob_subtree_exact_witness:
  "globMatch ''secret/a/b'' ''secret/**'' \<and> \<not> globMatch (''secret/a'' @ [CHR 0x0A] @ ''b'') ''secret/**''"
  using glob_subtree_exact [of "''secret''" "''secret/a/b''"]
    glob_subtree_exact [of "''secret''" "''secret/a'' @ [CHR 0x0A] @ ''b''"]
  by (auto simp: literal_text_def line_terminator_def)

end
