(* ===== verification/Approval_Requests.thy ===== *)
theory Approval_Requests
  imports Kontrol_Prelude
begin

text \<open>
  The durable approval requests of src/src/approval-requests.ts: an approval card is created
  pending, decided by a reviewer or by its expiry, and, when it was approved for one execution
  only, consumed by the retry of that exact operation. The state is the table
  \<open>approval_requests\<close>; the table \<open>workspace_sessions\<close> is a map from a workspace to
  whether it is active. JSON columns hold the value they encode. A row and the request object
  \<open>rowToApproval\<close> makes of it are the same record, with the origin filled in.
\<close>

section \<open>State\<close>

datatype approval_kind =
  KTool | KFilesystem | KCommand | KWorkReview | KAgentPermission | KUserInput

datatype approval_status = APending | AApproved | ADenied | AExpired | ACancelled

datatype option_effect = EApprove | EDeny | EChangesRequested

datatype approval_scope = ScOnce | ScWorkSession | ScWorkspace

datatype approval_origin = FromDirectMcp | FromWorkSession

record approval_option =
  opt_id :: string
  opt_label :: string
  opt_effect :: option_effect
  opt_scope :: "approval_scope option"

record resolution =
  rs_optionId :: "string option"
  rs_effect :: "option_effect option"
  rs_scope :: "approval_scope option"
  rs_reason :: "string option"
  rs_reviewerId :: "string option"

record approval_row =
  ap_id :: string
  ap_kind :: approval_kind
  ap_workspaceSessionId :: string
  ap_workSessionId :: "string option"
  ap_ownerContextId :: "string option"
  ap_runId :: "string option"
  ap_agentId :: "string option"
  ap_principalId :: "string option"
  ap_approvalKey :: "string option"
  ap_operationHash :: "string option"
  ap_mcpSessionId :: "string option"
  ap_mcpRequestId :: "string option"
  ap_waiterKey :: "string option"
  ap_liveWaiterId :: "string option"
  ap_origin :: "approval_origin option"
  ap_conversationId :: "string option"
  ap_orphanedAt :: "iso_time option"
  ap_reattachDeadline :: "iso_time option"
  ap_title :: string
  ap_description :: "string option"
  ap_risk :: "string option"
  ap_tool :: "string option"
  ap_command :: "string option"
  ap_path :: "string option"
  ap_options :: "approval_option list"
  ap_status :: approval_status
  ap_createdAt :: iso_time
  ap_expiresAt :: "iso_time option"
  ap_resolvedAt :: "iso_time option"
  ap_resolution :: "resolution option"
  ap_consumedAt :: "iso_time option"

record approval_input =
  ci_approvalId :: "string option"
  ci_kind :: approval_kind
  ci_workspaceSessionId :: string
  ci_workSessionId :: "string option"
  ci_ownerContextId :: "string option"
  ci_runId :: "string option"
  ci_agentId :: "string option"
  ci_principalId :: "string option"
  ci_approvalKey :: "string option"
  ci_operationHash :: "string option"
  ci_mcpSessionId :: "string option"
  ci_mcpRequestId :: "string option"
  ci_waiterKey :: "string option"
  ci_liveWaiterId :: "string option"
  ci_origin :: "approval_origin option"
  ci_conversationId :: "string option"
  ci_orphanedAt :: "iso_time option"
  ci_reattachDeadline :: "iso_time option"
  ci_title :: string
  ci_description :: "string option"
  ci_risk :: "string option"
  ci_tool :: "string option"
  ci_command :: "string option"
  ci_path :: "string option"
  ci_options :: "approval_option list option"
  ci_expiresAt :: "iso_time option"

record resolve_input =
  ri_status :: approval_status
  ri_optionId :: "string option"
  ri_effect :: "option_effect option"
  ri_scope :: "approval_scope option"
  ri_reason :: "string option"
  ri_reviewerId :: "string option"

record approval_config =
  ac_directToolApprovalTtlMs :: int
  ac_directReattachGraceMs :: int

datatype approval_error =
    InvalidResolutionStatus approval_status
  | EffectRequiresOption
  | UnknownApprovalOption string
  | ApprovedNeedsApproveOption option_effect
  | DeniedNeedsDenyOption option_effect
  | StatusCannotSelectOption approval_status
  | OptionEffectMismatch string option_effect option_effect
  | OptionScopeMismatch approval_scope string approval_scope
  | WorkspaceNotActive string
  | ApprovalIdTaken string

type_synonym approvals = "approval_row table"

section \<open>Operations\<close>

definition work_session_ttl :: int where
  "work_session_ttl = 24 * 60 * 60000"

definition default_approval_config :: approval_config where
  "default_approval_config =
     \<lparr>ac_directToolApprovalTtlMs = 10 * 60000, ac_directReattachGraceMs = 5 * 60000\<rparr>"

definition defaultOptions :: "approval_option list" where
  "defaultOptions =
     [\<lparr>opt_id = ''approve'', opt_label = ''Approve'', opt_effect = EApprove, opt_scope = Some ScOnce\<rparr>,
      \<lparr>opt_id = ''deny'', opt_label = ''Deny'', opt_effect = EDeny, opt_scope = None\<rparr>]"

definition derived_origin :: "approval_origin option \<Rightarrow> string option \<Rightarrow> approval_origin" where
  "derived_origin origin workSessionId =
     coalesce origin (if truthy workSessionId then FromWorkSession else FromDirectMcp)"

definition rowToApproval :: "approval_row \<Rightarrow> approval_row" where
  "rowToApproval row = row\<lparr>ap_origin := Some (derived_origin (ap_origin row) (ap_workSessionId row))\<rparr>"

definition approval_create ::
  "approval_config \<Rightarrow> (string \<rightharpoonup> bool) \<Rightarrow> approval_input \<Rightarrow> iso_time \<Rightarrow> string \<Rightarrow> approvals
     \<Rightarrow> approval_error + (approvals \<times> approval_row)" where
  "approval_create cfg workspaces input now uuid t =
     (let request =
        \<lparr>ap_id = coalesce (ci_approvalId input) (''apr_'' @ uuid),
         ap_kind = ci_kind input,
         ap_workspaceSessionId = ci_workspaceSessionId input,
         ap_workSessionId = ci_workSessionId input,
         ap_ownerContextId = ci_ownerContextId input,
         ap_runId = ci_runId input,
         ap_agentId = ci_agentId input,
         ap_principalId = ci_principalId input,
         ap_approvalKey = ci_approvalKey input,
         ap_operationHash = ci_operationHash input,
         ap_mcpSessionId = ci_mcpSessionId input,
         ap_mcpRequestId = ci_mcpRequestId input,
         ap_waiterKey = ci_waiterKey input,
         ap_liveWaiterId = ci_liveWaiterId input,
         ap_origin = Some (derived_origin (ci_origin input) (ci_workSessionId input)),
         ap_conversationId = ci_conversationId input,
         ap_orphanedAt = ci_orphanedAt input,
         ap_reattachDeadline = ci_reattachDeadline input,
         ap_title = ci_title input,
         ap_description = ci_description input,
         ap_risk = ci_risk input,
         ap_tool = ci_tool input,
         ap_command = ci_command input,
         ap_path = ci_path input,
         ap_options = (case ci_options input of
              Some (x # xs) \<Rightarrow> x # xs | _ \<Rightarrow> defaultOptions),
         ap_status = APending,
         ap_createdAt = now,
         ap_expiresAt = or_else (ci_expiresAt input)
            (if ci_kind input = KTool
             then Some (now + (if truthy (ci_workSessionId input) then work_session_ttl
                               else ac_directToolApprovalTtlMs cfg))
             else None),
         ap_resolvedAt = None,
         ap_resolution = None,
         ap_consumedAt = None\<rparr>
      in if workspaces (ap_workspaceSessionId request) = Some False
         then Inl (WorkspaceNotActive (ap_workspaceSessionId request))
         else if ap_id request \<in> ap_id ` set t then Inl (ApprovalIdTaken (ap_id request))
         else Inr (t @ [request], request))"

definition bounded_limit :: "int \<Rightarrow> nat" where
  "bounded_limit limit = nat (max 1 (min 500 limit))"

definition is_expired_pending :: "iso_time \<Rightarrow> approval_row \<Rightarrow> bool" where
  "is_expired_pending now r \<longleftrightarrow>
     ap_status r = APending \<and> (case ap_expiresAt r of None \<Rightarrow> False | Some e \<Rightarrow> e \<le> now)"

definition expire_row :: "iso_time \<Rightarrow> approval_row \<Rightarrow> approval_row" where
  "expire_row now r =
     r\<lparr>ap_status := AExpired, ap_resolvedAt := Some now,
       ap_resolution := Some \<lparr>rs_optionId = None, rs_effect = None, rs_scope = None,
          rs_reason = Some ''approval timed out'', rs_reviewerId = None\<rparr>\<rparr>"

fun expire_loop :: "iso_time \<Rightarrow> string list \<Rightarrow> approvals \<Rightarrow> approvals \<times> string list" where
  "expire_loop now [] t = (t, [])"
| "expire_loop now (i # ids) t =
     (let P = (\<lambda>r. ap_id r = i \<and> ap_status r = APending);
          (t', expired) = expire_loop now ids (sql_update P (expire_row now) t)
      in (t', if sql_changes P t > 0 then i # expired else expired))"

definition expire_candidates :: "iso_time \<Rightarrow> int \<Rightarrow> approvals \<Rightarrow> string list" where
  "expire_candidates now limit t =
     map ap_id (take (bounded_limit limit)
       (order_asc (\<lambda>r. (coalesce (ap_expiresAt r) 0, ap_id r)) (filter (is_expired_pending now) t)))"

definition expirePending :: "iso_time \<Rightarrow> int \<Rightarrow> approvals \<Rightarrow> approvals \<times> approval_row list" where
  "expirePending now limit t =
     (let (t', expiredIds) = expire_loop now (expire_candidates now limit t) t
      in if expiredIds = [] then (t', [])
         else (t', map rowToApproval (filter (\<lambda>r. ap_id r \<in> set expiredIds) t')))"

definition approval_get :: "iso_time \<Rightarrow> string \<Rightarrow> approvals \<Rightarrow> approvals \<times> approval_row option" where
  "approval_get now i t =
     (let t' = fst (expirePending now 100 t)
      in (t', map_option rowToApproval (find (\<lambda>r. ap_id r = i) t')))"

definition approval_listPending ::
  "iso_time \<Rightarrow> string option \<Rightarrow> approvals \<Rightarrow> approvals \<times> approval_row list" where
  "approval_listPending now workspaceSessionId t =
     (let t' = fst (expirePending now 100 t)
      in (t', map rowToApproval (order_desc ap_createdAt
            (filter (\<lambda>r. ap_status r = APending
                       \<and> (truthy workspaceSessionId \<longrightarrow> Some (ap_workspaceSessionId r) = workspaceSessionId)) t'))))"

record approval_page =
  pg_requests :: "approval_row list"
  pg_nextBefore :: "(iso_time \<times> string) option"
  pg_hasMore :: bool

definition listPendingPage ::
  "string option \<Rightarrow> int \<Rightarrow> (iso_time \<times> string) option \<Rightarrow> approval_origin option \<Rightarrow> approvals \<Rightarrow> approval_page" where
  "listPendingPage workspaceSessionId limit before origin t =
     (let n = bounded_limit limit;
          rows = take (n + 1) (order_desc (\<lambda>r. (ap_createdAt r, ap_id r))
            (filter (\<lambda>r. ap_status r = APending
                \<and> (truthy workspaceSessionId \<longrightarrow> Some (ap_workspaceSessionId r) = workspaceSessionId)
                \<and> (origin \<noteq> None \<longrightarrow> ap_origin r = origin)
                \<and> (case before of None \<Rightarrow> True
                   | Some (at, i) \<Rightarrow> ap_createdAt r < at \<or> ap_createdAt r = at \<and> ap_id r < i)) t));
          hasMore = length rows > n;
          page = (if hasMore then take n rows else rows)
      in \<lparr>pg_requests = map rowToApproval page,
          pg_nextBefore = (case last_elem page of
              None \<Rightarrow> None
            | Some l \<Rightarrow> if hasMore then Some (ap_createdAt l, ap_id l) else None),
          pg_hasMore = hasMore\<rparr>)"

text \<open>
  The option check of \<open>resolve\<close>: the input to store, with its scope normalised to the one the
  option declares.
\<close>

definition check_option :: "resolve_input \<Rightarrow> approval_row \<Rightarrow> approval_error + resolve_input" where
  "check_option input existing =
     (if \<not> truthy (ri_optionId input) then Inr input
      else let oid = the (ri_optionId input)
           in case find (\<lambda>o'. opt_id o' = oid) (ap_options existing) of
                None \<Rightarrow> Inl (UnknownApprovalOption oid)
              | Some opt \<Rightarrow>
                  if ri_status input = AApproved \<and> opt_effect opt \<noteq> EApprove
                  then Inl (ApprovedNeedsApproveOption (opt_effect opt))
                  else if ri_status input = ADenied \<and> opt_effect opt \<notin> {EDeny, EChangesRequested}
                  then Inl (DeniedNeedsDenyOption (opt_effect opt))
                  else if ri_status input \<in> {AExpired, ACancelled}
                  then Inl (StatusCannotSelectOption (ri_status input))
                  else let expectedEffect = or_else (ri_effect input)
                             (if ri_status input = AApproved then Some EApprove
                              else if ri_status input = ADenied then Some EDeny else None)
                       in case expectedEffect of
                            Some e \<Rightarrow>
                              if opt_effect opt \<noteq> e then Inl (OptionEffectMismatch oid (opt_effect opt) e)
                              else if ri_status input = AApproved
                              then (let expectedScope = coalesce (opt_scope opt) ScOnce
                                    in case ri_scope input of
                                         Some sc \<Rightarrow> if sc \<noteq> expectedScope
                                                    then Inl (OptionScopeMismatch sc oid expectedScope)
                                                    else Inr (input\<lparr>ri_scope := Some expectedScope\<rparr>)
                                       | None \<Rightarrow> Inr (input\<lparr>ri_scope := Some expectedScope\<rparr>))
                              else Inr (input\<lparr>ri_scope := None\<rparr>)
                          | None \<Rightarrow>
                              if ri_status input = AApproved
                              then Inr (input\<lparr>ri_scope := Some (coalesce (opt_scope opt) ScOnce)\<rparr>)
                              else Inr (input\<lparr>ri_scope := None\<rparr>))"

definition resolve_write :: "resolve_input \<Rightarrow> iso_time \<Rightarrow> approval_row \<Rightarrow> approval_row" where
  "resolve_write input now r =
     r\<lparr>ap_status := ri_status input, ap_resolvedAt := Some now,
       ap_resolution := Some \<lparr>rs_optionId = ri_optionId input, rs_effect = ri_effect input,
          rs_scope = ri_scope input, rs_reason = ri_reason input, rs_reviewerId = ri_reviewerId input\<rparr>\<rparr>"

definition approval_resolve ::
  "string \<Rightarrow> resolve_input \<Rightarrow> iso_time \<Rightarrow> iso_time \<Rightarrow> iso_time \<Rightarrow> approvals
     \<Rightarrow> approvals \<times> (approval_error + approval_row option)" where
  "approval_resolve i input now_get now now_after t =
     (if ri_status input \<notin> {AApproved, ADenied, AExpired, ACancelled}
      then (t, Inl (InvalidResolutionStatus (ri_status input)))
      else let (t1, found) = approval_get now_get i t
           in case found of
                None \<Rightarrow> (t1, Inr None)
              | Some existing \<Rightarrow>
                  if ap_status existing \<noteq> APending then (t1, Inr (Some existing))
                  else if ri_effect input \<noteq> None \<and> \<not> truthy (ri_optionId input)
                  then (t1, Inl EffectRequiresOption)
                  else case check_option input existing of
                         Inl e \<Rightarrow> (t1, Inl e)
                       | Inr input' \<Rightarrow>
                           (let t2 = sql_update (\<lambda>r. ap_id r = i \<and> ap_status r = APending)
                                       (resolve_write input' now) t1;
                                (t3, res) = approval_get now_after i t2
                            in (t3, Inr res)))"

definition approval_detachLiveWaiter ::
  "approval_config \<Rightarrow> string \<Rightarrow> string \<Rightarrow> iso_time \<Rightarrow> approvals \<Rightarrow> approvals" where
  "approval_detachLiveWaiter cfg i liveWaiterId now t =
     sql_update (\<lambda>r. ap_id r = i \<and> ap_liveWaiterId r = Some liveWaiterId)
       (\<lambda>r. r\<lparr>ap_liveWaiterId := None, ap_orphanedAt := Some now,
              ap_reattachDeadline := Some (now + ac_directReattachGraceMs cfg)\<rparr>) t"

definition approval_reattachLiveWaiter :: "string \<Rightarrow> string \<Rightarrow> approvals \<Rightarrow> approvals" where
  "approval_reattachLiveWaiter i liveWaiterId t =
     sql_update (\<lambda>r. ap_id r = i \<and> ap_status r = APending)
       (\<lambda>r. r\<lparr>ap_liveWaiterId := Some liveWaiterId, ap_orphanedAt := None\<rparr>) t"

definition touchDirectApproval :: "approval_config \<Rightarrow> string \<Rightarrow> iso_time \<Rightarrow> approvals \<Rightarrow> approvals" where
  "touchDirectApproval cfg i now t =
     sql_update (\<lambda>r. ap_id r = i \<and> ap_kind r = KTool \<and> ap_workSessionId r = None
                   \<and> ap_origin r \<noteq> Some FromWorkSession \<and> ap_status r = APending)
       (\<lambda>r. r\<lparr>ap_reattachDeadline := Some (now + ac_directReattachGraceMs cfg)\<rparr>) t"

text \<open>
  Both consumers of one-shot approvals: they walk the unconsumed approved rows of the key, newest
  decision first, skip those whose recorded scope is not \<open>once\<close>, and mark the first other one.
\<close>

definition resolution_scope :: "approval_row \<Rightarrow> approval_scope option" where
  "resolution_scope r = (case ap_resolution r of None \<Rightarrow> None | Some rs \<Rightarrow> rs_scope rs)"

definition consumable :: "approval_row \<Rightarrow> bool" where
  "consumable r \<longleftrightarrow> ap_status r = AApproved \<and> ap_consumedAt r = None"

fun consume_loop :: "iso_time \<Rightarrow> approval_row list \<Rightarrow> approvals \<Rightarrow> approvals \<times> bool" where
  "consume_loop now [] t = (t, False)"
| "consume_loop now (cand # cands) t =
     (if resolution_scope cand \<noteq> Some ScOnce then consume_loop now cands t
      else let P = (\<lambda>r. ap_id r = ap_id cand \<and> consumable r);
               t' = sql_update P (\<lambda>r. r\<lparr>ap_consumedAt := Some now\<rparr>) t
           in if sql_changes P t = 1 then (t', True) else consume_loop now cands t')"

definition approval_consumeOperation :: "string \<Rightarrow> iso_time \<Rightarrow> approvals \<Rightarrow> approvals \<times> bool" where
  "approval_consumeOperation waiterKey now t =
     consume_loop now
       (order_desc (\<lambda>r. coalesce (ap_resolvedAt r) 0)
         (filter (\<lambda>r. ap_waiterKey r = Some waiterKey \<and> consumable r) t)) t"

definition direct_match :: "string \<Rightarrow> string \<Rightarrow> string \<Rightarrow> string \<Rightarrow> approval_row \<Rightarrow> bool" where
  "direct_match principalId workspaceSessionId ownerContextId operationHash r \<longleftrightarrow>
     ap_principalId r = Some principalId \<and> ap_workspaceSessionId r = workspaceSessionId
     \<and> ap_ownerContextId r = Some ownerContextId \<and> ap_operationHash r = Some operationHash
     \<and> ap_origin r = Some FromDirectMcp \<and> ap_workSessionId r = None"

definition approval_consumeDirectOperation ::
  "string \<Rightarrow> string \<Rightarrow> string \<Rightarrow> string \<Rightarrow> iso_time \<Rightarrow> approvals \<Rightarrow> approvals \<times> bool" where
  "approval_consumeDirectOperation principalId workspaceSessionId ownerContextId operationHash now t =
     consume_loop now
       (order_desc (\<lambda>r. coalesce (ap_resolvedAt r) 0)
         (filter (\<lambda>r. direct_match principalId workspaceSessionId ownerContextId operationHash r
                    \<and> consumable r) t)) t"

section \<open>How a table of approvals can evolve\<close>

inductive approval_step :: "approvals \<Rightarrow> approvals \<Rightarrow> bool" where
  apr_create: "approval_create cfg wss input now u t = Inr (t', r) \<Longrightarrow> approval_step t t'"
| apr_expire: "expirePending now lim t = (t', rs) \<Longrightarrow> approval_step t t'"
| apr_get: "approval_get now i t = (t', r) \<Longrightarrow> approval_step t t'"
| apr_list: "approval_listPending now w t = (t', rs) \<Longrightarrow> approval_step t t'"
| apr_resolve: "approval_resolve i input n1 n2 n3 t = (t', res) \<Longrightarrow> approval_step t t'"
| apr_detach: "approval_step t (approval_detachLiveWaiter cfg i l now t)"
| apr_reattach: "approval_step t (approval_reattachLiveWaiter i l t)"
| apr_touch: "approval_step t (touchDirectApproval cfg i now t)"
| apr_consume: "approval_consumeOperation k now t = (t', b) \<Longrightarrow> approval_step t t'"
| apr_consume_direct: "approval_consumeDirectOperation p w oc h now t = (t', b) \<Longrightarrow> approval_step t t'"

text \<open>
  What a row may become: it keeps its id, a decision once taken stays, a consumption once
  recorded stays.
\<close>

definition row_evolves :: "approval_row \<Rightarrow> approval_row \<Rightarrow> bool" where
  "row_evolves r r' \<longleftrightarrow>
     ap_id r' = ap_id r
     \<and> (ap_status r \<noteq> APending \<longrightarrow> ap_status r' = ap_status r \<and> ap_resolvedAt r' = ap_resolvedAt r
          \<and> ap_resolution r' = ap_resolution r)
     \<and> (ap_consumedAt r \<noteq> None \<longrightarrow> ap_consumedAt r' = ap_consumedAt r)
     \<and> (ap_status r' = APending \<longrightarrow> ap_status r = APending)"

definition evolves :: "approvals \<Rightarrow> approvals \<Rightarrow> bool" where
  "evolves t t' \<longleftrightarrow> list_all2 row_evolves t t'"

lemma row_evolves_refl [simp]: "row_evolves r r"
  by (simp add: row_evolves_def)

lemma row_evolves_trans: "row_evolves a b \<Longrightarrow> row_evolves b c \<Longrightarrow> row_evolves a c"
  unfolding row_evolves_def by metis

lemma evolves_refl [simp]: "evolves t t"
  by (simp add: evolves_def list_all2_refl)

lemma evolves_trans: "evolves t u \<Longrightarrow> evolves u v \<Longrightarrow> evolves t v"
  unfolding evolves_def
  using list_all2_trans [of row_evolves row_evolves row_evolves] row_evolves_trans by blast

lemma evolves_sql_update:
  assumes "\<And>r. r \<in> set t \<Longrightarrow> P r \<Longrightarrow> row_evolves r (f r)"
  shows "evolves t (sql_update P f t)"
  using assms by (induction t) (auto simp: evolves_def)

lemma evolves_ids: "evolves t t' \<Longrightarrow> map ap_id t' = map ap_id t"
  unfolding evolves_def by (induction rule: list_all2_induct) (auto simp: row_evolves_def)

lemma evolvesD:
  assumes "evolves t t'" "r \<in> set t"
  shows "\<exists>r' \<in> set t'. row_evolves r r'"
  using assms unfolding evolves_def by (metis in_set_conv_nth list_all2_conv_all_nth)

lemma expire_row_evolves: "ap_status r = APending \<Longrightarrow> row_evolves r (expire_row now r)"
  by (simp add: row_evolves_def expire_row_def)

lemma expire_loop_rows:
  "fst (expire_loop now ids t)
     = sql_update (\<lambda>r. ap_id r \<in> set ids \<and> ap_status r = APending) (expire_row now) t"
proof (induction ids arbitrary: t)
  case Nil
  then show ?case by (simp add: sql_update_none)
next
  case (Cons i ids)
  have "sql_update (\<lambda>r. ap_id r \<in> set ids \<and> ap_status r = APending) (expire_row now)
      (sql_update (\<lambda>r. ap_id r = i \<and> ap_status r = APending) (expire_row now) t)
    = sql_update (\<lambda>r. ap_id r \<in> set (i # ids) \<and> ap_status r = APending) (expire_row now) t"
    by (auto simp: sql_update_def expire_row_def)
  with Cons.IH show ?case by (simp add: case_prod_beta Let_def)
qed

lemma fst_expirePending:
  "fst (expirePending now lim t) =
     sql_update (\<lambda>r. ap_id r \<in> set (expire_candidates now lim t) \<and> ap_status r = APending)
       (expire_row now) t"
  by (simp add: expirePending_def case_prod_beta Let_def expire_loop_rows)

lemma expirePending_evolves: "evolves t (fst (expirePending now lim t))"
  unfolding fst_expirePending by (rule evolves_sql_update) (simp add: expire_row_evolves)

lemma approval_get_evolves: "evolves t (fst (approval_get now i t))"
  by (simp add: approval_get_def expirePending_evolves Let_def)

lemma resolve_write_evolves:
  "ri_status input \<noteq> APending \<Longrightarrow> ap_status r = APending \<Longrightarrow> row_evolves r (resolve_write input now r)"
  by (simp add: row_evolves_def resolve_write_def)

lemma check_option_status: "check_option input existing = Inr input' \<Longrightarrow> ri_status input' = ri_status input"
  by (auto simp: check_option_def Let_def split: if_splits option.splits)

lemma approval_resolve_evolves: "evolves t (fst (approval_resolve i input n1 n2 n3 t))"
proof -
  obtain t1 found where g: "approval_get n1 i t = (t1, found)" by fastforce
  have t1: "evolves t t1" using approval_get_evolves [of t n1 i] g by simp
  have wr: "evolves t (fst (approval_get n3 i
      (sql_update (\<lambda>r. ap_id r = i \<and> ap_status r = APending) (resolve_write input' n2) t1)))"
    if "ri_status input' \<noteq> APending" for input'
    by (rule evolves_trans [OF t1 evolves_trans [OF _ approval_get_evolves]], rule evolves_sql_update)
      (simp add: resolve_write_evolves that)
  show ?thesis
    using t1 wr by (auto simp: approval_resolve_def g case_prod_beta Let_def
        dest: check_option_status split: option.splits sum.splits)
qed

lemma consume_loop_evolves: "evolves t (fst (consume_loop now cands t))"
proof (induction cands arbitrary: t)
  case Nil
  then show ?case by simp
next
  case (Cons c cands)
  have "evolves t (sql_update (\<lambda>r. ap_id r = ap_id c \<and> consumable r) (\<lambda>r. r\<lparr>ap_consumedAt := Some now\<rparr>) t)"
    by (rule evolves_sql_update) (auto simp: row_evolves_def consumable_def)
  with Cons.IH show ?case by (auto simp: Let_def intro: evolves_trans)
qed

lemma approval_step_shape:
  "approval_step t t' \<Longrightarrow> evolves t t' \<or> (\<exists>r. t' = t @ [r] \<and> ap_id r \<notin> ap_id ` set t)"
proof (induction rule: approval_step.induct)
  case (apr_create cfg wss input now u t t' r)
  then show ?case by (auto simp: approval_create_def Let_def split: if_splits)
next
  case (apr_expire now lim t t' rs)
  then show ?case using expirePending_evolves [of t now lim] by simp
next
  case (apr_get now i t t' r)
  then show ?case using approval_get_evolves [of t now i] by simp
next
  case (apr_list now w t t' rs)
  then show ?case using expirePending_evolves [of t now 100]
    by (auto simp: approval_listPending_def Let_def)
next
  case (apr_resolve i input n1 n2 n3 t t' res)
  then show ?case using approval_resolve_evolves [of t i input n1 n2 n3] by simp
next
  case (apr_consume k now t t' b)
  then show ?case unfolding approval_consumeOperation_def by (metis consume_loop_evolves fst_conv)
next
  case (apr_consume_direct p w oc h now t t' b)
  then show ?case unfolding approval_consumeDirectOperation_def by (metis consume_loop_evolves fst_conv)
qed (auto simp: approval_detachLiveWaiter_def approval_reattachLiveWaiter_def touchDirectApproval_def
    row_evolves_def intro!: evolves_sql_update disjI1)

lemma approval_step_row:
  assumes "approval_step t t'" "r \<in> set t"
  shows "\<exists>r' \<in> set t'. row_evolves r r'"
  using approval_step_shape [OF assms(1)] evolvesD [OF _ assms(2)] assms(2) by fastforce

lemma approval_steps_row:
  assumes "approval_step\<^sup>*\<^sup>* t t'" "r \<in> set t"
  shows "\<exists>r' \<in> set t'. row_evolves r r'"
  using assms
  by (induction rule: rtranclp_induct) (use row_evolves_refl in blast, meson approval_step_row row_evolves_trans)

interpretation approval_inv:
  store_invariant "\<lambda>t. t = []" approval_step "\<lambda>t. distinct (map ap_id t)"
proof unfold_locales
  show "distinct (map ap_id t')" if "distinct (map ap_id t)" "approval_step t t'" for t t'
    using approval_step_shape [OF that(2)] that(1) evolves_ids [of t t'] by auto
qed simp

section \<open>Properties\<close>

definition demo_approval :: approval_row where
  "demo_approval =
     \<lparr>ap_id = ''apr_1'', ap_kind = KTool, ap_workspaceSessionId = ''ws'', ap_workSessionId = None,
      ap_ownerContextId = Some ''owner'', ap_runId = None, ap_agentId = None,
      ap_principalId = Some ''alice'', ap_approvalKey = Some ''tool:bash'',
      ap_operationHash = Some ''h'', ap_mcpSessionId = None, ap_mcpRequestId = None,
      ap_waiterKey = Some ''k'', ap_liveWaiterId = None, ap_origin = Some FromDirectMcp,
      ap_conversationId = None, ap_orphanedAt = None, ap_reattachDeadline = None,
      ap_title = ''Approve bash'', ap_description = None, ap_risk = None, ap_tool = Some ''bash'',
      ap_command = None, ap_path = None, ap_options = defaultOptions, ap_status = APending,
      ap_createdAt = 0, ap_expiresAt = Some 600000, ap_resolvedAt = None, ap_resolution = None,
      ap_consumedAt = None\<rparr>"

definition demo_approved :: approval_row where
  "demo_approved = demo_approval\<lparr>ap_status := AApproved, ap_resolvedAt := Some 10,
     ap_resolution := Some \<lparr>rs_optionId = Some ''approve'', rs_effect = None,
       rs_scope = Some ScOnce, rs_reason = None, rs_reviewerId = None\<rparr>\<rparr>"

subsection \<open>Decisions are final\<close>

text \<open>
  C7. A decision is final. Once a request is approved, denied, expired or cancelled, no sequence
  of operations of the manager changes its status, its decision time or its recorded resolution,
  removes it, or un-consumes it.
\<close>

theorem approval_decision_final:
  assumes "distinct (map ap_id t)" and "approval_step\<^sup>*\<^sup>* t t'"
    and "r \<in> set t" and "ap_status r \<noteq> APending"
  shows "\<exists>r' \<in> set t'. (\<forall>x \<in> set t'. ap_id x = ap_id r \<longrightarrow> x = r')
    \<and> ap_id r' = ap_id r \<and> ap_status r' = ap_status r \<and> ap_resolvedAt r' = ap_resolvedAt r
    \<and> ap_resolution r' = ap_resolution r
    \<and> (ap_consumedAt r \<noteq> None \<longrightarrow> ap_consumedAt r' = ap_consumedAt r)"
proof -
  have "distinct (map ap_id t')"
    using assms(2,1) by (induction rule: rtranclp_induct) (auto intro: approval_inv.inv_step)
  moreover obtain r' where "r' \<in> set t'" "row_evolves r r'"
    using approval_steps_row [OF assms(2,3)] by blast
  ultimately show ?thesis
    using assms(4) key_unique [of ap_id t'] unfolding row_evolves_def by metis
qed

theorem approval_decision_final_witness:
  "\<exists>r' \<in> set (fst (expirePending 999999999 100 [demo_approved])). ap_status r' = AApproved"
proof -
  have "distinct (map ap_id [demo_approved])" "demo_approved \<in> set [demo_approved]"
    "ap_status demo_approved \<noteq> APending"
    by (simp_all add: demo_approved_def)
  moreover have "approval_step\<^sup>*\<^sup>* [demo_approved] (fst (expirePending 999999999 100 [demo_approved]))"
    by (rule r_into_rtranclp, rule apr_expire) (rule prod.collapse [symmetric])
  ultimately show ?thesis
    using approval_decision_final [of "[demo_approved]" _ demo_approved]
    by (fastforce simp: demo_approved_def)
qed

subsection \<open>One-shot approvals\<close>

definition one_shot :: "approval_row \<Rightarrow> bool" where
  "one_shot r \<longleftrightarrow> consumable r \<and> resolution_scope r = Some ScOnce"

lemma consume_loop_eq:
  assumes "distinct (map ap_id t)" "set cands \<subseteq> set t" "\<forall>c \<in> set cands. consumable c"
  shows "consume_loop now cands t =
    (case find one_shot cands of
       None \<Rightarrow> (t, False)
     | Some c \<Rightarrow> (map (\<lambda>r. if r = c then r\<lparr>ap_consumedAt := Some now\<rparr> else r) t, True))"
  using assms(2,3)
proof (induction cands)
  case Nil
  then show ?case by simp
next
  case (Cons c cands)
  let ?P = "\<lambda>r. ap_id r = ap_id c \<and> consumable r"
  have m: "?P r \<longleftrightarrow> r = c" if "r \<in> set t" for r
    using that Cons.prems key_unique [OF assms(1), of r c] by auto
  have "sql_changes ?P t = 1"
    using Cons.prems assms(1)
    by (subst sql_changes_eq_one_iff [where k = ap_id and v = "ap_id c"]) auto
  moreover have "sql_update ?P (\<lambda>r. r\<lparr>ap_consumedAt := Some now\<rparr>) t
      = map (\<lambda>r. if r = c then r\<lparr>ap_consumedAt := Some now\<rparr> else r) t"
    using m by (simp add: sql_update_def)
  ultimately show ?case using Cons by (simp add: one_shot_def Let_def)
qed

lemma consume_keyed:
  assumes "distinct (map ap_id t)"
    and "consume_loop now (order_desc k (filter (\<lambda>r. Q r \<and> consumable r) t)) t = (t', b)"
  shows "(b \<longleftrightarrow> (\<exists>r \<in> set t. Q r \<and> one_shot r))
    \<and> (if b then \<exists>c \<in> set t. Q c \<and> one_shot c
           \<and> t' = map (\<lambda>r. if r = c then r\<lparr>ap_consumedAt := Some now\<rparr> else r) t
        else t' = t)"
proof -
  let ?cs = "order_desc k (filter (\<lambda>r. Q r \<and> consumable r) t)"
  have eq: "consume_loop now ?cs t =
    (case find one_shot ?cs of
       None \<Rightarrow> (t, False)
     | Some c \<Rightarrow> (map (\<lambda>r. if r = c then r\<lparr>ap_consumedAt := Some now\<rparr> else r) t, True))"
    by (rule consume_loop_eq [OF assms(1)]) auto
  show ?thesis
  proof (cases "find one_shot ?cs")
    case None
    then have "\<not> (\<exists>r \<in> set t. Q r \<and> one_shot r)"
      by (auto simp: find_None_iff_all one_shot_def)
    with None eq assms(2) show ?thesis by simp
  next
    case (Some c)
    then have c: "c \<in> set t" "Q c" "one_shot c" using find_Some_mem [OF Some] by simp_all
    from Some eq assms(2) have "t' = map (\<lambda>r. if r = c then r\<lparr>ap_consumedAt := Some now\<rparr> else r) t" "b"
      by simp_all
    then have "\<exists>c \<in> set t. Q c \<and> one_shot c
        \<and> t' = map (\<lambda>r. if r = c then r\<lparr>ap_consumedAt := Some now\<rparr> else r) t" and "b"
      using c by blast+
    then show ?thesis using c(1-3) by (simp only: if_True) blast
  qed
qed

text \<open>
  A one-shot approval is consumed only by the operation it was given for: the call succeeds
  exactly when the table holds an approved, unconsumed request with that waiter key whose
  decision was for one execution, and then it marks one such request and changes nothing else.
\<close>

theorem consumeApprovedOperation_exact:
  assumes "distinct (map ap_id t)" and "approval_consumeOperation waiterKey now t = (t', b)"
  shows "(b \<longleftrightarrow> (\<exists>r \<in> set t. ap_waiterKey r = Some waiterKey \<and> ap_status r = AApproved
             \<and> ap_consumedAt r = None \<and> resolution_scope r = Some ScOnce))
    \<and> (if b then \<exists>c \<in> set t. ap_waiterKey c = Some waiterKey \<and> ap_status c = AApproved
           \<and> ap_consumedAt c = None \<and> resolution_scope c = Some ScOnce
           \<and> t' = map (\<lambda>r. if r = c then r\<lparr>ap_consumedAt := Some now\<rparr> else r) t
        else t' = t)"
  using consume_keyed [OF assms(1) assms(2) [unfolded approval_consumeOperation_def]]
  unfolding one_shot_def consumable_def conj_assoc .

lemma demo_approved_consume:
  "approval_consumeOperation ''k'' 20 [demo_approved] = ([demo_approved\<lparr>ap_consumedAt := Some 20\<rparr>], True)"
  by (simp add: approval_consumeOperation_def demo_approved_def demo_approval_def consumable_def
      order_desc_def resolution_scope_def)

theorem consumeApprovedOperation_exact_witness:
  "approval_consumeOperation ''k'' 20 [demo_approved] = ([demo_approved\<lparr>ap_consumedAt := Some 20\<rparr>], True)
   \<and> (\<exists>r \<in> set [demo_approved]. ap_waiterKey r = Some ''k'' \<and> ap_status r = AApproved)"
  using demo_approved_consume consumeApprovedOperation_exact [OF _ demo_approved_consume] by auto

text \<open>
  A direct approval is bound to its exact principal, workspace, owner context and operation
  hash: consuming it succeeds exactly when an approved, unconsumed one-execution request with
  those four values exists that came from a direct call outside any work session, and it marks
  one such request and nothing else.
\<close>

theorem consumeApprovedDirectOperation_exact:
  assumes "distinct (map ap_id t)"
    and "approval_consumeDirectOperation prin workspace owner opHash now t = (t', b)"
  shows "(b \<longleftrightarrow> (\<exists>r \<in> set t. direct_match prin workspace owner opHash r \<and> one_shot r))
    \<and> (if b then \<exists>c \<in> set t. direct_match prin workspace owner opHash c \<and> one_shot c
           \<and> t' = map (\<lambda>r. if r = c then r\<lparr>ap_consumedAt := Some now\<rparr> else r) t
        else t' = t)"
  using consume_keyed [OF assms(1) assms(2) [unfolded approval_consumeDirectOperation_def]] by simp

lemma demo_direct_refused:
  "approval_consumeDirectOperation ''alice'' ''ws'' ''owner'' ''other'' 20 [demo_approved]
     = ([demo_approved], False)"
  by (simp add: approval_consumeDirectOperation_def demo_approved_def demo_approval_def consumable_def
      order_desc_def direct_match_def)

theorem consumeApprovedDirectOperation_exact_witness:
  "\<not> (\<exists>r \<in> set [demo_approved]. direct_match ''alice'' ''ws'' ''owner'' ''other'' r \<and> one_shot r)"
  using consumeApprovedDirectOperation_exact [OF _ demo_direct_refused] by simp

fun consume_run :: "string \<Rightarrow> iso_time list \<Rightarrow> approvals \<Rightarrow> bool list" where
  "consume_run k [] t = []"
| "consume_run k (now # nows) t =
     (let (t', b) = approval_consumeOperation k now t in b # consume_run k nows t')"

definition one_shots_for :: "string \<Rightarrow> approvals \<Rightarrow> nat" where
  "one_shots_for k t = length (filter (\<lambda>r. ap_waiterKey r = Some k \<and> one_shot r) t)"

lemma length_filter_remove_one:
  assumes "distinct xs" "c \<in> set xs" "P c" "\<not> P (f c)"
  shows "length (filter P (map (\<lambda>r. if r = c then f r else r) xs)) = length (filter P xs) - 1"
  using assms
proof (induction xs)
  case Nil
  then show ?case by simp
next
  case (Cons x xs)
  show ?case
  proof (cases "x = c")
    case True
    with Cons.prems have "map (\<lambda>r. if r = c then f r else r) xs = xs" by (intro map_idI) auto
    with True Cons.prems show ?thesis by simp
  next
    case False
    with Cons.prems have "c \<in> set xs" by simp
    then have "filter P xs \<noteq> []" using Cons.prems(3) by (auto simp: filter_empty_conv)
    then show ?thesis using False Cons by auto
  qed
qed

lemma consume_counts:
  assumes "distinct (map ap_id t)" "approval_consumeOperation k now t = (t', b)"
  shows "distinct (map ap_id t') \<and> b = (0 < one_shots_for k t) \<and> one_shots_for k t' = one_shots_for k t - 1"
proof -
  note c = consume_keyed [OF assms(1) assms(2) [unfolded approval_consumeOperation_def]]
  have pos: "0 < one_shots_for k t \<longleftrightarrow> (\<exists>r \<in> set t. ap_waiterKey r = Some k \<and> one_shot r)"
    by (simp add: one_shots_for_def filter_empty_conv)
  show ?thesis
  proof (cases b)
    case False
    with c pos have "t' = t" "one_shots_for k t = 0" by auto
    with False assms(1) show ?thesis by simp
  next
    case True
    with c obtain x where x: "x \<in> set t" "ap_waiterKey x = Some k" "one_shot x"
      "t' = map (\<lambda>r. if r = x then r\<lparr>ap_consumedAt := Some now\<rparr> else r) t" by auto
    have "map ap_id t' = map ap_id t" by (simp add: x(4))
    moreover have "one_shots_for k t' = one_shots_for k t - 1"
      unfolding one_shots_for_def x(4)
      by (rule length_filter_remove_one)
        (use x assms(1) in \<open>auto simp: distinct_map one_shot_def consumable_def\<close>)
    ultimately show ?thesis using True c pos assms(1) by simp
  qed
qed

text \<open>
  Exactly as many executions as approvals: when the same operation is retried any number of
  times, the first retries succeed, one for each unconsumed one-execution approval of its key, and
  all later ones are refused.
\<close>

theorem one_shot_executions_exact:
  assumes "distinct (map ap_id t)"
  shows "consume_run k nows t =
    replicate (min (length nows) (one_shots_for k t)) True
    @ replicate (length nows - one_shots_for k t) False"
  using assms
proof (induction nows arbitrary: t)
  case Nil
  then show ?case by simp
next
  case (Cons now nows)
  obtain t' b where e: "approval_consumeOperation k now t = (t', b)" by fastforce
  note c = consume_counts [OF Cons.prems e]
  then have IH: "consume_run k nows t' =
      replicate (min (length nows) (one_shots_for k t - 1)) True
      @ replicate (length nows - (one_shots_for k t - 1)) False"
    using Cons.IH [of t'] by simp
  show ?case
    using c IH by (cases "one_shots_for k t") (simp_all add: e)
qed

theorem one_shot_executions_exact_witness:
  "consume_run ''k'' [20, 21, 22] [demo_approved] = [True, False, False]"
proof -
  have "one_shots_for ''k'' [demo_approved] = 1"
    by (simp add: one_shots_for_def one_shot_def demo_approved_def demo_approval_def consumable_def
        resolution_scope_def)
  then show ?thesis
    using one_shot_executions_exact [of "[demo_approved]" "''k''" "[20, 21, 22]"]
    by (simp add: numeral_2_eq_2)
qed

subsection \<open>Expiry\<close>

abbreviation expiry_key :: "approval_row \<Rightarrow> iso_time \<times> string" where
  "expiry_key r \<equiv> (coalesce (ap_expiresAt r) 0, ap_id r)"

lemma find_after_expire:
  assumes "distinct (map ap_id t)" "r \<in> set t" "ap_status r = APending"
  shows "find (\<lambda>x. ap_id x = ap_id r) (fst (expirePending now lim t)) =
    Some (if ap_id r \<in> set (expire_candidates now lim t) then expire_row now r else r)"
proof -
  let ?t = "fst (expirePending now lim t)"
  let ?r = "if ap_id r \<in> set (expire_candidates now lim t) then expire_row now r else r"
  have "?r \<in> set ?t" using assms(2,3) by (auto simp: fst_expirePending set_sql_update)
  moreover have "distinct (map ap_id ?t)" using evolves_ids [OF expirePending_evolves] assms(1) by metis
  moreover have "ap_id ?r = ap_id r" by (simp add: expire_row_def)
  ultimately show ?thesis using find_unique_key [of ap_id ?t ?r] by simp
qed

lemma expire_candidates_all:
  assumes "length (filter (is_expired_pending now) t) \<le> bounded_limit lim"
  shows "set (expire_candidates now lim t) = ap_id ` {r \<in> set t. is_expired_pending now r}"
proof -
  have "length (order_asc expiry_key (filter (is_expired_pending now) t)) \<le> bounded_limit lim"
    using assms by (simp add: order_asc_def)
  then have "set (expire_candidates now lim t)
      = ap_id ` set (order_asc expiry_key (filter (is_expired_pending now) t))"
    by (simp add: expire_candidates_def)
  then show ?thesis by simp
qed

text \<open>
  A request whose time has run out cannot be decided any more: as long as at most a hundred
  requests are waiting to be expired, \<open>resolve\<close> on a request past its expiry records nothing of
  the decision and reports the request as expired.
\<close>

theorem resolve_refuses_expired:
  assumes "distinct (map ap_id t)" and "r \<in> set t" and "is_expired_pending now_get r"
    and "length (filter (is_expired_pending now_get) t) \<le> 100"
    and "ri_status input \<noteq> APending"
  shows "approval_resolve (ap_id r) input now_get now now_after t =
    (fst (expirePending now_get 100 t), Inr (Some (rowToApproval (expire_row now_get r))))"
proof -
  have pend: "ap_status r = APending" using assms(3) by (simp add: is_expired_pending_def)
  have "ap_id r \<in> set (expire_candidates now_get 100 t)"
    using expire_candidates_all [of now_get t 100] assms(2-4) by (simp add: bounded_limit_def)
  then have "approval_get now_get (ap_id r) t =
      (fst (expirePending now_get 100 t), Some (rowToApproval (expire_row now_get r)))"
    using find_after_expire [OF assms(1,2) pend, of now_get 100] by (simp add: approval_get_def Let_def)
  moreover have "ap_status (rowToApproval (expire_row now_get r)) = AExpired"
    by (simp add: rowToApproval_def expire_row_def)
  ultimately show ?thesis
    using assms(5) by (cases "ri_status input") (simp_all add: approval_resolve_def)
qed

definition approve_input :: resolve_input where
  "approve_input = \<lparr>ri_status = AApproved, ri_optionId = None, ri_effect = None, ri_scope = None,
     ri_reason = None, ri_reviewerId = Some ''rev''\<rparr>"

theorem resolve_refuses_expired_witness:
  "snd (approval_resolve ''apr_1'' approve_input 700000 700001 700002 [demo_approval])
     = Inr (Some (rowToApproval (expire_row 700000 demo_approval)))"
proof -
  have "distinct (map ap_id [demo_approval])" "demo_approval \<in> set [demo_approval]"
    "is_expired_pending 700000 demo_approval"
    "length (filter (is_expired_pending 700000) [demo_approval]) \<le> 100"
    "ri_status approve_input \<noteq> APending" "ap_id demo_approval = ''apr_1''"
    by (simp_all add: demo_approval_def is_expired_pending_def approve_input_def)
  with resolve_refuses_expired [of "[demo_approval]" demo_approval 700000 approve_input 700001 700002]
  show ?thesis by simp
qed

lemma rank_not_in_prefix:
  fixes k :: "'a \<Rightarrow> 'b::linorder"
  assumes "sorted (map k ys)" "n \<le> length (filter (\<lambda>x. k x < k r) ys)"
  shows "r \<notin> set (take n ys)"
proof
  assume "r \<in> set (take n ys)"
  then obtain i where i: "i < n" "i < length ys" "ys ! i = r"
    by (auto simp: in_set_conv_nth)
  have "\<not> k x < k r" if x: "x \<in> set (drop i ys)" for x
  proof -
    obtain j where "j < length (drop i ys)" "x = drop i ys ! j"
      using x in_set_conv_nth [of x "drop i ys"] by metis
    then have "x = ys ! (i + j)" "i + j < length ys" by auto
    then show ?thesis using sorted_nth_mono [OF assms(1), of i "i + j"] i by auto
  qed
  then have "filter (\<lambda>x. k x < k r) (drop i ys) = []" by (simp add: filter_empty_conv)
  then have "filter (\<lambda>x. k x < k r) ys = filter (\<lambda>x. k x < k r) (take i ys)"
    by (metis append_Nil2 append_take_drop_id filter_append)
  then have "length (filter (\<lambda>x. k x < k r) ys) \<le> i"
    by (metis length_filter_le length_take min.cobounded2 order_trans)
  with i assms(2) show False by simp
qed

lemma not_candidate_behind_backlog:
  assumes "distinct (map ap_id t)" "r \<in> set t"
    and "bounded_limit lim \<le> length (filter (\<lambda>x. is_expired_pending now x \<and> expiry_key x < expiry_key r) t)"
  shows "ap_id r \<notin> set (expire_candidates now lim t)"
proof
  let ?ys = "order_asc expiry_key (filter (is_expired_pending now) t)"
  assume "ap_id r \<in> set (expire_candidates now lim t)"
  then obtain x where x: "x \<in> set (take (bounded_limit lim) ?ys)" "ap_id x = ap_id r"
    by (auto simp: expire_candidates_def)
  then have "x \<in> set t" by (auto dest: in_set_takeD)
  then have "x = r" using x key_unique [OF assms(1)] assms(2) by blast
  have "length (filter (\<lambda>x. expiry_key x < expiry_key r) ?ys)
      = length (filter (\<lambda>x. expiry_key x < expiry_key r) (filter (is_expired_pending now) t))"
    by (simp add: order_asc_def filter_sort)
  with assms(3) have "bounded_limit lim \<le> length (filter (\<lambda>x. expiry_key x < expiry_key r) ?ys)"
    by (simp add: conj_commute)
  then have "r \<notin> set (take (bounded_limit lim) ?ys)" by (rule rank_not_in_prefix [rotated]) simp
  with x \<open>x = r\<close> show False by simp
qed

text \<open>
  C30. The hundred-row bound of the sweep is visible: a request past its expiry, behind a hundred
  requests that expired before it, is still taken for pending and can be approved.
\<close>

theorem expired_behind_backlog_approved:
  assumes "distinct (map ap_id t)" and "r \<in> set t" and "is_expired_pending now_get r"
    and "100 \<le> length (filter (\<lambda>x. is_expired_pending now_get x \<and> expiry_key x < expiry_key r) t)"
    and "input = \<lparr>ri_status = AApproved, ri_optionId = None, ri_effect = None, ri_scope = sc,
           ri_reason = None, ri_reviewerId = rv\<rparr>"
  shows "snd (approval_resolve (ap_id r) input now_get now now_after t)
    = Inr (Some (rowToApproval (resolve_write input now r)))"
proof -
  let ?t1 = "fst (expirePending now_get 100 t)"
  let ?P = "\<lambda>x. ap_id x = ap_id r \<and> ap_status x = APending"
  let ?t2 = "sql_update ?P (resolve_write input now) ?t1"
  have pend: "ap_status r = APending" using assms(3) by (simp add: is_expired_pending_def)
  have notin: "ap_id r \<notin> set (expire_candidates now_get 100 t)"
    using not_candidate_behind_backlog [OF assms(1,2), of 100 now_get] assms(4)
    by (simp add: bounded_limit_def)
  then have found: "find (\<lambda>x. ap_id x = ap_id r) ?t1 = Some r"
    using find_after_expire [OF assms(1,2) pend, of now_get 100] by simp
  then have r1: "r \<in> set ?t1" by (auto dest: find_Some_mem)
  have ids2: "map ap_id ?t2 = map ap_id t"
    using evolves_ids [OF expirePending_evolves [of t now_get 100]]
    by (subst map_sql_update) (simp_all add: resolve_write_def)
  have "resolve_write input now r \<in> set ?t2" using r1 pend by (auto simp: set_sql_update)
  then have "find (\<lambda>x. ap_id x = ap_id r) (fst (expirePending now_after 100 ?t2))
      = Some (resolve_write input now r)"
    using assms(1,5) ids2
      find_unique_key [of ap_id "fst (expirePending now_after 100 ?t2)" "resolve_write input now r"]
      evolves_ids [OF expirePending_evolves [of ?t2 now_after 100]]
    by (auto simp: fst_expirePending set_sql_update resolve_write_def)
  then have "snd (approval_get now_after (ap_id r) ?t2) = Some (rowToApproval (resolve_write input now r))"
    by (simp add: approval_get_def Let_def)
  moreover have "approval_get now_get (ap_id r) t = (?t1, Some (rowToApproval r))"
    using found by (simp add: approval_get_def Let_def)
  ultimately show ?thesis
    using pend assms(5)
    by (simp add: approval_resolve_def rowToApproval_def check_option_def case_prod_beta Let_def)
qed

definition backlog :: approvals where
  "backlog = map (\<lambda>i. demo_approval\<lparr>ap_id := replicate i (CHR ''a''), ap_expiresAt := Some (int i)\<rparr>) [0..<101]"

theorem expired_behind_backlog_approved_witness:
  "\<exists>r. snd (approval_resolve (replicate 100 (CHR ''a'')) approve_input 700 701 702 backlog) = Inr (Some r)
     \<and> ap_status r = AApproved \<and> ap_expiresAt r = Some 100"
proof -
  let ?f = "\<lambda>i. demo_approval\<lparr>ap_id := replicate i (CHR ''a''), ap_expiresAt := Some (int i)\<rparr>"
  let ?P = "\<lambda>x. is_expired_pending 700 x \<and> expiry_key x < expiry_key (?f 100)"
  have rows: "?f 100 \<in> set backlog" unfolding backlog_def set_map by (rule image_eqI [of _ _ 100]) simp_all
  have dist: "distinct (map ap_id backlog)"
    by (auto simp: backlog_def distinct_map inj_on_def comp_def)
  have exp: "is_expired_pending 700 (?f 100)" by (simp add: is_expired_pending_def demo_approval_def)
  have keep: "filter ?P (map ?f [0..<100]) = map ?f [0..<100]"
    by (auto simp: filter_id_conv is_expired_pending_def demo_approval_def)
  have split: "backlog = map ?f [0..<100] @ [?f 100]"
    by (simp add: backlog_def upt_Suc_append [of 0 100, simplified])
  have "length (filter ?P backlog) \<ge> 100" unfolding split filter_append keep by simp
  from expired_behind_backlog_approved [OF dist rows exp this, of approve_input None "Some ''rev''" 701 702]
  show ?thesis by (simp add: approve_input_def rowToApproval_def resolve_write_def)
qed

subsection \<open>The breadth of a grant\<close>

text \<open>
  A reviewer's choice cannot be widened: a request that ends up approved through a selected
  option is approved through an option of its own card whose effect is to approve, and the scope
  recorded is the one that option declares, one execution where it declares none. A mismatching
  scope, effect or option id is an error that decides nothing.
\<close>

theorem resolve_scope_from_option:
  assumes "check_option input existing = Inr input'"
    and "ri_status input = AApproved" and "ri_optionId input = Some oid" and "oid \<noteq> []"
  shows "\<exists>opt \<in> set (ap_options existing). opt_id opt = oid \<and> opt_effect opt = EApprove
    \<and> input' = input\<lparr>ri_scope := Some (coalesce (opt_scope opt) ScOnce)\<rparr>
    \<and> (ri_scope input = None \<or> ri_scope input = Some (coalesce (opt_scope opt) ScOnce))
    \<and> (ri_effect input = None \<or> ri_effect input = Some EApprove)"
proof -
  obtain opt where opt: "find (\<lambda>o'. opt_id o' = oid) (ap_options existing) = Some opt"
    using assms by (auto simp: check_option_def split: option.splits)
  have mem: "opt \<in> set (ap_options existing)" "opt_id opt = oid" using find_Some_mem [OF opt] by auto
  have eff: "opt_effect opt = EApprove"
    using assms opt by (auto simp: check_option_def split: if_splits)
  have "ri_effect input = None \<or> ri_effect input = Some EApprove"
    using assms opt eff by (cases "ri_effect input") (auto simp: check_option_def split: if_splits)
  moreover have "input' = input\<lparr>ri_scope := Some (coalesce (opt_scope opt) ScOnce)\<rparr>
      \<and> (ri_scope input = None \<or> ri_scope input = Some (coalesce (opt_scope opt) ScOnce))"
    using assms opt eff calculation
    by (cases "ri_scope input") (auto simp: check_option_def Let_def split: if_splits)
  ultimately show ?thesis using mem eff by blast
qed

theorem resolve_scope_from_option_witness:
  "\<exists>opt \<in> set (ap_options demo_approval). opt_id opt = ''approve'' \<and> opt_effect opt = EApprove"
proof -
  have "check_option (approve_input\<lparr>ri_optionId := Some ''approve''\<rparr>) demo_approval
      = Inr (approve_input\<lparr>ri_optionId := Some ''approve'', ri_scope := Some ScOnce\<rparr>)"
    by (simp add: check_option_def approve_input_def demo_approval_def defaultOptions_def)
  from resolve_scope_from_option [OF this] show ?thesis by (auto simp: approve_input_def)
qed

end
