(* ===== verification/Policy_Grants.thy ===== *)
theory Policy_Grants
  imports Approval_Requests
begin

text \<open>
  The durable grants of src/src/policy-grants.ts: a reviewer's decision that is kept for a work
  session or a workspace. The state is the table \<open>policy_approval_grants\<close>; the listing also
  reads \<open>work_sessions\<close>. What the policy engine relies on is the contract
  \<open>grant_contract\<close>, which the table provides here and the engine's own cache provides in
  \<open>Policy_Engine\<close>. The two keyset listings of the review surface, grants here and pending
  approvals of \<open>Approval_Requests\<close>, are shown to return every row once when walked to the end.
\<close>

section \<open>State\<close>

record grant_record =
  g_id :: string
  g_principalId :: string
  g_scope :: approval_scope
  g_scopeId :: string
  g_approvalKey :: string
  g_createdAt :: iso_time
  g_expiresAt :: "iso_time option"
  g_revokedAt :: "iso_time option"
  g_reviewerId :: "string option"

record work_session_row =
  ws_id :: string
  ws_workspaceSessionId :: string
  ws_ownerContextId :: "string option"

record grant_page =
  gp_grants :: "grant_record list"
  gp_nextCursor :: "string option"

type_synonym grants = "grant_record table"

text \<open>\<open>(principalId, scope, scopeId, approvalKey)\<close>, the identity of an approval.\<close>

type_synonym grant_key = "string \<times> approval_scope \<times> string \<times> string"

section \<open>Operations\<close>

definition grants_insert :: "grant_record \<Rightarrow> grants \<Rightarrow> grants option" where
  "grants_insert grant t =
     (if g_id grant \<in> g_id ` set t then None else Some (t @ [grant\<lparr>g_revokedAt := None\<rparr>]))"

definition revokeForScope :: "iso_time \<Rightarrow> approval_scope \<Rightarrow> string \<Rightarrow> grants \<Rightarrow> grants" where
  "revokeForScope now scope scopeId t =
     sql_update (\<lambda>g. g_scope g = scope \<and> g_scopeId g = scopeId \<and> g_revokedAt g = None)
       (\<lambda>g. g\<lparr>g_revokedAt := Some now\<rparr>) t"

definition grants_revokeGrant :: "iso_time \<Rightarrow> string \<Rightarrow> grants \<Rightarrow> grants" where
  "grants_revokeGrant now grantId t =
     sql_update (\<lambda>g. g_id g = grantId \<and> g_revokedAt g = None) (\<lambda>g. g\<lparr>g_revokedAt := Some now\<rparr>) t"

definition grant_effective :: "iso_time \<Rightarrow> grant_record \<Rightarrow> bool" where
  "grant_effective now g \<longleftrightarrow>
     g_revokedAt g = None \<and> (case g_expiresAt g of None \<Rightarrow> True | Some e \<Rightarrow> now < e)"

definition grant_key_of :: "grant_record \<Rightarrow> grant_key" where
  "grant_key_of g = (g_principalId g, g_scope g, g_scopeId g, g_approvalKey g)"

definition hasEffective :: "iso_time \<Rightarrow> grant_key \<Rightarrow> grants \<Rightarrow> bool" where
  "hasEffective now k t = (find (\<lambda>g. grant_key_of g = k \<and> grant_effective now g) t \<noteq> None)"

definition getEffective :: "iso_time \<Rightarrow> string \<Rightarrow> grants \<Rightarrow> grant_record option" where
  "getEffective now grantId t = find (\<lambda>g. g_id g = grantId \<and> grant_effective now g) t"

definition listEffective :: "iso_time \<Rightarrow> grants \<Rightarrow> grant_record list" where
  "listEffective now t =
     filter (\<lambda>g. case g_expiresAt g of None \<Rightarrow> True | Some e \<Rightarrow> now < e)
       (filter (\<lambda>g. g_revokedAt g = None) t)"

text \<open>The page size; \<open>None\<close> is a number that is not an integer.\<close>

definition grant_page_limit :: "int option \<Rightarrow> nat" where
  "grant_page_limit limit =
     (case limit of
        Some n \<Rightarrow> if \<bar>n\<bar> \<le> 2 ^ 53 - 1 then nat (max 1 (min 200 n)) else 100
      | None \<Rightarrow> 100)"

definition grant_visible ::
  "work_session_row table \<Rightarrow> string \<Rightarrow> string option \<Rightarrow> grant_record \<Rightarrow> bool" where
  "grant_visible wss workspaceSessionId ownerContextId g \<longleftrightarrow>
     ((g_scope g = ScWorkspace \<and> g_scopeId g = workspaceSessionId)
      \<or> (g_scope g = ScWorkSession
          \<and> list_ex (\<lambda>ws. ws_id ws = g_scopeId g \<and> ws_workspaceSessionId ws = workspaceSessionId) wss))
     \<and> (ownerContextId = None \<or> Some (g_principalId g) = ownerContextId
        \<or> (g_scope g = ScWorkSession
            \<and> list_ex (\<lambda>ws. ws_id ws = g_scopeId g \<and> ws_workspaceSessionId ws = workspaceSessionId
                          \<and> ws_ownerContextId ws = Some (coalesce ownerContextId [])) wss))"

definition listEffectiveForWorkspace ::
  "iso_time \<Rightarrow> work_session_row table \<Rightarrow> string \<Rightarrow> string option \<Rightarrow> int option \<Rightarrow> string option
     \<Rightarrow> grants \<Rightarrow> grant_page" where
  "listEffectiveForWorkspace now wss workspaceSessionId afterId limit ownerContextId t =
     (let boundedLimit = grant_page_limit limit;
          rows = take (boundedLimit + 1) (order_asc g_id
            (filter (\<lambda>g. grant_effective now g \<and> coalesce afterId [] < g_id g
                       \<and> grant_visible wss workspaceSessionId ownerContextId g) t));
          hasMore = length rows > boundedLimit;
          pageRows = (if hasMore then take boundedLimit rows else rows)
      in \<lparr>gp_grants = pageRows,
          gp_nextCursor = (if hasMore then map_option g_id (last_elem pageRows) else None)\<rparr>)"

section \<open>The grant contract\<close>

text \<open>
  What \<open>isApproved\<close> and \<open>recordApproval\<close> rely on: granting a key makes it, and no other,
  effective, and revoking a scope ends exactly the keys of that scope. \<open>fresh u s\<close> is what an
  identifier supplied for a new grant has to satisfy.
\<close>

datatype ('u, 'k, 'sc) grant_op = Grant 'u 'k | Revoke 'sc

fun spec_op :: "('k \<Rightarrow> 'sc \<Rightarrow> bool) \<Rightarrow> ('u, 'k, 'sc) grant_op \<Rightarrow> 'k set \<Rightarrow> 'k set" where
  "spec_op within (Grant u k) K = insert k K"
| "spec_op within (Revoke sc) K = {k \<in> K. \<not> within k sc}"

fun run_ops :: "('u \<Rightarrow> 'k \<Rightarrow> 's \<Rightarrow> 's) \<Rightarrow> ('sc \<Rightarrow> 's \<Rightarrow> 's) \<Rightarrow> ('u, 'k, 'sc) grant_op list \<Rightarrow> 's \<Rightarrow> 's" where
  "run_ops add revoke [] s = s"
| "run_ops add revoke (Grant u k # xs) s = run_ops add revoke xs (add u k s)"
| "run_ops add revoke (Revoke sc # xs) s = run_ops add revoke xs (revoke sc s)"

fun ops_fresh ::
  "('u \<Rightarrow> 's \<Rightarrow> bool) \<Rightarrow> ('u \<Rightarrow> 'k \<Rightarrow> 's \<Rightarrow> 's) \<Rightarrow> ('sc \<Rightarrow> 's \<Rightarrow> 's) \<Rightarrow> ('u, 'k, 'sc) grant_op list \<Rightarrow> 's \<Rightarrow> bool" where
  "ops_fresh fresh add revoke [] s = True"
| "ops_fresh fresh add revoke (Grant u k # xs) s = (fresh u s \<and> ops_fresh fresh add revoke xs (add u k s))"
| "ops_fresh fresh add revoke (Revoke sc # xs) s = ops_fresh fresh add revoke xs (revoke sc s)"

locale grant_contract =
  fixes has :: "'s \<Rightarrow> 'k \<Rightarrow> bool"
    and add :: "'u \<Rightarrow> 'k \<Rightarrow> 's \<Rightarrow> 's"
    and revoke :: "'sc \<Rightarrow> 's \<Rightarrow> 's"
    and within :: "'k \<Rightarrow> 'sc \<Rightarrow> bool"
    and fresh :: "'u \<Rightarrow> 's \<Rightarrow> bool"
    and inv :: "'s \<Rightarrow> bool"
  assumes has_add: "inv s \<Longrightarrow> fresh u s \<Longrightarrow> has (add u k s) k' \<longleftrightarrow> k' = k \<or> has s k'"
    and has_revoke: "inv s \<Longrightarrow> has (revoke sc s) k' \<longleftrightarrow> has s k' \<and> \<not> within k' sc"
    and inv_add: "inv s \<Longrightarrow> fresh u s \<Longrightarrow> inv (add u k s)"
    and inv_revoke: "inv s \<Longrightarrow> inv (revoke sc s)"
begin

lemma run_ops_refines:
  assumes "inv s" "ops_fresh fresh add revoke xs s"
  shows "Collect (has (run_ops add revoke xs s)) = fold (spec_op within) xs (Collect (has s))"
  using assms
proof (induction xs arbitrary: s)
  case Nil
  then show ?case by simp
next
  case (Cons x xs)
  show ?case
  proof (cases x)
    case (Grant u k)
    with Cons have "Collect (has (add u k s)) = spec_op within x (Collect (has s))"
      by (auto simp: has_add)
    with Grant Cons show ?thesis by (simp add: inv_add)
  next
    case (Revoke sc)
    with Cons have "Collect (has (revoke sc s)) = spec_op within x (Collect (has s))"
      by (auto simp: has_revoke)
    with Revoke Cons show ?thesis by (simp add: inv_revoke)
  qed
qed

lemma has_run_ops:
  assumes "inv s" "ops_fresh fresh add revoke xs s"
  shows "has (run_ops add revoke xs s) k \<longleftrightarrow> k \<in> fold (spec_op within) xs (Collect (has s))"
  using run_ops_refines [OF assms] by blast

end

text \<open>
  The durable side of \<open>recordApproval\<close>: a grant is inserted unless one is already effective. A
  new grant has no expiry, so a table written by the engine holds none that expires.
\<close>

definition grant_if_missing :: "iso_time \<times> string \<times> string option \<Rightarrow> grant_key \<Rightarrow> grants \<Rightarrow> grants" where
  "grant_if_missing u k t =
     (case u of (now, uuid, reviewerId) \<Rightarrow> case k of (principalId, scope, scopeId, approvalKey) \<Rightarrow>
        if hasEffective now k t then t
        else case grants_insert
               \<lparr>g_id = ''grant_'' @ uuid, g_principalId = principalId, g_scope = scope,
                g_scopeId = scopeId, g_approvalKey = approvalKey, g_createdAt = now,
                g_expiresAt = None, g_revokedAt = None, g_reviewerId = reviewerId\<rparr> t of
               None \<Rightarrow> t
             | Some t' \<Rightarrow> t')"

definition grant_id_fresh :: "iso_time \<times> string \<times> string option \<Rightarrow> grants \<Rightarrow> bool" where
  "grant_id_fresh u t \<longleftrightarrow> ''grant_'' @ fst (snd u) \<notin> g_id ` set t"

definition key_in_scope :: "grant_key \<Rightarrow> iso_time \<times> approval_scope \<times> string \<Rightarrow> bool" where
  "key_in_scope k sc \<longleftrightarrow> fst (snd k) = fst (snd sc) \<and> fst (snd (snd k)) = snd (snd sc)"

definition revoke_scope_at :: "iso_time \<times> approval_scope \<times> string \<Rightarrow> grants \<Rightarrow> grants" where
  "revoke_scope_at sc t = revokeForScope (fst sc) (fst (snd sc)) (snd (snd sc)) t"

definition no_expiring :: "grants \<Rightarrow> bool" where
  "no_expiring t \<longleftrightarrow> list_all (\<lambda>g. g_expiresAt g = None) t"

lemma hasEffective_iff: "hasEffective now k t \<longleftrightarrow> (\<exists>g \<in> set t. grant_key_of g = k \<and> grant_effective now g)"
  by (auto simp: hasEffective_def find_None_iff_all)

lemma hasEffective_no_expiring:
  assumes "no_expiring t"
  shows "hasEffective now k t \<longleftrightarrow> (\<exists>g \<in> set t. grant_key_of g = k \<and> g_revokedAt g = None)"
  using assms by (fastforce simp: hasEffective_iff no_expiring_def list_all_iff grant_effective_def)

lemma grant_if_missing_cases:
  assumes "grant_id_fresh (now, uuid, reviewer) t"
  shows "grant_if_missing (now, uuid, reviewer) (p, sc, i, key) t =
    (if hasEffective now (p, sc, i, key) t then t
     else t @ [\<lparr>g_id = ''grant_'' @ uuid, g_principalId = p, g_scope = sc, g_scopeId = i,
                g_approvalKey = key, g_createdAt = now, g_expiresAt = None, g_revokedAt = None,
                g_reviewerId = reviewer\<rparr>])"
  using assms by (simp add: grant_if_missing_def grants_insert_def grant_id_fresh_def)

lemma no_expiring_append [simp]: "no_expiring (t @ u) \<longleftrightarrow> no_expiring t \<and> no_expiring u"
  by (simp add: no_expiring_def)

lemma no_expiring_revoke: "no_expiring t \<Longrightarrow> no_expiring (revokeForScope now sc i t)"
  by (auto simp: no_expiring_def list_all_iff revokeForScope_def elim!: mem_sql_updateE)

lemma hasEffective_revoke:
  "hasEffective now k (revoke_scope_at sc t) \<longleftrightarrow> hasEffective now k t \<and> \<not> key_in_scope k sc"
  by (cases sc; cases k)
    (auto simp: hasEffective_iff revoke_scope_at_def revokeForScope_def set_sql_update grant_key_of_def
        grant_effective_def key_in_scope_def)

interpretation durable_grants: grant_contract "\<lambda>t k. hasEffective now k t" grant_if_missing
  revoke_scope_at key_in_scope grant_id_fresh no_expiring for now
proof (unfold_locales, goal_cases)
  case (1 s u k k')
  obtain n uuid rv p sc i key where uk: "u = (n, uuid, rv)" "k = (p, sc, i, key)"
    by (metis surj_pair)
  show ?case
  proof (cases "hasEffective n k s")
    case True
    then have "hasEffective now k s" using 1 by (simp add: hasEffective_no_expiring)
    then show ?thesis using True uk 1 by (auto simp: grant_if_missing_cases)
  next
    case False
    have "grant_if_missing u k s = s @ [\<lparr>g_id = ''grant_'' @ uuid, g_principalId = p, g_scope = sc,
        g_scopeId = i, g_approvalKey = key, g_createdAt = n, g_expiresAt = None, g_revokedAt = None,
        g_reviewerId = rv\<rparr>]"
      using False uk 1 by (simp add: grant_if_missing_cases)
    then show ?thesis using uk
      by (auto simp: hasEffective_iff grant_key_of_def grant_effective_def)
  qed
next
  case (2 s sc k')
  then show ?case by (simp add: hasEffective_revoke)
next
  case (3 s u k)
  then show ?case
    by (cases u; cases k) (simp add: grant_if_missing_cases, simp add: no_expiring_def)
next
  case (4 s sc)
  then show ?case by (simp add: revoke_scope_at_def no_expiring_revoke)
qed

section \<open>The keyset listings\<close>

definition grants_ok :: "grants \<Rightarrow> bool" where
  "grants_ok t \<longleftrightarrow> distinct (map g_id t) \<and> list_all (\<lambda>g. g_id g \<noteq> []) t"

definition workspace_grants ::
  "iso_time \<Rightarrow> work_session_row table \<Rightarrow> string \<Rightarrow> string option \<Rightarrow> grants \<Rightarrow> grant_record list" where
  "workspace_grants now wss w ownerContextId t =
     order_asc g_id (filter (\<lambda>g. grant_effective now g \<and> grant_visible wss w ownerContextId g) t)"

definition grants_page ::
  "iso_time \<Rightarrow> work_session_row table \<Rightarrow> string \<Rightarrow> int option \<Rightarrow> string option \<Rightarrow> grants
     \<Rightarrow> string option \<Rightarrow> grant_record list \<times> string option" where
  "grants_page now wss w limit ownerContextId t afterId =
     (let p = listEffectiveForWorkspace now wss w afterId limit ownerContextId t
      in (gp_grants p, gp_nextCursor p))"

lemma grant_page_limit_pos: "0 < grant_page_limit limit"
  by (auto simp: grant_page_limit_def split: option.split)

lemma nonempty_gt_Nil: "([] :: string) < s \<longleftrightarrow> s \<noteq> []"
  by (cases s) auto

lemma grants_after_cursor:
  assumes "grants_ok t"
  shows "order_asc g_id (filter (\<lambda>g. grant_effective now g \<and> coalesce afterId [] < g_id g
              \<and> grant_visible wss w owner g) t)
    = filter (after_cursor (<) g_id afterId) (workspace_grants now wss w owner t)"
proof -
  have "filter (\<lambda>g. grant_effective now g \<and> coalesce afterId [] < g_id g \<and> grant_visible wss w owner g) t
    = filter (\<lambda>g. (grant_effective now g \<and> grant_visible wss w owner g) \<and> after_cursor (<) g_id afterId g) t"
    using assms
    by (intro filter_cong) (auto simp: after_cursor_def nonempty_gt_Nil grants_ok_def list_all_iff split: option.splits)
  then show ?thesis by (simp add: workspace_grants_def filter_order_asc conj_commute)
qed

lemma grants_page_probe:
  assumes "grants_ok t"
  shows "grants_page now wss w limit owner t afterId =
    (let (p, hasMore) = probe_page (grant_page_limit limit)
           (filter (after_cursor (<) g_id afterId) (workspace_grants now wss w owner t))
     in (p, if hasMore then map_option g_id (last_elem p) else None))"
  by (simp add: grants_page_def listEffectiveForWorkspace_def probe_page_def Let_def
      grants_after_cursor [OF assms])

interpretation grant_pager: keyset_pager "(<)" g_id "workspace_grants now wss w owner"
  "grants_page now wss w limit owner" grants_ok for now wss w limit owner
proof (unfold_locales, goal_cases)
  case (1 x y z)
  then show ?case by (rule less_trans)
next
  case (2 x)
  then show ?case by simp
next
  case (3 s)
  then have "distinct (map g_id (filter (\<lambda>g. grant_effective now g \<and> grant_visible wss w owner g) s))"
    by (simp add: grants_ok_def distinct_map_filter)
  then show ?case unfolding workspace_grants_def by (rule strict_sorted_order_asc)
next
  case (4 s c p)
  then show ?case
    by (auto simp: grants_page_probe last_elem_def Let_def split: prod.splits if_splits
        dest: probe_page_last intro: grant_page_limit_pos dest: probe_page_more [OF _ grant_page_limit_pos])
next
  case (5 s c p k)
  let ?rows = "filter (after_cursor (<) g_id c) (workspace_grants now wss w owner s)"
  from 5 have pp: "probe_page (grant_page_limit limit) ?rows = (p, True)" and k: "last_elem p \<noteq> None" "k = g_id (last p)"
    by (auto simp: grants_page_probe last_elem_def Let_def split: prod.splits if_splits)
  from probe_page_more [OF pp grant_page_limit_pos] k show ?case by metis
qed

definition pending_requests :: "string option \<Rightarrow> approval_origin option \<Rightarrow> approvals \<Rightarrow> approval_row list" where
  "pending_requests workspaceSessionId origin t =
     map rowToApproval (order_desc (\<lambda>r. (ap_createdAt r, ap_id r))
       (filter (\<lambda>r. ap_status r = APending
          \<and> (truthy workspaceSessionId \<longrightarrow> Some (ap_workspaceSessionId r) = workspaceSessionId)
          \<and> (origin \<noteq> None \<longrightarrow> ap_origin r = origin)) t))"

definition approvals_page ::
  "string option \<Rightarrow> int \<Rightarrow> approval_origin option \<Rightarrow> approvals \<Rightarrow> (iso_time \<times> string) option
     \<Rightarrow> approval_row list \<times> (iso_time \<times> string) option" where
  "approvals_page workspaceSessionId limit origin t before =
     (let p = listPendingPage workspaceSessionId limit before origin t in (pg_requests p, pg_nextBefore p))"

abbreviation approval_cursor :: "approval_row \<Rightarrow> iso_time \<times> string" where
  "approval_cursor r \<equiv> (ap_createdAt r, ap_id r)"

lemma rowToApproval_cursor [simp]: "ap_createdAt (rowToApproval r) = ap_createdAt r" "ap_id (rowToApproval r) = ap_id r"
  by (simp_all add: rowToApproval_def)

lemma pending_after_cursor:
  "map rowToApproval (order_desc (\<lambda>r. (ap_createdAt r, ap_id r))
      (filter (\<lambda>r. ap_status r = APending
          \<and> (truthy w \<longrightarrow> Some (ap_workspaceSessionId r) = w)
          \<and> (origin \<noteq> None \<longrightarrow> ap_origin r = origin)
          \<and> (case before of None \<Rightarrow> True
              | Some (at, i) \<Rightarrow> ap_createdAt r < at \<or> ap_createdAt r = at \<and> ap_id r < i)) t))
    = filter (after_cursor (\<lambda>a b. b < a) approval_cursor before) (pending_requests w origin t)"
proof -
  have eq: "(case before of None \<Rightarrow> True
              | Some (at, i) \<Rightarrow> ap_createdAt r < at \<or> ap_createdAt r = at \<and> ap_id r < i)
      \<longleftrightarrow> after_cursor (\<lambda>a b. b < a) approval_cursor before (rowToApproval r)" for r
    by (auto simp: after_cursor_def less_prod_def' split: option.splits prod.splits)
  show ?thesis
    unfolding pending_requests_def filter_map filter_order_desc comp_def eq
    by (simp add: conj_ac)
qed

lemma approvals_page_probe:
  "approvals_page w limit origin t before =
    (let (p, hasMore) = probe_page (bounded_limit limit)
           (filter (after_cursor (\<lambda>a b. b < a) approval_cursor before) (pending_requests w origin t))
     in (p, if hasMore then map_option approval_cursor (last_elem p) else None))"
proof -
  let ?rows = "order_desc (\<lambda>r. (ap_createdAt r, ap_id r))
      (filter (\<lambda>r. ap_status r = APending
          \<and> (truthy w \<longrightarrow> Some (ap_workspaceSessionId r) = w)
          \<and> (origin \<noteq> None \<longrightarrow> ap_origin r = origin)
          \<and> (case before of None \<Rightarrow> True
              | Some (at, i) \<Rightarrow> ap_createdAt r < at \<or> ap_createdAt r = at \<and> ap_id r < i)) t)"
  have "approvals_page w limit origin t before =
    (let (p, hasMore) = probe_page (bounded_limit limit) (map rowToApproval ?rows)
     in (p, if hasMore then map_option approval_cursor (last_elem p) else None))"
    unfolding probe_page_map
    by (simp add: approvals_page_def listPendingPage_def probe_page_def Let_def last_elem_def last_map)
  then show ?thesis unfolding pending_after_cursor .
qed

lemma bounded_limit_pos: "0 < bounded_limit limit"
  by (simp add: bounded_limit_def)

interpretation approval_pager: keyset_pager "\<lambda>a b. b < a" approval_cursor "pending_requests w origin"
  "approvals_page w limit origin" "\<lambda>t. distinct (map ap_id t)" for w limit origin
proof (unfold_locales, goal_cases)
  case (1 x y z)
  then show ?case using less_trans by blast
next
  case (2 x)
  then show ?case by simp
next
  case (3 s)
  let ?P = "\<lambda>r. ap_status r = APending \<and> (truthy w \<longrightarrow> Some (ap_workspaceSessionId r) = w)
          \<and> (origin \<noteq> None \<longrightarrow> ap_origin r = origin)"
  have "distinct (map ap_id (filter ?P s))" using 3 by (simp add: distinct_map_filter)
  then have "distinct (map approval_cursor (filter ?P s))" by (auto simp: distinct_map inj_on_def)
  from strict_sorted_order_desc [OF this] show ?case
    unfolding pending_requests_def sorted_wrt_map rowToApproval_cursor .
next
  case (4 s c p)
  then show ?case
    by (auto simp: approvals_page_probe last_elem_def Let_def split: prod.splits if_splits
        dest: probe_page_last dest: probe_page_more [OF _ bounded_limit_pos])
next
  case (5 s c p k)
  let ?rows = "filter (after_cursor (\<lambda>a b. b < a) approval_cursor c) (pending_requests w origin s)"
  from 5 have pp: "probe_page (bounded_limit limit) ?rows = (p, True)"
    and k: "last_elem p \<noteq> None" "k = approval_cursor (last p)"
    by (auto simp: approvals_page_probe last_elem_def Let_def split: prod.splits if_splits)
  note more_rows = probe_page_more [OF pp bounded_limit_pos]
  show ?case using more_rows k(2) by (intro conjI exI [of _ "drop (bounded_limit limit) ?rows"]) blast+
qed

section \<open>Properties\<close>

text \<open>
  Walking the grant listing of a workspace from the first page, passing each page's cursor to
  the next call, returns exactly the grants that are effective and visible, each once, in id
  order, for every page size: no grant is skipped or repeated at a page boundary.
\<close>

theorem listEffectiveForWorkspace_complete:
  assumes "grants_ok t" and "length (workspace_grants now wss w owner t) < n"
  shows "walk (grants_page now wss w limit owner t) n None = workspace_grants now wss w owner t
    \<and> set (workspace_grants now wss w owner t)
        = {g \<in> set t. grant_effective now g \<and> grant_visible wss w owner g}
    \<and> distinct (map g_id (workspace_grants now wss w owner t))"
proof (intro conjI)
  show "walk (grants_page now wss w limit owner t) n None = workspace_grants now wss w owner t"
    using grant_pager.walk_all [OF assms(1)] assms(2) by blast
  show "set (workspace_grants now wss w owner t)
        = {g \<in> set t. grant_effective now g \<and> grant_visible wss w owner g}"
    by (auto simp: workspace_grants_def)
  show "distinct (map g_id (workspace_grants now wss w owner t))"
    using assms(1) by (auto simp: workspace_grants_def order_asc_def grants_ok_def distinct_map inj_on_def)
qed

definition sample_grants :: grants where
  "sample_grants = map (\<lambda>(i, rv). \<lparr>g_id = i, g_principalId = ''alice'', g_scope = ScWorkspace, g_scopeId = ''w1'',
      g_approvalKey = ''tool:bash'', g_createdAt = 5, g_expiresAt = None, g_revokedAt = rv,
      g_reviewerId = None\<rparr>) [(''grant_c'', None), (''grant_a'', None), (''grant_d'', Some 7), (''grant_b'', None)]"

theorem listEffectiveForWorkspace_complete_witness:
  "map g_id (walk (grants_page 9 [] ''w1'' (Some 2) None sample_grants) 4 None)
     = [''grant_a'', ''grant_b'', ''grant_c'']"
proof -
  have ok: "grants_ok sample_grants" by code_simp
  have rows: "map g_id (workspace_grants 9 [] ''w1'' None sample_grants) = [''grant_a'', ''grant_b'', ''grant_c'']"
    by code_simp
  then have "length (workspace_grants 9 [] ''w1'' None sample_grants) = 3"
    by (metis length_map list.size(3,4) numeral_3_eq_3 One_nat_def add.right_neutral add_Suc_right)
  then show ?thesis
    using listEffectiveForWorkspace_complete [OF ok, of 9 "[]" "''w1''" None 4 "Some 2"] rows by simp
qed

text \<open>
  Walking the pending approvals page by page with the returned cursors yields every pending
  request of the workspace and origin exactly once, newest first.
\<close>

theorem listPendingPage_complete:
  assumes "distinct (map ap_id t)" and "length (pending_requests w origin t) < n"
  shows "walk (approvals_page w limit origin t) n None = pending_requests w origin t
    \<and> distinct (map ap_id (pending_requests w origin t))
    \<and> sorted_wrt (\<lambda>a b. approval_cursor b < approval_cursor a) (pending_requests w origin t)"
proof (intro conjI)
  show "walk (approvals_page w limit origin t) n None = pending_requests w origin t"
    using approval_pager.walk_all [OF assms(1)] assms(2) by blast
  have "inj_on ap_id (set t)" using assms(1) by (simp add: distinct_map)
  then show "distinct (map ap_id (pending_requests w origin t))"
    using assms(1)
    by (auto simp: pending_requests_def order_desc_def distinct_map comp_def inj_on_def)
  show "sorted_wrt (\<lambda>a b. approval_cursor b < approval_cursor a) (pending_requests w origin t)"
    by (rule approval_pager.rows_sorted [OF assms(1)])
qed

definition sample_pending :: approvals where
  "sample_pending = map (\<lambda>(i, at). demo_approval\<lparr>ap_id := i, ap_createdAt := at\<rparr>)
     [(''a1'', 10), (''a2'', 30), (''a3'', 20), (''a4'', 20)]"

theorem listPendingPage_complete_witness:
  "map ap_id (walk (approvals_page None 3 None sample_pending) 5 None) = [''a2'', ''a4'', ''a3'', ''a1'']"
proof -
  have ok: "distinct (map ap_id sample_pending)" by code_simp
  have rows: "map ap_id (pending_requests None None sample_pending) = [''a2'', ''a4'', ''a3'', ''a1'']"
    by code_simp
  then have "length (pending_requests None None sample_pending) = length [''a2'', ''a4'', ''a3'', ''a1'']"
    by (metis length_map)
  then have "length (pending_requests None None sample_pending) < 5" by simp
  then show ?thesis using listPendingPage_complete [OF ok, of None None 5 3] rows by simp
qed

end
