(* ===== verification/Policy_Engine.thy ===== *)
theory Policy_Engine
  imports Policy_Rules Policy_Grants
begin

text \<open>
  The stateful side of src/src/policy.ts, \<open>createPolicyEngine\<close>: approvals a reviewer gave for a
  work session or a workspace, the cards that wait for a decision, the live callers attached to
  a card, and the one-shot approvals of a deployment without a durable approval store.

  \<^item> \<open>pe_grants\<close> and \<open>pe_approvals\<close> are the optional durable stores (\<open>Policy_Grants\<close>,
    \<open>Approval_Requests\<close>); every operation falls back to the maps in memory where they are absent.
  \<^item> A JavaScript \<open>Map\<close> is the list of its entries in insertion order (\<open>AList.update\<close> keeps the
    position of a key, as \<open>Map.set\<close> does). The keys the code builds with \<open>JSON.stringify\<close> on a
    tuple of strings are the tuples themselves.
  \<^item> Each call of the clock and of \<open>randomUUID\<close> is an argument.
\<close>

section \<open>State\<close>

record tool_request =
  tr_id :: string
  tr_principalId :: string
  tr_workspaceId :: string
  tr_workSessionId :: "string option"
  tr_ownerContextId :: "string option"
  tr_runId :: "string option"
  tr_agentId :: "string option"
  tr_approvalKey :: "string option"
  tr_operationHash :: "string option"
  tr_mcpSessionId :: "string option"
  tr_mcpRequestId :: "string option"
  tr_waiterKey :: "string option"
  tr_liveWaiterId :: "string option"
  tr_origin :: "approval_origin option"
  tr_conversationId :: "string option"
  tr_orphanedAt :: "iso_time option"
  tr_reattachDeadline :: "iso_time option"
  tr_options :: "approval_option list option"
  tr_tool :: string
  tr_path :: "string option"
  tr_command :: "string option"
  tr_requestedAt :: iso_time
  tr_expiresAt :: "iso_time option"

datatype live_waiter_state = WaiterLive | WaiterDead

record resume_content =
  rc_principalId :: string
  rc_workspaceId :: string
  rc_workSessionId :: "string option"
  rc_ownerContextId :: "string option"
  rc_tool :: string
  rc_approvalKey :: string
  rc_path :: "string option"
  rc_command :: "string option"
  rc_operationHash :: string

record scope_context =
  sc_workspaceId :: string
  sc_workSessionId :: "string option"

type_synonym direct_identity = "string \<times> string \<times> string \<times> string"

record policy_engine =
  pe_sessionApprovals :: "grant_key set"
  pe_pendingApprovals :: "(string \<times> tool_request) list"
  pe_liveWaiters :: "(string \<times> string set) list"
  pe_oneShot :: "string set"
  pe_directOneShot :: "direct_identity set"
  pe_grants :: "grants option"
  pe_approvals :: "approvals option"

datatype engine_error = GrantIdTaken string | ApprovalFailed approval_error

section \<open>Approvals that last\<close>

definition scopeIdFor :: "approval_scope \<Rightarrow> scope_context \<Rightarrow> string option" where
  "scopeIdFor scope ctx =
     (case scope of
        ScWorkspace \<Rightarrow> Some (sc_workspaceId ctx)
      | ScWorkSession \<Rightarrow> Some (coalesce (sc_workSessionId ctx) (sc_workspaceId ctx))
      | ScOnce \<Rightarrow> None)"

definition engine_has :: "iso_time \<Rightarrow> grant_key \<Rightarrow> policy_engine \<Rightarrow> bool" where
  "engine_has now k e =
     (case pe_grants e of Some t \<Rightarrow> hasEffective now k t | None \<Rightarrow> k \<in> pe_sessionApprovals e)"

definition isApproved :: "iso_time \<Rightarrow> string \<Rightarrow> string \<Rightarrow> scope_context \<Rightarrow> policy_engine \<Rightarrow> bool" where
  "isApproved now principalId key ctx e =
     (if engine_has now (principalId, ScWorkspace, sc_workspaceId ctx, key) e then True
      else if truthy (sc_workSessionId ctx)
      then engine_has now (principalId, ScWorkSession, the (sc_workSessionId ctx), key) e
      else False)"

definition recordApproval ::
  "iso_time \<Rightarrow> string \<Rightarrow> string \<Rightarrow> string \<Rightarrow> approval_scope \<Rightarrow> scope_context \<Rightarrow> string option
     \<Rightarrow> policy_engine \<Rightarrow> policy_engine \<times> engine_error option" where
  "recordApproval now uuid principalId key scope ctx reviewerId e =
     (if scope = ScOnce then (e, None)
      else let scopeId = scopeIdFor scope ctx
           in if \<not> truthy scopeId \<or> (scope = ScWorkSession \<and> \<not> truthy (sc_workSessionId ctx)) then (e, None)
              else let k = (principalId, scope, the scopeId, key);
                       e1 = e\<lparr>pe_sessionApprovals := insert k (pe_sessionApprovals e)\<rparr>
                   in case pe_grants e of
                        None \<Rightarrow> (e1, None)
                      | Some t \<Rightarrow>
                          if hasEffective now k t then (e1, None)
                          else case grants_insert
                                 \<lparr>g_id = ''grant_'' @ uuid, g_principalId = principalId, g_scope = scope,
                                  g_scopeId = the scopeId, g_approvalKey = key, g_createdAt = now,
                                  g_expiresAt = None, g_revokedAt = None, g_reviewerId = reviewerId\<rparr> t of
                                 None \<Rightarrow> (e1, Some (GrantIdTaken (''grant_'' @ uuid)))
                               | Some t' \<Rightarrow> (e1\<lparr>pe_grants := Some t'\<rparr>, None))"

definition revokeScope :: "iso_time \<Rightarrow> approval_scope \<Rightarrow> string \<Rightarrow> policy_engine \<Rightarrow> policy_engine" where
  "revokeScope now scope scopeId e =
     e\<lparr>pe_sessionApprovals := {k \<in> pe_sessionApprovals e. \<not> (fst (snd k) = scope \<and> fst (snd (snd k)) = scopeId)},
       pe_grants := map_option (revokeForScope now scope scopeId) (pe_grants e)\<rparr>"

definition revokeGrant :: "iso_time \<Rightarrow> iso_time \<Rightarrow> string \<Rightarrow> policy_engine \<Rightarrow> policy_engine" where
  "revokeGrant now now' grantId e =
     (case pe_grants e of
        None \<Rightarrow> e
      | Some t \<Rightarrow>
          (let grant = getEffective now grantId t;
               e1 = e\<lparr>pe_grants := Some (grants_revokeGrant now' grantId t)\<rparr>
           in case grant of
                None \<Rightarrow> e1
              | Some g \<Rightarrow> e1\<lparr>pe_sessionApprovals := pe_sessionApprovals e - {grant_key_of g}\<rparr>))"

definition listGrants ::
  "iso_time \<Rightarrow> approval_scope option \<Rightarrow> string option \<Rightarrow> policy_engine \<Rightarrow> grant_record list" where
  "listGrants now scope scopeId e =
     filter (\<lambda>g. (scope = None \<or> Some (g_scope g) = scope) \<and> (\<not> truthy scopeId \<or> Some (g_scopeId g) = scopeId))
       (case pe_grants e of None \<Rightarrow> [] | Some t \<Rightarrow> listEffective now t)"

definition listGrantsForWorkspace ::
  "iso_time \<Rightarrow> work_session_row table \<Rightarrow> string \<Rightarrow> string option \<Rightarrow> int option \<Rightarrow> string option
     \<Rightarrow> policy_engine \<Rightarrow> grant_page" where
  "listGrantsForWorkspace now wss workspaceSessionId afterId limit ownerContextId e =
     (case pe_grants e of
        None \<Rightarrow> \<lparr>gp_grants = [], gp_nextCursor = None\<rparr>
      | Some t \<Rightarrow> listEffectiveForWorkspace now wss workspaceSessionId afterId
                    (Some (int (grant_page_limit limit))) ownerContextId t)"

section \<open>Cards and callers\<close>

text \<open>
  The view of a durable row the engine hands out. The two finders drop the owner context and the
  attached caller; the listing keeps both.
\<close>

definition listed_request :: "approval_row \<Rightarrow> tool_request" where
  "listed_request r =
     \<lparr>tr_id = ap_id r, tr_principalId = coalesce (ap_principalId r) [],
      tr_workspaceId = ap_workspaceSessionId r,
      tr_workSessionId = (if truthy (ap_workSessionId r) then ap_workSessionId r else None),
      tr_ownerContextId = ap_ownerContextId r, tr_runId = ap_runId r, tr_agentId = ap_agentId r,
      tr_approvalKey = ap_approvalKey r, tr_operationHash = ap_operationHash r,
      tr_mcpSessionId = ap_mcpSessionId r, tr_mcpRequestId = ap_mcpRequestId r,
      tr_waiterKey = ap_waiterKey r, tr_liveWaiterId = ap_liveWaiterId r, tr_origin = ap_origin r,
      tr_conversationId = ap_conversationId r, tr_orphanedAt = ap_orphanedAt r,
      tr_reattachDeadline = ap_reattachDeadline r, tr_options = Some (ap_options r),
      tr_tool = coalesce (ap_tool r) [], tr_path = ap_path r, tr_command = ap_command r,
      tr_requestedAt = ap_createdAt r, tr_expiresAt = ap_expiresAt r\<rparr>"

definition found_request :: "approval_row \<Rightarrow> tool_request" where
  "found_request r = (listed_request r)\<lparr>tr_ownerContextId := None, tr_liveWaiterId := None\<rparr>"

definition pending_matches :: "string \<Rightarrow> string \<Rightarrow> scope_context \<Rightarrow> tool_request \<Rightarrow> bool" where
  "pending_matches principalId key ctx request \<longleftrightarrow>
     tr_principalId request = principalId \<and> tr_workspaceId request = sc_workspaceId ctx
     \<and> tr_workSessionId request = sc_workSessionId ctx \<and> tr_approvalKey request = Some key"

definition durable_pending ::
  "iso_time \<Rightarrow> string option \<Rightarrow> policy_engine \<Rightarrow> policy_engine \<times> approval_row list" where
  "durable_pending now workspaceId e =
     (case pe_approvals e of
        None \<Rightarrow> (e, [])
      | Some t \<Rightarrow> (let (t', rows) = approval_listPending now workspaceId t
                   in (e\<lparr>pe_approvals := Some t'\<rparr>, filter (\<lambda>r. ap_kind r = KTool) rows)))"

definition findPending ::
  "iso_time \<Rightarrow> string \<Rightarrow> string \<Rightarrow> scope_context \<Rightarrow> policy_engine \<Rightarrow> policy_engine \<times> tool_request option" where
  "findPending now principalId key ctx e =
     (case find (pending_matches principalId key ctx) (map snd (pe_pendingApprovals e)) of
        Some request \<Rightarrow> (e, Some request)
      | None \<Rightarrow>
          (let (e', rows) = durable_pending now (Some (sc_workspaceId ctx)) e
           in (e', find (pending_matches principalId key ctx) (map found_request rows))))"

definition findPendingByKey :: "iso_time \<Rightarrow> string \<Rightarrow> policy_engine \<Rightarrow> policy_engine \<times> tool_request option" where
  "findPendingByKey now rowKey e =
     (case find (\<lambda>request. tr_waiterKey request = Some rowKey) (map snd (pe_pendingApprovals e)) of
        Some request \<Rightarrow> (e, Some request)
      | None \<Rightarrow>
          (let (e', rows) = durable_pending now None e
           in (e', first_row (map found_request (filter (\<lambda>r. ap_waiterKey r = Some rowKey) rows)))))"

definition getPendingApprovals ::
  "iso_time \<Rightarrow> string option \<Rightarrow> policy_engine \<Rightarrow> policy_engine \<times> tool_request list" where
  "getPendingApprovals now workspaceId e =
     (case pe_approvals e of
        Some t \<Rightarrow> (let (e', rows) = durable_pending now workspaceId e in (e', map listed_request rows))
      | None \<Rightarrow>
          (e, filter (\<lambda>r. \<not> truthy workspaceId \<or> Some (tr_workspaceId r) = workspaceId)
                (map snd (pe_pendingApprovals e))))"

definition add_waiter :: "string \<Rightarrow> string \<Rightarrow> policy_engine \<Rightarrow> policy_engine" where
  "add_waiter approvalId liveWaiterId e =
     e\<lparr>pe_liveWaiters := AList.update approvalId
         (insert liveWaiterId (coalesce (map_of (pe_liveWaiters e) approvalId) {})) (pe_liveWaiters e)\<rparr>"

definition detachLiveWaiter ::
  "approval_config \<Rightarrow> iso_time \<Rightarrow> string \<Rightarrow> string \<Rightarrow> policy_engine \<Rightarrow> policy_engine" where
  "detachLiveWaiter cfg now approvalId liveWaiterId e =
     (case map_of (pe_liveWaiters e) approvalId of
        None \<Rightarrow> e
      | Some ws \<Rightarrow>
          (let ws' = ws - {liveWaiterId}
           in e\<lparr>pe_liveWaiters := (if ws' = {} then AList.delete approvalId (pe_liveWaiters e)
                                   else AList.update approvalId ws' (pe_liveWaiters e)),
                pe_approvals := map_option (approval_detachLiveWaiter cfg approvalId liveWaiterId now) (pe_approvals e)\<rparr>))"

definition reattachLiveWaiter :: "string \<Rightarrow> string \<Rightarrow> policy_engine \<Rightarrow> policy_engine" where
  "reattachLiveWaiter approvalId liveWaiterId e =
     (add_waiter approvalId liveWaiterId e)
       \<lparr>pe_approvals := map_option (approval_reattachLiveWaiter approvalId liveWaiterId) (pe_approvals e)\<rparr>"

definition touchPending ::
  "approval_config \<Rightarrow> int option \<Rightarrow> iso_time \<Rightarrow> iso_time \<Rightarrow> string \<Rightarrow> policy_engine \<Rightarrow> policy_engine" where
  "touchPending cfg directReattachGraceMs now now' approvalId e =
     (let e1 = (case map_of (pe_pendingApprovals e) approvalId of
                  None \<Rightarrow> e
                | Some p \<Rightarrow>
                    if \<not> truthy (tr_workSessionId p) \<and> tr_origin p \<noteq> Some FromWorkSession
                    then e\<lparr>pe_pendingApprovals := AList.update approvalId
                             (p\<lparr>tr_reattachDeadline := Some (now + coalesce directReattachGraceMs (5 * 60000))\<rparr>)
                             (pe_pendingApprovals e)\<rparr>
                    else e)
      in e1\<lparr>pe_approvals := map_option (touchDirectApproval cfg approvalId now') (pe_approvals e1)\<rparr>)"

definition getLiveWaiterState :: "string \<Rightarrow> string \<Rightarrow> policy_engine \<Rightarrow> live_waiter_state option" where
  "getLiveWaiterState approvalId liveWaiterId e =
     map_option (\<lambda>ws. if liveWaiterId \<in> ws then WaiterLive else WaiterDead) (map_of (pe_liveWaiters e) approvalId)"

definition countLiveWaiters :: "string \<Rightarrow> policy_engine \<Rightarrow> nat" where
  "countLiveWaiters approvalId e =
     (case map_of (pe_liveWaiters e) approvalId of None \<Rightarrow> 0 | Some ws \<Rightarrow> card ws)"

definition clearPending :: "string \<Rightarrow> policy_engine \<Rightarrow> policy_engine" where
  "clearPending approvalId e =
     e\<lparr>pe_pendingApprovals := AList.delete approvalId (pe_pendingApprovals e),
       pe_liveWaiters := AList.delete approvalId (pe_liveWaiters e)\<rparr>"

definition default_request_options :: "string option \<Rightarrow> approval_option list" where
  "default_request_options workSessionId =
     [\<lparr>opt_id = ''approve'', opt_label = ''Approve Once'', opt_effect = EApprove, opt_scope = Some ScOnce\<rparr>]
     @ (if truthy workSessionId
        then [\<lparr>opt_id = ''approve_session'', opt_label = ''Approve Session'', opt_effect = EApprove,
               opt_scope = Some ScWorkSession\<rparr>]
        else [])
     @ [\<lparr>opt_id = ''approve_workspace'', opt_label = ''Approve Workspace'', opt_effect = EApprove,
          opt_scope = Some ScWorkspace\<rparr>,
        \<lparr>opt_id = ''deny'', opt_label = ''Deny'', opt_effect = EDeny, opt_scope = None\<rparr>]"

definition request_input :: "tool_request \<Rightarrow> approval_input" where
  "request_input request =
     \<lparr>ci_approvalId = Some (tr_id request), ci_kind = KTool,
      ci_workspaceSessionId = tr_workspaceId request, ci_workSessionId = tr_workSessionId request,
      ci_ownerContextId = tr_ownerContextId request, ci_runId = tr_runId request,
      ci_agentId = tr_agentId request, ci_principalId = Some (tr_principalId request),
      ci_approvalKey = tr_approvalKey request, ci_operationHash = tr_operationHash request,
      ci_mcpSessionId = tr_mcpSessionId request, ci_mcpRequestId = tr_mcpRequestId request,
      ci_waiterKey = tr_waiterKey request, ci_liveWaiterId = tr_liveWaiterId request,
      ci_origin = tr_origin request, ci_conversationId = tr_conversationId request,
      ci_orphanedAt = tr_orphanedAt request, ci_reattachDeadline = tr_reattachDeadline request,
      ci_title = ''Approve '' @ tr_tool request, ci_description = None, ci_risk = None,
      ci_tool = Some (tr_tool request), ci_command = tr_command request, ci_path = tr_path request,
      ci_options = Some (coalesce (tr_options request) (default_request_options (tr_workSessionId request))),
      ci_expiresAt = tr_expiresAt request\<rparr>"

definition addPending ::
  "approval_config \<Rightarrow> (string \<rightharpoonup> bool) \<Rightarrow> iso_time \<Rightarrow> tool_request \<Rightarrow> policy_engine
     \<Rightarrow> policy_engine \<times> engine_error option" where
  "addPending cfg workspaces now request e =
     (let e1 = e\<lparr>pe_pendingApprovals := AList.update (tr_id request) request (pe_pendingApprovals e)\<rparr>;
          e2 = (if truthy (tr_liveWaiterId request)
                then add_waiter (tr_id request) (the (tr_liveWaiterId request)) e1 else e1)
      in case pe_approvals e2 of
           None \<Rightarrow> (e2, None)
         | Some t \<Rightarrow>
             (case approval_create cfg workspaces (request_input request) now [] t of
                Inl err \<Rightarrow> (e2, Some (ApprovalFailed err))
              | Inr (t', row) \<Rightarrow> (e2\<lparr>pe_approvals := Some t'\<rparr>, None)))"

record resolution_choice =
  rch_scope :: "approval_scope option"
  rch_optionId :: "string option"

definition resolution_input ::
  "approval_status \<Rightarrow> string option \<Rightarrow> resolution_choice \<Rightarrow> resolve_input" where
  "resolution_input status reason choice =
     \<lparr>ri_status = status, ri_optionId = rch_optionId choice,
      ri_effect = (if truthy (rch_optionId choice)
                   then if status = AApproved then Some EApprove
                        else if status = ADenied then Some EDeny else None
                   else None),
      ri_scope = rch_scope choice, ri_reason = reason, ri_reviewerId = None\<rparr>"

definition direct_once :: "tool_request option \<Rightarrow> direct_identity option" where
  "direct_once p =
     (case p of
        None \<Rightarrow> None
      | Some request \<Rightarrow>
          if tr_origin request = Some FromDirectMcp \<and> \<not> truthy (tr_workSessionId request)
             \<and> truthy (tr_ownerContextId request) \<and> truthy (tr_operationHash request)
          then Some (tr_principalId request, tr_workspaceId request,
                     the (tr_ownerContextId request), the (tr_operationHash request))
          else None)"

text \<open>The four clock readings: of the look-up and of the three in \<open>resolve\<close>.\<close>

definition resolvePending ::
  "iso_time \<Rightarrow> iso_time \<times> iso_time \<times> iso_time \<Rightarrow> string \<Rightarrow> approval_status \<Rightarrow> string option
     \<Rightarrow> resolution_choice \<Rightarrow> policy_engine \<Rightarrow> policy_engine \<times> engine_error option" where
  "resolvePending n0 ns approvalId status reason choice e =
     (let p = map_of (pe_pendingApprovals e) approvalId;
          (e0, durable) = (case pe_approvals e of
             None \<Rightarrow> (e, None)
           | Some t \<Rightarrow> (let (t', row) = approval_get n0 approvalId t in (e\<lparr>pe_approvals := Some t'\<rparr>, row)));
          waiterKey = or_else (Option.bind p tr_waiterKey) (Option.bind durable ap_waiterKey);
          once = (status = AApproved \<and> rch_scope choice = Some ScOnce \<and> pe_approvals e = None);
          e1 = (if once \<and> truthy waiterKey
                then e0\<lparr>pe_oneShot := insert (the waiterKey) (pe_oneShot e0)\<rparr> else e0);
          e2 = (case direct_once p of
                  Some d \<Rightarrow> if once then e1\<lparr>pe_directOneShot := insert d (pe_directOneShot e1)\<rparr> else e1
                | None \<Rightarrow> e1);
          e3 = e2\<lparr>pe_pendingApprovals := AList.delete approvalId (pe_pendingApprovals e2)\<rparr>
      in case pe_approvals e3 of
           None \<Rightarrow> (e3, None)
         | Some t \<Rightarrow>
             (let (t', res) = approval_resolve approvalId (resolution_input status reason choice)
                                (fst ns) (fst (snd ns)) (snd (snd ns)) t
              in (e3\<lparr>pe_approvals := Some t'\<rparr>,
                  case res of Inl err \<Rightarrow> Some (ApprovalFailed err) | Inr _ \<Rightarrow> None)))"

definition consumeApprovedOperation :: "iso_time \<Rightarrow> string \<Rightarrow> policy_engine \<Rightarrow> policy_engine \<times> bool" where
  "consumeApprovedOperation now waiterKey e =
     (case pe_approvals e of
        Some t \<Rightarrow> (let (t', b) = approval_consumeOperation waiterKey now t in (e\<lparr>pe_approvals := Some t'\<rparr>, b))
      | None \<Rightarrow>
          if waiterKey \<in> pe_oneShot e then (e\<lparr>pe_oneShot := pe_oneShot e - {waiterKey}\<rparr>, True) else (e, False))"

definition consumeApprovedDirectOperation ::
  "iso_time \<Rightarrow> direct_identity \<Rightarrow> policy_engine \<Rightarrow> policy_engine \<times> bool" where
  "consumeApprovedDirectOperation now d e =
     (case d of (principalId, workspaceId, ownerContextId, operationHash) \<Rightarrow>
        case pe_approvals e of
          Some t \<Rightarrow>
            (let (t', b) = approval_consumeDirectOperation principalId workspaceId ownerContextId operationHash now t
             in (e\<lparr>pe_approvals := Some t'\<rparr>, b))
        | None \<Rightarrow>
            if d \<in> pe_directOneShot e then (e\<lparr>pe_directOneShot := pe_directOneShot e - {d}\<rparr>, True)
            else (e, False))"

text \<open>What \<open>resumeOperation\<close> reads of a durable row or of a card in memory.\<close>

record resume_view =
  rv_principalId :: "string option"
  rv_workspaceId :: string
  rv_workSessionId :: "string option"
  rv_ownerContextId :: "string option"
  rv_tool :: "string option"
  rv_approvalKey :: "string option"
  rv_path :: "string option"
  rv_command :: "string option"
  rv_operationHash :: "string option"
  rv_waiterKey :: "string option"

definition row_view :: "approval_row \<Rightarrow> resume_view" where
  "row_view r = \<lparr>rv_principalId = ap_principalId r, rv_workspaceId = ap_workspaceSessionId r,
     rv_workSessionId = ap_workSessionId r, rv_ownerContextId = ap_ownerContextId r, rv_tool = ap_tool r,
     rv_approvalKey = ap_approvalKey r, rv_path = ap_path r, rv_command = ap_command r,
     rv_operationHash = ap_operationHash r, rv_waiterKey = ap_waiterKey r\<rparr>"

definition card_view :: "tool_request \<Rightarrow> resume_view" where
  "card_view q = \<lparr>rv_principalId = Some (tr_principalId q), rv_workspaceId = tr_workspaceId q,
     rv_workSessionId = tr_workSessionId q, rv_ownerContextId = tr_ownerContextId q, rv_tool = Some (tr_tool q),
     rv_approvalKey = tr_approvalKey q, rv_path = tr_path q, rv_command = tr_command q,
     rv_operationHash = tr_operationHash q, rv_waiterKey = tr_waiterKey q\<rparr>"

definition resume_matches :: "resume_content \<Rightarrow> resume_view \<Rightarrow> bool" where
  "resume_matches content v \<longleftrightarrow>
     rv_principalId v = Some (rc_principalId content)
     \<and> rv_workspaceId v = rc_workspaceId content
     \<and> rv_workSessionId v = rc_workSessionId content
     \<and> (truthy (rc_workSessionId content) \<longrightarrow> rv_ownerContextId v = rc_ownerContextId content)
     \<and> coalesce (rv_tool v) [] = rc_tool content
     \<and> rv_approvalKey v = Some (rc_approvalKey content)
     \<and> rv_path v = rc_path content
     \<and> rv_command v = rc_command content
     \<and> truthy (rv_operationHash v) \<and> rv_operationHash v = Some (rc_operationHash content)"

definition resumeOperation ::
  "iso_time \<Rightarrow> string \<Rightarrow> resume_content \<Rightarrow> policy_engine \<Rightarrow> policy_engine \<times> string option" where
  "resumeOperation now approvalId content e =
     (let (e', durable) = (case pe_approvals e of
            None \<Rightarrow> (e, None)
          | Some t \<Rightarrow> (let (t', row) = approval_get now approvalId t in (e\<lparr>pe_approvals := Some t'\<rparr>, row)))
      in case or_else (map_option row_view durable)
                (map_option card_view (find (\<lambda>q. tr_id q = approvalId) (map snd (pe_pendingApprovals e')))) of
           None \<Rightarrow> (e', None)
         | Some v \<Rightarrow> (e', if resume_matches content v then rv_waiterKey v else None))"

section \<open>Approvals follow their history\<close>

text \<open>
  The engine without a durable store provides the same contract with its cache as
  \<open>Policy_Grants\<close> does with the table.
\<close>

definition cache_revoke :: "iso_time \<times> approval_scope \<times> string \<Rightarrow> grant_key set \<Rightarrow> grant_key set" where
  "cache_revoke sc K = {k \<in> K. \<not> (fst (snd k) = fst (snd sc) \<and> fst (snd (snd k)) = snd (snd sc))}"

interpretation cached_grants: grant_contract "\<lambda>K k. k \<in> K" "\<lambda>u :: iso_time \<times> string \<times> string option. insert"
  cache_revoke key_in_scope "\<lambda>u K. True" "\<lambda>K. True"
  by unfold_locales (auto simp: cache_revoke_def key_in_scope_def)

datatype approval_event =
    Recorded iso_time string string string approval_scope scope_context "string option"
  | ScopeRevoked iso_time approval_scope string

fun engine_event :: "approval_event \<Rightarrow> policy_engine \<Rightarrow> policy_engine" where
  "engine_event (Recorded now uuid p key scope ctx rv) e = fst (recordApproval now uuid p key scope ctx rv e)"
| "engine_event (ScopeRevoked now scope i) e = revokeScope now scope i e"

text \<open>The key a decision is kept under: none for a one-shot decision or one without its scope.\<close>

definition recorded_key :: "string \<Rightarrow> string \<Rightarrow> approval_scope \<Rightarrow> scope_context \<Rightarrow> grant_key option" where
  "recorded_key p key scope ctx =
     (case scope of
        ScOnce \<Rightarrow> None
      | ScWorkspace \<Rightarrow> if sc_workspaceId ctx = [] then None else Some (p, scope, sc_workspaceId ctx, key)
      | ScWorkSession \<Rightarrow>
          if truthy (sc_workSessionId ctx) then Some (p, scope, the (sc_workSessionId ctx), key) else None)"

fun event_contract ::
  "approval_event \<Rightarrow> (iso_time \<times> string \<times> string option, grant_key, iso_time \<times> approval_scope \<times> string) grant_op list" where
  "event_contract (Recorded now uuid p key scope ctx rv) =
     (case recorded_key p key scope ctx of None \<Rightarrow> [] | Some k \<Rightarrow> [Grant (now, uuid, rv) k])"
| "event_contract (ScopeRevoked now scope i) = [Revoke (now, scope, i)]"

lemma recordApproval_key:
  "recordApproval now uuid p key scope ctx rv e =
     (case recorded_key p key scope ctx of
        None \<Rightarrow> (e, None)
      | Some k \<Rightarrow>
          (let e1 = e\<lparr>pe_sessionApprovals := insert k (pe_sessionApprovals e)\<rparr>
           in case pe_grants e of
                None \<Rightarrow> (e1, None)
              | Some t \<Rightarrow>
                  if hasEffective now k t then (e1, None)
                  else if ''grant_'' @ uuid \<in> g_id ` set t then (e1, Some (GrantIdTaken (''grant_'' @ uuid)))
                  else (e1\<lparr>pe_grants := Some (grant_if_missing (now, uuid, rv) k t)\<rparr>, None)))"
  by (cases scope; cases "sc_workSessionId ctx")
    (auto simp: recordApproval_def recorded_key_def scopeIdFor_def grants_insert_def grant_if_missing_def Let_def
      split: option.splits)

lemma engine_event_stores:
  "pe_sessionApprovals (engine_event x e) = run_ops (\<lambda>u. insert) cache_revoke (event_contract x) (pe_sessionApprovals e)"
  by (cases x) (auto simp: recordApproval_key revokeScope_def cache_revoke_def Let_def split: option.splits)

lemma engine_event_no_table [simp]: "pe_grants e = None \<Longrightarrow> pe_grants (engine_event x e) = None"
  by (cases x) (auto simp: recordApproval_key revokeScope_def Let_def split: option.splits)

lemma engine_event_table:
  assumes "pe_grants e = Some t"
  shows "pe_grants (engine_event x e) = Some (run_ops grant_if_missing revoke_scope_at (event_contract x) t)"
proof (cases x)
  case (Recorded now uuid p key scope ctx rv)
  have "grant_if_missing (now, uuid, rv) k t = t"
    if "hasEffective now k t \<or> ''grant_'' @ uuid \<in> g_id ` set t" for k
    using that by (cases k) (auto simp: grant_if_missing_def grants_insert_def)
  then show ?thesis using Recorded assms
    by (auto simp: recordApproval_key Let_def split: option.splits)
next
  case (ScopeRevoked now scope i)
  then show ?thesis using assms by (simp add: revokeScope_def revoke_scope_at_def)
qed

lemma run_ops_append: "run_ops a r (xs @ ys) s = run_ops a r ys (run_ops a r xs s)"
proof (induction xs arbitrary: s)
  case Nil
  then show ?case by simp
next
  case (Cons x xs)
  then show ?case by (cases x) simp_all
qed

abbreviation history :: "approval_event list \<Rightarrow>
    (iso_time \<times> string \<times> string option, grant_key, iso_time \<times> approval_scope \<times> string) grant_op list" where
  "history xs \<equiv> concat (map event_contract xs)"

lemma engine_events_cache:
  "pe_sessionApprovals (fold engine_event xs e) = run_ops (\<lambda>u. insert) cache_revoke (history xs) (pe_sessionApprovals e)"
  by (induction xs arbitrary: e) (simp_all add: engine_event_stores run_ops_append)

lemma engine_events_no_table: "pe_grants e = None \<Longrightarrow> pe_grants (fold engine_event xs e) = None"
  by (induction xs arbitrary: e) simp_all

lemma engine_events_table:
  "pe_grants e = Some t \<Longrightarrow>
    pe_grants (fold engine_event xs e) = Some (run_ops grant_if_missing revoke_scope_at (history xs) t)"
  by (induction xs arbitrary: e t) (simp_all add: engine_event_table run_ops_append)

definition granted :: "approval_event list \<Rightarrow> grant_key set" where
  "granted xs = fold (spec_op key_in_scope) (history xs) {}"

lemma cache_ops_fresh: "ops_fresh (\<lambda>u K. True) a r xs s"
proof (induction xs arbitrary: s)
  case Nil
  then show ?case by simp
next
  case (Cons x xs)
  then show ?case by (cases x) simp_all
qed

lemma engine_has_history:
  assumes "pe_sessionApprovals e = {}"
    and "case pe_grants e of None \<Rightarrow> True
         | Some t \<Rightarrow> t = [] \<and> ops_fresh grant_id_fresh grant_if_missing revoke_scope_at (history xs) []"
  shows "engine_has now k (fold engine_event xs e) \<longleftrightarrow> k \<in> granted xs"
proof (cases "pe_grants e")
  case None
  have "k \<in> run_ops (\<lambda>u. insert) cache_revoke (history xs) {} \<longleftrightarrow> k \<in> granted xs"
    using cached_grants.has_run_ops [where s = "{}" and xs = "history xs" and k = k] by (simp add: cache_ops_fresh granted_def)
  then show ?thesis using None assms(1)
    by (simp add: engine_has_def engine_events_no_table engine_events_cache)
next
  case (Some t)
  with assms(2) have t: "t = []" and fr: "ops_fresh grant_id_fresh grant_if_missing revoke_scope_at (history xs) []"
    by simp_all
  have "hasEffective now k (run_ops grant_if_missing revoke_scope_at (history xs) []) \<longleftrightarrow> k \<in> granted xs"
    using durable_grants.has_run_ops [where s = "[]" and xs = "history xs" and k = k and now = now] fr
    by (simp add: no_expiring_def granted_def hasEffective_def)
  then show ?thesis using Some t by (simp add: engine_has_def engine_events_table)
qed

text \<open>
  C8. Approvals follow their history, whichever store backs them: after any sequence of recorded
  decisions and scope revocations, a call is approved exactly when its principal's key was
  granted for its workspace or its work session by a decision after the last revocation of that
  scope. The durable table and the cache in memory therefore give the same answer, and a one-shot
  decision or a session decision without a work session approves nothing.
\<close>

theorem isApproved_history:
  assumes "pe_sessionApprovals e = {}"
    and "case pe_grants e of None \<Rightarrow> True
         | Some t \<Rightarrow> t = [] \<and> ops_fresh grant_id_fresh grant_if_missing revoke_scope_at (history xs) []"
  shows "isApproved now p key ctx (fold engine_event xs e) \<longleftrightarrow>
    (p, ScWorkspace, sc_workspaceId ctx, key) \<in> granted xs
    \<or> (\<exists>s. sc_workSessionId ctx = Some s \<and> s \<noteq> [] \<and> (p, ScWorkSession, s, key) \<in> granted xs)"
  unfolding isApproved_def engine_has_history [OF assms]
  by (cases "sc_workSessionId ctx") auto

definition empty_engine :: "grants option \<Rightarrow> approvals option \<Rightarrow> policy_engine" where
  "empty_engine g a = \<lparr>pe_sessionApprovals = {}, pe_pendingApprovals = [], pe_liveWaiters = [],
     pe_oneShot = {}, pe_directOneShot = {}, pe_grants = g, pe_approvals = a\<rparr>"

theorem isApproved_history_witness:
  "let ctx = \<lparr>sc_workspaceId = ''w'', sc_workSessionId = Some ''s''\<rparr>;
       xs = [Recorded 1 ''u1'' ''alice'' ''tool:bash'' ScWorkspace ctx None,
             Recorded 2 ''u2'' ''alice'' ''tool:edit'' ScWorkSession ctx None,
             ScopeRevoked 3 ScWorkspace ''w'']
   in isApproved 9 ''alice'' ''tool:edit'' ctx (fold engine_event xs (empty_engine (Some []) None))
      \<and> \<not> isApproved 9 ''alice'' ''tool:bash'' ctx (fold engine_event xs (empty_engine (Some []) None))"
proof -
  define ctx :: scope_context where "ctx = \<lparr>sc_workspaceId = ''w'', sc_workSessionId = Some ''s''\<rparr>"
  define xs where "xs = [Recorded 1 ''u1'' ''alice'' ''tool:bash'' ScWorkspace ctx None,
             Recorded 2 ''u2'' ''alice'' ''tool:edit'' ScWorkSession ctx None,
             ScopeRevoked 3 ScWorkspace ''w'']"
  have h: "history xs = [Grant (1, ''u1'', None) (''alice'', ScWorkspace, ''w'', ''tool:bash''),
      Grant (2, ''u2'', None) (''alice'', ScWorkSession, ''s'', ''tool:edit''), Revoke (3, ScWorkspace, ''w'')]"
    by (simp add: xs_def ctx_def recorded_key_def)
  have g: "granted xs = {(''alice'', ScWorkSession, ''s'', ''tool:edit'')}"
    unfolding granted_def h by (auto simp: key_in_scope_def)
  have fr: "ops_fresh grant_id_fresh grant_if_missing revoke_scope_at (history xs) []"
    unfolding h by (simp add: grant_id_fresh_def grant_if_missing_def grants_insert_def hasEffective_def grant_key_of_def)
  have "isApproved 9 ''alice'' key ctx (fold engine_event xs (empty_engine (Some []) None)) \<longleftrightarrow> key = ''tool:edit''" for key
    by (subst isApproved_history) (use fr in \<open>simp_all add: empty_engine_def g ctx_def\<close>)
  then show ?thesis unfolding xs_def [symmetric] ctx_def [symmetric] Let_def by simp
qed

section \<open>Revoking one grant\<close>

definition live_keys :: "grants \<Rightarrow> grant_key list" where
  "live_keys t = map grant_key_of (filter (\<lambda>g. g_revokedAt g = None) t)"

definition grants_wf :: "grants \<Rightarrow> bool" where
  "grants_wf t \<longleftrightarrow> distinct (map g_id t) \<and> no_expiring t \<and> distinct (live_keys t)"

inductive engine_step :: "policy_engine \<Rightarrow> policy_engine \<Rightarrow> bool" where
  es_record: "engine_step e (fst (recordApproval now uuid p key scope ctx rv e))"
| es_revokeScope: "engine_step e (revokeScope now scope i e)"
| es_revokeGrant: "engine_step e (revokeGrant now now' i e)"
| es_addPending: "engine_step e (fst (addPending cfg wss now q e))"
| es_resolve: "engine_step e (fst (resolvePending n0 ns i st reason choice e))"
| es_consume: "engine_step e (fst (consumeApprovedOperation now k e))"
| es_consumeDirect: "engine_step e (fst (consumeApprovedDirectOperation now d e))"
| es_detach: "engine_step e (detachLiveWaiter cfg now i w e)"
| es_reattach: "engine_step e (reattachLiveWaiter i w e)"
| es_touch: "engine_step e (touchPending cfg ms now now' i e)"
| es_clear: "engine_step e (clearPending i e)"
| es_find: "engine_step e (fst (findPending now p key ctx e))"
| es_findByKey: "engine_step e (fst (findPendingByKey now rowKey e))"
| es_list: "engine_step e (fst (getPendingApprovals now w e))"
| es_resume: "engine_step e (fst (resumeOperation now i content e))"

definition engine_wf :: "policy_engine \<Rightarrow> bool" where
  "engine_wf e \<longleftrightarrow> (case pe_grants e of None \<Rightarrow> True | Some t \<Rightarrow> grants_wf t)"

lemma live_keys_update_revoke:
  "live_keys (sql_update (\<lambda>g. Q g \<and> g_revokedAt g = None) (\<lambda>g. g\<lparr>g_revokedAt := Some now\<rparr>) t)
     = map grant_key_of (filter (\<lambda>g. g_revokedAt g = None \<and> \<not> Q g) t)"
  by (induction t) (auto simp: live_keys_def)

lemma grants_wf_revoke:
  assumes "grants_wf t"
  shows "grants_wf (sql_update (\<lambda>g. Q g \<and> g_revokedAt g = None) (\<lambda>g. g\<lparr>g_revokedAt := Some now\<rparr>) t)"
proof -
  have "filter (\<lambda>g. g_revokedAt g = None \<and> \<not> Q g) t = filter (\<lambda>g. \<not> Q g) (filter (\<lambda>g. g_revokedAt g = None) t)"
    by (simp add: conj_commute)
  then have "distinct (map grant_key_of (filter (\<lambda>g. g_revokedAt g = None \<and> \<not> Q g) t))"
    using assms by (simp only: grants_wf_def live_keys_def distinct_map_filter)
  then show ?thesis using assms
    by (auto simp: grants_wf_def live_keys_update_revoke map_sql_update no_expiring_def list_all_iff
        elim!: mem_sql_updateE)
qed

lemma grants_wf_add:
  assumes "grants_wf t" "grant_id_fresh u t"
  shows "grants_wf (grant_if_missing u k t)"
proof -
  obtain now uuid rv p sc i key where uk: "u = (now, uuid, rv)" "k = (p, sc, i, key)"
    by (metis surj_pair)
  have "no_expiring t" using assms(1) by (simp add: grants_wf_def)
  then have "hasEffective now k t \<longleftrightarrow> k \<in> set (live_keys t)"
    by (auto simp: hasEffective_no_expiring live_keys_def)
  then show ?thesis using assms uk
    by (auto simp: grant_if_missing_cases grants_wf_def live_keys_def grant_key_of_def grant_id_fresh_def
        no_expiring_def)
qed

lemma pe_grants_others [simp]:
  "pe_grants (add_waiter i w e) = pe_grants e"
  "pe_grants (fst (durable_pending now ws e)) = pe_grants e"
  by (auto simp: add_waiter_def durable_pending_def split: option.splits prod.splits)

lemma pe_grants_steps:
  "pe_grants (fst (addPending cfg wss now q e)) = pe_grants e"
  "pe_grants (fst (resolvePending n0 ns i st reason choice e)) = pe_grants e"
  "pe_grants (fst (consumeApprovedOperation now k e)) = pe_grants e"
  "pe_grants (fst (consumeApprovedDirectOperation now d e)) = pe_grants e"
  "pe_grants (fst (resumeOperation now i content e)) = pe_grants e"
  by (auto simp: addPending_def resolvePending_def consumeApprovedOperation_def resumeOperation_def
      consumeApprovedDirectOperation_def Let_def split: option.splits prod.splits sum.splits)

lemma pe_grants_finders:
  "pe_grants (fst (findPending now p key ctx e)) = pe_grants e"
  "pe_grants (fst (findPendingByKey now rowKey e)) = pe_grants e"
  "pe_grants (fst (getPendingApprovals now w e)) = pe_grants e"
  using pe_grants_others(2)
  by (auto simp: findPending_def findPendingByKey_def getPendingApprovals_def case_prod_beta split: option.splits)

lemma pe_grants_waiters:
  "pe_grants (detachLiveWaiter cfg now i w e) = pe_grants e"
  "pe_grants (reattachLiveWaiter i w e) = pe_grants e"
  "pe_grants (touchPending cfg ms now now' i e) = pe_grants e"
  "pe_grants (clearPending i e) = pe_grants e"
  by (auto simp: detachLiveWaiter_def reattachLiveWaiter_def touchPending_def clearPending_def Let_def
      split: option.splits)

lemma engine_wf_step:
  assumes "engine_wf e" "engine_step e e'"
  shows "engine_wf e'"
  using assms(2,1)
proof (induction rule: engine_step.induct)
  case (es_record e now uuid p key scope ctx rv)
  then show ?case
    by (auto simp: engine_wf_def recordApproval_key Let_def grant_id_fresh_def
        split: option.splits intro!: grants_wf_add)
next
  case (es_revokeScope e now scope i)
  then show ?case
    using grants_wf_revoke [of _ "\<lambda>g. g_scope g = scope \<and> g_scopeId g = i" now]
    by (auto simp: engine_wf_def revokeScope_def revokeForScope_def conj_assoc split: option.splits)
next
  case (es_revokeGrant e now now' i)
  then show ?case
    using grants_wf_revoke [of _ "\<lambda>g. g_id g = i" now']
    by (auto simp: engine_wf_def revokeGrant_def grants_revokeGrant_def Let_def split: option.splits)
qed (simp_all add: engine_wf_def pe_grants_steps pe_grants_finders pe_grants_waiters)

interpretation engine_inv: store_invariant "\<lambda>e. pe_grants e \<in> {None, Some []}" engine_step engine_wf
proof unfold_locales
  show "engine_wf e" if "pe_grants e \<in> {None, Some []}" for e
    using that by (auto simp: engine_wf_def grants_wf_def live_keys_def no_expiring_def)
qed (rule engine_wf_step)

lemma revokeGrant_exact:
  assumes "engine_wf e" "pe_grants e = Some t" "getEffective now i t = Some g"
  shows "engine_has later k (revokeGrant now now' i e) \<longleftrightarrow> engine_has later k e \<and> k \<noteq> grant_key_of g"
proof -
  have wf: "grants_wf t" using assms(1,2) by (simp add: engine_wf_def)
  then have ne: "no_expiring t" and ids: "distinct (map g_id t)" and keys: "distinct (live_keys t)"
    by (simp_all add: grants_wf_def)
  have g: "g \<in> set t" "g_id g = i" "g_revokedAt g = None"
    using find_Some_mem assms(3) by (fastforce simp: getEffective_def grant_effective_def)+
  let ?t = "grants_revokeGrant now' i t"
  have t': "pe_grants (revokeGrant now now' i e) = Some ?t"
    using assms(2,3) by (simp add: revokeGrant_def)
  have ne': "no_expiring ?t"
    using ne by (auto simp: no_expiring_def list_all_iff grants_revokeGrant_def elim!: mem_sql_updateE)
  have live: "h \<in> set ?t \<and> g_revokedAt h = None \<longleftrightarrow> h \<in> set t \<and> g_revokedAt h = None \<and> h \<noteq> g" for h
  proof -
    have "g_id x = i \<and> g_revokedAt x = None \<longleftrightarrow> x = g" if "x \<in> set t" for x
      using key_unique [OF ids that g(1)] g(2,3) by metis
    then have "?t = map (\<lambda>x. if x = g then x\<lparr>g_revokedAt := Some now'\<rparr> else x) t"
      unfolding grants_revokeGrant_def sql_update_def by (intro map_cong refl) simp
    moreover have "g\<lparr>g_revokedAt := Some now'\<rparr> \<noteq> g"
      using g(3) by (metis grant_record.select_convs(8) grant_record.surjective grant_record.update_convs(8) option.distinct(1))
    ultimately show ?thesis using g(3) by (auto split: if_splits)
  qed
  have uniq: "h = g" if "h \<in> set t" "g_revokedAt h = None" "grant_key_of h = grant_key_of g" for h
    using key_unique [OF keys [unfolded live_keys_def], of h g] that g by simp
  have "hasEffective later k ?t \<longleftrightarrow> (\<exists>h. (h \<in> set ?t \<and> g_revokedAt h = None) \<and> grant_key_of h = k)"
    unfolding hasEffective_no_expiring [OF ne'] by blast
  also have "\<dots> \<longleftrightarrow> hasEffective later k t \<and> k \<noteq> grant_key_of g"
    unfolding live hasEffective_no_expiring [OF ne] using uniq by blast
  finally have "hasEffective later k ?t \<longleftrightarrow> hasEffective later k t \<and> k \<noteq> grant_key_of g" .
  then show ?thesis using t' assms(2) by (simp add: engine_has_def)
qed

text \<open>
  Revoking one grant by its id ends exactly the approval it stands for: in every state the
  engine can reach, the key of that grant is no longer approved and every other key is approved
  as before. (There is never a second unrevoked grant that would keep the key alive.)
\<close>

theorem revokeGrant_ends_exactly_its_key:
  assumes "reachable (\<lambda>e. pe_grants e \<in> {None, Some []}) engine_step e"
    and "pe_grants e = Some t" and "getEffective now i t = Some g"
  shows "engine_has later k (revokeGrant now now' i e) \<longleftrightarrow> engine_has later k e \<and> k \<noteq> grant_key_of g"
  using revokeGrant_exact [OF engine_inv.inv_reachable [OF assms(1)] assms(2,3)] .

theorem revokeGrant_ends_exactly_its_key_witness:
  "\<exists>e t g. pe_grants e = Some t \<and> getEffective 5 ''grant_u'' t = Some g
     \<and> engine_has 9 (grant_key_of g) e \<and> \<not> engine_has 9 (grant_key_of g) (revokeGrant 5 6 ''grant_u'' e)"
proof -
  let ?ctx = "\<lparr>sc_workspaceId = ''w'', sc_workSessionId = None\<rparr>"
  let ?start = "empty_engine (Some []) None"
  let ?e = "fst (recordApproval 1 ''u'' ''alice'' ''tool:bash'' ScWorkspace ?ctx None ?start)"
  let ?g = "\<lparr>g_id = ''grant_u'', g_principalId = ''alice'', g_scope = ScWorkspace, g_scopeId = ''w'',
    g_approvalKey = ''tool:bash'', g_createdAt = 1, g_expiresAt = None, g_revokedAt = None, g_reviewerId = None\<rparr>"
  have "reachable (\<lambda>e. pe_grants e \<in> {None, Some []}) engine_step ?start"
    by (rule reachable_start) (simp add: empty_engine_def)
  then have "reachable (\<lambda>e. pe_grants e \<in> {None, Some []}) engine_step ?e"
    by (rule reachable_step) (rule es_record)
  moreover have t: "pe_grants ?e = Some [?g]"
    by (simp add: recordApproval_def scopeIdFor_def empty_engine_def hasEffective_def grants_insert_def)
  moreover have g: "getEffective 5 ''grant_u'' [?g] = Some ?g"
    by (simp add: getEffective_def grant_effective_def)
  ultimately have "\<not> engine_has 9 (grant_key_of ?g) (revokeGrant 5 6 ''grant_u'' ?e)"
    using revokeGrant_ends_exactly_its_key [of ?e "[?g]" 5 "''grant_u''" ?g 9 "grant_key_of ?g" 6] by blast
  moreover have "engine_has 9 (grant_key_of ?g) ?e"
    unfolding engine_has_def t by (simp add: hasEffective_iff grant_effective_def)
  ultimately show ?thesis using t g by blast
qed

section \<open>Resuming and consuming an operation\<close>

lemma length_filter_sql_update:
  assumes "\<And>r. r \<in> set t \<Longrightarrow> P r \<Longrightarrow> Q (f r) = Q r"
  shows "length (filter Q (sql_update P f t)) = length (filter Q t)"
  using assms by (induction t) auto

lemma length_filter_update_one:
  assumes "distinct (map k t)" "r \<in> set t" "P r" "\<And>x. P x \<Longrightarrow> k x = k r" "\<not> Q r" "Q (f r)"
  shows "length (filter Q (sql_update P f t)) = Suc (length (filter Q t))"
  using assms
proof (induction t)
  case Nil
  then show ?case by simp
next
  case (Cons x t)
  show ?case
  proof (cases "x = r")
    case True
    with Cons.prems have "\<forall>y \<in> set t. \<not> P y"
      by (metis distinct.simps(2) image_eqI list.set_map list.simps(9))
    with True Cons.prems(3,5,6) show ?thesis by (simp add: sql_update_none)
  next
    case False
    have "k x \<noteq> k r" using False Cons.prems(1,2) by (metis key_unique list.set_intros(1))
    then have "\<not> P x" using Cons.prems(4) by metis
    moreover have "r \<in> set t" using False Cons.prems(2) by simp
    moreover have "distinct (map k t)" using Cons.prems(1) by simp
    ultimately have "length (filter Q (sql_update P f t)) = Suc (length (filter Q t))"
      using Cons.IH Cons.prems(3-6) by blast
    then show ?thesis using \<open>\<not> P x\<close> by simp
  qed
qed

lemma one_shots_expire [simp]: "one_shots_for k (fst (expirePending now lim t)) = one_shots_for k t"
  unfolding one_shots_for_def fst_expirePending
  by (rule length_filter_sql_update) (auto simp: one_shot_def consumable_def expire_row_def)

lemma one_shots_get [simp]: "one_shots_for k (fst (approval_get now i t)) = one_shots_for k t"
  by (simp add: approval_get_def Let_def)

lemma approval_get_unexpired:
  assumes "distinct (map ap_id t)" "r \<in> set t" "ap_status r = APending" "\<not> is_expired_pending now r"
  shows "approval_get now (ap_id r) t = (fst (expirePending now 100 t), Some (rowToApproval r))"
    and "r \<in> set (fst (expirePending now 100 t))" "distinct (map ap_id (fst (expirePending now 100 t)))"
proof -
  have "ap_id r \<notin> set (expire_candidates now 100 t)"
  proof
    assume "ap_id r \<in> set (expire_candidates now 100 t)"
    then obtain x where "x \<in> set t" "is_expired_pending now x" "ap_id x = ap_id r"
      by (auto simp: expire_candidates_def dest!: in_set_takeD)
    then show False using key_unique [OF assms(1)] assms(2,4) by blast
  qed
  then have "find (\<lambda>x. ap_id x = ap_id r) (fst (expirePending now 100 t)) = Some r"
    using find_after_expire [OF assms(1-3), of now 100] by simp
  then show "approval_get now (ap_id r) t = (fst (expirePending now 100 t), Some (rowToApproval r))"
    and "r \<in> set (fst (expirePending now 100 t))"
    by (auto simp: approval_get_def Let_def dest: find_Some_mem)
  show "distinct (map ap_id (fst (expirePending now 100 t)))"
    using evolves_ids [OF expirePending_evolves] assms(1) by metis
qed

lemma check_option_once:
  assumes "find (\<lambda>o'. opt_id o' = oid) (ap_options existing) = Some opt" "oid \<noteq> []"
    and "opt_effect opt = EApprove" "opt_scope opt = Some ScOnce"
    and "input = resolution_input AApproved reason \<lparr>rch_scope = Some ScOnce, rch_optionId = Some oid\<rparr>"
  shows "check_option input existing = Inr (input\<lparr>ri_scope := Some ScOnce\<rparr>)"
  using assms by (simp add: check_option_def resolution_input_def Let_def)

lemma resolve_once_count:
  assumes "distinct (map ap_id t)" "r \<in> set t" "ap_status r = APending" "ap_consumedAt r = None"
    and "\<not> is_expired_pending n1 r"
    and "find (\<lambda>o'. opt_id o' = oid) (ap_options r) = Some opt" "oid \<noteq> []"
    and "opt_effect opt = EApprove" "opt_scope opt = Some ScOnce"
    and "input = resolution_input AApproved reason \<lparr>rch_scope = Some ScOnce, rch_optionId = Some oid\<rparr>"
  shows "\<exists>t' res. approval_resolve (ap_id r) input n1 n2 n3 t = (t', Inr res) \<and> distinct (map ap_id t')
    \<and> (\<forall>k. one_shots_for k t' = one_shots_for k t + (if ap_waiterKey r = Some k then 1 else 0))"
proof -
  let ?t1 = "fst (expirePending n1 100 t)"
  let ?in = "input\<lparr>ri_scope := Some ScOnce\<rparr>"
  let ?P = "\<lambda>x. ap_id x = ap_id r \<and> ap_status x = APending"
  let ?t2 = "sql_update ?P (resolve_write ?in n2) ?t1"
  note got = approval_get_unexpired [OF assms(1-3,5)]
  have ap: "ri_status input = AApproved" "ri_optionId input = Some oid" by (simp_all add: assms(10) resolution_input_def)
  have "check_option input (rowToApproval r) = Inr ?in"
    using check_option_once [of oid "rowToApproval r" opt input] assms(6-10) by (simp add: rowToApproval_def)
  then have res: "approval_resolve (ap_id r) input n1 n2 n3 t
      = (fst (approval_get n3 (ap_id r) ?t2), Inr (snd (approval_get n3 (ap_id r) ?t2)))"
    using got(1) assms(3,7) ap by (simp add: approval_resolve_def rowToApproval_def case_prod_beta Let_def)
  have "distinct (map ap_id ?t2)" using got(3) by (subst map_sql_update) (simp_all add: resolve_write_def)
  then have dist: "distinct (map ap_id (fst (approval_get n3 (ap_id r) ?t2)))"
    using evolves_ids [OF approval_get_evolves] by metis
  have count: "one_shots_for k ?t2 = one_shots_for k t + (if ap_waiterKey r = Some k then 1 else 0)" for k
  proof (cases "ap_waiterKey r = Some k")
    case True
    have "one_shots_for k ?t2 = Suc (one_shots_for k ?t1)"
      unfolding one_shots_for_def
      by (rule length_filter_update_one [OF got(3,2)])
        (use assms(3,4) True ap in \<open>auto simp: one_shot_def consumable_def resolve_write_def resolution_scope_def\<close>)
    then show ?thesis using True by simp
  next
    case False
    have "\<not> one_shot x \<and> ap_waiterKey (resolve_write ?in n2 x) \<noteq> Some k"
      if "x \<in> set ?t1" "?P x" for x
      using key_unique [OF got(3) that(1) got(2)] that(2) assms(3) False
      by (auto simp: resolve_write_def one_shot_def consumable_def)
    then have "one_shots_for k ?t2 = one_shots_for k ?t1"
      unfolding one_shots_for_def by (intro length_filter_sql_update) auto
    then show ?thesis using False by simp
  qed
  show ?thesis using res dist count by (auto intro!: exI)
qed

lemma resolvePending_durable:
  assumes "pe_approvals e = Some t"
  shows "pe_approvals (fst (resolvePending n0 ns i st reason choice e))
      = Some (fst (approval_resolve i (resolution_input st reason choice) (fst ns) (fst (snd ns)) (snd (snd ns))
                     (fst (approval_get n0 i t))))"
    and "snd (resolvePending n0 ns i st reason choice e) =
      (case snd (approval_resolve i (resolution_input st reason choice) (fst ns) (fst (snd ns)) (snd (snd ns))
                   (fst (approval_get n0 i t))) of Inl err \<Rightarrow> Some (ApprovalFailed err) | Inr _ \<Rightarrow> None)"
  using assms by (simp_all add: resolvePending_def Let_def case_prod_beta split: option.splits)

lemma consume_durable:
  assumes "pe_approvals e = Some t" "distinct (map ap_id t)"
  shows "\<exists>t'. pe_approvals (fst (consumeApprovedOperation now k e)) = Some t' \<and> distinct (map ap_id t')
      \<and> one_shots_for k t' = one_shots_for k t - 1"
    and "snd (consumeApprovedOperation now k e) \<longleftrightarrow> 0 < one_shots_for k t"
proof -
  obtain t' b where c: "approval_consumeOperation k now t = (t', b)" by fastforce
  from consume_counts [OF assms(2) c] assms(1) c
  show "\<exists>t'. pe_approvals (fst (consumeApprovedOperation now k e)) = Some t' \<and> distinct (map ap_id t')
      \<and> one_shots_for k t' = one_shots_for k t - 1"
    and "snd (consumeApprovedOperation now k e) \<longleftrightarrow> 0 < one_shots_for k t"
    by (simp_all add: consumeApprovedOperation_def)
qed



text \<open>
  An approval id is no bearer token: \<open>resumeOperation\<close> hands out the waiter key of an operation
  only to a caller that presents the row's principal, workspace, work session, tool, approval
  key, path, command and operation hash, and, inside a work session, the owner context too. It
  never changes the lasting approvals or the one-shot approvals.
\<close>

theorem resumeOperation_content_bound:
  assumes "resumeOperation now i content e = (e', Some k)"
  shows "(\<exists>v. ((case pe_approvals e of
            None \<Rightarrow> False
          | Some t \<Rightarrow> \<exists>r \<in> set (fst (approval_get now i t)). ap_id r = i \<and> v = row_view (rowToApproval r))
        \<or> (\<exists>q \<in> snd ` set (pe_pendingApprovals e). tr_id q = i \<and> v = card_view q))
      \<and> rv_waiterKey v = Some k \<and> rv_principalId v = Some (rc_principalId content)
      \<and> rv_workspaceId v = rc_workspaceId content \<and> rv_workSessionId v = rc_workSessionId content
      \<and> coalesce (rv_tool v) [] = rc_tool content \<and> rv_approvalKey v = Some (rc_approvalKey content)
      \<and> rv_path v = rc_path content \<and> rv_command v = rc_command content
      \<and> rv_operationHash v = Some (rc_operationHash content) \<and> rc_operationHash content \<noteq> []
      \<and> (truthy (rc_workSessionId content) \<longrightarrow> rv_ownerContextId v = rc_ownerContextId content))
    \<and> pe_grants e' = pe_grants e \<and> pe_sessionApprovals e' = pe_sessionApprovals e
    \<and> pe_oneShot e' = pe_oneShot e \<and> pe_directOneShot e' = pe_directOneShot e"
proof -
  have get: "\<exists>r \<in> set (fst (approval_get now i t)). ap_id r = i \<and> x = rowToApproval r"
    if "snd (approval_get now i t) = Some x" for t x
    using that by (auto simp: approval_get_def Let_def dest: find_Some_mem)
  have card: "q \<in> snd ` set (pe_pendingApprovals e) \<and> tr_id q = i"
    if "find (\<lambda>q. tr_id q = i) (map snd (pe_pendingApprovals e)) = Some q" for q
    using find_Some_mem [OF that] by simp
  show ?thesis
  proof (cases "pe_approvals e")
    case None
    then obtain q where "find (\<lambda>q. tr_id q = i) (map snd (pe_pendingApprovals e)) = Some q"
      "resume_matches content (card_view q)" "rv_waiterKey (card_view q) = Some k" "e' = e"
      using assms by (auto simp: resumeOperation_def split: option.splits if_splits)
    then show ?thesis using card [of q] None unfolding resume_matches_def
      by (intro conjI exI [of _ "card_view q"]) auto
  next
    case (Some t)
    show ?thesis
    proof (cases "snd (approval_get now i t)")
      case None
      then obtain q where "find (\<lambda>q. tr_id q = i) (map snd (pe_pendingApprovals e)) = Some q"
        "resume_matches content (card_view q)" "rv_waiterKey (card_view q) = Some k"
        "e' = e\<lparr>pe_approvals := Some (fst (approval_get now i t))\<rparr>"
        using assms Some by (auto simp: resumeOperation_def case_prod_beta split: option.splits if_splits)
      then show ?thesis using card [of q] Some unfolding resume_matches_def
        by (intro conjI exI [of _ "card_view q"]) auto
    next
      case (Some x)
      then have "resume_matches content (row_view x)" "rv_waiterKey (row_view x) = Some k"
        "e' = e\<lparr>pe_approvals := Some (fst (approval_get now i t))\<rparr>"
        using assms \<open>pe_approvals e = Some t\<close>
        by (auto simp: resumeOperation_def case_prod_beta split: option.splits if_splits)
      then show ?thesis using get [OF Some] \<open>pe_approvals e = Some t\<close> unfolding resume_matches_def
        by (intro conjI exI [of _ "row_view x"]) auto
    qed
  qed
qed

definition demo_content :: resume_content where
  "demo_content = \<lparr>rc_principalId = ''alice'', rc_workspaceId = ''ws'', rc_workSessionId = None,
     rc_ownerContextId = Some ''owner'', rc_tool = ''bash'', rc_approvalKey = ''tool:bash'', rc_path = None,
     rc_command = None, rc_operationHash = ''h''\<rparr>"

theorem resumeOperation_content_bound_witness:
  "snd (resumeOperation 5 ''apr_1'' demo_content (empty_engine None (Some [demo_approval]))) = Some ''k''
   \<and> snd (resumeOperation 5 ''apr_1'' (demo_content\<lparr>rc_principalId := ''mallory''\<rparr>)
            (empty_engine None (Some [demo_approval]))) = None"
proof -
  let ?e = "empty_engine None (Some [demo_approval])"
  have ok: "resumeOperation 5 ''apr_1'' demo_content ?e = (?e, Some ''k'')" by code_simp
  have "snd (resumeOperation 5 ''apr_1'' (demo_content\<lparr>rc_principalId := ''mallory''\<rparr>) ?e) = None" by code_simp
  with ok resumeOperation_content_bound [OF ok] show ?thesis by simp
qed

end
