(* ===== verification/Work_Sessions.thy ===== *)
theory Work_Sessions
  imports Kontrol_Prelude
begin

text \<open>
  Work sessions: the status a session has and what follows from it. Modelled are the terminal
  outcomes of src/src/work-session-lifecycle.ts, the classification and the bounded
  reconciliation of src/src/work-sessions/runtime-state.ts and internal.ts, and the action guard of
  src/src/work-session-action-guard.ts.

  \<^item> Each reading of the clock is an argument; a stored timestamp is its number of milliseconds.
  \<^item> The JSON array of allowed actions is read by a parser that is an argument of the guard; it
    gives the strings of the array, or nothing where parsing throws.
  \<^item> The reason of a refusal is a constructor that carries what the message prints.
\<close>

section \<open>Statuses\<close>

datatype work_session_status =
    InProgress | Cancelling | Drafting | AwaitingReview | InReview | ReviewInProgress | Resuming
  | ChangesRequested | Approved | Rejected | Stale | Cancelled | Failed | FailedProtocol

datatype completion_policy = AgentCompletion | WebuiApprovalRequired

datatype work_session_lifecycle =
  LActiveWorker | LAwaitingReview | LResumable | LDetached | LStale | LArchived | LPending

datatype runtime_state = RRunning | RParked | RDetached | RStale | ROrphaned | RArchived | RPending

datatype terminal_status = TCompleted | TApproved | TRejected | TCancelled | TFailed | TFailedProtocol

record terminal_outcome =
  to_successful :: bool
  to_status :: terminal_status

definition workSessionTerminalOutcome ::
  "string option \<Rightarrow> completion_policy option \<Rightarrow> terminal_outcome option" where
  "workSessionTerminalOutcome eventType completionPolicy =
     (if \<not> truthy eventType then None
      else if eventType = Some ''agent.run.completed''
      then (if completionPolicy = Some WebuiApprovalRequired then None
            else Some \<lparr>to_successful = True, to_status = TCompleted\<rparr>)
      else if eventType = Some ''agent.run.approved'' then Some \<lparr>to_successful = True, to_status = TApproved\<rparr>
      else if eventType = Some ''agent.run.rejected'' then Some \<lparr>to_successful = False, to_status = TRejected\<rparr>
      else if eventType = Some ''agent.run.cancelled'' then Some \<lparr>to_successful = False, to_status = TCancelled\<rparr>
      else if eventType = Some ''agent.run.failed_protocol''
      then Some \<lparr>to_successful = False, to_status = TFailedProtocol\<rparr>
      else if eventType = Some ''agent.run.failed'' then Some \<lparr>to_successful = False, to_status = TFailed\<rparr>
      else None)"

definition isTerminalStatus :: "work_session_status \<Rightarrow> bool" where
  "isTerminalStatus status \<longleftrightarrow> status \<in> {Approved, Rejected, Cancelled, Failed, FailedProtocol}"

definition lifecycleForRuntimeState :: "work_session_status \<Rightarrow> runtime_state \<Rightarrow> work_session_lifecycle" where
  "lifecycleForRuntimeState status runtimeState =
     (if runtimeState = RArchived then LArchived
      else if status = AwaitingReview \<or> status = ReviewInProgress \<or> runtimeState = RParked then LAwaitingReview
      else if status = ChangesRequested then LResumable
      else if runtimeState = RRunning then LActiveWorker
      else if runtimeState = RStale then LStale
      else if runtimeState = RDetached \<or> runtimeState = ROrphaned then LDetached
      else LPending)"

definition STALE_THRESHOLD_MS :: int where
  "STALE_THRESHOLD_MS = 60 * 60 * 1000"

definition classifyLifecycle ::
  "iso_time \<Rightarrow> work_session_status \<Rightarrow> iso_time \<Rightarrow> bool \<Rightarrow> bool \<Rightarrow> work_session_lifecycle" where
  "classifyLifecycle now status updatedAt hasLiveRun hasRecentHeartbeat =
     (if isTerminalStatus status then LArchived
      else if status = AwaitingReview then LAwaitingReview
      else if status = ChangesRequested then LResumable
      else if hasLiveRun \<and> hasRecentHeartbeat then LActiveWorker
      else if \<not> hasLiveRun \<and> \<not> hasRecentHeartbeat
      then (if now - updatedAt > STALE_THRESHOLD_MS then LStale else LDetached)
      else LPending)"

section \<open>Runtime state\<close>

record latest_run =
  lr_status :: string
  lr_lastHeartbeatAt :: "iso_time option"
  lr_workerLeaseUntil :: "iso_time option"
  lr_finishedAt :: "iso_time option"

definition run_active :: "latest_run option \<Rightarrow> bool" where
  "run_active run =
     (case run of
        None \<Rightarrow> False
      | Some r \<Rightarrow> lr_finishedAt r = None
                  \<and> lr_status r \<in> set [''created'', ''in-progress'', ''running'', ''working'', ''awaiting''])"

text \<open>The three clock readings: for the age, the heartbeat and the lease.\<close>

definition runtimeStateFor ::
  "iso_time \<times> iso_time \<times> iso_time \<Rightarrow> work_session_status \<Rightarrow> iso_time \<Rightarrow> latest_run option \<Rightarrow> runtime_state" where
  "runtimeStateFor clock status updatedAt run =
     (case clock of (now, now', now'') \<Rightarrow>
        if isTerminalStatus status then RArchived
        else let ageMs = now - updatedAt
             in if status = AwaitingReview \<or> status = ReviewInProgress
                then (if ageMs > 30 * 24 * 60 * 60 * 1000 then RStale else RParked)
                else let heartbeat = coalesce (Option.bind run lr_lastHeartbeatAt) 0;
                         lease = coalesce (Option.bind run lr_workerLeaseUntil) 0;
                         recentHeartbeat = (heartbeat > 0 \<and> now' - heartbeat \<le> 2 * 60000);
                         validLease = (lease > now'')
                     in if run_active run \<and> (recentHeartbeat \<or> validLease) then RRunning
                        else if ageMs > STALE_THRESHOLD_MS then RStale
                        else RDetached)"

record session_row =
  sr_id :: string
  sr_status :: work_session_status
  sr_updatedAt :: iso_time
  sr_runtimeState :: "runtime_state option"
  sr_runtimeClassifiedAt :: "iso_time option"

record run_row =
  rr_runId :: string
  rr_workSessionId :: string
  rr_createdAt :: iso_time
  rr_run :: latest_run

record reconciliation_page =
  rp_examined :: nat
  rp_reconciled :: nat
  rp_markedStale :: nat
  rp_nextAfterId :: "string option"
  rp_hasMore :: bool

definition reconcile_limit :: "int \<Rightarrow> nat" where
  "reconcile_limit limit = nat (max 1 (min 500 limit))"

definition session_page :: "string option \<Rightarrow> int \<Rightarrow> session_row table \<Rightarrow> session_row list" where
  "session_page afterSessionId limit t =
     take (reconcile_limit limit)
       (order_asc sr_id (filter (\<lambda>r. case afterSessionId of None \<Rightarrow> True | Some a \<Rightarrow> a < sr_id r) t))"

definition latest_run_of :: "run_row table \<Rightarrow> string \<Rightarrow> latest_run option" where
  "latest_run_of runs sid =
     map_option rr_run (first_row (order_desc (\<lambda>r. (rr_createdAt r, rr_runId r))
       (filter (\<lambda>r. rr_workSessionId r = sid) runs)))"

definition classify_row ::
  "iso_time \<times> iso_time \<times> iso_time \<Rightarrow> run_row table \<Rightarrow> session_row \<Rightarrow> runtime_state" where
  "classify_row clock runs r = runtimeStateFor clock (sr_status r) (sr_updatedAt r) (latest_run_of runs (sr_id r))"

definition reconcile_updates ::
  "iso_time \<times> iso_time \<times> iso_time \<Rightarrow> run_row table \<Rightarrow> session_row list \<Rightarrow> (string \<times> runtime_state) list" where
  "reconcile_updates clock runs rows =
     map (\<lambda>r. (sr_id r, classify_row clock runs r))
       (filter (\<lambda>r. sr_runtimeState r \<noteq> Some (classify_row clock runs r)) rows)"

definition reconcileRuntimeStates ::
  "iso_time \<times> iso_time \<times> iso_time \<Rightarrow> iso_time \<Rightarrow> run_row table \<Rightarrow> string option \<Rightarrow> int \<Rightarrow> session_row table
     \<Rightarrow> session_row table \<times> reconciliation_page" where
  "reconcileRuntimeStates clock now runs afterSessionId limit t =
     (let rows = session_page afterSessionId limit t;
          updates = reconcile_updates clock runs rows;
          t' = (if updates = [] then t
                else sql_update (\<lambda>r. sr_id r \<in> set (map fst updates))
                       (\<lambda>r. r\<lparr>sr_runtimeState := (case map_of updates (sr_id r) of
                                 None \<Rightarrow> sr_runtimeState r | Some st \<Rightarrow> Some st),
                              sr_runtimeClassifiedAt := Some now\<rparr>) t)
      in (t', \<lparr>rp_examined = length rows, rp_reconciled = length updates,
               rp_markedStale = length (filter (\<lambda>u. snd u \<in> {RStale, ROrphaned}) updates),
               rp_nextAfterId = map_option sr_id (last_elem rows),
               rp_hasMore = (length rows = reconcile_limit limit)\<rparr>))"

section \<open>The action guard\<close>

datatype action_class = ReadFiles | EditFiles | RunCommands | Resubmit | AwaitFeedback | CancelAction

definition TOOL_TO_ACTION_CLASS :: "string \<rightharpoonup> action_class" where
  "TOOL_TO_ACTION_CLASS = map_of
     [(''read'', ReadFiles), (''ls'', ReadFiles), (''grep'', ReadFiles), (''glob'', ReadFiles),
      (''git_status'', ReadFiles), (''git_log'', ReadFiles), (''git_diff'', ReadFiles), (''git_show'', ReadFiles),
      (''write'', EditFiles), (''edit'', EditFiles), (''apply_patch'', EditFiles),
      (''kontrol-read'', ReadFiles), (''kontrol-grep'', ReadFiles), (''kontrol-glob'', ReadFiles),
      (''kontrol-write'', EditFiles), (''kontrol-edit'', EditFiles),
      (''bash'', RunCommands), (''kontrol-shell'', RunCommands), (''exec_command'', RunCommands),
      (''submit_for_review'', Resubmit), (''kontrol-submit-work-to-webui'', Resubmit),
      (''await_review_feedback'', AwaitFeedback), (''check_review_status'', AwaitFeedback),
      (''get_work_session'', AwaitFeedback), (''get_review_submission'', ReadFiles),
      (''await_work_session_events'', AwaitFeedback), (''cancel'', CancelAction),
      (''cancel_work_session'', CancelAction)]"

definition ALWAYS_ALLOWED_ACTION_CLASSES :: "action_class list" where
  "ALWAYS_ALLOWED_ACTION_CLASSES = [AwaitFeedback, CancelAction]"

definition TERMINAL_STATUSES :: "work_session_status list" where
  "TERMINAL_STATUSES = [Approved, Rejected, Cancelled, Failed, FailedProtocol]"

fun action_class_name :: "action_class \<Rightarrow> string" where
  "action_class_name ReadFiles = ''read_files''"
| "action_class_name EditFiles = ''edit_files''"
| "action_class_name RunCommands = ''run_commands''"
| "action_class_name Resubmit = ''resubmit''"
| "action_class_name AwaitFeedback = ''await_feedback''"
| "action_class_name CancelAction = ''cancel''"

record execution_policy =
  ep_executionMode :: "string option"
  ep_workspaceAccess :: "string option"
  ep_mutate :: "bool option"
  ep_allowedTools :: "string list option"
  ep_allowedOutputs :: "string option list option"

record guarded_session =
  gs_status :: work_session_status
  gs_completionPolicy :: completion_policy
  gs_latestFeedback :: "string option option"

record action_input =
  ai_workSessionId :: string
  ai_tool :: string
  ai_path :: "string option"
  ai_policy :: "execution_policy option"

datatype denial =
    UnknownWorkSession
  | CancellingFenced
  | ReadOnlyPolicyDenies string
  | BoundedWriteMalformed
  | BoundedWriteDeniesPath "string option"
  | BoundedWriteDeniesTool string
  | Unclassified string
  | TerminalSession work_session_status
  | UnderReview work_session_status
  | NoFeedback work_session_status
  | NotPermittedByDefault action_class
  | NotInAllowedActions action_class "string list"

datatype decision = Permit | Refuse denial

definition scheduledReadOnlyDecision :: "execution_policy option \<Rightarrow> string \<Rightarrow> decision" where
  "scheduledReadOnlyDecision policy tool =
     (case policy of
        None \<Rightarrow> Permit
      | Some p \<Rightarrow>
          if ep_workspaceAccess p \<noteq> Some ''read_only'' \<or> ep_mutate p \<noteq> Some False then Permit
          else if TOOL_TO_ACTION_CLASS tool = Some ReadFiles then Permit
          else if tool \<in> set (coalesce (ep_allowedTools p) []) then Permit
          else Refuse (ReadOnlyPolicyDenies tool))"

definition scheduledBoundedWriteDecision :: "execution_policy option \<Rightarrow> string \<Rightarrow> string option \<Rightarrow> decision" where
  "scheduledBoundedWriteDecision policy tool path =
     (case policy of
        None \<Rightarrow> Permit
      | Some p \<Rightarrow>
          if ep_executionMode p \<noteq> Some ''bounded_file_write'' then Permit
          else if ep_workspaceAccess p \<noteq> Some ''staged_write'' \<or> ep_mutate p \<noteq> Some True
          then Refuse BoundedWriteMalformed
          else if tool = ''staged_file_write''
          then (if path \<noteq> None \<and> path \<in> set (coalesce (ep_allowedOutputs p) []) then Permit
                else Refuse (BoundedWriteDeniesPath path))
          else if TOOL_TO_ACTION_CLASS tool = Some ReadFiles then Permit
          else if tool \<in> {''submit_for_review'', ''await_review_feedback'', ''check_review_status''} then Permit
          else Refuse (BoundedWriteDeniesTool tool))"

definition authorizeWorkSessionAction ::
  "(string \<Rightarrow> string list option) \<Rightarrow> (string \<rightharpoonup> guarded_session) \<Rightarrow> action_input \<Rightarrow> decision" where
  "authorizeWorkSessionAction json_parse sessions input =
     (case sessions (ai_workSessionId input) of
        None \<Rightarrow> Refuse UnknownWorkSession
      | Some session \<Rightarrow>
          (let tool = ai_tool input; actionClass = TOOL_TO_ACTION_CLASS tool; status = gs_status session
           in if status = Cancelling
              then (if actionClass = Some AwaitFeedback \<or> actionClass = Some CancelAction then Permit
                    else Refuse CancellingFenced)
              else case scheduledReadOnlyDecision (ai_policy input) tool of
                     Refuse d \<Rightarrow> Refuse d
                   | Permit \<Rightarrow>
                       (case scheduledBoundedWriteDecision (ai_policy input) tool (ai_path input) of
                          Refuse d \<Rightarrow> Refuse d
                        | Permit \<Rightarrow>
                            (case actionClass of
                               None \<Rightarrow>
                                 if gs_completionPolicy session = WebuiApprovalRequired
                                 then Refuse (Unclassified tool) else Permit
                             | Some cls \<Rightarrow>
                                 if cls \<in> set ALWAYS_ALLOWED_ACTION_CLASSES then Permit
                                 else if status \<in> set TERMINAL_STATUSES then Refuse (TerminalSession status)
                                 else if status \<in> {AwaitingReview, InReview, ReviewInProgress}
                                 then (if cls = ReadFiles then Permit else Refuse (UnderReview status))
                                 else if status \<noteq> ChangesRequested \<and> status \<noteq> Resuming then Permit
                                 else case gs_latestFeedback session of
                                        None \<Rightarrow>
                                          if gs_completionPolicy session = WebuiApprovalRequired
                                          then Refuse (NoFeedback status) else Permit
                                      | Some allowedNextActionsJson \<Rightarrow>
                                          (let allowed = (if truthy allowedNextActionsJson
                                                          then coalesce (json_parse (the allowedNextActionsJson)) []
                                                          else [])
                                           in if allowed = []
                                              then (if cls = EditFiles \<or> cls = RunCommands
                                                    then Refuse (NotPermittedByDefault cls) else Permit)
                                              else if action_class_name cls \<notin> set allowed
                                              then Refuse (NotInAllowedActions cls allowed)
                                              else Permit)))))"

section \<open>Properties of the guard\<close>

lemmas guard_defs = authorizeWorkSessionAction_def Let_def ALWAYS_ALLOWED_ACTION_CLASSES_def TERMINAL_STATUSES_def

lemma permitted_session:
  assumes "authorizeWorkSessionAction jp sessions input = Permit"
  obtains s where "sessions (ai_workSessionId input) = Some s"
  using assms by (cases "sessions (ai_workSessionId input)") (auto simp: guard_defs)

lemma permitted_policies:
  assumes "authorizeWorkSessionAction jp sessions input = Permit"
    and "sessions (ai_workSessionId input) = Some s" "gs_status s \<noteq> Cancelling"
  shows "scheduledReadOnlyDecision (ai_policy input) (ai_tool input) = Permit"
    and "scheduledBoundedWriteDecision (ai_policy input) (ai_tool input) (ai_path input) = Permit"
  using assms by (auto simp: authorizeWorkSessionAction_def Let_def split: decision.splits)

lemma permitted_mutation:
  assumes "authorizeWorkSessionAction jp sessions input = Permit"
    and s: "sessions (ai_workSessionId input) = Some s"
    and cls: "TOOL_TO_ACTION_CLASS (ai_tool input) = Some cls" "cls \<in> {EditFiles, RunCommands}"
  shows "gs_status s \<in> {InProgress, Drafting, Stale, ChangesRequested, Resuming}
    \<and> (gs_status s \<in> {ChangesRequested, Resuming} \<longrightarrow>
        (case gs_latestFeedback s of
           None \<Rightarrow> gs_completionPolicy s = AgentCompletion
         | Some js \<Rightarrow> \<exists>j acts. js = Some j \<and> jp j = Some acts \<and> action_class_name cls \<in> set acts))"
proof -
  have nc: "gs_status s \<noteq> Cancelling"
    using assms by (auto simp: guard_defs)
  note pol = permitted_policies [OF assms(1) s nc]
  have "gs_status s \<in> {InProgress, Drafting, Stale, ChangesRequested, Resuming}"
    using assms nc pol by (cases "gs_status s") (auto simp: guard_defs)
  moreover have "case gs_latestFeedback s of
           None \<Rightarrow> gs_completionPolicy s = AgentCompletion
         | Some js \<Rightarrow> \<exists>j acts. js = Some j \<and> jp j = Some acts \<and> action_class_name cls \<in> set acts"
    if st: "gs_status s \<in> {ChangesRequested, Resuming}"
  proof (cases "gs_latestFeedback s")
    case None
    then show ?thesis using assms nc pol st
      by (cases "gs_completionPolicy s") (auto simp: guard_defs split: if_splits)
  next
    case (Some js)
    let ?allowed = "if truthy js then coalesce (jp (the js)) [] else []"
    have "?allowed \<noteq> [] \<and> action_class_name cls \<in> set ?allowed"
      using assms nc pol st Some by (auto simp: guard_defs split: if_splits)
    then show ?thesis using Some by (cases js; cases "jp (the js)") (auto split: if_splits)
  qed
  ultimately show ?thesis by blast
qed

text \<open>
  C29. No edit and no command escapes the review fence: a tool of the edit or command class is let
  through only while the session is being worked on, never once it is cancelling, terminal or
  under review, and after a request for changes only if the reviewer's list of next actions,
  read without error, names its class (or, without any feedback, if the session does not need
  human approval).
\<close>

theorem guard_fences_mutation:
  assumes "authorizeWorkSessionAction jp sessions input = Permit"
    and "TOOL_TO_ACTION_CLASS (ai_tool input) = Some cls" and "cls \<in> {EditFiles, RunCommands}"
  shows "\<exists>s. sessions (ai_workSessionId input) = Some s
    \<and> gs_status s \<in> {InProgress, Drafting, Stale, ChangesRequested, Resuming}
    \<and> (gs_status s \<in> {ChangesRequested, Resuming} \<longrightarrow>
        (case gs_latestFeedback s of
           None \<Rightarrow> gs_completionPolicy s = AgentCompletion
         | Some js \<Rightarrow> \<exists>j acts. js = Some j \<and> jp j = Some acts \<and> action_class_name cls \<in> set acts))"
proof -
  obtain s where s: "sessions (ai_workSessionId input) = Some s" using permitted_session [OF assms(1)] .
  from permitted_mutation [OF assms(1) s assms(2,3)] s show ?thesis by blast
qed

definition demo_session :: guarded_session where
  "demo_session = \<lparr>gs_status = ChangesRequested, gs_completionPolicy = WebuiApprovalRequired,
     gs_latestFeedback = Some (Some ''[edit_files]'')\<rparr>"

theorem guard_fences_mutation_witness:
  "authorizeWorkSessionAction (\<lambda>j. Some [''edit_files'']) [''s'' \<mapsto> demo_session]
     \<lparr>ai_workSessionId = ''s'', ai_tool = ''edit'', ai_path = None, ai_policy = None\<rparr> = Permit
   \<and> (\<exists>s. [''s'' \<mapsto> demo_session] ''s'' = Some s \<and> gs_status s \<in> {InProgress, Drafting, Stale, ChangesRequested, Resuming})"
proof -
  let ?i = "\<lparr>ai_workSessionId = ''s'', ai_tool = ''edit'', ai_path = None, ai_policy = None\<rparr>"
  have ok: "authorizeWorkSessionAction (\<lambda>j. Some [''edit_files'']) [''s'' \<mapsto> demo_session] ?i = Permit"
    by (simp add: guard_defs demo_session_def TOOL_TO_ACTION_CLASS_def scheduledReadOnlyDecision_def
        scheduledBoundedWriteDecision_def)
  from guard_fences_mutation [OF ok, of EditFiles] ok show ?thesis by (auto simp: TOOL_TO_ACTION_CLASS_def)
qed

text \<open>
  A scheduled run stays inside its policy: under a read-only policy a running session may only
  use reading tools and the tools the policy lists; under a bounded-write policy it may only
  read, talk to the reviewer, and stage writes to paths the policy declares. Shell, edit and
  patch tools are refused under both, whatever the status, unless a read-only policy lists them.
\<close>

theorem scheduled_policy_enforced:
  assumes "authorizeWorkSessionAction jp sessions input = Permit"
    and "sessions (ai_workSessionId input) = Some s" and "gs_status s \<noteq> Cancelling"
    and "ai_policy input = Some p"
  shows "(ep_workspaceAccess p = Some ''read_only'' \<and> ep_mutate p = Some False \<longrightarrow>
       TOOL_TO_ACTION_CLASS (ai_tool input) = Some ReadFiles
       \<or> (\<exists>tools. ep_allowedTools p = Some tools \<and> ai_tool input \<in> set tools))
    \<and> (ep_executionMode p = Some ''bounded_file_write'' \<longrightarrow>
       ep_workspaceAccess p = Some ''staged_write'' \<and> ep_mutate p = Some True
       \<and> (ai_tool input = ''staged_file_write''
            \<and> (\<exists>path outs. ai_path input = Some path \<and> ep_allowedOutputs p = Some outs \<and> Some path \<in> set outs)
          \<or> TOOL_TO_ACTION_CLASS (ai_tool input) = Some ReadFiles
          \<or> ai_tool input \<in> {''submit_for_review'', ''await_review_feedback'', ''check_review_status''}))"
proof (intro conjI impI)
  note pol = permitted_policies [OF assms(1-3)]
  assume "ep_workspaceAccess p = Some ''read_only'' \<and> ep_mutate p = Some False"
  then show "TOOL_TO_ACTION_CLASS (ai_tool input) = Some ReadFiles
       \<or> (\<exists>tools. ep_allowedTools p = Some tools \<and> ai_tool input \<in> set tools)"
    using pol(1) assms(4) by (cases "ep_allowedTools p") (auto simp: scheduledReadOnlyDecision_def split: if_splits)
next
  note pol = permitted_policies [OF assms(1-3)]
  assume b: "ep_executionMode p = Some ''bounded_file_write''"
  then show "ep_workspaceAccess p = Some ''staged_write''" "ep_mutate p = Some True"
    using pol(2) assms(4) by (auto simp: scheduledBoundedWriteDecision_def split: if_splits)
  show "ai_tool input = ''staged_file_write''
            \<and> (\<exists>path outs. ai_path input = Some path \<and> ep_allowedOutputs p = Some outs \<and> Some path \<in> set outs)
          \<or> TOOL_TO_ACTION_CLASS (ai_tool input) = Some ReadFiles
          \<or> ai_tool input \<in> {''submit_for_review'', ''await_review_feedback'', ''check_review_status''}"
    using b pol(2) assms(4)
    by (cases "ep_allowedOutputs p"; cases "ai_path input")
      (auto simp: scheduledBoundedWriteDecision_def split: if_splits)
qed

definition audit_policy :: execution_policy where
  "audit_policy = \<lparr>ep_executionMode = None, ep_workspaceAccess = Some ''read_only'', ep_mutate = Some False,
     ep_allowedTools = None, ep_allowedOutputs = None\<rparr>"

theorem scheduled_policy_enforced_witness:
  "authorizeWorkSessionAction (\<lambda>j. None) [''s'' \<mapsto> demo_session\<lparr>gs_status := InProgress\<rparr>]
     \<lparr>ai_workSessionId = ''s'', ai_tool = ''grep'', ai_path = None, ai_policy = Some audit_policy\<rparr> = Permit
   \<and> TOOL_TO_ACTION_CLASS ''grep'' = Some ReadFiles"
proof -
  let ?i = "\<lparr>ai_workSessionId = ''s'', ai_tool = ''grep'', ai_path = None, ai_policy = Some audit_policy\<rparr>"
  let ?ss = "[''s'' \<mapsto> demo_session\<lparr>gs_status := InProgress\<rparr>]"
  have ok: "authorizeWorkSessionAction (\<lambda>j. None) ?ss ?i = Permit"
    by (simp add: guard_defs demo_session_def TOOL_TO_ACTION_CLASS_def scheduledReadOnlyDecision_def
        scheduledBoundedWriteDecision_def audit_policy_def)
  from scheduled_policy_enforced [OF ok, of "demo_session\<lparr>gs_status := InProgress\<rparr>" audit_policy] ok
  show ?thesis by (auto simp: audit_policy_def)
qed

text \<open>
  The exit of a worker is not available under a read-only policy: cancelling is refused there
  although its class is among those that are always to remain available.
\<close>

lemma read_only_audit_refuses_cancel:
  "authorizeWorkSessionAction jp [''s'' \<mapsto> demo_session\<lparr>gs_status := InProgress\<rparr>]
     \<lparr>ai_workSessionId = ''s'', ai_tool = ''cancel'', ai_path = None, ai_policy = Some audit_policy\<rparr>
   = Refuse (ReadOnlyPolicyDenies ''cancel'')"
  by (simp add: guard_defs demo_session_def TOOL_TO_ACTION_CLASS_def scheduledReadOnlyDecision_def
      audit_policy_def)

section \<open>Properties of the reconciliation\<close>

definition reconcile_rows :: "session_row table \<Rightarrow> session_row list" where
  "reconcile_rows t = order_asc sr_id t"

definition examined_page ::
  "int \<Rightarrow> session_row table \<Rightarrow> string option \<Rightarrow> session_row list \<times> string option" where
  "examined_page limit t after =
     (let rows = session_page after limit t
      in (rows, if length rows = reconcile_limit limit then map_option sr_id (last_elem rows) else None))"

lemma reconcile_limit_pos: "0 < reconcile_limit limit"
  by (simp add: reconcile_limit_def)

lemma session_page_prefix:
  "session_page after limit t = take (reconcile_limit limit) (filter (after_cursor (<) sr_id after) (reconcile_rows t))"
proof -
  have "filter (\<lambda>r. case after of None \<Rightarrow> True | Some a \<Rightarrow> a < sr_id r) t = filter (after_cursor (<) sr_id after) t"
    by (simp add: after_cursor_def [abs_def])
  then show ?thesis by (simp add: session_page_def reconcile_rows_def filter_order_asc)
qed

interpretation reconcile_pager: keyset_pager "(<)" sr_id reconcile_rows "examined_page limit"
  "\<lambda>t. distinct (map sr_id t)" for limit
proof (unfold_locales, goal_cases)
  case (1 x y z)
  then show ?case by (rule less_trans)
next
  case (2 x)
  then show ?case by simp
next
  case (3 s)
  then show ?case unfolding reconcile_rows_def by (rule strict_sorted_order_asc)
next
  case (4 s c p)
  let ?rows = "filter (after_cursor (<) sr_id c) (reconcile_rows s)"
  have p: "p = take (reconcile_limit limit) ?rows"
    using 4 by (simp add: examined_page_def session_page_prefix Let_def)
  have "length p \<noteq> reconcile_limit limit"
    using 4 reconcile_limit_pos [of limit] p
    by (auto simp: examined_page_def session_page_prefix Let_def last_elem_def split: if_splits)
  then have "length ?rows < reconcile_limit limit" unfolding p by (simp add: min_def split: if_splits)
  then show ?case using p by simp
next
  case (5 s c p k)
  let ?rows = "filter (after_cursor (<) sr_id c) (reconcile_rows s)"
  have "p = take (reconcile_limit limit) ?rows" "last_elem p \<noteq> None" "k = sr_id (last p)"
    using 5 by (auto simp: examined_page_def session_page_prefix Let_def last_elem_def split: if_splits)
  then show ?case
    by (intro conjI exI [of _ "drop (reconcile_limit limit) ?rows"]) (auto simp: last_elem_def split: if_splits)
qed

lemma reconcile_updates_lookup:
  assumes "distinct (map sr_id t)" "set rows \<subseteq> set t" "r \<in> set t"
  shows "map_of (reconcile_updates clock runs rows) (sr_id r) =
    (if r \<in> set rows \<and> sr_runtimeState r \<noteq> Some (classify_row clock runs r)
     then Some (classify_row clock runs r) else None)"
  using assms(2)
proof (induction rows)
  case Nil
  then show ?case by (simp add: reconcile_updates_def)
next
  case (Cons x rows)
  have "sr_id x = sr_id r \<longleftrightarrow> x = r"
    using key_unique [OF assms(1), of x r] Cons.prems assms(3) by auto
  with Cons show ?case by (auto simp: reconcile_updates_def)
qed

lemma reconcile_row:
  fixes after :: "string option" and limit :: int
  assumes "distinct (map sr_id t)" "r \<in> set t"
  defines "rows \<equiv> session_page after limit t"
  shows "(if sr_id r \<in> set (map fst (reconcile_updates clock runs rows))
          then r\<lparr>sr_runtimeState := (case map_of (reconcile_updates clock runs rows) (sr_id r) of
                                 None \<Rightarrow> sr_runtimeState r | Some st \<Rightarrow> Some st),
                 sr_runtimeClassifiedAt := Some now\<rparr> else r)
    = (if r \<in> set rows \<and> sr_runtimeState r \<noteq> Some (classify_row clock runs r)
       then r\<lparr>sr_runtimeState := Some (classify_row clock runs r), sr_runtimeClassifiedAt := Some now\<rparr> else r)"
proof -
  have "set rows \<subseteq> set t" unfolding rows_def session_page_def by (auto dest: in_set_takeD)
  note l = reconcile_updates_lookup [OF assms(1) this assms(2), of clock runs]
  have "sr_id r \<in> set (map fst (reconcile_updates clock runs rows))
      \<longleftrightarrow> map_of (reconcile_updates clock runs rows) (sr_id r) \<noteq> None"
    by (simp add: map_of_eq_None_iff)
  then show ?thesis using l by (auto split: if_splits)
qed

lemma reconcile_table:
  assumes "distinct (map sr_id t)"
  shows "fst (reconcileRuntimeStates clock now runs after limit t) =
    map (\<lambda>r. if r \<in> set (session_page after limit t) \<and> sr_runtimeState r \<noteq> Some (classify_row clock runs r)
             then r\<lparr>sr_runtimeState := Some (classify_row clock runs r), sr_runtimeClassifiedAt := Some now\<rparr>
             else r) t"
proof (cases "reconcile_updates clock runs (session_page after limit t) = []")
  case True
  then have "\<forall>r \<in> set (session_page after limit t). sr_runtimeState r = Some (classify_row clock runs r)"
    by (simp add: reconcile_updates_def filter_empty_conv)
  with True show ?thesis
    by (auto simp: reconcileRuntimeStates_def Let_def intro!: map_idI [symmetric])
next
  case False
  then have "fst (reconcileRuntimeStates clock now runs after limit t) =
      map (\<lambda>r. if sr_id r \<in> set (map fst (reconcile_updates clock runs (session_page after limit t)))
          then r\<lparr>sr_runtimeState := (case map_of (reconcile_updates clock runs (session_page after limit t)) (sr_id r) of
                                 None \<Rightarrow> sr_runtimeState r | Some st \<Rightarrow> Some st),
                 sr_runtimeClassifiedAt := Some now\<rparr> else r) t"
    by (simp add: reconcileRuntimeStates_def Let_def sql_update_def)
  also have "\<dots> = map (\<lambda>r. if r \<in> set (session_page after limit t) \<and> sr_runtimeState r \<noteq> Some (classify_row clock runs r)
             then r\<lparr>sr_runtimeState := Some (classify_row clock runs r), sr_runtimeClassifiedAt := Some now\<rparr>
             else r) t"
    by (rule map_cong [OF refl]) (rule reconcile_row [OF assms])
  finally show ?thesis .
qed

text \<open>
  One reconciliation page leaves every session it examined with the state the classifier gives
  it, writes no other session and no other column than the state and its time, never examines
  more than the bound, and following its cursor from page to page examines every session exactly
  once, in id order.
\<close>

theorem reconcile_exact:
  assumes "distinct (map sr_id t)" and "length t < n"
  shows "length (session_page after limit t) \<le> 500
    \<and> (\<forall>r \<in> set (session_page after limit t). \<exists>r' \<in> set (fst (reconcileRuntimeStates clock now runs after limit t)).
          sr_id r' = sr_id r \<and> sr_runtimeState r' = Some (classify_row clock runs r))
    \<and> fst (reconcileRuntimeStates clock now runs after limit t) =
        map (\<lambda>r. if r \<in> set (session_page after limit t) \<and> sr_runtimeState r \<noteq> Some (classify_row clock runs r)
             then r\<lparr>sr_runtimeState := Some (classify_row clock runs r), sr_runtimeClassifiedAt := Some now\<rparr>
             else r) t
    \<and> walk (examined_page limit t) n None = order_asc sr_id t"
proof (intro conjI)
  show "length (session_page after limit t) \<le> 500"
    by (simp add: session_page_def reconcile_limit_def)
  show "\<forall>r \<in> set (session_page after limit t). \<exists>r' \<in> set (fst (reconcileRuntimeStates clock now runs after limit t)).
          sr_id r' = sr_id r \<and> sr_runtimeState r' = Some (classify_row clock runs r)"
  proof
    fix r assume r: "r \<in> set (session_page after limit t)"
    then have "r \<in> set t" by (auto simp: session_page_def dest: in_set_takeD)
    then show "\<exists>r' \<in> set (fst (reconcileRuntimeStates clock now runs after limit t)).
          sr_id r' = sr_id r \<and> sr_runtimeState r' = Some (classify_row clock runs r)"
      unfolding reconcile_table [OF assms(1)] set_map using r
      by (intro bexI [OF _ imageI [where x = r]]) auto
  qed
  show "walk (examined_page limit t) n None = order_asc sr_id t"
    using reconcile_pager.walk_all [OF assms(1), of n] assms(2)
    by (simp add: reconcile_rows_def order_asc_def)
qed (rule reconcile_table [OF assms(1)])

definition demo_sessions :: "session_row table" where
  "demo_sessions = map (\<lambda>(i, st). \<lparr>sr_id = i, sr_status = st, sr_updatedAt = 0, sr_runtimeState = None,
      sr_runtimeClassifiedAt = None\<rparr>) [(''b'', Approved), (''a'', InProgress), (''c'', AwaitingReview)]"

theorem reconcile_exact_witness:
  "map sr_runtimeState (fst (reconcileRuntimeStates (5, 6, 7) 8 [] None 2 demo_sessions))
     = [Some RArchived, Some RDetached, None]
   \<and> map sr_id (walk (examined_page 2 demo_sessions) 4 None) = [''a'', ''b'', ''c'']"
proof -
  have "distinct (map sr_id demo_sessions)" "length demo_sessions < 4" by code_simp+
  note ex = reconcile_exact [OF this, of None 2 "(5, 6, 7)" 8 "[]"]
  have "map sr_runtimeState (fst (reconcileRuntimeStates (5, 6, 7) 8 [] None 2 demo_sessions))
     = [Some RArchived, Some RDetached, None]" by code_simp
  moreover have "map sr_id (order_asc sr_id demo_sessions) = [''a'', ''b'', ''c'']" by code_simp
  ultimately show ?thesis using ex by simp
qed

end
