(* ===== verification/Workspace_Leases.thy ===== *)
theory Workspace_Leases
  imports Kontrol_Prelude
begin

text \<open>
  The checkout leases of src/src/work-sessions/lease-store.ts: who may modify a checkout. The state
  is the table \<open>workspace_leases\<close>, whose primary key is the canonical root. A lease carries a
  nonce, the proof of ownership; ordinary acquisition by the same session renews the lease and
  keeps the nonce, a takeover replaces it. The clock, \<open>randomUUID\<close> and the process id are
  arguments.
\<close>

section \<open>State\<close>

datatype lease_kind = Modify | PeerJob

record lease =
  le_canonicalRoot :: string
  le_workspaceSessionId :: string
  le_workSessionId :: string
  le_leaseKind :: lease_kind
  le_ownerInstanceId :: string
  le_leaseNonce :: string
  le_acquiredAt :: iso_time
  le_heartbeatAt :: iso_time
  le_expiresAt :: iso_time

record lease_request =
  lq_canonicalRoot :: string
  lq_workspaceSessionId :: string
  lq_workSessionId :: string
  lq_ownerInstanceId :: "string option"
  lq_ttlMs :: "int option"
  lq_takeover :: bool
  lq_leaseKind :: "lease_kind option"

datatype lease_result =
    Acquired lease
  | LeaseConflict string string iso_time
  | AcquisitionFailed

type_synonym leases = "lease table"

section \<open>Operations\<close>

definition default_ttl :: int where
  "default_ttl = 60 * 60 * 1000"

definition conflict_with :: "lease \<Rightarrow> lease_result" where
  "conflict_with existing = LeaseConflict (le_workSessionId existing) (le_workspaceSessionId existing) (le_expiresAt existing)"

definition lease_blocks :: "lease_request \<Rightarrow> string \<Rightarrow> lease \<Rightarrow> bool" where
  "lease_blocks input ownerInstanceId existing =
     (let requested = coalesce (lq_leaseKind input) Modify
      in (if le_leaseKind existing = PeerJob
          then requested \<noteq> PeerJob
               \<or> le_workSessionId existing \<noteq> lq_workSessionId input
               \<or> le_workspaceSessionId existing \<noteq> lq_workspaceSessionId input
               \<or> le_ownerInstanceId existing \<noteq> ownerInstanceId
          else requested = PeerJob)
         \<or> le_workSessionId existing \<noteq> lq_workSessionId input)"

text \<open>The columns an accepted acquisition writes on the lease that is already there.\<close>

definition renewed_lease :: "iso_time \<Rightarrow> string \<Rightarrow> string \<Rightarrow> lease_request \<Rightarrow> lease \<Rightarrow> lease" where
  "renewed_lease now ownerInstanceId uuid input l =
     (let l1 = l\<lparr>le_heartbeatAt := now, le_expiresAt := now + coalesce (lq_ttlMs input) default_ttl\<rparr>;
          l2 = (if coalesce (lq_leaseKind input) Modify = PeerJob
                then l1\<lparr>le_ownerInstanceId := ownerInstanceId, le_leaseKind := PeerJob\<rparr> else l1)
      in if lq_takeover input
         then l2\<lparr>le_ownerInstanceId := ownerInstanceId, le_leaseNonce := uuid\<rparr> else l2)"

definition acquireWorkspaceLease ::
  "iso_time \<Rightarrow> string \<Rightarrow> string \<Rightarrow> lease_request \<Rightarrow> leases \<Rightarrow> leases \<times> lease_result" where
  "acquireWorkspaceLease now pid uuid input t =
     (let expiresAt = now + coalesce (lq_ttlMs input) default_ttl;
          ownerInstanceId = coalesce (lq_ownerInstanceId input) pid;
          requested = coalesce (lq_leaseKind input) Modify;
          root = lq_canonicalRoot input;
          t1 = sql_delete (\<lambda>l. le_expiresAt l < now) t;
          existing = find (\<lambda>l. le_canonicalRoot l = root) t1
      in case existing of
           Some ex \<Rightarrow>
             if lease_blocks input ownerInstanceId ex then (t1, conflict_with ex)
             else (let t2 = sql_update (\<lambda>l. le_canonicalRoot l = root)
                              (renewed_lease now ownerInstanceId uuid input) t1
                   in (t2, case find (\<lambda>l. le_canonicalRoot l = root) t2 of
                             Some l \<Rightarrow> Acquired l | None \<Rightarrow> AcquisitionFailed))
         | None \<Rightarrow>
             (let l = \<lparr>le_canonicalRoot = root, le_workspaceSessionId = lq_workspaceSessionId input,
                       le_workSessionId = lq_workSessionId input, le_leaseKind = requested,
                       le_ownerInstanceId = ownerInstanceId, le_leaseNonce = uuid, le_acquiredAt = now,
                       le_heartbeatAt = now, le_expiresAt = expiresAt\<rparr>;
                  t2 = t1 @ [l]
              in (t2, case find (\<lambda>l. le_canonicalRoot l = root) t2 of
                        Some l \<Rightarrow> Acquired l | None \<Rightarrow> AcquisitionFailed)))"

definition restore_matches :: "lease \<Rightarrow> string \<Rightarrow> lease \<Rightarrow> bool" where
  "restore_matches previous expectedLeaseNonce l \<longleftrightarrow>
     le_canonicalRoot l = le_canonicalRoot previous \<and> le_workSessionId l = le_workSessionId previous
     \<and> le_leaseNonce l = expectedLeaseNonce"

definition restoreWorkspaceLeaseForSession :: "lease \<Rightarrow> string \<Rightarrow> leases \<Rightarrow> leases \<times> bool" where
  "restoreWorkspaceLeaseForSession previous expectedLeaseNonce t =
     (if expectedLeaseNonce = [] \<or> le_leaseNonce previous = [] then (t, False)
      else (sql_update (restore_matches previous expectedLeaseNonce)
              (\<lambda>l. l\<lparr>le_ownerInstanceId := le_ownerInstanceId previous, le_leaseNonce := le_leaseNonce previous,
                     le_acquiredAt := le_acquiredAt previous, le_heartbeatAt := le_heartbeatAt previous,
                     le_expiresAt := le_expiresAt previous\<rparr>) t,
            sql_changes (restore_matches previous expectedLeaseNonce) t > 0))"

definition releaseWorkspaceLeasesForSession :: "string \<Rightarrow> leases \<Rightarrow> leases \<times> nat" where
  "releaseWorkspaceLeasesForSession workSessionId t =
     (sql_delete (\<lambda>l. le_workSessionId l = workSessionId) t, sql_changes (\<lambda>l. le_workSessionId l = workSessionId) t)"

definition releaseWorkspaceLeaseForSession :: "string \<Rightarrow> string \<Rightarrow> leases \<Rightarrow> leases \<times> bool" where
  "releaseWorkspaceLeaseForSession workSessionId leaseNonce t =
     (if leaseNonce = [] then (t, False)
      else (sql_delete (\<lambda>l. le_workSessionId l = workSessionId \<and> le_leaseNonce l = leaseNonce) t,
            sql_changes (\<lambda>l. le_workSessionId l = workSessionId \<and> le_leaseNonce l = leaseNonce) t > 0))"

definition renewWorkspaceLeaseForSession ::
  "iso_time \<Rightarrow> string \<Rightarrow> int option \<Rightarrow> string \<Rightarrow> leases \<Rightarrow> leases \<times> nat" where
  "renewWorkspaceLeaseForSession now workSessionId ttlMs leaseNonce t =
     (if leaseNonce = [] then (t, 0)
      else let P = (\<lambda>l. le_workSessionId l = workSessionId \<and> now \<le> le_expiresAt l \<and> le_leaseNonce l = leaseNonce)
           in (sql_update P (\<lambda>l. l\<lparr>le_heartbeatAt := now, le_expiresAt := now + coalesce ttlMs default_ttl\<rparr>) t,
               sql_changes P t))"

definition getActiveWorkspaceLease :: "iso_time \<Rightarrow> string \<Rightarrow> leases \<Rightarrow> lease option" where
  "getActiveWorkspaceLease now canonicalRoot t =
     find (\<lambda>l. le_canonicalRoot l = canonicalRoot \<and> now \<le> le_expiresAt l) t"

definition getWorkspaceLeaseForSession :: "string \<Rightarrow> leases \<Rightarrow> lease option" where
  "getWorkspaceLeaseForSession workSessionId t = find (\<lambda>l. le_workSessionId l = workSessionId) t"

section \<open>One lease per checkout\<close>

inductive lease_step :: "leases \<Rightarrow> leases \<Rightarrow> bool" where
  ls_acquire: "acquireWorkspaceLease now pid uuid input t = (t', res) \<Longrightarrow> lease_step t t'"
| ls_restore: "restoreWorkspaceLeaseForSession l n t = (t', b) \<Longrightarrow> lease_step t t'"
| ls_releaseAll: "releaseWorkspaceLeasesForSession i t = (t', k) \<Longrightarrow> lease_step t t'"
| ls_release: "releaseWorkspaceLeaseForSession i n t = (t', b) \<Longrightarrow> lease_step t t'"
| ls_renew: "renewWorkspaceLeaseForSession now i ttl n t = (t', k) \<Longrightarrow> lease_step t t'"

definition leases_ok :: "leases \<Rightarrow> bool" where
  "leases_ok t \<longleftrightarrow> distinct (map le_canonicalRoot t)"

lemma renewed_lease_fields:
  "le_canonicalRoot (renewed_lease now owner uuid input l) = le_canonicalRoot l"
  "le_workSessionId (renewed_lease now owner uuid input l) = le_workSessionId l"
  "le_expiresAt (renewed_lease now owner uuid input l) = now + coalesce (lq_ttlMs input) default_ttl"
  "le_leaseNonce (renewed_lease now owner uuid input l) = (if lq_takeover input then uuid else le_leaseNonce l)"
  by (simp_all add: renewed_lease_def Let_def)

lemma acquire_cases:
  assumes "leases_ok t" "acquireWorkspaceLease now pid uuid input t = (t', res)"
  defines "t1 \<equiv> sql_delete (\<lambda>l. le_expiresAt l < now) t"
    and "owner \<equiv> coalesce (lq_ownerInstanceId input) pid"
  obtains (blocked) ex where "ex \<in> set t1" "le_canonicalRoot ex = lq_canonicalRoot input"
      "lease_blocks input owner ex" "t' = t1" "res = conflict_with ex"
  | (renewed) ex l where "ex \<in> set t1" "le_canonicalRoot ex = lq_canonicalRoot input" "\<not> lease_blocks input owner ex"
      "t' = map (\<lambda>x. if x = ex then l else x) t1" "res = Acquired l"
      "le_canonicalRoot l = lq_canonicalRoot input" "le_workSessionId l = lq_workSessionId input"
      "le_expiresAt l = now + coalesce (lq_ttlMs input) default_ttl"
      "le_leaseNonce l = (if lq_takeover input then uuid else le_leaseNonce ex)"
  | (created) l where "\<forall>x \<in> set t1. le_canonicalRoot x \<noteq> lq_canonicalRoot input"
      "t' = t1 @ [l]" "res = Acquired l"
      "le_canonicalRoot l = lq_canonicalRoot input" "le_workSessionId l = lq_workSessionId input"
      "le_expiresAt l = now + coalesce (lq_ttlMs input) default_ttl" "le_leaseNonce l = uuid"
proof (cases "find (\<lambda>l. le_canonicalRoot l = lq_canonicalRoot input) t1")
  case None
  then have none: "\<forall>x \<in> set t1. le_canonicalRoot x \<noteq> lq_canonicalRoot input"
    by (simp add: find_None_iff_all)
  let ?l = "\<lparr>le_canonicalRoot = lq_canonicalRoot input, le_workspaceSessionId = lq_workspaceSessionId input,
                       le_workSessionId = lq_workSessionId input, le_leaseKind = coalesce (lq_leaseKind input) Modify,
                       le_ownerInstanceId = owner, le_leaseNonce = uuid, le_acquiredAt = now,
                       le_heartbeatAt = now, le_expiresAt = now + coalesce (lq_ttlMs input) default_ttl\<rparr>"
  have "find (\<lambda>l. le_canonicalRoot l = lq_canonicalRoot input) (t1 @ [?l]) = Some ?l"
    using none by (induction t1) auto
  then have "t' = t1 @ [?l]" "res = Acquired ?l"
    using assms(2) None by (auto simp: acquireWorkspaceLease_def Let_def t1_def owner_def)
  with created [of ?l] none show ?thesis by simp
next
  case (Some ex)
  then have ex: "ex \<in> set t1" "le_canonicalRoot ex = lq_canonicalRoot input" by (auto dest: find_Some_mem)
  have dist: "distinct (map le_canonicalRoot t1)"
    using assms(1) by (simp add: leases_ok_def t1_def distinct_sql_delete)
  show ?thesis
  proof (cases "lease_blocks input owner ex")
    case True
    then have "t' = t1" "res = conflict_with ex"
      using assms(2) Some by (auto simp: acquireWorkspaceLease_def Let_def t1_def owner_def)
    with blocked [OF ex True] show ?thesis by blast
  next
    case False
    let ?f = "renewed_lease now owner uuid input"
    note fields = renewed_lease_fields [of now owner uuid input ex]
    have t2: "sql_update (\<lambda>l. le_canonicalRoot l = lq_canonicalRoot input) ?f t1
        = map (\<lambda>x. if x = ex then ?f ex else x) t1"
      by (rule sql_update_one_row [OF dist ex(1)]) (simp_all add: ex(2))
    have "find (\<lambda>l. le_canonicalRoot l = lq_canonicalRoot input) (map (\<lambda>x. if x = ex then ?f ex else x) t1) = Some (?f ex)"
      using find_replaced_row [OF dist ex(1) fields(1)] unfolding ex(2) .
    then have "t' = map (\<lambda>x. if x = ex then ?f ex else x) t1" "res = Acquired (?f ex)"
      using assms(2) Some False t2
      by (auto simp: acquireWorkspaceLease_def Let_def t1_def owner_def)
    moreover have "le_workSessionId ex = lq_workSessionId input"
      using False by (auto simp: lease_blocks_def Let_def)
    ultimately show ?thesis using renewed [OF ex False] fields ex(2) by simp
  qed
qed

lemma leases_ok_step:
  assumes "leases_ok t" "lease_step t t'"
  shows "leases_ok t'"
  using assms(2,1)
proof (induction rule: lease_step.induct)
  case (ls_acquire now pid uuid input t t' res)
  have d: "distinct (map le_canonicalRoot (sql_delete (\<lambda>l. le_expiresAt l < now) t))"
    using ls_acquire.prems by (simp add: leases_ok_def distinct_sql_delete)
  from ls_acquire.prems ls_acquire.hyps show ?case
  proof (cases rule: acquire_cases)
    case (blocked ex)
    then show ?thesis using d by (simp add: leases_ok_def)
  next
    case (renewed ex l)
    have "map le_canonicalRoot t' = map le_canonicalRoot (sql_delete (\<lambda>l. le_expiresAt l < now) t)"
      unfolding renewed(4) using renewed(2,6) by (intro nth_equalityI) auto
    then show ?thesis using d by (simp add: leases_ok_def)
  next
    case (created l)
    then show ?thesis using d by (auto simp: leases_ok_def)
  qed
qed (auto simp: leases_ok_def restoreWorkspaceLeaseForSession_def releaseWorkspaceLeasesForSession_def
    releaseWorkspaceLeaseForSession_def renewWorkspaceLeaseForSession_def Let_def map_sql_update distinct_sql_delete
    split: if_splits)

interpretation lease_inv: store_invariant "\<lambda>t. t = []" lease_step leases_ok
  by unfold_locales (simp add: leases_ok_def, rule leases_ok_step)

section \<open>Properties\<close>

text \<open>
  C9. A checkout has one owner: in every reachable state an acquisition is refused, with the
  owner named, exactly when an unexpired lease of the checkout belongs to another session or is
  of a kind the request may not join; a refusal changes no unexpired lease. Otherwise the
  session holds the only lease of the checkout, and the unexpired leases of every other
  checkout are as before.
\<close>

theorem acquire_exclusive:
  assumes "reachable (\<lambda>t. t = []) lease_step t"
    and "acquireWorkspaceLease now pid uuid input t = (t', res)"
  shows "(\<exists>ex \<in> set t. le_canonicalRoot ex = lq_canonicalRoot input \<and> now \<le> le_expiresAt ex
            \<and> lease_blocks input (coalesce (lq_ownerInstanceId input) pid) ex
            \<and> res = conflict_with ex \<and> t' = filter (\<lambda>l. now \<le> le_expiresAt l) t)
    \<or> (\<not> (\<exists>ex \<in> set t. le_canonicalRoot ex = lq_canonicalRoot input \<and> now \<le> le_expiresAt ex
            \<and> lease_blocks input (coalesce (lq_ownerInstanceId input) pid) ex)
       \<and> (\<exists>l. res = Acquired l \<and> le_workSessionId l = lq_workSessionId input
            \<and> le_expiresAt l = now + coalesce (lq_ttlMs input) default_ttl
            \<and> {x \<in> set t'. le_canonicalRoot x = lq_canonicalRoot input} = {l}
            \<and> {x \<in> set t'. le_canonicalRoot x \<noteq> lq_canonicalRoot input}
               = {x \<in> set t. le_canonicalRoot x \<noteq> lq_canonicalRoot input \<and> now \<le> le_expiresAt x}))"
proof -
  have ok: "leases_ok t" using assms(1) by (rule lease_inv.inv_reachable)
  have live: "sql_delete (\<lambda>l. le_expiresAt l < now) t = filter (\<lambda>l. now \<le> le_expiresAt l) t"
    by (simp add: sql_delete_def not_less)
  from ok assms(2) show ?thesis
  proof (cases rule: acquire_cases)
    case (blocked ex)
    then show ?thesis unfolding live by auto
  next
    case (renewed ex l)
    have only: "x = ex" if "x \<in> set t" "le_canonicalRoot x = lq_canonicalRoot input" for x
      using key_unique [of le_canonicalRoot t x ex] ok that renewed(1,2) by (simp add: leases_ok_def)
    have mem: "set t' = insert l ({x \<in> set t. now \<le> le_expiresAt x} - {ex})"
      using renewed(1) unfolding renewed(4) live by auto
    have "{x \<in> set t'. le_canonicalRoot x = lq_canonicalRoot input} = {l}"
      unfolding mem using only renewed(6) by blast
    moreover have "{x \<in> set t'. le_canonicalRoot x \<noteq> lq_canonicalRoot input}
        = {x \<in> set t. le_canonicalRoot x \<noteq> lq_canonicalRoot input \<and> now \<le> le_expiresAt x}"
      unfolding mem using renewed(2,6) by blast
    ultimately show ?thesis using renewed only by blast
  next
    case (created l)
    have "set t' = insert l {x \<in> set t. now \<le> le_expiresAt x}" unfolding created(2) live by auto
    moreover have "\<forall>x \<in> set t. now \<le> le_expiresAt x \<longrightarrow> le_canonicalRoot x \<noteq> lq_canonicalRoot input"
      using created(1) unfolding live by auto
    ultimately show ?thesis using created(3-6) by (intro disjI2 conjI exI [of _ l]) auto
  qed
qed

definition demo_lease_request :: "string \<Rightarrow> lease_request" where
  "demo_lease_request s = \<lparr>lq_canonicalRoot = ''/repo'', lq_workspaceSessionId = ''w'', lq_workSessionId = s,
     lq_ownerInstanceId = None, lq_ttlMs = Some 1000, lq_takeover = False, lq_leaseKind = None\<rparr>"

definition demo_lease :: lease where
  "demo_lease = \<lparr>le_canonicalRoot = ''/repo'', le_workspaceSessionId = ''w'', le_workSessionId = ''s1'',
     le_leaseKind = Modify, le_ownerInstanceId = ''p'', le_leaseNonce = ''n1'', le_acquiredAt = 0,
     le_heartbeatAt = 0, le_expiresAt = 1000\<rparr>"

lemma demo_lease_acquired:
  "acquireWorkspaceLease 0 ''p'' ''n1'' (demo_lease_request ''s1'') [] = ([demo_lease], Acquired demo_lease)"
  by (simp add: acquireWorkspaceLease_def demo_lease_request_def demo_lease_def sql_delete_def Let_def)

lemma demo_lease_reachable: "reachable (\<lambda>t. t = []) lease_step [demo_lease]"
proof -
  have "reachable (\<lambda>t. t = []) lease_step []" by (rule reachable_start) simp
  then show ?thesis by (rule reachable_step) (rule ls_acquire [OF demo_lease_acquired])
qed

theorem acquire_exclusive_witness:
  "snd (acquireWorkspaceLease 500 ''q'' ''n2'' (demo_lease_request ''s2'') [demo_lease]) = conflict_with demo_lease
   \<and> (\<exists>ex \<in> set [demo_lease]. lease_blocks (demo_lease_request ''s2'') ''q'' ex)"
proof -
  obtain t' res where a: "acquireWorkspaceLease 500 ''q'' ''n2'' (demo_lease_request ''s2'') [demo_lease] = (t', res)"
    by fastforce
  have b: "lease_blocks (demo_lease_request ''s2'') ''q'' demo_lease"
    by (simp add: lease_blocks_def demo_lease_request_def demo_lease_def Let_def)
  from acquire_exclusive [OF demo_lease_reachable a] b a show ?thesis
    by (auto simp: demo_lease_request_def demo_lease_def)
qed

text \<open>
  A takeover fences the previous owner: once the same session has taken a live lease over with
  a new nonce, the worker that still presents the old nonce can neither renew nor release the
  lease nor restore an earlier one, and its attempts change nothing.
\<close>

theorem takeover_fences_old_nonce:
  assumes "reachable (\<lambda>t. t = []) lease_step t" and "ex \<in> set t" and "now \<le> le_expiresAt ex"
    and "le_canonicalRoot ex = lq_canonicalRoot input" and "lq_takeover input"
    and "acquireWorkspaceLease now pid uuid input t = (t', Acquired l)"
    and "uuid \<noteq> le_leaseNonce ex"
    and "\<forall>x \<in> set t. le_leaseNonce x = le_leaseNonce ex \<longrightarrow> x = ex"
  shows "le_leaseNonce l = uuid
    \<and> renewWorkspaceLeaseForSession later (le_workSessionId ex) ttl (le_leaseNonce ex) t' = (t', 0)
    \<and> releaseWorkspaceLeaseForSession (le_workSessionId ex) (le_leaseNonce ex) t' = (t', False)
    \<and> restoreWorkspaceLeaseForSession previous (le_leaseNonce ex) t' = (t', False)"
proof -
  have ok: "leases_ok t" using assms(1) by (rule lease_inv.inv_reachable)
  have "(\<forall>x \<in> set t'. le_leaseNonce x \<noteq> le_leaseNonce ex) \<and> le_leaseNonce l = uuid"
    using ok assms(6)
  proof (cases rule: acquire_cases)
    case (blocked e)
    then show ?thesis by (simp add: conflict_with_def)
  next
    case (renewed e k)
    have "e = ex" using key_unique [of le_canonicalRoot t e ex] ok renewed(1,2) assms(2,4) by (simp add: leases_ok_def)
    then show ?thesis using renewed(4,5,9) assms(5,7,8) by auto
  next
    case (created k)
    then show ?thesis using assms(2,3,4) by auto
  qed
  then have none: "\<forall>x \<in> set t'. le_leaseNonce x \<noteq> le_leaseNonce ex" and n: "le_leaseNonce l = uuid" by simp_all
  then show ?thesis
    by (auto simp: renewWorkspaceLeaseForSession_def releaseWorkspaceLeaseForSession_def
        restoreWorkspaceLeaseForSession_def restore_matches_def Let_def sql_changes_zero_iff sql_update_none sql_delete_def
        filter_id_conv)
qed

theorem takeover_fences_old_nonce_witness:
  "let t' = fst (acquireWorkspaceLease 500 ''q'' ''n2'' ((demo_lease_request ''s1'')\<lparr>lq_takeover := True\<rparr>) [demo_lease])
   in renewWorkspaceLeaseForSession 600 ''s1'' None ''n1'' t' = (t', 0)
      \<and> snd (renewWorkspaceLeaseForSession 600 ''s1'' None ''n2'' t') = 1"
proof -
  let ?in = "(demo_lease_request ''s1'')\<lparr>lq_takeover := True\<rparr>"
  let ?l = "demo_lease\<lparr>le_heartbeatAt := 500, le_expiresAt := 1500, le_ownerInstanceId := ''q'', le_leaseNonce := ''n2''\<rparr>"
  have a: "acquireWorkspaceLease 500 ''q'' ''n2'' ?in [demo_lease] = ([?l], Acquired ?l)"
    by (simp add: acquireWorkspaceLease_def demo_lease_request_def demo_lease_def sql_delete_def Let_def
        lease_blocks_def renewed_lease_def)
  have "renewWorkspaceLeaseForSession 600 ''s1'' None ''n1'' [?l] = ([?l], 0)"
    using takeover_fences_old_nonce [OF demo_lease_reachable, of demo_lease 500 ?in "''q''" "''n2''" "[?l]" ?l 600 None]
      a by (simp add: demo_lease_def demo_lease_request_def)
  moreover have "snd (renewWorkspaceLeaseForSession 600 ''s1'' None ''n2'' [?l]) = 1"
    by (simp add: renewWorkspaceLeaseForSession_def demo_lease_def Let_def)
  ultimately show ?thesis using a by (simp add: Let_def)
qed

end
