(* ===== verification/Continuations.thy ===== *)
theory Continuations
  imports Kontrol_Prelude
begin

text \<open>
  Continuations, src/src/continuation.ts: the packet that hands a reviewer's feedback back to an
  agent. The state is the table \<open>continuations\<close>. A packet is created pending with the next review
  epoch of its session, claimed by a dispatcher, and delivered to a run; a claim whose lease
  runs out returns to pending, an uncertain delivery waits for reconciliation, and a packet can
  be superseded. JSON columns hold the list they encode; the clock and \<open>randomUUID\<close> are
  arguments.
\<close>

section \<open>State\<close>

datatype continuation_status =
  CPending | CClaimed | CReconciliationRequired | CDispatched | CCompleted | CSuperseded

record continuation =
  co_id :: string
  co_sessionId :: string
  co_reviewId :: string
  co_feedbackEventId :: string
  co_reviewEpoch :: nat
  co_verdict :: string
  co_requiredActions :: "string list"
  co_allowedNextActions :: "string list"
  co_reviewedDiffHash :: "string option"
  co_feedbackSummary :: "string option"
  co_resumeInstructions :: "string option"
  co_status :: continuation_status
  co_target :: "string option"
  co_claimOwner :: "string option"
  co_claimedAt :: "iso_time option"
  co_promptText :: string
  co_createdAt :: iso_time
  co_deliveredAt :: "iso_time option"
  co_consumedAt :: "iso_time option"

record continuation_input =
  cn_sessionId :: string
  cn_reviewId :: string
  cn_feedbackEventId :: string
  cn_verdict :: string
  cn_requiredActions :: "string list option"
  cn_allowedNextActions :: "string list option"
  cn_reviewedDiffHash :: "string option"
  cn_feedbackSummary :: "string option"
  cn_resumeInstructions :: "string option"
  cn_submissionMessage :: "string option"

record claim_opts =
  cl_id :: "string option"
  cl_sessionId :: "string option"

type_synonym continuations = "continuation table"

datatype reconciliation_outcome = OutcomeDispatched | OutcomeRetrySafe

section \<open>The prompt\<close>

fun number_actions :: "nat \<Rightarrow> string list \<Rightarrow> string list" where
  "number_actions i [] = []"
| "number_actions i (a # as) = (show_nat (i + 1) @ ''. '' @ a) # number_actions (i + 1) as"

definition renderPrompt :: "continuation_input \<Rightarrow> string" where
  "renderPrompt input =
     (let required = coalesce (cn_requiredActions input) [];
          allowed = coalesce (cn_allowedNextActions input) [];
          summary = trim (coalesce (cn_feedbackSummary input) []);
          q = [CHR 0x22]
      in join newline
        ([''Review feedback has arrived for Kontrol work session '' @ cn_sessionId input @ ''.'',
          '''',
          ''Review ID: '' @ cn_reviewId input,
          ''Feedback event: '' @ cn_feedbackEventId input,
          ''Verdict: '' @ cn_verdict input,
          '''']
         @ (if summary \<noteq> [] then [''Reviewer comments:'', summary, ''''] else [])
         @ (if required \<noteq> [] then [''Required actions:''] @ number_actions 0 required @ [''''] else [])
         @ (if allowed \<noteq> []
            then [''Allowed next actions:''] @ map (\<lambda>a. ''- '' @ a) allowed @ [''''] else [])
         @ [''Use Kontrol MCP:'',
            ''- get_work_session(sessionId='' @ q @ cn_sessionId input @ q @ '')'',
            ''- get_review_submission(sessionId='' @ q @ cn_sessionId input @ q @ '')'',
            ''- continue from the persisted session state.'',
            '''']
         @ (if truthy (cn_resumeInstructions input) then [the (cn_resumeInstructions input), ''''] else [])
         @ [''Do not restart from scratch. Continue this session and address the review feedback.'',
            '''',
            ''You MUST:'',
            ''- Remain in the existing workspace.'',
            ''- Preserve unrelated user changes.'',
            ''- Address each required action.'',
            ''- Submit a new review revision when done.'',
            ''- Call submit_for_review, then await_review_feedback waiting for A-okay.'']))"

section \<open>Operations\<close>

definition getNextEpoch :: "string \<Rightarrow> continuations \<Rightarrow> nat" where
  "getNextEpoch sessionId t =
     (case first_row (order_desc co_reviewEpoch (filter (\<lambda>c. co_sessionId c = sessionId) t)) of
        None \<Rightarrow> 1
      | Some latest \<Rightarrow> co_reviewEpoch latest + 1)"

definition continuation_create ::
  "iso_time \<Rightarrow> string \<Rightarrow> continuation_input \<Rightarrow> continuations \<Rightarrow> (continuations \<times> continuation) option" where
  "continuation_create now uuid input t =
     (let c = \<lparr>co_id = ''cont_'' @ uuid, co_sessionId = cn_sessionId input, co_reviewId = cn_reviewId input,
          co_feedbackEventId = cn_feedbackEventId input,
          co_reviewEpoch = getNextEpoch (cn_sessionId input) t, co_verdict = cn_verdict input,
          co_requiredActions = coalesce (cn_requiredActions input) [],
          co_allowedNextActions = coalesce (cn_allowedNextActions input) [],
          co_reviewedDiffHash = cn_reviewedDiffHash input, co_feedbackSummary = cn_feedbackSummary input,
          co_resumeInstructions = cn_resumeInstructions input, co_status = CPending, co_target = None,
          co_claimOwner = None, co_claimedAt = None, co_promptText = renderPrompt input,
          co_createdAt = now, co_deliveredAt = None, co_consumedAt = None\<rparr>
      in if co_id c \<in> co_id ` set t then None else Some (t @ [c], c))"

definition continuation_get :: "string \<Rightarrow> continuations \<Rightarrow> continuation option" where
  "continuation_get i t = find (\<lambda>c. co_id c = i) t"

definition getByFeedbackEventId :: "string \<Rightarrow> continuations \<Rightarrow> continuation option" where
  "getByFeedbackEventId feedbackEventId t =
     first_row (order_desc co_createdAt (filter (\<lambda>c. co_feedbackEventId c = feedbackEventId) t))"

definition continuation_listPending :: "string option \<Rightarrow> continuations \<Rightarrow> continuation list" where
  "continuation_listPending sessionId t =
     order_asc co_createdAt
       (filter (\<lambda>c. co_status c = CPending \<and> (truthy sessionId \<longrightarrow> Some (co_sessionId c) = sessionId)) t)"

definition listReconciliationRequired :: "continuations \<Rightarrow> continuation list" where
  "listReconciliationRequired t =
     order_asc co_createdAt (filter (\<lambda>c. co_status c = CReconciliationRequired) t)"

definition claim_row :: "claim_opts \<Rightarrow> continuations \<Rightarrow> continuation option" where
  "claim_row opts t =
     (if truthy (cl_id opts) then find (\<lambda>c. Some (co_id c) = cl_id opts) t
      else if truthy (cl_sessionId opts)
      then first_row (order_asc co_createdAt
             (filter (\<lambda>c. co_status c = CPending \<and> Some (co_sessionId c) = cl_sessionId opts) t))
      else first_row (order_asc co_createdAt (filter (\<lambda>c. co_status c = CPending) t)))"

definition continuation_claim ::
  "iso_time \<Rightarrow> string \<Rightarrow> claim_opts \<Rightarrow> continuations \<Rightarrow> continuations \<times> continuation option" where
  "continuation_claim now owner opts t =
     (case claim_row opts t of
        None \<Rightarrow> (t, None)
      | Some candidate \<Rightarrow>
          if co_status candidate \<noteq> CPending then (t, None)
          else let P = (\<lambda>c. co_id c = co_id candidate \<and> co_status c = CPending);
                   t' = sql_update P (\<lambda>c. c\<lparr>co_status := CClaimed, co_claimOwner := Some owner, co_claimedAt := Some now\<rparr>) t
               in if sql_changes P t = 0 then (t', None)
                  else (t', find (\<lambda>c. co_id c = co_id candidate) t'))"

definition unclaim :: "continuation \<Rightarrow> continuation" where
  "unclaim c = c\<lparr>co_status := CPending, co_claimOwner := None, co_claimedAt := None\<rparr>"

definition release_matches :: "string \<Rightarrow> claim_opts \<Rightarrow> continuation \<Rightarrow> bool" where
  "release_matches owner opts c \<longleftrightarrow>
     co_status c = CClaimed \<and> co_claimOwner c = Some owner
     \<and> (if truthy (cl_id opts) then Some (co_id c) = cl_id opts
        else if truthy (cl_sessionId opts) then Some (co_sessionId c) = cl_sessionId opts else True)"

definition continuation_release :: "string \<Rightarrow> claim_opts \<Rightarrow> continuations \<Rightarrow> continuations" where
  "continuation_release owner opts t = sql_update (release_matches owner opts) unclaim t"

definition claim_lapsed :: "iso_time \<Rightarrow> string option \<Rightarrow> continuation \<Rightarrow> bool" where
  "claim_lapsed cutoff owner c \<longleftrightarrow>
     co_status c = CClaimed \<and> (case co_claimedAt c of None \<Rightarrow> False | Some at \<Rightarrow> at < cutoff)
     \<and> (truthy owner \<longrightarrow> co_claimOwner c = owner)"

fun unclaim_loop :: "continuation list \<Rightarrow> continuations \<Rightarrow> continuations" where
  "unclaim_loop [] t = t"
| "unclaim_loop (row # rows) t = unclaim_loop rows (sql_update (\<lambda>c. co_id c = co_id row) unclaim t)"

definition continuation_reap ::
  "iso_time \<Rightarrow> int \<Rightarrow> string option \<Rightarrow> continuations \<Rightarrow> continuations \<times> nat" where
  "continuation_reap now leaseMs owner t =
     (let expired = filter (claim_lapsed (now - leaseMs) owner) t
      in if expired = [] then (t, 0) else (unclaim_loop expired t, length expired))"

definition superseded_row :: "iso_time \<Rightarrow> string \<Rightarrow> continuation \<Rightarrow> continuation" where
  "superseded_row now reason c =
     c\<lparr>co_status := CSuperseded, co_claimOwner := None, co_claimedAt := None,
       co_feedbackSummary := Some reason, co_consumedAt := Some now\<rparr>"

definition supersede :: "iso_time \<Rightarrow> string \<Rightarrow> string \<Rightarrow> continuations \<Rightarrow> continuations \<times> bool" where
  "supersede now i reason t =
     (sql_update (\<lambda>c. co_id c = i) (superseded_row now reason) t, sql_changes (\<lambda>c. co_id c = i) t > 0)"

definition supersedeForSession ::
  "iso_time \<Rightarrow> iso_time \<Rightarrow> string \<Rightarrow> string \<Rightarrow> continuations \<Rightarrow> continuations \<times> nat" where
  "supersedeForSession now now' sessionId reason t =
     (let P = (\<lambda>c. co_sessionId c = sessionId \<and> co_status c = CPending);
          Q = (\<lambda>c. co_sessionId c = sessionId \<and> co_status c = CClaimed);
          t1 = sql_update P (superseded_row now reason) t
      in (sql_update Q (superseded_row now' reason) t1, sql_changes P t + sql_changes Q t1))"

definition listForSession :: "string \<Rightarrow> continuations \<Rightarrow> continuation list" where
  "listForSession sessionId t = order_asc co_createdAt (filter (\<lambda>c. co_sessionId c = sessionId) t)"

definition owned_claim :: "string \<Rightarrow> string \<Rightarrow> continuation \<Rightarrow> bool" where
  "owned_claim i owner c \<longleftrightarrow> co_id c = i \<and> co_status c = CClaimed \<and> co_claimOwner c = Some owner"

definition markDelivered :: "iso_time \<Rightarrow> string \<Rightarrow> string \<Rightarrow> string \<Rightarrow> continuations \<Rightarrow> continuations \<times> bool" where
  "markDelivered now i claimOwner targetRunId t =
     (sql_update (owned_claim i claimOwner)
        (\<lambda>c. c\<lparr>co_status := CDispatched, co_target := Some targetRunId, co_deliveredAt := Some now\<rparr>) t,
      sql_changes (owned_claim i claimOwner) t > 0)"

definition markReconciliationRequired ::
  "string \<Rightarrow> string \<Rightarrow> string \<Rightarrow> string \<Rightarrow> continuations \<Rightarrow> continuations \<times> bool" where
  "markReconciliationRequired i claimOwner targetRunId reason t =
     (sql_update (owned_claim i claimOwner)
        (\<lambda>c. c\<lparr>co_status := CReconciliationRequired, co_target := Some targetRunId,
               co_feedbackSummary := Some (take 2000 reason), co_claimOwner := None, co_claimedAt := None\<rparr>) t,
      sql_changes (owned_claim i claimOwner) t > 0)"

definition resolveReconciliation ::
  "iso_time \<Rightarrow> string \<Rightarrow> string \<Rightarrow> reconciliation_outcome \<Rightarrow> continuations \<Rightarrow> continuations \<times> bool" where
  "resolveReconciliation now i targetRunId outcome t =
     (let P = (\<lambda>c. co_id c = i \<and> co_status c = CReconciliationRequired \<and> co_target c = Some targetRunId)
      in (sql_update P
            (\<lambda>c. case outcome of
                   OutcomeDispatched \<Rightarrow> c\<lparr>co_status := CDispatched, co_target := Some targetRunId,
                                        co_deliveredAt := Some now, co_feedbackSummary := None\<rparr>
                 | OutcomeRetrySafe \<Rightarrow> c\<lparr>co_status := CPending, co_target := None, co_feedbackSummary := None\<rparr>) t,
          sql_changes P t > 0))"

definition markDispatched :: "string \<Rightarrow> continuations \<Rightarrow> continuations" where
  "markDispatched i t = sql_update (\<lambda>c. co_id c = i) (\<lambda>c. c\<lparr>co_status := CDispatched\<rparr>) t"

definition continuation_markCompleted :: "iso_time \<Rightarrow> string \<Rightarrow> continuations \<Rightarrow> continuations" where
  "continuation_markCompleted now i t =
     sql_update (\<lambda>c. co_id c = i) (\<lambda>c. c\<lparr>co_status := CCompleted, co_consumedAt := Some now\<rparr>) t"

definition getPrompt :: "string \<Rightarrow> continuations \<Rightarrow> string option" where
  "getPrompt feedbackEventId t = map_option co_promptText (getByFeedbackEventId feedbackEventId t)"

section \<open>How a table of continuations can evolve\<close>

inductive continuation_step :: "continuations \<Rightarrow> continuations \<Rightarrow> bool" where
  cs_create: "continuation_create now uuid input t = Some (t', c) \<Longrightarrow> continuation_step t t'"
| cs_claim: "continuation_claim now owner opts t = (t', r) \<Longrightarrow> continuation_step t t'"
| cs_release: "continuation_step t (continuation_release owner opts t)"
| cs_reap: "continuation_reap now leaseMs owner t = (t', n) \<Longrightarrow> continuation_step t t'"
| cs_supersede: "supersede now i reason t = (t', b) \<Longrightarrow> continuation_step t t'"
| cs_supersedeSession: "supersedeForSession now now' s reason t = (t', n) \<Longrightarrow> continuation_step t t'"
| cs_delivered: "markDelivered now i owner run t = (t', b) \<Longrightarrow> continuation_step t t'"
| cs_reconcile: "markReconciliationRequired i owner run reason t = (t', b) \<Longrightarrow> continuation_step t t'"
| cs_resolve: "resolveReconciliation now i run outcome t = (t', b) \<Longrightarrow> continuation_step t t'"
| cs_dispatched: "continuation_step t (markDispatched i t)"
| cs_completed: "continuation_step t (continuation_markCompleted now i t)"

text \<open>The columns that are written once, when the packet is created.\<close>

definition co_ident :: "continuation \<Rightarrow> string \<times> string \<times> nat" where
  "co_ident c = (co_id c, co_sessionId c, co_reviewEpoch c)"

lemma co_ident_update [simp]:
  "co_ident (c\<lparr>co_status := st\<rparr>) = co_ident c"
  "co_ident (c\<lparr>co_claimOwner := o'\<rparr>) = co_ident c"
  "co_ident (c\<lparr>co_claimedAt := at\<rparr>) = co_ident c"
  "co_ident (c\<lparr>co_feedbackSummary := fs\<rparr>) = co_ident c"
  "co_ident (c\<lparr>co_consumedAt := ct\<rparr>) = co_ident c"
  "co_ident (c\<lparr>co_target := tg\<rparr>) = co_ident c"
  "co_ident (c\<lparr>co_deliveredAt := dt\<rparr>) = co_ident c"
  by (simp_all add: co_ident_def)

definition epochs_of :: "string \<Rightarrow> continuations \<Rightarrow> nat list" where
  "epochs_of s t = map (snd \<circ> snd) (filter (\<lambda>x. fst (snd x) = s) (map co_ident t))"

definition continuations_ok :: "continuations \<Rightarrow> bool" where
  "continuations_ok t \<longleftrightarrow>
     distinct (map fst (map co_ident t)) \<and> (\<forall>s. epochs_of s t = [1..<Suc (length (epochs_of s t))])"

lemma ident_update:
  assumes "\<And>c. co_ident (f c) = co_ident c"
  shows "map co_ident (sql_update P f t) = map co_ident t"
  using assms by (intro map_sql_update) simp

lemma unclaim_loop_ident: "map co_ident (unclaim_loop rows t) = map co_ident t"
  by (induction rows arbitrary: t) (simp_all add: ident_update unclaim_def)

lemma continuation_step_shape:
  "continuation_step t t' \<Longrightarrow> map co_ident t' = map co_ident t
     \<or> (\<exists>c. t' = t @ [c] \<and> co_id c \<notin> co_id ` set t \<and> co_reviewEpoch c = getNextEpoch (co_sessionId c) t)"
proof (induction rule: continuation_step.induct)
  case (cs_create now uuid input t t' c)
  then show ?case by (auto simp: continuation_create_def Let_def split: if_splits)
next
  case (cs_claim now owner opts t t' r)
  have "map co_ident (sql_update P (\<lambda>c. c\<lparr>co_status := CClaimed, co_claimOwner := Some owner, co_claimedAt := Some now\<rparr>) t)
      = map co_ident t" for P
    by (rule ident_update) simp
  with cs_claim show ?case by (auto simp: continuation_claim_def Let_def split: option.splits if_splits)
next
  case (cs_release t owner opts)
  then show ?case by (simp add: continuation_release_def ident_update unclaim_def)
next
  case (cs_reap now leaseMs owner t t' n)
  then show ?case by (auto simp: continuation_reap_def Let_def unclaim_loop_ident split: if_splits)
next
  case (cs_supersede now i reason t t' b)
  then show ?case by (auto simp: supersede_def ident_update superseded_row_def)
next
  case (cs_supersedeSession now now' s reason t t' n)
  then show ?case by (auto simp: supersedeForSession_def Let_def ident_update superseded_row_def)
next
  case (cs_delivered now i owner run t t' b)
  then show ?case by (auto simp: markDelivered_def ident_update)
next
  case (cs_reconcile i owner run reason t t' b)
  then show ?case by (auto simp: markReconciliationRequired_def ident_update)
next
  case (cs_resolve now i run outcome t t' b)
  then show ?case
    by (auto simp: resolveReconciliation_def Let_def ident_update split: reconciliation_outcome.split)
next
  case (cs_dispatched t i)
  then show ?case by (simp add: markDispatched_def ident_update)
next
  case (cs_completed t now i)
  then show ?case by (simp add: continuation_markCompleted_def ident_update)
qed

lemma epochs_of_rows: "epochs_of s t = map co_reviewEpoch (filter (\<lambda>c. co_sessionId c = s) t)"
  by (simp add: epochs_of_def filter_map comp_def co_ident_def)

lemma getNextEpoch_ok:
  assumes "continuations_ok t"
  shows "getNextEpoch s t = Suc (length (epochs_of s t))"
proof (cases "first_row (order_desc co_reviewEpoch (filter (\<lambda>c. co_sessionId c = s) t))")
  case None
  then have "epochs_of s t = []" by (simp add: epochs_of_rows)
  with None show ?thesis by (simp add: getNextEpoch_def)
next
  case (Some c)
  from first_row_desc_max [OF Some]
  have c: "co_reviewEpoch c \<in> set (epochs_of s t)" and m: "\<forall>e \<in> set (epochs_of s t). e \<le> co_reviewEpoch c"
    by (auto simp: epochs_of_rows)
  have es: "epochs_of s t = [1..<Suc (length (epochs_of s t))]" using assms by (simp add: continuations_ok_def)
  define n where "n = length (epochs_of s t)"
  have set_es: "set (epochs_of s t) = {1..n}"
    using arg_cong [OF es, of set] by (auto simp: n_def)
  have "1 \<le> n" and le: "co_reviewEpoch c \<le> n" using c unfolding set_es by auto
  then have "n \<le> co_reviewEpoch c" using m unfolding set_es by auto
  with le have "co_reviewEpoch c = length (epochs_of s t)" by (simp add: n_def)
  with Some show ?thesis by (simp add: getNextEpoch_def)
qed

lemma counting_snoc:
  assumes "xs = [1..<Suc n]"
  shows "xs @ [Suc n] = [1..<Suc (Suc n)]"
  using assms by simp

interpretation continuation_inv: store_invariant "\<lambda>t. t = []" continuation_step continuations_ok
proof unfold_locales
  show "continuations_ok t" if "t = []" for t
    using that by (simp add: continuations_ok_def epochs_of_def)
  show "continuations_ok t'" if ok: "continuations_ok t" and st: "continuation_step t t'" for t t'
    using continuation_step_shape [OF st]
  proof
    assume eq: "map co_ident t' = map co_ident t"
    show ?thesis using ok unfolding continuations_ok_def epochs_of_def eq .
  next
    assume "\<exists>c. t' = t @ [c] \<and> co_id c \<notin> co_id ` set t \<and> co_reviewEpoch c = getNextEpoch (co_sessionId c) t"
    then obtain c where c: "t' = t @ [c]" "co_id c \<notin> co_id ` set t"
      "co_reviewEpoch c = Suc (length (epochs_of (co_sessionId c) t))"
      using getNextEpoch_ok [OF ok] by auto
    have "epochs_of s t' = [1..<Suc (length (epochs_of s t'))]" for s
    proof -
      have es: "epochs_of s t = [1..<Suc (length (epochs_of s t))]"
        using ok unfolding continuations_ok_def by blast
      have "epochs_of s t' = (if co_sessionId c = s then epochs_of s t @ [Suc (length (epochs_of s t))]
          else epochs_of s t)"
        using c(1,3) by (auto simp: epochs_of_rows)
      moreover have "epochs_of s t @ [Suc (length (epochs_of s t))] = [1..<Suc (Suc (length (epochs_of s t)))]"
        by (rule counting_snoc [OF es])
      ultimately show ?thesis
        using es by (metis length_append_singleton)
    qed
    moreover have "distinct (map fst (map co_ident t'))"
      using ok c(1,2) by (auto simp: continuations_ok_def co_ident_def)
    ultimately show ?thesis by (simp add: continuations_ok_def)
  qed
qed

section \<open>Properties\<close>

text \<open>
  C34. Review epochs count: in every reachable table the continuations of a session, in the order
  they were created, carry the epochs 1, 2, 3 and so on without a gap or a repetition, and the
  next one gets the next number.
\<close>

theorem continuation_epochs:
  assumes "reachable (\<lambda>t. t = []) continuation_step t"
  shows "map co_reviewEpoch (filter (\<lambda>c. co_sessionId c = s) t)
           = [1..<Suc (length (filter (\<lambda>c. co_sessionId c = s) t))]
    \<and> getNextEpoch s t = Suc (length (filter (\<lambda>c. co_sessionId c = s) t))"
proof -
  have ok: "continuations_ok t" using assms by (rule continuation_inv.inv_reachable)
  then have "epochs_of s t = [1..<Suc (length (epochs_of s t))]" by (simp add: continuations_ok_def)
  then show ?thesis using getNextEpoch_ok [OF ok, of s] unfolding epochs_of_rows length_map by blast
qed

definition demo_continuation_input :: continuation_input where
  "demo_continuation_input = \<lparr>cn_sessionId = ''s'', cn_reviewId = ''r'', cn_feedbackEventId = ''f'',
     cn_verdict = ''changes_requested'', cn_requiredActions = Some [''fix''], cn_allowedNextActions = None,
     cn_reviewedDiffHash = None, cn_feedbackSummary = None, cn_resumeInstructions = None, cn_submissionMessage = None\<rparr>"

definition demo_continuations :: continuations where
  "demo_continuations = fst (the (continuation_create 5 ''a'' demo_continuation_input []))"

lemma demo_continuations_reachable: "reachable (\<lambda>t. t = []) continuation_step demo_continuations"
proof -
  have "reachable (\<lambda>t. t = []) continuation_step []" by (rule reachable_start) simp
  then show ?thesis
    by (rule reachable_step)
      (rule cs_create [of 5 "''a''" demo_continuation_input _ _ "snd (the (continuation_create 5 ''a'' demo_continuation_input []))"],
        simp add: demo_continuations_def continuation_create_def Let_def)
qed

theorem continuation_epochs_witness: "getNextEpoch ''s'' demo_continuations = 2"
proof -
  have "length (filter (\<lambda>c. co_sessionId c = ''s'') demo_continuations) = 1"
    by (simp add: demo_continuations_def continuation_create_def demo_continuation_input_def Let_def)
  then show ?thesis using continuation_epochs [OF demo_continuations_reachable, of "''s''"] by simp
qed

subsection \<open>Delivery\<close>

lemma claim_SomeD:
  assumes "distinct (map co_id t)" "continuation_claim now owner opts t = (t', Some c)"
  obtains r where "r \<in> set t" "co_status r = CPending" "co_id c = co_id r"
    "c = r\<lparr>co_status := CClaimed, co_claimOwner := Some owner, co_claimedAt := Some now\<rparr>"
    "t' = map (\<lambda>x. if x = r then c else x) t"
proof -
  obtain r where r: "claim_row opts t = Some r" "co_status r = CPending"
    using assms(2) by (auto simp: continuation_claim_def Let_def split: option.splits if_splits)
  have mem: "r \<in> set t"
    using r(1) by (auto simp: claim_row_def dest: find_Some_mem first_row_SomeD split: if_splits)
  let ?P = "\<lambda>x. co_id x = co_id r \<and> co_status x = CPending"
  let ?c = "r\<lparr>co_status := CClaimed, co_claimOwner := Some owner, co_claimedAt := Some now\<rparr>"
  have upd: "sql_update ?P (\<lambda>x. x\<lparr>co_status := CClaimed, co_claimOwner := Some owner, co_claimedAt := Some now\<rparr>) t
      = map (\<lambda>x. if x = r then ?c else x) t"
    by (rule sql_update_one_row [OF assms(1) mem]) (simp_all add: r(2))
  have "find (\<lambda>x. co_id x = co_id r) (map (\<lambda>x. if x = r then ?c else x) t) = Some ?c"
    by (rule find_replaced_row [OF assms(1) mem]) simp
  then have "c = ?c" "t' = map (\<lambda>x. if x = r then ?c else x) t"
    using assms(2) r upd by (auto simp: continuation_claim_def Let_def split: if_splits)
  then show thesis using that [OF mem r(2)] by simp
qed

lemma only_row_with_id:
  assumes "distinct (map co_id t)" "c \<in> set t" "\<not> P c" "\<And>x. P x \<Longrightarrow> co_id x = co_id c"
  shows "\<forall>x \<in> set t. \<not> P x"
  using key_unique [OF assms(1) _ assms(2)] assms(3,4) by metis

lemma delivery_refused:
  assumes "distinct (map co_id t)" "c \<in> set t" "\<not> owned_claim (co_id c) owner c"
  shows "markDelivered now (co_id c) owner run t = (t, False)"
proof -
  have "\<forall>x \<in> set t. \<not> owned_claim (co_id c) owner x"
    by (rule only_row_with_id [OF assms(1,2)]) (use assms(3) in \<open>simp_all add: owned_claim_def\<close>)
  then show ?thesis by (simp add: markDelivered_def sql_update_none sql_changes_zero_iff)
qed

lemma unclaim_loop_other:
  assumes "\<forall>r \<in> set rows. co_id r \<noteq> co_id d" "d \<in> set t"
  shows "d \<in> set (unclaim_loop rows t)"
  using assms
proof (induction rows arbitrary: t)
  case Nil
  then show ?case by simp
next
  case (Cons r rows)
  then have "d \<in> set (sql_update (\<lambda>c. co_id c = co_id r) unclaim t)" by (auto simp: set_sql_update)
  with Cons show ?case by simp
qed

lemma delivered_row_survives_reap:
  assumes "distinct (map co_id t)" "d \<in> set t" "co_status d \<noteq> CClaimed"
  shows "d \<in> set (fst (continuation_reap now leaseMs owner t))"
proof -
  have "\<forall>r \<in> set (filter (claim_lapsed (now - leaseMs) owner) t). co_id r \<noteq> co_id d"
    using key_unique [OF assms(1) _ assms(2)] assms(3) by (auto simp: claim_lapsed_def)
  then show ?thesis using assms(2) by (simp add: continuation_reap_def Let_def unclaim_loop_other)
qed

text \<open>
  A claimed packet is delivered once, and only by its claimant: a delivery by another owner
  changes nothing; the claimant's delivery succeeds, records its run, and afterwards every
  further delivery is refused, the packet cannot be claimed again by its id, and neither a
  release nor the reaping of lapsed claims touches it.
\<close>

theorem delivered_once_by_claimant:
  assumes "distinct (map co_id t)" and "continuation_claim now owner opts t = (t1, Some c)"
    and "markDelivered now' (co_id c) owner run t1 = (t2, delivered)"
  shows "(\<forall>other. other \<noteq> owner \<longrightarrow> markDelivered n (co_id c) other run' t1 = (t1, False))
    \<and> delivered
    \<and> (\<exists>d \<in> set t2. d = c\<lparr>co_status := CDispatched, co_target := Some run, co_deliveredAt := Some now'\<rparr>
         \<and> d \<in> set (continuation_release any relopts t2) \<and> d \<in> set (fst (continuation_reap n leaseMs reaper t2)))
    \<and> markDelivered n (co_id c) any run' t2 = (t2, False)
    \<and> (co_id c \<noteq> [] \<longrightarrow> snd (continuation_claim n any \<lparr>cl_id = Some (co_id c), cl_sessionId = None\<rparr> t2) = None)"
proof -
  obtain r where r: "r \<in> set t" "co_status r = CPending" "co_id c = co_id r"
    "c = r\<lparr>co_status := CClaimed, co_claimOwner := Some owner, co_claimedAt := Some now\<rparr>"
    "t1 = map (\<lambda>x. if x = r then c else x) t"
    using claim_SomeD [OF assms(1,2)] .
  have c1: "c \<in> set t1" using r(1,5) by auto
  have d1: "distinct (map co_id t1)"
  proof -
    have "map co_id t1 = map co_id t" unfolding r(5) using r(3) by (intro nth_equalityI) auto
    then show ?thesis using assms(1) by simp
  qed
  let ?d = "c\<lparr>co_status := CDispatched, co_target := Some run, co_deliveredAt := Some now'\<rparr>"
  have owned: "owned_claim (co_id c) owner c" by (simp add: owned_claim_def r(4))
  have "sql_update (owned_claim (co_id c) owner)
      (\<lambda>x. x\<lparr>co_status := CDispatched, co_target := Some run, co_deliveredAt := Some now'\<rparr>) t1
      = map (\<lambda>x. if x = c then ?d else x) t1"
    by (rule sql_update_one_row [OF d1 c1]) (use owned in \<open>simp_all add: owned_claim_def\<close>)
  then have t2: "t2 = map (\<lambda>x. if x = c then ?d else x) t1"
    using assms(3) by (simp add: markDelivered_def)
  have del: "delivered" using assms(3) c1 owned by (auto simp: markDelivered_def sql_changes_pos_iff)
  have dm: "?d \<in> set t2" using c1 t2 by auto
  have d2: "distinct (map co_id t2)"
  proof -
    have "map co_id t2 = map co_id t1" unfolding t2 by (intro nth_equalityI) auto
    then show ?thesis using d1 by simp
  qed
  have refuse1: "markDelivered n (co_id c) other run' t1 = (t1, False)" if "other \<noteq> owner" for other
    by (rule delivery_refused [OF d1 c1]) (use that in \<open>simp add: owned_claim_def r(4)\<close>)
  have refuse2: "markDelivered n (co_id c) any run' t2 = (t2, False)"
    using delivery_refused [OF d2 dm, of any n run'] by (simp add: owned_claim_def)
  have rel: "?d \<in> set (continuation_release any relopts t2)"
    using dm unfolding continuation_release_def set_sql_update by (simp add: release_matches_def)
  have reap: "?d \<in> set (fst (continuation_reap n leaseMs reaper t2))"
    using delivered_row_survives_reap [OF d2 dm] by simp
  have "find (\<lambda>x. co_id x = co_id c) t2 = Some ?d"
    using find_unique_key [OF d2 dm] by simp
  then have "snd (continuation_claim n any \<lparr>cl_id = Some (co_id c), cl_sessionId = None\<rparr> t2) = None" if "co_id c \<noteq> []"
    using that by (simp add: continuation_claim_def claim_row_def)
  with refuse1 del dm rel reap refuse2 show ?thesis by blast
qed

theorem delivered_once_by_claimant_witness:
  "let (t1, c) = continuation_claim 6 ''w'' \<lparr>cl_id = None, cl_sessionId = None\<rparr> demo_continuations;
       (t2, ok) = markDelivered 7 ''cont_a'' ''w'' ''run1'' t1
   in ok \<and> markDelivered 8 ''cont_a'' ''w'' ''run2'' t2 = (t2, False)"
proof -
  define c0 where "c0 = snd (the (continuation_create 5 ''a'' demo_continuation_input []))"
  have t: "demo_continuations = [c0]" and c0: "co_id c0 = ''cont_a''" "co_status c0 = CPending"
    by (simp_all add: demo_continuations_def c0_def continuation_create_def Let_def)
  let ?c = "c0\<lparr>co_status := CClaimed, co_claimOwner := Some ''w'', co_claimedAt := Some 6\<rparr>"
  have cl: "continuation_claim 6 ''w'' \<lparr>cl_id = None, cl_sessionId = None\<rparr> [c0] = ([?c], Some ?c)"
    using c0 by (simp add: continuation_claim_def claim_row_def order_asc_def Let_def)
  obtain t2 ok where d: "markDelivered 7 ''cont_a'' ''w'' ''run1'' [?c] = (t2, ok)" by fastforce
  have "ok \<and> markDelivered 8 ''cont_a'' ''w'' ''run2'' t2 = (t2, False)"
    using delivered_once_by_claimant [OF _ cl, of 7 "''run1''" t2 ok 8 "''run2''" "''w''"] d c0 by simp
  then show ?thesis using cl d unfolding t Let_def by simp
qed

end
