(* ===== verification/Mission_Contract.thy ===== *)
theory Mission_Contract
  imports Kontrol_Prelude
begin

text \<open>
  The acceptance criteria of a mission contract: the check of src/src/mission/contract-authority.ts
  that every new or changed contract passes (unique ids, known dependencies, no dependency cycle,
  verification types that agree with the declared commands and probes).

  \<^item> The depth-first walk mutates a \<open>visiting\<close> set that it restores on return; it is an argument
    here, and the \<open>visited\<close> set is threaded through. The walk is proved total by the number of
    criteria not yet being visited.
  \<^item> A thrown error is a constructor that carries what its message prints; no error is \<open>None\<close>.
  \<^item> The correctness of the walk is stated with \<open>grounded\<close>, the accessible part of the dependency
    graph, which the evaluation of the criteria shares.
\<close>

section \<open>Data\<close>

datatype verification_type = VTest | VCodeInspection | VRuntimeBehavior | VSecurityReview | VManualReview

record runtime_probe =
  rp_url :: string
  rp_method :: "string option"
  rp_expectedStatus :: "int option"
  rp_bodyIncludes :: "string option"

record criterion_input =
  mc_id :: "string option"
  mc_description :: string
  mc_priority :: "string option"
  mc_verificationType :: "verification_type option"
  mc_verificationCommand :: "string option"
  mc_runtimeProbe :: "runtime_probe option"
  mc_affectedAreas :: "string list option"
  mc_dependsOn :: "string list option"
  mc_verificationGroup :: "string option"
  mc_verificationScope :: "string option"
  mc_finalOnly :: "bool option"
  mc_mutatesWorkspace :: "bool option"
  mc_commandVersion :: "string option"

section \<open>The contract of the criteria\<close>

datatype contract_error =
    DuplicateCriterion string
  | DependenciesNeedId
  | UnknownDependency "string option" string
  | SelfDependency string
  | DependencyCycle string
  | TestNeedsCommand string
  | RuntimeNeedsProbe string
  | CommandWithoutTest string verification_type
  | ProbeWithoutRuntime string

fun collect_ids :: "criterion_input list \<Rightarrow> string set \<Rightarrow> contract_error + string set" where
  "collect_ids [] ids = Inr ids"
| "collect_ids (c # cs) ids =
     (if truthy (mc_id c) \<and> the (mc_id c) \<in> ids then Inl (DuplicateCriterion (the (mc_id c)))
      else let ids' = (if truthy (mc_id c) then insert (the (mc_id c)) ids else ids)
           in if coalesce (mc_dependsOn c) [] \<noteq> [] \<and> \<not> truthy (mc_id c) then Inl DependenciesNeedId
              else collect_ids cs ids')"

fun check_deps :: "string option \<Rightarrow> string set \<Rightarrow> string list \<Rightarrow> contract_error option" where
  "check_deps cid ids [] = None"
| "check_deps cid ids (d # ds) =
     (if d \<notin> ids then Some (UnknownDependency cid d)
      else if Some d = cid then Some (SelfDependency d)
      else check_deps cid ids ds)"

fun check_all_deps :: "string set \<Rightarrow> criterion_input list \<Rightarrow> contract_error option" where
  "check_all_deps ids [] = None"
| "check_all_deps ids (c # cs) =
     (case check_deps (mc_id c) ids (coalesce (mc_dependsOn c) []) of
        Some e \<Rightarrow> Some e
      | None \<Rightarrow> check_all_deps ids cs)"

definition criteria_by_id :: "criterion_input list \<Rightarrow> (string \<times> criterion_input) list" where
  "criteria_by_id cs = map (\<lambda>c. (the (mc_id c), c)) (filter (\<lambda>c. truthy (mc_id c)) cs)"

definition deps_of :: "(string \<times> criterion_input) list \<Rightarrow> string \<Rightarrow> string list" where
  "deps_of byId i = (case map_of (rev byId) i of None \<Rightarrow> [] | Some c \<Rightarrow> coalesce (mc_dependsOn c) [])"

text \<open>
  The cycle check: \<open>Inl\<close> is the id the cycle was detected at, \<open>Inr\<close> the ids visited so far. A
  walk below an unknown id has no dependencies to follow, so the recursion is bounded by the
  known ids that are not being visited.
\<close>

function (sequential) walk_id ::
    "(string \<times> criterion_input) list \<Rightarrow> string set \<Rightarrow> string \<Rightarrow> string set \<Rightarrow> string + string set"
  and walk_ids ::
    "(string \<times> criterion_input) list \<Rightarrow> string set \<Rightarrow> string list \<Rightarrow> string set \<Rightarrow> string + string set" where
  "walk_id byId visiting i visited =
     (if i \<in> visited then Inr visited
      else if i \<in> visiting then Inl i
      else if i \<in> fst ` set byId
      then (case walk_ids byId (insert i visiting) (deps_of byId i) visited of
              Inl e \<Rightarrow> Inl e
            | Inr visited' \<Rightarrow> Inr (insert i visited'))
      else Inr (insert i visited))"
| "walk_ids byId visiting [] visited = Inr visited"
| "walk_ids byId visiting (d # ds) visited =
     (case walk_id byId visiting d visited of
        Inl e \<Rightarrow> Inl e
      | Inr visited' \<Rightarrow> walk_ids byId visiting ds visited')"
  by pat_completeness auto

termination
proof (relation "measures
    [\<lambda>x. case x of Inl (b, v, i, _) \<Rightarrow> card (fst ` set b - v) | Inr (b, v, ds, _) \<Rightarrow> card (fst ` set b - v),
     \<lambda>x. case x of Inl _ \<Rightarrow> 0 | Inr (b, v, ds, _) \<Rightarrow> Suc (length ds)]", goal_cases)
  case 1
  then show ?case by simp
next
  case (2 byId visiting i visited)
  then have "fst ` set byId - insert i visiting \<subset> fst ` set byId - visiting" by blast
  then have "card (fst ` set byId - insert i visiting) < card (fst ` set byId - visiting)"
    by (intro psubset_card_mono) simp_all
  then show ?case by simp
qed simp_all

declare walk_id.simps [simp del]

definition criterion_type :: "criterion_input \<Rightarrow> verification_type" where
  "criterion_type c =
     coalesce (mc_verificationType c) (if truthy (mc_verificationCommand c) then VTest else VManualReview)"

definition check_type :: "criterion_input \<Rightarrow> contract_error option" where
  "check_type c =
     (let type = criterion_type c; label = coalesce (mc_id c) (mc_description c)
      in if type = VTest \<and> (case mc_verificationCommand c of None \<Rightarrow> True | Some s \<Rightarrow> trim s = [])
         then Some (TestNeedsCommand label)
         else if type = VRuntimeBehavior \<and> mc_runtimeProbe c = None then Some (RuntimeNeedsProbe label)
         else if type \<noteq> VTest \<and> truthy (mc_verificationCommand c) then Some (CommandWithoutTest label type)
         else if type \<noteq> VRuntimeBehavior \<and> mc_runtimeProbe c \<noteq> None then Some (ProbeWithoutRuntime label)
         else None)"

fun check_types :: "criterion_input list \<Rightarrow> contract_error option" where
  "check_types [] = None"
| "check_types (c # cs) = (case check_type c of Some e \<Rightarrow> Some e | None \<Rightarrow> check_types cs)"

definition validateMissionCriterionContract :: "criterion_input list \<Rightarrow> contract_error option" where
  "validateMissionCriterionContract criteria =
     (case collect_ids criteria {} of
        Inl e \<Rightarrow> Some e
      | Inr ids \<Rightarrow>
          (case check_all_deps ids criteria of
             Some e \<Rightarrow> Some e
           | None \<Rightarrow>
               (let byId = criteria_by_id criteria
                in case walk_ids byId {} (map fst byId) {} of
                     Inl i \<Rightarrow> Some (DependencyCycle i)
                   | Inr _ \<Rightarrow> check_types criteria)))"

subsection \<open>Correctness of the contract check\<close>

text \<open>
  A node is grounded when every path of successors from it ends; a grounded node is on no cycle.
\<close>

inductive grounded :: "('a \<Rightarrow> 'a list) \<Rightarrow> 'a \<Rightarrow> bool" for succ where
  grounded_step: "(\<And>y. y \<in> set (succ x) \<Longrightarrow> grounded succ y) \<Longrightarrow> grounded succ x"

abbreviation edge :: "('a \<Rightarrow> 'a list) \<Rightarrow> 'a \<Rightarrow> 'a \<Rightarrow> bool" where
  "edge succ x y \<equiv> y \<in> set (succ x)"

lemma grounded_no_cycle: "grounded succ x \<Longrightarrow> \<not> (edge succ)\<^sup>+\<^sup>+ x x"
proof (induction rule: grounded.induct)
  case (grounded_step x)
  show ?case
  proof
    assume "(edge succ)\<^sup>+\<^sup>+ x x"
    then obtain y where y: "edge succ x y" "(edge succ)\<^sup>*\<^sup>* y x" using tranclpD by metis
    from y(2) y(1) have "(edge succ)\<^sup>+\<^sup>+ y y" by (rule rtranclp_into_tranclp1)
    then show False using grounded_step.IH [OF y(1)] by contradiction
  qed
qed

lemma walk_sound:
  "walk_id b V i visited = Inr visited' \<Longrightarrow> \<forall>x \<in> visited. grounded (deps_of b) x \<Longrightarrow>
     (\<forall>x \<in> visited'. grounded (deps_of b) x) \<and> i \<in> visited' \<and> visited \<subseteq> visited'"
  "walk_ids b V ds visited = Inr visited' \<Longrightarrow> \<forall>x \<in> visited. grounded (deps_of b) x \<Longrightarrow>
     (\<forall>x \<in> visited'. grounded (deps_of b) x) \<and> set ds \<subseteq> visited' \<and> visited \<subseteq> visited'"
proof (induction b V i visited and b V ds visited arbitrary: visited' and visited' rule: walk_id_walk_ids.induct)
  case (1 b V i visited)
  show ?case
  proof (cases "i \<in> visited")
    case True
    with 1 show ?thesis by (simp add: walk_id.simps)
  next
    case new: False
    with 1 have nv: "i \<notin> V" by (auto simp: walk_id.simps)
    show ?thesis
    proof (cases "i \<in> fst ` set b")
      case True
      then obtain v1 where v1: "walk_ids b (insert i V) (deps_of b i) visited = Inr v1" "visited' = insert i v1"
        using 1 new nv by (auto simp: walk_id.simps split: sum.splits)
      note IH = 1(1) [OF new nv True v1(1) 1(3)]
      then have "grounded (deps_of b) y" if "y \<in> set (deps_of b i)" for y using that by blast
      then have "grounded (deps_of b) i" by (rule grounded_step)
      with IH v1 show ?thesis by blast
    next
      case False
      then have none: "deps_of b i = []"
        by (simp add: deps_of_def map_of_eq_None_iff split: option.splits) (metis map_of_SomeD fst_conv image_eqI set_rev)
      have "grounded (deps_of b) i" by (rule grounded_step) (simp add: none)
      moreover have "visited' = insert i visited" using 1 new nv False by (auto simp: walk_id.simps)
      ultimately show ?thesis using 1(3) by blast
    qed
  qed
next
  case (2 b V visited)
  then show ?case by simp
next
  case (3 b V d ds visited)
  then obtain v1 where v1: "walk_id b V d visited = Inr v1" "walk_ids b V ds v1 = Inr visited'"
    by (auto split: sum.splits)
  note A = 3(1) [OF v1(1) 3(4)]
  then have "\<forall>x \<in> v1. grounded (deps_of b) x" by blast
  note B = 3(2) [OF v1(1) v1(2) this]
  then show ?case using A by auto
qed

lemma walk_complete:
  "walk_id b V i visited = Inl e \<Longrightarrow> \<forall>v \<in> V. (edge (deps_of b))\<^sup>+\<^sup>+ v i \<Longrightarrow> (edge (deps_of b))\<^sup>+\<^sup>+ e e"
  "walk_ids b V ds visited = Inl e \<Longrightarrow> \<forall>v \<in> V. \<forall>d \<in> set ds. (edge (deps_of b))\<^sup>+\<^sup>+ v d \<Longrightarrow>
     (edge (deps_of b))\<^sup>+\<^sup>+ e e"
proof (induction b V i visited and b V ds visited arbitrary: and rule: walk_id_walk_ids.induct)
  case (1 b V i visited)
  show ?case
  proof (cases "i \<in> V")
    case True
    with 1 show ?thesis by (auto simp: walk_id.simps split: if_splits)
  next
    case False
    with 1 have new: "i \<notin> visited" and b: "i \<in> fst ` set b"
      and w: "walk_ids b (insert i V) (deps_of b i) visited = Inl e"
      by (auto simp: walk_id.simps split: if_splits sum.splits)
    have "\<forall>v \<in> insert i V. \<forall>d \<in> set (deps_of b i). (edge (deps_of b))\<^sup>+\<^sup>+ v d"
      using 1(3) by (auto intro: tranclp.intros)
    then show ?thesis using 1(1) [OF new False b w] by blast
  qed
next
  case (2 b V visited)
  then show ?case by simp
next
  case (3 b V d ds visited)
  then show ?case by (auto split: sum.splits)
qed

lemma collect_ids_Inr:
  assumes "collect_ids cs ids = Inr ids'"
  shows "ids' = ids \<union> fst ` set (criteria_by_id cs) \<and> distinct (map fst (criteria_by_id cs))
    \<and> ids \<inter> fst ` set (criteria_by_id cs) = {}"
  using assms
proof (induction cs ids rule: collect_ids.induct)
  case (1 ids)
  then show ?case by (simp add: criteria_by_id_def)
next
  case (2 c cs ids)
  show ?case
  proof (cases "truthy (mc_id c)")
    case True
    then have "the (mc_id c) \<notin> ids" "collect_ids cs (insert (the (mc_id c)) ids) = Inr ids'"
      using "2.prems" by (auto simp: Let_def split: if_splits)
    with 2 True show ?thesis by (auto simp: criteria_by_id_def Let_def image_image)
  next
    case False
    with 2 show ?thesis by (auto simp: criteria_by_id_def Let_def split: if_splits)
  qed
qed

lemma check_deps_None: "check_deps cid ids ds = None \<Longrightarrow> set ds \<subseteq> ids"
  by (induction ds) (auto split: if_splits)

lemma check_all_deps_None:
  "check_all_deps ids cs = None \<Longrightarrow> \<forall>c \<in> set cs. set (coalesce (mc_dependsOn c) []) \<subseteq> ids"
  by (induction cs) (auto split: option.splits dest: check_deps_None)

lemma check_types_None: "check_types cs = None \<Longrightarrow> \<forall>c \<in> set cs. check_type c = None"
  by (induction cs) (auto split: option.splits)

lemma validate_NoneD:
  assumes "validateMissionCriterionContract cs = None"
  shows "distinct (map fst (criteria_by_id cs))"
    and "\<forall>c \<in> set cs. set (coalesce (mc_dependsOn c) []) \<subseteq> fst ` set (criteria_by_id cs)"
    and "\<And>i. \<not> (edge (deps_of (criteria_by_id cs)))\<^sup>+\<^sup>+ i i"
    and "\<forall>c \<in> set cs. check_type c = None"
proof -
  let ?b = "criteria_by_id cs"
  obtain ids v where ids: "collect_ids cs {} = Inr ids" and deps: "check_all_deps ids cs = None"
    and w: "walk_ids ?b {} (map fst ?b) {} = Inr v" and ty: "check_types cs = None"
    using assms by (auto simp: validateMissionCriterionContract_def Let_def split: sum.splits option.splits)
  note c = collect_ids_Inr [OF ids]
  show "distinct (map fst ?b)" using c by blast
  show "\<forall>c \<in> set cs. set (coalesce (mc_dependsOn c) []) \<subseteq> fst ` set ?b"
    using check_all_deps_None [OF deps] c by simp
  show "\<forall>c \<in> set cs. check_type c = None" by (rule check_types_None [OF ty])
  show "\<not> (edge (deps_of ?b))\<^sup>+\<^sup>+ i i" for i
  proof (cases "i \<in> fst ` set ?b")
    case True
    then have "grounded (deps_of ?b) i" using walk_sound(2) [OF w] by auto
    then show ?thesis by (rule grounded_no_cycle)
  next
    case False
    then have "deps_of ?b i = []"
      by (simp add: deps_of_def split: option.splits) (metis map_of_SomeD fst_conv image_eqI set_rev)
    then show ?thesis by (metis empty_iff list.set(1) tranclpD)
  qed
qed

text \<open>
  The contract check is exact on dependencies: criteria that pass it have distinct ids, name
  only known criteria, form no dependency cycle at all, and agree with their verification types;
  and when the check reports a cycle at a criterion, that criterion does depend on itself through
  others.
\<close>

theorem contract_check_acyclic:
  shows "(validateMissionCriterionContract cs = None \<longrightarrow>
      distinct (map fst (criteria_by_id cs))
      \<and> (\<forall>c \<in> set cs. set (coalesce (mc_dependsOn c) []) \<subseteq> fst ` set (criteria_by_id cs))
      \<and> (\<forall>i. \<not> (edge (deps_of (criteria_by_id cs)))\<^sup>+\<^sup>+ i i)
      \<and> (\<forall>c \<in> set cs. check_type c = None))
    \<and> (\<forall>i. validateMissionCriterionContract cs = Some (DependencyCycle i) \<longrightarrow>
      (edge (deps_of (criteria_by_id cs)))\<^sup>+\<^sup>+ i i)"
proof (intro conjI impI allI)
  assume ok: "validateMissionCriterionContract cs = None"
  note v = validate_NoneD [OF ok]
  show "distinct (map fst (criteria_by_id cs))" by (rule v(1))
  show "\<forall>c \<in> set cs. set (coalesce (mc_dependsOn c) []) \<subseteq> fst ` set (criteria_by_id cs)" by (rule v(2))
  show "\<not> (edge (deps_of (criteria_by_id cs)))\<^sup>+\<^sup>+ i i" for i by (rule v(3))
  show "\<forall>c \<in> set cs. check_type c = None" by (rule v(4))
next
  fix i assume e: "validateMissionCriterionContract cs = Some (DependencyCycle i)"
  have no1: "collect_ids cs ids \<noteq> Inl (DependencyCycle i)" for ids
    by (induction cs ids rule: collect_ids.induct) (simp_all add: Let_def)
  have no2': "check_deps cid ids ds \<noteq> Some (DependencyCycle i)" for cid ids ds
    by (induction ds) simp_all
  have no2: "check_all_deps ids cs \<noteq> Some (DependencyCycle i)" for ids
    using no2' by (induction cs) (auto split: option.splits)
  have no3: "check_types cs \<noteq> Some (DependencyCycle i)"
    by (induction cs) (auto simp: check_type_def Let_def split: option.splits if_splits)
  have "walk_ids (criteria_by_id cs) {} (map fst (criteria_by_id cs)) {} = Inl i"
    using e no1 no2 no3
    by (auto simp: validateMissionCriterionContract_def Let_def split: sum.splits option.splits)
  then show "(edge (deps_of (criteria_by_id cs)))\<^sup>+\<^sup>+ i i" by (rule walk_complete(2)) simp
qed

definition demo_criterion :: "string \<Rightarrow> string list \<Rightarrow> criterion_input" where
  "demo_criterion i ds = \<lparr>mc_id = Some i, mc_description = i, mc_priority = None, mc_verificationType = None,
     mc_verificationCommand = Some ''npm test'', mc_runtimeProbe = None, mc_affectedAreas = None,
     mc_dependsOn = Some ds, mc_verificationGroup = None, mc_verificationScope = None, mc_finalOnly = None,
     mc_mutatesWorkspace = None, mc_commandVersion = None\<rparr>"

theorem contract_check_acyclic_witness:
  "validateMissionCriterionContract [demo_criterion ''a'' [], demo_criterion ''b'' [''a'']] = None
   \<and> \<not> (edge (deps_of (criteria_by_id [demo_criterion ''a'' [], demo_criterion ''b'' [''a''] ])))\<^sup>+\<^sup>+ ''b'' ''b''
   \<and> validateMissionCriterionContract [demo_criterion ''a'' [''b''], demo_criterion ''b'' [''a'']] = Some (DependencyCycle ''a'')"
proof -
  have ok: "validateMissionCriterionContract [demo_criterion ''a'' [], demo_criterion ''b'' [''a'']] = None" by code_simp
  have bad: "validateMissionCriterionContract [demo_criterion ''a'' [''b''], demo_criterion ''b'' [''a'']]
      = Some (DependencyCycle ''a'')" by code_simp
  show ?thesis using ok bad contract_check_acyclic [of "[demo_criterion ''a'' [], demo_criterion ''b'' [''a''] ]"] by blast
qed

end
