(* ===== verification/Mission_Outcome.thy ===== *)
theory Mission_Outcome
  imports Mission_Contract
begin

text \<open>
  When a mission counts as done: the decision procedures of src/src/mission. Modelled are the
  choice of the authoritative evidence record and the resolution of findings
  (evidence-authority.ts), the effective state of criteria with dependencies, the outcome
  observations and the approval predicate (outcome-evaluator.ts), the bounded correction loop
  (correction-policy.ts) and the admission of finding updates (finding-authority.ts).

  \<^item> \<open>evaluate\<close> of the criteria is a depth-first walk with a memo table: the table is threaded
    through, the \<open>visiting\<close> set it restores on return is an argument.
  \<^item> Of the \<open>details\<close> of an evidence record only \<open>details.source\<close> is read; it is a field.
    \<open>localeCompare\<close> on row ids is an argument; on ISO timestamps it is the order of the times,
    and the empty string that stands for a missing time comes before every time.
  \<^item> A reason for a refusal is a constructor that carries what the message prints.
\<close>

section \<open>Evidence\<close>

record evidence_record =
  er_id :: string
  er_status :: string
  er_submissionId :: "string option"
  er_reviewEpoch :: "int option"
  er_snapshotKind :: "string option"
  er_snapshotRef :: "string option"
  er_criterionId :: "string option"
  er_findingId :: "string option"
  er_attempt :: "int option"
  er_createdAt :: "iso_time option"
  er_command :: "string option"
  er_source :: "string option"

record evidence_context =
  ec_submissionId :: "string option"
  ec_snapshotKind :: "string option"
  ec_snapshotRef :: "string option"
  ec_reviewEpoch :: "int option"

definition isEvidenceSourceAllowed :: "string \<Rightarrow> string \<Rightarrow> bool" where
  "isEvidenceSourceAllowed verificationType source =
     (if verificationType = ''test'' then source = ''server_test_runner''
      else if verificationType = ''runtime_behavior'' then source = ''runtime_probe''
      else if verificationType \<in> {''code_inspection'', ''security_review'', ''manual_review''}
      then source = ''reviewer_manual_attestation''
      else False)"

definition evidenceAttempt :: "evidence_record \<Rightarrow> int" where
  "evidenceAttempt e = coalesce (er_attempt e) (- 1)"

fun compare_time :: "iso_time option \<Rightarrow> iso_time option \<Rightarrow> int" where
  "compare_time None None = 0"
| "compare_time None (Some _) = - 1"
| "compare_time (Some _) None = 1"
| "compare_time (Some a) (Some b) = (if a < b then - 1 else if b < a then 1 else 0)"

definition compare_evidence :: "(string \<Rightarrow> string \<Rightarrow> int) \<Rightarrow> evidence_record \<Rightarrow> evidence_record \<Rightarrow> int" where
  "compare_evidence localeCompare l r =
     (let attemptDelta = evidenceAttempt l - evidenceAttempt r; timeDelta = compare_time (er_createdAt l) (er_createdAt r)
      in if attemptDelta \<noteq> 0 then attemptDelta
         else if timeDelta \<noteq> 0 then timeDelta
         else localeCompare (er_id l) (er_id r))"

definition evidence_qualifies ::
    "(evidence_record \<Rightarrow> string option) \<Rightarrow> string \<Rightarrow> evidence_context \<Rightarrow> (string \<Rightarrow> bool) option \<Rightarrow> evidence_record \<Rightarrow> bool" where
  "evidence_qualifies scopeKey scopeId ctx allowed e \<longleftrightarrow>
     (case allowed of None \<Rightarrow> True | Some p \<Rightarrow> truthy (er_source e) \<and> p (the (er_source e)))
     \<and> scopeKey e = Some scopeId
     \<and> er_submissionId e = ec_submissionId ctx
     \<and> er_snapshotKind e = ec_snapshotKind ctx
     \<and> er_snapshotRef e = ec_snapshotRef ctx
     \<and> (ec_reviewEpoch ctx = None \<or> er_reviewEpoch e = ec_reviewEpoch ctx)
     \<and> truthy (er_source e)"

definition context_complete :: "evidence_context \<Rightarrow> bool" where
  "context_complete ctx \<longleftrightarrow>
     truthy (ec_submissionId ctx) \<and> truthy (ec_snapshotKind ctx) \<and> truthy (ec_snapshotRef ctx)"

definition selectEffectiveEvidenceResult ::
    "(string \<Rightarrow> string \<Rightarrow> int) \<Rightarrow> evidence_record list \<Rightarrow> string option \<Rightarrow> string option \<Rightarrow> evidence_context
     \<Rightarrow> (string \<Rightarrow> bool) option \<Rightarrow> evidence_record option" where
  "selectEffectiveEvidenceResult localeCompare evidence criterionId findingId ctx allowed =
     (let scopeId = or_else criterionId findingId;
          scopeKey = (if truthy criterionId then er_criterionId else er_findingId)
      in if \<not> context_complete ctx then None
         else if \<not> truthy scopeId then None
         else last_elem (js_sort (compare_evidence localeCompare)
                (filter (evidence_qualifies scopeKey (the scopeId) ctx allowed) evidence)))"

definition findCurrentCriterionEvidence ::
    "evidence_record list \<Rightarrow> string \<Rightarrow> evidence_context \<Rightarrow> string \<Rightarrow> evidence_record option" where
  "findCurrentCriterionEvidence evidence verificationType ctx status =
     (if \<not> context_complete ctx then None
      else find (\<lambda>e. er_status e = status
             \<and> er_submissionId e = ec_submissionId ctx
             \<and> er_snapshotKind e = ec_snapshotKind ctx
             \<and> er_snapshotRef e = ec_snapshotRef ctx
             \<and> (ec_reviewEpoch ctx = None \<or> er_reviewEpoch e = ec_reviewEpoch ctx)
             \<and> (case er_source e of None \<Rightarrow> False | Some s \<Rightarrow> isEvidenceSourceAllowed verificationType s)) evidence)"

section \<open>Resolution of findings\<close>

datatype resolution_reason =
    NoPassingIndependentEvidence string
  | MissingVerification string string
  | LatestVerificationNotPassed string string string
  | IncompleteSubmissionContext string

record finding_resolution =
  fr_resolved :: bool
  fr_reasons :: "resolution_reason list"
  fr_qualifyingEvidenceIds :: "string list"

text \<open>The test every filter of evaluateEffectiveFindingResolution shares.\<close>

definition finding_evidence_at :: "string \<Rightarrow> evidence_context \<Rightarrow> evidence_record \<Rightarrow> bool" where
  "finding_evidence_at findingId ctx e \<longleftrightarrow>
     er_findingId e = Some findingId
     \<and> er_submissionId e = ec_submissionId ctx
     \<and> er_snapshotKind e = ec_snapshotKind ctx
     \<and> er_snapshotRef e = ec_snapshotRef ctx
     \<and> er_reviewEpoch e = ec_reviewEpoch ctx"

definition command_result ::
    "(string \<Rightarrow> string \<Rightarrow> int) \<Rightarrow> evidence_record list \<Rightarrow> string \<Rightarrow> evidence_context \<Rightarrow> string \<Rightarrow> evidence_record option" where
  "command_result localeCompare evidence findingId ctx command =
     selectEffectiveEvidenceResult localeCompare
       (filter (\<lambda>e. finding_evidence_at findingId ctx e \<and> er_command e = Some command
          \<and> (er_source e = Some ''server_test_runner'' \<or> er_source e = Some ''runtime_probe'')) evidence)
       None (Some findingId) ctx None"

fun resolve_commands ::
    "(string \<Rightarrow> string \<Rightarrow> int) \<Rightarrow> evidence_record list \<Rightarrow> string \<Rightarrow> evidence_context \<Rightarrow> string list
     \<Rightarrow> resolution_reason list \<Rightarrow> string list \<Rightarrow> resolution_reason list \<times> string list" where
  "resolve_commands localeCompare evidence findingId ctx [] reasons ids = (reasons, ids)"
| "resolve_commands localeCompare evidence findingId ctx (command # commands) reasons ids =
     (case command_result localeCompare evidence findingId ctx command of
        None \<Rightarrow> resolve_commands localeCompare evidence findingId ctx commands
                  (reasons @ [MissingVerification findingId command]) ids
      | Some e \<Rightarrow>
          if er_status e \<noteq> ''passed''
          then resolve_commands localeCompare evidence findingId ctx commands
                 (reasons @ [LatestVerificationNotPassed findingId command (er_status e)]) ids
          else resolve_commands localeCompare evidence findingId ctx commands reasons (ids @ [er_id e]))"

definition attestation_result ::
    "(string \<Rightarrow> string \<Rightarrow> int) \<Rightarrow> evidence_record list \<Rightarrow> string \<Rightarrow> evidence_context \<Rightarrow> evidence_record option" where
  "attestation_result localeCompare evidence findingId ctx =
     selectEffectiveEvidenceResult localeCompare
       (filter (\<lambda>e. finding_evidence_at findingId ctx e \<and> er_source e = Some ''reviewer_manual_attestation'') evidence)
       None (Some findingId) ctx None"

definition evaluateEffectiveFindingResolution ::
    "(string \<Rightarrow> string \<Rightarrow> int) \<Rightarrow> evidence_record list \<Rightarrow> string list \<Rightarrow> string \<Rightarrow> evidence_context \<Rightarrow> finding_resolution" where
  "evaluateEffectiveFindingResolution localeCompare evidence requiredCommands findingId ctx =
     (if requiredCommands = [] then
        (case attestation_result localeCompare evidence findingId ctx of
           Some e \<Rightarrow>
             if er_status e \<noteq> ''passed''
             then \<lparr>fr_resolved = False, fr_reasons = [NoPassingIndependentEvidence findingId], fr_qualifyingEvidenceIds = []\<rparr>
             else \<lparr>fr_resolved = True, fr_reasons = [], fr_qualifyingEvidenceIds = [er_id e]\<rparr>
         | None \<Rightarrow> \<lparr>fr_resolved = False, fr_reasons = [NoPassingIndependentEvidence findingId], fr_qualifyingEvidenceIds = []\<rparr>)
      else let (reasons, ids) = resolve_commands localeCompare evidence findingId ctx requiredCommands [] []
           in \<lparr>fr_resolved = (reasons = []), fr_reasons = reasons, fr_qualifyingEvidenceIds = ids\<rparr>)"

definition evaluateFindingResolutionEvidence ::
    "evidence_record list \<Rightarrow> string list \<Rightarrow> evidence_context \<Rightarrow> evidence_record list \<times> string list" where
  "evaluateFindingResolutionEvidence evidence requiredCommands ctx =
     (let eligible = filter (\<lambda>e. er_status e = ''passed''
            \<and> er_submissionId e = ec_submissionId ctx
            \<and> er_snapshotKind e = ec_snapshotKind ctx
            \<and> er_snapshotRef e = ec_snapshotRef ctx
            \<and> er_reviewEpoch e = ec_reviewEpoch ctx
            \<and> (if requiredCommands \<noteq> []
               then (er_source e = Some ''server_test_runner'' \<or> er_source e = Some ''runtime_probe'')
                    \<and> truthy (er_command e) \<and> the (er_command e) \<in> set requiredCommands
               else er_source e = Some ''reviewer_manual_attestation'')) evidence;
          covered = map (\<lambda>e. the (er_command e)) (filter (\<lambda>e. truthy (er_command e)) eligible)
      in (eligible, filter (\<lambda>c. c \<notin> set covered) requiredCommands))"

subsection \<open>The latest attempt decides\<close>

text \<open>
  What the code relies on of \<open>localeCompare\<close>: the comparison of row ids is a total preorder.
  \<open>code_unit_compare\<close> is one such comparison.
\<close>

definition collates :: "(string \<Rightarrow> string \<Rightarrow> int) \<Rightarrow> bool" where
  "collates localeCompare \<longleftrightarrow>
     (\<forall>a b c. localeCompare a b \<le> 0 \<longrightarrow> localeCompare b c \<le> 0 \<longrightarrow> localeCompare a c \<le> 0)
     \<and> (\<forall>a b. localeCompare a b \<le> 0 \<or> localeCompare b a \<le> 0)"

definition code_unit_compare :: "string \<Rightarrow> string \<Rightarrow> int" where
  "code_unit_compare a b = (if a < b then - 1 else if a = b then 0 else 1)"

lemma collates_code_unit: "collates code_unit_compare"
  by (auto simp: collates_def code_unit_compare_def split: if_splits)

definition authoritative :: "(string \<Rightarrow> string \<Rightarrow> int) \<Rightarrow> (evidence_record \<Rightarrow> bool) \<Rightarrow> evidence_record list \<Rightarrow> evidence_record \<Rightarrow> bool" where
  "authoritative localeCompare P evidence e \<longleftrightarrow>
     e \<in> set evidence \<and> P e \<and> (\<forall>x \<in> set evidence. P x \<longrightarrow> compare_evidence localeCompare x e \<le> 0)"

lemma compare_time_le: "compare_time a b \<le> 0 \<longleftrightarrow> a = None \<or> (\<exists>x y. a = Some x \<and> b = Some y \<and> x \<le> y)"
  by (cases "(a, b)" rule: compare_time.cases) auto

lemma compare_time_zero: "compare_time a b = 0 \<longleftrightarrow> a = b"
  by (cases "(a, b)" rule: compare_time.cases) auto

lemma compare_evidence_le:
  "compare_evidence lc l r \<le> 0 \<longleftrightarrow>
     evidenceAttempt l < evidenceAttempt r
     \<or> evidenceAttempt l = evidenceAttempt r
       \<and> (er_createdAt l \<noteq> er_createdAt r \<and> compare_time (er_createdAt l) (er_createdAt r) \<le> 0
          \<or> er_createdAt l = er_createdAt r \<and> lc (er_id l) (er_id r) \<le> 0)"
  by (auto simp: compare_evidence_def Let_def compare_time_zero)

lemma compare_evidence_total:
  assumes "collates lc"
  shows "compare_evidence lc a b \<le> 0 \<or> compare_evidence lc b a \<le> 0"
proof -
  have "compare_time s t \<le> 0 \<or> compare_time t s \<le> 0" for s t
    by (cases s; cases t) auto
  moreover have "lc (er_id a) (er_id b) \<le> 0 \<or> lc (er_id b) (er_id a) \<le> 0"
    using assms by (simp add: collates_def)
  ultimately show ?thesis
    unfolding compare_evidence_le by (metis linorder_neqE)
qed

lemma compare_evidence_trans:
  assumes lc: "collates lc" and ab: "compare_evidence lc a b \<le> 0" and bc: "compare_evidence lc b c \<le> 0"
  shows "compare_evidence lc a c \<le> 0"
proof (cases "evidenceAttempt a = evidenceAttempt b \<and> evidenceAttempt b = evidenceAttempt c")
  case False
  then show ?thesis using ab bc unfolding compare_evidence_le by linarith
next
  case True
  have tr: "compare_time s u \<le> 0 \<and> (s = u \<longrightarrow> s = t)" if "compare_time s t \<le> 0" "compare_time t u \<le> 0" for s t u
    using that by (auto simp: compare_time_le)
  have refl: "compare_time s s \<le> 0" for s by (cases s) auto
  have ids: "lc (er_id a) (er_id c) \<le> 0" if "lc (er_id a) (er_id b) \<le> 0" "lc (er_id b) (er_id c) \<le> 0"
    using lc that unfolding collates_def by blast
  show ?thesis
    using True ab bc tr [of "er_createdAt a" "er_createdAt b" "er_createdAt c"] ids refl
    unfolding compare_evidence_le by (metis less_irrefl)
qed

lemma last_evidence_authoritative:
  assumes "collates lc" and "last_elem (js_sort (compare_evidence lc) (filter P evidence)) = Some e"
  shows "authoritative lc P evidence e"
proof -
  have "e \<in> set (filter P evidence)" using last_elem_SomeD [OF assms(2)] by simp
  moreover have "compare_evidence lc x e \<le> 0" if "x \<in> set (filter P evidence)" for x
    using assms(2) that compare_evidence_trans [OF assms(1)] compare_evidence_total [OF assms(1)]
    by (rule last_elem_js_sort_max)
  ultimately show ?thesis by (simp add: authoritative_def)
qed

lemma select_criterion_None:
  assumes "context_complete ctx" "i \<noteq> []"
  shows "selectEffectiveEvidenceResult lc evidence (Some i) None ctx allowed = None
    \<longleftrightarrow> (\<forall>e \<in> set evidence. \<not> evidence_qualifies er_criterionId i ctx allowed e)"
  using assms by (auto simp: selectEffectiveEvidenceResult_def Let_def filter_empty_conv)

lemma select_criterion_Some:
  assumes "collates lc" and "selectEffectiveEvidenceResult lc evidence (Some i) None ctx allowed = Some e"
  shows "authoritative lc (evidence_qualifies er_criterionId i ctx allowed) evidence e"
  using assms
  by (auto simp: selectEffectiveEvidenceResult_def Let_def split: if_splits intro: last_evidence_authoritative)

lemma select_finding_filtered:
  assumes "collates lc" "context_complete ctx" "i \<noteq> []"
    and P: "\<And>e. P e \<Longrightarrow> evidence_qualifies er_findingId i ctx None e"
  shows "case selectEffectiveEvidenceResult lc (filter P evidence) None (Some i) ctx None of
      None \<Rightarrow> \<forall>e \<in> set evidence. \<not> P e
    | Some e \<Rightarrow> authoritative lc P evidence e"
proof -
  have "filter (evidence_qualifies er_findingId i ctx None) (filter P evidence) = filter P evidence"
    using P by (auto intro: filter_cong)
  then have "selectEffectiveEvidenceResult lc (filter P evidence) None (Some i) ctx None
      = last_elem (js_sort (compare_evidence lc) (filter P evidence))"
    using assms(2,3) by (simp add: selectEffectiveEvidenceResult_def Let_def)
  then show ?thesis
    using last_evidence_authoritative [OF assms(1), of P evidence]
    by (auto split: option.splits simp: filter_empty_conv)
qed

lemma evidence_qualifies_finding:
  "finding_evidence_at i ctx e \<Longrightarrow> truthy (er_source e) \<Longrightarrow> evidence_qualifies er_findingId i ctx None e"
  by (simp add: finding_evidence_at_def evidence_qualifies_def)

definition verifies_command :: "string \<Rightarrow> evidence_context \<Rightarrow> string \<Rightarrow> evidence_record \<Rightarrow> bool" where
  "verifies_command findingId ctx command e \<longleftrightarrow> finding_evidence_at findingId ctx e \<and> er_command e = Some command
     \<and> (er_source e = Some ''server_test_runner'' \<or> er_source e = Some ''runtime_probe'')"

definition attests :: "string \<Rightarrow> evidence_context \<Rightarrow> evidence_record \<Rightarrow> bool" where
  "attests findingId ctx e \<longleftrightarrow> finding_evidence_at findingId ctx e \<and> er_source e = Some ''reviewer_manual_attestation''"

lemma command_result_cases:
  assumes "collates lc" "context_complete ctx" "i \<noteq> []"
  shows "case command_result lc evidence i ctx command of
      None \<Rightarrow> \<forall>e \<in> set evidence. \<not> verifies_command i ctx command e
    | Some e \<Rightarrow> authoritative lc (verifies_command i ctx command) evidence e"
  unfolding command_result_def verifies_command_def
  by (rule select_finding_filtered [OF assms]) (auto intro: evidence_qualifies_finding)

lemma attestation_result_cases:
  assumes "collates lc" "context_complete ctx" "i \<noteq> []"
  shows "case attestation_result lc evidence i ctx of
      None \<Rightarrow> \<forall>e \<in> set evidence. \<not> attests i ctx e
    | Some e \<Rightarrow> authoritative lc (attests i ctx) evidence e"
  unfolding attestation_result_def attests_def
  by (rule select_finding_filtered [OF assms]) (auto intro: evidence_qualifies_finding)

lemma resolve_commands_Nil_iff:
  "fst (resolve_commands lc evidence i ctx commands reasons ids) = [] \<longleftrightarrow>
     reasons = [] \<and> (\<forall>command \<in> set commands. \<exists>e. command_result lc evidence i ctx command = Some e \<and> er_status e = ''passed'')"
  by (induction lc evidence i ctx commands reasons ids rule: resolve_commands.induct) (auto split: option.splits)

lemma fr_resolved_iff:
  "fr_resolved (evaluateEffectiveFindingResolution lc evidence commands i ctx) \<longleftrightarrow>
     (if commands = [] then \<exists>e. attestation_result lc evidence i ctx = Some e \<and> er_status e = ''passed''
      else \<forall>command \<in> set commands. \<exists>e. command_result lc evidence i ctx command = Some e \<and> er_status e = ''passed'')"
  using resolve_commands_Nil_iff [of lc evidence i ctx commands "[]" "[]"]
  by (auto simp: evaluateEffectiveFindingResolution_def split: option.splits prod.splits)

text \<open>
  One authoritative record decides a criterion: the record selected for a criterion in a
  complete submission context belongs to that criterion, submission and snapshot, comes from an
  allowed source, and no qualifying record has a later attempt or, at the same attempt, a later
  time. Records of other sources, submissions or snapshots never displace it: nothing is selected
  only when no record qualifies.
\<close>

theorem evidence_latest_authoritative:
  assumes "collates lc" "context_complete ctx" "i \<noteq> []"
  shows "case selectEffectiveEvidenceResult lc evidence (Some i) None ctx (Some allowed) of
      None \<Rightarrow> \<forall>e \<in> set evidence. \<not> evidence_qualifies er_criterionId i ctx (Some allowed) e
    | Some e \<Rightarrow> e \<in> set evidence \<and> er_criterionId e = Some i \<and> er_submissionId e = ec_submissionId ctx
        \<and> er_snapshotKind e = ec_snapshotKind ctx \<and> er_snapshotRef e = ec_snapshotRef ctx
        \<and> (\<exists>source. er_source e = Some source \<and> allowed source)
        \<and> (\<forall>x \<in> set evidence. evidence_qualifies er_criterionId i ctx (Some allowed) x \<longrightarrow>
             evidenceAttempt x \<le> evidenceAttempt e
             \<and> (evidenceAttempt x = evidenceAttempt e \<longrightarrow> compare_time (er_createdAt x) (er_createdAt e) \<le> 0))"
proof (cases "selectEffectiveEvidenceResult lc evidence (Some i) None ctx (Some allowed)")
  case None
  then have "\<forall>e \<in> set evidence. \<not> evidence_qualifies er_criterionId i ctx (Some allowed) e"
    using select_criterion_None [OF assms(2,3)] by blast
  then show ?thesis using None by simp
next
  case (Some e)
  note a = select_criterion_Some [OF assms(1) Some]
  have "compare_time t t \<le> 0" for t by (cases t) auto
  then have "evidenceAttempt x \<le> evidenceAttempt e \<and>
      (evidenceAttempt x = evidenceAttempt e \<longrightarrow> compare_time (er_createdAt x) (er_createdAt e) \<le> 0)"
    if "compare_evidence lc x e \<le> 0" for x
    using that unfolding compare_evidence_le by (metis less_imp_le less_irrefl order_refl)
  with a Some show ?thesis
    by (auto simp: authoritative_def evidence_qualifies_def truthy_def split: option.splits)
qed

text \<open>
  A finding is resolved exactly on its latest evidence: with required commands, when for every
  command the authoritative server-run record of that command in the current submission passed,
  so one failing or missing command keeps it unresolved; without commands, when the authoritative
  reviewer attestation passed.
\<close>

theorem finding_resolution_exact:
  assumes "collates lc" "context_complete ctx" "i \<noteq> []"
  shows "if fr_resolved (evaluateEffectiveFindingResolution lc evidence commands i ctx)
    then (if commands = [] then \<exists>e. authoritative lc (attests i ctx) evidence e \<and> er_status e = ''passed''
      else \<forall>command \<in> set commands. \<exists>e. authoritative lc (verifies_command i ctx command) evidence e \<and> er_status e = ''passed'')
    else (if commands = [] then (\<exists>e. authoritative lc (attests i ctx) evidence e \<and> er_status e \<noteq> ''passed'')
        \<or> (\<forall>e \<in> set evidence. \<not> attests i ctx e)
      else \<exists>command \<in> set commands. (\<exists>e. authoritative lc (verifies_command i ctx command) evidence e \<and> er_status e \<noteq> ''passed'')
        \<or> (\<forall>e \<in> set evidence. \<not> verifies_command i ctx command e))"
proof (cases "commands = []")
  case True
  then show ?thesis
    using attestation_result_cases [OF assms, of evidence] by (auto simp: fr_resolved_iff split: option.splits)
next
  case False
  have c: "(\<exists>e. command_result lc evidence i ctx command = Some e \<and> er_status e = ''passed''
        \<and> authoritative lc (verifies_command i ctx command) evidence e)
      \<or> (\<exists>e. command_result lc evidence i ctx command = Some e \<and> er_status e \<noteq> ''passed''
        \<and> authoritative lc (verifies_command i ctx command) evidence e)
      \<or> command_result lc evidence i ctx command = None \<and> (\<forall>e \<in> set evidence. \<not> verifies_command i ctx command e)"
    for command
    using command_result_cases [OF assms, of evidence command] by (auto split: option.splits)
  show ?thesis
  proof (cases "fr_resolved (evaluateEffectiveFindingResolution lc evidence commands i ctx)")
    case True
    then show ?thesis using False c by (simp add: fr_resolved_iff) (metis option.distinct(1) option.inject)
  next
    case unres: False
    then obtain command where "command \<in> set commands"
      "\<not> (\<exists>e. command_result lc evidence i ctx command = Some e \<and> er_status e = ''passed'')"
      using False by (auto simp: fr_resolved_iff)
    then show ?thesis using c [of command] unres False by auto
  qed
qed

definition demo_context :: evidence_context where
  "demo_context = \<lparr>ec_submissionId = Some ''s1'', ec_snapshotKind = Some ''commit'', ec_snapshotRef = Some ''abc'', ec_reviewEpoch = Some 1\<rparr>"

definition demo_evidence :: "string \<Rightarrow> string \<Rightarrow> int \<Rightarrow> evidence_record" where
  "demo_evidence source status attempt = \<lparr>er_id = status, er_status = status, er_submissionId = Some ''s1'',
     er_reviewEpoch = Some 1, er_snapshotKind = Some ''commit'', er_snapshotRef = Some ''abc'', er_criterionId = Some ''c1'',
     er_findingId = Some ''f1'', er_attempt = Some attempt, er_createdAt = Some (10 * attempt),
     er_command = Some ''npm test'', er_source = Some source\<rparr>"

definition demo_attempts :: "evidence_record list" where
  "demo_attempts = [demo_evidence ''server_test_runner'' ''failed'' 2, demo_evidence ''server_test_runner'' ''passed'' 1,
     demo_evidence ''agent_claim'' ''passed'' 3]"

theorem evidence_latest_authoritative_witness:
  "selectEffectiveEvidenceResult code_unit_compare demo_attempts (Some ''c1'') None demo_context
      (Some (isEvidenceSourceAllowed ''test'')) = Some (demo_evidence ''server_test_runner'' ''failed'' 2)
   \<and> list_all (\<lambda>x. evidence_qualifies er_criterionId ''c1'' demo_context (Some (isEvidenceSourceAllowed ''test'')) x
        \<longrightarrow> evidenceAttempt x \<le> 2) demo_attempts"
proof -
  have sel: "selectEffectiveEvidenceResult code_unit_compare demo_attempts (Some ''c1'') None demo_context
      (Some (isEvidenceSourceAllowed ''test'')) = Some (demo_evidence ''server_test_runner'' ''failed'' 2)" by code_simp
  have ctx: "context_complete demo_context" by code_simp
  have att: "evidenceAttempt (demo_evidence ''server_test_runner'' ''failed'' 2) = 2" by code_simp
  show ?thesis
    using evidence_latest_authoritative [OF collates_code_unit ctx, of "''c1''" demo_attempts "isEvidenceSourceAllowed ''test''"] sel att
    by (simp add: list_all_iff)
qed

theorem finding_resolution_exact_witness:
  "\<not> fr_resolved (evaluateEffectiveFindingResolution code_unit_compare demo_attempts [''npm test''] ''f1'' demo_context)
   \<and> (\<exists>e. authoritative code_unit_compare (verifies_command ''f1'' demo_context ''npm test'') demo_attempts e \<and> er_status e \<noteq> ''passed'')"
proof -
  have un: "\<not> fr_resolved (evaluateEffectiveFindingResolution code_unit_compare demo_attempts [''npm test''] ''f1'' demo_context)"
    by code_simp
  have ctx: "context_complete demo_context" by code_simp
  have some: "\<exists>e \<in> set demo_attempts. verifies_command ''f1'' demo_context ''npm test'' e" by code_simp
  show ?thesis
    using finding_resolution_exact [OF collates_code_unit ctx, of "''f1''" demo_attempts "[''npm test'']"] un some by auto
qed

section \<open>Effective criteria\<close>

datatype criterion_status = Unverified | PartiallyVerified | Verified | CriterionFailed

record outcome_criterion =
  oc_id :: string
  oc_description :: string
  oc_priority :: string
  oc_verificationType :: string
  oc_dependsOn :: "string list option"
  oc_status :: string

datatype stale_reason =
    CriterionMissing
  | CriterionCycle
  | StoredStatusUnproven string "string option"
  | DependenciesUnverified
  | LatestInconclusive

record criterion_state =
  cs_criterionId :: string
  cs_status :: criterion_status
  cs_evidenceId :: "string option"
  cs_staleReason :: "stale_reason option"
  cs_dependenciesSatisfied :: bool

definition outcome_by_id :: "outcome_criterion list \<Rightarrow> (string \<times> outcome_criterion) list" where
  "outcome_by_id criteria = map (\<lambda>c. (oc_id c, c)) criteria"

definition criterion_deps :: "(string \<times> outcome_criterion) list \<Rightarrow> string \<Rightarrow> string list" where
  "criterion_deps byId i = (case map_of (rev byId) i of None \<Rightarrow> [] | Some c \<Rightarrow> coalesce (oc_dependsOn c) [])"

definition unknown_state :: "string \<Rightarrow> stale_reason \<Rightarrow> criterion_state" where
  "unknown_state i reason = \<lparr>cs_criterionId = i, cs_status = Unverified, cs_evidenceId = None,
     cs_staleReason = Some reason, cs_dependenciesSatisfied = False\<rparr>"

text \<open>The part of \<open>evaluate\<close> after the dependencies are known.\<close>

definition state_of_criterion ::
    "(outcome_criterion \<Rightarrow> evidence_record option) \<Rightarrow> evidence_context \<Rightarrow> string \<Rightarrow> outcome_criterion \<Rightarrow> bool \<Rightarrow> criterion_state" where
  "state_of_criterion evidenceFor ctx i c dependenciesSatisfied =
     (let evidence = evidenceFor c;
          es = map_option er_status evidence;
          baseStatus = (if es = Some ''passed'' then Verified else if es = Some ''failed'' then CriterionFailed else Unverified);
          status = (if baseStatus = Verified \<and> dependenciesSatisfied then Verified
                    else if baseStatus = Verified then Unverified else baseStatus);
          staleReason =
            (if evidence = None \<and> oc_status c \<noteq> ''unverified'' then Some (StoredStatusUnproven (oc_status c) (ec_submissionId ctx))
             else if baseStatus = Verified \<and> \<not> dependenciesSatisfied then Some DependenciesUnverified
             else if es = Some ''inconclusive'' then Some LatestInconclusive
             else None)
      in \<lparr>cs_criterionId = i, cs_status = status, cs_evidenceId = map_option er_id evidence,
          cs_staleReason = staleReason, cs_dependenciesSatisfied = dependenciesSatisfied\<rparr>)"

function (sequential) evaluate_criterion ::
    "(string \<times> outcome_criterion) list \<Rightarrow> (outcome_criterion \<Rightarrow> evidence_record option) \<Rightarrow> evidence_context
     \<Rightarrow> string set \<Rightarrow> string \<Rightarrow> (string \<rightharpoonup> criterion_state) \<Rightarrow> criterion_state \<times> (string \<rightharpoonup> criterion_state)"
  and evaluate_criteria ::
    "(string \<times> outcome_criterion) list \<Rightarrow> (outcome_criterion \<Rightarrow> evidence_record option) \<Rightarrow> evidence_context
     \<Rightarrow> string set \<Rightarrow> string list \<Rightarrow> (string \<rightharpoonup> criterion_state) \<Rightarrow> criterion_state list \<times> (string \<rightharpoonup> criterion_state)" where
  "evaluate_criterion byId ef ctx visiting i states =
     (case states i of
        Some s \<Rightarrow> (s, states)
      | None \<Rightarrow>
          (case map_of (rev byId) i of
             None \<Rightarrow> (unknown_state i CriterionMissing, states)
           | Some c \<Rightarrow>
               if i \<in> visiting then (unknown_state i CriterionCycle, states)
               else (case evaluate_criteria byId ef ctx (insert i visiting) (coalesce (oc_dependsOn c) []) states of
                       (dependencies, states') \<Rightarrow>
                         let s = state_of_criterion ef ctx i c (list_all (\<lambda>d. cs_status d = Verified) dependencies)
                         in (s, states'(i \<mapsto> s)))))"
| "evaluate_criteria byId ef ctx visiting [] states = ([], states)"
| "evaluate_criteria byId ef ctx visiting (d # ds) states =
     (case evaluate_criterion byId ef ctx visiting d states of
        (s, states') \<Rightarrow>
          (case evaluate_criteria byId ef ctx visiting ds states' of
             (ss, states'') \<Rightarrow> (s # ss, states'')))"
  by pat_completeness auto

termination
proof (relation "measures
    [\<lambda>x. case x of Inl (b, ef, ctx, v, i, _) \<Rightarrow> card (fst ` set b - v) | Inr (b, ef, ctx, v, ds, _) \<Rightarrow> card (fst ` set b - v),
     \<lambda>x. case x of Inl _ \<Rightarrow> 0 | Inr (b, ef, ctx, v, ds, _) \<Rightarrow> Suc (length ds)]", goal_cases)
  case 1
  then show ?case by simp
next
  case (2 byId ef ctx visiting i states c)
  then have "i \<in> fst ` set byId" by (metis map_of_SomeD fst_conv image_eqI set_rev)
  then have "fst ` set byId - insert i visiting \<subset> fst ` set byId - visiting" using 2(3) by blast
  then have "card (fst ` set byId - insert i visiting) < card (fst ` set byId - visiting)"
    by (intro psubset_card_mono) simp_all
  then show ?case by simp
qed simp_all

declare evaluate_criterion.simps [simp del]

definition evaluateEffectiveCriteria ::
    "outcome_criterion list \<Rightarrow> (outcome_criterion \<Rightarrow> evidence_record option) \<Rightarrow> evidence_context \<Rightarrow> criterion_state list" where
  "evaluateEffectiveCriteria criteria ef ctx =
     (let byId = outcome_by_id criteria;
          states = snd (evaluate_criteria byId ef ctx {} (map oc_id criteria) Map.empty)
      in map (\<lambda>c. the (states (oc_id c))) criteria)"

subsection \<open>The memoised walk computes the least fixed point\<close>

text \<open>
  The specification: a criterion is effective when its evidence passed and all criteria it depends
  on are effective, least such relation, so that criteria on a dependency cycle never are.
\<close>

inductive effective ::
    "(string \<times> outcome_criterion) list \<Rightarrow> (outcome_criterion \<Rightarrow> evidence_record option) \<Rightarrow> string \<Rightarrow> bool"
  for byId ef where
  effective_step: "map_of (rev byId) i = Some c \<Longrightarrow> map_option er_status (ef c) = Some ''passed''
    \<Longrightarrow> (\<And>d. d \<in> set (coalesce (oc_dependsOn c) []) \<Longrightarrow> effective byId ef d) \<Longrightarrow> effective byId ef i"

inductive_simps effective_iff: "effective byId ef i"

definition spec_state ::
    "(string \<times> outcome_criterion) list \<Rightarrow> (outcome_criterion \<Rightarrow> evidence_record option) \<Rightarrow> evidence_context
     \<Rightarrow> string \<Rightarrow> outcome_criterion \<Rightarrow> criterion_state" where
  "spec_state byId ef ctx i c =
     state_of_criterion ef ctx i c (set (coalesce (oc_dependsOn c) []) \<subseteq> {d. effective byId ef d})"

definition memo_ok ::
    "(string \<times> outcome_criterion) list \<Rightarrow> (outcome_criterion \<Rightarrow> evidence_record option) \<Rightarrow> evidence_context
     \<Rightarrow> (string \<rightharpoonup> criterion_state) \<Rightarrow> bool" where
  "memo_ok byId ef ctx states \<longleftrightarrow>
     (\<forall>i s. states i = Some s \<longrightarrow> (\<exists>c. map_of (rev byId) i = Some c \<and> s = spec_state byId ef ctx i c))"

lemma effective_grounded: "effective b ef i \<Longrightarrow> grounded (criterion_deps b) i"
proof (induction rule: effective.induct)
  case (effective_step i c)
  show ?case
    by (rule grounded_step) (use effective_step in \<open>simp add: criterion_deps_def\<close>)
qed

lemma cs_status_state_of:
  "cs_status (state_of_criterion ef ctx i c sat) = Verified \<longleftrightarrow> map_option er_status (ef c) = Some ''passed'' \<and> sat"
  by (simp add: state_of_criterion_def Let_def)

lemma spec_state_verified:
  assumes "map_of (rev b) i = Some c"
  shows "cs_status (spec_state b ef ctx i c) = Verified \<longleftrightarrow> effective b ef i"
  using assms by (auto simp: spec_state_def cs_status_state_of effective_iff [of b ef i])

lemma memo_ok_verified: "memo_ok b ef ctx states \<Longrightarrow> states i = Some s \<Longrightarrow> cs_status s = Verified \<longleftrightarrow> effective b ef i"
  unfolding memo_ok_def using spec_state_verified by metis

lemma on_cycle_not_effective:
  assumes "(edge (criterion_deps b))\<^sup>+\<^sup>+ i i"
  shows "\<not> effective b ef i"
  using effective_grounded grounded_no_cycle assms by metis

lemma evaluate_walk:
  "evaluate_criterion b ef ctx V i states = (s, states') \<Longrightarrow> memo_ok b ef ctx states \<Longrightarrow>
     \<forall>v \<in> V. (edge (criterion_deps b))\<^sup>+\<^sup>+ v i \<Longrightarrow>
     memo_ok b ef ctx states' \<and> (cs_status s = Verified \<longleftrightarrow> effective b ef i) \<and> dom states \<subseteq> dom states'
     \<and> ({i} \<inter> fst ` set b - V \<subseteq> dom states')"
  "evaluate_criteria b ef ctx V ds states = (ss, states') \<Longrightarrow> memo_ok b ef ctx states \<Longrightarrow>
     \<forall>v \<in> V. \<forall>d \<in> set ds. (edge (criterion_deps b))\<^sup>+\<^sup>+ v d \<Longrightarrow>
     memo_ok b ef ctx states' \<and> (list_all (\<lambda>d. cs_status d = Verified) ss \<longleftrightarrow> set ds \<subseteq> {d. effective b ef d})
     \<and> dom states \<subseteq> dom states' \<and> (set ds \<inter> fst ` set b - V \<subseteq> dom states')"
proof (induction b ef ctx V i states and b ef ctx V ds states arbitrary: s states' and ss states'
    rule: evaluate_criterion_evaluate_criteria.induct)
  case (1 b ef ctx V i states)
  show ?case
  proof (cases "states i")
    case (Some t)
    then show ?thesis using 1 memo_ok_verified by (fastforce simp: evaluate_criterion.simps)
  next
    case new: None
    show ?thesis
    proof (cases "map_of (rev b) i")
      case None
      have "\<not> effective b ef i" using None by (simp add: effective_iff [of b ef i])
      moreover have "i \<notin> fst ` set b" using None by (metis map_of_eq_None_iff set_rev)
      ultimately show ?thesis using 1 new None by (auto simp: evaluate_criterion.simps unknown_state_def)
    next
      case known: (Some c)
      show ?thesis
      proof (cases "i \<in> V")
        case True
        then have "\<not> effective b ef i" using 1(4) on_cycle_not_effective by blast
        then show ?thesis using 1 new known True by (auto simp: evaluate_criterion.simps unknown_state_def)
      next
        case False
        obtain ss st where e: "evaluate_criteria b ef ctx (insert i V) (coalesce (oc_dependsOn c) []) states = (ss, st)"
          by (cases "evaluate_criteria b ef ctx (insert i V) (coalesce (oc_dependsOn c) []) states")
        have "\<forall>v \<in> insert i V. \<forall>d \<in> set (coalesce (oc_dependsOn c) []). (edge (criterion_deps b))\<^sup>+\<^sup>+ v d"
          using 1(4) known by (auto simp: criterion_deps_def intro: tranclp.intros)
        note IH = 1(1) [OF new known False e 1(3) this]
        have s: "s = spec_state b ef ctx i c" "states' = st(i \<mapsto> s)"
          using 1(2) new known False e IH by (auto simp: evaluate_criterion.simps spec_state_def Let_def)
        then show ?thesis using IH known spec_state_verified [OF known]
          by (auto simp: memo_ok_def)
      qed
    qed
  qed
next
  case (2 b ef ctx V states)
  then show ?case by auto
next
  case (3 b ef ctx V d ds states)
  obtain s1 st1 where e1: "evaluate_criterion b ef ctx V d states = (s1, st1)"
    by (cases "evaluate_criterion b ef ctx V d states")
  obtain ss2 st2 where e2: "evaluate_criteria b ef ctx V ds st1 = (ss2, st2)"
    by (cases "evaluate_criteria b ef ctx V ds st1")
  have r: "ss = s1 # ss2" "states' = st2" using 3(3) e1 e2 by auto
  have A: "memo_ok b ef ctx st1 \<and> (cs_status s1 = Verified \<longleftrightarrow> effective b ef d) \<and> dom states \<subseteq> dom st1
      \<and> ({d} \<inter> fst ` set b - V \<subseteq> dom st1)"
    using 3(1) [OF e1 3(4)] 3(5) by simp
  have B: "memo_ok b ef ctx st2 \<and> (list_all (\<lambda>d. cs_status d = Verified) ss2 \<longleftrightarrow> set ds \<subseteq> {d. effective b ef d})
      \<and> dom st1 \<subseteq> dom st2 \<and> (set ds \<inter> fst ` set b - V \<subseteq> dom st2)"
    using 3(2) [OF e1 [symmetric] e2] A 3(5) by simp
  have sub: "dom states \<subseteq> dom st1" "dom st1 \<subseteq> dom st2" "{d} \<inter> fst ` set b - V \<subseteq> dom st1"
    "set ds \<inter> fst ` set b - V \<subseteq> dom st2" using A B by blast+
  have "set (d # ds) \<inter> fst ` set b - V = ({d} \<inter> fst ` set b - V) \<union> (set ds \<inter> fst ` set b - V)" by auto
  then have "set (d # ds) \<inter> fst ` set b - V \<subseteq> dom st2"
    using subset_trans [OF sub(3) sub(2)] sub(4) by (simp only: Un_least)
  moreover have "dom states \<subseteq> dom st2" using sub(1,2) by (rule subset_trans)
  ultimately show ?case unfolding r using A B by simp
qed

lemma evaluate_all_memo:
  fixes criteria :: "outcome_criterion list"
  defines "b \<equiv> outcome_by_id criteria"
  assumes "c \<in> set criteria"
  obtains c' where "map_of (rev b) (oc_id c) = Some c'"
    "snd (evaluate_criteria b ef ctx {} (map oc_id criteria) Map.empty) (oc_id c) = Some (spec_state b ef ctx (oc_id c) c')"
proof -
  obtain ss st where e: "evaluate_criteria b ef ctx {} (map oc_id criteria) Map.empty = (ss, st)"
    by (cases "evaluate_criteria b ef ctx {} (map oc_id criteria) Map.empty")
  have "memo_ok b ef ctx Map.empty" by (simp add: memo_ok_def)
  note w = evaluate_walk(2) [OF e this]
  have "oc_id c \<in> fst ` set b" using assms(2) by (auto simp: b_def outcome_by_id_def image_image)
  then have "oc_id c \<in> dom st" using w assms(2) by auto
  then obtain s where "st (oc_id c) = Some s" by blast
  then show thesis using w that e by (auto simp: memo_ok_def)
qed

lemma evaluate_state:
  fixes criteria :: "outcome_criterion list"
  defines "b \<equiv> outcome_by_id criteria"
  assumes c: "c \<in> set criteria"
  shows "the (snd (evaluate_criteria b ef ctx {} (map oc_id criteria) Map.empty) (oc_id c))
      = spec_state b ef ctx (oc_id c) (the (map_of (rev b) (oc_id c)))"
    and "cs_status (spec_state b ef ctx (oc_id c) (the (map_of (rev b) (oc_id c)))) = Verified \<longleftrightarrow> effective b ef (oc_id c)"
proof -
  obtain c' where "map_of (rev b) (oc_id c) = Some c'"
    "snd (evaluate_criteria b ef ctx {} (map oc_id criteria) Map.empty) (oc_id c) = Some (spec_state b ef ctx (oc_id c) c')"
    using evaluate_all_memo [OF c] unfolding b_def .
  then show "the (snd (evaluate_criteria b ef ctx {} (map oc_id criteria) Map.empty) (oc_id c))
      = spec_state b ef ctx (oc_id c) (the (map_of (rev b) (oc_id c)))"
    "cs_status (spec_state b ef ctx (oc_id c) (the (map_of (rev b) (oc_id c)))) = Verified \<longleftrightarrow> effective b ef (oc_id c)"
    using spec_state_verified by (fastforce, fastforce)
qed

lemma evaluateEffectiveCriteria_eq:
  "evaluateEffectiveCriteria criteria ef ctx
     = map (\<lambda>c. spec_state (outcome_by_id criteria) ef ctx (oc_id c)
         (the (map_of (rev (outcome_by_id criteria)) (oc_id c)))) criteria"
  by (simp add: evaluateEffectiveCriteria_def Let_def evaluate_state(1) cong: map_cong)

text \<open>
  C35. The memoised walk over the criteria computes the least fixed point, on every dependency
  graph, cyclic ones included: the state reported for each criterion is the one its own evidence
  and the effectiveness of its direct dependencies determine, and a criterion is reported verified
  exactly when its evidence passed and so, recursively, did everything it depends on.
\<close>

theorem effective_criteria_least_fixpoint:
  shows "evaluateEffectiveCriteria criteria ef ctx
      = map (\<lambda>c. spec_state (outcome_by_id criteria) ef ctx (oc_id c)
          (the (map_of (rev (outcome_by_id criteria)) (oc_id c)))) criteria
    \<and> map (\<lambda>s. cs_status s = Verified) (evaluateEffectiveCriteria criteria ef ctx)
      = map (\<lambda>c. effective (outcome_by_id criteria) ef (oc_id c)) criteria"
proof
  show "map (\<lambda>s. cs_status s = Verified) (evaluateEffectiveCriteria criteria ef ctx)
      = map (\<lambda>c. effective (outcome_by_id criteria) ef (oc_id c)) criteria"
    by (simp add: evaluateEffectiveCriteria_eq evaluate_state(2) cong: map_cong)
qed (rule evaluateEffectiveCriteria_eq)

section \<open>Outcome observations\<close>

record outcome_observation =
  oo_submissionId :: string
  oo_reviewEpoch :: int
  oo_snapshotKind :: string
  oo_snapshotRef :: string
  oo_observerIdentity :: string
  oo_observerPrincipalId :: string
  oo_observationSource :: string
  oo_externalEvidenceSha256 :: string
  oo_expectedBehavior :: string
  oo_actualBehavior :: string
  oo_status :: string
  oo_observedAt :: iso_time

record observation_context =
  ox_submissionId :: string
  ox_reviewEpoch :: int
  ox_snapshotKind :: string
  ox_snapshotRef :: string
  ox_expectedBehavior :: string

definition is_sha256_hex :: "string \<Rightarrow> bool" where
  "is_sha256_hex s \<longleftrightarrow> length s = 64 \<and> list_all (\<lambda>c. c \<in> set ''abcdef0123456789'') s"

definition observation_matches :: "observation_context \<Rightarrow> outcome_observation \<Rightarrow> bool" where
  "observation_matches ctx o' \<longleftrightarrow>
     oo_submissionId o' = ox_submissionId ctx
     \<and> oo_reviewEpoch o' = ox_reviewEpoch ctx
     \<and> oo_snapshotKind o' = ox_snapshotKind ctx
     \<and> oo_snapshotRef o' = ox_snapshotRef ctx
     \<and> oo_expectedBehavior o' = ox_expectedBehavior ctx
     \<and> oo_observationSource o' = ''firsthand_authenticated_external_reviewer''
     \<and> trim (oo_observerPrincipalId o') \<noteq> []
     \<and> is_sha256_hex (oo_externalEvidenceSha256 o')"

datatype mission_reason =
    NoOutcomeObservation
  | OutcomeRejected string iso_time
  | NoConfirmedObservation
  | IntegrationReportMissing string
  | IntegrationReportEmpty string
  | CriterionNotVerified string criterion_status "stale_reason option" string
  | FindingNotEvaluated string
  | FindingNotResolved string "resolution_reason list"
  | FindingOpen string string string string
  | FinalVerificationNotPassed
  | CoverageMissing "string list"

definition evaluateOutcomeObservations ::
    "outcome_observation list \<Rightarrow> observation_context \<Rightarrow> bool \<times> mission_reason list" where
  "evaluateOutcomeObservations observations ctx =
     (let matching = filter (observation_matches ctx) observations
      in case first_row (js_sort (\<lambda>a b. compare_time (Some (oo_observedAt b)) (Some (oo_observedAt a))) matching) of
           None \<Rightarrow> (False, [NoOutcomeObservation])
         | Some latest \<Rightarrow>
             if oo_status latest = ''rejected''
             then (False, [OutcomeRejected (oo_observerIdentity latest) (oo_observedAt latest)])
             else if oo_status latest \<noteq> ''confirmed'' \<or> trim (oo_observerIdentity latest) = []
             then (False, [NoConfirmedObservation])
             else (True, []))"

section \<open>The approval predicate\<close>

record outcome_finding =
  of_id :: string
  of_scope :: string
  of_disposition :: string
  of_severity :: string
  of_status :: string
  of_description :: string
  of_resolutionSubmissionId :: "string option"

record outcome_report =
  or_status :: string
  or_reviewCoverage :: "string list"
  or_results :: "json list option"

datatype evidence_level = ImplementationVerified | IntegrationVerified | OutcomeVerified | OperationallyStable

fun evidence_rank :: "evidence_level \<Rightarrow> nat" where
  "evidence_rank ImplementationVerified = 0"
| "evidence_rank IntegrationVerified = 1"
| "evidence_rank OutcomeVerified = 2"
| "evidence_rank OperationallyStable = 3"

fun level_text :: "evidence_level \<Rightarrow> string" where
  "level_text ImplementationVerified = ''implementation_verified''"
| "level_text IntegrationVerified = ''integration_verified''"
| "level_text OutcomeVerified = ''outcome_verified''"
| "level_text OperationallyStable = ''operationally_stable''"

record mission_input =
  mi_criteria :: "outcome_criterion list"
  mi_criterionStates :: "criterion_state list"
  mi_findings :: "outcome_finding list"
  mi_finalVerification :: "string list"
  mi_reviewCoverage :: "string list"
  mi_outcomeEvidence :: "evidence_level option"
  mi_currentReport :: "outcome_report option"
  mi_currentSubmissionId :: "string option"
  mi_observationContext :: "observation_context option"
  mi_findingResolutions :: "(string \<rightharpoonup> bool \<times> resolution_reason list) option"
  mi_observations :: "outcome_observation list option"

definition required_strength :: "mission_input \<Rightarrow> evidence_level" where
  "required_strength m = coalesce (mi_outcomeEvidence m) ImplementationVerified"

definition integration_reasons :: "mission_input \<Rightarrow> mission_reason list" where
  "integration_reasons m =
     (if evidence_rank (required_strength m) \<ge> evidence_rank IntegrationVerified
      then (case mi_currentReport m of
              None \<Rightarrow> [IntegrationReportMissing (level_text (required_strength m))]
            | Some r \<Rightarrow>
                if or_status r \<noteq> ''passed'' then [IntegrationReportMissing (level_text (required_strength m))]
                else if coalesce (or_results r) [] = [] then [IntegrationReportEmpty (level_text (required_strength m))]
                else [])
      else [])"

definition default_observation_context :: "mission_input \<Rightarrow> observation_context" where
  "default_observation_context m = \<lparr>ox_submissionId = coalesce (mi_currentSubmissionId m) [], ox_reviewEpoch = - 1,
     ox_snapshotKind = [], ox_snapshotRef = [], ox_expectedBehavior = []\<rparr>"

definition observation_reasons :: "mission_input \<Rightarrow> mission_reason list" where
  "observation_reasons m =
     (if evidence_rank (required_strength m) \<ge> evidence_rank OutcomeVerified
      then (case evaluateOutcomeObservations (coalesce (mi_observations m) [])
                   (coalesce (mi_observationContext m) (default_observation_context m)) of
              (satisfied, reasons) \<Rightarrow> if \<not> satisfied then reasons else [])
      else [])"

definition states_by_id :: "criterion_state list \<Rightarrow> string \<rightharpoonup> criterion_state" where
  "states_by_id states = map_of (rev (map (\<lambda>s. (cs_criterionId s, s)) states))"

definition criterion_reasons :: "(string \<rightharpoonup> criterion_state) \<Rightarrow> outcome_criterion \<Rightarrow> mission_reason list" where
  "criterion_reasons states c =
     (if oc_priority c = ''required'' then
        (case states (oc_id c) of
           None \<Rightarrow> [CriterionNotVerified (oc_id c) Unverified None (oc_description c)]
         | Some s \<Rightarrow>
             if cs_status s \<noteq> Verified
             then [CriterionNotVerified (oc_id c) (cs_status s) (cs_staleReason s) (oc_description c)] else [])
      else [])"

definition finding_reasons :: "(string \<rightharpoonup> bool \<times> resolution_reason list) option \<Rightarrow> outcome_finding \<Rightarrow> mission_reason list" where
  "finding_reasons resolutions f =
     (if of_scope f = ''out_of_scope'' then []
      else if of_disposition f \<noteq> ''blocking'' then []
      else if of_status f = ''waived'' then []
      else if of_status f = ''verified_resolved'' \<or> of_status f = ''claimed_resolved''
      then (case Option.bind resolutions (\<lambda>m. m (of_id f)) of
              None \<Rightarrow> [FindingNotEvaluated (of_id f)]
            | Some (resolved, reasons) \<Rightarrow> if \<not> resolved then [FindingNotResolved (of_id f) reasons] else [])
      else [FindingOpen (of_severity f) (of_id f) (of_status f) (of_description f)])"

definition final_reasons :: "mission_input \<Rightarrow> mission_reason list" where
  "final_reasons m =
     (if mi_finalVerification m \<noteq> [] \<and> map_option or_status (mi_currentReport m) \<noteq> Some ''passed''
      then [FinalVerificationNotPassed] else [])"

definition coverage_reasons :: "mission_input \<Rightarrow> mission_reason list" where
  "coverage_reasons m =
     (let covered = coalesce (map_option or_reviewCoverage (mi_currentReport m)) [];
          missing = filter (\<lambda>area. area \<notin> set covered) (mi_reviewCoverage m)
      in if missing \<noteq> [] then [CoverageMissing missing] else [])"

definition evaluateMissionOutcome :: "mission_input \<Rightarrow> bool \<times> mission_reason list" where
  "evaluateMissionOutcome m =
     (let states = states_by_id (mi_criterionStates m);
          reasons = integration_reasons m @ observation_reasons m
            @ concat (map (criterion_reasons states) (mi_criteria m))
            @ concat (map (finding_reasons (mi_findingResolutions m)) (mi_findings m))
            @ final_reasons m @ coverage_reasons m
      in (reasons = [], reasons))"

section \<open>The correction loop\<close>

record correction_round =
  cr_newFindingIds :: "string list"
  cr_resolvedFindingIds :: "string list option"
  cr_missionApproved :: "bool option"
  cr_madeProgress :: "bool option"

datatype extension_reason =
    ProgressCeiling int int
  | ProgressExtension nat int int
  | NoProgress
  | Converged
  | CorrectionCeiling int int
  | BlockingExtension nat int int bool

record extension_decision =
  ed_extend :: bool
  ed_round :: int
  ed_maxRounds :: int
  ed_reason :: extension_reason
  ed_ceilingHit :: bool

definition made_progress :: "correction_round \<Rightarrow> bool" where
  "made_progress r = coalesce (cr_madeProgress r) (0 < length (coalesce (cr_resolvedFindingIds r) []))"

definition evaluateCorrectionPolicy ::
    "int \<Rightarrow> int \<Rightarrow> nat \<Rightarrow> correction_round \<Rightarrow> bool option \<Rightarrow> extension_decision" where
  "evaluateCorrectionPolicy currentRound maxCorrectionRounds newBlockingCount r currentApproval =
     (let converged = (currentApproval = Some True \<or> cr_missionApproved r = Some True);
          nextRound = currentRound + 1
      in if newBlockingCount = 0 \<and> \<not> converged then
           (if made_progress r then
              (if nextRound > maxCorrectionRounds
               then \<lparr>ed_extend = False, ed_round = currentRound, ed_maxRounds = maxCorrectionRounds,
                     ed_reason = ProgressCeiling currentRound maxCorrectionRounds, ed_ceilingHit = True\<rparr>
               else \<lparr>ed_extend = True, ed_round = nextRound, ed_maxRounds = maxCorrectionRounds,
                     ed_reason = ProgressExtension (length (coalesce (cr_resolvedFindingIds r) [])) nextRound maxCorrectionRounds,
                     ed_ceilingHit = False\<rparr>)
            else \<lparr>ed_extend = False, ed_round = currentRound, ed_maxRounds = maxCorrectionRounds,
                  ed_reason = NoProgress, ed_ceilingHit = False\<rparr>)
         else if newBlockingCount = 0 \<and> converged
         then \<lparr>ed_extend = False, ed_round = currentRound, ed_maxRounds = maxCorrectionRounds,
               ed_reason = Converged, ed_ceilingHit = False\<rparr>
         else let effectiveMax = maxCorrectionRounds + (if made_progress r then 2 else 0)
              in if nextRound > effectiveMax
                 then \<lparr>ed_extend = False, ed_round = currentRound, ed_maxRounds = effectiveMax,
                       ed_reason = CorrectionCeiling currentRound effectiveMax, ed_ceilingHit = True\<rparr>
                 else \<lparr>ed_extend = True, ed_round = nextRound, ed_maxRounds = effectiveMax,
                       ed_reason = BlockingExtension newBlockingCount nextRound effectiveMax (made_progress r), ed_ceilingHit = False\<rparr>)"

section \<open>What the decisions promise\<close>

subsection \<open>The latest observation\<close>

text \<open>The head of a stable sort is the first of the least elements.\<close>

lemma first_js_insert:
  "first_row (js_insert cmp x ys)
     = Some (case first_row ys of None \<Rightarrow> x | Some y \<Rightarrow> if cmp x y \<le> 0 then x else y)"
  by (cases ys) simp_all

definition first_latest :: "outcome_observation list \<Rightarrow> outcome_observation \<Rightarrow> bool" where
  "first_latest os o' \<longleftrightarrow> (\<exists>before after. os = before @ o' # after
     \<and> (\<forall>x \<in> set before. oo_observedAt x < oo_observedAt o') \<and> (\<forall>x \<in> set after. oo_observedAt x \<le> oo_observedAt o'))"

abbreviation latest_first :: "outcome_observation \<Rightarrow> outcome_observation \<Rightarrow> int" where
  "latest_first a b \<equiv> compare_time (Some (oo_observedAt b)) (Some (oo_observedAt a))"

lemma first_latest_Cons:
  assumes "first_latest os o'"
  shows "first_latest (x # os) (if oo_observedAt o' \<le> oo_observedAt x then x else o')"
proof (cases "oo_observedAt o' \<le> oo_observedAt x")
  case True
  then have "\<forall>y \<in> set os. oo_observedAt y \<le> oo_observedAt x"
    using assms by (fastforce simp: first_latest_def)
  then show ?thesis using True by (auto simp: first_latest_def intro: exI [of _ "[]"])
next
  case False
  obtain us vs where "os = us @ o' # vs" "\<forall>x \<in> set us. oo_observedAt x < oo_observedAt o'"
    "\<forall>x \<in> set vs. oo_observedAt x \<le> oo_observedAt o'" using assms by (auto simp: first_latest_def)
  then have "x # os = (x # us) @ o' # vs \<and> (\<forall>y \<in> set (x # us). oo_observedAt y < oo_observedAt o')
      \<and> (\<forall>y \<in> set vs. oo_observedAt y \<le> oo_observedAt o')" using False by simp
  then show ?thesis using False unfolding first_latest_def by (simp only: if_False) blast
qed

lemma first_row_latest_sort:
  "case first_row (js_sort latest_first os) of None \<Rightarrow> os = [] | Some o' \<Rightarrow> first_latest os o'"
proof (induction os)
  case Nil
  then show ?case by (simp add: js_sort_def)
next
  case (Cons x os)
  show ?case
  proof (cases "first_row (js_sort latest_first os)")
    case None
    then have "os = []" using Cons by simp
    then show ?thesis by (auto simp: js_sort_def first_latest_def Cons_eq_append_conv)
  next
    case (Some o')
    then have "first_latest os o'" using Cons by simp
    from first_latest_Cons [OF this, of x] show ?thesis
      using Some by (auto simp: js_sort_def first_js_insert split: if_splits)
  qed
qed

lemma first_latest_unique: "first_latest os a \<Longrightarrow> first_latest os b \<Longrightarrow> a = b"
  unfolding first_latest_def
  by (elim exE conjE) (auto simp: append_eq_append_conv2 Cons_eq_append_conv append_eq_Cons_conv)

lemma observations_satisfied_iff:
  "fst (evaluateOutcomeObservations os ctx) \<longleftrightarrow>
     (\<exists>o'. first_latest (filter (observation_matches ctx) os) o' \<and> oo_status o' = ''confirmed'' \<and> trim (oo_observerIdentity o') \<noteq> [])"
proof -
  let ?ms = "filter (observation_matches ctx) os"
  show ?thesis
  proof (cases "first_row (js_sort latest_first ?ms)")
    case None
    then have "?ms = []" using first_row_latest_sort [of ?ms] by simp
    then show ?thesis by (simp add: evaluateOutcomeObservations_def first_latest_def js_sort_def)
  next
    case (Some o')
    then have l: "first_latest ?ms o'" using first_row_latest_sort [of ?ms] by simp
    then have "fst (evaluateOutcomeObservations os ctx) \<longleftrightarrow> oo_status o' = ''confirmed'' \<and> trim (oo_observerIdentity o') \<noteq> []"
      using Some by (auto simp: evaluateOutcomeObservations_def Let_def)
    then show ?thesis using l first_latest_unique by metis
  qed
qed

subsection \<open>The gates of the approval predicate\<close>

lemma observations_reasons: "\<not> fst (evaluateOutcomeObservations os ctx) \<Longrightarrow> snd (evaluateOutcomeObservations os ctx) \<noteq> []"
  by (auto simp: evaluateOutcomeObservations_def Let_def js_sort_def split: option.splits if_splits)

lemma gates_Nil:
  "integration_reasons m = [] \<longleftrightarrow> (required_strength m \<noteq> ImplementationVerified \<longrightarrow>
     (\<exists>r. mi_currentReport m = Some r \<and> or_status r = ''passed'' \<and> coalesce (or_results r) [] \<noteq> []))"
  "observation_reasons m = [] \<longleftrightarrow> (required_strength m \<in> {OutcomeVerified, OperationallyStable} \<longrightarrow>
     fst (evaluateOutcomeObservations (coalesce (mi_observations m) [])
       (coalesce (mi_observationContext m) (default_observation_context m))))"
  "criterion_reasons states c = [] \<longleftrightarrow> (oc_priority c = ''required'' \<longrightarrow>
     (\<exists>s. states (oc_id c) = Some s \<and> cs_status s = Verified))"
  "finding_reasons res f = [] \<longleftrightarrow> of_scope f = ''out_of_scope'' \<or> of_disposition f \<noteq> ''blocking'' \<or> of_status f = ''waived''
     \<or> of_status f \<in> {''verified_resolved'', ''claimed_resolved''} \<and> (\<exists>rm rs. res = Some rm \<and> rm (of_id f) = Some (True, rs))"
  "final_reasons m = [] \<longleftrightarrow> (mi_finalVerification m \<noteq> [] \<longrightarrow> (\<exists>r. mi_currentReport m = Some r \<and> or_status r = ''passed''))"
  "coverage_reasons m = [] \<longleftrightarrow> set (mi_reviewCoverage m) \<subseteq> set (coalesce (map_option or_reviewCoverage (mi_currentReport m)) [])"
proof -
  show "integration_reasons m = [] \<longleftrightarrow> (required_strength m \<noteq> ImplementationVerified \<longrightarrow>
     (\<exists>r. mi_currentReport m = Some r \<and> or_status r = ''passed'' \<and> coalesce (or_results r) [] \<noteq> []))"
    by (cases "required_strength m") (auto simp: integration_reasons_def split: option.splits)
  show "observation_reasons m = [] \<longleftrightarrow> (required_strength m \<in> {OutcomeVerified, OperationallyStable} \<longrightarrow>
     fst (evaluateOutcomeObservations (coalesce (mi_observations m) [])
       (coalesce (mi_observationContext m) (default_observation_context m))))"
    using observations_reasons [of "coalesce (mi_observations m) []" "coalesce (mi_observationContext m) (default_observation_context m)"]
    by (cases "required_strength m") (auto simp: observation_reasons_def split: prod.splits)
  show "criterion_reasons states c = [] \<longleftrightarrow> (oc_priority c = ''required'' \<longrightarrow>
     (\<exists>s. states (oc_id c) = Some s \<and> cs_status s = Verified))"
    by (auto simp: criterion_reasons_def split: option.splits)
  show "finding_reasons res f = [] \<longleftrightarrow> of_scope f = ''out_of_scope'' \<or> of_disposition f \<noteq> ''blocking'' \<or> of_status f = ''waived''
     \<or> of_status f \<in> {''verified_resolved'', ''claimed_resolved''} \<and> (\<exists>rm rs. res = Some rm \<and> rm (of_id f) = Some (True, rs))"
    by (cases res) (auto simp: finding_reasons_def split: option.splits)
  show "final_reasons m = [] \<longleftrightarrow> (mi_finalVerification m \<noteq> [] \<longrightarrow> (\<exists>r. mi_currentReport m = Some r \<and> or_status r = ''passed''))"
    by (auto simp: final_reasons_def)
  show "coverage_reasons m = [] \<longleftrightarrow> set (mi_reviewCoverage m) \<subseteq> set (coalesce (map_option or_reviewCoverage (mi_currentReport m)) [])"
    by (auto simp: coverage_reasons_def Let_def filter_empty_conv)
qed

lemma mission_allowed_iff:
  "fst (evaluateMissionOutcome m) \<longleftrightarrow>
     integration_reasons m = [] \<and> observation_reasons m = []
     \<and> (\<forall>c \<in> set (mi_criteria m). criterion_reasons (states_by_id (mi_criterionStates m)) c = [])
     \<and> (\<forall>f \<in> set (mi_findings m). finding_reasons (mi_findingResolutions m) f = [])
     \<and> final_reasons m = [] \<and> coverage_reasons m = []"
  by (auto simp: evaluateMissionOutcome_def Let_def)

lemma mission_verdict: "fst (evaluateMissionOutcome m) \<longleftrightarrow> snd (evaluateMissionOutcome m) = []"
  by (simp add: evaluateMissionOutcome_def Let_def)

subsection \<open>The bound of the correction loop\<close>

lemma correction_extends:
  assumes "ed_extend (evaluateCorrectionPolicy cur mx n r ap)"
  shows "ed_round (evaluateCorrectionPolicy cur mx n r ap) = cur + 1 \<and> cur + 1 \<le> ed_maxRounds (evaluateCorrectionPolicy cur mx n r ap)
    \<and> ed_maxRounds (evaluateCorrectionPolicy cur mx n r ap) \<le> mx + 2
    \<and> (0 < n \<or> made_progress r \<and> ap \<noteq> Some True \<and> cr_missionApproved r \<noteq> Some True)
    \<and> (\<not> made_progress r \<longrightarrow> cur + 1 \<le> mx)"
  using assms by (auto simp: evaluateCorrectionPolicy_def Let_def split: if_splits)

lemma correction_converged:
  "ed_reason (evaluateCorrectionPolicy cur mx n r ap) = Converged \<Longrightarrow> n = 0 \<and> (ap = Some True \<or> cr_missionApproved r = Some True)"
  by (auto simp: evaluateCorrectionPolicy_def Let_def split: if_splits)

lemma correction_stops:
  assumes "\<not> ed_extend (evaluateCorrectionPolicy cur mx n r ap)"
  shows "ed_round (evaluateCorrectionPolicy cur mx n r ap) = cur"
    and "ed_ceilingHit (evaluateCorrectionPolicy cur mx n r ap) \<Longrightarrow> mx \<le> cur"
  using assms by (auto simp: evaluateCorrectionPolicy_def Let_def split: if_splits)

end
