(* ===== verification/Mission_Ledger.thy ===== *)
theory Mission_Ledger
  imports Mission_Outcome "HOL-Library.Option_ord"
begin

text \<open>
  The durable side of missions: the tables and operations of src/src/mission-ledger.ts that decide
  and record approval (evidence, finding status and resolution, outcome observations, the approval
  predicate, the correction loop), and the snapshot identity of src/src/review-checkpoints.ts they
  share. The decisions themselves are those of \<open>Mission_Outcome\<close>.

  \<^item> A JSON column holds the value it was written from. Columns that no modelled operation reads
    (digests, lease nonces, objectives and the like) are left out of the rows.
  \<^item> \<open>newId\<close> numbers the fresh \<open>randomUUID\<close> ids of a call, \<open>now\<close> is its clock reading,
    \<open>sha256\<close> the hash of node:crypto in hexadecimal.
  \<^item> A function that may throw returns \<open>Inl\<close> of the error. A transaction that throws is rolled
    back, so its state is the old one; \<open>updateFindingStatus\<close> runs outside a transaction and
    keeps the updates made before the throw.
\<close>

section \<open>Results\<close>

definition sbind :: "'e + 'a \<Rightarrow> ('a \<Rightarrow> 'e + 'b) \<Rightarrow> 'e + 'b" where
  "sbind x f = (case x of Inl e \<Rightarrow> Inl e | Inr a \<Rightarrow> f a)"

fun traverse :: "('a \<Rightarrow> 'e + 'b) \<Rightarrow> 'a list \<Rightarrow> 'e + 'b list" where
  "traverse f [] = Inr []"
| "traverse f (x # xs) = sbind (f x) (\<lambda>y. sbind (traverse f xs) (\<lambda>ys. Inr (y # ys)))"

lemma sbind_simps [simp]: "sbind (Inl e) f = Inl e" "sbind (Inr a) f = f a"
  by (simp_all add: sbind_def)

lemma sbind_Inr_iff [simp]: "sbind x f = Inr b \<longleftrightarrow> (\<exists>a. x = Inr a \<and> f a = Inr b)"
  by (cases x) auto

lemma traverse_Inr: "traverse f xs = Inr ys \<Longrightarrow> length ys = length xs \<and> (\<forall>i < length xs. f (xs ! i) = Inr (ys ! i))"
  by (induction xs arbitrary: ys) (auto simp: nth_Cons split: nat.splits)

lemma traverse_append: "traverse f (xs @ ys) = sbind (traverse f xs) (\<lambda>a. sbind (traverse f ys) (\<lambda>b. Inr (a @ b)))"
proof (induction xs)
  case Nil
  then show ?case by (cases "traverse f ys") simp_all
next
  case (Cons x xs)
  then show ?case by (cases "f x"; cases "traverse f xs"; cases "traverse f ys") simp_all
qed

lemma traverse_set: "traverse f xs = Inr ys \<Longrightarrow> set ys = {y. \<exists>x \<in> set xs. f x = Inr y}"
  by (induction xs arbitrary: ys) auto

section \<open>Snapshot identity\<close>

datatype ledger_error =
    ConflictingSnapshotRefs
  | KindWithoutRef
  | UnsupportedSnapshotKind string
  | SnapshotKindConflict string string
  | CriterionNotOfMission string string
  | FindingNotOfMission string string
  | SourceCannotSatisfyCriterion string string string
  | SourceCannotSatisfyFinding string string
  | CannotMarkVerified string
  | WaiverNeedsReason string
  | FindingNotClaimed string
  | ResolutionNeedsIdentity string
  | MissionNotFound string
  | ResolutionNotCurrent string
  | NotEffectivelyResolved string "resolution_reason list"
  | StabilityUnsupported
  | NoOutcomeEvidenceRequired string
  | ObserverPrincipalRequired
  | FirsthandRequired
  | ExpectedBehaviorRequired
  | ExternalEvidenceRequired
  | SnapshotRequired

definition nonblank :: "string option \<Rightarrow> string option" where
  "nonblank s = (case s of None \<Rightarrow> None | Some x \<Rightarrow> if trim x = [] then None else Some (trim x))"

definition normalizeWorkspaceSnapshotIdentity ::
    "string option \<Rightarrow> string option \<Rightarrow> string option \<Rightarrow> ledger_error + (string \<times> string) option" where
  "normalizeWorkspaceSnapshotIdentity snapshotKind snapshotRef snapshotCommit =
     (let modernRef = nonblank snapshotRef; legacyRef = nonblank snapshotCommit
      in if modernRef \<noteq> None \<and> legacyRef \<noteq> None \<and> modernRef \<noteq> legacyRef then Inl ConflictingSnapshotRefs
         else case or_else modernRef legacyRef of
           None \<Rightarrow> if truthy snapshotKind then Inl KindWithoutRef else Inr None
         | Some ref \<Rightarrow>
             let inferredKind = (if starts_with ref ''fs:'' then ''filesystem'' else ''git'');
                 kind = coalesce snapshotKind inferredKind
             in if kind \<noteq> ''git'' \<and> kind \<noteq> ''filesystem'' then Inl (UnsupportedSnapshotKind kind)
                else if (kind = ''filesystem'') \<noteq> starts_with ref ''fs:'' then Inl (SnapshotKindConflict kind ref)
                else Inr (Some (kind, ref)))"

section \<open>Tables\<close>

record mission_row =
  mr_id :: string
  mr_workSessionId :: string
  mr_baselineKind :: "string option"
  mr_baselineRef :: "string option"
  mr_baselineCommit :: "string option"
  mr_correctionRounds :: int
  mr_maxCorrectionRounds :: int
  mr_finalVerification :: "string list"
  mr_reviewCoverage :: "string list"
  mr_outcomeEvidence :: "evidence_level option"
  mr_outcomeExpectedBehavior :: "string option"
  mr_updatedAt :: iso_time

record criterion_row =
  cw_missionId :: string
  cw_criterion :: outcome_criterion
  cw_createdAt :: iso_time
  cw_updatedAt :: iso_time

record finding_row =
  fw_missionId :: string
  fw_finding :: outcome_finding
  fw_requiredVerification :: "string list"
  fw_resolutionEvidenceIds :: "string list"
  fw_waiverReason :: "string option"
  fw_updatedAt :: iso_time

record evidence_row =
  ew_missionId :: string
  ew_evidence :: evidence_record
  ew_snapshotCommit :: "string option"

record report_row =
  rr_id :: string
  rr_missionId :: string
  rr_submissionId :: string
  rr_snapshotKind :: "string option"
  rr_snapshotRef :: "string option"
  rr_status :: string
  rr_results :: "json list"
  rr_reviewCoverage :: "string list"
  rr_createdAt :: iso_time

record observation_row =
  ow_id :: string
  ow_missionId :: string
  ow_submissionId :: string
  ow_reviewEpoch :: "int option"
  ow_snapshotKind :: string
  ow_snapshotRef :: string
  ow_observerIdentity :: string
  ow_observerPrincipalId :: "string option"
  ow_observationSource :: string
  ow_externalEvidenceSha256 :: "string option"
  ow_expectedBehavior :: string
  ow_actualBehavior :: string
  ow_status :: string
  ow_observedAt :: iso_time

record submission_row =
  sb_id :: string
  sb_workSessionId :: string
  sb_submissionNumber :: int
  sb_snapshotKind :: "string option"
  sb_snapshotRef :: "string option"
  sb_reviewEpoch :: int

record ledger =
  ld_missions :: "mission_row table"
  ld_criteria :: "criterion_row table"
  ld_findings :: "finding_row table"
  ld_evidence :: "evidence_row table"
  ld_reports :: "report_row table"
  ld_observations :: "observation_row table"
  ld_submissions :: "submission_row table"

record approval_context =
  ac_submissionId :: "string option"
  ac_snapshotKind :: "string option"
  ac_snapshotRef :: "string option"
  ac_snapshotCommit :: "string option"
  ac_reviewEpoch :: "int option"

section \<open>Reads\<close>

definition rowToEvidence :: "evidence_row \<Rightarrow> ledger_error + evidence_record" where
  "rowToEvidence row =
     sbind (normalizeWorkspaceSnapshotIdentity (er_snapshotKind (ew_evidence row)) (er_snapshotRef (ew_evidence row)) (ew_snapshotCommit row))
       (\<lambda>snapshot. Inr ((ew_evidence row)\<lparr>er_snapshotKind := map_option fst snapshot, er_snapshotRef := map_option snd snapshot\<rparr>))"

definition rowToOutcomeObservation :: "observation_row \<Rightarrow> outcome_observation" where
  "rowToOutcomeObservation row = \<lparr>oo_submissionId = ow_submissionId row, oo_reviewEpoch = coalesce (ow_reviewEpoch row) (- 1),
     oo_snapshotKind = ow_snapshotKind row, oo_snapshotRef = ow_snapshotRef row, oo_observerIdentity = ow_observerIdentity row,
     oo_observerPrincipalId = coalesce (ow_observerPrincipalId row) [], oo_observationSource = ow_observationSource row,
     oo_externalEvidenceSha256 = coalesce (ow_externalEvidenceSha256 row) [], oo_expectedBehavior = ow_expectedBehavior row,
     oo_actualBehavior = ow_actualBehavior row, oo_status = ow_status row, oo_observedAt = ow_observedAt row\<rparr>"

definition getMissionByWorkSession :: "string \<Rightarrow> ledger \<Rightarrow> ledger_error + mission_row option" where
  "getMissionByWorkSession ws st =
     (case find (\<lambda>m. mr_workSessionId m = ws) (ld_missions st) of
        None \<Rightarrow> Inr None
      | Some m \<Rightarrow> sbind (normalizeWorkspaceSnapshotIdentity (mr_baselineKind m) (mr_baselineRef m) (mr_baselineCommit m))
          (\<lambda>_. Inr (Some m)))"

definition context_snapshot :: "approval_context \<Rightarrow> ledger_error + (string \<times> string) option" where
  "context_snapshot ctx = normalizeWorkspaceSnapshotIdentity (ac_snapshotKind ctx) (ac_snapshotRef ctx) (ac_snapshotCommit ctx)"

definition normalizeCurrentApprovalContext :: "approval_context \<Rightarrow> ledger_error + approval_context" where
  "normalizeCurrentApprovalContext ctx =
     sbind (context_snapshot ctx) (\<lambda>snapshot. case snapshot of
         None \<Rightarrow> Inr ctx
       | Some (kind, ref) \<Rightarrow> Inr (ctx\<lparr>ac_snapshotCommit := None, ac_snapshotKind := Some kind, ac_snapshotRef := Some ref\<rparr>))"

definition empty_context :: approval_context where
  "empty_context = \<lparr>ac_submissionId = None, ac_snapshotKind = None, ac_snapshotRef = None, ac_snapshotCommit = None, ac_reviewEpoch = None\<rparr>"

definition getCurrentApprovalContext :: "string \<Rightarrow> ledger \<Rightarrow> ledger_error + approval_context" where
  "getCurrentApprovalContext ws st =
     (case first_row (order_desc sb_submissionNumber (filter (\<lambda>r. sb_workSessionId r = ws) (ld_submissions st))) of
        None \<Rightarrow> Inr empty_context
      | Some row \<Rightarrow> sbind (normalizeWorkspaceSnapshotIdentity (sb_snapshotKind row) (sb_snapshotRef row) None)
          (\<lambda>snapshot. Inr (if sb_id row \<noteq> []
             then \<lparr>ac_submissionId = Some (sb_id row), ac_snapshotKind = map_option fst snapshot,
                   ac_snapshotRef = map_option snd snapshot, ac_snapshotCommit = None, ac_reviewEpoch = Some (sb_reviewEpoch row)\<rparr>
             else empty_context)))"

definition evidence_rows :: "(evidence_row \<Rightarrow> bool) \<Rightarrow> ledger \<Rightarrow> ledger_error + evidence_record list" where
  "evidence_rows P st = traverse rowToEvidence
     (order_asc (\<lambda>r. (er_attempt (ew_evidence r), er_createdAt (ew_evidence r))) (filter P (ld_evidence st)))"

definition latestCurrentEvidence ::
    "(string \<Rightarrow> string \<Rightarrow> int) \<Rightarrow> string \<Rightarrow> string \<Rightarrow> approval_context \<Rightarrow> ledger \<Rightarrow> ledger_error + evidence_record option" where
  "latestCurrentEvidence localeCompare missionId criterionId ctx st =
     sbind (context_snapshot ctx) (\<lambda>snapshot.
       if \<not> truthy (ac_submissionId ctx) \<or> \<not> truthy (map_option fst snapshot) \<or> \<not> truthy (map_option snd snapshot) then Inr None
       else case find (\<lambda>c. oc_id (cw_criterion c) = criterionId \<and> cw_missionId c = missionId) (ld_criteria st) of
           None \<Rightarrow> Inr None
         | Some c \<Rightarrow>
             sbind (evidence_rows (\<lambda>r. ew_missionId r = missionId \<and> er_criterionId (ew_evidence r) = Some criterionId) st)
               (\<lambda>rows. Inr (selectEffectiveEvidenceResult localeCompare rows (Some criterionId) None
                  \<lparr>ec_submissionId = ac_submissionId ctx, ec_snapshotKind = map_option fst snapshot,
                   ec_snapshotRef = map_option snd snapshot, ec_reviewEpoch = ac_reviewEpoch ctx\<rparr>
                  (Some (isEvidenceSourceAllowed (oc_verificationType (cw_criterion c)))))))"

definition resolved_context :: "string \<Rightarrow> approval_context option \<Rightarrow> ledger \<Rightarrow> ledger_error + approval_context" where
  "resolved_context ws context st =
     sbind (case context of Some c \<Rightarrow> Inr c | None \<Rightarrow> getCurrentApprovalContext ws st) normalizeCurrentApprovalContext"

text \<open>
  \<open>evaluateEffectiveCriteria\<close> asks for the evidence of a criterion by callback. The callback only
  reads, so the model asks for the evidence of every criterion first; a lookup that throws throws
  from the call either way, since every criterion is evaluated.
\<close>

definition mission_criteria :: "string \<Rightarrow> ledger \<Rightarrow> outcome_criterion list" where
  "mission_criteria missionId st =
     map cw_criterion (order_asc cw_createdAt (filter (\<lambda>c. cw_missionId c = missionId) (ld_criteria st)))"

definition found_evidence :: "ledger_error + evidence_record option \<Rightarrow> evidence_record option" where
  "found_evidence r = (case r of Inl _ \<Rightarrow> None | Inr e \<Rightarrow> e)"

definition evaluateCriteria ::
    "(string \<Rightarrow> string \<Rightarrow> int) \<Rightarrow> string \<Rightarrow> approval_context option \<Rightarrow> ledger \<Rightarrow> ledger_error + criterion_state list" where
  "evaluateCriteria localeCompare ws context st =
     sbind (getMissionByWorkSession ws st) (\<lambda>mission. case mission of
         None \<Rightarrow> Inr []
       | Some m \<Rightarrow>
           sbind (resolved_context ws context st) (\<lambda>ctx.
             let criteria = mission_criteria (mr_id m) st
             in sbind (traverse (\<lambda>c. latestCurrentEvidence localeCompare (mr_id m) (oc_id c) ctx st) criteria) (\<lambda>_.
                  Inr (evaluateEffectiveCriteria criteria
                    (\<lambda>c. found_evidence (latestCurrentEvidence localeCompare (mr_id m) (oc_id c) ctx st))
                    \<lparr>ec_submissionId = ac_submissionId ctx, ec_snapshotKind = ac_snapshotKind ctx,
                     ec_snapshotRef = ac_snapshotRef ctx, ec_reviewEpoch = ac_reviewEpoch ctx\<rparr>))))"

section \<open>The approval predicate\<close>

fun finding_resolutions ::
    "(string \<Rightarrow> string \<Rightarrow> int) \<Rightarrow> evidence_record list \<Rightarrow> evidence_context option \<Rightarrow> finding_row list
     \<Rightarrow> (string \<rightharpoonup> bool \<times> resolution_reason list) \<Rightarrow> (string \<rightharpoonup> bool \<times> resolution_reason list)" where
  "finding_resolutions localeCompare evidence complete [] acc = acc"
| "finding_resolutions localeCompare evidence complete (row # rows) acc =
     (let f = fw_finding row
      in finding_resolutions localeCompare evidence complete rows
        (if of_scope f = ''out_of_scope'' \<or> of_disposition f \<noteq> ''blocking'' then acc
         else if of_status f \<notin> {''verified_resolved'', ''claimed_resolved''} then acc
         else case complete of
             None \<Rightarrow> acc(of_id f \<mapsto> (False, [IncompleteSubmissionContext (of_id f)]))
           | Some ctx \<Rightarrow>
               (let r = evaluateEffectiveFindingResolution localeCompare evidence (fw_requiredVerification row) (of_id f) ctx
                in acc(of_id f \<mapsto> (fr_resolved r, fr_reasons r)))))"

definition current_report :: "string \<Rightarrow> string option \<Rightarrow> (string \<times> string) option \<Rightarrow> ledger \<Rightarrow> report_row option" where
  "current_report missionId submissionId snapshot st =
     (if truthy submissionId \<and> snapshot \<noteq> None
      then first_row (order_desc rr_createdAt (filter (\<lambda>r. rr_missionId r = missionId
             \<and> Some (rr_submissionId r) = submissionId
             \<and> rr_snapshotKind r = map_option fst snapshot \<and> rr_snapshotRef r = map_option snd snapshot) (ld_reports st)))
      else None)"

definition current_observations ::
    "mission_row \<Rightarrow> approval_context \<Rightarrow> (string \<times> string) option \<Rightarrow> ledger \<Rightarrow> outcome_observation list" where
  "current_observations m ctx snapshot st =
     (if truthy (ac_submissionId ctx) \<and> snapshot \<noteq> None
      then map rowToOutcomeObservation (order_desc ow_observedAt (filter (\<lambda>r. ow_missionId r = mr_id m
             \<and> Some (ow_submissionId r) = ac_submissionId ctx
             \<and> Some (ow_snapshotKind r) = map_option fst snapshot
             \<and> Some (ow_snapshotRef r) = map_option snd snapshot
             \<and> ow_reviewEpoch r = Some (coalesce (ac_reviewEpoch ctx) (- 1))
             \<and> ow_expectedBehavior r = coalesce (mr_outcomeExpectedBehavior m) []
             \<and> ow_observationSource r = ''firsthand_authenticated_external_reviewer''
             \<and> ow_observerPrincipalId r \<noteq> None
             \<and> ow_externalEvidenceSha256 r \<noteq> None) (ld_observations st)))
      else [])"

definition complete_context :: "approval_context \<Rightarrow> (string \<times> string) option \<Rightarrow> evidence_context option" where
  "complete_context ctx snapshot =
     (if truthy (ac_submissionId ctx) \<and> truthy (map_option fst snapshot) \<and> truthy (map_option snd snapshot) \<and> ac_reviewEpoch ctx \<noteq> None
      then Some \<lparr>ec_submissionId = ac_submissionId ctx, ec_snapshotKind = map_option fst snapshot,
                 ec_snapshotRef = map_option snd snapshot, ec_reviewEpoch = ac_reviewEpoch ctx\<rparr>
      else None)"

definition mission_approval_input ::
    "(string \<Rightarrow> string \<Rightarrow> int) \<Rightarrow> mission_row \<Rightarrow> approval_context \<Rightarrow> (string \<times> string) option \<Rightarrow> evidence_record list
     \<Rightarrow> criterion_state list \<Rightarrow> ledger \<Rightarrow> mission_input" where
  "mission_approval_input localeCompare m ctx snapshot evidence states st =
     (let findings = filter (\<lambda>f. fw_missionId f = mr_id m) (ld_findings st)
      in \<lparr>mi_criteria = map cw_criterion (filter (\<lambda>c. cw_missionId c = mr_id m) (ld_criteria st)),
          mi_criterionStates = states,
          mi_findings = map fw_finding findings,
          mi_finalVerification = mr_finalVerification m,
          mi_reviewCoverage = mr_reviewCoverage m,
          mi_outcomeEvidence = Some (coalesce (mr_outcomeEvidence m) ImplementationVerified),
          mi_currentReport = map_option (\<lambda>r. \<lparr>or_status = rr_status r, or_reviewCoverage = rr_reviewCoverage r,
              or_results = Some (rr_results r)\<rparr>) (current_report (mr_id m) (ac_submissionId ctx) snapshot st),
          mi_currentSubmissionId = ac_submissionId ctx,
          mi_observationContext = Some \<lparr>ox_submissionId = coalesce (ac_submissionId ctx) [], ox_reviewEpoch = coalesce (ac_reviewEpoch ctx) (- 1),
              ox_snapshotKind = coalesce (map_option fst snapshot) [], ox_snapshotRef = coalesce (map_option snd snapshot) [],
              ox_expectedBehavior = coalesce (mr_outcomeExpectedBehavior m) []\<rparr>,
          mi_findingResolutions = Some (finding_resolutions localeCompare evidence (complete_context ctx snapshot) findings Map.empty),
          mi_observations = Some (current_observations m ctx snapshot st)\<rparr>)"

definition canApprove ::
    "(string \<Rightarrow> string \<Rightarrow> int) \<Rightarrow> string \<Rightarrow> approval_context option \<Rightarrow> ledger \<Rightarrow> ledger_error + bool \<times> mission_reason list" where
  "canApprove localeCompare ws context st =
     sbind (getMissionByWorkSession ws st) (\<lambda>mission. case mission of
         None \<Rightarrow> Inr (True, [])
       | Some m \<Rightarrow>
           sbind (resolved_context ws context st) (\<lambda>ctx.
           sbind (context_snapshot ctx) (\<lambda>snapshot.
           sbind (evidence_rows (\<lambda>r. ew_missionId r = mr_id m) st) (\<lambda>evidence.
           sbind (evaluateCriteria localeCompare ws (Some ctx) st) (\<lambda>states.
             Inr (evaluateMissionOutcome (mission_approval_input localeCompare m ctx snapshot evidence states st)))))))"

section \<open>Writes\<close>

text \<open>\<open>[...new Set(xs)]\<close>: the first occurrence of each element, in order.\<close>

definition js_unique :: "'a list \<Rightarrow> 'a list" where
  "js_unique xs = rev (remdups (rev xs))"

definition touchMission :: "iso_time \<Rightarrow> string \<Rightarrow> ledger \<Rightarrow> ledger" where
  "touchMission now missionId st =
     st\<lparr>ld_missions := sql_update (\<lambda>m. mr_id m = missionId) (\<lambda>m. m\<lparr>mr_updatedAt := now\<rparr>) (ld_missions st)\<rparr>"

subsection \<open>Evidence\<close>

record evidence_input =
  ei_criterionId :: "string option"
  ei_findingId :: "string option"
  ei_submissionId :: "string option"
  ei_reviewEpoch :: "int option"
  ei_snapshotKind :: "string option"
  ei_snapshotRef :: "string option"
  ei_snapshotCommit :: "string option"
  ei_command :: "string option"
  ei_status :: string

definition check_criterion_entry :: "string \<Rightarrow> string \<Rightarrow> evidence_input \<Rightarrow> ledger \<Rightarrow> ledger_error + string option" where
  "check_criterion_entry missionId source e st =
     (if truthy (ei_criterionId e) then
        (case find (\<lambda>c. Some (oc_id (cw_criterion c)) = ei_criterionId e \<and> cw_missionId c = missionId) (ld_criteria st) of
           None \<Rightarrow> Inl (CriterionNotOfMission (the (ei_criterionId e)) missionId)
         | Some c \<Rightarrow>
             let type = oc_verificationType (cw_criterion c)
             in if source \<noteq> ''agent_claim'' \<and> \<not> isEvidenceSourceAllowed type source
                then Inl (SourceCannotSatisfyCriterion source type (the (ei_criterionId e)))
                else Inr (Some type))
      else Inr None)"

definition check_finding_entry :: "string \<Rightarrow> string \<Rightarrow> evidence_input \<Rightarrow> ledger \<Rightarrow> ledger_error + unit" where
  "check_finding_entry missionId source e st =
     (if truthy (ei_findingId e) then
        (case find (\<lambda>f. Some (of_id (fw_finding f)) = ei_findingId e \<and> fw_missionId f = missionId) (ld_findings st) of
           None \<Rightarrow> Inl (FindingNotOfMission (the (ei_findingId e)) missionId)
         | Some f \<Rightarrow>
             if source \<noteq> ''agent_claim'' \<and>
                (if fw_requiredVerification f \<noteq> [] then source \<notin> {''server_test_runner'', ''runtime_probe''}
                 else source \<noteq> ''reviewer_manual_attestation'')
             then Inl (SourceCannotSatisfyFinding source (the (ei_findingId e)))
             else Inr ())
      else Inr ())"

text \<open>One mission-wide counter: \<open>coalesce(max(attempt), 0) + 1\<close> over the rows of the mission.\<close>

definition next_attempt :: "string \<Rightarrow> ledger \<Rightarrow> int" where
  "next_attempt missionId st =
     (let attempts = List.map_filter (\<lambda>r. if ew_missionId r = missionId then er_attempt (ew_evidence r) else None) (ld_evidence st)
      in (case attempts of [] \<Rightarrow> 0 | a # as \<Rightarrow> fold max as a) + 1)"

definition new_evidence_row ::
    "string \<Rightarrow> iso_time \<Rightarrow> string \<Rightarrow> string \<Rightarrow> evidence_input \<Rightarrow> (string \<times> string) option \<Rightarrow> int \<Rightarrow> evidence_row" where
  "new_evidence_row newId now missionId source e snapshot attempt =
     \<lparr>ew_missionId = missionId,
      ew_evidence = \<lparr>er_id = newId, er_status = ei_status e, er_submissionId = ei_submissionId e, er_reviewEpoch = ei_reviewEpoch e,
        er_snapshotKind = map_option fst snapshot, er_snapshotRef = map_option snd snapshot,
        er_criterionId = ei_criterionId e, er_findingId = ei_findingId e, er_attempt = Some attempt, er_createdAt = Some now,
        er_command = ei_command e, er_source = Some source\<rparr>,
      ew_snapshotCommit = map_option snd snapshot\<rparr>"

definition evidence_status :: "string \<Rightarrow> string \<Rightarrow> string option \<Rightarrow> string" where
  "evidence_status source status criterionType =
     (if status = ''passed'' \<and> source \<noteq> ''agent_claim'' \<and> isEvidenceSourceAllowed (coalesce criterionType ''manual_review'') source
      then ''verified'' else if status = ''failed'' then ''failed'' else ''unverified'')"

definition record_entry :: "(nat \<Rightarrow> string) \<Rightarrow> iso_time \<Rightarrow> string \<Rightarrow> string \<Rightarrow> nat \<Rightarrow> evidence_input \<Rightarrow> ledger \<Rightarrow> ledger_error + ledger" where
  "record_entry newId now missionId source n e st =
     sbind (normalizeWorkspaceSnapshotIdentity (ei_snapshotKind e) (ei_snapshotRef e) (ei_snapshotCommit e)) (\<lambda>snapshot.
     sbind (check_criterion_entry missionId source e st) (\<lambda>criterionType.
     sbind (check_finding_entry missionId source e st) (\<lambda>_.
       let row = new_evidence_row (newId n) now missionId source e snapshot (next_attempt missionId st);
           st1 = st\<lparr>ld_evidence := ld_evidence st @ [row]\<rparr>
       in Inr (if truthy (ei_criterionId e) \<and> truthy (ei_submissionId e) \<and> truthy (map_option snd snapshot)
               then st1\<lparr>ld_criteria := sql_update (\<lambda>c. Some (oc_id (cw_criterion c)) = ei_criterionId e \<and> cw_missionId c = missionId)
                      (\<lambda>c. c\<lparr>cw_criterion := (cw_criterion c)\<lparr>oc_status := evidence_status source (ei_status e) criterionType\<rparr>,
                             cw_updatedAt := now\<rparr>) (ld_criteria st1)\<rparr>
               else st1))))"

fun record_entries :: "(nat \<Rightarrow> string) \<Rightarrow> iso_time \<Rightarrow> string \<Rightarrow> string \<Rightarrow> nat \<Rightarrow> evidence_input list \<Rightarrow> ledger \<Rightarrow> ledger_error + ledger" where
  "record_entries newId now missionId source n [] st = Inr st"
| "record_entries newId now missionId source n (e # es) st =
     sbind (record_entry newId now missionId source n e st) (record_entries newId now missionId source (Suc n) es)"

definition recordEvidenceWithSource ::
    "(nat \<Rightarrow> string) \<Rightarrow> iso_time \<Rightarrow> string \<Rightarrow> evidence_input list \<Rightarrow> string \<Rightarrow> ledger \<Rightarrow> ledger_error option \<times> ledger" where
  "recordEvidenceWithSource newId now missionId entries source st =
     (case record_entries newId now missionId source 0 entries st of
        Inl e \<Rightarrow> (Some e, st)
      | Inr st' \<Rightarrow> (None, touchMission now missionId st'))"

definition recordReviewerEvidence where
  "recordReviewerEvidence newId now missionId entries = recordEvidenceWithSource newId now missionId entries ''reviewer_manual_attestation''"

definition recordVerifierEvidence where
  "recordVerifierEvidence newId now missionId entries = recordEvidenceWithSource newId now missionId entries ''server_test_runner''"

definition recordRuntimeProbeEvidence where
  "recordRuntimeProbeEvidence newId now missionId entries = recordEvidenceWithSource newId now missionId entries ''runtime_probe''"

definition recordAgentEvidence where
  "recordAgentEvidence newId now missionId entries = recordEvidenceWithSource newId now missionId entries ''agent_claim''"

subsection \<open>Criteria and findings\<close>

fun updateCriterionStatus_loop :: "iso_time \<Rightarrow> string \<Rightarrow> (string \<times> string) list \<Rightarrow> ledger \<Rightarrow> ledger" where
  "updateCriterionStatus_loop now missionId [] st = st"
| "updateCriterionStatus_loop now missionId ((i, status) # us) st =
     updateCriterionStatus_loop now missionId us
       (st\<lparr>ld_criteria := sql_update (\<lambda>c. oc_id (cw_criterion c) = i \<and> cw_missionId c = missionId)
          (\<lambda>c. c\<lparr>cw_criterion := (cw_criterion c)\<lparr>oc_status := status\<rparr>, cw_updatedAt := now\<rparr>) (ld_criteria st)\<rparr>)"

definition updateCriterionStatus :: "iso_time \<Rightarrow> string \<Rightarrow> (string \<times> string) list \<Rightarrow> ledger \<Rightarrow> ledger" where
  "updateCriterionStatus now missionId updates st =
     touchMission now missionId (updateCriterionStatus_loop now missionId updates st)"

record finding_update =
  fu_id :: string
  fu_status :: string
  fu_waiverReason :: "string option"
  fu_disposition :: "string option"

definition assertFindingStatusTransition :: "finding_update \<Rightarrow> ledger_error option" where
  "assertFindingStatusTransition u =
     (if fu_status u = ''verified_resolved'' then Some (CannotMarkVerified (fu_id u))
      else if fu_status u = ''waived'' \<and> nonblank (fu_waiverReason u) = None then Some (WaiverNeedsReason (fu_id u))
      else None)"

definition finding_of :: "string \<Rightarrow> string \<Rightarrow> finding_row \<Rightarrow> bool" where
  "finding_of i missionId f \<longleftrightarrow> of_id (fw_finding f) = i \<and> fw_missionId f = missionId"

definition updated_finding :: "iso_time \<Rightarrow> finding_update \<Rightarrow> finding_row \<Rightarrow> finding_row" where
  "updated_finding now u f = f\<lparr>fw_finding := (fw_finding f)\<lparr>of_status := fu_status u,
       of_disposition := (if truthy (fu_disposition u) then the (fu_disposition u) else of_disposition (fw_finding f)),
       of_resolutionSubmissionId := None\<rparr>,
     fw_waiverReason := fu_waiverReason u, fw_resolutionEvidenceIds := [], fw_updatedAt := now\<rparr>"

fun updateFindingStatus :: "iso_time \<Rightarrow> string \<Rightarrow> finding_update list \<Rightarrow> ledger \<Rightarrow> ledger_error option \<times> ledger" where
  "updateFindingStatus now missionId [] st = (None, touchMission now missionId st)"
| "updateFindingStatus now missionId (u # us) st =
     (case assertFindingStatusTransition u of
        Some e \<Rightarrow> (Some e, st)
      | None \<Rightarrow>
          (case find (finding_of (fu_id u) missionId) (ld_findings st) of
             None \<Rightarrow> (Some (FindingNotOfMission (fu_id u) missionId), st)
           | Some _ \<Rightarrow> updateFindingStatus now missionId us
               (st\<lparr>ld_findings := sql_update (finding_of (fu_id u) missionId) (updated_finding now u) (ld_findings st)\<rparr>)))"

definition resolution_stale :: "outcome_finding \<Rightarrow> approval_context \<Rightarrow> bool" where
  "resolution_stale f ctx \<longleftrightarrow> of_status f = ''verified_resolved'' \<and> truthy (of_resolutionSubmissionId f)
     \<and> of_resolutionSubmissionId f \<noteq> ac_submissionId ctx"

definition resolvedFinding :: "iso_time \<Rightarrow> approval_context \<Rightarrow> string list \<Rightarrow> finding_row \<Rightarrow> finding_row" where
  "resolvedFinding now ctx ids f = f\<lparr>fw_finding := (fw_finding f)\<lparr>of_status := ''verified_resolved'',
       of_resolutionSubmissionId := ac_submissionId ctx\<rparr>,
     fw_resolutionEvidenceIds := ids, fw_waiverReason := None, fw_updatedAt := now\<rparr>"

definition check_resolution_context :: "string \<Rightarrow> string \<Rightarrow> approval_context \<Rightarrow> ledger \<Rightarrow> ledger_error + evidence_context" where
  "check_resolution_context missionId findingId ctx st =
     sbind (context_snapshot ctx) (\<lambda>snapshot.
       if \<not> truthy (ac_submissionId ctx) \<or> \<not> truthy (map_option fst snapshot) \<or> \<not> truthy (map_option snd snapshot)
          \<or> ac_reviewEpoch ctx = None
       then Inl (ResolutionNeedsIdentity findingId)
       else case find (\<lambda>m. mr_id m = missionId) (ld_missions st) of
           None \<Rightarrow> Inl (MissionNotFound missionId)
         | Some m \<Rightarrow>
             sbind (getCurrentApprovalContext (mr_workSessionId m) st) (\<lambda>latest.
             sbind (context_snapshot latest) (\<lambda>latestSnapshot.
               if ac_submissionId latest \<noteq> ac_submissionId ctx \<or> ac_snapshotKind latest \<noteq> map_option fst snapshot
                  \<or> map_option snd latestSnapshot \<noteq> map_option snd snapshot \<or> ac_reviewEpoch latest \<noteq> ac_reviewEpoch ctx
               then Inl (ResolutionNotCurrent findingId)
               else Inr \<lparr>ec_submissionId = ac_submissionId ctx, ec_snapshotKind = map_option fst snapshot,
                         ec_snapshotRef = map_option snd snapshot, ec_reviewEpoch = ac_reviewEpoch ctx\<rparr>)))"

definition resolveFinding ::
    "(string \<Rightarrow> string \<Rightarrow> int) \<Rightarrow> iso_time \<Rightarrow> string \<Rightarrow> string \<Rightarrow> approval_context \<Rightarrow> ledger \<Rightarrow> ledger_error + string list \<times> ledger" where
  "resolveFinding localeCompare now missionId findingId ctx st =
     (case find (finding_of findingId missionId) (ld_findings st) of
        None \<Rightarrow> Inl (FindingNotOfMission findingId missionId)
      | Some row \<Rightarrow>
          let f = fw_finding row
          in if of_status f \<noteq> ''claimed_resolved'' \<and> \<not> resolution_stale f ctx then Inl (FindingNotClaimed findingId)
             else sbind (check_resolution_context missionId findingId ctx st) (\<lambda>ec.
               sbind (evidence_rows (\<lambda>r. ew_missionId r = missionId \<and> er_findingId (ew_evidence r) = Some findingId) st) (\<lambda>evidence.
                 let resolution = evaluateEffectiveFindingResolution localeCompare evidence (fw_requiredVerification row) findingId ec;
                     ids = js_unique (fr_qualifyingEvidenceIds resolution)
                 in if \<not> fr_resolved resolution then Inl (NotEffectivelyResolved findingId (fr_reasons resolution))
                    else Inr (ids, touchMission now missionId
                      (st\<lparr>ld_findings := sql_update
                         (\<lambda>r. finding_of findingId missionId r \<and>
                            (if of_status f = ''claimed_resolved'' then of_status (fw_finding r) = ''claimed_resolved''
                             else of_status (fw_finding r) = ''verified_resolved''
                                  \<and> of_resolutionSubmissionId (fw_finding r) = of_resolutionSubmissionId f))
                         (resolvedFinding now ctx ids) (ld_findings st)\<rparr>)))))"

subsection \<open>Reports, observations and correction rounds\<close>


record report_input =
  ri_submissionId :: string
  ri_snapshotKind :: "string option"
  ri_snapshotRef :: "string option"
  ri_snapshotCommit :: "string option"
  ri_status :: string
  ri_results :: "json list"
  ri_reviewCoverage :: "string list option"

definition report_at :: "string \<Rightarrow> string \<Rightarrow> string \<times> string \<Rightarrow> report_row \<Rightarrow> bool" where
  "report_at missionId submissionId snapshot r \<longleftrightarrow> rr_missionId r = missionId \<and> rr_submissionId r = submissionId
     \<and> rr_snapshotKind r = Some (fst snapshot) \<and> rr_snapshotRef r = Some (snd snapshot)"

definition new_report :: "string \<Rightarrow> iso_time \<Rightarrow> string \<Rightarrow> string \<Rightarrow> string \<times> string \<Rightarrow> string \<Rightarrow> json list \<Rightarrow> string list \<Rightarrow> report_row" where
  "new_report newId now missionId submissionId snapshot status results coverage =
     \<lparr>rr_id = newId, rr_missionId = missionId, rr_submissionId = submissionId, rr_snapshotKind = Some (fst snapshot),
      rr_snapshotRef = Some (snd snapshot), rr_status = status, rr_results = results, rr_reviewCoverage = coverage, rr_createdAt = now\<rparr>"

definition recordCompletionReport :: "string \<Rightarrow> iso_time \<Rightarrow> string \<Rightarrow> report_input \<Rightarrow> ledger \<Rightarrow> ledger_error + ledger" where
  "recordCompletionReport newId now missionId i st =
     sbind (normalizeWorkspaceSnapshotIdentity (ri_snapshotKind i) (ri_snapshotRef i) (ri_snapshotCommit i)) (\<lambda>snapshot. case snapshot of
         None \<Rightarrow> Inl SnapshotRequired
       | Some sn \<Rightarrow>
           (case first_row (order_desc rr_createdAt (filter (report_at missionId (ri_submissionId i) sn) (ld_reports st))) of
              Some prior \<Rightarrow> Inr (st\<lparr>ld_reports := sql_update (\<lambda>r. rr_id r = rr_id prior)
                (\<lambda>r. r\<lparr>rr_status := ri_status i, rr_results := ri_results i,
                       rr_reviewCoverage := js_unique (rr_reviewCoverage prior @ coalesce (ri_reviewCoverage i) [])\<rparr>) (ld_reports st)\<rparr>)
            | None \<Rightarrow> Inr (st\<lparr>ld_reports := ld_reports st @
                [new_report newId now missionId (ri_submissionId i) sn (ri_status i) (ri_results i) (coalesce (ri_reviewCoverage i) [])]\<rparr>)))"

definition recordReviewCoverage ::
    "string \<Rightarrow> iso_time \<Rightarrow> string \<Rightarrow> string \<Rightarrow> string option \<Rightarrow> string option \<Rightarrow> string option \<Rightarrow> string list option \<Rightarrow> ledger \<Rightarrow> ledger_error + ledger" where
  "recordReviewCoverage newId now missionId submissionId kind ref commit coverage st =
     sbind (normalizeWorkspaceSnapshotIdentity kind ref commit) (\<lambda>snapshot. case snapshot of
         None \<Rightarrow> Inl SnapshotRequired
       | Some sn \<Rightarrow>
           if find (\<lambda>m. mr_id m = missionId) (ld_missions st) = None then Inl (MissionNotFound missionId)
           else case first_row (order_desc rr_createdAt (filter (report_at missionId submissionId sn) (ld_reports st))) of
               Some existing \<Rightarrow> Inr (st\<lparr>ld_reports := sql_update (\<lambda>r. rr_id r = rr_id existing)
                 (\<lambda>r. r\<lparr>rr_reviewCoverage := js_unique (rr_reviewCoverage existing @ coalesce coverage [])\<rparr>) (ld_reports st)\<rparr>)
             | None \<Rightarrow> Inr (st\<lparr>ld_reports := ld_reports st @
                 [new_report newId now missionId submissionId sn ''failed'' [] (coalesce coverage [])]\<rparr>))"

record observation_input =
  oi_submissionId :: string
  oi_reviewEpoch :: int
  oi_snapshotKind :: string
  oi_snapshotRef :: string
  oi_observerPrincipalId :: string
  oi_evidenceBasis :: string
  oi_externalEvidence :: string
  oi_actualBehavior :: string
  oi_status :: string

definition observation_row_at :: "string \<Rightarrow> observation_input \<Rightarrow> string \<Rightarrow> observation_row \<Rightarrow> bool" where
  "observation_row_at missionId i expectedBehavior r \<longleftrightarrow> ow_missionId r = missionId \<and> ow_submissionId r = oi_submissionId i
     \<and> ow_reviewEpoch r = Some (oi_reviewEpoch i) \<and> ow_snapshotKind r = oi_snapshotKind i \<and> ow_snapshotRef r = oi_snapshotRef i
     \<and> ow_expectedBehavior r = expectedBehavior"

definition observation_checks :: "mission_row \<Rightarrow> observation_input \<Rightarrow> ledger_error + string" where
  "observation_checks m i =
     (if mr_outcomeEvidence m = Some OperationallyStable then Inl StabilityUnsupported
      else if mr_outcomeEvidence m \<noteq> Some OutcomeVerified
      then Inl (NoOutcomeEvidenceRequired (level_text (coalesce (mr_outcomeEvidence m) ImplementationVerified)))
      else if trim (oi_observerPrincipalId i) = [] then Inl ObserverPrincipalRequired
      else if oi_evidenceBasis i \<noteq> ''firsthand_external_observation'' then Inl FirsthandRequired
      else case nonblank (mr_outcomeExpectedBehavior m) of
          None \<Rightarrow> Inl ExpectedBehaviorRequired
        | Some expectedBehavior \<Rightarrow> if trim (oi_externalEvidence i) = [] then Inl ExternalEvidenceRequired else Inr expectedBehavior)"

definition recordOutcomeObservation ::
    "(string \<Rightarrow> string) \<Rightarrow> string \<Rightarrow> iso_time \<Rightarrow> string \<Rightarrow> observation_input \<Rightarrow> ledger \<Rightarrow> ledger_error + ledger" where
  "recordOutcomeObservation sha256 newId clock missionId i st =
     (case find (\<lambda>m. mr_id m = missionId) (ld_missions st) of
        None \<Rightarrow> Inl (MissionNotFound missionId)
      | Some m \<Rightarrow>
          sbind (observation_checks m i) (\<lambda>expectedBehavior.
            let previous = first_row (order_desc ow_observedAt (filter (observation_row_at missionId i expectedBehavior) (ld_observations st)));
                previousAt = coalesce (map_option ow_observedAt previous) 0;
                now = max clock (previousAt + 1)
            in Inr (touchMission clock missionId (st\<lparr>ld_observations := ld_observations st @
                 [\<lparr>ow_id = newId, ow_missionId = missionId, ow_submissionId = oi_submissionId i, ow_reviewEpoch = Some (oi_reviewEpoch i),
                   ow_snapshotKind = oi_snapshotKind i, ow_snapshotRef = oi_snapshotRef i,
                   ow_observerIdentity = ''principal:'' @ oi_observerPrincipalId i,
                   ow_observerPrincipalId = Some (oi_observerPrincipalId i),
                   ow_observationSource = ''firsthand_authenticated_external_reviewer'',
                   ow_externalEvidenceSha256 = Some (sha256 (oi_externalEvidence i)), ow_expectedBehavior = expectedBehavior,
                   ow_actualBehavior = oi_actualBehavior i, ow_status = oi_status i, ow_observedAt = now\<rparr>]\<rparr>))))"

definition evaluateLoopExtension ::
    "(string \<Rightarrow> string \<Rightarrow> int) \<Rightarrow> iso_time \<Rightarrow> string \<Rightarrow> correction_round \<Rightarrow> ledger \<Rightarrow> ledger_error + extension_decision option \<times> ledger" where
  "evaluateLoopExtension localeCompare now ws r st =
     (case find (\<lambda>m. mr_workSessionId m = ws) (ld_missions st) of
        None \<Rightarrow> Inr (None, st)
      | Some m \<Rightarrow>
          let newBlocking = filter (\<lambda>f. of_scope (fw_finding f) \<noteq> ''out_of_scope'' \<and> of_disposition (fw_finding f) = ''blocking'')
                (List.map_filter (\<lambda>i. find (finding_of i (mr_id m)) (ld_findings st)) (cr_newFindingIds r))
          in sbind (getCurrentApprovalContext ws st) (\<lambda>ctx.
             sbind (canApprove localeCompare ws (Some ctx) st) (\<lambda>approval.
               let decision = evaluateCorrectionPolicy (mr_correctionRounds m) (mr_maxCorrectionRounds m) (length newBlocking)
                     (r\<lparr>cr_missionApproved := Some (fst approval)\<rparr>) None
               in Inr (Some decision,
                    if ed_extend decision
                    then st\<lparr>ld_missions := sql_update (\<lambda>x. mr_id x = mr_id m)
                           (\<lambda>x. x\<lparr>mr_correctionRounds := ed_round decision, mr_updatedAt := now\<rparr>) (ld_missions st)\<rparr>
                    else st))))"

section \<open>The invariant of the ledger\<close>

text \<open>
  Attempt numbers are positive and unique within a mission, and the correction rounds of a mission
  stay within its ceiling and the two rounds that progress may add.
\<close>

definition attempt_key :: "evidence_row \<Rightarrow> string \<times> int option" where
  "attempt_key r = (ew_missionId r, er_attempt (ew_evidence r))"

definition evidence_wf :: "evidence_row table \<Rightarrow> bool" where
  "evidence_wf t \<longleftrightarrow> distinct (map attempt_key t) \<and> (\<forall>r \<in> set t. \<exists>a. er_attempt (ew_evidence r) = Some a \<and> 0 < a)"

definition rounds_wf :: "mission_row table \<Rightarrow> bool" where
  "rounds_wf t \<longleftrightarrow> (\<forall>m \<in> set t. 0 \<le> mr_correctionRounds m \<and> mr_correctionRounds m \<le> max 0 (mr_maxCorrectionRounds m + 2))"

definition ledger_wf :: "ledger \<Rightarrow> bool" where
  "ledger_wf st \<longleftrightarrow> distinct (map mr_id (ld_missions st)) \<and> rounds_wf (ld_missions st) \<and> evidence_wf (ld_evidence st)"

text \<open>
  The steps: every write of this theory, and \<open>env\<close>, what the rest of the system does to the
  tables: new missions start at round zero under a fresh id, and only
  \<open>recordEvidenceWithSource\<close> writes evidence.
\<close>

inductive ledger_step :: "ledger \<Rightarrow> ledger \<Rightarrow> bool" where
  step_evidence: "ledger_step st (snd (recordEvidenceWithSource newId now missionId entries source st))"
| step_criteria: "ledger_step st (updateCriterionStatus now missionId updates st)"
| step_findings: "ledger_step st (snd (updateFindingStatus now missionId fus st))"
| step_resolve: "resolveFinding lc now missionId findingId ctx st = Inr (ids, st') \<Longrightarrow> ledger_step st st'"
| step_report: "recordCompletionReport newReportId now missionId ri st = Inr st' \<Longrightarrow> ledger_step st st'"
| step_coverage: "recordReviewCoverage newReportId now missionId sub kind ref commit cov st = Inr st' \<Longrightarrow> ledger_step st st'"
| step_observation: "recordOutcomeObservation sha newReportId now missionId oi st = Inr st' \<Longrightarrow> ledger_step st st'"
| step_extension: "evaluateLoopExtension lc now ws r st = Inr (d, st') \<Longrightarrow> ledger_step st st'"
| step_env: "ld_evidence st' = ld_evidence st \<Longrightarrow> ld_missions st' = ld_missions st @ new \<Longrightarrow>
    distinct (map mr_id (ld_missions st')) \<Longrightarrow> (\<forall>m \<in> set new. mr_correctionRounds m = 0) \<Longrightarrow> ledger_step st st'"

definition ledger_start :: "ledger \<Rightarrow> bool" where
  "ledger_start st \<longleftrightarrow> ld_missions st = [] \<and> ld_evidence st = []"

lemma fold_max_ge: "x \<in> insert a (set as) \<Longrightarrow> x \<le> fold max as (a :: int)"
  by (metis List.finite_set Max.set_eq_fold Max_ge list.set(2))

lemma next_attempt_gt:
  assumes "r \<in> set (ld_evidence st)" "ew_missionId r = missionId" "er_attempt (ew_evidence r) = Some a"
  shows "a < next_attempt missionId st"
proof -
  let ?as = "List.map_filter (\<lambda>r. if ew_missionId r = missionId then er_attempt (ew_evidence r) else None) (ld_evidence st)"
  have "a \<in> set ?as" using assms by (force simp: List.map_filter_def)
  then show ?thesis
    using fold_max_ge [of a "hd ?as" "tl ?as"] by (cases ?as) (auto simp: next_attempt_def)
qed

lemma next_attempt_pos:
  assumes "evidence_wf (ld_evidence st)"
  shows "0 < next_attempt missionId st"
proof (cases "\<exists>r \<in> set (ld_evidence st). ew_missionId r = missionId")
  case True
  then show ?thesis using assms next_attempt_gt by (fastforce simp: evidence_wf_def)
next
  case False
  then have none: "(\<lambda>r. if ew_missionId r = missionId then er_attempt (ew_evidence r) else None) r = None"
    if "r \<in> set (ld_evidence st)" for r using that by auto
  then have "List.map_filter (\<lambda>r. if ew_missionId r = missionId then er_attempt (ew_evidence r) else None) (ld_evidence st) = []"
    by (auto simp: List.map_filter_def filter_empty_conv)
  then show ?thesis by (simp add: next_attempt_def)
qed

lemma evidence_wf_append:
  assumes "evidence_wf (ld_evidence st)"
  shows "evidence_wf (ld_evidence st @ [new_evidence_row i now missionId source e snapshot (next_attempt missionId st)])"
  using assms next_attempt_pos [OF assms] next_attempt_gt [of _ st missionId]
  by (fastforce simp: evidence_wf_def new_evidence_row_def attempt_key_def)

lemma record_entry_tables:
  assumes "record_entry newId now missionId source n e st = Inr st'"
  shows "ld_missions st' = ld_missions st" "ld_findings st' = ld_findings st" "ld_reports st' = ld_reports st"
    "ld_observations st' = ld_observations st" "ld_submissions st' = ld_submissions st"
    "\<exists>snapshot. normalizeWorkspaceSnapshotIdentity (ei_snapshotKind e) (ei_snapshotRef e) (ei_snapshotCommit e) = Inr snapshot
       \<and> ld_evidence st' = ld_evidence st @ [new_evidence_row (newId n) now missionId source e snapshot (next_attempt missionId st)]"
  using assms by (auto simp: record_entry_def Let_def split: if_splits)

lemma record_entries_wf:
  "record_entries newId now missionId source n es st = Inr st' \<Longrightarrow> evidence_wf (ld_evidence st) \<Longrightarrow>
     evidence_wf (ld_evidence st') \<and> ld_missions st' = ld_missions st"
proof (induction newId now missionId source n es st rule: record_entries.induct)
  case (1 newId now missionId source n st)
  then show ?case by simp
next
  case (2 newId now missionId source n e es st)
  then obtain st1 where st1: "record_entry newId now missionId source n e st = Inr st1"
    "record_entries newId now missionId source (Suc n) es st1 = Inr st'" by auto
  note t = record_entry_tables [OF st1(1)]
  have "evidence_wf (ld_evidence st1)" using t(6) evidence_wf_append [OF 2(3)] by auto
  then show ?case using 2(1) [OF st1(2)] t(1) by simp
qed

lemma touchMission_tables [simp]:
  "ld_criteria (touchMission now i st) = ld_criteria st" "ld_findings (touchMission now i st) = ld_findings st"
  "ld_evidence (touchMission now i st) = ld_evidence st" "ld_reports (touchMission now i st) = ld_reports st"
  "ld_observations (touchMission now i st) = ld_observations st" "ld_submissions (touchMission now i st) = ld_submissions st"
  by (simp_all add: touchMission_def)

lemma map_mr_id_update:
  "(\<And>m. mr_id (f m) = mr_id m) \<Longrightarrow> map mr_id (sql_update P f t) = map mr_id t"
  by (rule map_sql_update)

lemma rounds_wf_update:
  assumes "rounds_wf t"
    and "\<And>m. m \<in> set t \<Longrightarrow> P m \<Longrightarrow> 0 \<le> mr_correctionRounds (f m) \<and> mr_correctionRounds (f m) \<le> max 0 (mr_maxCorrectionRounds (f m) + 2)"
  shows "rounds_wf (sql_update P f t)"
  using assms by (auto simp: rounds_wf_def set_sql_update)

lemma ledger_wf_touch: "ledger_wf st \<Longrightarrow> ledger_wf (touchMission now i st)"
proof -
  assume wf: "ledger_wf st"
  then have "rounds_wf (ld_missions (touchMission now i st))"
    unfolding touchMission_def by (simp add: ledger_wf_def) (rule rounds_wf_update, auto simp: rounds_wf_def)
  then show ?thesis using wf by (simp add: ledger_wf_def touchMission_def map_mr_id_update)
qed

lemma ledger_wf_cong:
  "ld_missions st' = ld_missions st \<Longrightarrow> ld_evidence st' = ld_evidence st \<Longrightarrow> ledger_wf st' = ledger_wf st"
  by (simp add: ledger_wf_def)

lemma updateCriterionStatus_loop_tables:
  "ld_missions (updateCriterionStatus_loop now i us st) = ld_missions st
   \<and> ld_evidence (updateCriterionStatus_loop now i us st) = ld_evidence st"
  by (induction now i us st rule: updateCriterionStatus_loop.induct) simp_all

lemma updateFindingStatus_wf: "ledger_wf st \<Longrightarrow> ledger_wf (snd (updateFindingStatus now i us st))"
proof (induction now i us st rule: updateFindingStatus.induct)
  case (1 now i st)
  then show ?case by (simp add: ledger_wf_touch)
next
  case (2 now i u us st)
  then show ?case by (auto simp: ledger_wf_def split: option.splits)
qed

lemma extension_wf:
  assumes "ledger_wf st" and ext: "evaluateLoopExtension lc now ws r st = Inr (d, st')"
  shows "ledger_wf st'"
proof (cases "find (\<lambda>m. mr_workSessionId m = ws) (ld_missions st)")
  case None
  then show ?thesis using assms by (simp add: evaluateLoopExtension_def)
next
  case (Some m)
  show ?thesis
  proof (cases "st' = st")
    case True
    then show ?thesis using assms by simp
  next
    case False
    then obtain n r' where "ed_extend (evaluateCorrectionPolicy (mr_correctionRounds m) (mr_maxCorrectionRounds m) n r' None)"
      and st': "st' = st\<lparr>ld_missions := sql_update (\<lambda>x. mr_id x = mr_id m)
         (\<lambda>x. x\<lparr>mr_correctionRounds := ed_round (evaluateCorrectionPolicy (mr_correctionRounds m) (mr_maxCorrectionRounds m) n r' None),
                mr_updatedAt := now\<rparr>) (ld_missions st)\<rparr>"
      using ext Some by (auto simp: evaluateLoopExtension_def Let_def split: if_splits)
    note e = correction_extends [OF this(1)]
    have m: "m \<in> set (ld_missions st)" using find_Some_mem [OF Some] by simp
    have d: "distinct (map mr_id (ld_missions st))" and rw: "rounds_wf (ld_missions st)" using assms by (simp_all add: ledger_wf_def)
    have bound: "0 \<le> mr_correctionRounds m + 1 \<and> mr_correctionRounds m + 1 \<le> max 0 (mr_maxCorrectionRounds m + 2)"
      using e rw m by (auto simp: rounds_wf_def)
    have same: "x = m" if "x \<in> set (ld_missions st)" "mr_id x = mr_id m" for x
      using key_unique [OF d that(1) m that(2)] .
    have "rounds_wf (sql_update (\<lambda>x. mr_id x = mr_id m)
        (\<lambda>x. x\<lparr>mr_correctionRounds := mr_correctionRounds m + 1, mr_updatedAt := now\<rparr>) (ld_missions st))"
      using rw by (rule rounds_wf_update) (use same bound in auto)
    then have "rounds_wf (ld_missions st')" unfolding st' using e by simp
    then show ?thesis using assms(1) unfolding st' by (simp add: ledger_wf_def map_mr_id_update)
  qed
qed

lemma recordCompletionReport_reports:
  assumes "recordCompletionReport newId now missionId i st = Inr st'"
  shows "\<exists>t. st' = st\<lparr>ld_reports := t\<rparr>"
proof (cases "normalizeWorkspaceSnapshotIdentity (ri_snapshotKind i) (ri_snapshotRef i) (ri_snapshotCommit i)")
  case (Inr snapshot)
  then show ?thesis using assms
  proof (cases snapshot)
    case (Some sn)
    then show ?thesis using assms Inr
      by (cases "first_row (order_desc rr_createdAt (filter (report_at missionId (ri_submissionId i) sn) (ld_reports st)))")
        (auto simp: recordCompletionReport_def)
  qed (simp add: recordCompletionReport_def)
qed (use assms in \<open>simp add: recordCompletionReport_def\<close>)

lemma recordReviewCoverage_reports:
  assumes "recordReviewCoverage newId now missionId sub kind ref commit cov st = Inr st'"
  shows "\<exists>t. st' = st\<lparr>ld_reports := t\<rparr>"
proof (cases "normalizeWorkspaceSnapshotIdentity kind ref commit")
  case (Inr snapshot)
  then show ?thesis using assms
  proof (cases snapshot)
    case (Some sn)
    then show ?thesis using assms Inr
      by (cases "first_row (order_desc rr_createdAt (filter (report_at missionId sub sn) (ld_reports st)))")
        (auto simp: recordReviewCoverage_def split: if_split_asm)
  qed (simp add: recordReviewCoverage_def)
qed (use assms in \<open>simp add: recordReviewCoverage_def\<close>)

lemma ledger_step_wf: "ledger_step st st' \<Longrightarrow> ledger_wf st \<Longrightarrow> ledger_wf st'"
proof (induction rule: ledger_step.cases)
  case (step_evidence st newId now missionId entries source)
  show ?case
  proof (cases "record_entries newId now missionId source 0 entries st")
    case (Inl e)
    then show ?thesis using step_evidence by (simp add: recordEvidenceWithSource_def)
  next
    case (Inr st1)
    then have "ledger_wf st1" using record_entries_wf [OF Inr] step_evidence by (simp add: ledger_wf_def)
    then show ?thesis using Inr step_evidence by (simp add: recordEvidenceWithSource_def ledger_wf_touch)
  qed
next
  case (step_criteria st now missionId updates)
  then show ?case
    using updateCriterionStatus_loop_tables [of now missionId updates st] ledger_wf_cong ledger_wf_touch
    by (metis updateCriterionStatus_def)
next
  case (step_findings st now missionId fus)
  then show ?case by (simp add: updateFindingStatus_wf)
next
  case (step_resolve lc now missionId findingId ctx st ids st')
  then have "\<exists>t. st' = touchMission now missionId (st\<lparr>ld_findings := t\<rparr>)"
    by (auto simp: resolveFinding_def Let_def split: option.split_asm if_split_asm)
  then show ?case using step_resolve ledger_wf_touch ledger_wf_cong [of "st\<lparr>ld_findings := _\<rparr>" st] by auto
next
  case (step_report newReportId now missionId ri st st')
  then show ?case by (auto simp: ledger_wf_def dest: recordCompletionReport_reports)
next
  case (step_coverage newReportId now missionId sub kind ref commit cov st st')
  then show ?case by (auto simp: ledger_wf_def dest: recordReviewCoverage_reports)
next
  case (step_observation sha newReportId now missionId oi st st')
  then have "\<exists>t. st' = touchMission now missionId (st\<lparr>ld_observations := t\<rparr>)"
    by (auto simp: recordOutcomeObservation_def Let_def split: option.split_asm)
  then show ?case using step_observation ledger_wf_touch ledger_wf_cong [of "st\<lparr>ld_observations := _\<rparr>" st] by auto
next
  case (step_extension lc now ws r st d st')
  then show ?case using extension_wf by blast
next
  case (step_env st' st new)
  then show ?case by (auto simp: ledger_wf_def rounds_wf_def)
qed

interpretation ledger_inv: store_invariant ledger_start ledger_step ledger_wf
proof
  show "ledger_start st \<Longrightarrow> ledger_wf st" for st
    by (simp add: ledger_start_def ledger_wf_def rounds_wf_def evidence_wf_def)
  show "ledger_wf st \<Longrightarrow> ledger_step st st' \<Longrightarrow> ledger_wf st'" for st st'
    by (rule ledger_step_wf)
qed

section \<open>Reading back what was written\<close>

subsection \<open>Snapshot identities and rows\<close>

lemma trim_idem [simp]: "trim (trim s) = trim s"
proof -
  let ?t = "dropWhile js_space s"
  obtain u where u: "?t = trim s @ u"
    unfolding trim_def trim_start_def trim_end_def
    by (metis append.right_neutral rev_append rev_rev_ident takeWhile_dropWhile_id)
  have "dropWhile js_space (trim s) = trim s"
  proof (cases "trim s")
    case (Cons c cs)
    then have "hd ?t = c" "?t \<noteq> []" using u by simp_all
    then have "\<not> js_space c" by (metis hd_dropWhile)
    then show ?thesis using Cons by simp
  qed simp
  moreover have "trim_end (trim s) = trim s" by (simp add: trim_def trim_end_def dropWhile_idem)
  ultimately show ?thesis by (simp add: trim_def trim_start_def)
qed

lemma nonblank_SomeD: "nonblank s = Some t \<Longrightarrow> t \<noteq> [] \<and> nonblank (Some t) = Some t"
  by (auto simp: nonblank_def split: option.splits if_splits)

lemma normalize_idem:
  assumes "normalizeWorkspaceSnapshotIdentity k r c = Inr sn"
  shows "normalizeWorkspaceSnapshotIdentity (map_option fst sn) (map_option snd sn) (map_option snd sn) = Inr sn"
proof (cases sn)
  case None
  then show ?thesis by (simp add: normalizeWorkspaceSnapshotIdentity_def nonblank_def)
next
  case (Some kr)
  obtain kind ref where kr: "kr = (kind, ref)" by (cases kr)
  have o: "or_else (nonblank r) (nonblank c) = Some ref"
    using assms Some kr by (auto simp: normalizeWorkspaceSnapshotIdentity_def Let_def split: option.splits if_splits)
  then have "nonblank (Some ref) = Some ref"
    by (cases "nonblank r") (auto dest: nonblank_SomeD)
  moreover have "kind = ''git'' \<or> kind = ''filesystem''" "(kind = ''filesystem'') = starts_with ref ''fs:''"
    using assms Some kr o by (auto simp: normalizeWorkspaceSnapshotIdentity_def Let_def split: if_splits)
  ultimately show ?thesis using Some kr by (auto simp: normalizeWorkspaceSnapshotIdentity_def Let_def)
qed

lemma normalize_truthy:
  assumes "normalizeWorkspaceSnapshotIdentity k r c = Inr (Some (kind, ref))"
  shows "kind \<noteq> [] \<and> ref \<noteq> []"
proof -
  have o: "or_else (nonblank r) (nonblank c) = Some ref"
    using assms by (auto simp: normalizeWorkspaceSnapshotIdentity_def Let_def split: option.splits if_splits)
  then have "ref \<noteq> []" by (cases "nonblank r") (auto dest: nonblank_SomeD)
  moreover have "kind = ''git'' \<or> kind = ''filesystem''"
    using assms o by (auto simp: normalizeWorkspaceSnapshotIdentity_def Let_def split: if_splits)
  ultimately show ?thesis by auto
qed

lemma rowToEvidence_new:
  assumes "normalizeWorkspaceSnapshotIdentity k r c = Inr sn"
  shows "rowToEvidence (new_evidence_row i now missionId source e sn a) = Inr (ew_evidence (new_evidence_row i now missionId source e sn a))"
  using normalize_idem [OF assms] by (simp add: rowToEvidence_def new_evidence_row_def)

lemma traverse_Inr_iff:
  "traverse f xs = Inr ys \<longleftrightarrow> (\<forall>x \<in> set xs. \<exists>y. f x = Inr y) \<and> ys = map (\<lambda>x. projr (f x)) xs"
  by (induction xs arbitrary: ys) auto

text \<open>The rows a query returns, as records.\<close>

abbreviation record_of :: "evidence_row \<Rightarrow> evidence_record" where
  "record_of r \<equiv> projr (rowToEvidence r)"

lemma evidence_rows_Inr:
  "evidence_rows P st = Inr ev \<longleftrightarrow> (\<forall>r \<in> set (ld_evidence st). P r \<longrightarrow> (\<exists>e. rowToEvidence r = Inr e))
     \<and> ev = map record_of (order_asc (\<lambda>r. (er_attempt (ew_evidence r), er_createdAt (ew_evidence r))) (filter P (ld_evidence st)))"
  by (auto simp: evidence_rows_def traverse_Inr_iff)

lemma evidence_rows_mem:
  "evidence_rows P st = Inr ev \<Longrightarrow> set ev = {e. \<exists>r \<in> set (ld_evidence st). P r \<and> rowToEvidence r = Inr e}"
  by (auto simp: evidence_rows_def dest!: traverse_set)

lemma evidence_rows_append:
  assumes "ld_evidence st' = ld_evidence st @ [row]" and row: "rowToEvidence row = Inr (ew_evidence row)"
    and ev: "evidence_rows P st = Inr ev"
  shows "\<exists>ev'. evidence_rows P st' = Inr ev' \<and> (\<forall>Q. \<not> Q (ew_evidence row) \<longrightarrow> filter Q ev' = filter Q ev)
    \<and> set ev' = set ev \<union> (if P row then {ew_evidence row} else {})"
proof -
  let ?k = "\<lambda>r. (er_attempt (ew_evidence r), er_createdAt (ew_evidence r))"
  let ?ev' = "map record_of (order_asc ?k (filter P (ld_evidence st')))"
  have "evidence_rows P st' = Inr ?ev'" using ev row assms(1) by (auto simp: evidence_rows_Inr)
  moreover have "filter Q ?ev' = filter Q ev" if Q: "\<not> Q (ew_evidence row)" for Q
  proof -
    have "\<not> Q (record_of row)" using Q row by simp
    then have "filter (Q \<circ> record_of) (filter P (ld_evidence st')) = filter (Q \<circ> record_of) (filter P (ld_evidence st))"
      using assms(1) by simp
    then show ?thesis using ev by (simp add: evidence_rows_Inr filter_map filter_order_asc)
  qed
  moreover have "set ?ev' = set ev \<union> (if P row then {ew_evidence row} else {})"
    using ev row assms(1) by (auto simp: evidence_rows_Inr)
  ultimately show ?thesis by blast
qed

subsection \<open>The latest evidence decides\<close>

abbreviation context_of :: "approval_context \<Rightarrow> (string \<times> string) option \<Rightarrow> evidence_context" where
  "context_of ctx sn \<equiv> \<lparr>ec_submissionId = ac_submissionId ctx, ec_snapshotKind = map_option fst sn,
     ec_snapshotRef = map_option snd sn, ec_reviewEpoch = ac_reviewEpoch ctx\<rparr>"

lemma select_latest_attempt:
  assumes "collates lc" "context_complete ec" "i \<noteq> []" "e \<in> set ev"
    and q: "evidence_qualifies er_criterionId i ec allowed e"
    and latest: "\<And>x. x \<in> set ev \<Longrightarrow> x \<noteq> e \<Longrightarrow> evidenceAttempt x < evidenceAttempt e"
  shows "selectEffectiveEvidenceResult lc ev (Some i) None ec allowed = Some e"
proof (cases "selectEffectiveEvidenceResult lc ev (Some i) None ec allowed")
  case None
  then show ?thesis using select_criterion_None [OF assms(2,3)] assms(4) q by blast
next
  case (Some x)
  have "x \<in> set ev" "compare_evidence lc e x \<le> 0"
    using select_criterion_Some [OF assms(1) Some] assms(4) q by (auto simp: authoritative_def)
  then have "\<not> evidenceAttempt x < evidenceAttempt e" by (auto simp: compare_evidence_le)
  then show ?thesis using latest [OF \<open>x \<in> set ev\<close>] Some by blast
qed

lemma record_of_attempt: "rowToEvidence r = Inr e \<Longrightarrow> er_attempt e = er_attempt (ew_evidence r)"
  by (auto simp: rowToEvidence_def)

text \<open>Recording evidence writes nothing but the status and the time of a criterion.\<close>

definition status_only :: "(criterion_row \<Rightarrow> criterion_row) \<Rightarrow> bool" where
  "status_only h \<longleftrightarrow> (\<forall>c. cw_missionId (h c) = cw_missionId c \<and> cw_createdAt (h c) = cw_createdAt c
     \<and> cw_criterion (h c) = (cw_criterion c)\<lparr>oc_status := oc_status (cw_criterion (h c))\<rparr>)"

lemma status_only_update:
  "status_only (\<lambda>c. if P c then c\<lparr>cw_criterion := (cw_criterion c)\<lparr>oc_status := u\<rparr>, cw_updatedAt := now\<rparr> else c)"
  by (simp add: status_only_def)

lemma record_entry_criteria:
  assumes "record_entry newId now missionId source n e st = Inr st'"
  shows "\<exists>h. ld_criteria st' = map h (ld_criteria st) \<and> status_only h"
proof (cases "ld_criteria st' = ld_criteria st")
  case True
  then show ?thesis by (intro exI [of _ "\<lambda>c. c"]) (simp add: status_only_def)
next
  case False
  then obtain P u where "ld_criteria st' = sql_update P (\<lambda>c. c\<lparr>cw_criterion := (cw_criterion c)\<lparr>oc_status := u\<rparr>, cw_updatedAt := now\<rparr>) (ld_criteria st)"
    using assms by (auto simp: record_entry_def Let_def split: if_splits)
  then show ?thesis using status_only_update unfolding sql_update_def by blast
qed

lemma find_map_row:
  assumes "\<And>c. P (h c) = P c"
  shows "find P (map h t) = map_option h (find P t)"
  using assms by (induction t) auto

lemma status_only_fields:
  assumes "status_only h"
  shows "oc_id (cw_criterion (h c)) = oc_id (cw_criterion c)" "oc_dependsOn (cw_criterion (h c)) = oc_dependsOn (cw_criterion c)"
    "oc_priority (cw_criterion (h c)) = oc_priority (cw_criterion c)"
    "oc_verificationType (cw_criterion (h c)) = oc_verificationType (cw_criterion c)"
    "cw_missionId (h c) = cw_missionId c" "cw_createdAt (h c) = cw_createdAt c"
proof -
  obtain s where "cw_criterion (h c) = (cw_criterion c)\<lparr>oc_status := s\<rparr>" using assms unfolding status_only_def by blast
  then show "oc_id (cw_criterion (h c)) = oc_id (cw_criterion c)" "oc_dependsOn (cw_criterion (h c)) = oc_dependsOn (cw_criterion c)"
    "oc_priority (cw_criterion (h c)) = oc_priority (cw_criterion c)"
    "oc_verificationType (cw_criterion (h c)) = oc_verificationType (cw_criterion c)" by simp_all
  show "cw_missionId (h c) = cw_missionId c" "cw_createdAt (h c) = cw_createdAt c" using assms by (simp_all add: status_only_def)
qed

lemma find_criterion_updated:
  assumes "status_only h"
  shows "find (\<lambda>c. oc_id (cw_criterion c) = i \<and> cw_missionId c = m) (map h t)
    = map_option h (find (\<lambda>c. oc_id (cw_criterion c) = i \<and> cw_missionId c = m) t)"
  by (intro find_map_row) (simp add: status_only_fields [OF assms])

text \<open>
  The latest recorded verification decides a criterion: when a trusted source records evidence
  for a criterion in the current submission, snapshot and review epoch, the record just written is
  the one the approval predicate reads for it, whatever was recorded before, so that a later
  failure or inconclusive attempt always supersedes an earlier pass.
\<close>

theorem recorded_evidence_decides:
  assumes "reachable ledger_start ledger_step st" "collates lc"
    and rec: "recordEvidenceWithSource newId now missionId [e] source st = (None, st')"
    and trusted: "source \<noteq> ''agent_claim''" "source \<noteq> []"
    and i: "ei_criterionId e = Some i" "i \<noteq> []"
    and ctx: "context_snapshot ctx = Inr (Some sn)" "ei_submissionId e = ac_submissionId ctx" "truthy (ac_submissionId ctx)"
      "normalizeWorkspaceSnapshotIdentity (ei_snapshotKind e) (ei_snapshotRef e) (ei_snapshotCommit e) = Inr (Some sn)"
      "ei_reviewEpoch e = ac_reviewEpoch ctx"
    and old: "latestCurrentEvidence lc missionId i ctx st = Inr previous"
  shows "latestCurrentEvidence lc missionId i ctx st'
    = Inr (Some (ew_evidence (new_evidence_row (newId 0) now missionId source e (Some sn) (next_attempt missionId st))))"
proof -
  let ?row = "new_evidence_row (newId 0) now missionId source e (Some sn) (next_attempt missionId st)"
  let ?P = "\<lambda>r. ew_missionId r = missionId \<and> er_criterionId (ew_evidence r) = Some i"
  have wf: "evidence_wf (ld_evidence st)"
    using ledger_inv.inv_reachable [OF assms(1)] by (simp add: ledger_wf_def)
  obtain st1 where st1: "record_entry newId now missionId source 0 e st = Inr st1" and st': "st' = touchMission now missionId st1"
    using rec by (auto simp: recordEvidenceWithSource_def split: sum.splits)
  have ev1: "ld_evidence st1 = ld_evidence st @ [?row]" using record_entry_tables(6) [OF st1] ctx(4) by auto
  obtain h where h: "ld_criteria st1 = map h (ld_criteria st)" "status_only h" using record_entry_criteria [OF st1] by blast
  obtain c where c: "find (\<lambda>c. oc_id (cw_criterion c) = i \<and> cw_missionId c = missionId) (ld_criteria st) = Some c"
    and allowed: "isEvidenceSourceAllowed (oc_verificationType (cw_criterion c)) source"
    using st1 i trusted by (auto simp: record_entry_def check_criterion_entry_def Let_def split: option.splits if_splits)
  have sn: "fst sn \<noteq> []" "snd sn \<noteq> []" using normalize_truthy ctx(4) by (metis prod.collapse)+
  have cc: "context_complete (context_of ctx (Some sn))" using ctx(3) sn by (simp add: context_complete_def)
  obtain ev where ev: "evidence_rows ?P st = Inr ev"
    using old ctx(1,3) c sn by (auto simp: latestCurrentEvidence_def)
  have ev1': "ld_evidence st' = ld_evidence st @ [?row]" using ev1 st' by simp
  have "?P ?row" using i(1) by (simp add: new_evidence_row_def)
  then obtain ev' where ev': "evidence_rows ?P st' = Inr ev'" "set ev' = set ev \<union> {ew_evidence ?row}"
    using evidence_rows_append [OF ev1' rowToEvidence_new [OF ctx(4)] ev] by auto
  have "evidenceAttempt x < next_attempt missionId st" if x: "x \<in> set ev" for x
  proof -
    obtain r where r: "r \<in> set (ld_evidence st)" "?P r" "rowToEvidence r = Inr x"
      using x unfolding evidence_rows_mem [OF ev] by blast
    obtain a where "er_attempt (ew_evidence r) = Some a" using wf r(1) by (auto simp: evidence_wf_def)
    then show ?thesis using next_attempt_gt [of r st] r record_of_attempt [OF r(3)] by (simp add: evidenceAttempt_def)
  qed
  moreover have "evidenceAttempt (ew_evidence ?row) = next_attempt missionId st"
    by (simp add: new_evidence_row_def evidenceAttempt_def)
  ultimately have "selectEffectiveEvidenceResult lc ev' (Some i) None (context_of ctx (Some sn))
      (Some (isEvidenceSourceAllowed (oc_verificationType (cw_criterion c)))) = Some (ew_evidence ?row)"
    using allowed ctx trusted i
    by (intro select_latest_attempt [OF assms(2) cc i(2)]) (auto simp: ev' evidence_qualifies_def new_evidence_row_def)
  then show ?thesis
    using ctx(1,3) sn ev'(1) find_criterion_updated [OF h(2), of i missionId "ld_criteria st"] status_only_fields(4) [OF h(2), of c] c st' h(1)
    by (simp add: latestCurrentEvidence_def)
qed

definition demo_mission :: mission_row where
  "demo_mission = \<lparr>mr_id = ''m1'', mr_workSessionId = ''ws1'', mr_baselineKind = None, mr_baselineRef = None, mr_baselineCommit = None,
     mr_correctionRounds = 0, mr_maxCorrectionRounds = 1, mr_finalVerification = [], mr_reviewCoverage = [],
     mr_outcomeEvidence = None, mr_outcomeExpectedBehavior = None, mr_updatedAt = 0\<rparr>"

definition demo_criterion_row :: criterion_row where
  "demo_criterion_row = \<lparr>cw_missionId = ''m1'', cw_criterion = \<lparr>oc_id = ''c1'', oc_description = ''tests pass'', oc_priority = ''required'',
     oc_verificationType = ''test'', oc_dependsOn = Some [], oc_status = ''unverified''\<rparr>, cw_createdAt = 0, cw_updatedAt = 0\<rparr>"

definition demo_submission :: submission_row where
  "demo_submission = \<lparr>sb_id = ''s1'', sb_workSessionId = ''ws1'', sb_submissionNumber = 1, sb_snapshotKind = Some ''git'',
     sb_snapshotRef = Some ''abc'', sb_reviewEpoch = 1\<rparr>"

definition demo_ledger :: ledger where
  "demo_ledger = \<lparr>ld_missions = [demo_mission], ld_criteria = [demo_criterion_row], ld_findings = [], ld_evidence = [],
     ld_reports = [], ld_observations = [], ld_submissions = [demo_submission]\<rparr>"

definition demo_entry :: "string \<Rightarrow> evidence_input" where
  "demo_entry status = \<lparr>ei_criterionId = Some ''c1'', ei_findingId = None, ei_submissionId = Some ''s1'', ei_reviewEpoch = Some 1,
     ei_snapshotKind = Some ''git'', ei_snapshotRef = Some ''abc'', ei_snapshotCommit = None, ei_command = Some ''npm test'',
     ei_status = status\<rparr>"

definition demo_approval_context :: approval_context where
  "demo_approval_context = \<lparr>ac_submissionId = Some ''s1'', ac_snapshotKind = Some ''git'', ac_snapshotRef = Some ''abc'',
     ac_snapshotCommit = None, ac_reviewEpoch = Some 1\<rparr>"

definition demo_ids :: "nat \<Rightarrow> string" where
  "demo_ids n = ''ev'' @ show_nat n"

definition demo_passed :: ledger where
  "demo_passed = snd (recordVerifierEvidence demo_ids 10 ''m1'' [demo_entry ''passed''] demo_ledger)"

definition demo_failed :: ledger where
  "demo_failed = snd (recordVerifierEvidence demo_ids 20 ''m1'' [demo_entry ''failed''] demo_passed)"

lemma demo_ledger_reachable: "reachable ledger_start ledger_step demo_ledger"
proof -
  let ?z = "demo_ledger\<lparr>ld_missions := []\<rparr>"
  have "reachable ledger_start ledger_step ?z"
    by (rule reachable_start) (simp add: ledger_start_def demo_ledger_def)
  moreover have "ledger_step ?z demo_ledger"
    by (rule step_env [of _ _ "[demo_mission]"]) (simp_all add: demo_ledger_def demo_mission_def)
  ultimately show ?thesis by (rule reachable_step)
qed

lemma demo_passed_reachable: "reachable ledger_start ledger_step demo_passed"
  unfolding demo_passed_def recordVerifierEvidence_def
  by (rule reachable_step [OF demo_ledger_reachable step_evidence])

theorem recorded_evidence_decides_witness:
  "(\<exists>e. latestCurrentEvidence code_unit_compare ''m1'' ''c1'' demo_approval_context demo_passed = Inr (Some e) \<and> er_status e = ''passed'')
   \<and> latestCurrentEvidence code_unit_compare ''m1'' ''c1'' demo_approval_context demo_failed
     = Inr (Some (ew_evidence (new_evidence_row (demo_ids 0) 20 ''m1'' ''server_test_runner'' (demo_entry ''failed'')
         (Some (''git'', ''abc'')) (next_attempt ''m1'' demo_passed))))"
proof -
  have "case latestCurrentEvidence code_unit_compare ''m1'' ''c1'' demo_approval_context demo_passed of
      Inl _ \<Rightarrow> False | Inr r \<Rightarrow> map_option er_status r = Some ''passed''"
    by code_simp
  then obtain e where e: "latestCurrentEvidence code_unit_compare ''m1'' ''c1'' demo_approval_context demo_passed = Inr (Some e)"
    "er_status e = ''passed''" by (auto split: sum.splits)
  have rec: "recordEvidenceWithSource demo_ids 20 ''m1'' [demo_entry ''failed''] ''server_test_runner'' demo_passed = (None, demo_failed)"
    unfolding demo_failed_def recordVerifierEvidence_def by (rule prod_eqI) (code_simp, simp)
  have c: "context_snapshot demo_approval_context = Inr (Some (''git'', ''abc''))" by code_simp
  have n: "normalizeWorkspaceSnapshotIdentity (ei_snapshotKind (demo_entry ''failed'')) (ei_snapshotRef (demo_entry ''failed''))
      (ei_snapshotCommit (demo_entry ''failed'')) = Inr (Some (''git'', ''abc''))" by code_simp
  show ?thesis
    using recorded_evidence_decides [OF demo_passed_reachable collates_code_unit rec _ _ _ _ c _ _ n _ e(1)] e
    by (simp add: demo_entry_def demo_approval_context_def)
qed

subsection \<open>The correction loop is bounded\<close>

lemma find_sql_update:
  assumes "\<And>r. P (f r) = P r"
  shows "find P (sql_update Q f t) = map_option (\<lambda>r. if Q r then f r else r) (find P t)"
  using assms by (induction t) auto

lemma loop_extension_cases:
  assumes "evaluateLoopExtension lc now ws r st = Inr (Some d, st')"
    and m: "find (\<lambda>m. mr_workSessionId m = ws) (ld_missions st) = Some m"
  obtains n ctx a rs where "getCurrentApprovalContext ws st = Inr ctx" "canApprove lc ws (Some ctx) st = Inr (a, rs)"
    "d = evaluateCorrectionPolicy (mr_correctionRounds m) (mr_maxCorrectionRounds m) n (r\<lparr>cr_missionApproved := Some a\<rparr>) None"
    "st' = (if ed_extend d then st\<lparr>ld_missions := sql_update (\<lambda>x. mr_id x = mr_id m)
       (\<lambda>x. x\<lparr>mr_correctionRounds := ed_round d, mr_updatedAt := now\<rparr>) (ld_missions st)\<rparr> else st)"
  using assms by (auto simp: evaluateLoopExtension_def Let_def)

text \<open>
  C36. The correction loop cannot run away: in every reachable ledger a mission has used at most
  its ceiling of rounds plus the two that progress may add; a granted extension raises the counter
  by exactly one within that bound, a refused one changes nothing, and the loop reports convergence
  only when the approval predicate of the current submission allows completion.
\<close>

theorem correction_loop_bounded:
  assumes "reachable ledger_start ledger_step st"
    and m: "find (\<lambda>m. mr_workSessionId m = ws) (ld_missions st) = Some m"
    and ext: "evaluateLoopExtension lc now ws r st = Inr (Some d, st')"
  shows "mr_correctionRounds m \<le> max 0 (mr_maxCorrectionRounds m + 2)
    \<and> (if ed_extend d then find (\<lambda>m. mr_workSessionId m = ws) (ld_missions st')
          = Some (m\<lparr>mr_correctionRounds := mr_correctionRounds m + 1, mr_updatedAt := now\<rparr>)
        \<and> mr_correctionRounds m + 1 \<le> mr_maxCorrectionRounds m + 2
       else st' = st)
    \<and> (ed_reason d = Converged \<longrightarrow> (\<exists>ctx rs. getCurrentApprovalContext ws st = Inr ctx \<and> canApprove lc ws (Some ctx) st = Inr (True, rs)))"
proof -
  have mem: "m \<in> set (ld_missions st)" using find_Some_mem [OF m] by simp
  then have b: "mr_correctionRounds m \<le> max 0 (mr_maxCorrectionRounds m + 2)"
    using ledger_inv.inv_reachable [OF assms(1)] by (auto simp: ledger_wf_def rounds_wf_def)
  obtain n ctx a rs where c: "getCurrentApprovalContext ws st = Inr ctx" "canApprove lc ws (Some ctx) st = Inr (a, rs)"
    and d: "d = evaluateCorrectionPolicy (mr_correctionRounds m) (mr_maxCorrectionRounds m) n (r\<lparr>cr_missionApproved := Some a\<rparr>) None"
    and st': "st' = (if ed_extend d then st\<lparr>ld_missions := sql_update (\<lambda>x. mr_id x = mr_id m)
       (\<lambda>x. x\<lparr>mr_correctionRounds := ed_round d, mr_updatedAt := now\<rparr>) (ld_missions st)\<rparr> else st)"
    using loop_extension_cases [OF ext m] .
  have "ed_reason d = Converged \<longrightarrow> a"
    using correction_converged [of "mr_correctionRounds m" "mr_maxCorrectionRounds m" n "r\<lparr>cr_missionApproved := Some a\<rparr>" None] d
    by auto
  moreover have "if ed_extend d then find (\<lambda>m. mr_workSessionId m = ws) (ld_missions st')
        = Some (m\<lparr>mr_correctionRounds := mr_correctionRounds m + 1, mr_updatedAt := now\<rparr>)
        \<and> mr_correctionRounds m + 1 \<le> mr_maxCorrectionRounds m + 2 else st' = st"
    using st' m d correction_extends [of "mr_correctionRounds m" "mr_maxCorrectionRounds m" n "r\<lparr>cr_missionApproved := Some a\<rparr>" None]
    by (auto simp: find_sql_update)
  ultimately show ?thesis using b c by (cases a) simp_all
qed

definition demo_round :: correction_round where
  "demo_round = \<lparr>cr_newFindingIds = [], cr_resolvedFindingIds = Some [''f1''], cr_missionApproved = None, cr_madeProgress = None\<rparr>"

theorem correction_loop_bounded_witness:
  "\<exists>d st'. evaluateLoopExtension code_unit_compare 30 ''ws1'' demo_round demo_ledger = Inr (Some d, st')
     \<and> find (\<lambda>m. mr_workSessionId m = ''ws1'') (ld_missions st') = Some (demo_mission\<lparr>mr_correctionRounds := 1, mr_updatedAt := 30\<rparr>)"
proof -
  have "case evaluateLoopExtension code_unit_compare 30 ''ws1'' demo_round demo_ledger of
      Inl _ \<Rightarrow> False | Inr (x, _) \<Rightarrow> map_option ed_extend x = Some True" by code_simp
  then obtain d st' where e: "evaluateLoopExtension code_unit_compare 30 ''ws1'' demo_round demo_ledger = Inr (Some d, st')"
    and d: "ed_extend d" by (auto split: sum.splits prod.splits)
  have m: "find (\<lambda>m. mr_workSessionId m = ''ws1'') (ld_missions demo_ledger) = Some demo_mission"
    by (simp add: demo_ledger_def demo_mission_def)
  show ?thesis using correction_loop_bounded [OF demo_ledger_reachable m e] d e by (auto simp: demo_mission_def)
qed

end
