(* ===== verification/Mission_Approval.thy ===== *)
theory Mission_Approval
  imports Mission_Ledger
begin

text \<open>
  What an approval of a mission guarantees over the ledger of \<open>Mission_Ledger\<close>: the approval
  predicate \<open>canApprove\<close> read together with the evaluation of criteria and findings it calls, the
  operations that record evidence and observations, and the correction loop that asks it. The
  theory holds no new definitions of code; it proves the properties that span the contract, the
  decisions and the tables.
\<close>

section \<open>The evaluation behind an approval\<close>

lemma states_by_id_effective:
  "states_by_id (evaluateEffectiveCriteria cs ef ctx) i =
     (if i \<in> oc_id ` set cs
      then Some (spec_state (outcome_by_id cs) ef ctx i (the (map_of (rev (outcome_by_id cs)) i))) else None)"
proof -
  let ?F = "\<lambda>i. spec_state (outcome_by_id cs) ef ctx i (the (map_of (rev (outcome_by_id cs)) i))"
  have id: "cs_criterionId (?F i) = i" for i by (simp add: spec_state_def state_of_criterion_def Let_def)
  have "rev (map (\<lambda>s. (cs_criterionId s, s)) (evaluateEffectiveCriteria cs ef ctx)) = map (\<lambda>k. (k, ?F k)) (rev (map oc_id cs))"
    by (simp add: evaluateEffectiveCriteria_eq rev_map comp_def id)
  then show ?thesis by (simp add: states_by_id_def map_of_map_restrict restrict_map_def)
qed

lemma required_effective:
  assumes "set cs = set cs'"
  shows "(\<forall>c \<in> set cs'. criterion_reasons (states_by_id (evaluateEffectiveCriteria cs ef ctx)) c = [])
    \<longleftrightarrow> (\<forall>c \<in> set cs. oc_priority c = ''required'' \<longrightarrow> effective (outcome_by_id cs) ef (oc_id c))"
  using assms by (auto simp: gates_Nil(3) states_by_id_effective evaluate_state(2))

lemma normalize_context_idem:
  assumes "normalizeCurrentApprovalContext c = Inr ctx"
  shows "normalizeCurrentApprovalContext ctx = Inr ctx"
proof (cases "context_snapshot c")
  case (Inl e)
  then show ?thesis using assms by (simp add: normalizeCurrentApprovalContext_def)
next
  case (Inr sn)
  show ?thesis
  proof (cases sn)
    case None
    then show ?thesis using assms Inr by (auto simp: normalizeCurrentApprovalContext_def)
  next
    case (Some kr)
    obtain k r where kr: "kr = (k, r)" by (cases kr)
    have ctx: "ac_snapshotKind ctx = Some k" "ac_snapshotRef ctx = Some r" "ac_snapshotCommit ctx = None"
      using assms Inr Some kr by (auto simp: normalizeCurrentApprovalContext_def)
    have "normalizeWorkspaceSnapshotIdentity (Some k) (Some r) (Some r) = Inr (Some (k, r))"
      using normalize_idem Inr Some kr unfolding context_snapshot_def by fastforce
    then have "normalizeWorkspaceSnapshotIdentity (Some k) (Some r) None = Inr (Some (k, r))"
      by (cases "nonblank (Some r)") (auto simp: normalizeWorkspaceSnapshotIdentity_def Let_def nonblank_def split: if_splits)
    then show ?thesis using ctx by (simp add: normalizeCurrentApprovalContext_def context_snapshot_def)
  qed
qed

text \<open>The evidence the approval predicate reads for a criterion, and what the evaluation makes of it.\<close>

abbreviation read_evidence :: "(string \<Rightarrow> string \<Rightarrow> int) \<Rightarrow> mission_row \<Rightarrow> approval_context \<Rightarrow> ledger \<Rightarrow> outcome_criterion \<Rightarrow> evidence_record option" where
  "read_evidence lc m ctx st \<equiv> \<lambda>c. found_evidence (latestCurrentEvidence lc (mr_id m) (oc_id c) ctx st)"

abbreviation criteria_of :: "mission_row \<Rightarrow> ledger \<Rightarrow> (string \<times> outcome_criterion) list" where
  "criteria_of m st \<equiv> outcome_by_id (mission_criteria (mr_id m) st)"

lemma canApprove_mission:
  assumes m: "getMissionByWorkSession ws st = Inr (Some m)" and ctx: "resolved_context ws context st = Inr ctx"
  shows "canApprove lc ws context st = Inr (a, rs) \<longleftrightarrow>
    (\<exists>sn ev. context_snapshot ctx = Inr sn \<and> evidence_rows (\<lambda>r. ew_missionId r = mr_id m) st = Inr ev
      \<and> (\<forall>c \<in> set (mission_criteria (mr_id m) st). \<exists>e. latestCurrentEvidence lc (mr_id m) (oc_id c) ctx st = Inr e)
      \<and> evaluateMissionOutcome (mission_approval_input lc m ctx sn ev
          (evaluateEffectiveCriteria (mission_criteria (mr_id m) st) (read_evidence lc m ctx st)
            \<lparr>ec_submissionId = ac_submissionId ctx, ec_snapshotKind = ac_snapshotKind ctx,
             ec_snapshotRef = ac_snapshotRef ctx, ec_reviewEpoch = ac_reviewEpoch ctx\<rparr>) st) = (a, rs))"
proof -
  have "normalizeCurrentApprovalContext ctx = Inr ctx"
    using ctx normalize_context_idem by (auto simp: resolved_context_def)
  then show ?thesis
    using m ctx by (auto simp: canApprove_def evaluateCriteria_def resolved_context_def traverse_Inr_iff Let_def)
qed

text \<open>The gates of the approval predicate, those that read neither evidence nor criteria together.\<close>

definition fixed_gates :: "mission_row \<Rightarrow> approval_context \<Rightarrow> (string \<times> string) option \<Rightarrow> ledger \<Rightarrow> bool" where
  "fixed_gates m ctx sn st \<longleftrightarrow>
     (let i = mission_approval_input code_unit_compare m ctx sn [] [] st
      in integration_reasons i = [] \<and> observation_reasons i = [] \<and> final_reasons i = [] \<and> coverage_reasons i = [])"

abbreviation mission_findings :: "mission_row \<Rightarrow> ledger \<Rightarrow> finding_row list" where
  "mission_findings m st \<equiv> filter (\<lambda>f. fw_missionId f = mr_id m) (ld_findings st)"

lemma set_mission_criteria: "set (mission_criteria i st) = cw_criterion ` {c \<in> set (ld_criteria st). cw_missionId c = i}"
  by (simp add: mission_criteria_def)

lemma approval_gates:
  "fst (evaluateMissionOutcome (mission_approval_input lc m ctx sn ev (evaluateEffectiveCriteria (mission_criteria (mr_id m) st) ef ec) st))
   \<longleftrightarrow> (\<forall>c \<in> set (mission_criteria (mr_id m) st). oc_priority c = ''required'' \<longrightarrow> effective (criteria_of m st) ef (oc_id c))
     \<and> (\<forall>f \<in> set (mission_findings m st). finding_reasons
          (Some (finding_resolutions lc ev (complete_context ctx sn) (mission_findings m st) Map.empty)) (fw_finding f) = [])
     \<and> fixed_gates m ctx sn st"
proof -
  let ?i = "mission_approval_input lc m ctx sn ev (evaluateEffectiveCriteria (mission_criteria (mr_id m) st) ef ec) st"
  let ?z = "mission_approval_input code_unit_compare m ctx sn [] [] st"
  have sel: "mi_currentReport ?i = mi_currentReport ?z" "mi_outcomeEvidence ?i = mi_outcomeEvidence ?z"
    "mi_observations ?i = mi_observations ?z" "mi_observationContext ?i = mi_observationContext ?z"
    "mi_currentSubmissionId ?i = mi_currentSubmissionId ?z" "mi_finalVerification ?i = mi_finalVerification ?z"
    "mi_reviewCoverage ?i = mi_reviewCoverage ?z"
    by (simp_all add: mission_approval_input_def Let_def)
  have eqs: "integration_reasons ?i = integration_reasons ?z" "observation_reasons ?i = observation_reasons ?z"
    "final_reasons ?i = final_reasons ?z" "coverage_reasons ?i = coverage_reasons ?z"
    unfolding integration_reasons_def observation_reasons_def final_reasons_def coverage_reasons_def
      required_strength_def default_observation_context_def sel by (rule refl)+
  have "set (mission_criteria (mr_id m) st) = set (mi_criteria ?i)"
    by (simp add: mission_approval_input_def set_mission_criteria Let_def)
  from required_effective [OF this]
  have "(\<forall>c \<in> set (mi_criteria ?i). criterion_reasons (states_by_id (mi_criterionStates ?i)) c = [])
      \<longleftrightarrow> (\<forall>c \<in> set (mission_criteria (mr_id m) st). oc_priority c = ''required'' \<longrightarrow> effective (criteria_of m st) ef (oc_id c))"
    by (simp add: mission_approval_input_def Let_def)
  moreover have "(\<forall>f \<in> set (mi_findings ?i). finding_reasons (mi_findingResolutions ?i) f = [])
      \<longleftrightarrow> (\<forall>f \<in> set (mission_findings m st). finding_reasons
          (Some (finding_resolutions lc ev (complete_context ctx sn) (mission_findings m st) Map.empty)) (fw_finding f) = [])"
    by (simp add: mission_approval_input_def Let_def)
  ultimately show ?thesis unfolding mission_allowed_iff eqs fixed_gates_def Let_def by blast
qed

lemma effective_edge:
  assumes "effective b ef i" "edge (criterion_deps b) i d"
  shows "effective b ef d"
  using assms by (auto simp: effective_iff [of b ef i] criterion_deps_def)

lemma effective_path: "(edge (criterion_deps b))\<^sup>*\<^sup>* i d \<Longrightarrow> effective b ef i \<Longrightarrow> effective b ef d"
  by (induction rule: rtranclp_induct) (auto intro: effective_edge)

lemma map_of_outcome_by_id: "map_of (rev (outcome_by_id cs)) i = Some c \<Longrightarrow> oc_id c = i \<and> c \<in> set cs"
  by (drule map_of_SomeD) (auto simp: outcome_by_id_def)

section \<open>Approval is backed by current evidence\<close>

definition gating :: "finding_row \<Rightarrow> bool" where
  "gating f \<longleftrightarrow> of_scope (fw_finding f) \<noteq> ''out_of_scope'' \<and> of_disposition (fw_finding f) = ''blocking'' \<and> of_status (fw_finding f) \<noteq> ''waived''"

lemma finding_resolutions_other:
  "i \<notin> (\<lambda>f. of_id (fw_finding f)) ` set fs \<Longrightarrow> finding_resolutions lc ev complete fs acc i = acc i"
  by (induction lc ev complete fs acc rule: finding_resolutions.induct) (auto simp: Let_def split: option.splits)

lemma finding_resolutions_lookup:
  assumes "distinct (map (\<lambda>f. of_id (fw_finding f)) fs)" "f \<in> set fs" "gating f"
    "of_status (fw_finding f) \<in> {''verified_resolved'', ''claimed_resolved''}"
    "finding_resolutions lc ev complete fs acc (of_id (fw_finding f)) = Some (True, rs)"
  shows "\<exists>ec. complete = Some ec \<and> fr_resolved (evaluateEffectiveFindingResolution lc ev (fw_requiredVerification f) (of_id (fw_finding f)) ec)"
  using assms
proof (induction lc ev complete fs acc rule: finding_resolutions.induct)
  case (2 lc ev complete row rows acc)
  show ?case
  proof (cases "f = row")
    case True
    then have "of_id (fw_finding f) \<notin> (\<lambda>f. of_id (fw_finding f)) ` set rows" using "2.prems"(1) by simp
    then show ?thesis using "2.prems" True by (auto simp: finding_resolutions_other gating_def Let_def split: option.splits if_splits)
  next
    case False
    then show ?thesis using 2 by (auto simp: Let_def)
  qed
qed simp

lemma criterion_evidence:
  assumes "collates lc" and e: "latestCurrentEvidence lc missionId i ctx st = Inr (Some e)"
  shows "\<exists>c \<in> set (ld_criteria st). cw_missionId c = missionId \<and> oc_id (cw_criterion c) = i \<and> er_criterionId e = Some i
    \<and> er_submissionId e = ac_submissionId ctx \<and> (ac_reviewEpoch ctx = None \<or> er_reviewEpoch e = ac_reviewEpoch ctx)
    \<and> (\<exists>source. er_source e = Some source \<and> isEvidenceSourceAllowed (oc_verificationType (cw_criterion c)) source)"
proof -
  obtain sn c ev where c: "find (\<lambda>c. oc_id (cw_criterion c) = i \<and> cw_missionId c = missionId) (ld_criteria st) = Some c"
    and sel: "selectEffectiveEvidenceResult lc ev (Some i) None (context_of ctx sn)
      (Some (isEvidenceSourceAllowed (oc_verificationType (cw_criterion c)))) = Some e"
    using e by (auto simp: latestCurrentEvidence_def split: if_splits option.splits)
  then show ?thesis
    using select_criterion_Some [OF assms(1) sel] find_Some_mem [OF c]
    by (auto simp: authoritative_def evidence_qualifies_def truthy_def split: option.splits)
qed

text \<open>
  C28. An approval is backed by evidence for exactly the submission it approves: when the approval
  predicate allows a mission, then every required criterion, and every criterion it depends on
  through any chain, has as its authoritative record a passing one for that criterion, submission
  and review epoch from a source its verification type allows; and every blocking in-scope finding
  is waived or effectively resolved by the evidence of that submission.
\<close>

theorem approval_backed_by_evidence:
  assumes lc: "collates lc" and ids: "distinct (map (\<lambda>f. of_id (fw_finding f)) (ld_findings st))"
    and m: "getMissionByWorkSession ws st = Inr (Some m)" and ctx: "resolved_context ws context st = Inr ctx"
    and ok: "canApprove lc ws context st = Inr (True, rs)"
  shows "(\<forall>c \<in> set (mission_criteria (mr_id m) st). oc_priority c = ''required'' \<longrightarrow>
      (\<forall>i. (edge (criterion_deps (criteria_of m st)))\<^sup>*\<^sup>* (oc_id c) i \<longrightarrow>
        (\<exists>e d. latestCurrentEvidence lc (mr_id m) i ctx st = Inr (Some e) \<and> er_status e = ''passed''
          \<and> d \<in> set (mission_criteria (mr_id m) st) \<and> oc_id d = i
          \<and> er_criterionId e = Some i \<and> er_submissionId e = ac_submissionId ctx
          \<and> (ac_reviewEpoch ctx = None \<or> er_reviewEpoch e = ac_reviewEpoch ctx)
          \<and> (\<exists>source. er_source e = Some source \<and> isEvidenceSourceAllowed (oc_verificationType d) source))))
    \<and> (\<exists>sn ev. context_snapshot ctx = Inr sn \<and> evidence_rows (\<lambda>r. ew_missionId r = mr_id m) st = Inr ev
      \<and> (\<forall>f \<in> set (ld_findings st). fw_missionId f = mr_id m \<longrightarrow> gating f \<longrightarrow>
          fr_resolved (evaluateEffectiveFindingResolution lc ev (fw_requiredVerification f) (of_id (fw_finding f)) (context_of ctx sn))))"
proof -
  let ?cs = "mission_criteria (mr_id m) st" let ?ef = "read_evidence lc m ctx st" let ?b = "criteria_of m st"
  let ?fs = "filter (\<lambda>f. fw_missionId f = mr_id m) (ld_findings st)"
  obtain sn ev where sn: "context_snapshot ctx = Inr sn" and ev: "evidence_rows (\<lambda>r. ew_missionId r = mr_id m) st = Inr ev"
    and out: "evaluateMissionOutcome (mission_approval_input lc m ctx sn ev (evaluateEffectiveCriteria ?cs ?ef
        \<lparr>ec_submissionId = ac_submissionId ctx, ec_snapshotKind = ac_snapshotKind ctx,
         ec_snapshotRef = ac_snapshotRef ctx, ec_reviewEpoch = ac_reviewEpoch ctx\<rparr>) st) = (True, rs)"
    using ok canApprove_mission [OF m ctx] by blast
  have ok: "fst (evaluateMissionOutcome (mission_approval_input lc m ctx sn ev (evaluateEffectiveCriteria ?cs ?ef
        \<lparr>ec_submissionId = ac_submissionId ctx, ec_snapshotKind = ac_snapshotKind ctx,
         ec_snapshotRef = ac_snapshotRef ctx, ec_reviewEpoch = ac_reviewEpoch ctx\<rparr>) st))"
    by (simp add: out)
  note gates = ok [unfolded approval_gates]
  have passed: "\<exists>e d. latestCurrentEvidence lc (mr_id m) i ctx st = Inr (Some e) \<and> er_status e = ''passed''
      \<and> d \<in> set ?cs \<and> oc_id d = i \<and> er_criterionId e = Some i \<and> er_submissionId e = ac_submissionId ctx
      \<and> (ac_reviewEpoch ctx = None \<or> er_reviewEpoch e = ac_reviewEpoch ctx)
      \<and> (\<exists>source. er_source e = Some source \<and> isEvidenceSourceAllowed (oc_verificationType d) source)"
    if i: "effective ?b ?ef i" for i
  proof -
    obtain c where "map_of (rev ?b) i = Some c" "map_option er_status (?ef c) = Some ''passed''"
      using i by (auto simp: effective_iff [of ?b ?ef i])
    then obtain e where "latestCurrentEvidence lc (mr_id m) i ctx st = Inr (Some e)" "er_status e = ''passed''"
      using map_of_outcome_by_id [of ?cs i c] by (auto simp: found_evidence_def split: sum.splits)
    then show ?thesis using criterion_evidence [OF lc] by (fastforce simp: set_mission_criteria)
  qed
  have "fr_resolved (evaluateEffectiveFindingResolution lc ev (fw_requiredVerification f) (of_id (fw_finding f)) (context_of ctx sn))"
    if f: "f \<in> set ?fs" "gating f" for f
  proof -
    have "finding_reasons (Some (finding_resolutions lc ev (complete_context ctx sn) ?fs Map.empty)) (fw_finding f) = []"
      using gates f(1) by blast
    then obtain rs' where "of_status (fw_finding f) \<in> {''verified_resolved'', ''claimed_resolved''}"
      "finding_resolutions lc ev (complete_context ctx sn) ?fs Map.empty (of_id (fw_finding f)) = Some (True, rs')"
      using f(2) by (auto simp: gates_Nil(4) gating_def)
    then show ?thesis
      using finding_resolutions_lookup [OF _ f, of lc ev "complete_context ctx sn" Map.empty] ids
      by (auto simp: distinct_map_filter complete_context_def split: if_splits)
  qed
  then show ?thesis using gates passed effective_path sn ev by (intro conjI) (blast, fastforce)
qed

theorem approval_backed_by_evidence_witness:
  "canApprove code_unit_compare ''ws1'' None demo_passed = Inr (True, [])
   \<and> (\<exists>e. latestCurrentEvidence code_unit_compare ''m1'' ''c1'' demo_approval_context demo_passed = Inr (Some e)
        \<and> er_status e = ''passed'' \<and> er_submissionId e = Some ''s1'')"
proof -
  have ok: "canApprove code_unit_compare ''ws1'' None demo_passed = Inr (True, [])" by code_simp
  have "case getMissionByWorkSession ''ws1'' demo_passed of Inl _ \<Rightarrow> False | Inr m \<Rightarrow> map_option mr_id m = Some ''m1''" by code_simp
  then obtain m where m: "getMissionByWorkSession ''ws1'' demo_passed = Inr (Some m)" "mr_id m = ''m1''" by (auto split: sum.splits)
  have ctx: "resolved_context ''ws1'' None demo_passed = Inr demo_approval_context" by code_simp
  have ids: "distinct (map (\<lambda>f. of_id (fw_finding f)) (ld_findings demo_passed))" by code_simp
  have "list_ex (\<lambda>c. oc_id c = ''c1'' \<and> oc_priority c = ''required'') (mission_criteria ''m1'' demo_passed)" by code_simp
  then obtain c where "c \<in> set (mission_criteria ''m1'' demo_passed)" "oc_id c = ''c1''" "oc_priority c = ''required''"
    by (auto simp: list_ex_iff)
  then show ?thesis
    using approval_backed_by_evidence [OF collates_code_unit ids m(1) ctx ok] m(2) ok
    by (fastforce simp: demo_approval_context_def)
qed

section \<open>Claims of the agent\<close>

text \<open>
  Two ledgers that differ in what an agent may claim about its own work: records of source
  \<open>agent_claim\<close>, the stored status of criteria, and times.
\<close>

definition same_trusted :: "evidence_record list \<Rightarrow> evidence_record list \<Rightarrow> bool" where
  "same_trusted ev ev' \<longleftrightarrow> (\<forall>Q. (\<forall>e. er_source e = Some ''agent_claim'' \<longrightarrow> \<not> Q e) \<longrightarrow> filter Q ev' = filter Q ev)"

definition claims_only :: "ledger \<Rightarrow> ledger \<Rightarrow> bool" where
  "claims_only st st' \<longleftrightarrow>
     (\<exists>hm. ld_missions st' = map hm (ld_missions st) \<and> (\<forall>m. hm m = m\<lparr>mr_updatedAt := mr_updatedAt (hm m)\<rparr>))
     \<and> (\<exists>h. ld_criteria st' = map h (ld_criteria st) \<and> status_only h)
     \<and> ld_findings st' = ld_findings st \<and> ld_reports st' = ld_reports st
     \<and> ld_observations st' = ld_observations st \<and> ld_submissions st' = ld_submissions st
     \<and> (\<forall>P ev. evidence_rows P st = Inr ev \<longrightarrow> (\<exists>ev'. evidence_rows P st' = Inr ev' \<and> same_trusted ev ev'))"

lemma claims_only_rows:
  "claims_only st st' \<Longrightarrow> evidence_rows P st = Inr ev \<Longrightarrow> \<exists>ev'. evidence_rows P st' = Inr ev' \<and> same_trusted ev ev'"
  by (simp add: claims_only_def)

lemma same_trusted_filter: "same_trusted ev ev' \<Longrightarrow> (\<forall>e. er_source e = Some ''agent_claim'' \<longrightarrow> \<not> Q e) \<Longrightarrow> filter Q ev' = filter Q ev"
  by (simp add: same_trusted_def)

lemma claims_only_touch: "claims_only st (touchMission now i st)"
proof -
  have "ld_missions (touchMission now i st) = map (\<lambda>m. if mr_id m = i then m\<lparr>mr_updatedAt := now\<rparr> else m) (ld_missions st)"
    by (simp add: touchMission_def sql_update_def)
  moreover have "evidence_rows P (touchMission now i st) = evidence_rows P st" for P by (simp add: evidence_rows_def)
  ultimately show ?thesis unfolding claims_only_def
    by (intro conjI exI [of _ "\<lambda>m. if mr_id m = i then m\<lparr>mr_updatedAt := now\<rparr> else m"] exI [of _ "\<lambda>c. c"])
      (auto simp: status_only_def same_trusted_def)
qed

lemma claims_only_entry:
  assumes "record_entry newId now missionId ''agent_claim'' n e st = Inr st'"
  shows "claims_only st st'"
proof -
  note t = record_entry_tables [OF assms]
  obtain sn where sn: "normalizeWorkspaceSnapshotIdentity (ei_snapshotKind e) (ei_snapshotRef e) (ei_snapshotCommit e) = Inr sn"
    and ev: "ld_evidence st' = ld_evidence st @ [new_evidence_row (newId n) now missionId ''agent_claim'' e sn (next_attempt missionId st)]"
    using t(6) by blast
  have "\<exists>ev'. evidence_rows P st' = Inr ev' \<and> same_trusted ev ev'"
    if "evidence_rows P st = Inr ev" for P ev
  proof -
    have "er_source (ew_evidence (new_evidence_row (newId n) now missionId ''agent_claim'' e sn (next_attempt missionId st))) = Some ''agent_claim''"
      by (simp add: new_evidence_row_def)
    then show ?thesis using evidence_rows_append [OF ev rowToEvidence_new [OF sn] that] unfolding same_trusted_def by blast
  qed
  moreover have "\<exists>hm. ld_missions st' = map hm (ld_missions st) \<and> (\<forall>m. hm m = m\<lparr>mr_updatedAt := mr_updatedAt (hm m)\<rparr>)"
    by (rule exI [of _ "\<lambda>m. m"]) (simp add: t(1))
  ultimately show ?thesis unfolding claims_only_def using t record_entry_criteria [OF assms] by blast
qed

lemma claims_only_latest:
  assumes "claims_only st st'" and old: "latestCurrentEvidence lc missionId i ctx st = Inr r"
  shows "latestCurrentEvidence lc missionId i ctx st' = Inr r"
proof -
  let ?find = "find (\<lambda>c. oc_id (cw_criterion c) = i \<and> cw_missionId c = missionId)"
  let ?P = "\<lambda>r. ew_missionId r = missionId \<and> er_criterionId (ew_evidence r) = Some i"
  obtain h where h: "ld_criteria st' = map h (ld_criteria st)" "status_only h" using assms(1) by (auto simp: claims_only_def)
  have f: "?find (ld_criteria st') = map_option h (?find (ld_criteria st))"
    unfolding h(1) by (rule find_criterion_updated [OF h(2)])
  have same: "selectEffectiveEvidenceResult lc ev' (Some i) None ec (Some (isEvidenceSourceAllowed t))
      = selectEffectiveEvidenceResult lc ev (Some i) None ec (Some (isEvidenceSourceAllowed t))"
    if eq: "same_trusted ev ev'" for ev ev' ec t
  proof -
    have "\<forall>e. er_source e = Some ''agent_claim'' \<longrightarrow> \<not> evidence_qualifies k i ec (Some (isEvidenceSourceAllowed t)) e" for k
      by (auto simp: evidence_qualifies_def isEvidenceSourceAllowed_def)
    from same_trusted_filter [OF eq this] show ?thesis by (simp add: selectEffectiveEvidenceResult_def Let_def)
  qed
  show ?thesis
  proof (cases "evidence_rows ?P st")
    case (Inl e)
    then show ?thesis using old f by (auto simp: latestCurrentEvidence_def split: option.splits if_splits)
  next
    case (Inr ev)
    obtain ev' where "evidence_rows ?P st' = Inr ev'" "same_trusted ev ev'"
      using claims_only_rows [OF assms(1) Inr] by blast
    then show ?thesis using old f Inr same [of ev ev']
      by (auto simp: latestCurrentEvidence_def status_only_fields [OF h(2)] split: option.splits if_splits)
  qed
qed

lemma claims_only_resolution:
  assumes "same_trusted ev ev'"
  shows "evaluateEffectiveFindingResolution lc ev' commands i ec = evaluateEffectiveFindingResolution lc ev commands i ec"
proof -
  have c: "command_result lc ev' i ec command = command_result lc ev i ec command" for command
    unfolding command_result_def by (subst same_trusted_filter [OF assms]) auto
  have "resolve_commands lc ev' i ec cs reasons ids = resolve_commands lc ev i ec cs reasons ids" for cs reasons ids
    by (induction cs arbitrary: reasons ids) (auto simp: c split: option.split)
  moreover have "attestation_result lc ev' i ec = attestation_result lc ev i ec"
    unfolding attestation_result_def by (subst same_trusted_filter [OF assms]) auto
  ultimately show ?thesis by (simp add: evaluateEffectiveFindingResolution_def)
qed

lemma sort_key_map_row: "sort_key k (map h xs) = map h (sort_key (\<lambda>x. k (h x)) xs)"
proof -
  have "insort_key k (h x) (map h ys) = map h (insort_key (\<lambda>x. k (h x)) x ys)" for x ys by (induction ys) auto
  then show ?thesis by (induction xs) auto
qed

lemma mission_criteria_updated:
  assumes "ld_criteria st' = map h (ld_criteria st)" "status_only h"
  shows "mission_criteria i st' = map (\<lambda>c. cw_criterion (h c)) (order_asc cw_createdAt (filter (\<lambda>c. cw_missionId c = i) (ld_criteria st)))"
  using assms by (simp add: mission_criteria_def order_asc_def filter_map comp_def sort_key_map_row status_only_fields)

lemma map_of_keyed: "map_of (rev (map (\<lambda>x. (k x, g x)) xs)) i = map_option g (find (\<lambda>x. k x = i) (rev xs))"
  by (induction xs rule: rev_induct) (auto simp: rev_map [symmetric])

lemma effective_mono:
  assumes "effective b ef i"
    and "\<And>i c. map_of (rev b) i = Some c \<Longrightarrow> \<exists>c'. map_of (rev b') i = Some c' \<and> oc_dependsOn c' = oc_dependsOn c \<and> ef' c' = ef c"
  shows "effective b' ef' i"
  using assms(1)
proof (induction rule: effective.induct)
  case (effective_step i c)
  obtain c' where c': "map_of (rev b') i = Some c'" "oc_dependsOn c' = oc_dependsOn c" "ef' c' = ef c"
    using assms(2) [OF effective_step(1)] by blast
  show ?case by (rule effective.effective_step [OF c'(1)]) (use effective_step c' in auto)
qed

lemma claims_only_effective:
  assumes "claims_only st st'"
    and ok: "\<forall>c \<in> set (mission_criteria (mr_id m) st). \<exists>e. latestCurrentEvidence lc (mr_id m) (oc_id c) ctx st = Inr e"
  shows "effective (criteria_of m st') (read_evidence lc m ctx st') i = effective (criteria_of m st) (read_evidence lc m ctx st) i"
proof -
  obtain h where h: "ld_criteria st' = map h (ld_criteria st)" "status_only h" using assms(1) by (auto simp: claims_only_def)
  let ?X = "order_asc cw_createdAt (filter (\<lambda>c. cw_missionId c = mr_id m) (ld_criteria st))"
  let ?find = "\<lambda>i. find (\<lambda>c. oc_id (cw_criterion c) = i) (rev ?X)"
  have b: "map_of (rev (criteria_of m st)) i = map_option cw_criterion (?find i)"
    "map_of (rev (criteria_of m st')) i = map_option (\<lambda>c. cw_criterion (h c)) (?find i)" for i
    using map_of_keyed [of "\<lambda>c. oc_id (cw_criterion c)" cw_criterion ?X] map_of_keyed [of "\<lambda>c. oc_id (cw_criterion c)" "\<lambda>c. cw_criterion (h c)" ?X]
    by (simp_all add: outcome_by_id_def mission_criteria_updated [OF h] status_only_fields [OF h(2)] comp_def)
      (simp add: mission_criteria_def comp_def)
  have ef: "read_evidence lc m ctx st' (cw_criterion c) = read_evidence lc m ctx st (cw_criterion c)"
    if c: "?find i = Some c" for i c
  proof -
    have "c \<in> set ?X" using find_Some_mem [OF c] by simp
    then have "cw_criterion c \<in> set (mission_criteria (mr_id m) st)" by (simp add: mission_criteria_def)
    then obtain e where "latestCurrentEvidence lc (mr_id m) (oc_id (cw_criterion c)) ctx st = Inr e" using ok by blast
    with claims_only_latest [OF assms(1) this] show ?thesis by simp
  qed
  show ?thesis
  proof
    assume "effective (criteria_of m st') (read_evidence lc m ctx st') i"
    then show "effective (criteria_of m st) (read_evidence lc m ctx st) i"
      by (rule effective_mono) (auto simp: b status_only_fields [OF h(2)] intro: ef ef [symmetric])
  next
    assume "effective (criteria_of m st) (read_evidence lc m ctx st) i"
    then show "effective (criteria_of m st') (read_evidence lc m ctx st') i"
      by (rule effective_mono) (auto simp: b status_only_fields [OF h(2)] intro: ef ef [symmetric])
  qed
qed

lemma finding_resolutions_same:
  assumes "same_trusted ev ev'"
  shows "finding_resolutions lc ev' complete fs acc = finding_resolutions lc ev complete fs acc"
  by (induction fs arbitrary: acc) (auto simp: claims_only_resolution [OF assms] Let_def split: option.split)

lemma claims_only_gates:
  assumes "claims_only st st'" "m' = m\<lparr>mr_updatedAt := t\<rparr>"
  shows "fixed_gates m' ctx sn st' = fixed_gates m ctx sn st"
proof -
  have t: "ld_reports st' = ld_reports st" "ld_observations st' = ld_observations st" "ld_findings st' = ld_findings st"
    using assms(1) by (simp_all add: claims_only_def)
  have "current_report i sub sn st' = current_report i sub sn st" for i sub
    by (simp only: current_report_def t)
  moreover have "mr_id m' = mr_id m" "mr_outcomeExpectedBehavior m' = mr_outcomeExpectedBehavior m" using assms(2) by simp_all
  then have "current_observations m' ctx sn st' = current_observations m ctx sn st"
    by (simp only: current_observations_def t)
  ultimately have "mission_approval_input code_unit_compare m' ctx sn [] [] st'
      = (mission_approval_input code_unit_compare m ctx sn [] [] st)\<lparr>mi_criteria := mi_criteria (mission_approval_input code_unit_compare m' ctx sn [] [] st')\<rparr>"
    using assms(2) by (simp add: mission_approval_input_def Let_def t)
  then have "\<exists>cs. mission_approval_input code_unit_compare m' ctx sn [] [] st' = (mission_approval_input code_unit_compare m ctx sn [] [] st)\<lparr>mi_criteria := cs\<rparr>"
    by blast
  then show ?thesis
    by (auto simp: fixed_gates_def Let_def gates_Nil required_strength_def default_observation_context_def)
qed

lemma claims_only_mission:
  assumes "claims_only st st'" and m: "getMissionByWorkSession ws st = Inr r"
  shows "\<exists>r'. getMissionByWorkSession ws st' = Inr r' \<and> (r = None \<longrightarrow> r' = None)
    \<and> (\<forall>m. r = Some m \<longrightarrow> (\<exists>t. r' = Some (m\<lparr>mr_updatedAt := t\<rparr>)))"
proof -
  obtain hm where hm: "ld_missions st' = map hm (ld_missions st)" "\<And>m. hm m = m\<lparr>mr_updatedAt := mr_updatedAt (hm m)\<rparr>"
    using assms(1) by (auto simp: claims_only_def)
  have keep: "mr_workSessionId (hm m) = mr_workSessionId m" "mr_baselineKind (hm m) = mr_baselineKind m"
    "mr_baselineRef (hm m) = mr_baselineRef m" "mr_baselineCommit (hm m) = mr_baselineCommit m" for m
    by (subst hm(2), simp)+
  have "find (\<lambda>m. mr_workSessionId m = ws) (ld_missions st') = map_option hm (find (\<lambda>m. mr_workSessionId m = ws) (ld_missions st))"
    unfolding hm(1) by (rule find_map_row) (simp add: keep)
  then show ?thesis using m hm(2) by (auto simp: getMissionByWorkSession_def keep split: option.splits)
qed

lemma claims_only_canApprove:
  assumes "claims_only st st'" and ok: "canApprove lc ws context st = Inr (a, rs)"
  shows "\<exists>rs'. canApprove lc ws context st' = Inr (a, rs')"
proof (cases "getMissionByWorkSession ws st")
  case (Inl e)
  then show ?thesis using ok by (simp add: canApprove_def)
next
  case (Inr mission)
  note m' = claims_only_mission [OF assms(1) Inr]
  show ?thesis
  proof (cases mission)
    case None
    then show ?thesis using ok Inr m' by (auto simp: canApprove_def)
  next
    case (Some m)
    then obtain t where t: "getMissionByWorkSession ws st' = Inr (Some (m\<lparr>mr_updatedAt := t\<rparr>))" using m' by blast
    have m: "getMissionByWorkSession ws st = Inr (Some m)" using Inr Some by simp
    obtain ctx where ctx: "resolved_context ws context st = Inr ctx" using ok m by (auto simp: canApprove_def)
    have ctx': "resolved_context ws context st' = Inr ctx"
      using ctx assms(1) by (simp add: resolved_context_def getCurrentApprovalContext_def claims_only_def cong: option.case_cong)
    obtain sn ev where sn: "context_snapshot ctx = Inr sn" and ev: "evidence_rows (\<lambda>r. ew_missionId r = mr_id m) st = Inr ev"
      and lat: "\<forall>c \<in> set (mission_criteria (mr_id m) st). \<exists>e. latestCurrentEvidence lc (mr_id m) (oc_id c) ctx st = Inr e"
      and out: "fst (evaluateMissionOutcome (mission_approval_input lc m ctx sn ev
          (evaluateEffectiveCriteria (mission_criteria (mr_id m) st) (read_evidence lc m ctx st)
            \<lparr>ec_submissionId = ac_submissionId ctx, ec_snapshotKind = ac_snapshotKind ctx,
             ec_snapshotRef = ac_snapshotRef ctx, ec_reviewEpoch = ac_reviewEpoch ctx\<rparr>) st)) = a"
      using ok canApprove_mission [OF m ctx] by (metis fst_conv)
    obtain ev' where ev': "evidence_rows (\<lambda>r. ew_missionId r = mr_id m) st' = Inr ev'" "same_trusted ev ev'"
      using claims_only_rows [OF assms(1) ev] by blast
    obtain h where h: "ld_criteria st' = map h (ld_criteria st)" "status_only h" using assms(1) by (auto simp: claims_only_def)
    have cs: "mission_criteria (mr_id m) st' = map (\<lambda>c. cw_criterion (h c)) (order_asc cw_createdAt (filter (\<lambda>c. cw_missionId c = mr_id m) (ld_criteria st)))"
      by (rule mission_criteria_updated [OF h])
    have lat': "\<forall>c \<in> set (mission_criteria (mr_id m) st'). \<exists>e. latestCurrentEvidence lc (mr_id m) (oc_id c) ctx st' = Inr e"
      using lat claims_only_latest [OF assms(1)] unfolding cs by (fastforce simp: mission_criteria_def status_only_fields [OF h(2)])
    have req: "(\<forall>c \<in> set (mission_criteria (mr_id m) st'). oc_priority c = ''required'' \<longrightarrow> effective (criteria_of m st') (read_evidence lc m ctx st') (oc_id c))
        \<longleftrightarrow> (\<forall>c \<in> set (mission_criteria (mr_id m) st). oc_priority c = ''required'' \<longrightarrow> effective (criteria_of m st) (read_evidence lc m ctx st) (oc_id c))"
    proof -
      let ?k = "\<lambda>c. (oc_priority c, oc_id c)"
      have key: "?k ` set (mission_criteria (mr_id m) st') = ?k ` set (mission_criteria (mr_id m) st)"
        unfolding cs by (simp add: mission_criteria_def image_image status_only_fields [OF h(2)])
      have "(\<forall>c \<in> set (mission_criteria (mr_id m) st'). oc_priority c = ''required'' \<longrightarrow> E (oc_id c))
          \<longleftrightarrow> (\<forall>x \<in> ?k ` set (mission_criteria (mr_id m) st'). fst x = ''required'' \<longrightarrow> E (snd x))" for E by simp
      moreover have "\<dots> E \<longleftrightarrow> (\<forall>c \<in> set (mission_criteria (mr_id m) st). oc_priority c = ''required'' \<longrightarrow> E (oc_id c))" for E
        unfolding key by simp
      ultimately show ?thesis by (simp only: claims_only_effective [OF assms(1) lat])
    qed
    have fs: "ld_findings st' = ld_findings st" using assms(1) by (simp add: claims_only_def)
    have mid: "mr_id (m\<lparr>mr_updatedAt := t\<rparr>) = mr_id m" by simp
    have "fst (evaluateMissionOutcome (mission_approval_input lc (m\<lparr>mr_updatedAt := t\<rparr>) ctx sn ev'
          (evaluateEffectiveCriteria (mission_criteria (mr_id (m\<lparr>mr_updatedAt := t\<rparr>)) st') (read_evidence lc m ctx st') ec) st')) = a" for ec
      unfolding approval_gates
      unfolding fs claims_only_gates [OF assms(1) refl] finding_resolutions_same [OF ev'(2)] mid req out [symmetric] approval_gates
      by (rule refl)
    then show ?thesis using canApprove_mission [OF t ctx', of lc a] sn ev'(1) lat' by (simp add: prod_eq_iff)
  qed
qed

text \<open>
  An agent cannot talk a mission into approval or out of it: whatever evidence an agent claims
  about its own work, for criteria or findings, the verdict of the approval predicate for every
  session and context is what it was before.
\<close>

theorem agent_claims_do_not_count:
  assumes ok: "canApprove lc ws context st = Inr (a, rs)"
    and rec: "recordAgentEvidence newId now missionId entries st = (r, st')"
  shows "\<exists>rs'. canApprove lc ws context st' = Inr (a, rs')"
proof -
  have entries: "\<exists>rs'. canApprove lc ws context st1 = Inr (a, rs')"
    if "record_entries newId now missionId ''agent_claim'' n es st0 = Inr st1" "canApprove lc ws context st0 = Inr (a, rs0)" for n es st0 st1 rs0
    using that
  proof (induction es arbitrary: n st0 rs0)
    case (Cons e es)
    then obtain st2 where st2: "record_entry newId now missionId ''agent_claim'' n e st0 = Inr st2"
      "record_entries newId now missionId ''agent_claim'' (Suc n) es st2 = Inr st1" by auto
    obtain rs2 where "canApprove lc ws context st2 = Inr (a, rs2)"
      using claims_only_canApprove [OF claims_only_entry [OF st2(1)] Cons.prems(2)] by blast
    then show ?case by (rule Cons.IH [OF st2(2)])
  qed auto
  show ?thesis
  proof (cases "record_entries newId now missionId ''agent_claim'' 0 entries st")
    case (Inl e)
    then show ?thesis using rec ok by (simp add: recordAgentEvidence_def recordEvidenceWithSource_def)
  next
    case (Inr st1)
    then have "st' = touchMission now missionId st1" using rec by (simp add: recordAgentEvidence_def recordEvidenceWithSource_def)
    then show ?thesis using entries [OF Inr ok] claims_only_canApprove [OF claims_only_touch] by blast
  qed
qed

theorem agent_claims_do_not_count_witness:
  "fst (recordAgentEvidence demo_ids 15 ''m1'' [demo_entry ''passed''] demo_ledger) = None
   \<and> (\<exists>rs. canApprove code_unit_compare ''ws1'' None (snd (recordAgentEvidence demo_ids 15 ''m1'' [demo_entry ''passed''] demo_ledger)) = Inr (False, rs))"
proof -
  have "case canApprove code_unit_compare ''ws1'' None demo_ledger of Inl _ \<Rightarrow> False | Inr x \<Rightarrow> \<not> fst x" by code_simp
  then obtain rs where ok: "canApprove code_unit_compare ''ws1'' None demo_ledger = Inr (False, rs)"
    by (auto split: sum.splits)
  have "fst (recordAgentEvidence demo_ids 15 ''m1'' [demo_entry ''passed''] demo_ledger) = None" by code_simp
  then show ?thesis using agent_claims_do_not_count [OF ok prod.collapse [symmetric]] by blast
qed

section \<open>Outcome observations\<close>

lemma trim_nonblank: "c \<in> set s \<Longrightarrow> \<not> js_space c \<Longrightarrow> trim s \<noteq> []"
proof -
  assume c: "c \<in> set s" "\<not> js_space c"
  have "c \<in> set (dropWhile js_space s)" using c by (induction s) auto
  then show ?thesis using c(2) by (auto simp: trim_def trim_start_def trim_end_def dropWhile_eq_Nil_conv)
qed

lemma first_latest_unique_max:
  assumes "x \<in> set xs" "\<And>y. y \<in> set xs \<Longrightarrow> y = x \<or> oo_observedAt y < oo_observedAt x"
  shows "first_latest xs x"
proof -
  obtain us vs where xs: "xs = us @ x # vs" "x \<notin> set us" using split_list_first [OF assms(1)] by blast
  have "oo_observedAt y < oo_observedAt x" if "y \<in> set us" for y using assms(2) [of y] xs that by auto
  moreover have "oo_observedAt y \<le> oo_observedAt x" if "y \<in> set vs" for y using assms(2) [of y] xs that by auto
  ultimately show ?thesis unfolding first_latest_def using xs(1) by blast
qed

lemma observation_checksD:
  assumes "observation_checks m i = Inr b"
  shows "nonblank (mr_outcomeExpectedBehavior m) = Some b \<and> trim (oi_observerPrincipalId i) \<noteq> []"
  using assms by (auto simp: observation_checks_def split: if_splits option.splits)

abbreviation observed_context :: "mission_row \<Rightarrow> observation_input \<Rightarrow> observation_context" where
  "observed_context m i \<equiv> \<lparr>ox_submissionId = oi_submissionId i, ox_reviewEpoch = oi_reviewEpoch i, ox_snapshotKind = oi_snapshotKind i,
     ox_snapshotRef = oi_snapshotRef i, ox_expectedBehavior = coalesce (mr_outcomeExpectedBehavior m) []\<rparr>"

text \<open>
  The last observation recorded decides: once an authenticated observer has recorded an
  observation for a submission, snapshot and review epoch, the outcome gate of the approval
  predicate is satisfied exactly when that observation confirmed the behaviour, whatever was
  observed before and even when the clock did not advance.
\<close>

theorem recorded_observation_decides:
  assumes m: "find (\<lambda>m. mr_id m = missionId) (ld_missions st) = Some m"
    and rec: "recordOutcomeObservation sha256 newId clock missionId i st = Inr st'"
    and trimmed: "mr_outcomeExpectedBehavior m = Some b" "trim b = b"
    and sha: "\<And>s. is_sha256_hex (sha256 s)"
    and ctx: "ac_submissionId ctx = Some (oi_submissionId i)" "oi_submissionId i \<noteq> []" "ac_reviewEpoch ctx = Some (oi_reviewEpoch i)"
  shows "fst (evaluateOutcomeObservations (current_observations m ctx (Some (oi_snapshotKind i, oi_snapshotRef i)) st') (observed_context m i))
    \<longleftrightarrow> oi_status i = ''confirmed''"
proof -
  have id: "mr_id m = missionId" using find_Some_mem [OF m] by simp
  obtain eb where chk: "observation_checks m i = Inr eb" using rec m by (auto simp: recordOutcomeObservation_def)
  have eb: "eb = b" and pr: "trim (oi_observerPrincipalId i) \<noteq> []"
    using observation_checksD [OF chk] trimmed by (auto simp: nonblank_def split: if_splits)
  let ?at = "\<lambda>r. observation_row_at missionId i b r"
  let ?prev = "coalesce (map_option ow_observedAt (first_row (order_desc ow_observedAt (filter ?at (ld_observations st))))) 0"
  let ?row = "\<lparr>ow_id = newId, ow_missionId = missionId, ow_submissionId = oi_submissionId i, ow_reviewEpoch = Some (oi_reviewEpoch i),
      ow_snapshotKind = oi_snapshotKind i, ow_snapshotRef = oi_snapshotRef i, ow_observerIdentity = ''principal:'' @ oi_observerPrincipalId i,
      ow_observerPrincipalId = Some (oi_observerPrincipalId i), ow_observationSource = ''firsthand_authenticated_external_reviewer'',
      ow_externalEvidenceSha256 = Some (sha256 (oi_externalEvidence i)), ow_expectedBehavior = b,
      ow_actualBehavior = oi_actualBehavior i, ow_status = oi_status i, ow_observedAt = max clock (?prev + 1)\<rparr>"
  have obs: "ld_observations st' = ld_observations st @ [?row]"
    using rec m chk by (auto simp: recordOutcomeObservation_def Let_def eb)
  have older: "ow_observedAt r < ow_observedAt ?row" if r: "r \<in> set (ld_observations st)" "?at r" for r
  proof -
    have "filter ?at (ld_observations st) \<noteq> []" using r by (auto simp: filter_empty_conv)
    then obtain p where "first_row (order_desc ow_observedAt (filter ?at (ld_observations st))) = Some p"
      by (metis first_row_None_iff not_None_eq order_Nil_iff(2))
    then show ?thesis using first_row_desc_max [of ow_observedAt "filter ?at (ld_observations st)" p] r by auto
  qed
  let ?obs = "rowToOutcomeObservation ?row"
  let ?os = "current_observations m ctx (Some (oi_snapshotKind i, oi_snapshotRef i)) st'"
  have match: "observation_matches (observed_context m i) ?obs"
    using sha pr trimmed by (simp add: observation_matches_def rowToOutcomeObservation_def)
  have mem: "?obs \<in> set ?os" using ctx id trimmed by (simp add: current_observations_def obs)
  have "y = ?obs \<or> oo_observedAt y < oo_observedAt ?obs" if "y \<in> set ?os" for y
    using that ctx id trimmed older
    by (auto simp: current_observations_def obs observation_row_at_def rowToOutcomeObservation_def)
  then have fl: "first_latest (filter (observation_matches (observed_context m i)) ?os) ?obs"
    using mem match by (intro first_latest_unique_max) auto
  have idy: "trim (oo_observerIdentity ?obs) \<noteq> []"
    by (rule trim_nonblank [of "CHR ''p''"]) (simp_all add: rowToOutcomeObservation_def js_space_def)
  have st: "oo_status ?obs = oi_status i" by (simp add: rowToOutcomeObservation_def)
  show ?thesis unfolding observations_satisfied_iff
  proof
    assume "\<exists>o'. first_latest (filter (observation_matches (observed_context m i)) ?os) o' \<and> oo_status o' = ''confirmed''
      \<and> trim (oo_observerIdentity o') \<noteq> []"
    then show "oi_status i = ''confirmed''" using first_latest_unique [OF fl] st by metis
  next
    assume "oi_status i = ''confirmed''"
    then have "oo_status ?obs = ''confirmed''" using st by (rule trans [rotated])
    with fl idy show "\<exists>o'. first_latest (filter (observation_matches (observed_context m i)) ?os) o' \<and> oo_status o' = ''confirmed''
      \<and> trim (oo_observerIdentity o') \<noteq> []" by (intro exI [of _ ?obs] conjI)
  qed
qed

definition demo_outcome_mission :: mission_row where
  "demo_outcome_mission = demo_mission\<lparr>mr_outcomeEvidence := Some OutcomeVerified, mr_outcomeExpectedBehavior := Some ''login works''\<rparr>"

definition demo_outcome_ledger :: ledger where
  "demo_outcome_ledger = demo_ledger\<lparr>ld_missions := [demo_outcome_mission]\<rparr>"

definition demo_observation :: "string \<Rightarrow> observation_input" where
  "demo_observation status = \<lparr>oi_submissionId = ''s1'', oi_reviewEpoch = 1, oi_snapshotKind = ''git'', oi_snapshotRef = ''abc'',
     oi_observerPrincipalId = ''alice'', oi_evidenceBasis = ''firsthand_external_observation'', oi_externalEvidence = ''screenshot'',
     oi_actualBehavior = ''seen'', oi_status = status\<rparr>"

definition demo_sha :: "string \<Rightarrow> string" where
  "demo_sha s = replicate 64 CHR ''a''"

definition demo_observed :: ledger where
  "demo_observed = (case recordOutcomeObservation demo_sha ''o1'' 50 ''m1'' (demo_observation ''rejected'') demo_outcome_ledger of
     Inl _ \<Rightarrow> demo_outcome_ledger | Inr st \<Rightarrow> st)"

theorem recorded_observation_decides_witness:
  "\<exists>st'. recordOutcomeObservation demo_sha ''o2'' 20 ''m1'' (demo_observation ''confirmed'') demo_observed = Inr st'
     \<and> fst (evaluateOutcomeObservations (current_observations (demo_outcome_mission\<lparr>mr_updatedAt := 50\<rparr>) demo_approval_context
         (Some (''git'', ''abc'')) st') (observed_context (demo_outcome_mission\<lparr>mr_updatedAt := 50\<rparr>) (demo_observation ''confirmed'')))"
proof -
  let ?m = "demo_outcome_mission\<lparr>mr_updatedAt := 50\<rparr>"
  have "case recordOutcomeObservation demo_sha ''o2'' 20 ''m1'' (demo_observation ''confirmed'') demo_observed of
      Inl _ \<Rightarrow> False | Inr _ \<Rightarrow> True" by code_simp
  then obtain st' where r: "recordOutcomeObservation demo_sha ''o2'' 20 ''m1'' (demo_observation ''confirmed'') demo_observed = Inr st'"
    by (auto split: sum.splits)
  have m: "find (\<lambda>m. mr_id m = ''m1'') (ld_missions demo_observed) = Some ?m" by code_simp
  have b: "mr_outcomeExpectedBehavior ?m = Some ''login works''" by (simp add: demo_outcome_mission_def)
  have t: "trim ''login works'' = ''login works''" by code_simp
  have sha: "is_sha256_hex (demo_sha s)" for s by (simp add: demo_sha_def is_sha256_hex_def list_all_iff)
  show ?thesis
    using recorded_observation_decides [OF m r b t sha, of demo_approval_context] r
    by (simp add: demo_approval_context_def demo_observation_def)
qed

text \<open>
  The hypothesis that the declared behaviour is trimmed is needed: the observation is stored under
  the trimmed text while the approval predicate looks it up under the text as declared, so with
  surrounding white space in the contract no observation is ever found. The contract schema of the
  bridge trims the text; \<open>createMission\<close> does not.
\<close>

lemma untrimmed_behavior_never_observed:
  assumes m: "find (\<lambda>m. mr_id m = missionId) (ld_missions st) = Some m"
    and rec: "recordOutcomeObservation sha256 newId clock missionId i st = Inr st'"
    and b: "mr_outcomeExpectedBehavior m = Some b" "trim b \<noteq> b"
  shows "current_observations m ctx sn st' = current_observations m ctx sn st"
proof -
  obtain eb where chk: "observation_checks m i = Inr eb" using rec m by (auto simp: recordOutcomeObservation_def)
  then have "eb \<noteq> b" using observation_checksD [OF chk] b by (auto simp: nonblank_def split: if_splits)
  then obtain row where "ld_observations st' = ld_observations st @ [row]" "ow_expectedBehavior row \<noteq> b"
    using rec m chk by (auto simp: recordOutcomeObservation_def Let_def)
  then show ?thesis using b by (cases sn) (simp_all add: current_observations_def)
qed

end
