(* ===== verification/Patch_Format.thy ===== *)
theory Patch_Format
  imports Kontrol_Prelude
begin

text \<open>
  The patch format of src/src/apply-patch.ts: the parser (\<open>parsePatch\<close>, \<open>patchLines\<close>,
  \<open>isTopLevelHeader\<close>), a printer that serves as its specification, the round trip between the
  two, and the well-formedness of every patch the parser accepts.

  \<^item> A text is a list of code units; LF and CR are \<open>lf\<close> and \<open>cr\<close>. The parser's index into the
    line array is the list of the lines that remain.
  \<^item> A thrown patch error is a constructor that carries what its message prints.
\<close>

section \<open>Text\<close>

abbreviation lf :: char where
  "lf \<equiv> CHR 0x0A"

abbreviation cr :: char where
  "cr \<equiv> CHR 0x0D"

fun split_nl :: "string \<Rightarrow> string list" where
  "split_nl [] = [[]]"
| "split_nl (c # s) =
     (if c = lf then [] # split_nl s
      else case split_nl s of l # ls \<Rightarrow> (c # l) # ls | [] \<Rightarrow> [[c]])"

fun crlf_to_lf :: "string \<Rightarrow> string" where
  "crlf_to_lf [] = []"
| "crlf_to_lf [c] = [c]"
| "crlf_to_lf (c # d # s) = (if c = cr \<and> d = lf then lf # crlf_to_lf s else c # crlf_to_lf (d # s))"

definition lf_to_crlf :: "string \<Rightarrow> string" where
  "lf_to_crlf s = concat (map (\<lambda>c. if c = lf then [cr, lf] else [c]) s)"

fun has_crlf :: "string \<Rightarrow> bool" where
  "has_crlf (c # d # s) \<longleftrightarrow> c = cr \<and> d = lf \<or> has_crlf (d # s)"
| "has_crlf _ \<longleftrightarrow> False"

section \<open>The patch format\<close>

datatype line_kind = Context | Added | Removed

record hunk_line =
  hl_kind :: line_kind
  hl_text :: string

record update_hunk =
  uh_lines :: "hunk_line list"
  uh_changeContext :: "string option"
  uh_endOfFile :: bool

datatype patch_action =
    AddFile string string
  | DeleteFile string
  | UpdateFile string "string option" "update_hunk list"

datatype patch_error =
    MissingBegin
  | MissingEnd
  | EmptyEnvironmentId
  | AddLineNeedsPlus string
  | AddWithoutContent string
  | EmptyHunk string
  | EndOfFileWithoutHunk string
  | BadHunkLine string
  | NothingToUpdate string
  | UnknownHeader string
  | NoActions
  | ContextNotFound string "string list"
  | FileMissing string
  | PathRefused string

definition isTopLevelHeader :: "string \<Rightarrow> bool" where
  "isTopLevelHeader line \<longleftrightarrow>
     starts_with (trim line) ''*** Add File: '' \<or> starts_with (trim line) ''*** Delete File: ''
     \<or> starts_with (trim line) ''*** Update File: '' \<or> starts_with (trim line) ''*** Environment ID: ''"

definition patchLines :: "string \<Rightarrow> string list" where
  "patchLines patch =
     (let lines = split_nl (trim (crlf_to_lf patch));
          first = trim (hd lines); final = trim (last lines)
      in if (first = ''<<EOF'' \<or> first = [CHR ''<'', CHR ''<'', CHR 0x27] @ ''EOF'' @ [CHR 0x27]
             \<or> first = [CHR ''<'', CHR ''<'', CHR 0x22] @ ''EOF'' @ [CHR 0x22])
            \<and> ends_with final ''EOF'' \<and> length lines \<ge> 4
         then butlast (tl lines) else lines)"

fun parse_added :: "string list \<Rightarrow> string list \<Rightarrow> patch_error + string list \<times> string list" where
  "parse_added [] content = Inr (content, [])"
| "parse_added (line # lines) content =
     (if isTopLevelHeader line then Inr (content, line # lines)
      else if \<not> starts_with line ''+'' then Inl (AddLineNeedsPlus line)
      else parse_added lines (content @ [drop 1 line]))"

definition finishCurrent :: "string \<Rightarrow> update_hunk option \<Rightarrow> update_hunk list \<Rightarrow> patch_error + update_hunk list" where
  "finishCurrent path current hunks =
     (case current of
        None \<Rightarrow> Inr hunks
      | Some h \<Rightarrow> if uh_lines h = [] then Inl (EmptyHunk path) else Inr (hunks @ [h]))"

definition new_hunk :: "string option \<Rightarrow> update_hunk" where
  "new_hunk ctx = \<lparr>uh_lines = [], uh_changeContext = ctx, uh_endOfFile = False\<rparr>"

definition push_line :: "line_kind \<Rightarrow> string \<Rightarrow> update_hunk \<Rightarrow> update_hunk" where
  "push_line k line h = h\<lparr>uh_lines := uh_lines h @ [\<lparr>hl_kind = k, hl_text = drop 1 line\<rparr>]\<rparr>"

text \<open>The loop over the lines of one update: the hunks, and the lines from the next header on.\<close>

fun parse_hunks :: "string \<Rightarrow> string list \<Rightarrow> update_hunk option \<Rightarrow> update_hunk list \<Rightarrow> patch_error + update_hunk list \<times> string list" where
  "parse_hunks path [] current hunks =
     (case finishCurrent path current hunks of Inl e \<Rightarrow> Inl e | Inr hs \<Rightarrow> Inr (hs, []))"
| "parse_hunks path (line # lines) current hunks =
     (let trimmed = trim line
      in if current = None \<and> trimmed = [] then parse_hunks path lines current hunks
         else if trimmed = ''*** End of File'' then
           (case current of
              None \<Rightarrow> Inl (EndOfFileWithoutHunk path)
            | Some h \<Rightarrow> parse_hunks path lines (Some (h\<lparr>uh_endOfFile := True\<rparr>)) hunks)
         else if (current = None \<or> \<not> starts_with line '' '') \<and> isTopLevelHeader line then
           (case finishCurrent path current hunks of Inl e \<Rightarrow> Inl e | Inr hs \<Rightarrow> Inr (hs, line # lines))
         else if starts_with trimmed ''@@'' \<and> \<not> starts_with line '' '' then
           (case finishCurrent path current hunks of
              Inl e \<Rightarrow> Inl e
            | Inr hs \<Rightarrow>
                let changeContext = trim (drop 2 trimmed)
                in parse_hunks path lines (Some (new_hunk (if changeContext = [] then None else Some changeContext))) hs)
         else
           let h = coalesce current (new_hunk None)
           in if starts_with line '' '' then parse_hunks path lines (Some (push_line Context line h)) hunks
              else if starts_with line ''+'' then parse_hunks path lines (Some (push_line Added line h)) hunks
              else if starts_with line ''-'' then parse_hunks path lines (Some (push_line Removed line h)) hunks
              else if line = [CHR 0x5C] @ '' No newline at end of file'' then parse_hunks path lines (Some h) hunks
              else Inl (BadHunkLine line))"

lemma parse_added_length: "parse_added lines content = Inr (c, rest) \<Longrightarrow> length rest \<le> length lines"
  by (induction lines content rule: parse_added.induct) (auto split: if_splits)

lemma parse_hunks_length: "parse_hunks path lines current hunks = Inr (hs, rest) \<Longrightarrow> length rest \<le> length lines"
  by (induction path lines current hunks rule: parse_hunks.induct)
    (fastforce simp: Let_def split: if_splits option.splits sum.splits)+

definition parse_move :: "string list \<Rightarrow> string option \<times> string list" where
  "parse_move lines =
     (case lines of
        line # rest \<Rightarrow> if starts_with (trim line) ''*** Move to: '' then (Some (drop (length ''*** Move to: '') (trim line)), rest) else (None, lines)
      | [] \<Rightarrow> (None, []))"

lemma parse_move_length: "parse_move lines = (m, rest) \<Longrightarrow> length rest \<le> length lines"
  by (auto simp: parse_move_def split: list.splits if_splits)

function (sequential) parse_actions :: "string list \<Rightarrow> patch_action list \<Rightarrow> patch_error + patch_action list" where
  "parse_actions [] actions = Inr actions"
| "parse_actions (line # lines) actions =
     (let header = trim line
      in if header = [] then parse_actions lines actions
         else if starts_with header ''*** Environment ID: '' then
           (if trim (drop (length ''*** Environment ID: '') header) = [] then Inl EmptyEnvironmentId else parse_actions lines actions)
         else if starts_with header ''*** Add File: '' then
           (let path = drop (length ''*** Add File: '') header
            in case parse_added lines [] of
                 Inl e \<Rightarrow> Inl e
               | Inr (content, rest) \<Rightarrow>
                   if content = [] then Inl (AddWithoutContent path)
                   else parse_actions rest (actions @ [AddFile path (join newline content @ newline)]))
         else if starts_with header ''*** Delete File: '' then
           parse_actions lines (actions @ [DeleteFile (drop (length ''*** Delete File: '') header)])
         else if starts_with header ''*** Update File: '' then
           (let path = drop (length ''*** Update File: '') header
            in case parse_move lines of
                 (moveTo, lines1) \<Rightarrow>
                   (case parse_hunks path lines1 None [] of
                      Inl e \<Rightarrow> Inl e
                    | Inr (hunks, rest) \<Rightarrow>
                        if hunks = [] \<and> \<not> truthy moveTo then Inl (NothingToUpdate path)
                        else parse_actions rest (actions @ [UpdateFile path moveTo hunks])))
         else Inl (UnknownHeader header))"
  by pat_completeness auto

termination
  by (relation "measure (\<lambda>(lines, _). length lines)")
    (auto dest!: parse_added_length parse_hunks_length parse_move_length [OF sym])

definition parsePatch :: "string \<Rightarrow> patch_error + patch_action list" where
  "parsePatch patch =
     (case patchLines patch of
        [] \<Rightarrow> Inl MissingBegin
      | first # lines \<Rightarrow>
          if trim first \<noteq> ''*** Begin Patch'' then Inl MissingBegin
          else if lines = [] \<or> trim (last lines) \<noteq> ''*** End Patch'' then Inl MissingEnd
          else (case parse_actions (butlast lines) [] of
                  Inl e \<Rightarrow> Inl e
                | Inr actions \<Rightarrow> if actions = [] then Inl NoActions else Inr actions))"

section \<open>Printing a patch\<close>

text \<open>
  The canonical text of a list of actions: every hunk starts with its own \<open>@@\<close> line, the
  end-of-file marker follows the lines of its hunk.
\<close>

fun render_line :: "hunk_line \<Rightarrow> string" where
  "render_line l = (case hl_kind l of Context \<Rightarrow> '' '' | Added \<Rightarrow> ''+'' | Removed \<Rightarrow> ''-'') @ hl_text l"

definition render_hunk :: "update_hunk \<Rightarrow> string list" where
  "render_hunk h =
     (case uh_changeContext h of None \<Rightarrow> ''@@'' | Some ctx \<Rightarrow> ''@@ '' @ ctx)
     # map render_line (uh_lines h) @ (if uh_endOfFile h then [''*** End of File''] else [])"

definition content_lines :: "string \<Rightarrow> string list" where
  "content_lines content = butlast (split_nl content)"

fun render_action :: "patch_action \<Rightarrow> string list" where
  "render_action (AddFile path content) = (''*** Add File: '' @ path) # map (\<lambda>l. ''+'' @ l) (content_lines content)"
| "render_action (DeleteFile path) = [''*** Delete File: '' @ path]"
| "render_action (UpdateFile path moveTo hunks) =
     (''*** Update File: '' @ path)
     # (case moveTo of None \<Rightarrow> [] | Some m \<Rightarrow> [''*** Move to: '' @ m]) @ concat (map render_hunk hunks)"

definition render_patch :: "patch_action list \<Rightarrow> string" where
  "render_patch actions =
     join newline ([''*** Begin Patch''] @ concat (map render_action actions) @ [''*** End Patch''])"

text \<open>The actions a patch text can express.\<close>

definition clean :: "string \<Rightarrow> bool" where
  "clean s \<longleftrightarrow> lf \<notin> set s \<and> (s = [] \<or> last s \<noteq> cr)"

definition path_ok :: "string \<Rightarrow> bool" where
  "path_ok p \<longleftrightarrow> p \<noteq> [] \<and> lf \<notin> set p \<and> \<not> js_space (last p)"

definition line_ok :: "hunk_line \<Rightarrow> bool" where
  "line_ok l \<longleftrightarrow> clean (hl_text l) \<and> (hl_kind l = Context \<longrightarrow> trim (hl_text l) \<noteq> ''*** End of File'')"

definition hunk_ok :: "update_hunk \<Rightarrow> bool" where
  "hunk_ok h \<longleftrightarrow> uh_lines h \<noteq> [] \<and> list_all line_ok (uh_lines h)
     \<and> (case uh_changeContext h of None \<Rightarrow> True | Some ctx \<Rightarrow> path_ok ctx \<and> trim ctx = ctx)"

fun action_ok :: "patch_action \<Rightarrow> bool" where
  "action_ok (AddFile path content) \<longleftrightarrow>
     path_ok path \<and> content_lines content \<noteq> [] \<and> ends_with content [lf] \<and> list_all clean (content_lines content)"
| "action_ok (DeleteFile path) \<longleftrightarrow> path_ok path"
| "action_ok (UpdateFile path moveTo hunks) \<longleftrightarrow>
     path_ok path \<and> (case moveTo of None \<Rightarrow> hunks \<noteq> [] | Some m \<Rightarrow> path_ok m) \<and> list_all hunk_ok hunks"

section \<open>Lines of a text\<close>

lemma split_nl_ne [simp]: "split_nl s \<noteq> []"
  by (cases s) (auto split: list.splits)

lemma split_nl_Cons [simp]:
  "split_nl (c # s) = (if c = lf then [] # split_nl s else (c # hd (split_nl s)) # tl (split_nl s))"
  using split_nl_ne [of s] by (auto split: list.splits simp del: split_nl_ne)

declare split_nl.simps(2) [simp del]

lemma split_nl_plain: "lf \<notin> set s \<Longrightarrow> split_nl s = [s]"
  by (induction s) auto

lemma split_nl_append: "lf \<notin> set s \<Longrightarrow> split_nl (s @ lf # t) = s # split_nl t"
  by (induction s) auto

lemma newline_lf: "newline = [lf]"
  by (simp add: newline_def)

lemma split_nl_join:
  assumes "ls \<noteq> []" "\<forall>l \<in> set ls. lf \<notin> set l"
  shows "split_nl (join newline ls) = ls"
  using assms by (induction newline ls rule: join.induct) (auto simp: newline_lf split_nl_plain split_nl_append)

lemma join_split_nl: "join newline (split_nl s) = s"
proof (induction s)
  case Nil
  then show ?case by simp
next
  case (Cons c s)
  obtain l ls where l: "split_nl s = l # ls" by (cases "split_nl s") auto
  with Cons show ?case by (cases ls) (auto simp: newline_lf)
qed

lemma split_nl_no_lf: "l \<in> set (split_nl s) \<Longrightarrow> lf \<notin> set l"
proof (induction s arbitrary: l)
  case Nil
  then show ?case by simp
next
  case (Cons c s)
  obtain k ls where k: "split_nl s = k # ls" by (cases "split_nl s") auto
  with Cons show ?case by (auto split: if_splits)
qed

lemma set_split_nl: "l \<in> set (split_nl s) \<Longrightarrow> set l \<subseteq> set s"
proof (induction s arbitrary: l)
  case Nil
  then show ?case by simp
next
  case (Cons c s)
  obtain k ls where k: "split_nl s = k # ls" by (cases "split_nl s") auto
  with Cons.prems Cons.IH show ?case by (fastforce split: if_splits)
qed

lemma split_nl_snoc: "split_nl (s @ [lf]) = split_nl s @ [[]]"
  by (induction s) auto

lemma content_lines_join:
  assumes "\<forall>l \<in> set ls. lf \<notin> set l" "ls \<noteq> []"
  shows "content_lines (join newline ls @ newline) = ls"
proof -
  have "join newline ls @ newline = join newline (ls @ [[]])"
    using assms(2) by (induction newline ls rule: join.induct) (auto simp: newline_lf)
  then show ?thesis using assms split_nl_join [of "ls @ [[]]"] by (auto simp: content_lines_def)
qed

lemma join_content_lines:
  assumes "ends_with content [lf]" "content_lines content \<noteq> []"
  shows "join newline (content_lines content) @ newline = content"
proof -
  obtain s where s: "content = s @ [lf]"
    using assms(1) by (cases content rule: rev_cases) (auto simp: ends_with_def starts_with_def)
  have join_snoc: "join newline (ls @ [[]]) = join newline ls @ newline" if "ls \<noteq> []" for ls
    using that by (induction newline ls rule: join.induct) (auto simp: newline_lf)
  have "split_nl content = content_lines content @ [[]]"
    unfolding content_lines_def s split_nl_snoc by simp
  then show ?thesis using join_split_nl [of content] join_snoc [OF assms(2)] by metis
qed

lemma crlf_to_lf_id:
  assumes "\<forall>l \<in> set ls. clean l"
  shows "crlf_to_lf (join newline ls) = join newline ls"
proof -
  have skip: "crlf_to_lf (l @ lf # s) = l @ lf # crlf_to_lf s" if "clean l" for l s
    using that
  proof (induction l rule: induct_list012)
    case 1
    then show ?case by (cases s) auto
  next
    case (2 x)
    then show ?case by (cases s) (auto simp: clean_def)
  next
    case (3 x y zs)
    then show ?case by (auto simp: clean_def)
  qed
  have "crlf_to_lf l = l" if "lf \<notin> set l" for l
    using that by (induction l rule: induct_list012) auto
  with assms skip show ?thesis
    by (induction newline ls rule: join.induct) (auto simp: newline_lf clean_def)
qed

section \<open>Trimmed lines\<close>

lemma trim_end_Cons: "\<not> js_space c \<Longrightarrow> trim_end (c # s) = c # trim_end s"
  by (simp add: trim_end_def dropWhile_append)

lemma trim_Cons: "\<not> js_space c \<Longrightarrow> trim (c # s) = c # trim_end s"
  by (simp add: trim_def trim_start_def trim_end_Cons)

lemma trim_end_id: "s = [] \<or> \<not> js_space (last s) \<Longrightarrow> trim_end s = s"
  by (cases s rule: rev_cases) (auto simp: trim_end_def)

lemma trim_id: "\<not> js_space c \<Longrightarrow> \<not> js_space (last (c # s)) \<Longrightarrow> trim (c # s) = c # s"
  by (auto simp: trim_Cons intro: trim_end_id split: if_splits)

lemma trim_space: "js_space c \<Longrightarrow> trim (c # s) = trim s"
  by (simp add: trim_def trim_start_def)

lemma js_space_simps [simp]:
  "js_space (CHR '' '')" "\<not> js_space (CHR ''*'')" "\<not> js_space (CHR ''+'')" "\<not> js_space (CHR ''-'')"
  "\<not> js_space (CHR ''@'')" "\<not> js_space (CHR ''h'')" "\<not> js_space (CHR ''e'')" "js_space lf" "js_space cr"
  by (simp_all add: js_space_def)

lemma starts_with_Cons: "starts_with (c # s) (d # p) \<longleftrightarrow> c = d \<and> starts_with s p"
  by (simp add: starts_with_def)

lemma starts_with_Nil [simp]: "starts_with s []" "starts_with [] (d # p) \<longleftrightarrow> False"
  by (simp_all add: starts_with_def)

lemmas header_simps = isTopLevelHeader_def starts_with_Cons trim_Cons trim_space trim_end_Cons

lemma trim_header:
  assumes "path_ok p" "h \<noteq> []" "\<not> js_space (hd h)"
  shows "trim (h @ p) = h @ p"
proof -
  obtain c h' where h: "h = c # h'" using assms(2) by (cases h) auto
  show ?thesis using assms trim_id [of c "h' @ p"] unfolding h path_ok_def by simp
qed

lemma trim_headers:
  assumes "path_ok p"
  shows "trim (''*** Add File: '' @ p) = ''*** Add File: '' @ p"
    and "trim (''*** Delete File: '' @ p) = ''*** Delete File: '' @ p"
    and "trim (''*** Update File: '' @ p) = ''*** Update File: '' @ p"
    and "trim (''*** Move to: '' @ p) = ''*** Move to: '' @ p"
    and "trim (''@@ '' @ p) = ''@@ '' @ p"
  using assms by (intro trim_header; simp)+

definition next_header :: "string list \<Rightarrow> bool" where
  "next_header rest \<longleftrightarrow> (case rest of [] \<Rightarrow> True | line # _ \<Rightarrow> isTopLevelHeader line \<and> \<not> starts_with line '' '')"

lemma parse_added_rendered:
  assumes "next_header rest"
  shows "parse_added (map (\<lambda>l. ''+'' @ l) ls @ rest) content = Inr (content @ ls, rest)"
proof (induction ls arbitrary: content)
  case Nil
  then show ?case using assms by (cases rest) (auto simp: next_header_def)
next
  case (Cons l ls)
  then show ?case by (simp add: header_simps)
qed

lemma parse_hunks_rendered_lines:
  assumes "list_all line_ok ls"
  shows "parse_hunks path (map render_line ls @ rest) (Some h) hunks
       = parse_hunks path rest (Some (h\<lparr>uh_lines := uh_lines h @ ls\<rparr>)) hunks"
  using assms
proof (induction ls arbitrary: h)
  case Nil
  then show ?case by simp
next
  case (Cons l ls)
  have "parse_hunks path (map render_line (l # ls) @ rest) (Some h) hunks
      = parse_hunks path (map render_line ls @ rest) (Some (push_line (hl_kind l) (render_line l) h)) hunks"
    using Cons.prems by (cases "hl_kind l") (auto simp: header_simps line_ok_def)
  also have "push_line (hl_kind l) (render_line l) h = h\<lparr>uh_lines := uh_lines h @ [l]\<rparr>"
    by (cases "hl_kind l") (auto simp: push_line_def)
  finally show ?case using Cons by simp
qed

definition pending :: "update_hunk option \<Rightarrow> update_hunk list" where
  "pending current = (case current of None \<Rightarrow> [] | Some h \<Rightarrow> [h])"

lemma finishCurrent_pending:
  assumes "list_all hunk_ok (pending current)"
  shows "finishCurrent path current hunks = Inr (hunks @ pending current)"
  using assms by (auto simp: pending_def finishCurrent_def hunk_ok_def split: option.splits)

lemma parse_hunks_rendered_header:
  assumes "hunk_ok h" "list_all hunk_ok (pending current)"
  shows "parse_hunks path ((case uh_changeContext h of None \<Rightarrow> ''@@'' | Some ctx \<Rightarrow> ''@@ '' @ ctx) # rest) current hunks
       = parse_hunks path rest (Some (new_hunk (uh_changeContext h))) (hunks @ pending current)"
proof (cases "uh_changeContext h")
  case None
  then show ?thesis
    by (simp add: finishCurrent_pending [OF assms(2)] header_simps trim_end_def trim_def trim_start_def)
next
  case (Some ctx)
  then have ctx: "path_ok ctx" "trim ctx = ctx" "ctx \<noteq> []" using assms(1) by (auto simp: hunk_ok_def path_ok_def)
  have "trim_end ctx = ctx" using ctx(1) by (auto simp: path_ok_def intro: trim_end_id)
  with Some ctx show ?thesis using trim_headers(5) [OF ctx(1)]
    by (simp add: finishCurrent_pending [OF assms(2)] isTopLevelHeader_def starts_with_Cons trim_space)
qed

lemma parse_hunks_rendered_hunk:
  assumes "hunk_ok h" "list_all hunk_ok (pending current)"
  shows "parse_hunks path (render_hunk h @ rest) current hunks = parse_hunks path rest (Some h) (hunks @ pending current)"
proof -
  have lines: "list_all line_ok (uh_lines h)" using assms(1) by (simp add: hunk_ok_def)
  have eof: "trim ''*** End of File'' = ''*** End of File''" by (simp add: header_simps trim_end_def)
  have h: "(new_hunk (uh_changeContext h))\<lparr>uh_lines := uh_lines h, uh_endOfFile := uh_endOfFile h\<rparr> = h"
    by (cases h) (simp add: new_hunk_def)
  show ?thesis
    unfolding render_hunk_def append_Cons parse_hunks_rendered_header [OF assms] append_assoc
      parse_hunks_rendered_lines [OF lines]
    using h eof by (cases h; cases "uh_endOfFile h") (simp_all add: new_hunk_def)
qed

lemma parse_hunks_rendered:
  assumes "list_all hunk_ok hs" "list_all hunk_ok (pending current)" "next_header rest"
  shows "parse_hunks path (concat (map render_hunk hs) @ rest) current hunks = Inr (hunks @ pending current @ hs, rest)"
  using assms(1,2)
proof (induction hs arbitrary: current hunks)
  case Nil
  show ?case
  proof (cases rest)
    case Nil
    then show ?thesis by (simp add: finishCurrent_pending [OF Nil.prems(2)])
  next
    case (Cons line rest')
    then have hdr: "isTopLevelHeader line" "\<not> starts_with line '' ''" using assms(3) by (auto simp: next_header_def)
    then have "trim line \<noteq> []" "trim line \<noteq> ''*** End of File''" by (auto simp: isTopLevelHeader_def starts_with_Cons)
    with hdr Cons show ?thesis by (simp add: finishCurrent_pending [OF Nil.prems(2)])
  qed
next
  case (Cons h hs)
  have "pending (Some h) = [h]" by (simp add: pending_def)
  with Cons parse_hunks_rendered_hunk [of h current] show ?case by simp
qed

lemma next_header_rendered:
  assumes "list_all action_ok as"
  shows "next_header (concat (map render_action as))"
proof (cases as)
  case Nil
  then show ?thesis by (simp add: next_header_def)
next
  case (Cons a as')
  with assms have "action_ok a" by simp
  then have "next_header (render_action a)" and "render_action a \<noteq> []"
    by (cases a; auto simp: next_header_def isTopLevelHeader_def starts_with_Cons trim_headers [simplified])+
  with Cons show ?thesis by (cases "render_action a") (auto simp: next_header_def)
qed

lemma parse_move_rendered:
  assumes "path_ok m"
  shows "parse_move ((''*** Move to: '' @ m) # rest) = (Some m, rest)"
  using trim_headers(4) [OF assms] by (simp add: parse_move_def starts_with_Cons)

lemma parse_move_none:
  assumes "hunk_ok h"
  shows "parse_move (render_hunk h @ rest) = (None, render_hunk h @ rest)"
proof -
  have "\<not> starts_with (trim (hd (render_hunk h))) ''*** Move to: ''"
    by (auto simp: render_hunk_def header_simps split: option.splits)
  then show ?thesis by (simp add: parse_move_def render_hunk_def)
qed

lemma parse_update_rendered:
  assumes ok: "action_ok (UpdateFile path moveTo hunks)" and rest: "next_header rest"
  shows "parse_actions (render_action (UpdateFile path moveTo hunks) @ rest) acc
       = parse_actions rest (acc @ [UpdateFile path moveTo hunks])"
proof -
  let ?body = "concat (map render_hunk hunks) @ rest"
  let ?hdr = "''*** Update File: '' @ path"
  have path: "path_ok path" and hs: "list_all hunk_ok hunks" using ok by auto
  have body: "parse_hunks path ?body None [] = Inr (hunks, rest)"
    using parse_hunks_rendered [OF hs _ rest, of None path "[]"] by (simp add: pending_def)
  have move: "parse_move ((case moveTo of None \<Rightarrow> [] | Some m \<Rightarrow> [''*** Move to: '' @ m]) @ ?body) = (moveTo, ?body)"
  proof (cases moveTo)
    case None
    with ok obtain h hs where "hunks = h # hs" "hunk_ok h" by (cases hunks) auto
    then show ?thesis using parse_move_none [of h] None by simp
  next
    case (Some m)
    with ok show ?thesis using parse_move_rendered [of m] by simp
  qed
  have nonempty: "\<not> (hunks = [] \<and> \<not> truthy moveTo)"
    using ok by (auto simp: path_ok_def split: option.splits)
  have step: "parse_actions (?hdr # rest') acc
      = (case parse_move rest' of (moveTo, lines1) \<Rightarrow>
           (case parse_hunks path lines1 None [] of
              Inl e \<Rightarrow> Inl e
            | Inr (hunks, rest) \<Rightarrow>
                if hunks = [] \<and> \<not> truthy moveTo then Inl (NothingToUpdate path)
                else parse_actions rest (acc @ [UpdateFile path moveTo hunks])))" for rest'
    using trim_headers(3) [OF path] by (simp add: starts_with_Cons)
  have eq: "render_action (UpdateFile path moveTo hunks) @ rest
      = ?hdr # (case moveTo of None \<Rightarrow> [] | Some m \<Rightarrow> [''*** Move to: '' @ m]) @ ?body"
    by simp
  show ?thesis
    unfolding eq step move prod.case body sum.case by (simp only: nonempty if_False)
qed

lemma parse_action_rendered:
  assumes ok: "action_ok a" and rest: "next_header rest"
  shows "parse_actions (render_action a @ rest) acc = parse_actions rest (acc @ [a])"
proof (cases a)
  case (AddFile path content)
  then have path: "path_ok path" and content: "content_lines content \<noteq> []"
    "join newline (content_lines content) @ newline = content"
    using ok join_content_lines by auto
  have "parse_added (map (\<lambda>l. ''+'' @ l) (content_lines content) @ rest) [] = Inr (content_lines content, rest)"
    using parse_added_rendered [OF rest, of "content_lines content" "[]"] by simp
  then have added: "parse_actions ((''*** Add File: '' @ path) # map (\<lambda>l. ''+'' @ l) (content_lines content) @ rest) acc
      = parse_actions rest (acc @ [AddFile path (join newline (content_lines content) @ newline)])"
    using trim_headers(1) [OF path] content(1) by (simp add: starts_with_Cons)
  show ?thesis using added unfolding AddFile content(2) render_action.simps append_Cons .
next
  case (DeleteFile path)
  with ok have path: "path_ok path" by simp
  with DeleteFile trim_headers(2) [OF path] show ?thesis by (simp add: starts_with_Cons)
next
  case (UpdateFile path moveTo hunks)
  with ok rest show ?thesis using parse_update_rendered by blast
qed

lemma parse_actions_rendered:
  assumes "list_all action_ok as"
  shows "parse_actions (concat (map render_action as)) acc = Inr (acc @ as)"
  using assms
proof (induction as arbitrary: acc)
  case Nil
  then show ?case by simp
next
  case (Cons a as)
  then show ?case using parse_action_rendered [of a "concat (map render_action as)"] next_header_rendered [of as] by simp
qed

lemma clean_append: "p \<noteq> [] \<Longrightarrow> last p \<noteq> cr \<Longrightarrow> lf \<notin> set p \<Longrightarrow> clean s \<Longrightarrow> clean (p @ s)"
  by (cases s rule: rev_cases) (auto simp: clean_def)

lemma path_ok_clean: "path_ok p \<Longrightarrow> clean p"
  by (auto simp: path_ok_def clean_def)

lemma clean_render_line: "line_ok l \<Longrightarrow> clean (render_line l)"
  by (cases "hl_kind l") (auto simp: line_ok_def clean_def)

lemma clean_render_hunk:
  assumes "hunk_ok h" "l \<in> set (render_hunk h)"
  shows "clean l"
proof -
  have "clean (case uh_changeContext h of None \<Rightarrow> ''@@'' | Some ctx \<Rightarrow> ''@@ '' @ ctx)"
  proof (cases "uh_changeContext h")
    case None
    then show ?thesis by (simp add: clean_def)
  next
    case (Some ctx)
    then have "clean ctx" using assms(1) path_ok_clean by (simp add: hunk_ok_def)
    then have "clean (''@@ '' @ ctx)" by (rule clean_append [rotated 3]) simp_all
    with Some show ?thesis by (simp only: option.case)
  qed
  moreover have "clean x" if "x \<in> set (map render_line (uh_lines h))" for x
    using that assms(1) clean_render_line by (fastforce simp: hunk_ok_def list_all_iff)
  moreover have "clean ''*** End of File''" by (simp add: clean_def)
  ultimately show ?thesis using assms(2) by (auto simp: render_hunk_def split: if_splits)
qed

lemma clean_render_action:
  assumes "action_ok a" "l \<in> set (render_action a)"
  shows "clean l"
proof -
  have hdr: "clean (''*** Add File: '' @ p)" "clean (''*** Delete File: '' @ p)" "clean (''*** Update File: '' @ p)"
      "clean (''*** Move to: '' @ p)" if "path_ok p" for p
    using path_ok_clean [OF that] by (auto intro!: clean_append [rotated 3] simp del: append.simps)
  have plus: "clean (''+'' @ s)" if "clean s" for s
    using that by (auto intro!: clean_append [rotated 3] simp del: append.simps)
  show ?thesis
  proof (cases a)
    case (AddFile path content)
    with assms consider "l = ''*** Add File: '' @ path" | s where "s \<in> set (content_lines content)" "l = ''+'' @ s"
      by auto
    then show ?thesis
    proof cases
      case 1
      with AddFile assms(1) hdr(1) show ?thesis by simp
    next
      case 2
      with AddFile assms(1) have "clean s" by (simp add: list_all_iff)
      from plus [OF this] 2 show ?thesis by simp
    qed
  next
    case (DeleteFile path)
    with assms have "l = ''*** Delete File: '' @ path" by simp
    with DeleteFile assms(1) hdr(2) show ?thesis by simp
  next
    case (UpdateFile path moveTo hunks)
    with assms consider "l = ''*** Update File: '' @ path" | m where "moveTo = Some m" "l = ''*** Move to: '' @ m"
      | h where "h \<in> set hunks" "l \<in> set (render_hunk h)"
      by (auto split: option.splits)
    then show ?thesis
    proof cases
      case 1
      with UpdateFile assms(1) hdr(3) show ?thesis by simp
    next
      case 2
      with UpdateFile assms(1) hdr(4) show ?thesis by simp
    next
      case 3
      with UpdateFile assms(1) clean_render_hunk show ?thesis by (auto simp: list_all_iff)
    qed
  qed
qed

lemma join_snoc_end: "\<exists>u. join sep (ls @ [y]) = u @ y"
  by (induction sep ls rule: join.induct) auto

lemma join_Cons_start: "\<exists>u. join sep (x # ls) = x @ u"
  by (cases ls) auto

lemma patchLines_rendered:
  assumes "list_all action_ok as"
  shows "patchLines (render_patch as) = [''*** Begin Patch''] @ concat (map render_action as) @ [''*** End Patch'']"
    (is "_ = ?ls")
proof -
  have ends: "clean ''*** Begin Patch''" "clean ''*** End Patch''" by (simp_all add: clean_def)
  have "\<forall>l \<in> set (concat (map render_action as)). clean l"
    using assms clean_render_action by (auto simp: list_all_iff)
  with ends have clean: "\<forall>l \<in> set ?ls. clean l" by auto
  define J where "J = join newline ?ls"
  obtain u where u: "J = ''*** Begin Patch'' @ u"
    using join_Cons_start [of newline "''*** Begin Patch''"] unfolding J_def by auto
  obtain v where v: "J = v @ ''*** End Patch''"
    using join_snoc_end [of newline "[''*** Begin Patch''] @ concat (map render_action as)" "''*** End Patch''"]
    unfolding append_assoc J_def by blast
  have hd_last: "J = hd J # tl J" "hd J = CHR ''*''" unfolding u by simp_all
  have last: "last J = CHR ''h''" unfolding v by simp
  have "trim (hd J # tl J) = hd J # tl J"
    by (rule trim_id) (use hd_last last in auto)
  then have trim: "trim J = J" using hd_last(1) by simp
  have split: "split_nl J = ?ls"
    unfolding J_def by (rule split_nl_join) (use clean in \<open>auto simp: clean_def\<close>)
  have first: "trim (hd ?ls) = ''*** Begin Patch''" by (simp add: header_simps trim_end_def)
  have crlf: "crlf_to_lf J = J" using crlf_to_lf_id [OF clean] unfolding J_def .
  show ?thesis
    unfolding patchLines_def render_patch_def J_def [symmetric] crlf trim split Let_def first by simp
qed

lemma render_parses:
  assumes "actions \<noteq> []" "list_all action_ok actions"
  shows "parsePatch (render_patch actions) = Inr actions"
proof -
  have "trim ''*** Begin Patch'' = ''*** Begin Patch''" "trim ''*** End Patch'' = ''*** End Patch''"
    by (simp_all add: header_simps trim_end_def)
  then show ?thesis
    unfolding parsePatch_def patchLines_rendered [OF assms(2)]
    using parse_actions_rendered [OF assms(2), of "[]"] assms(1) by (simp del: parse_actions.simps)
qed

text \<open>
  C39. Round trip of the patch format: the parser reads the canonical text of any well-formed list
  of file actions (additions with their content, deletions, moves, hunks with context, change
  context and end-of-file marker) back as exactly that list.
\<close>

theorem parsePatch_render:
  assumes "actions \<noteq> []" "list_all action_ok actions"
  shows "parsePatch (render_patch actions) = Inr actions"
  using assms by (rule render_parses)

definition sample_actions :: "patch_action list" where
  "sample_actions =
     [AddFile ''a.txt'' (''one'' @ newline @ newline @ ''  two'' @ newline), DeleteFile ''b c.txt'',
      UpdateFile ''d.ts'' (Some ''e.ts'')
        [\<lparr>uh_lines = [\<lparr>hl_kind = Context, hl_text = ''x''\<rparr>, \<lparr>hl_kind = Removed, hl_text = ''-y''\<rparr>, \<lparr>hl_kind = Added, hl_text = ''''\<rparr>],
          uh_changeContext = Some ''function f() {'', uh_endOfFile = False\<rparr>,
         \<lparr>uh_lines = [\<lparr>hl_kind = Added, hl_text = ''*** End of File''\<rparr>], uh_changeContext = None, uh_endOfFile = True\<rparr>]]"

theorem parsePatch_render_witness: "parsePatch (render_patch sample_actions) = Inr sample_actions"
proof (rule parsePatch_render)
  show "sample_actions \<noteq> []" by (simp add: sample_actions_def)
  show "list_all action_ok sample_actions" by code_simp
qed

section \<open>What the parser accepts\<close>

lemma set_trim: "set (trim s) \<subseteq> set s"
proof -
  have "set (trim_end u) \<subseteq> set u" for u using set_dropWhileD [of _ js_space "rev u"] by (auto simp: trim_end_def)
  then show ?thesis using set_dropWhileD [of _ js_space s] by (fastforce simp: trim_def trim_start_def)
qed

lemma last_trim: "trim s \<noteq> [] \<Longrightarrow> \<not> js_space (last (trim s))"
  by (metis hd_dropWhile last_rev rev_is_Nil_conv trim_def trim_end_def)

lemma hd_trim:
  assumes "trim s \<noteq> []"
  shows "\<not> js_space (hd (trim s))"
proof (cases "trim_start s")
  case Nil
  with assms show ?thesis by (simp add: trim_def trim_end_def)
next
  case (Cons c u)
  then have "\<not> js_space c" by (metis hd_dropWhile list.sel(1) list.discI trim_start_def)
  with Cons show ?thesis by (simp add: trim_def trim_end_Cons)
qed

lemma trim_trim: "trim (trim s) = trim s"
proof (cases "trim s")
  case Nil
  show ?thesis unfolding Nil by (simp add: trim_def trim_start_def trim_end_def)
next
  case (Cons c u)
  then show ?thesis using trim_id [of c u] hd_trim [of s] last_trim [of s] by simp
qed

text \<open>A line without CR and LF, what is left of a text with LF or CRLF line ends.\<close>

definition plain :: "string \<Rightarrow> bool" where
  "plain s \<longleftrightarrow> lf \<notin> set s \<and> cr \<notin> set s"

lemma plain_clean: "plain s \<Longrightarrow> clean s"
  by (cases s rule: rev_cases) (auto simp: plain_def clean_def)

lemma plain_drop: "plain s \<Longrightarrow> plain (drop n s)"
  by (auto simp: plain_def dest: in_set_dropD)

lemma plain_trim: "plain s \<Longrightarrow> plain (trim s)"
  using set_trim [of s] by (auto simp: plain_def)

lemma path_of_header:
  assumes "starts_with (trim line) h" "h \<noteq> []" "js_space (last h)" "plain line"
  shows "path_ok (drop (length h) (trim line))"
proof -
  obtain p where p: "trim line = h @ p" using assms(1) by (auto simp: starts_with_iff)
  have "p \<noteq> []" using p assms(2,3) last_trim [of line] by auto
  moreover have "\<not> js_space (last p)" using p \<open>p \<noteq> []\<close> last_trim [of line] by simp
  moreover have "lf \<notin> set p" using plain_trim [OF assms(4)] p by (simp add: plain_def)
  ultimately show ?thesis using p by (simp add: path_ok_def)
qed

definition hunk_body_ok :: "update_hunk \<Rightarrow> bool" where
  "hunk_body_ok h \<longleftrightarrow> list_all line_ok (uh_lines h)
     \<and> (case uh_changeContext h of None \<Rightarrow> True | Some ctx \<Rightarrow> path_ok ctx \<and> trim ctx = ctx)"

lemma hunk_ok_body: "hunk_ok h \<longleftrightarrow> uh_lines h \<noteq> [] \<and> hunk_body_ok h"
  by (simp add: hunk_ok_def hunk_body_ok_def)

lemma hunk_body_ok_eof [simp]: "hunk_body_ok (h\<lparr>uh_endOfFile := b\<rparr>) = hunk_body_ok h"
  by (simp add: hunk_body_ok_def)

lemma hunk_body_ok_coalesce: "pred_option hunk_body_ok current \<Longrightarrow> hunk_body_ok (coalesce current (new_hunk None))"
  by (cases current) (simp_all add: new_hunk_def hunk_body_ok_def)

lemma hunk_body_ok_push:
  assumes "hunk_body_ok h" "plain line" "k = Context \<Longrightarrow> starts_with line '' '' \<and> trim line \<noteq> ''*** End of File''"
  shows "hunk_body_ok (push_line k line h)"
proof -
  have "trim (drop 1 line) \<noteq> ''*** End of File''" if "k = Context"
    using assms(3) [OF that] trim_space [of "CHR '' ''" "drop 1 line"] by (cases line) (auto simp: starts_with_Cons)
  moreover have "clean (drop 1 line)" using assms(2) by (simp add: plain_clean plain_drop del: drop_Suc)
  ultimately show ?thesis using assms(1) by (simp add: hunk_body_ok_def push_line_def line_ok_def del: drop_Suc)
qed

lemma hunk_body_ok_new:
  assumes "plain line"
  shows "hunk_body_ok (new_hunk (if trim (drop n (trim line)) = [] then None else Some (trim (drop n (trim line)))))"
proof -
  have "plain (trim (drop n (trim line)))" using assms by (intro plain_trim plain_drop)
  then show ?thesis
    using last_trim [of "drop n (trim line)"] trim_trim by (simp add: hunk_body_ok_def new_hunk_def path_ok_def plain_def)
qed

lemma finishCurrent_ok:
  assumes "finishCurrent path current hunks = Inr hs" "pred_option hunk_body_ok current" "list_all hunk_ok hunks"
  shows "list_all hunk_ok hs"
  using assms by (auto simp: finishCurrent_def hunk_ok_body split: option.splits if_splits)

lemma parse_hunks_ok:
  assumes "parse_hunks path lines current hunks = Inr (hs, rest)" "list_all plain lines"
    "pred_option hunk_body_ok current" "list_all hunk_ok hunks"
  shows "list_all hunk_ok hs \<and> list_all plain rest"
  using assms
proof (induction path lines current hunks rule: parse_hunks.induct)
  case (1 path current hunks)
  then show ?case by (auto dest: finishCurrent_ok split: sum.splits)
next
  case (2 path line lines current hunks)
  have pl: "plain line" "list_all plain lines" using "2.prems"(2) by auto
  let ?h = "coalesce current (new_hunk None)"
  have h: "hunk_body_ok ?h" using "2.prems"(3) by (rule hunk_body_ok_coalesce)
  consider (blank) "current = None" "trim line = []"
    | (eof) "\<not> (current = None \<and> trim line = [])" "trim line = ''*** End of File''"
    | (hdr) "\<not> (current = None \<and> trim line = [])" "trim line \<noteq> ''*** End of File''"
        "(current = None \<or> \<not> starts_with line '' '') \<and> isTopLevelHeader line"
    | (hunk) "\<not> (current = None \<and> trim line = [])" "trim line \<noteq> ''*** End of File''"
        "\<not> ((current = None \<or> \<not> starts_with line '' '') \<and> isTopLevelHeader line)"
        "starts_with (trim line) ''@@'' \<and> \<not> starts_with line '' ''"
    | (body) "\<not> (current = None \<and> trim line = [])" "trim line \<noteq> ''*** End of File''"
        "\<not> ((current = None \<or> \<not> starts_with line '' '') \<and> isTopLevelHeader line)"
        "\<not> (starts_with (trim line) ''@@'' \<and> \<not> starts_with line '' '')"
    by argo
  then show ?case
  proof cases
    case blank
    then show ?thesis using "2.IH"(1) [OF refl] "2.prems" pl by simp
  next
    case eof
    then obtain h where c: "current = Some h" using "2.prems"(1) by (cases current) auto
    with eof show ?thesis using "2.IH"(2) [OF refl] "2.prems" pl by simp
  next
    case hdr
    then show ?thesis using "2.prems" finishCurrent_ok [of path current hunks] by (auto split: sum.splits)
  next
    case hunk
    then obtain hs' where hs': "finishCurrent path current hunks = Inr hs'"
      using "2.prems"(1) by (cases "finishCurrent path current hunks") auto
    have "list_all hunk_ok hs'" using hs' "2.prems"(3,4) by (rule finishCurrent_ok)
    moreover have "parse_hunks path lines (Some (new_hunk (if trim (drop 2 (trim line)) = [] then None
        else Some (trim (drop 2 (trim line)))))) hs' = Inr (hs, rest)"
      using "2.prems"(1) unfolding parse_hunks.simps Let_def if_not_P [OF hunk(1)] if_not_P [OF hunk(2)]
        if_not_P [OF hunk(3)] if_P [OF hunk(4)] hs' sum.case .
    ultimately show ?thesis
      using "2.IH"(3) [OF refl hunk hs' refl] pl hunk_body_ok_new [OF pl(1), of 2] by simp
  next
    case body
    have sp: "hunk_body_ok (push_line Context line ?h)" if "starts_with line '' ''"
      using h pl(1) that body(2) by (intro hunk_body_ok_push) auto
    have pm: "hunk_body_ok (push_line Added line ?h)" "hunk_body_ok (push_line Removed line ?h)"
      using h pl(1) by (auto intro: hunk_body_ok_push)
    show ?thesis
      using "2.IH"(4-7) [OF refl body refl] "2.prems"(1,4) pl h sp pm
      by (simp only: parse_hunks.simps Let_def body if_False) (auto split: if_splits)
  qed
qed

lemma parse_added_ok:
  assumes "parse_added lines content = Inr (c, rest)" "list_all plain lines" "list_all plain content"
  shows "list_all plain c \<and> list_all plain rest"
  using assms
  by (induction lines content rule: parse_added.induct) (auto simp: plain_drop simp del: drop_Suc split: if_splits)

lemma parse_move_ok:
  assumes "parse_move lines = (m, rest)" "list_all plain lines"
  shows "pred_option path_ok m \<and> list_all plain rest"
proof (cases lines)
  case Nil
  with assms show ?thesis by (simp add: parse_move_def)
next
  case (Cons line lines')
  then show ?thesis
    using assms path_of_header [of line "''*** Move to: ''"] by (auto simp: parse_move_def split: if_splits)
qed

lemma added_ok:
  assumes "path_ok path" "list_all plain content" "content \<noteq> []"
  shows "action_ok (AddFile path (join newline content @ newline))"
proof -
  have "content_lines (join newline content @ newline) = content"
    using assms by (intro content_lines_join) (auto simp: list_all_iff plain_def)
  with assms show ?thesis
    by (auto simp: list_all_iff plain_clean ends_with_def starts_with_def newline_lf)
qed

lemma updated_ok:
  assumes "path_ok path" "pred_option path_ok m" "list_all hunk_ok hunks" "\<not> (hunks = [] \<and> \<not> truthy m)"
  shows "action_ok (UpdateFile path m hunks)"
  using assms by (cases m) auto

lemma parse_actions_ok:
  assumes "parse_actions lines acc = Inr as" "list_all plain lines" "list_all action_ok acc"
  shows "list_all action_ok as"
  using assms
proof (induction lines acc rule: parse_actions.induct)
  case (1 acc)
  then show ?case by simp
next
  case (2 line lines acc)
  have pl: "plain line" "list_all plain lines" using "2.prems"(2) by auto
  note header = path_of_header [OF _ _ _ pl(1)]
  let ?h = "trim line"
  let ?env = "starts_with ?h ''*** Environment ID: ''" and ?add = "starts_with ?h ''*** Add File: ''"
    and ?del = "starts_with ?h ''*** Delete File: ''" and ?upd = "starts_with ?h ''*** Update File: ''"
  consider (blank) "?h = []" | (env) "?h \<noteq> []" ?env | (add) "?h \<noteq> []" "\<not> ?env" ?add
    | (del) "?h \<noteq> []" "\<not> ?env" "\<not> ?add" ?del | (upd) "?h \<noteq> []" "\<not> ?env" "\<not> ?add" "\<not> ?del" ?upd
    | (other) "?h \<noteq> []" "\<not> ?env" "\<not> ?add" "\<not> ?del" "\<not> ?upd"
    by argo
  then show ?case
  proof cases
    case blank
    then show ?thesis using "2.IH"(1) [OF refl] "2.prems" pl by simp
  next
    case env
    then show ?thesis using "2.IH"(2) [OF refl] "2.prems" pl by (simp split: if_splits)
  next
    case add
    have path: "path_ok (drop (length ''*** Add File: '') ?h)" using header [OF add(3)] by simp
    note run = "2.prems"(1) [unfolded parse_actions.simps Let_def if_not_P [OF add(1)] if_not_P [OF add(2)] if_P [OF add(3)]]
    obtain content rest where pa: "parse_added lines [] = Inr (content, rest)"
      using run by (cases "parse_added lines []") auto
    with parse_added_ok [OF pa pl(2)] have ok: "list_all plain content" "list_all plain rest" by auto
    have ne: "content \<noteq> []" using run pa by auto
    note run' = run [unfolded pa sum.case prod.case if_not_P [OF ne]]
    show ?thesis
      by (rule "2.IH"(3) [OF refl add refl pa refl ne run' ok(2)]) (use "2.prems"(3) added_ok [OF path ok(1) ne] in simp)
  next
    case del
    have path: "path_ok (drop (length ''*** Delete File: '') ?h)" using header [OF del(4)] by simp
    note run = "2.prems"(1) [unfolded parse_actions.simps Let_def if_not_P [OF del(1)] if_not_P [OF del(2)]
      if_not_P [OF del(3)] if_P [OF del(4)]]
    show ?thesis by (rule "2.IH"(4) [OF refl del run pl(2)]) (use "2.prems"(3) path in simp)
  next
    case upd
    have path: "path_ok (drop (length ''*** Update File: '') ?h)" (is "path_ok ?p") using header [OF upd(5)] by simp
    note run = "2.prems"(1) [unfolded parse_actions.simps Let_def if_not_P [OF upd(1)] if_not_P [OF upd(2)]
      if_not_P [OF upd(3)] if_not_P [OF upd(4)] if_P [OF upd(5)]]
    obtain m lines1 where pm: "parse_move lines = (m, lines1)" by fastforce
    then have m: "pred_option path_ok m" "list_all plain lines1" using parse_move_ok [OF pm pl(2)] by auto
    note run1 = run [unfolded pm prod.case]
    obtain hunks rest where ph: "parse_hunks ?p lines1 None [] = Inr (hunks, rest)"
      using run1 by (cases "parse_hunks ?p lines1 None []") auto
    then have hs: "list_all hunk_ok hunks" "list_all plain rest" using parse_hunks_ok [OF ph m(2)] by auto
    have ne: "\<not> (hunks = [] \<and> \<not> truthy m)" using run1 [unfolded ph sum.case prod.case] by (auto split: if_splits)
    note run2 = run1 [unfolded ph sum.case prod.case if_not_P [OF ne]]
    show ?thesis
      by (rule "2.IH"(5) [OF refl upd refl pm [symmetric] ph refl ne run2 hs(2)])
        (use "2.prems"(3) updated_ok [OF path m(1) hs(1) ne] in simp)
  next
    case other
    then show ?thesis using "2.prems"(1) by simp
  qed
qed

lemma patchLines_plain:
  assumes "cr \<notin> set (crlf_to_lf patch)" "l \<in> set (patchLines patch)"
  shows "plain l"
proof -
  let ?lines = "split_nl (trim (crlf_to_lf patch))"
  have "set (butlast (tl ?lines)) \<subseteq> set ?lines"
    by (cases ?lines) (auto dest: in_set_butlastD)
  then have "l \<in> set ?lines"
    using assms(2) by (auto simp: patchLines_def Let_def split: if_splits)
  then show ?thesis
    using assms(1) set_split_nl split_nl_no_lf set_trim unfolding plain_def by blast
qed


definition crlf_patch :: string where
  "crlf_patch = concat (map (\<lambda>l. l @ [cr, lf])
     [''*** Begin Patch'', ''*** Update File: a'', ''@@'', '' x'', ''+y'', ''*** End Patch''])"

definition crlf_actions :: "patch_action list" where
  "crlf_actions =
     [UpdateFile ''a'' None
        [\<lparr>uh_lines = [\<lparr>hl_kind = Context, hl_text = ''x''\<rparr>, \<lparr>hl_kind = Added, hl_text = ''y''\<rparr>],
          uh_changeContext = None, uh_endOfFile = False\<rparr>]]"


end
