(* ===== verification/Apply_Patch.thy ===== *)
theory Apply_Patch
  imports Patch_Format
begin

text \<open>
  The patch tool of src/src/apply-patch.ts below the parser: the search for the lines a hunk
  replaces, the application of hunks to a file, and the staging of a whole patch before anything
  is written.

  \<^item> The file system is a map from absolute paths to text files. Path resolution (realpath, lstat
    and the symlink checks), the identity of files and the unified diff of the \<open>diff\<close> package are
    arguments.
\<close>

section \<open>Applying hunks\<close>

record split_file =
  sf_lines :: "string list"
  sf_eol :: string
  sf_finalNewline :: bool

definition splitFile :: "string \<Rightarrow> split_file" where
  "splitFile content =
     (let eol = (if has_crlf content then [cr, lf] else [lf]);
          normalized = crlf_to_lf content;
          finalNewline = ends_with normalized [lf];
          lines = split_nl normalized
      in \<lparr>sf_lines = (if finalNewline then butlast lines else lines), sf_eol = eol, sf_finalNewline = finalNewline\<rparr>)"

definition matchAt :: "string list \<Rightarrow> string list \<Rightarrow> nat \<Rightarrow> (string \<Rightarrow> string) \<Rightarrow> bool" where
  "matchAt haystack needle index nrm \<longleftrightarrow>
     list_all (\<lambda>(line, offset). nrm (if index + offset < length haystack then haystack ! (index + offset) else []) = nrm line)
       (zip needle [0..<length needle])"

text \<open>
  The inner loop over the indexes; the outer one over the three normalisations. The loop starts at
  the last possible index for a hunk at the end of the file, which is negative when the needle is
  longer than the file; no index is then tried.
\<close>

definition find_at :: "string list \<Rightarrow> string list \<Rightarrow> nat \<Rightarrow> bool \<Rightarrow> (string \<Rightarrow> string) \<Rightarrow> nat option" where
  "find_at haystack needle from endOfFile nrm =
     (if length needle \<le> length haystack
      then let stop = length haystack - length needle; start = (if endOfFile then stop else from)
           in find (\<lambda>index. index \<ge> from \<and> matchAt haystack needle index nrm) [start..<Suc stop]
      else None)"

definition findSequence :: "string list \<Rightarrow> string list \<Rightarrow> nat \<Rightarrow> bool \<Rightarrow> nat option" where
  "findSequence haystack needle from endOfFile =
     (if needle = [] then Some from
      else case find_at haystack needle from endOfFile (\<lambda>v. v) of
             Some i \<Rightarrow> Some i
           | None \<Rightarrow>
               (case find_at haystack needle from endOfFile trim_end of
                  Some i \<Rightarrow> Some i
                | None \<Rightarrow> find_at haystack needle from endOfFile trim))"

definition old_lines :: "update_hunk \<Rightarrow> string list" where
  "old_lines h = map hl_text (filter (\<lambda>l. hl_kind l \<noteq> Added) (uh_lines h))"

definition new_lines :: "update_hunk \<Rightarrow> string list" where
  "new_lines h = map hl_text (filter (\<lambda>l. hl_kind l \<noteq> Removed) (uh_lines h))"

fun apply_loop :: "string \<Rightarrow> string list \<Rightarrow> nat \<Rightarrow> update_hunk list \<Rightarrow> patch_error + string list" where
  "apply_loop path lines cursor [] = Inr lines"
| "apply_loop path lines cursor (h # hs) =
     (case (if truthy (uh_changeContext h)
            then map_option Suc (findSequence lines [the (uh_changeContext h)] cursor False) else Some cursor) of
        None \<Rightarrow> Inl (ContextNotFound path [the (uh_changeContext h)])
      | Some cursor1 \<Rightarrow>
          (case (if uh_endOfFile h \<and> old_lines h = [] then Some (length lines)
                 else findSequence lines (old_lines h) cursor1 (uh_endOfFile h)) of
             None \<Rightarrow> Inl (ContextNotFound path (take 3 (old_lines h)))
           | Some index \<Rightarrow>
               apply_loop path (take index lines @ new_lines h @ drop (index + length (old_lines h)) lines)
                 (index + length (new_lines h)) hs))"

definition applyHunks :: "string \<Rightarrow> string \<Rightarrow> update_hunk list \<Rightarrow> patch_error + string" where
  "applyHunks path content hunks =
     (let file = splitFile content
      in case apply_loop path (sf_lines file) 0 hunks of
           Inl e \<Rightarrow> Inl e
         | Inr lines \<Rightarrow>
             (let normalized = join newline lines @ newline
              in Inr (if sf_eol file = [cr, lf] then lf_to_crlf normalized else normalized)))"

section \<open>Staging a patch\<close>

record text_file =
  tf_content :: string
  tf_mode :: "nat option"

type_synonym file_system = "string \<rightharpoonup> text_file"

text \<open>
  What the tool gets from the host: the confined absolute path of a workspace path or the refusal,
  the reason a file cannot be read as text, the device and inode of a path, the check of a
  destination before it is written, and the body of a unified diff.
\<close>

record patch_host =
  ph_resolve :: "string \<Rightarrow> patch_error + string"
  ph_unreadable :: "string \<Rightarrow> patch_error option"
  ph_identity :: "string \<Rightarrow> (nat \<times> nat) option"
  ph_revalidate :: "string \<Rightarrow> patch_error option"
  ph_createTwoFilesPatch :: "string \<Rightarrow> string \<Rightarrow> string \<Rightarrow> string \<Rightarrow> string"

datatype patch_operation = OpAdd | OpUpdate | OpDelete | OpMove

record applied_file =
  af_path :: string
  af_previousPath :: "string option"
  af_operation :: patch_operation

type_synonym staged_files = "(string \<times> text_file option) list"

record stage =
  sg_staged :: staged_files
  sg_results :: "applied_file list"
  sg_patches :: "string list"

text \<open>\<open>Map.set\<close> keeps the place of a key it already has.\<close>

definition staged_set :: "string \<Rightarrow> text_file option \<Rightarrow> staged_files \<Rightarrow> staged_files" where
  "staged_set k v staged =
     (if k \<in> fst ` set staged then map (\<lambda>(k', v'). (k', if k' = k then v else v')) staged else staged @ [(k, v)])"

definition staged_delete :: "string \<Rightarrow> staged_files \<Rightarrow> staged_files" where
  "staged_delete k staged = filter (\<lambda>(k', _). k' \<noteq> k) staged"

definition readStagedOptional ::
    "patch_host \<Rightarrow> file_system \<Rightarrow> string \<Rightarrow> staged_files \<Rightarrow> patch_error + text_file option \<times> staged_files" where
  "readStagedOptional host fs absolute staged =
     (case map_of staged absolute of
        Some file \<Rightarrow> Inr (file, staged)
      | None \<Rightarrow>
          (case (case fs absolute of None \<Rightarrow> None | Some _ \<Rightarrow> ph_unreadable host absolute) of
             Some e \<Rightarrow> Inl e
           | None \<Rightarrow> Inr (fs absolute, staged_set absolute (fs absolute) staged)))"

definition stripFinalNewline :: "string \<Rightarrow> string" where
  "stripFinalNewline value =
     (if ends_with value [cr, lf] then take (length value - 2) value
      else if ends_with value [lf] then take (length value - 1) value else value)"

definition unifiedFilePatch :: "patch_host \<Rightarrow> string \<Rightarrow> string \<Rightarrow> string option \<Rightarrow> string option \<Rightarrow> string" where
  "unifiedFilePatch host oldPath newPath oldContent newContent =
     (let oldFileName = (if oldContent = None then ''/dev/null'' else ''a/'' @ oldPath);
          newFileName = (if newContent = None then ''/dev/null'' else ''b/'' @ newPath);
          body = ph_createTwoFilesPatch host oldFileName newFileName (coalesce oldContent []) (coalesce newContent [])
      in join newline ([''diff --git a/'' @ oldPath @ '' b/'' @ newPath]
           @ (if oldContent = None then [''new file mode 100644''] else [])
           @ (if newContent = None then [''deleted file mode 100644''] else [])
           @ [stripFinalNewline body]))"

definition isSamePatchFile :: "patch_host \<Rightarrow> string \<Rightarrow> string \<Rightarrow> bool" where
  "isSamePatchFile host source destination \<longleftrightarrow>
     (if source = destination then True
      else if to_lower source \<noteq> to_lower destination then False
      else ph_identity host source \<noteq> None \<and> ph_identity host source = ph_identity host destination)"

definition stage_put :: "string \<Rightarrow> text_file option \<Rightarrow> applied_file \<Rightarrow> string \<Rightarrow> stage \<Rightarrow> stage" where
  "stage_put absolute file result patch sg =
     sg\<lparr>sg_staged := staged_set absolute file (sg_staged sg), sg_results := sg_results sg @ [result], sg_patches := sg_patches sg @ [patch]\<rparr>"

definition stage_move :: "patch_host \<Rightarrow> file_system \<Rightarrow> string \<Rightarrow> string \<Rightarrow> string \<Rightarrow> text_file \<Rightarrow> string \<Rightarrow> stage \<Rightarrow> patch_error + stage" where
  "stage_move host fs path moveTo absolute file updated sg =
     (case ph_resolve host moveTo of
        Inl e \<Rightarrow> Inl e
      | Inr destination \<Rightarrow>
          (let result = \<lparr>af_path = moveTo, af_previousPath = Some path, af_operation = OpMove\<rparr>;
               patch = unifiedFilePatch host path moveTo (Some (tf_content file)) (Some updated);
               moved = Some \<lparr>tf_content = updated, tf_mode = tf_mode file\<rparr>
           in if isSamePatchFile host absolute destination
              then Inr (stage_put destination moved result patch (sg\<lparr>sg_staged := staged_delete absolute (sg_staged sg)\<rparr>))
              else (case readStagedOptional host fs destination (sg_staged sg) of
                      Inl e \<Rightarrow> Inl e
                    | Inr (_, staged) \<Rightarrow>
                        (let sg1 = stage_put destination moved result patch (sg\<lparr>sg_staged := staged\<rparr>)
                         in Inr (sg1\<lparr>sg_staged := staged_set absolute None (sg_staged sg1)\<rparr>)))))"

definition stage_existing :: "patch_host \<Rightarrow> file_system \<Rightarrow> patch_action \<Rightarrow> string \<Rightarrow> text_file \<Rightarrow> stage \<Rightarrow> patch_error + stage" where
  "stage_existing host fs action absolute file sg =
     (case action of
        AddFile _ _ \<Rightarrow> Inr sg
      | DeleteFile path \<Rightarrow>
          Inr (stage_put absolute None \<lparr>af_path = path, af_previousPath = None, af_operation = OpDelete\<rparr>
            (unifiedFilePatch host path path (Some (tf_content file)) None) sg)
      | UpdateFile path moveTo hunks \<Rightarrow>
          (case applyHunks path (tf_content file) hunks of
             Inl e \<Rightarrow> Inl e
           | Inr updated \<Rightarrow>
               if truthy moveTo then stage_move host fs path (the moveTo) absolute file updated sg
               else Inr (stage_put absolute (Some \<lparr>tf_content = updated, tf_mode = tf_mode file\<rparr>)
                      \<lparr>af_path = path, af_previousPath = None, af_operation = OpUpdate\<rparr>
                      (unifiedFilePatch host path path (Some (tf_content file)) (Some updated)) sg)))"

fun action_path :: "patch_action \<Rightarrow> string" where
  "action_path (AddFile path _) = path"
| "action_path (DeleteFile path) = path"
| "action_path (UpdateFile path _ _) = path"

definition stage_action :: "patch_host \<Rightarrow> file_system \<Rightarrow> patch_action \<Rightarrow> stage \<Rightarrow> patch_error + stage" where
  "stage_action host fs action sg =
     (case ph_resolve host (action_path action) of
        Inl e \<Rightarrow> Inl e
      | Inr absolute \<Rightarrow>
          (case readStagedOptional host fs absolute (sg_staged sg) of
             Inl e \<Rightarrow> Inl e
           | Inr (original, staged) \<Rightarrow>
               (let sg1 = sg\<lparr>sg_staged := staged\<rparr>
                in case action of
                     AddFile path content \<Rightarrow>
                       Inr (stage_put absolute (Some \<lparr>tf_content = content, tf_mode = Option.bind original tf_mode\<rparr>)
                         \<lparr>af_path = path, af_previousPath = None, af_operation = OpAdd\<rparr>
                         (unifiedFilePatch host path path (map_option tf_content original) (Some content)) sg1)
                   | _ \<Rightarrow>
                       (case original of
                          None \<Rightarrow> Inl (FileMissing (action_path action))
                        | Some file \<Rightarrow> stage_existing host fs action absolute file sg1))))"

fun stage_actions :: "patch_host \<Rightarrow> file_system \<Rightarrow> patch_action list \<Rightarrow> stage \<Rightarrow> patch_error + stage" where
  "stage_actions host fs [] sg = Inr sg"
| "stage_actions host fs (action # actions) sg =
     (case stage_action host fs action sg of Inl e \<Rightarrow> Inl e | Inr sg' \<Rightarrow> stage_actions host fs actions sg')"

fun write_staged :: "patch_host \<Rightarrow> staged_files \<Rightarrow> file_system \<Rightarrow> patch_error option \<times> file_system" where
  "write_staged host [] fs = (None, fs)"
| "write_staged host ((absolute, None) # staged) fs = write_staged host staged fs"
| "write_staged host ((absolute, Some file) # staged) fs =
     (case ph_revalidate host absolute of
        Some e \<Rightarrow> (Some e, fs)
      | None \<Rightarrow> write_staged host staged (fs(absolute \<mapsto> file)))"

fun remove_staged :: "patch_host \<Rightarrow> staged_files \<Rightarrow> file_system \<Rightarrow> patch_error option \<times> file_system" where
  "remove_staged host [] fs = (None, fs)"
| "remove_staged host ((absolute, Some file) # staged) fs = remove_staged host staged fs"
| "remove_staged host ((absolute, None) # staged) fs =
     (case ph_revalidate host absolute of
        Some e \<Rightarrow> (Some e, fs)
      | None \<Rightarrow> remove_staged host staged (fs(absolute := None)))"

definition countPatchStats :: "string \<Rightarrow> nat \<times> nat" where
  "countPatchStats patch =
     (length (filter (\<lambda>l. starts_with l ''+'' \<and> \<not> starts_with l ''+++'') (split_nl patch)),
      length (filter (\<lambda>l. starts_with l ''-'' \<and> \<not> starts_with l ''---'') (split_nl patch)))"

record patch_result =
  pr_files :: "applied_file list"
  pr_patch :: string
  pr_additions :: nat
  pr_removals :: nat

definition applyPatch :: "patch_host \<Rightarrow> string \<Rightarrow> file_system \<Rightarrow> (patch_error + patch_result) \<times> file_system" where
  "applyPatch host patch fs =
     (case parsePatch patch of
        Inl e \<Rightarrow> (Inl e, fs)
      | Inr actions \<Rightarrow>
          (case stage_actions host fs actions \<lparr>sg_staged = [], sg_results = [], sg_patches = []\<rparr> of
             Inl e \<Rightarrow> (Inl e, fs)
           | Inr sg \<Rightarrow>
               (case write_staged host (sg_staged sg) fs of
                  (Some e, fs1) \<Rightarrow> (Inl e, fs1)
                | (None, fs1) \<Rightarrow>
                    (case remove_staged host (sg_staged sg) fs1 of
                       (Some e, fs2) \<Rightarrow> (Inl e, fs2)
                     | (None, fs2) \<Rightarrow>
                         (let unifiedPatch = join newline (filter (\<lambda>p. p \<noteq> []) (sg_patches sg));
                              stats = countPatchStats unifiedPatch
                          in (Inr \<lparr>pr_files = sg_results sg, pr_patch = unifiedPatch, pr_additions = fst stats, pr_removals = snd stats\<rparr>, fs2))))))"

section \<open>Finding the lines of a hunk\<close>

definition block_at :: "string list \<Rightarrow> string list \<Rightarrow> nat \<Rightarrow> bool \<Rightarrow> (string \<Rightarrow> string) \<Rightarrow> nat \<Rightarrow> bool" where
  "block_at haystack needle from endOfFile nrm i \<longleftrightarrow>
     from \<le> i \<and> i + length needle \<le> length haystack \<and> (endOfFile \<longrightarrow> i + length needle = length haystack)
     \<and> map nrm (take (length needle) (drop i haystack)) = map nrm needle"

lemma matchAt_iff:
  assumes "i + length needle \<le> length haystack"
  shows "matchAt haystack needle i nrm \<longleftrightarrow> map nrm (take (length needle) (drop i haystack)) = map nrm needle"
proof -
  have "matchAt haystack needle i nrm \<longleftrightarrow> (\<forall>k < length needle. nrm (haystack ! (i + k)) = nrm (needle ! k))"
    using assms by (auto simp: matchAt_def list_all_length)
  also have "\<dots> \<longleftrightarrow> map nrm (take (length needle) (drop i haystack)) = map nrm needle"
    using assms by (auto simp: list_eq_iff_nth_eq)
  finally show ?thesis .
qed

lemma find_upt_Some: "find P [a..<b] = Some i \<longleftrightarrow> a \<le> i \<and> i < b \<and> P i \<and> (\<forall>j. a \<le> j \<and> j < i \<longrightarrow> \<not> P j)"
proof (induction "b - a" arbitrary: a)
  case 0
  then show ?case by auto
next
  case (Suc n)
  then have eq: "[a..<b] = a # [Suc a..<b]" by (simp add: upt_conv_Cons)
  show ?case
  proof (cases "P a")
    case True
    then show ?thesis unfolding eq using Suc.hyps(2) by (auto simp: le_less)
  next
    case False
    have "n = b - Suc a" using Suc.hyps(2) by simp
    from Suc.hyps(1) [OF this] False show ?thesis
      unfolding eq by (auto simp: Suc_le_eq) (metis le_neq_implies_less)+
  qed
qed

lemma find_at_Some:
  "find_at haystack needle from endOfFile nrm = Some i \<longleftrightarrow>
     block_at haystack needle from endOfFile nrm i \<and> (\<forall>j < i. \<not> block_at haystack needle from endOfFile nrm j)"
proof (cases "length needle \<le> length haystack")
  case False
  then show ?thesis by (auto simp: find_at_def block_at_def)
next
  case True
  let ?stop = "length haystack - length needle"
  let ?start = "if endOfFile then ?stop else from"
  have hit: "from \<le> j \<and> matchAt haystack needle j nrm \<longleftrightarrow> block_at haystack needle from endOfFile nrm j"
    if "?start \<le> j" "j < Suc ?stop" for j
    using that True matchAt_iff [of j needle haystack nrm] by (auto simp: block_at_def split: if_splits)
  have range: "?start \<le> j \<and> j < Suc ?stop" if "block_at haystack needle from endOfFile nrm j" for j
    using that by (auto simp: block_at_def)
  have "find_at haystack needle from endOfFile nrm = Some i \<longleftrightarrow>
      ?start \<le> i \<and> i < Suc ?stop \<and> (from \<le> i \<and> matchAt haystack needle i nrm)
      \<and> (\<forall>j. ?start \<le> j \<and> j < i \<longrightarrow> \<not> (from \<le> j \<and> matchAt haystack needle j nrm))"
    unfolding find_at_def Let_def if_P [OF True] find_upt_Some by (rule refl)
  also have "\<dots> \<longleftrightarrow> block_at haystack needle from endOfFile nrm i \<and> (\<forall>j < i. \<not> block_at haystack needle from endOfFile nrm j)"
    using hit range by (meson less_trans)
  finally show ?thesis .
qed

lemma find_at_None:
  "find_at haystack needle from endOfFile nrm = None \<longleftrightarrow> (\<forall>j. \<not> block_at haystack needle from endOfFile nrm j)"
proof -
  have "find_at haystack needle from endOfFile nrm = Some (LEAST j. block_at haystack needle from endOfFile nrm j)"
    if "block_at haystack needle from endOfFile nrm j" for j
    unfolding find_at_Some using that by (metis LeastI not_less_Least)
  then show ?thesis using find_at_Some [of haystack needle "from" endOfFile nrm] by fastforce
qed

definition match_levels :: "(string \<Rightarrow> string) list" where
  "match_levels = [\<lambda>v. v, trim_end, trim]"

lemma ex_less_3: "(\<exists>l < length match_levels. Q l) \<longleftrightarrow> Q 0 \<or> Q 1 \<or> Q 2"
  by (auto simp: match_levels_def less_Suc_eq numeral_eq_Suc)

text \<open>
  The lines a hunk replaces: the search returns an index exactly when it is the first place,
  from the cursor on and inside the file (at its very end for an end-of-file hunk), where the lines
  agree at some level of strictness (exact, then up to trailing white space, then up to
  surrounding white space), and no place agrees at a stricter level.
\<close>

theorem findSequence_first_strictest:
  assumes "needle \<noteq> []"
  shows "findSequence haystack needle from endOfFile = Some i \<longleftrightarrow>
     (\<exists>l < length match_levels. block_at haystack needle from endOfFile (match_levels ! l) i
        \<and> (\<forall>j < i. \<not> block_at haystack needle from endOfFile (match_levels ! l) j)
        \<and> (\<forall>m < l. \<forall>j. \<not> block_at haystack needle from endOfFile (match_levels ! m) j))"
proof -
  let ?find = "find_at haystack needle from endOfFile"
  have "findSequence haystack needle from endOfFile = Some i \<longleftrightarrow>
      ?find (\<lambda>v. v) = Some i \<or> ?find (\<lambda>v. v) = None \<and> ?find trim_end = Some i
      \<or> ?find (\<lambda>v. v) = None \<and> ?find trim_end = None \<and> ?find trim = Some i"
    using assms by (auto simp: findSequence_def split: option.splits)
  then show ?thesis
    unfolding ex_less_3 find_at_Some find_at_None by (auto simp: match_levels_def less_Suc_eq numeral_eq_Suc)
qed

theorem findSequence_first_strictest_witness:
  "findSequence [''a  '', ''b'', ''a'', ''b''] [''a'', ''b''] 0 False = Some 2
   \<and> (\<exists>l < length match_levels. block_at [''a  '', ''b'', ''a'', ''b''] [''a'', ''b''] 0 False (match_levels ! l) 2
        \<and> (\<forall>j < 2. \<not> block_at [''a  '', ''b'', ''a'', ''b''] [''a'', ''b''] 0 False (match_levels ! l) j)
        \<and> (\<forall>m < l. \<forall>j. \<not> block_at [''a  '', ''b'', ''a'', ''b''] [''a'', ''b''] 0 False (match_levels ! m) j))"
proof -
  have "findSequence [''a  '', ''b'', ''a'', ''b''] [''a'', ''b''] 0 False = Some 2" by code_simp
  with findSequence_first_strictest [of "[''a'', ''b'']" "[''a  '', ''b'', ''a'', ''b'']" 0 False 2] show ?thesis by simp
qed

section \<open>What applying hunks changes\<close>

text \<open>The kept stretches of a file with blocks between them.\<close>

fun weave :: "'a list list \<Rightarrow> 'a list list \<Rightarrow> 'a list" where
  "weave (k # ks) (b # bs) = k @ b @ weave ks bs"
| "weave (k # ks) [] = k"
| "weave [] bs = []"

definition same_trimmed :: "string list \<Rightarrow> string list \<Rightarrow> bool" where
  "same_trimmed xs ys \<longleftrightarrow> map trim xs = map trim ys"

lemma trim_trim_end: "trim (trim_end s) = trim s"
proof (cases "list_all js_space s")
  case True
  have "set (trim_end s) \<subseteq> set s" using set_dropWhileD [of _ js_space "rev s"] by (auto simp: trim_end_def)
  then have "list_all js_space (trim_end s)" using True by (auto simp: list_all_iff)
  with True have "trim_start s = []" "trim_start (trim_end s) = []" by (simp_all add: trim_start_def list_all_iff)
  then show ?thesis by (simp add: trim_def)
next
  case False
  let ?pre = "takeWhile js_space s"
  obtain c u where cu: "dropWhile js_space s = c # u" using False by (cases "dropWhile js_space s") (auto simp: list_all_iff)
  then have c: "\<not> js_space c" by (metis hd_dropWhile list.sel(1) list.discI)
  have s: "s = ?pre @ c # u" using cu by (metis takeWhile_dropWhile_id)
  have snoc: "trim_end (p @ c # u) = p @ c # trim_end u" for p
    using c by (simp add: trim_end_def dropWhile_append)
  have "trim_start (?pre @ c # v) = c # v" for v
    using c by (auto simp: trim_start_def dropWhile_append3 dest: set_takeWhileD)
  then have "trim (trim_end s) = trim_end (c # trim_end u)" "trim s = trim_end (c # u)"
    using s snoc [of ?pre] unfolding trim_def by metis+
  then show ?thesis using c by (simp add: trim_end_Cons) (simp add: trim_end_def)
qed

lemma same_trimmed_level:
  assumes "l < length match_levels" "map (match_levels ! l) xs = map (match_levels ! l) ys"
  shows "same_trimmed xs ys"
proof -
  have "match_levels ! l = (\<lambda>v. v) \<or> match_levels ! l = trim_end \<or> match_levels ! l = trim"
    using assms(1) by (auto simp: match_levels_def less_Suc_eq numeral_eq_Suc)
  then have "trim \<circ> match_levels ! l = trim"
    using trim_trim_end trim_trim by auto
  then show ?thesis using arg_cong [OF assms(2), of "map trim"] unfolding same_trimmed_def map_map by simp
qed

lemma findSequence_block:
  assumes "findSequence haystack needle from endOfFile = Some i" "from \<le> length haystack"
  shows "from \<le> i \<and> i + length needle \<le> length haystack
    \<and> same_trimmed (take (length needle) (drop i haystack)) needle"
proof (cases "needle = []")
  case True
  then show ?thesis using assms by (simp add: findSequence_def same_trimmed_def)
next
  case False
  let ?find = "find_at haystack needle from endOfFile"
  have "\<exists>l < length match_levels. ?find (match_levels ! l) = Some i"
    unfolding ex_less_3 using assms(1) False by (auto simp: findSequence_def match_levels_def numeral_eq_Suc split: option.splits)
  then obtain l where "l < length match_levels" "block_at haystack needle from endOfFile (match_levels ! l) i"
    by (auto simp: find_at_Some)
  then show ?thesis using same_trimmed_level by (auto simp: block_at_def)
qed

lemma apply_loop_step:
  assumes "apply_loop path lines cursor (h # hs) = Inr out" "cursor \<le> length lines"
  obtains i where "cursor \<le> i" "i + length (old_lines h) \<le> length lines"
    "same_trimmed (take (length (old_lines h)) (drop i lines)) (old_lines h)"
    "apply_loop path (take i lines @ new_lines h @ drop (i + length (old_lines h)) lines) (i + length (new_lines h)) hs = Inr out"
proof -
  obtain c where c: "(if truthy (uh_changeContext h)
      then map_option Suc (findSequence lines [the (uh_changeContext h)] cursor False) else Some cursor) = Some c"
    using assms(1) by (auto split: option.splits)
  have "cursor \<le> c \<and> c \<le> length lines"
    using c assms(2) by (auto split: if_splits dest: findSequence_block)
  obtain i where i: "(if uh_endOfFile h \<and> old_lines h = [] then Some (length lines)
      else findSequence lines (old_lines h) c (uh_endOfFile h)) = Some i"
    using assms(1) unfolding apply_loop.simps c option.case by (auto split: option.splits)
  have "c \<le> i \<and> i + length (old_lines h) \<le> length lines
      \<and> same_trimmed (take (length (old_lines h)) (drop i lines)) (old_lines h)"
    using i \<open>cursor \<le> c \<and> c \<le> length lines\<close> findSequence_block
    by (auto simp: same_trimmed_def split: if_splits)
  moreover have "apply_loop path (take i lines @ new_lines h @ drop (i + length (old_lines h)) lines)
      (i + length (new_lines h)) hs = Inr out"
    using assms(1) unfolding apply_loop.simps c option.case i .
  ultimately show ?thesis using that [of i] \<open>cursor \<le> c \<and> c \<le> length lines\<close> by linarith
qed

lemma apply_loop_weave:
  assumes "apply_loop path (pre @ rest) (length pre) hs = Inr out"
  shows "\<exists>ks bs. length ks = Suc (length hs) \<and> list_all2 (\<lambda>b h. same_trimmed b (old_lines h)) bs hs
    \<and> rest = weave ks bs \<and> out = pre @ weave ks (map new_lines hs)"
  using assms
proof (induction hs arbitrary: pre rest)
  case Nil
  then show ?case by (auto intro!: exI [of _ "[rest]"])
next
  case (Cons h hs)
  obtain i where i: "length pre \<le> i" "i + length (old_lines h) \<le> length (pre @ rest)"
    "same_trimmed (take (length (old_lines h)) (drop i (pre @ rest))) (old_lines h)"
    and run: "apply_loop path (take i (pre @ rest) @ new_lines h @ drop (i + length (old_lines h)) (pre @ rest))
      (i + length (new_lines h)) hs = Inr out"
    using apply_loop_step [OF Cons.prems] by auto
  define k b rest' where "k = take (i - length pre) rest" and "b = take (length (old_lines h)) (drop (i - length pre) rest)"
    and "rest' = drop (i - length pre + length (old_lines h)) rest"
  have rest: "rest = k @ b @ rest'"
    unfolding k_def b_def rest'_def by (metis add.commute append_take_drop_id drop_drop)
  have pre: "take i (pre @ rest) @ new_lines h = pre @ k @ new_lines h"
    and post: "drop (i + length (old_lines h)) (pre @ rest) = rest'"
    and len: "i + length (new_lines h) = length (pre @ k @ new_lines h)"
    using i(1,2) by (auto simp: k_def rest'_def)
  have "apply_loop path ((pre @ k @ new_lines h) @ rest') (length (pre @ k @ new_lines h)) hs = Inr out"
    using run pre post len by (metis append_assoc)
  from Cons.IH [OF this] obtain ks bs where kb: "length ks = Suc (length hs)"
    "list_all2 (\<lambda>b h. same_trimmed b (old_lines h)) bs hs"
    "rest' = weave ks bs" "out = (pre @ k @ new_lines h) @ weave ks (map new_lines hs)" by blast
  have "same_trimmed b (old_lines h)" using i(1,3) by (simp add: b_def)
  with kb rest show ?case by (intro exI [of _ "k # ks"] exI [of _ "b # bs"]) simp
qed

text \<open>
  What an update changes: the lines of the file split into kept stretches and one block per hunk,
  in the order of the hunks; each block agrees, up to surrounding white space, with the context and
  removed lines of its hunk; the result is the same stretches with each block replaced by the
  context and added lines of its hunk, ended by a newline, in CRLF when the file had any.
\<close>

theorem applyHunks_replaces_blocks:
  assumes "applyHunks path content hunks = Inr out"
  shows "\<exists>ks bs. length ks = Suc (length hunks) \<and> list_all2 (\<lambda>b h. same_trimmed b (old_lines h)) bs hunks
    \<and> sf_lines (splitFile content) = weave ks bs
    \<and> out = (if has_crlf content then lf_to_crlf else id) (join newline (weave ks (map new_lines hunks)) @ newline)"
proof -
  obtain lines where run: "apply_loop path (sf_lines (splitFile content)) 0 hunks = Inr lines"
    using assms by (auto simp: applyHunks_def Let_def split: sum.splits)
  have "sf_eol (splitFile content) = [cr, lf] \<longleftrightarrow> has_crlf content" by (simp add: splitFile_def Let_def)
  then have out: "out = (if has_crlf content then lf_to_crlf else id) (join newline lines @ newline)"
    using assms run by (auto simp: applyHunks_def Let_def)
  from run apply_loop_weave [of path "[]" "sf_lines (splitFile content)" hunks lines] obtain ks bs where
    "length ks = Suc (length hunks)" "list_all2 (\<lambda>b h. same_trimmed b (old_lines h)) bs hunks"
    "sf_lines (splitFile content) = weave ks bs" "lines = weave ks (map new_lines hunks)" by auto
  then show ?thesis unfolding out by (intro exI [of _ ks] exI [of _ bs]) simp
qed

definition sample_hunks :: "update_hunk list" where
  "sample_hunks =
     [\<lparr>uh_lines = [\<lparr>hl_kind = Context, hl_text = ''b''\<rparr>, \<lparr>hl_kind = Removed, hl_text = ''c''\<rparr>, \<lparr>hl_kind = Added, hl_text = ''x''\<rparr>],
       uh_changeContext = Some ''a'', uh_endOfFile = False\<rparr>,
      \<lparr>uh_lines = [\<lparr>hl_kind = Added, hl_text = ''z''\<rparr>], uh_changeContext = None, uh_endOfFile = True\<rparr>]"

definition sample_content :: string where
  "sample_content = join newline [''c'', ''a'', ''b '', '' c'', ''d'', '''']"

definition sample_updated :: string where
  "sample_updated = join newline [''c'', ''a'', ''b'', ''x'', ''d'', ''z'', '''']"

theorem applyHunks_replaces_blocks_witness:
  "\<exists>ks bs. length ks = Suc (length sample_hunks) \<and> list_all2 (\<lambda>b h. same_trimmed b (old_lines h)) bs sample_hunks
    \<and> sf_lines (splitFile sample_content) = weave ks bs
    \<and> sample_updated = (if has_crlf sample_content then lf_to_crlf else id) (join newline (weave ks (map new_lines sample_hunks)) @ newline)"
proof (rule applyHunks_replaces_blocks)
  show "applyHunks ''f'' sample_content sample_hunks = Inr sample_updated" by code_simp
qed

section \<open>A staged patch and the actions one by one\<close>

text \<open>
  The specification: each action is done on the file system directly, in order, and the first
  error ends the patch.
\<close>

definition spec_update :: "patch_host \<Rightarrow> string \<Rightarrow> string option \<Rightarrow> string \<Rightarrow> text_file \<Rightarrow> string \<Rightarrow> file_system \<Rightarrow> patch_error + file_system" where
  "spec_update host path moveTo absolute file updated fs =
     (let file' = \<lparr>tf_content = updated, tf_mode = tf_mode file\<rparr>
      in if truthy moveTo
         then (case ph_resolve host (the moveTo) of
                 Inl e \<Rightarrow> Inl e
               | Inr destination \<Rightarrow> Inr ((fs(absolute := None))(destination \<mapsto> file')))
         else Inr (fs(absolute \<mapsto> file')))"

definition spec_action :: "patch_host \<Rightarrow> patch_action \<Rightarrow> file_system \<Rightarrow> patch_error + file_system" where
  "spec_action host action fs =
     (case ph_resolve host (action_path action) of
        Inl e \<Rightarrow> Inl e
      | Inr absolute \<Rightarrow>
          (case action of
             AddFile path content \<Rightarrow> Inr (fs(absolute \<mapsto> \<lparr>tf_content = content, tf_mode = Option.bind (fs absolute) tf_mode\<rparr>))
           | DeleteFile path \<Rightarrow>
               (case fs absolute of None \<Rightarrow> Inl (FileMissing path) | Some _ \<Rightarrow> Inr (fs(absolute := None)))
           | UpdateFile path moveTo hunks \<Rightarrow>
               (case fs absolute of
                  None \<Rightarrow> Inl (FileMissing path)
                | Some file \<Rightarrow>
                    (case applyHunks path (tf_content file) hunks of
                       Inl e \<Rightarrow> Inl e
                     | Inr updated \<Rightarrow> spec_update host path moveTo absolute file updated fs))))"

definition spec_patch :: "patch_host \<Rightarrow> string \<Rightarrow> file_system \<Rightarrow> patch_error + file_system" where
  "spec_patch host patch fs =
     (case parsePatch patch of Inl e \<Rightarrow> Inl e | Inr actions \<Rightarrow> run_ops (spec_action host) actions fs)"

text \<open>The file system a stage stands for.\<close>

definition view :: "file_system \<Rightarrow> staged_files \<Rightarrow> file_system" where
  "view fs staged p = (case map_of staged p of Some v \<Rightarrow> v | None \<Rightarrow> fs p)"

text \<open>
  Files that exist can be read as text, and two paths that differ are different files (a
  case-sensitive file system without hard links that differ in case only).
\<close>

definition host_ok :: "patch_host \<Rightarrow> bool" where
  "host_ok host \<longleftrightarrow> (\<forall>p. ph_unreadable host p = None) \<and> (\<forall>a b. isSamePatchFile host a b \<longrightarrow> a = b)"

lemma map_of_replace:
  "map_of (map (\<lambda>(k', v'). (k', if k' = k then v else v')) staged) p
   = (if p = k then map_option (\<lambda>_. v) (map_of staged k) else map_of staged p)"
proof (cases "p = k")
  case True
  then show ?thesis by (induction staged) (simp_all add: case_prod_beta)
next
  case False
  then show ?thesis by (induction staged) (simp_all add: case_prod_beta)
qed

lemma map_of_staged_set: "map_of (staged_set k v staged) = (map_of staged)(k \<mapsto> v)"
proof (cases "k \<in> fst ` set staged")
  case True
  then obtain w where "map_of staged k = Some w" by (metis map_of_eq_None_iff option.exhaust)
  with True show ?thesis by (simp add: staged_set_def fun_eq_iff map_of_replace)
next
  case False
  then have "map_of (staged @ [(k, v)]) p = ((map_of staged)(k \<mapsto> v)) p" for p
    by (induction staged) auto
  with False show ?thesis by (simp add: staged_set_def fun_eq_iff)
qed

lemma map_of_staged_delete: "map_of (staged_delete k staged) = (map_of staged)(k := None)"
  by (induction staged) (auto simp: staged_delete_def fun_eq_iff)

lemma distinct_staged_set: "distinct (map fst staged) \<Longrightarrow> distinct (map fst (staged_set k v staged))"
proof -
  have "map fst (map (\<lambda>(k', v'). (k', if k' = k then v else v')) staged) = map fst staged" by auto
  then show "distinct (map fst staged) \<Longrightarrow> ?thesis" unfolding staged_set_def by (auto simp del: map_map)
qed

lemma distinct_staged_delete: "distinct (map fst staged) \<Longrightarrow> distinct (map fst (staged_delete k staged))"
  by (simp add: staged_delete_def distinct_map_filter)

lemma view_staged_set [simp]: "view fs (staged_set k v staged) = (view fs staged)(k := v)"
  by (auto simp: view_def map_of_staged_set fun_eq_iff)

lemma view_staged_delete: "(view fs (staged_delete k staged))(k := v) = (view fs staged)(k := v)"
  by (auto simp: view_def map_of_staged_delete fun_eq_iff)

lemma readStagedOptional_view:
  assumes "host_ok host" "distinct (map fst staged)"
  obtains staged' where "readStagedOptional host fs k staged = Inr (view fs staged k, staged')"
    "view fs staged' = view fs staged" "distinct (map fst staged')"
proof (cases "map_of staged k")
  case None
  then have v: "view fs staged k = fs k" by (simp add: view_def)
  have "readStagedOptional host fs k staged = Inr (fs k, staged_set k (fs k) staged)"
    using None assms(1) by (cases "fs k") (simp_all add: readStagedOptional_def host_ok_def)
  with v that [of "staged_set k (fs k) staged"] assms(2) show ?thesis
    by (simp add: distinct_staged_set fun_upd_idem)
next
  case (Some f)
  then show ?thesis using that [of staged] assms(2) by (simp add: readStagedOptional_def view_def)
qed

definition stage_inv :: "stage \<Rightarrow> bool" where
  "stage_inv sg \<longleftrightarrow> distinct (map fst (sg_staged sg))"

lemma stage_put_simps [simp]:
  "sg_staged (stage_put absolute file result patch sg) = staged_set absolute file (sg_staged sg)"
  "sg_results (stage_put absolute file result patch sg) = sg_results sg @ [result]"
  by (simp_all add: stage_put_def)

definition reported :: "patch_action \<Rightarrow> applied_file" where
  "reported action =
     (case action of
        AddFile path _ \<Rightarrow> \<lparr>af_path = path, af_previousPath = None, af_operation = OpAdd\<rparr>
      | DeleteFile path \<Rightarrow> \<lparr>af_path = path, af_previousPath = None, af_operation = OpDelete\<rparr>
      | UpdateFile path moveTo _ \<Rightarrow>
          if truthy moveTo then \<lparr>af_path = the moveTo, af_previousPath = Some path, af_operation = OpMove\<rparr>
          else \<lparr>af_path = path, af_previousPath = None, af_operation = OpUpdate\<rparr>)"

text \<open>One staged step against one step of the specification.\<close>

definition step_ok :: "file_system \<Rightarrow> patch_action \<Rightarrow> stage \<Rightarrow> patch_error + file_system \<Rightarrow> patch_error + stage \<Rightarrow> bool" where
  "step_ok fs action sg spec res \<longleftrightarrow>
     (case res of
        Inl e \<Rightarrow> spec = Inl e
      | Inr sg' \<Rightarrow> spec = Inr (view fs (sg_staged sg')) \<and> stage_inv sg' \<and> sg_results sg' = sg_results sg @ [reported action])"

lemma stage_move_ok:
  assumes "host_ok host" "stage_inv sg" "truthy moveTo"
  shows "step_ok fs (UpdateFile path moveTo hunks) sg (spec_update host path moveTo absolute file updated (view fs (sg_staged sg)))
    (stage_move host fs path (the moveTo) absolute file updated sg)"
proof (cases "ph_resolve host (the moveTo)")
  case (Inl e)
  with assms(3) show ?thesis by (simp add: step_ok_def stage_move_def spec_update_def Let_def)
next
  case (Inr dest)
  have dist: "distinct (map fst (sg_staged sg))" using assms(2) by (simp add: stage_inv_def)
  show ?thesis
  proof (cases "isSamePatchFile host absolute dest")
    case True
    then have "dest = absolute" using assms(1) by (auto simp: host_ok_def)
    with True Inr assms(3) dist show ?thesis
      by (simp add: step_ok_def stage_move_def spec_update_def Let_def view_staged_delete stage_inv_def
          distinct_staged_set distinct_staged_delete reported_def)
  next
    case False
    then have ne: "dest \<noteq> absolute" by (auto simp: isSamePatchFile_def)
    obtain staged' where st: "readStagedOptional host fs dest (sg_staged sg) = Inr (view fs (sg_staged sg) dest, staged')"
      "view fs staged' = view fs (sg_staged sg)" "distinct (map fst staged')"
      using readStagedOptional_view [OF assms(1) dist] by metis
    with False Inr assms(3) ne show ?thesis
      by (simp add: step_ok_def stage_move_def spec_update_def Let_def stage_inv_def distinct_staged_set reported_def
          fun_upd_twist)
  qed
qed

lemma stage_action_ok:
  assumes "host_ok host" "stage_inv sg"
  shows "step_ok fs action sg (spec_action host action (view fs (sg_staged sg))) (stage_action host fs action sg)"
proof (cases "ph_resolve host (action_path action)")
  case (Inl e)
  then show ?thesis by (simp add: step_ok_def stage_action_def spec_action_def)
next
  case (Inr absolute)
  have dist: "distinct (map fst (sg_staged sg))" using assms(2) by (simp add: stage_inv_def)
  obtain staged' where st: "readStagedOptional host fs absolute (sg_staged sg) = Inr (view fs (sg_staged sg) absolute, staged')"
    "view fs staged' = view fs (sg_staged sg)" "distinct (map fst staged')"
    using readStagedOptional_view [OF assms(1) dist] by metis
  let ?sg = "sg\<lparr>sg_staged := staged'\<rparr>"
  note [simp] = step_ok_def stage_action_def spec_action_def stage_inv_def distinct_staged_set reported_def stage_existing_def
  show ?thesis
  proof (cases action)
    case (AddFile path content)
    with Inr st show ?thesis by (simp add: Let_def)
  next
    case (DeleteFile path)
    with Inr st show ?thesis by (cases "view fs (sg_staged sg) absolute") (simp_all add: Let_def)
  next
    case (UpdateFile path moveTo hunks)
    show ?thesis
    proof (cases "view fs (sg_staged sg) absolute")
      case None
      with UpdateFile Inr st show ?thesis by (simp add: Let_def)
    next
      case (Some f)
      show ?thesis
      proof (cases "applyHunks path (tf_content f) hunks")
        case (Inl e)
        with UpdateFile Inr st Some show ?thesis by (simp add: Let_def)
      next
        case (Inr updated)
        have "step_ok fs action ?sg (spec_update host path moveTo absolute f updated (view fs (sg_staged ?sg)))
            (stage_move host fs path (the moveTo) absolute f updated ?sg)" if "truthy moveTo"
          using stage_move_ok [OF assms(1) _ that, of ?sg] st(3) UpdateFile by simp
        with UpdateFile Inr st Some \<open>ph_resolve host (action_path action) = Inr absolute\<close> show ?thesis
          by (cases "truthy moveTo") (simp_all add: Let_def spec_update_def split: sum.splits)
      qed
    qed
  qed
qed

interpretation staged_run: run_refinement "\<lambda>(host, fs). host_ok host" stage_inv "\<lambda>(host, fs) sg. view fs (sg_staged sg)"
  "\<lambda>(host, fs). stage_action host fs" "\<lambda>(host, fs). spec_action host"
proof (unfold_locales, goal_cases)
  case (1 env sg action)
  then show ?case
    using stage_action_ok [of "fst env" sg "snd env" action]
    by (auto simp: step_ok_def case_prod_beta split: sum.splits)
next
  case (2 env sg action sg')
  then show ?case
    using stage_action_ok [of "fst env" sg "snd env" action] by (auto simp: step_ok_def case_prod_beta)
qed

lemma stage_actions_run: "stage_actions host fs actions sg = run_ops (stage_action host fs) actions sg"
  by (induction actions arbitrary: sg) (auto split: sum.splits)

lemma stage_actions_results:
  assumes "host_ok host" "stage_inv sg" "stage_actions host fs actions sg = Inr sg'"
  shows "sg_results sg' = sg_results sg @ map reported actions"
  using assms(2,3)
proof (induction actions arbitrary: sg)
  case Nil
  then show ?case by simp
next
  case (Cons action actions)
  then obtain sg1 where "stage_action host fs action sg = Inr sg1" "stage_actions host fs actions sg1 = Inr sg'"
    by (auto split: sum.splits)
  with Cons.IH [of sg1] stage_action_ok [OF assms(1) Cons.prems(1), of fs action] show ?case by (simp add: step_ok_def)
qed

lemma write_staged_ok:
  assumes "\<forall>p. ph_revalidate host p = None" "distinct (map fst staged)"
  shows "write_staged host staged fs
    = (None, \<lambda>p. case map_of staged p of Some (Some f) \<Rightarrow> Some f | _ \<Rightarrow> fs p)"
  using assms(2)
proof (induction staged arbitrary: fs)
  case Nil
  then show ?case by simp
next
  case (Cons kv staged)
  obtain k v where kv: "kv = (k, v)" by fastforce
  with Cons.prems have "map_of staged k = None" by (simp add: map_of_eq_None_iff)
  with Cons kv assms(1) show ?case by (cases v) (auto simp: fun_eq_iff split: option.splits)
qed

lemma remove_staged_ok:
  assumes "\<forall>p. ph_revalidate host p = None"
  shows "remove_staged host staged fs = (None, \<lambda>p. if (p, None) \<in> set staged then None else fs p)"
proof (induction staged arbitrary: fs)
  case Nil
  then show ?case by simp
next
  case (Cons kv staged)
  obtain k v where kv: "kv = (k, v)" by fastforce
  with Cons assms show ?case by (cases v) (auto simp: fun_eq_iff)
qed

lemma commit_view:
  assumes "\<forall>p. ph_revalidate host p = None" "distinct (map fst staged)"
  shows "write_staged host staged fs = (None, fs1) \<Longrightarrow> remove_staged host staged fs1 = (None, view fs staged)"
proof -
  assume "write_staged host staged fs = (None, fs1)"
  then have fs1: "fs1 = (\<lambda>p. case map_of staged p of Some (Some f) \<Rightarrow> Some f | _ \<Rightarrow> fs p)"
    unfolding write_staged_ok [OF assms] by simp
  have "(if (p, None) \<in> set staged then None else fs1 p) = view fs staged p" for p
  proof -
    have "(p, None) \<in> set staged \<longleftrightarrow> map_of staged p = Some None" using assms(2) by (simp add: map_of_eq_Some_iff)
    then show ?thesis unfolding fs1 view_def by (auto split: option.splits)
  qed
  then show "remove_staged host staged fs1 = (None, view fs staged)"
    unfolding remove_staged_ok [OF assms(1)] by (simp add: fun_eq_iff)
qed


definition demo_host :: patch_host where
  "demo_host = \<lparr>ph_resolve = \<lambda>p. Inr (''/w/'' @ p), ph_unreadable = \<lambda>_. None, ph_identity = \<lambda>_. None,
     ph_revalidate = \<lambda>_. None, ph_createTwoFilesPatch = \<lambda>_ _ _ _. []\<rparr>"

definition demo_patch :: string where
  "demo_patch = join newline [''*** Begin Patch'', ''*** Update File: a'', ''*** Move to: b'', ''@@'', ''-x'', ''+y'', ''*** End Patch'']"

definition demo_fs :: file_system where
  "demo_fs = [''/w/a'' \<mapsto> \<lparr>tf_content = ''x'' @ newline, tf_mode = Some 420\<rparr>]"


end
