(* ===== verification/Scheduled_Lifecycle.thy ===== *)
theory Scheduled_Lifecycle
  imports Work_Sessions
begin

text \<open>
  The two pure parts of src/src/scheduling: the mapping from session events to job states of
  scheduled-job-lifecycle.ts, and the bounded counters of bounded-counter-map.ts.

  \<^item> An event payload is a list of JSON fields; a \<open>typeof\<close> test is a match on the constructor.
  \<^item> A JavaScript \<open>Map\<close> is the list of its entries in insertion order.
\<close>

section \<open>Job states and events\<close>

datatype sched_status =
    SPending | SDue | SDispatching | SRunning | SUncertainDispatch | SOperatorIntervention | SReconciling
  | SAwaitingApproval | SCompleted | SBlocked | SFailed | SCancellationRequested | SCancelled

datatype final_outcome = FCompleted | FFailed | FCancelled

datatype execution_outcome = XCompleted | XFailed | XFailedProtocol | XCancelled

record lifecycle_projection =
  lp_nextStatus :: "sched_status option"
  lp_finalWorkerOutcome :: "final_outcome option"
  lp_workerExecutionOutcome :: "execution_outcome option"
  lp_autonomousCompletion :: bool
  lp_lastError :: "string option"
  lp_executionStarted :: bool
  lp_executionPaused :: bool
  lp_executionStopped :: bool

definition no_projection :: lifecycle_projection where
  "no_projection = \<lparr>lp_nextStatus = None, lp_finalWorkerOutcome = None, lp_workerExecutionOutcome = None,
     lp_autonomousCompletion = False, lp_lastError = None, lp_executionStarted = False, lp_executionPaused = False,
     lp_executionStopped = False\<rparr>"

record session_event =
  se_id :: string
  se_seq :: int
  se_sessionId :: "string option"
  se_durable :: bool
  se_type :: string
  se_createdAt :: iso_time
  se_payload :: "(string \<times> json) list"

record cancellation_mark =
  cm_requestedAt :: "iso_time option"
  cm_previousStatus :: "sched_status option"

record attempt_identity =
  ai_dispatchId :: "string option"
  ai_runId :: "string option"
  ai_attemptNumber :: "int option"
  ai_remoteRunId :: "string option"

definition payload_string :: "string \<Rightarrow> session_event \<Rightarrow> string option" where
  "payload_string k e = (case js_get (se_payload e) k of Some (JStr s) \<Rightarrow> Some s | _ \<Rightarrow> None)"

definition payload_number :: "string \<Rightarrow> session_event \<Rightarrow> json option" where
  "payload_number k e =
     (case js_get (se_payload e) k of Some (JInt n) \<Rightarrow> Some (JInt n) | Some (JDec s) \<Rightarrow> Some (JDec s) | _ \<Rightarrow> None)"

text \<open>\<open>!x\<close> for an optional number is false on 0 as well.\<close>

definition num_truthy :: "int option \<Rightarrow> bool" where
  "num_truthy x = (case x of None \<Rightarrow> False | Some n \<Rightarrow> n \<noteq> 0)"

definition ACTIVE_JOB_STATUSES :: "sched_status list" where
  "ACTIVE_JOB_STATUSES =
     [SDispatching, SRunning, SUncertainDispatch, SAwaitingApproval, SCancellationRequested, SOperatorIntervention]"

definition WORKER_STOPPED_EVENTS :: "string list" where
  "WORKER_STOPPED_EVENTS =
     [''agent.run.cancelled'', ''agent.run.completed'', ''agent.run.failed'', ''agent.run.failed_protocol'',
      ''worker.turn.completed'', ''worker.attempt.failed'', ''worker.attempt.exited'']"

definition EXECUTION_STOPPED_EVENTS :: "string list" where
  "EXECUTION_STOPPED_EVENTS =
     [''agent.run.completed'', ''agent.run.approved'', ''agent.run.rejected'', ''agent.run.cancelled'',
      ''agent.run.failed'', ''agent.run.failed_protocol'']"

definition ATTEMPT_BOUND_EVENTS :: "string list" where
  "ATTEMPT_BOUND_EVENTS = WORKER_STOPPED_EVENTS"

definition matchesCurrentAttempt :: "attempt_identity \<Rightarrow> session_event \<Rightarrow> bool" where
  "matchesCurrentAttempt a e \<longleftrightarrow>
     (let bound = se_type e \<in> set ATTEMPT_BOUND_EVENTS;
          eventDispatchId = payload_string ''dispatchId'' e; eventRunId = payload_string ''runId'' e;
          eventAttemptNumber = payload_number ''attemptNumber'' e; eventRemoteRunId = payload_string ''remoteRunId'' e
      in (truthy (ai_dispatchId a) \<or> truthy (ai_runId a) \<or> num_truthy (ai_attemptNumber a) \<or> truthy (ai_remoteRunId a))
         \<and> (\<not> truthy (ai_runId a) \<or> eventRunId = ai_runId a)
         \<and> (\<not> num_truthy (ai_attemptNumber a) \<or> eventAttemptNumber = map_option JInt (ai_attemptNumber a)
            \<or> \<not> bound \<and> eventAttemptNumber = None)
         \<and> (\<not> truthy (ai_dispatchId a) \<or> eventDispatchId = ai_dispatchId a \<or> \<not> bound \<and> \<not> truthy eventDispatchId)
         \<and> (\<not> truthy (ai_remoteRunId a) \<or> eventRemoteRunId = ai_remoteRunId a \<or> \<not> bound \<and> \<not> truthy eventRemoteRunId))"

text \<open>The branches below the cancellation fence, on a job that is not being cancelled.\<close>

definition project_running :: "sched_status \<Rightarrow> session_event \<Rightarrow> lifecycle_projection" where
  "project_running s e =
     (if se_type e = ''review.submitted'' then
        (if s = SRunning \<or> s = SOperatorIntervention
         then no_projection\<lparr>lp_nextStatus := Some SAwaitingApproval, lp_executionPaused := True\<rparr> else no_projection)
      else if se_type e = ''agent.run.started'' then
        (if s = SDispatching then no_projection\<lparr>lp_nextStatus := Some SRunning, lp_executionStarted := True\<rparr>
         else if s \<in> {SRunning, SAwaitingApproval, SUncertainDispatch, SOperatorIntervention}
         then no_projection\<lparr>lp_nextStatus := (if s = SRunning then None else Some SRunning), lp_executionStarted := True\<rparr>
         else no_projection)
      else if se_type e \<in> {''agent.run.completed'', ''worker.turn.completed'', ''worker.attempt.failed'', ''worker.attempt.exited''} then
        no_projection\<lparr>lp_executionPaused := True,
          lp_workerExecutionOutcome := Some (if se_type e \<in> {''worker.attempt.failed'', ''worker.attempt.exited''} then XFailed else XCompleted),
          lp_autonomousCompletion := (se_type e = ''worker.turn.completed'' \<and> js_get (se_payload e) ''autonomousCompletion'' = Some (JBool True))\<rparr>
      else
        (case map_option to_status (workSessionTerminalOutcome (Some (se_type e)) (Some WebuiApprovalRequired)) of
           Some TApproved \<Rightarrow>
             if s = SAwaitingApproval \<or> s = SOperatorIntervention
             then no_projection\<lparr>lp_nextStatus := Some SCompleted, lp_finalWorkerOutcome := Some FCompleted, lp_executionStopped := True\<rparr>
             else no_projection
         | Some TRejected \<Rightarrow>
             if s = SAwaitingApproval \<or> s = SRunning \<or> s = SOperatorIntervention
             then no_projection\<lparr>lp_nextStatus := Some SFailed, lp_finalWorkerOutcome := Some FFailed,
               lp_lastError := Some ''Reviewer rejected the scheduled submission.'', lp_executionStopped := True\<rparr>
             else no_projection
         | Some TFailed \<Rightarrow>
             if s \<in> {SDispatching, SRunning, SAwaitingApproval, SUncertainDispatch, SOperatorIntervention}
             then no_projection\<lparr>lp_nextStatus := Some SFailed, lp_finalWorkerOutcome := Some FFailed,
               lp_workerExecutionOutcome := Some XFailed,
               lp_lastError := Some (''Work session ended with '' @ se_type e @ ''.''), lp_executionStopped := True\<rparr>
             else no_projection
         | Some TFailedProtocol \<Rightarrow>
             if s \<in> {SDispatching, SRunning, SAwaitingApproval, SUncertainDispatch, SOperatorIntervention}
             then no_projection\<lparr>lp_nextStatus := Some SFailed, lp_finalWorkerOutcome := Some FFailed,
               lp_workerExecutionOutcome := Some XFailedProtocol,
               lp_lastError := Some (''Work session ended with '' @ se_type e @ ''.''), lp_executionStopped := True\<rparr>
             else no_projection
         | Some TCancelled \<Rightarrow>
             no_projection\<lparr>lp_nextStatus := Some SCancelled, lp_finalWorkerOutcome := Some FCancelled,
               lp_workerExecutionOutcome := Some XCancelled, lp_lastError := Some ''Scheduled worker cancelled.'', lp_executionStopped := True\<rparr>
         | _ \<Rightarrow>
             if se_type e \<in> set EXECUTION_STOPPED_EVENTS then no_projection\<lparr>lp_executionStopped := True\<rparr> else no_projection))"

definition cancelled_by_stop :: "session_event \<Rightarrow> lifecycle_projection" where
  "cancelled_by_stop e =
     no_projection\<lparr>lp_nextStatus := Some SCancelled, lp_finalWorkerOutcome := Some FCancelled,
       lp_workerExecutionOutcome := Some XCancelled, lp_executionStopped := True,
       lp_lastError := Some (if se_type e = ''agent.run.cancelled'' then ''Scheduled worker cancellation confirmed.''
         else ''Cancellation completed after worker shutdown was confirmed by '' @ se_type e @ ''.'')\<rparr>"

text \<open>The recursive call passes no cancellation, so it is the last one.\<close>

function (sequential) projectScheduledJobLifecycleEvent ::
    "sched_status \<Rightarrow> session_event \<Rightarrow> cancellation_mark option \<Rightarrow> attempt_identity option \<Rightarrow> lifecycle_projection" where
  "projectScheduledJobLifecycleEvent s e cancellation attempt =
     (if s \<notin> set ACTIVE_JOB_STATUSES then no_projection
      else if (case attempt of None \<Rightarrow> False | Some a \<Rightarrow> \<not> matchesCurrentAttempt a e) then no_projection
      else if s = SCancellationRequested then
        (let earlier =
               (case cancellation of
                  None \<Rightarrow> no_projection
                | Some c \<Rightarrow>
                    (case (cm_requestedAt c, cm_previousStatus c) of
                       (Some requestedAt, Some previous) \<Rightarrow>
                         if se_createdAt e < requestedAt then projectScheduledJobLifecycleEvent previous e None attempt
                         else no_projection
                     | _ \<Rightarrow> no_projection))
         in if lp_finalWorkerOutcome earlier \<noteq> None then earlier\<lparr>lp_executionStopped := True\<rparr>
            else if se_type e \<notin> set WORKER_STOPPED_EVENTS then no_projection else cancelled_by_stop e)
      else project_running s e)"
  by pat_completeness auto

termination
  by (relation "measure (\<lambda>(s, e, cancellation, attempt). case cancellation of None \<Rightarrow> 0 | Some _ \<Rightarrow> 1)") auto

declare projectScheduledJobLifecycleEvent.simps [simp del]

section \<open>Bounded counters\<close>

type_synonym counter_map = "(string \<times> (int \<times> int)) list"

definition counter_delete :: "string \<Rightarrow> counter_map \<Rightarrow> counter_map" where
  "counter_delete key entries = filter (\<lambda>(k, _). k \<noteq> key) entries"

definition counter_get :: "string \<Rightarrow> int \<Rightarrow> int \<Rightarrow> counter_map \<Rightarrow> int option \<times> counter_map" where
  "counter_get key now ttlMs entries =
     (case map_of entries key of
        None \<Rightarrow> (None, entries)
      | Some (count, at) \<Rightarrow>
          if now - at > ttlMs then (None, counter_delete key entries)
          else (Some count, counter_delete key entries @ [(key, (count, at))]))"

fun counter_evict :: "nat \<Rightarrow> counter_map \<Rightarrow> counter_map" where
  "counter_evict maxEntries [] = []"
| "counter_evict maxEntries (v # entries) =
     (if length (v # entries) > maxEntries then counter_evict maxEntries entries else v # entries)"

definition counter_set :: "nat \<Rightarrow> string \<Rightarrow> int \<Rightarrow> int \<Rightarrow> counter_map \<Rightarrow> counter_map" where
  "counter_set maxEntries key count at entries = counter_evict maxEntries (counter_delete key entries @ [(key, (count, at))])"

section \<open>Laws of the projection\<close>

lemma no_projection_simps [simp]:
  "lp_nextStatus no_projection = None" "lp_finalWorkerOutcome no_projection = None"
  "lp_workerExecutionOutcome no_projection = None" "lp_autonomousCompletion no_projection = False"
  "lp_executionStarted no_projection = False" "lp_executionPaused no_projection = False"
  "lp_executionStopped no_projection = False" "lp_lastError no_projection = None"
  by (simp_all add: no_projection_def)

lemma project_inactive:
  assumes "s \<notin> set ACTIVE_JOB_STATUSES"
  shows "projectScheduledJobLifecycleEvent s e c a = no_projection"
  using assms by (simp add: projectScheduledJobLifecycleEvent.simps)

lemma project_terminal [simp]:
  "projectScheduledJobLifecycleEvent SCompleted e c a = no_projection"
  "projectScheduledJobLifecycleEvent SFailed e c a = no_projection"
  "projectScheduledJobLifecycleEvent SCancelled e c a = no_projection"
  by (simp_all add: project_inactive ACTIVE_JOB_STATUSES_def)

lemma project_mismatch:
  assumes "\<not> matchesCurrentAttempt a e"
  shows "projectScheduledJobLifecycleEvent s e c (Some a) = no_projection"
  using assms by (simp add: projectScheduledJobLifecycleEvent.simps)

lemma project_other_attempt:
  assumes "se_type e \<in> set WORKER_STOPPED_EVENTS" "ai_attemptNumber a = Some n" "n \<noteq> 0"
    "payload_number ''attemptNumber'' e \<noteq> Some (JInt n)"
  shows "projectScheduledJobLifecycleEvent s e c (Some a) = no_projection"
  by (rule project_mismatch) (use assms in \<open>simp add: matchesCurrentAttempt_def Let_def ATTEMPT_BOUND_EVENTS_def num_truthy_def\<close>)

lemma project_uncancelled:
  assumes "s \<noteq> SCancellationRequested"
  shows "projectScheduledJobLifecycleEvent s e c a = no_projection \<or> projectScheduledJobLifecycleEvent s e c a = project_running s e"
  using assms by (auto simp: projectScheduledJobLifecycleEvent.simps)

definition cancels_later :: "session_event \<Rightarrow> cancellation_mark option \<Rightarrow> sched_status \<Rightarrow> bool" where
  "cancels_later e c previous \<longleftrightarrow>
     (\<exists>m t. c = Some m \<and> cm_requestedAt m = Some t \<and> cm_previousStatus m = Some previous \<and> se_createdAt e < t)"

lemma project_cancelling:
  "projectScheduledJobLifecycleEvent SCancellationRequested e c a = no_projection
   \<or> se_type e \<in> set WORKER_STOPPED_EVENTS \<and> projectScheduledJobLifecycleEvent SCancellationRequested e c a = cancelled_by_stop e
   \<or> (\<exists>previous. cancels_later e c previous \<and> lp_finalWorkerOutcome (projectScheduledJobLifecycleEvent previous e None a) \<noteq> None
        \<and> projectScheduledJobLifecycleEvent SCancellationRequested e c a
            = (projectScheduledJobLifecycleEvent previous e None a)\<lparr>lp_executionStopped := True\<rparr>)"
  (is "?p = _ \<or> _")
proof -
  define earlier where "earlier = (case c of None \<Rightarrow> no_projection
    | Some c \<Rightarrow> (case (cm_requestedAt c, cm_previousStatus c) of
        (Some requestedAt, Some previous) \<Rightarrow>
          if se_createdAt e < requestedAt then projectScheduledJobLifecycleEvent previous e None a else no_projection
      | _ \<Rightarrow> no_projection))"
  have p: "?p = no_projection \<or> ?p = (if lp_finalWorkerOutcome earlier \<noteq> None then earlier\<lparr>lp_executionStopped := True\<rparr>
      else if se_type e \<notin> set WORKER_STOPPED_EVENTS then no_projection else cancelled_by_stop e)"
    unfolding projectScheduledJobLifecycleEvent.simps [of SCancellationRequested] Let_def earlier_def by simp
  have early: "\<exists>previous. cancels_later e c previous \<and> earlier = projectScheduledJobLifecycleEvent previous e None a"
    if "lp_finalWorkerOutcome earlier \<noteq> None"
    using that unfolding earlier_def by (auto simp: cancels_later_def split: option.splits if_splits)
  show ?thesis
  proof (cases "lp_finalWorkerOutcome earlier")
    case None
    with p show ?thesis by (simp split: if_splits) blast
  next
    case (Some out)
    with early obtain previous where "cancels_later e c previous" "earlier = projectScheduledJobLifecycleEvent previous e None a"
      by auto
    with p Some show ?thesis by auto
  qed
qed

lemma project_running_completed:
  assumes "lp_nextStatus (project_running s e) = Some SCompleted"
  shows "se_type e = ''agent.run.approved'' \<and> s \<in> {SAwaitingApproval, SOperatorIntervention}"
  using assms by (auto simp: project_running_def workSessionTerminalOutcome_def split: if_splits)

lemma project_completed:
  assumes "lp_nextStatus (projectScheduledJobLifecycleEvent s e c a) = Some SCompleted"
  shows "se_type e = ''agent.run.approved'' \<and> (s \<in> {SAwaitingApproval, SOperatorIntervention}
    \<or> s = SCancellationRequested \<and> (\<exists>previous \<in> {SAwaitingApproval, SOperatorIntervention}. cancels_later e c previous))"
proof (cases "s = SCancellationRequested")
  case False
  with assms project_running_completed project_uncancelled [OF False] show ?thesis by (metis no_projection_simps(1) option.distinct(1))
next
  case True
  with assms project_cancelling [of e c a] obtain previous where prev: "cancels_later e c previous"
    "lp_nextStatus (projectScheduledJobLifecycleEvent previous e None a) = Some SCompleted"
    by (auto simp: cancelled_by_stop_def)
  have "previous \<noteq> SCancellationRequested"
    using prev(2) project_cancelling [of e None a] by (auto simp: cancels_later_def cancelled_by_stop_def)
  with prev project_running_completed project_uncancelled [of previous e None a] True show ?thesis
    by (metis no_projection_simps(1) option.distinct(1))
qed

section \<open>Laws of the counters\<close>

datatype counter_op = CounterGet string int int | CounterSet string int int

fun counter_step :: "nat \<Rightarrow> counter_map \<Rightarrow> counter_op \<Rightarrow> counter_map" where
  "counter_step m entries (CounterGet key now ttlMs) = snd (counter_get key now ttlMs entries)"
| "counter_step m entries (CounterSet key count at) = counter_set m key count at entries"

lemma counter_evict_drop: "counter_evict m entries = drop (length entries - m) entries"
  by (induction m entries rule: counter_evict.induct) (auto simp: Suc_diff_le)

lemma counter_delete_id: "key \<notin> fst ` set entries \<Longrightarrow> counter_delete key entries = entries"
  by (induction entries) (auto simp: counter_delete_def)

lemma length_counter_delete:
  "distinct (map fst entries) \<Longrightarrow>
   length (counter_delete key entries) = (if key \<in> fst ` set entries then length entries - 1 else length entries)"
proof (induction entries)
  case Nil
  then show ?case by (simp add: counter_delete_def)
next
  case (Cons v entries)
  then show ?case using counter_delete_id [of key entries]
    by (cases v; cases entries) (auto simp: counter_delete_def split: if_splits)
qed

lemma distinct_counter_delete_snoc:
  "distinct (map fst entries) \<Longrightarrow> distinct (map fst (counter_delete key entries @ [(key, x)]))"
  by (auto simp: counter_delete_def distinct_map_filter)

lemma counter_set_lru:
  assumes "0 < m" "length entries \<le> m" "distinct (map fst entries)"
  shows "counter_set m key count at entries
    = (if key \<in> fst ` set entries \<or> length entries < m then counter_delete key entries else tl entries) @ [(key, (count, at))]"
proof (cases "key \<in> fst ` set entries")
  case True
  then have "0 < length entries" by auto
  with True assms length_counter_delete [OF assms(3), of key] show ?thesis
    by (simp add: counter_set_def counter_evict_drop)
next
  case False
  note fresh = False
  show ?thesis
  proof (cases "length entries < m")
    case True
    with fresh show ?thesis by (simp add: counter_set_def counter_evict_drop counter_delete_id)
  next
    case False
    then have "length entries = m" using assms(2) by simp
    with fresh assms(1) show ?thesis
      by (simp add: counter_set_def counter_evict_drop counter_delete_id drop_Suc tl_append2 split: list.splits)
  qed
qed

lemma counter_step_inv:
  assumes "0 < m" "length entries \<le> m" "distinct (map fst entries)"
  shows "length (counter_step m entries x) \<le> m \<and> distinct (map fst (counter_step m entries x))"
proof (cases x)
  case (CounterGet key now ttlMs)
  have "key \<in> fst ` set entries" if "map_of entries key = Some v" for v
    using that by (metis map_of_eq_None_iff option.distinct(1))
  with CounterGet assms length_counter_delete [OF assms(3), of key] distinct_counter_delete_snoc [OF assms(3), of key]
  show ?thesis by (auto simp: counter_get_def counter_delete_def distinct_map_filter split: option.splits)
next
  case (CounterSet key count at)
  have "Suc (length entries - 1) = length entries" if "key \<in> fst ` set entries" using that by (cases entries) auto
  moreover have "length (tl entries) < m" if "\<not> length entries < m" using assms(1,2) by (cases entries) auto
  moreover have "distinct (map fst (tl entries @ [(key, (count, at))]))" if "key \<notin> fst ` set entries"
    using that assms(3) by (cases entries) auto
  ultimately show ?thesis
    using CounterSet counter_set_lru [OF assms, of key count at] length_counter_delete [OF assms(3), of key]
      distinct_counter_delete_snoc [OF assms(3), of key "(count, at)"] assms(2)
    by (auto split: if_splits)
qed

text \<open>
  The recurrence counters stay within their bound: after any sequence of reads and writes there
  are at most \<open>maxEntries\<close> counters with one entry per key, and a write that finds the map full with
  a new key drops exactly the entry that was read or written longest ago.
\<close>

theorem bounded_counters_lru:
  assumes "0 < maxEntries"
  shows "let entries = foldl (counter_step maxEntries) [] ops
    in length entries \<le> maxEntries \<and> distinct (map fst entries)
      \<and> counter_set maxEntries key count at entries
        = (if key \<in> fst ` set entries \<or> length entries < maxEntries then counter_delete key entries else tl entries)
          @ [(key, (count, at))]"
proof -
  have "length (foldl (counter_step maxEntries) vs ops) \<le> maxEntries \<and> distinct (map fst (foldl (counter_step maxEntries) vs ops))"
    if "length vs \<le> maxEntries" "distinct (map fst vs)" for vs
    using that
  proof (induction ops arbitrary: vs)
    case Nil
    then show ?case by simp
  next
    case (Cons x ops)
    then show ?case using counter_step_inv [OF assms Cons.prems, of x] by simp
  qed
  from this [of "[]"] counter_set_lru [OF assms] show ?thesis by (simp add: Let_def)
qed

theorem bounded_counters_lru_witness:
  "let entries = foldl (counter_step 2) [] [CounterSet ''a'' 1 0, CounterSet ''b'' 1 1, CounterGet ''a'' 2 10]
    in length entries \<le> 2 \<and> distinct (map fst entries)
      \<and> counter_set 2 ''c'' 5 3 entries
        = (if ''c'' \<in> fst ` set entries \<or> length entries < 2 then counter_delete ''c'' entries else tl entries) @ [(''c'', (5, 3))]"
  by (rule bounded_counters_lru) simp

end
