(* ===== verification/Scheduled_Jobs.thy ===== *)
theory Scheduled_Jobs
  imports Dispatch_Outbox Scheduled_Lifecycle
begin

text \<open>
  The scheduled job store of src/src/scheduling/scheduled-job-store.ts: creation with the outbox
  wake-up, dispatch claims and their outcomes, reconciliation, the projection of session events,
  worker reports, cancellation and the bindings of sessions and runs.

  \<^item> A job row keeps the columns that are never updated in \<open>job_request\<close>; a JSON column is its
    parsed value. An attempt row groups its columns by what writes them.
  \<^item> An operation returns its result or error and the database after it; a transaction that throws
    leaves the database as it was. Random ids and the clock are arguments.
  \<^item> A run time is a text with what it reads: the wall clock in milliseconds and the offset in
    minutes. The order of two such texts is the order of the readings, \<open>Date.parse\<close> subtracts the
    offset.
  \<^item> \<open>sched_env\<close> holds SHA-256 and the pattern replacements of \<open>redactString\<close> (src/src/redaction.ts).
\<close>

section \<open>Rows\<close>

record sched_time =
  st_text :: string
  st_local :: int
  st_offset :: int

definition date_parse :: "sched_time \<Rightarrow> iso_time" where
  "date_parse t = st_local t - st_offset t * 60000"

datatype dispatch_target = DirectAcp | PeerPull string

record job_request =
  jq_principalId :: string
  jq_ownerContextId :: string
  jq_projectId :: string
  jq_workspaceRoot :: string
  jq_runAt :: sched_time
  jq_instruction :: json
  jq_executionMode :: string
  jq_policySnapshot :: json
  jq_agentName :: "string option"
  jq_dispatchTarget :: string
  jq_dispatchPeerId :: "string option"
  jq_maxRuntimeMs :: int
  jq_clientMutationId :: "string option"
  jq_requestFingerprint :: string

record cancellation_cols =
  cc_requestId :: "string option"
  cc_previousStatus :: "sched_status option"
  cc_requestedAt :: "iso_time option"
  cc_lastAttemptAt :: "iso_time option"
  cc_lastConfirmedState :: "string option"

record dispatch_cols =
  dc_retryCount :: int
  dc_nextEligibleAt :: "iso_time option"
  dc_lastAttemptedAgent :: "string option"
  dc_blockerKind :: "string option"

record stamp_cols =
  sc_terminalAt :: "iso_time option"
  sc_blockedAt :: "iso_time option"
  sc_operatorInterventionAt :: "iso_time option"
  sc_lastStateChangedAt :: "iso_time option"

record sched_job =
  sj_id :: string
  sj_request :: job_request
  sj_status :: sched_status
  sj_revision :: int
  sj_workSessionId :: "string option"
  sj_lifecycleEventCursor :: int
  sj_cancellation :: cancellation_cols
  sj_activeDispatchAttemptId :: "string option"
  sj_dispatch :: dispatch_cols
  sj_lastError :: "string option"
  sj_createdAt :: iso_time
  sj_updatedAt :: iso_time
  sj_stamps :: stamp_cols

record execution_cols =
  ex_executionStartedAt :: "iso_time option"
  ex_executionActiveSince :: "iso_time option"
  ex_activeRuntimeMs :: int
  ex_executionStoppedAt :: "iso_time option"
  ex_workerExecutionOutcome :: "execution_outcome option"
  ex_workerExecutionAt :: "iso_time option"

record acp_cols =
  ap_runId :: "string option"
  ap_dispatchId :: "string option"
  ap_attemptNumber :: "int option"
  ap_remoteRunId :: "string option"

record failure_cols =
  fc_class :: "string option"
  fc_reason :: "string option"
  fc_probeResult :: "string option"
  fc_nextEligibleAt :: "iso_time option"

record probe_cols =
  pc_count :: nat
  pc_nextReconcileAt :: "iso_time option"
  pc_lastEvidence :: "string option"

record sched_attempt =
  sa_id :: string
  sa_jobId :: string
  sa_dispatchId :: string
  sa_startedAt :: iso_time
  sa_execution :: execution_cols
  sa_executionReceipt :: "string option"
  sa_publicationReceipts :: "json list option"
  sa_probe :: probe_cols
  sa_completedAt :: "iso_time option"
  sa_transportStatus :: string
  sa_dispatcherInstanceId :: "string option"
  sa_leaseExpiresAt :: "iso_time option"
  sa_agentName :: "string option"
  sa_acp :: acp_cols
  sa_failure :: failure_cols
  sa_outcome :: "string option"

record sched_report =
  rp_id :: string
  rp_jobId :: string
  rp_runId :: string
  rp_reportSha256 :: string
  rp_reportText :: string
  rp_createdAt :: iso_time

record report_finalization =
  rf_id :: string
  rf_jobId :: string
  rf_runId :: string
  rf_attemptNumber :: int
  rf_eventId :: string
  rf_status :: string
  rf_reportText :: "string option"
  rf_reportSha256 :: "string option"
  rf_lastError :: "string option"
  rf_createdAt :: iso_time
  rf_updatedAt :: iso_time

record sched_db =
  sd_jobs :: "sched_job table"
  sd_attempts :: "sched_attempt table"
  sd_reports :: "sched_report table"
  sd_finalizations :: "report_finalization table"
  sd_outbox :: outbox

record sched_input =
  si_principalId :: string
  si_ownerContextId :: string
  si_projectId :: string
  si_workspaceRoot :: string
  si_runAt :: sched_time
  si_instruction :: json
  si_executionMode :: string
  si_policySnapshot :: json
  si_agentName :: "string option"
  si_dispatchTarget :: "dispatch_target option"
  si_workSessionId :: "string option"
  si_maxRuntimeMs :: int
  si_clientMutationId :: "string option"

record sched_env =
  sv_redactString :: "string \<Rightarrow> string"
  sv_sha256 :: "string \<Rightarrow> string"

datatype sched_error =
    InvalidRequest
  | InvalidDispatchTarget string
  | SqliteConstraint
  | OutboxFailed outbox_error
  | NotReadBack
  | MutationIdReused
  | UnknownJob string
  | ClaimConflict string
  | ReleaseConflict string string
  | RetryConflict string
  | CompletionConflict string string
  | ReconciliationConflict string string
  | ProjectionConflict string int
  | AlreadyTerminal string sched_status
  | CancellationConflict string
  | EvidenceConflict string
  | CancellationNotConfirmed string
  | CancellationStateRefused
  | TransitionConflict string
  | ReportNeedsRun
  | ReportTooLarge
  | ReportChanged
  | BindingConflict string string
  | InvalidAttemptIdentity
  | AttemptAlreadyBound string

definition redactedPreview :: "sched_env \<Rightarrow> string \<Rightarrow> nat \<Rightarrow> string" where
  "redactedPreview env s maxLength =
     (let redacted = sv_redactString env s
      in if length redacted > maxLength then take (maxLength - 3) redacted @ ''...'' else redacted)"

type_synonym 'a sched_result = "(sched_error + 'a) \<times> sched_db"

section \<open>Reads\<close>

definition find_job :: "string \<Rightarrow> sched_db \<Rightarrow> sched_job option" where
  "find_job jobId db = find (\<lambda>j. sj_id j = jobId) (sd_jobs db)"

definition find_attempt :: "string \<Rightarrow> sched_db \<Rightarrow> sched_attempt option" where
  "find_attempt attemptId db = find (\<lambda>a. sa_id a = attemptId) (sd_attempts db)"

definition rowToJob :: "sched_job \<Rightarrow> sched_error + sched_job" where
  "rowToJob row =
     (if jq_dispatchTarget (sj_request row) = ''direct_acp'' then Inr row
      else if jq_dispatchTarget (sj_request row) = ''peer_pull'' \<and> truthy (jq_dispatchPeerId (sj_request row)) then Inr row
      else Inl (InvalidDispatchTarget (sj_id row)))"

definition sched_get :: "string \<Rightarrow> sched_db \<Rightarrow> sched_error + sched_job option" where
  "sched_get jobId db =
     (case find_job jobId db of None \<Rightarrow> Inr None | Some row \<Rightarrow> (case rowToJob row of Inl e \<Rightarrow> Inl e | Inr j \<Rightarrow> Inr (Some j)))"

definition read_back :: "string \<Rightarrow> sched_error \<Rightarrow> sched_db \<Rightarrow> sched_job sched_result" where
  "read_back jobId missing db =
     ((case find_job jobId db of None \<Rightarrow> Inl missing | Some row \<Rightarrow> rowToJob row), db)"

definition clamp_limit :: "int \<Rightarrow> int \<Rightarrow> nat" where
  "clamp_limit most limit = nat (max 1 (min most limit))"

definition list_jobs :: "(sched_job \<Rightarrow> bool) \<Rightarrow> int \<Rightarrow> int \<Rightarrow> string \<Rightarrow> sched_db \<Rightarrow> sched_job list" where
  "list_jobs P most limit afterJobId db =
     take (clamp_limit most limit) (order_asc sj_id (filter (\<lambda>j. P j \<and> afterJobId < sj_id j) (sd_jobs db)))"

definition listForOwner :: "string \<Rightarrow> int \<Rightarrow> string \<Rightarrow> sched_db \<Rightarrow> sched_job list" where
  "listForOwner ownerContextId = list_jobs (\<lambda>j. jq_ownerContextId (sj_request j) = ownerContextId) 200"

definition listForPrincipal :: "string \<Rightarrow> int \<Rightarrow> string \<Rightarrow> sched_db \<Rightarrow> sched_job list" where
  "listForPrincipal principalId = list_jobs (\<lambda>j. jq_principalId (sj_request j) = principalId) 200"

definition listCancellationTargets :: "int \<Rightarrow> string \<Rightarrow> sched_db \<Rightarrow> sched_job list" where
  "listCancellationTargets = list_jobs (\<lambda>j. sj_status j = SCancellationRequested) 500"

definition listProjectionTargets :: "int \<Rightarrow> string \<Rightarrow> sched_db \<Rightarrow> sched_job list" where
  "listProjectionTargets =
     list_jobs (\<lambda>j. sj_status j \<in> {SRunning, SUncertainDispatch, SAwaitingApproval, SCancellationRequested, SOperatorIntervention}
       \<and> sj_workSessionId j \<noteq> None) 500"

definition getAttempt :: "string \<Rightarrow> string option \<Rightarrow> sched_db \<Rightarrow> sched_attempt option" where
  "getAttempt jobId attemptId db =
     (if truthy attemptId then find (\<lambda>a. sa_jobId a = jobId \<and> sa_id a = the attemptId) (sd_attempts db)
      else first_row (order_desc (\<lambda>a. (sa_startedAt a, sa_id a)) (filter (\<lambda>a. sa_jobId a = jobId) (sd_attempts db))))"

section \<open>Creation\<close>

definition stateTimestampFields :: "sched_status \<Rightarrow> sched_status option \<Rightarrow> iso_time \<Rightarrow> stamp_cols \<Rightarrow> stamp_cols" where
  "stateTimestampFields next previous now s =
     (if Some next = previous then s
      else s\<lparr>sc_lastStateChangedAt := Some now,
             sc_blockedAt := (if next = SBlocked then Some now else sc_blockedAt s),
             sc_operatorInterventionAt := (if next = SOperatorIntervention then Some now else sc_operatorInterventionAt s),
             sc_terminalAt := (if next \<in> {SCompleted, SFailed, SCancelled} then Some (coalesce (sc_terminalAt s) now) else sc_terminalAt s)\<rparr>)"

definition stamped :: "sched_status \<Rightarrow> sched_status option \<Rightarrow> iso_time \<Rightarrow> sched_job \<Rightarrow> sched_job" where
  "stamped next previous now j = j\<lparr>sj_stamps := stateTimestampFields next previous now (sj_stamps j)\<rparr>"

definition canonicalRequest :: "sched_input \<Rightarrow> (string \<times> json) list" where
  "canonicalRequest i =
     [(''agentName'', case si_agentName i of None \<Rightarrow> JNull | Some a \<Rightarrow> JStr a),
      (''dispatchTarget'', case coalesce (si_dispatchTarget i) DirectAcp of
         DirectAcp \<Rightarrow> JObj [(''kind'', JStr ''direct_acp'')]
       | PeerPull p \<Rightarrow> JObj [(''kind'', JStr ''peer_pull''), (''peerId'', JStr p)]),
      (''executionMode'', JStr (si_executionMode i)), (''instructionJson'', si_instruction i), (''maxRuntimeMs'', JInt (si_maxRuntimeMs i)),
      (''ownerContextId'', JStr (si_ownerContextId i)), (''policySnapshotJson'', si_policySnapshot i),
      (''principalId'', JStr (si_principalId i)), (''projectId'', JStr (si_projectId i)), (''runAt'', JStr (st_text (si_runAt i))),
      (''workspaceRoot'', JStr (si_workspaceRoot i))]"

definition canonicalFingerprint :: "sched_env \<Rightarrow> (string \<times> json) list \<Rightarrow> string" where
  "canonicalFingerprint env fs = sv_sha256 env (json_stringify (JObj fs))"

text \<open>\<open>z.string().trim().min(1).max(n)\<close>: the trimmed text, or the failure.\<close>

definition nonEmptyString :: "nat \<Rightarrow> string \<Rightarrow> string option" where
  "nonEmptyString most s = (if 1 \<le> length (trim s) \<and> length (trim s) \<le> most then Some (trim s) else None)"

definition is_object :: "json \<Rightarrow> bool" where
  "is_object j = (case j of JObj _ \<Rightarrow> True | _ \<Rightarrow> False)"

definition scheduledJobRequestSchema :: "sched_env \<Rightarrow> sched_input \<Rightarrow> job_request option" where
  "scheduledJobRequestSchema env i =
     (case (nonEmptyString 1024 (si_principalId i), nonEmptyString 1024 (si_ownerContextId i), nonEmptyString 1024 (si_projectId i),
            nonEmptyString 1024 (si_workspaceRoot i),
            (case coalesce (si_dispatchTarget i) DirectAcp of
               DirectAcp \<Rightarrow> Some (''direct_acp'', None)
             | PeerPull p \<Rightarrow> map_option (\<lambda>p. (''peer_pull'', Some p)) (nonEmptyString 64 p))) of
        (Some principalId, Some owner, Some project, Some root, Some (target, peer)) \<Rightarrow>
          if is_object (si_instruction i) \<and> is_object (si_policySnapshot i)
             \<and> si_executionMode i \<in> {''read_only_audit'', ''bounded_file_write''}
             \<and> 1000 \<le> si_maxRuntimeMs i \<and> si_maxRuntimeMs i \<le> 24 * 60 * 60 * 1000
          then Some \<lparr>jq_principalId = principalId, jq_ownerContextId = owner, jq_projectId = project, jq_workspaceRoot = root,
                 jq_runAt = si_runAt i, jq_instruction = si_instruction i, jq_executionMode = si_executionMode i,
                 jq_policySnapshot = si_policySnapshot i, jq_agentName = si_agentName i, jq_dispatchTarget = target,
                 jq_dispatchPeerId = peer, jq_maxRuntimeMs = si_maxRuntimeMs i, jq_clientMutationId = si_clientMutationId i,
                 jq_requestFingerprint = (if truthy (si_clientMutationId i) then canonicalFingerprint env (canonicalRequest i) else ''{}'')\<rparr>
          else None
      | _ \<Rightarrow> None)"

definition new_job :: "string \<Rightarrow> iso_time \<Rightarrow> job_request \<Rightarrow> string option \<Rightarrow> sched_job" where
  "new_job jobId now request workSessionId =
     \<lparr>sj_id = jobId, sj_request = request, sj_status = SPending, sj_revision = 1, sj_workSessionId = workSessionId,
      sj_lifecycleEventCursor = 0,
      sj_cancellation = \<lparr>cc_requestId = None, cc_previousStatus = None, cc_requestedAt = None, cc_lastAttemptAt = None, cc_lastConfirmedState = None\<rparr>,
      sj_activeDispatchAttemptId = None,
      sj_dispatch = \<lparr>dc_retryCount = 0, dc_nextEligibleAt = None, dc_lastAttemptedAgent = None, dc_blockerKind = None\<rparr>,
      sj_lastError = None, sj_createdAt = now, sj_updatedAt = now,
      sj_stamps = \<lparr>sc_terminalAt = None, sc_blockedAt = None, sc_operatorInterventionAt = None, sc_lastStateChangedAt = Some now\<rparr>\<rparr>"

definition due_event :: "string \<Rightarrow> int \<Rightarrow> iso_time \<Rightarrow> (string \<times> json) list \<Rightarrow> enqueue_input" where
  "due_event jobId revision availableAt extra =
     \<lparr>ei_eventType = ''scheduled_job.due'', ei_aggregateId = jobId, ei_aggregateRevision = Some revision,
      ei_payload = Some ([(''scheduledJobId'', JStr jobId), (''revision'', JInt revision)] @ extra),
      ei_availableAt = Some availableAt\<rparr>"

text \<open>The primary key and the unique index over principal and client mutation id.\<close>

definition insert_allowed :: "sched_job \<Rightarrow> sched_job table \<Rightarrow> bool" where
  "insert_allowed job t \<longleftrightarrow>
     sj_id job \<notin> sj_id ` set t
     \<and> (jq_clientMutationId (sj_request job) = None
        \<or> list_all (\<lambda>j. jq_principalId (sj_request j) \<noteq> jq_principalId (sj_request job)
                       \<or> jq_clientMutationId (sj_request j) \<noteq> jq_clientMutationId (sj_request job)) t)"

definition commitJob :: "sched_env \<Rightarrow> string \<Rightarrow> string \<Rightarrow> iso_time \<Rightarrow> sched_input \<Rightarrow> sched_db \<Rightarrow> sched_job sched_result" where
  "commitJob env uuid outUuid now input db =
     (case scheduledJobRequestSchema env input of
        None \<Rightarrow> (Inl InvalidRequest, db)
      | Some request \<Rightarrow>
          (let jobId = ''sched_'' @ uuid; job = new_job jobId now request (si_workSessionId input)
           in if \<not> insert_allowed job (sd_jobs db) then (Inl SqliteConstraint, db)
              else (case enqueue (due_event jobId 1 (st_local (jq_runAt request)) []) now outUuid (sd_outbox db) of
                      Inl e \<Rightarrow> (Inl (OutboxFailed e), db)
                    | Inr (outbox, _) \<Rightarrow>
                        read_back jobId NotReadBack (db\<lparr>sd_jobs := sd_jobs db @ [job], sd_outbox := outbox\<rparr>))))"

definition sched_create :: "sched_env \<Rightarrow> string \<Rightarrow> string \<Rightarrow> iso_time \<Rightarrow> sched_input \<Rightarrow> sched_db \<Rightarrow> sched_job sched_result" where
  "sched_create env uuid outUuid now input db =
     (case (if truthy (si_clientMutationId input)
            then find (\<lambda>j. jq_principalId (sj_request j) = si_principalId input
                         \<and> jq_clientMutationId (sj_request j) = si_clientMutationId input) (sd_jobs db)
            else None) of
        Some prior \<Rightarrow>
          if jq_requestFingerprint (sj_request prior) = canonicalFingerprint env (canonicalRequest input) then (rowToJob prior, db)
          else (Inl MutationIdReused, db)
      | None \<Rightarrow> commitJob env uuid outUuid now input db)"

section \<open>Dispatch\<close>

definition new_attempt :: "string \<Rightarrow> string \<Rightarrow> string \<Rightarrow> iso_time \<Rightarrow> string \<Rightarrow> iso_time \<Rightarrow> sched_attempt" where
  "new_attempt attemptId jobId dispatchId now dispatcher leaseExpiresAt =
     \<lparr>sa_id = attemptId, sa_jobId = jobId, sa_dispatchId = dispatchId, sa_startedAt = now,
      sa_execution = \<lparr>ex_executionStartedAt = None, ex_executionActiveSince = None, ex_activeRuntimeMs = 0, ex_executionStoppedAt = None,
        ex_workerExecutionOutcome = None, ex_workerExecutionAt = None\<rparr>,
      sa_executionReceipt = None, sa_publicationReceipts = None,
      sa_probe = \<lparr>pc_count = 0, pc_nextReconcileAt = None, pc_lastEvidence = None\<rparr>,
      sa_completedAt = None, sa_transportStatus = ''dispatching'', sa_dispatcherInstanceId = Some dispatcher,
      sa_leaseExpiresAt = Some leaseExpiresAt, sa_agentName = None,
      sa_acp = \<lparr>ap_runId = None, ap_dispatchId = None, ap_attemptNumber = None, ap_remoteRunId = None\<rparr>,
      sa_failure = \<lparr>fc_class = None, fc_reason = None, fc_probeResult = None, fc_nextEligibleAt = None\<rparr>,
      sa_outcome = None\<rparr>"

record dispatch_claim =
  dl_jobId :: string
  dl_attemptId :: string
  dl_dispatchId :: string
  dl_leaseExpiresAt :: iso_time
  dl_revision :: int

definition claim_matches :: "string \<Rightarrow> int \<Rightarrow> sched_job \<Rightarrow> bool" where
  "claim_matches jobId expectedRevision j \<longleftrightarrow> sj_id j = jobId \<and> sj_revision j = expectedRevision \<and> sj_status j = SDue"

definition claim_update :: "int \<Rightarrow> string \<Rightarrow> iso_time \<Rightarrow> sched_job \<Rightarrow> sched_job" where
  "claim_update expectedRevision attemptId now j =
     stamped SDispatching (Some SDue) now
       (j\<lparr>sj_status := SDispatching, sj_revision := expectedRevision + 1, sj_activeDispatchAttemptId := Some attemptId, sj_updatedAt := now\<rparr>)"

definition claimDispatch ::
    "string \<Rightarrow> string \<Rightarrow> iso_time \<Rightarrow> string \<Rightarrow> int \<Rightarrow> string option \<Rightarrow> string \<Rightarrow> int option \<Rightarrow> sched_db \<Rightarrow> dispatch_claim sched_result" where
  "claimDispatch uuid dispatchUuid now jobId expectedRevision dispatchAttemptId dispatcher leaseMs db =
     (let leaseExpiresAt = now + coalesce leaseMs 60000; attemptId = coalesce dispatchAttemptId (''scha_'' @ uuid);
          dispatchId = ''disp_'' @ dispatchUuid; P = claim_matches jobId expectedRevision
      in if sql_changes P (sd_jobs db) \<noteq> 1 then (Inl (ClaimConflict jobId), db)
         else if attemptId \<in> sa_id ` set (sd_attempts db) then (Inl SqliteConstraint, db)
         else let db' = db\<lparr>sd_jobs := sql_update P (claim_update expectedRevision attemptId now) (sd_jobs db),
                           sd_attempts := sd_attempts db @ [new_attempt attemptId jobId dispatchId now dispatcher leaseExpiresAt]\<rparr>
              in case find_job jobId db' of
                   None \<Rightarrow> (Inl NotReadBack, db)
                 | Some row \<Rightarrow>
                     (Inr \<lparr>dl_jobId = jobId, dl_attemptId = attemptId, dl_dispatchId = dispatchId,
                           dl_leaseExpiresAt = leaseExpiresAt, dl_revision = sj_revision row\<rparr>, db'))"

record dispatch_blocker =
  db_kind :: string
  db_reason :: string
  db_nextEligibleAt :: "iso_time option"
  db_lastAttemptedAgent :: "string option"
  db_failureClass :: "string option"
  db_probeResult :: "json option"

definition cancellation_pending :: "sched_job \<Rightarrow> bool" where
  "cancellation_pending j \<longleftrightarrow> sj_status j = SCancellationRequested \<and> truthy (cc_requestId (sj_cancellation j))"

definition confirm_state :: "string \<Rightarrow> sched_job \<Rightarrow> sched_job" where
  "confirm_state state j = j\<lparr>sj_cancellation := (sj_cancellation j)\<lparr>cc_lastConfirmedState := Some state\<rparr>\<rparr>"

definition set_blocker :: "sched_env \<Rightarrow> dispatch_blocker \<Rightarrow> sched_job \<Rightarrow> sched_job" where
  "set_blocker env b j =
     j\<lparr>sj_dispatch :=
          \<lparr>dc_retryCount = (if db_kind b = ''temporary_dependency'' then dc_retryCount (sj_dispatch j) + 1 else dc_retryCount (sj_dispatch j)),
           dc_nextEligibleAt = (if db_kind b = ''temporary_dependency'' then db_nextEligibleAt b else None),
           dc_lastAttemptedAgent = db_lastAttemptedAgent b, dc_blockerKind = Some (db_kind b)\<rparr>,
       sj_lastError := Some (redactedPreview env (db_reason b) 1000)\<rparr>"

definition release_status :: "dispatch_blocker option \<Rightarrow> sched_job \<Rightarrow> sched_status" where
  "release_status blocker current =
     (if cancellation_pending current then SCancellationRequested
      else if map_option db_kind blocker = Some ''permanent_configuration'' then SBlocked else SDue)"

definition release_update :: "sched_env \<Rightarrow> iso_time \<Rightarrow> dispatch_blocker option \<Rightarrow> sched_job \<Rightarrow> sched_job \<Rightarrow> sched_job" where
  "release_update env now blocker current j =
     (let j1 = j\<lparr>sj_status := release_status blocker current, sj_revision := sj_revision current + 1, sj_activeDispatchAttemptId := None\<rparr>;
          j2 = (case blocker of None \<Rightarrow> j1 | Some b \<Rightarrow> set_blocker env b j1);
          j3 = (if cancellation_pending current then confirm_state ''not_dispatched'' j2 else j2)
      in stamped (release_status blocker current) (Some (sj_status current)) now (j3\<lparr>sj_updatedAt := now\<rparr>))"

definition attempt_open :: "string \<Rightarrow> string \<Rightarrow> sched_attempt \<Rightarrow> bool" where
  "attempt_open attemptId jobId a \<longleftrightarrow> sa_id a = attemptId \<and> sa_jobId a = jobId \<and> sa_completedAt a = None"

definition release_attempt :: "sched_env \<Rightarrow> iso_time \<Rightarrow> dispatch_blocker option \<Rightarrow> sched_attempt \<Rightarrow> sched_attempt" where
  "release_attempt env now blocker a =
     a\<lparr>sa_completedAt := Some now, sa_transportStatus := ''unstarted'', sa_outcome := None,
       sa_agentName := Option.bind blocker db_lastAttemptedAgent,
       sa_failure :=
         \<lparr>fc_class = Some (case blocker of None \<Rightarrow> ''released_unstarted'' | Some b \<Rightarrow> coalesce (db_failureClass b) (db_kind b)),
          fc_reason = Some (redactedPreview env
            (case blocker of None \<Rightarrow> ''Dispatch claim was released before a worker started.'' | Some b \<Rightarrow> db_reason b) 1000),
          fc_probeResult = map_option (\<lambda>p. take 4000 (json_stringify p)) (Option.bind blocker db_probeResult),
          fc_nextEligibleAt = Option.bind blocker db_nextEligibleAt\<rparr>\<rparr>"

definition releaseDispatch ::
    "sched_env \<Rightarrow> iso_time \<Rightarrow> string \<Rightarrow> string \<Rightarrow> int \<Rightarrow> string \<Rightarrow> dispatch_blocker option \<Rightarrow> sched_db \<Rightarrow> sched_job sched_result" where
  "releaseDispatch env now jobId attemptId expectedRevision dispatcher blocker db =
     (case find_job jobId db of
        None \<Rightarrow> (Inl (ReleaseConflict jobId attemptId), db)
      | Some current \<Rightarrow>
          (let P = (\<lambda>j. sj_id j = jobId \<and> sj_revision j = sj_revision current
                      \<and> sj_status j \<in> {SDispatching, SCancellationRequested} \<and> sj_activeDispatchAttemptId j = Some attemptId);
               Q = (\<lambda>a. attempt_open attemptId jobId a \<and> sa_dispatcherInstanceId a = Some dispatcher \<and> sa_outcome a = None)
           in if sql_changes P (sd_jobs db) \<noteq> 1 \<or> sql_changes Q (sd_attempts db) \<noteq> 1
              then (Inl (ReleaseConflict jobId attemptId), db)
              else read_back jobId NotReadBack
                     (db\<lparr>sd_jobs := sql_update P (release_update env now blocker current) (sd_jobs db),
                         sd_attempts := sql_update Q (release_attempt env now blocker) (sd_attempts db)\<rparr>)))"

definition retry_update :: "iso_time \<Rightarrow> sched_job \<Rightarrow> sched_job \<Rightarrow> sched_job" where
  "retry_update now current j =
     stamped SDue (Some (sj_status current)) now
       (j\<lparr>sj_status := SDue, sj_revision := sj_revision current + 1,
          sj_dispatch := (sj_dispatch j)\<lparr>dc_nextEligibleAt := None, dc_blockerKind := None\<rparr>, sj_lastError := None, sj_updatedAt := now\<rparr>)"

definition retryBlockedJob :: "string \<Rightarrow> iso_time \<Rightarrow> string \<Rightarrow> int option \<Rightarrow> sched_db \<Rightarrow> sched_job sched_result" where
  "retryBlockedJob outUuid now jobId expectedRevision db =
     (case find_job jobId db of
        None \<Rightarrow> (Inl (UnknownJob jobId), db)
      | Some current \<Rightarrow>
          if sj_status current \<noteq> SBlocked then (rowToJob current, db)
          else if expectedRevision \<noteq> None \<and> Some (sj_revision current) \<noteq> expectedRevision then (Inl (RetryConflict jobId), db)
          else
            (let P = (\<lambda>j. sj_id j = jobId \<and> sj_revision j = sj_revision current \<and> sj_status j = SBlocked)
             in if sql_changes P (sd_jobs db) \<noteq> 1 then (Inl (RetryConflict jobId), db)
                else (case enqueue (due_event jobId (sj_revision current + 1) now [(''reviewerRetried'', JBool True)]) now outUuid (sd_outbox db) of
                        Inl e \<Rightarrow> (Inl (OutboxFailed e), db)
                      | Inr (outbox, _) \<Rightarrow>
                          read_back jobId NotReadBack
                            (db\<lparr>sd_jobs := sql_update P (retry_update now current) (sd_jobs db), sd_outbox := outbox\<rparr>))))"

datatype dispatch_outcome = Dispatched | UncertainOutcome | DispatchFailed

record acp_result =
  ar_workSessionId :: "string option"
  ar_acp :: acp_cols
  ar_executionReceipt :: "json option"
  ar_lastError :: "string option"

record completion_input =
  ci_result :: acp_result
  ci_agentName :: "string option"
  ci_failureClass :: "string option"
  ci_probeResult :: "json option"

definition outcome_name :: "dispatch_outcome \<Rightarrow> string" where
  "outcome_name x = (case x of Dispatched \<Rightarrow> ''dispatched'' | UncertainOutcome \<Rightarrow> ''uncertain'' | DispatchFailed \<Rightarrow> ''failed'')"

definition outcome_status :: "dispatch_outcome \<Rightarrow> sched_status" where
  "outcome_status x = (case x of Dispatched \<Rightarrow> SRunning | UncertainOutcome \<Rightarrow> SUncertainDispatch | DispatchFailed \<Rightarrow> SFailed)"

definition lifecycle_advanced :: "string \<Rightarrow> sched_job \<Rightarrow> bool" where
  "lifecycle_advanced attemptId j \<longleftrightarrow> sj_activeDispatchAttemptId j = Some attemptId
     \<and> (sj_status j = SAwaitingApproval \<or> sj_status j = SRunning \<and> sj_lifecycleEventCursor j > 0)"

definition completion_status :: "dispatch_outcome \<Rightarrow> string \<Rightarrow> sched_job \<Rightarrow> sched_status" where
  "completion_status outcome attemptId current =
     (if cancellation_pending current then SCancellationRequested
      else if lifecycle_advanced attemptId current then sj_status current else outcome_status outcome)"

definition complete_update ::
    "sched_env \<Rightarrow> iso_time \<Rightarrow> dispatch_outcome \<Rightarrow> string \<Rightarrow> completion_input \<Rightarrow> sched_job \<Rightarrow> sched_job \<Rightarrow> sched_job" where
  "complete_update env now outcome attemptId i current j =
     (let s = completion_status outcome attemptId current;
          j1 = j\<lparr>sj_status := s, sj_revision := sj_revision current + 1,
                 sj_activeDispatchAttemptId := (if outcome = DispatchFailed then None else Some attemptId),
                 sj_workSessionId := or_else (ar_workSessionId (ci_result i)) (sj_workSessionId j),
                 sj_dispatch := (sj_dispatch j)\<lparr>dc_nextEligibleAt := None, dc_blockerKind := None,
                   dc_lastAttemptedAgent := (if truthy (ci_agentName i) then ci_agentName i else dc_lastAttemptedAgent (sj_dispatch j))\<rparr>,
                 sj_lastError := (if truthy (ar_lastError (ci_result i))
                   then Some (redactedPreview env (the (ar_lastError (ci_result i))) 1000) else None),
                 sj_updatedAt := now\<rparr>;
          j2 = (if cancellation_pending current \<and> outcome = DispatchFailed then confirm_state ''not_dispatched'' j1 else j1)
      in stamped s (Some (sj_status current)) now j2)"

definition complete_attempt :: "sched_env \<Rightarrow> iso_time \<Rightarrow> dispatch_outcome \<Rightarrow> completion_input \<Rightarrow> sched_attempt \<Rightarrow> sched_attempt" where
  "complete_attempt env now outcome i a =
     a\<lparr>sa_completedAt := (if outcome = DispatchFailed then Some now else None),
       sa_transportStatus := (case outcome of Dispatched \<Rightarrow> ''accepted'' | UncertainOutcome \<Rightarrow> ''uncertain'' | DispatchFailed \<Rightarrow> ''rejected''),
       sa_outcome := None, sa_acp := ar_acp (ci_result i), sa_agentName := ci_agentName i,
       sa_executionReceipt := map_option json_stringify (ar_executionReceipt (ci_result i)),
       sa_failure :=
         \<lparr>fc_class = Some (coalesce (ci_failureClass i) (if outcome = Dispatched then ''accepted'' else ''dispatch_'' @ outcome_name outcome)),
          fc_reason = (if outcome = Dispatched then None
            else Some (redactedPreview env (coalesce (ar_lastError (ci_result i)) (''Dispatch '' @ outcome_name outcome @ ''.'')) 1000)),
          fc_probeResult = map_option (\<lambda>p. take 4000 (json_stringify p)) (ci_probeResult i),
          fc_nextEligibleAt = None\<rparr>\<rparr>"

definition completeDispatch ::
    "sched_env \<Rightarrow> iso_time \<Rightarrow> string \<Rightarrow> string \<Rightarrow> int \<Rightarrow> dispatch_outcome \<Rightarrow> string \<Rightarrow> completion_input \<Rightarrow> sched_db \<Rightarrow> sched_job sched_result" where
  "completeDispatch env now jobId attemptId expectedRevision outcome dispatcher i db =
     (case find_job jobId db of
        None \<Rightarrow> (Inl (CompletionConflict jobId attemptId), db)
      | Some current \<Rightarrow>
          if sj_activeDispatchAttemptId current \<noteq> Some attemptId
             \<or> \<not> cancellation_pending current \<and> \<not> lifecycle_advanced attemptId current
               \<and> (sj_status current \<noteq> SDispatching \<or> sj_revision current \<noteq> expectedRevision)
          then (Inl (CompletionConflict jobId attemptId), db)
          else
            (let P = (\<lambda>j. sj_id j = jobId \<and> sj_revision j = sj_revision current
                        \<and> sj_status j \<in> {SDispatching, SRunning, SAwaitingApproval, SCancellationRequested}
                        \<and> sj_activeDispatchAttemptId j = Some attemptId);
                 Q = (\<lambda>a. attempt_open attemptId jobId a \<and> sa_dispatcherInstanceId a = Some dispatcher)
             in if sql_changes P (sd_jobs db) \<noteq> 1 \<or> sql_changes Q (sd_attempts db) \<noteq> 1
                then (Inl (CompletionConflict jobId attemptId), db)
                else read_back jobId NotReadBack
                       (db\<lparr>sd_jobs := sql_update P (complete_update env now outcome attemptId i current) (sd_jobs db),
                           sd_attempts := sql_update Q (complete_attempt env now outcome i) (sd_attempts db)\<rparr>)))"

datatype dispatch_resolution = RAccepted | RUnstarted | RFailed | RCompleted | RCancelled | ROperatorIntervention

definition resolution_status :: "dispatch_resolution \<Rightarrow> sched_status" where
  "resolution_status r =
     (case r of RAccepted \<Rightarrow> SRunning | RUnstarted \<Rightarrow> SDue | RFailed \<Rightarrow> SFailed | RCompleted \<Rightarrow> SCompleted
      | RCancelled \<Rightarrow> SCancelled | ROperatorIntervention \<Rightarrow> SOperatorIntervention)"

definition resolution_terminal :: "dispatch_resolution \<Rightarrow> bool" where
  "resolution_terminal r \<longleftrightarrow> r \<in> {RFailed, RCompleted, RCancelled}"

definition resolution_outcome :: "dispatch_resolution \<Rightarrow> string option" where
  "resolution_outcome r =
     (case r of RFailed \<Rightarrow> Some ''failed'' | RCompleted \<Rightarrow> Some ''completed'' | RCancelled \<Rightarrow> Some ''cancelled'' | _ \<Rightarrow> None)"

definition resolution_transport :: "dispatch_resolution \<Rightarrow> string option \<Rightarrow> string" where
  "resolution_transport r runId =
     (if r = RAccepted \<or> resolution_terminal r \<and> truthy runId then ''accepted''
      else if r = RUnstarted then ''unstarted'' else if r = RFailed then ''rejected''
      else if r = ROperatorIntervention then ''uncertain'' else ''accepted'')"

definition resolve_status :: "dispatch_resolution \<Rightarrow> sched_job \<Rightarrow> sched_status" where
  "resolve_status r current =
     (if cancellation_pending current \<and> r \<in> {RAccepted, RUnstarted, ROperatorIntervention} then SCancellationRequested
      else resolution_status r)"

definition resolve_update ::
    "iso_time \<Rightarrow> dispatch_resolution \<Rightarrow> string \<Rightarrow> int \<Rightarrow> acp_result \<Rightarrow> sched_job \<Rightarrow> sched_job \<Rightarrow> sched_job" where
  "resolve_update now r attemptId expectedRevision i current j =
     (let j1 = j\<lparr>sj_status := resolve_status r current, sj_revision := expectedRevision + 1,
                 sj_activeDispatchAttemptId := (if r \<in> {RAccepted, ROperatorIntervention} then Some attemptId else None),
                 sj_workSessionId := or_else (ar_workSessionId i) (sj_workSessionId j),
                 sj_lastError := or_else (ar_lastError i) (if cancellation_pending current then sj_lastError current else None),
                 sj_updatedAt := now\<rparr>;
          j2 = (if cancellation_pending current \<and> r = RUnstarted then confirm_state ''not_dispatched'' j1 else j1)
      in stamped (resolve_status r current) (Some (sj_status current)) now j2)"

definition merge_acp :: "acp_cols \<Rightarrow> acp_cols \<Rightarrow> acp_cols" where
  "merge_acp new old = \<lparr>ap_runId = or_else (ap_runId new) (ap_runId old), ap_dispatchId = or_else (ap_dispatchId new) (ap_dispatchId old),
     ap_attemptNumber = or_else (ap_attemptNumber new) (ap_attemptNumber old), ap_remoteRunId = or_else (ap_remoteRunId new) (ap_remoteRunId old)\<rparr>"

definition resolve_attempt :: "sched_env \<Rightarrow> iso_time \<Rightarrow> dispatch_resolution \<Rightarrow> acp_result \<Rightarrow> sched_attempt \<Rightarrow> sched_attempt" where
  "resolve_attempt env now r i a =
     a\<lparr>sa_completedAt := (if resolution_terminal r \<or> r = RUnstarted then Some now else None),
       sa_transportStatus := resolution_transport r (ap_runId (ar_acp i)), sa_outcome := resolution_outcome r,
       sa_acp := merge_acp (ar_acp i) (sa_acp a),
       sa_executionReceipt := or_else (map_option json_stringify (ar_executionReceipt i)) (sa_executionReceipt a)\<rparr>"

definition resolveDispatch ::
    "sched_env \<Rightarrow> iso_time \<Rightarrow> string \<Rightarrow> string \<Rightarrow> int \<Rightarrow> dispatch_resolution \<Rightarrow> acp_result \<Rightarrow> sched_db \<Rightarrow> sched_job sched_result" where
  "resolveDispatch env now jobId attemptId expectedRevision r i db =
     (case find_job jobId db of
        None \<Rightarrow> (Inl (ReconciliationConflict jobId attemptId), db)
      | Some current \<Rightarrow>
          (let P = (\<lambda>j. sj_id j = jobId \<and> sj_revision j = expectedRevision \<and> sj_activeDispatchAttemptId j = Some attemptId
                      \<and> sj_status j \<in> {SDispatching, SUncertainDispatch, SOperatorIntervention, SCancellationRequested});
               Q = attempt_open attemptId jobId
           in if sql_changes P (sd_jobs db) \<noteq> 1 \<or> sql_changes Q (sd_attempts db) \<noteq> 1
              then (Inl (ReconciliationConflict jobId attemptId), db)
              else read_back jobId NotReadBack
                     (db\<lparr>sd_jobs := sql_update P (resolve_update now r attemptId expectedRevision i current) (sd_jobs db),
                         sd_attempts := sql_update Q (resolve_attempt env now r i) (sd_attempts db)\<rparr>)))"

section \<open>Worker reports\<close>

definition scheduledReportRunKey :: "string \<Rightarrow> int \<Rightarrow> string" where
  "scheduledReportRunKey runId attemptNumber =
     runId @ ''#attempt:'' @ show_int attemptNumber"

definition report_of :: "string \<Rightarrow> string \<Rightarrow> sched_report \<Rightarrow> bool" where
  "report_of jobId runId r \<longleftrightarrow> rp_jobId r = jobId \<and> rp_runId r = runId"

definition persistReportWithinTransaction ::
    "sched_env \<Rightarrow> string \<Rightarrow> string \<Rightarrow> string \<Rightarrow> string \<Rightarrow> iso_time \<Rightarrow> sched_db \<Rightarrow> sched_report sched_result" where
  "persistReportWithinTransaction env uuid jobId runId reportText now db =
     (if trim runId = [] then (Inl ReportNeedsRun, db)
      else if utf8_length reportText > 8 * 1024 * 1024 then (Inl ReportTooLarge, db)
      else
        (let sha = sv_sha256 env reportText;
             row = \<lparr>rp_id = ''sched_report_'' @ uuid, rp_jobId = jobId, rp_runId = runId, rp_reportSha256 = sha, rp_reportText = reportText, rp_createdAt = now\<rparr>;
             reports = (if list_ex (report_of jobId runId) (sd_reports db) then sd_reports db else sd_reports db @ [row])
         in if \<not> list_ex (report_of jobId runId) (sd_reports db) \<and> rp_id row \<in> rp_id ` set (sd_reports db) then (Inl SqliteConstraint, db)
            else (case find (report_of jobId runId) reports of
                    None \<Rightarrow> (Inl ReportChanged, db)
                  | Some existing \<Rightarrow>
                      if rp_reportSha256 existing \<noteq> sha then (Inl ReportChanged, db)
                      else (Inr existing, db\<lparr>sd_reports := reports\<rparr>))))"

definition persistReport :: "sched_env \<Rightarrow> string \<Rightarrow> string \<Rightarrow> string \<Rightarrow> string \<Rightarrow> iso_time \<Rightarrow> sched_db \<Rightarrow> sched_report sched_result" where
  "persistReport env uuid jobId runId reportText now db =
     (case sched_get jobId db of
        Inl e \<Rightarrow> (Inl e, db)
      | Inr None \<Rightarrow> (Inl (UnknownJob jobId), db)
      | Inr (Some _) \<Rightarrow> persistReportWithinTransaction env uuid jobId runId reportText now db)"

definition getReport :: "string \<Rightarrow> string \<Rightarrow> sched_db \<Rightarrow> sched_report option" where
  "getReport jobId sha db = find (\<lambda>r. rp_jobId r = jobId \<and> rp_reportSha256 r = sha) (sd_reports db)"

definition getReportForAttempt :: "string \<Rightarrow> string \<Rightarrow> int \<Rightarrow> sched_db \<Rightarrow> sched_report option" where
  "getReportForAttempt jobId runId attemptNumber db = find (report_of jobId (scheduledReportRunKey runId attemptNumber)) (sd_reports db)"

text \<open>The job of a session event, and the integer and identity fields of its payload.\<close>

definition session_job :: "string option \<Rightarrow> sched_db \<Rightarrow> sched_job option" where
  "session_job sessionId db =
     (if sessionId = None then None
      else first_row (order_asc sj_createdAt (filter (\<lambda>j. sj_workSessionId j = sessionId) (sd_jobs db))))"

definition payload_int :: "string \<Rightarrow> session_event \<Rightarrow> int option" where
  "payload_int k e = (case js_get (se_payload e) k of Some (JInt n) \<Rightarrow> Some n | _ \<Rightarrow> None)"

definition cancellation_of :: "sched_job \<Rightarrow> cancellation_mark" where
  "cancellation_of j = \<lparr>cm_requestedAt = cc_requestedAt (sj_cancellation j), cm_previousStatus = cc_previousStatus (sj_cancellation j)\<rparr>"

definition obligation_row :: "string \<Rightarrow> iso_time \<Rightarrow> sched_job \<Rightarrow> string \<Rightarrow> int \<Rightarrow> session_event \<Rightarrow> report_finalization" where
  "obligation_row uuid now job runId attemptNumber e =
     (let reportText = (case payload_string ''final_output'' e of Some s \<Rightarrow> if s \<noteq> [] then Some s else None | None \<Rightarrow> None);
          availability = (if reportText \<noteq> None then ''pending''
            else if payload_string ''report_availability'' e = Some ''unavailable'' then ''unavailable'' else ''no_output'')
      in \<lparr>rf_id = ''sched_finalization_'' @ uuid, rf_jobId = sj_id job, rf_runId = runId, rf_attemptNumber = attemptNumber,
          rf_eventId = se_id e, rf_status = availability, rf_reportText = reportText, rf_reportSha256 = None,
          rf_lastError = (if reportText \<noteq> None then None
            else if availability = ''unavailable'' then Some ''This execution stopped before an authoritative ACP report was available.''
            else Some ''The authoritative ACP prompt response contained no report text.''),
          rf_createdAt = now, rf_updatedAt = now\<rparr>)"

definition finalization_of :: "string \<Rightarrow> string \<Rightarrow> int \<Rightarrow> report_finalization \<Rightarrow> bool" where
  "finalization_of jobId runId attemptNumber f \<longleftrightarrow> rf_jobId f = jobId \<and> rf_runId f = runId \<and> rf_attemptNumber f = attemptNumber"

definition obligation_attempt_ok :: "sched_attempt \<Rightarrow> string \<Rightarrow> string \<Rightarrow> int \<Rightarrow> session_event \<Rightarrow> bool" where
  "obligation_attempt_ok a runId dispatchId attemptNumber e \<longleftrightarrow>
     (let expectedDispatchId = coalesce (ap_dispatchId (sa_acp a)) (sa_dispatchId a);
          bound = ap_runId (sa_acp a)
      in ((\<not> truthy bound \<and> runId \<noteq> [] \<and> dispatchId = expectedDispatchId)
          \<or> (bound = Some runId \<and> attemptNumber > coalesce (ap_attemptNumber (sa_acp a)) 0 \<and> dispatchId = expectedDispatchId)
          \<or> (bound = Some runId \<and> ap_attemptNumber (sa_acp a) = Some attemptNumber \<and> dispatchId = expectedDispatchId))
         \<and> (\<not> truthy (ap_remoteRunId (sa_acp a)) \<or> payload_string ''remoteRunId'' e = ap_remoteRunId (sa_acp a)))"

definition recordReportFinalizationObligation :: "string \<Rightarrow> iso_time \<Rightarrow> session_event \<Rightarrow> sched_db \<Rightarrow> sched_db" where
  "recordReportFinalizationObligation uuid now e db =
     (if se_type e \<notin> set WORKER_STOPPED_EVENTS \<or> \<not> truthy (se_sessionId e) \<or> se_id e = [] then db
      else (case (payload_string ''runId'' e, payload_string ''dispatchId'' e, payload_int ''attemptNumber'' e) of
              (Some runId, Some dispatchId, Some attemptNumber) \<Rightarrow>
                if runId = [] \<or> dispatchId = [] \<or> attemptNumber \<le> 0 then db
                else (case session_job (se_sessionId e) db of
                        None \<Rightarrow> db
                      | Some job \<Rightarrow>
                          if \<not> truthy (sj_activeDispatchAttemptId job) then db
                          else (case find (\<lambda>a. sa_id a = the (sj_activeDispatchAttemptId job) \<and> sa_jobId a = sj_id job) (sd_attempts db) of
                                  None \<Rightarrow> db
                                | Some a \<Rightarrow>
                                    if \<not> obligation_attempt_ok a runId dispatchId attemptNumber e then db
                                    else if lp_workerExecutionOutcome (projectScheduledJobLifecycleEvent (sj_status job) e (Some (cancellation_of job))
                                          (Some \<lparr>ai_dispatchId = Some (coalesce (ap_dispatchId (sa_acp a)) (sa_dispatchId a)), ai_runId = Some runId,
                                                 ai_attemptNumber = Some attemptNumber, ai_remoteRunId = payload_string ''remoteRunId'' e\<rparr>)) = None then db
                                    else if list_ex (finalization_of (sj_id job) runId attemptNumber) (sd_finalizations db) then db
                                    else db\<lparr>sd_finalizations := sd_finalizations db @ [obligation_row uuid now job runId attemptNumber e]\<rparr>))
            | _ \<Rightarrow> db))"

definition pending_finalization :: "string \<Rightarrow> report_finalization \<Rightarrow> bool" where
  "pending_finalization finalizationId f \<longleftrightarrow> rf_id f = finalizationId \<and> rf_status f = ''pending''"

definition finalizeReportObligationWithinTransaction ::
    "sched_env \<Rightarrow> string \<Rightarrow> report_finalization \<Rightarrow> iso_time \<Rightarrow> sched_db \<Rightarrow> unit sched_result" where
  "finalizeReportObligationWithinTransaction env uuid ob now db =
     (case rf_reportText ob of
        None \<Rightarrow> (Inr (), db)
      | Some text \<Rightarrow>
          if rf_status ob = ''completed'' then (Inr (), db)
          else (case persistReportWithinTransaction env uuid (rf_jobId ob) (scheduledReportRunKey (rf_runId ob) (rf_attemptNumber ob)) text now db of
                  (Inl e, _) \<Rightarrow> (Inl e, db)
                | (Inr artifact, db1) \<Rightarrow>
                    (Inr (), db1\<lparr>sd_finalizations := sql_update (pending_finalization (rf_id ob))
                       (\<lambda>f. f\<lparr>rf_status := ''completed'', rf_reportSha256 := Some (rp_reportSha256 artifact), rf_reportText := None,
                              rf_lastError := None, rf_updatedAt := now\<rparr>) (sd_finalizations db1)\<rparr>)))"

definition report_error_text :: "sched_error \<Rightarrow> string" where
  "report_error_text e =
     (case e of
        ReportNeedsRun \<Rightarrow> ''Scheduled report requires a correlated ACP run ID.''
      | ReportTooLarge \<Rightarrow> ''Scheduled report exceeds the 8 MiB immutable artifact limit.''
      | ReportChanged \<Rightarrow> ''Scheduled ACP report changed after its immutable artifact was recorded.''
      | _ \<Rightarrow> ''UNIQUE constraint failed: scheduled_job_reports.id'')"

definition try_finalize :: "sched_env \<Rightarrow> string \<Rightarrow> report_finalization \<Rightarrow> iso_time \<Rightarrow> sched_db \<Rightarrow> sched_db" where
  "try_finalize env uuid ob now db =
     (case finalizeReportObligationWithinTransaction env uuid ob now db of
        (Inr _, db1) \<Rightarrow> db1
      | (Inl e, _) \<Rightarrow>
          db\<lparr>sd_finalizations := sql_update (pending_finalization (rf_id ob))
            (\<lambda>f. f\<lparr>rf_lastError := Some (take 2000 (report_error_text e)), rf_updatedAt := now\<rparr>) (sd_finalizations db)\<rparr>)"

fun reconcile_finalizations :: "sched_env \<Rightarrow> (nat \<Rightarrow> string) \<Rightarrow> iso_time \<Rightarrow> nat \<Rightarrow> report_finalization list \<Rightarrow> sched_db \<Rightarrow> nat \<times> sched_db" where
  "reconcile_finalizations env uuid now n [] db = (0, db)"
| "reconcile_finalizations env uuid now n (ob # obs) db =
     (let db1 = try_finalize env (uuid n) ob now db;
          done1 = (case finalizeReportObligationWithinTransaction env (uuid n) ob now db of
             (Inl _, _) \<Rightarrow> False
           | (Inr _, db') \<Rightarrow> map_option rf_status (find (\<lambda>f. rf_id f = rf_id ob) (sd_finalizations db')) = Some ''completed'');
          (k, db2) = reconcile_finalizations env uuid now (Suc n) obs db1
      in ((if done1 then Suc k else k), db2))"

definition reconcilePendingReportFinalizations :: "sched_env \<Rightarrow> (nat \<Rightarrow> string) \<Rightarrow> iso_time \<Rightarrow> int \<Rightarrow> sched_db \<Rightarrow> nat \<times> sched_db" where
  "reconcilePendingReportFinalizations env uuid now limit db =
     reconcile_finalizations env uuid now 0
       (take (clamp_limit 250 limit) (order_asc (\<lambda>f. (rf_updatedAt f, rf_id f)) (filter (\<lambda>f. rf_status f = ''pending'') (sd_finalizations db)))) db"

section \<open>Projection of session events\<close>

definition identity_of :: "sched_attempt option \<Rightarrow> attempt_identity" where
  "identity_of a =
     (case a of
        None \<Rightarrow> \<lparr>ai_dispatchId = None, ai_runId = None, ai_attemptNumber = None, ai_remoteRunId = None\<rparr>
      | Some a \<Rightarrow> \<lparr>ai_dispatchId = Some (coalesce (ap_dispatchId (sa_acp a)) (sa_dispatchId a)), ai_runId = ap_runId (sa_acp a),
                   ai_attemptNumber = ap_attemptNumber (sa_acp a), ai_remoteRunId = ap_remoteRunId (sa_acp a)\<rparr>)"

definition bindsInitialAttempt :: "sched_attempt \<Rightarrow> session_event \<Rightarrow> bool" where
  "bindsInitialAttempt a e \<longleftrightarrow> \<not> truthy (ap_runId (sa_acp a)) \<and> truthy (payload_string ''runId'' e)
     \<and> payload_string ''dispatchId'' e = Some (sa_dispatchId a) \<and> num_truthy (payload_int ''attemptNumber'' e)"

definition advancesAttempt :: "sched_attempt \<Rightarrow> session_event \<Rightarrow> bool" where
  "advancesAttempt a e \<longleftrightarrow> num_truthy (payload_int ''attemptNumber'' e)
     \<and> payload_string ''runId'' e \<noteq> None \<and> payload_string ''runId'' e = ap_runId (sa_acp a)
     \<and> (\<not> num_truthy (ap_attemptNumber (sa_acp a)) \<or> the (payload_int ''attemptNumber'' e) > the (ap_attemptNumber (sa_acp a)))
     \<and> truthy (payload_string ''dispatchId'' e)"

definition bind_event_identity :: "session_event \<Rightarrow> sched_attempt \<Rightarrow> sched_attempt" where
  "bind_event_identity e a =
     (if truthy (payload_string ''runId'' e) \<and> truthy (payload_string ''dispatchId'' e) \<and> (bindsInitialAttempt a e \<or> advancesAttempt a e)
      then a\<lparr>sa_acp := \<lparr>ap_runId = (if bindsInitialAttempt a e then payload_string ''runId'' e else ap_runId (sa_acp a)),
                         ap_dispatchId = payload_string ''dispatchId'' e, ap_attemptNumber = payload_int ''attemptNumber'' e,
                         ap_remoteRunId = payload_string ''remoteRunId'' e\<rparr>\<rparr>
      else a)"

definition account_execution :: "lifecycle_projection \<Rightarrow> bool \<Rightarrow> session_event \<Rightarrow> execution_cols \<Rightarrow> execution_cols" where
  "account_execution p advances e x =
     (if lp_executionStarted p then
        x\<lparr>ex_executionStartedAt := Some (coalesce (ex_executionStartedAt x) (se_createdAt e)),
          ex_executionActiveSince := Some (coalesce (ex_executionActiveSince x) (se_createdAt e)),
          ex_executionStoppedAt := None,
          ex_workerExecutionOutcome := (if advances then None else ex_workerExecutionOutcome x),
          ex_workerExecutionAt := (if advances then None else ex_workerExecutionAt x)\<rparr>
      else if lp_executionPaused p \<or> lp_executionStopped p \<or> lp_finalWorkerOutcome p \<noteq> None then
        x\<lparr>ex_activeRuntimeMs := max 0 (ex_activeRuntimeMs x)
            + (case ex_executionActiveSince x of None \<Rightarrow> 0 | Some since \<Rightarrow> max 0 (se_createdAt e - since)),
          ex_executionActiveSince := None, ex_executionStoppedAt := Some (se_createdAt e),
          ex_workerExecutionOutcome := or_else (lp_workerExecutionOutcome p) (ex_workerExecutionOutcome x),
          ex_workerExecutionAt := (if lp_workerExecutionOutcome p \<noteq> None then Some (se_createdAt e) else ex_workerExecutionAt x)\<rparr>
      else x)"

definition terminal_status_of :: "lifecycle_projection \<Rightarrow> sched_job \<Rightarrow> sched_status option" where
  "terminal_status_of p row =
     (if lp_autonomousCompletion p \<and> jq_executionMode (sj_request row) = ''bounded_file_write'' then Some SCompleted else lp_nextStatus p)"

definition terminal_transition :: "sched_status option \<Rightarrow> bool" where
  "terminal_transition s \<longleftrightarrow> s \<in> {Some SCompleted, Some SFailed, Some SCancelled}"

definition project_update :: "iso_time \<Rightarrow> lifecycle_projection \<Rightarrow> session_event \<Rightarrow> sched_job \<Rightarrow> sched_job \<Rightarrow> sched_job" where
  "project_update now p e row j =
     (let s = terminal_status_of p row;
          j1 = j\<lparr>sj_status := coalesce s (sj_status j),
                 sj_revision := (if terminal_transition s then sj_revision row + 1 else sj_revision row),
                 sj_activeDispatchAttemptId := (if terminal_transition s then None else sj_activeDispatchAttemptId j),
                 sj_lifecycleEventCursor := se_seq e,
                 sj_lastError := or_else (lp_lastError p) (if lp_nextStatus p \<noteq> None then None else sj_lastError j),
                 sj_updatedAt := now\<rparr>
      in case s of None \<Rightarrow> j1 | Some s' \<Rightarrow> stamped s' (Some (sj_status row)) now j1)"

definition final_name :: "final_outcome \<Rightarrow> string" where
  "final_name f = (case f of FCompleted \<Rightarrow> ''completed'' | FFailed \<Rightarrow> ''failed'' | FCancelled \<Rightarrow> ''cancelled'')"

definition close_attempt :: "iso_time \<Rightarrow> lifecycle_projection \<Rightarrow> session_event \<Rightarrow> sched_attempt \<Rightarrow> sched_attempt" where
  "close_attempt now p e a =
     a\<lparr>sa_completedAt := or_else (sa_completedAt a) (Some now),
       sa_outcome := or_else (map_option final_name (lp_finalWorkerOutcome p)) (sa_outcome a),
       sa_transportStatus := (if sa_transportStatus a = ''uncertain'' then ''accepted'' else sa_transportStatus a),
       sa_acp := (sa_acp a)\<lparr>ap_runId := or_else (ap_runId (sa_acp a)) (payload_string ''runId'' e)\<rparr>\<rparr>"

definition update_attempt :: "string \<Rightarrow> (sched_attempt \<Rightarrow> sched_attempt) \<Rightarrow> sched_db \<Rightarrow> sched_db" where
  "update_attempt attemptId f db = db\<lparr>sd_attempts := sql_update (\<lambda>a. sa_id a = attemptId) f (sd_attempts db)\<rparr>"

definition active_attempt :: "sched_job \<Rightarrow> sched_db \<Rightarrow> sched_attempt option" where
  "active_attempt row db =
     (if truthy (sj_activeDispatchAttemptId row) then find_attempt (the (sj_activeDispatchAttemptId row)) db else None)"

definition finalize_obligation :: "sched_env \<Rightarrow> string \<Rightarrow> iso_time \<Rightarrow> session_event \<Rightarrow> sched_job \<Rightarrow> sched_db \<Rightarrow> sched_db" where
  "finalize_obligation env uuid now e row db =
     (case find (finalization_of (sj_id row) (coalesce (payload_string ''runId'' e) []) (coalesce (payload_int ''attemptNumber'' e) 0))
             (sd_finalizations db) of
        None \<Rightarrow> db
      | Some ob \<Rightarrow> if rf_status ob = ''pending'' then try_finalize env uuid ob now db else db)"

text \<open>The body of the transaction, on the job of the session and an event it has not seen.\<close>

definition project_row :: "sched_env \<Rightarrow> string \<Rightarrow> iso_time \<Rightarrow> session_event \<Rightarrow> sched_job \<Rightarrow> sched_db \<Rightarrow> (sched_error + sched_job option) \<times> sched_db" where
  "project_row env uuid now e row db =
     (let original = active_attempt row db;
          bound = map_option (bind_event_identity e) original;
          advances = (case original of None \<Rightarrow> False | Some a \<Rightarrow> advancesAttempt a e);
          p = projectScheduledJobLifecycleEvent (sj_status row) e (Some (cancellation_of row)) (Some (identity_of bound));
          db1 = (case original of
             None \<Rightarrow> db
           | Some a \<Rightarrow> update_attempt (sa_id a)
               (\<lambda>x. let x1 = bind_event_identity e x in x1\<lparr>sa_execution := account_execution p advances e (sa_execution x1)\<rparr>) db);
          db2 = (if lp_workerExecutionOutcome p \<noteq> None \<and> original \<noteq> None then finalize_obligation env uuid now e row db1 else db1);
          P = (\<lambda>j. sj_id j = sj_id row \<and> sj_revision j = sj_revision row \<and> sj_lifecycleEventCursor j < se_seq e)
      in if sql_changes P (sd_jobs db2) \<noteq> 1 then (Inl (ProjectionConflict (sj_id row) (se_seq e)), db)
         else let db3 = db2\<lparr>sd_jobs := sql_update P (project_update now p e row) (sd_jobs db2)\<rparr>;
                  db4 = (if terminal_transition (terminal_status_of p row)
                         then update_attempt (case original of None \<Rightarrow> [] | Some a \<Rightarrow> sa_id a) (close_attempt now p e) db3 else db3)
              in (Inr (find_job (sj_id row) db4), db4))"

definition job_result :: "(sched_error + sched_job option) \<times> sched_db \<Rightarrow> sched_job option sched_result" where
  "job_result r =
     (case r of
        (Inl e, db) \<Rightarrow> (Inl e, db)
      | (Inr None, db) \<Rightarrow> (Inr None, db)
      | (Inr (Some row), db) \<Rightarrow> ((case rowToJob row of Inl e \<Rightarrow> Inl e | Inr j \<Rightarrow> Inr (Some j)), db))"

definition projectEvent :: "sched_env \<Rightarrow> string \<Rightarrow> iso_time \<Rightarrow> session_event \<Rightarrow> sched_db \<Rightarrow> sched_job option sched_result" where
  "projectEvent env uuid now e db =
     (if \<not> se_durable e \<or> se_seq e \<le> 0 \<or> \<not> truthy (se_sessionId e) then (Inr None, db)
      else
        (let db0 = recordReportFinalizationObligation uuid now e db
         in case session_job (se_sessionId e) db0 of
              None \<Rightarrow> (Inr None, db0)
            | Some row \<Rightarrow>
                if se_seq e \<le> sj_lifecycleEventCursor row then job_result (Inr (Some row), db0)
                else job_result (project_row env uuid now e row db0)))"

section \<open>Cancellation, transitions and bindings\<close>

definition cancel_update :: "iso_time \<Rightarrow> string \<Rightarrow> string option \<Rightarrow> sched_job \<Rightarrow> sched_job \<Rightarrow> sched_job" where
  "cancel_update now requestId reason current j =
     stamped SCancellationRequested (Some (sj_status current)) now
       (j\<lparr>sj_status := SCancellationRequested, sj_revision := sj_revision current + 1,
          sj_cancellation := \<lparr>cc_requestId = Some requestId, cc_previousStatus = Some (sj_status current), cc_requestedAt = Some now,
            cc_lastAttemptAt = None,
            cc_lastConfirmedState = Some (if \<not> truthy (sj_activeDispatchAttemptId current) \<and> \<not> truthy (sj_workSessionId current)
              then ''not_dispatched'' else ''unknown'')\<rparr>,
          sj_lastError := Some (coalesce reason ''Cancellation requested; waiting for worker-state confirmation.''), sj_updatedAt := now\<rparr>)"

definition requestCancellation :: "iso_time \<Rightarrow> string \<Rightarrow> int \<Rightarrow> string \<Rightarrow> string option \<Rightarrow> sched_db \<Rightarrow> sched_job sched_result" where
  "requestCancellation now jobId expectedRevision requestId reason db =
     (case find_job jobId db of
        None \<Rightarrow> (Inl (UnknownJob jobId), db)
      | Some current \<Rightarrow>
          if sj_status current \<in> {SCancelled, SCancellationRequested} then (rowToJob current, db)
          else if sj_status current \<in> {SCompleted, SFailed} then (Inl (AlreadyTerminal jobId (sj_status current)), db)
          else if sj_revision current \<noteq> expectedRevision then (Inl (CancellationConflict jobId), db)
          else
            (let P = (\<lambda>j. sj_id j = jobId \<and> sj_revision j = expectedRevision)
             in if sql_changes P (sd_jobs db) \<noteq> 1 then (Inl (CancellationConflict jobId), db)
                else read_back jobId NotReadBack
                       (db\<lparr>sd_jobs := sql_update P (cancel_update now requestId reason current) (sd_jobs db)\<rparr>)))"

definition cancelling :: "string \<Rightarrow> string \<Rightarrow> sched_job \<Rightarrow> bool" where
  "cancelling jobId requestId j \<longleftrightarrow>
     sj_id j = jobId \<and> sj_status j = SCancellationRequested \<and> cc_requestId (sj_cancellation j) = Some requestId"

definition claimCancellationAttempt :: "iso_time \<Rightarrow> string \<Rightarrow> string \<Rightarrow> int \<Rightarrow> sched_db \<Rightarrow> bool \<times> sched_db" where
  "claimCancellationAttempt now jobId requestId minimumIntervalMs db =
     (let P = (\<lambda>j. cancelling jobId requestId j
                 \<and> (case cc_lastAttemptAt (sj_cancellation j) of None \<Rightarrow> True | Some t \<Rightarrow> t \<le> now - max 0 minimumIntervalMs))
      in (sql_changes P (sd_jobs db) = 1,
          db\<lparr>sd_jobs := sql_update P (\<lambda>j. j\<lparr>sj_cancellation := (sj_cancellation j)\<lparr>cc_lastAttemptAt := Some now\<rparr>,
            sj_revision := sj_revision j + 1, sj_updatedAt := now\<rparr>) (sd_jobs db)\<rparr>))"

definition recordCancellationEvidence :: "iso_time \<Rightarrow> string \<Rightarrow> string \<Rightarrow> string \<Rightarrow> string option \<Rightarrow> sched_db \<Rightarrow> sched_job sched_result" where
  "recordCancellationEvidence now jobId requestId state lastError db =
     (if sql_changes (cancelling jobId requestId) (sd_jobs db) \<noteq> 1 then (Inl (EvidenceConflict jobId), db)
      else read_back jobId NotReadBack
             (db\<lparr>sd_jobs := sql_update (cancelling jobId requestId)
               (\<lambda>j. (confirm_state state j)\<lparr>sj_lastError := lastError, sj_revision := sj_revision j + 1, sj_updatedAt := now\<rparr>) (sd_jobs db)\<rparr>))"

definition finalizeCancellation :: "iso_time \<Rightarrow> string \<Rightarrow> string \<Rightarrow> string \<Rightarrow> string option \<Rightarrow> sched_db \<Rightarrow> sched_job sched_result" where
  "finalizeCancellation now jobId requestId lastConfirmedState reason db =
     (let P = (\<lambda>j. cancelling jobId requestId j \<and> cc_lastConfirmedState (sj_cancellation j) = Some lastConfirmedState)
      in if sql_changes P (sd_jobs db) \<noteq> 1 then (Inl (CancellationNotConfirmed jobId), db)
         else read_back jobId NotReadBack
                (db\<lparr>sd_jobs := sql_update P (\<lambda>j. stamped SCancelled (Some SCancellationRequested) now
                      ((confirm_state lastConfirmedState j)\<lparr>sj_status := SCancelled, sj_revision := sj_revision j + 1, sj_activeDispatchAttemptId := None,
                        sj_lastError := Some (coalesce reason ''Scheduled job cancellation confirmed.''), sj_updatedAt := now\<rparr>)) (sd_jobs db),
                    sd_attempts := sql_update (\<lambda>a. sa_jobId a = jobId \<and> sa_completedAt a = None)
                      (\<lambda>a. a\<lparr>sa_completedAt := Some now, sa_outcome := Some ''cancelled''\<rparr>) (sd_attempts db)\<rparr>))"

text \<open>An \<open>undefined\<close> column is left alone, a \<open>null\<close> one is cleared: an optional optional value.\<close>

record sched_transition =
  tn_jobId :: string
  tn_expectedRevision :: int
  tn_nextStatus :: sched_status
  tn_expectedSourceStatuses :: "sched_status list"
  tn_workSessionId :: "string option option"
  tn_lastError :: "string option option"

definition transition_update :: "iso_time \<Rightarrow> sched_transition \<Rightarrow> sched_job \<Rightarrow> sched_job \<Rightarrow> sched_job" where
  "transition_update now t current j =
     stamped (tn_nextStatus t) (Some (sj_status current)) now
       (j\<lparr>sj_status := tn_nextStatus t, sj_revision := tn_expectedRevision t + 1,
          sj_workSessionId := coalesce (tn_workSessionId t) (sj_workSessionId j),
          sj_lastError := coalesce (tn_lastError t) (sj_lastError j), sj_updatedAt := now\<rparr>)"

definition transition :: "iso_time \<Rightarrow> sched_transition \<Rightarrow> sched_db \<Rightarrow> sched_job sched_result" where
  "transition now t db =
     (if tn_nextStatus t \<in> {SCancellationRequested, SCancelled} then (Inl CancellationStateRefused, db)
      else (case sched_get (tn_jobId t) db of
              Inl e \<Rightarrow> (Inl e, db)
            | Inr None \<Rightarrow> (Inl (UnknownJob (tn_jobId t)), db)
            | Inr (Some current) \<Rightarrow>
                (let P = (\<lambda>j. sj_id j = tn_jobId t \<and> sj_revision j = tn_expectedRevision t
                            \<and> (tn_expectedSourceStatuses t \<noteq> [] \<longrightarrow> sj_status j \<in> set (tn_expectedSourceStatuses t)))
                 in if sql_changes P (sd_jobs db) \<noteq> 1 then (Inl (TransitionConflict (tn_jobId t)), db)
                    else read_back (tn_jobId t) NotReadBack
                           (db\<lparr>sd_jobs := sql_update P (transition_update now t current) (sd_jobs db)\<rparr>))))"

definition bindWorkSession :: "iso_time \<Rightarrow> string \<Rightarrow> string \<Rightarrow> string \<Rightarrow> sched_db \<Rightarrow> sched_job sched_result" where
  "bindWorkSession now jobId attemptId workSessionId db =
     (let P = (\<lambda>j. sj_id j = jobId \<and> sj_activeDispatchAttemptId j = Some attemptId
                 \<and> sj_status j \<in> {SDispatching, SRunning, SUncertainDispatch, SOperatorIntervention, SCancellationRequested})
      in if sql_changes P (sd_jobs db) \<noteq> 1 then (Inl (BindingConflict jobId attemptId), db)
         else read_back jobId NotReadBack
                (db\<lparr>sd_jobs := sql_update P (\<lambda>j. j\<lparr>sj_workSessionId := Some workSessionId, sj_updatedAt := now\<rparr>) (sd_jobs db)\<rparr>))"

definition bindAcpAttempt :: "string \<Rightarrow> string \<Rightarrow> string \<Rightarrow> string \<Rightarrow> string \<Rightarrow> int \<Rightarrow> sched_db \<Rightarrow> unit sched_result" where
  "bindAcpAttempt jobId attemptId workSessionId key runId attemptNumber db =
     (if trim runId = [] \<or> trim key = [] \<or> \<bar>attemptNumber\<bar> > 2 ^ 53 - 1 \<or> attemptNumber < 1 then (Inl InvalidAttemptIdentity, db)
      else (case (find_job jobId db, find (\<lambda>a. sa_id a = attemptId \<and> sa_jobId a = jobId) (sd_attempts db)) of
              (Some job, Some a) \<Rightarrow>
                if sj_activeDispatchAttemptId job \<noteq> Some attemptId \<or> sj_status job \<noteq> SDispatching \<or> sj_workSessionId job \<noteq> Some workSessionId
                   \<or> sa_dispatchId a \<noteq> key \<or> sa_completedAt a \<noteq> None \<or> truthy (sa_outcome a)
                then (Inl (BindingConflict jobId attemptId), db)
                else if ap_runId (sa_acp a) \<noteq> None \<or> ap_attemptNumber (sa_acp a) \<noteq> None \<or> ap_dispatchId (sa_acp a) \<noteq> None then
                  (if ap_runId (sa_acp a) = Some runId \<and> ap_attemptNumber (sa_acp a) = Some attemptNumber \<and> ap_dispatchId (sa_acp a) = Some key
                   then (Inr (), db) else (Inl (AttemptAlreadyBound attemptId), db))
                else
                  (let Q = (\<lambda>x. attempt_open attemptId jobId x \<and> sa_dispatchId x = key \<and> ap_runId (sa_acp x) = None
                              \<and> ap_attemptNumber (sa_acp x) = None \<and> sa_outcome x = None)
                   in if sql_changes Q (sd_attempts db) \<noteq> 1 then (Inl (AttemptAlreadyBound attemptId), db)
                      else (Inr (), db\<lparr>sd_attempts := sql_update Q
                        (\<lambda>x. x\<lparr>sa_acp := (sa_acp x)\<lparr>ap_runId := Some runId, ap_dispatchId := Some key, ap_attemptNumber := Some attemptNumber\<rparr>\<rparr>)
                        (sd_attempts db)\<rparr>))
            | _ \<Rightarrow> (Inl (BindingConflict jobId attemptId), db)))"

text \<open>\<open>Math.random\<close> is the fraction of two numbers, the first below the second.\<close>

definition probe_base :: "nat \<Rightarrow> int" where
  "probe_base n = min (2 ^ n * 1000) 600000"

definition probe_jitter :: "int \<times> int \<Rightarrow> nat \<Rightarrow> int" where
  "probe_jitter rnd n = (fst rnd * min (probe_base n) 240000) div (snd rnd * 4)"

definition recordReconcileProbe :: "iso_time \<Rightarrow> int \<times> int \<Rightarrow> string \<Rightarrow> string \<Rightarrow> string \<Rightarrow> sched_db \<Rightarrow> sched_db" where
  "recordReconcileProbe now rnd jobId attemptId evidence db =
     (case find (\<lambda>a. sa_id a = attemptId \<and> sa_jobId a = jobId) (sd_attempts db) of
        None \<Rightarrow> db
      | Some a \<Rightarrow>
          (let n = Suc (pc_count (sa_probe a))
           in update_attempt attemptId (\<lambda>x. x\<lparr>sa_probe := \<lparr>pc_count = n,
                pc_nextReconcileAt = Some (now + probe_base n + probe_jitter rnd n), pc_lastEvidence = Some (take 2000 evidence)\<rparr>\<rparr>) db))"

section \<open>Wake-ups\<close>

text \<open>The parts of scheduled-job-runtime.ts that move a job before it is dispatched or when it runs too long.\<close>

definition markDue :: "iso_time \<Rightarrow> string \<Rightarrow> sched_db \<Rightarrow> int option \<times> sched_db" where
  "markDue now jobId db =
     (let P = (\<lambda>j. sj_id j = jobId \<and> sj_status j = SPending);
          db' = db\<lparr>sd_jobs := sql_update P (\<lambda>j. j\<lparr>sj_status := SDue, sj_revision := sj_revision j + 1, sj_updatedAt := now,
            sj_stamps := (sj_stamps j)\<lparr>sc_lastStateChangedAt := Some now\<rparr>\<rparr>) (sd_jobs db)\<rparr>
      in if sql_changes P (sd_jobs db) \<noteq> 1 then (None, db') else (map_option sj_revision (find_job jobId db'), db'))"

definition rearm_row :: "string \<Rightarrow> iso_time \<Rightarrow> sched_job \<Rightarrow> sched_db \<Rightarrow> sched_error + sched_db" where
  "rearm_row outUuid now row db =
     (let status = (if date_parse (jq_runAt (sj_request row)) \<le> now then SDue else SPending);
          db1 = (if sj_status row = SReconciling
             then db\<lparr>sd_jobs := sql_update (\<lambda>j. sj_id j = sj_id row \<and> sj_status j \<in> {SPending, SDue, SReconciling} \<and> sj_revision j = sj_revision row)
                    (\<lambda>j. j\<lparr>sj_status := status, sj_updatedAt := now,
                       sj_stamps := (if sj_status j \<noteq> status then (sj_stamps j)\<lparr>sc_lastStateChangedAt := Some now\<rparr> else sj_stamps j)\<rparr>) (sd_jobs db)\<rparr>
             else db)
      in case enqueue (due_event (sj_id row) (sj_revision row) (st_local (jq_runAt (sj_request row))) [(''reconciled'', JBool True)])
                now outUuid (sd_outbox db1) of
           Inl e \<Rightarrow> Inl (OutboxFailed e)
         | Inr (outbox, _) \<Rightarrow> Inr (db1\<lparr>sd_outbox := outbox\<rparr>))"

fun rearm_rows :: "(nat \<Rightarrow> string) \<Rightarrow> iso_time \<Rightarrow> nat \<Rightarrow> sched_job list \<Rightarrow> string \<Rightarrow> sched_db \<Rightarrow> (sched_error option \<times> string) \<times> sched_db" where
  "rearm_rows uuid now n [] cursor db = ((None, cursor), db)"
| "rearm_rows uuid now n (row # rows) cursor db =
     (case rearm_row (uuid n) now row db of
        Inl e \<Rightarrow> ((Some e, sj_id row), db)
      | Inr db' \<Rightarrow> rearm_rows uuid now (Suc n) rows (sj_id row) db')"

definition reconcileNonterminalJobs :: "(nat \<Rightarrow> string) \<Rightarrow> iso_time \<Rightarrow> string \<Rightarrow> sched_db \<Rightarrow> (sched_error option \<times> string) \<times> sched_db" where
  "reconcileNonterminalJobs uuid now cursor db =
     (let rows = take 100 (order_asc sj_id (filter (\<lambda>j. sj_status j \<in> {SPending, SDue, SReconciling} \<and> cursor < sj_id j) (sd_jobs db)))
      in case rearm_rows uuid now 0 rows cursor db of
           ((Some e, c), db') \<Rightarrow> ((Some e, c), db')
         | ((None, c), db') \<Rightarrow> ((None, if length rows < 100 then [] else c), db'))"

definition runtime_exceeded :: "iso_time \<Rightarrow> sched_job \<Rightarrow> sched_db \<Rightarrow> bool" where
  "runtime_exceeded now row db \<longleftrightarrow>
     (case Option.bind (sj_activeDispatchAttemptId row) (\<lambda>a. find_attempt a db) of
        None \<Rightarrow> False
      | Some a \<Rightarrow>
          (case ex_executionActiveSince (sa_execution a) of
             None \<Rightarrow> False
           | Some since \<Rightarrow> max 0 (ex_activeRuntimeMs (sa_execution a)) + max 0 (now - since) \<ge> jq_maxRuntimeMs (sj_request row)))"

definition deadline_request :: "iso_time \<Rightarrow> sched_job \<Rightarrow> sched_db \<Rightarrow> sched_db" where
  "deadline_request now row db =
     snd (requestCancellation now (sj_id row) (sj_revision row) (''runtime:'' @ sj_id row @ '':deadline'')
       (Some ''Scheduled worker runtime exceeded maxRuntimeMs; cancellation requested.'') db)"

definition reconcileRunningDeadlines :: "iso_time \<Rightarrow> string \<Rightarrow> sched_db \<Rightarrow> string \<times> sched_db" where
  "reconcileRunningDeadlines now cursor db =
     (let rows = take 100 (order_asc sj_id (filter (\<lambda>j. sj_status j = SRunning \<and> cursor < sj_id j) (sd_jobs db)))
      in (if length rows < 100 then [] else sj_id (last rows),
          foldl (\<lambda>d row. if runtime_exceeded now row db then deadline_request now row d else d) db rows))"

end
