(* ===== verification/Scheduled_Safety.thy ===== *)
theory Scheduled_Safety
  imports Scheduled_Jobs
begin

text \<open>
  The scheduled job store as a whole: the steps of its clients, what every step does to a job row,
  and the invariant that ties jobs to their dispatch attempts.
\<close>

section \<open>Steps\<close>

text \<open>
  Every operation of the store with any arguments, the wake-ups of the runtime, and any change of
  the outbox by its other users. The runtime calls \<open>transition\<close> only to mark a dispatch whose fate
  is unknown.
\<close>

inductive sched_step :: "sched_db \<Rightarrow> sched_db \<Rightarrow> bool" where
  st_create: "sched_step db (snd (sched_create env uuid outUuid now input db))"
| st_claim: "sched_step db (snd (claimDispatch uuid dispatchUuid now jobId xrev attemptId dispatcher leaseMs db))"
| st_release: "sched_step db (snd (releaseDispatch env now jobId attemptId xrev dispatcher blocker db))"
| st_retry: "sched_step db (snd (retryBlockedJob outUuid now jobId revOpt db))"
| st_complete: "sched_step db (snd (completeDispatch env now jobId attemptId xrev outcome dispatcher ci db))"
| st_resolve: "sched_step db (snd (resolveDispatch env now jobId attemptId xrev r ar db))"
| st_project: "sched_step db (snd (projectEvent env uuid now e db))"
| st_report: "sched_step db (snd (persistReport env uuid jobId runId text now db))"
| st_finalizations: "sched_step db (snd (reconcilePendingReportFinalizations env uuids now limit db))"
| st_cancel: "sched_step db (snd (requestCancellation now jobId xrev requestId reason db))"
| st_cancel_attempt: "sched_step db (snd (claimCancellationAttempt now jobId requestId minimumIntervalMs db))"
| st_evidence: "sched_step db (snd (recordCancellationEvidence now jobId requestId state lastError db))"
| st_finalize_cancel: "sched_step db (snd (finalizeCancellation now jobId requestId state reason db))"
| st_uncertain: "sched_step db (snd (transition now \<lparr>tn_jobId = jobId, tn_expectedRevision = xrev, tn_nextStatus = SUncertainDispatch,
    tn_expectedSourceStatuses = [SDispatching], tn_workSessionId = None, tn_lastError = Some lastError\<rparr> db))"
| st_bind_session: "sched_step db (snd (bindWorkSession now jobId attemptId workSessionId db))"
| st_bind_attempt: "sched_step db (snd (bindAcpAttempt jobId attemptId workSessionId key runId attemptNumber db))"
| st_probe: "sched_step db (recordReconcileProbe now rnd jobId attemptId evidence db)"
| st_due: "sched_step db (snd (markDue now jobId db))"
| st_rearm: "sched_step db (snd (reconcileNonterminalJobs uuids now cursor db))"
| st_deadlines: "sched_step db (snd (reconcileRunningDeadlines now cursor db))"
| st_outbox: "sched_step db (db\<lparr>sd_outbox := outbox\<rparr>)"

definition sched_start :: "sched_db \<Rightarrow> bool" where
  "sched_start db \<longleftrightarrow> sd_jobs db = [] \<and> sd_attempts db = [] \<and> sd_reports db = [] \<and> sd_finalizations db = []"

section \<open>What a step does to a job\<close>

definition terminal :: "sched_status \<Rightarrow> bool" where
  "terminal s \<longleftrightarrow> s \<in> {SCompleted, SFailed, SCancelled}"

definition row_step :: "sched_job \<Rightarrow> sched_job \<Rightarrow> bool" where
  "row_step j j' \<longleftrightarrow> sj_id j' = sj_id j \<and> sj_request j' = sj_request j \<and> sj_revision j \<le> sj_revision j'
     \<and> sj_lifecycleEventCursor j \<le> sj_lifecycleEventCursor j' \<and> (terminal (sj_status j) \<longrightarrow> sj_status j' = sj_status j)"

definition rows_step :: "sched_job table \<Rightarrow> sched_job table \<Rightarrow> bool" where
  "rows_step t t' \<longleftrightarrow> length t \<le> length t' \<and> (\<forall>i < length t. row_step (t ! i) (t' ! i))"

lemma row_step_refl [simp]: "row_step j j"
  by (simp add: row_step_def)

lemma row_step_trans: "row_step a b \<Longrightarrow> row_step b c \<Longrightarrow> row_step a c"
  by (auto simp: row_step_def)

lemma rows_step_refl [simp]: "rows_step t t"
  by (simp add: rows_step_def)

lemma rows_step_trans: "rows_step a b \<Longrightarrow> rows_step b c \<Longrightarrow> rows_step a c"
  unfolding rows_step_def by (meson le_trans less_le_trans row_step_trans)

lemma rows_step_append: "rows_step t (t @ u)"
  by (simp add: rows_step_def nth_append)

lemma rows_step_update:
  assumes "\<And>j. j \<in> set t \<Longrightarrow> P j \<Longrightarrow> row_step j (f j)"
  shows "rows_step t (sql_update P f t)"
  using assms by (simp add: rows_step_def sql_update_def)

lemma find_job_mem: "find_job jobId db = Some j \<Longrightarrow> j \<in> set (sd_jobs db) \<and> sj_id j = jobId"
  unfolding find_job_def using find_Some_mem by fastforce

lemma stamped_simps [simp]:
  "sj_id (stamped s p now j) = sj_id j" "sj_request (stamped s p now j) = sj_request j" "sj_status (stamped s p now j) = sj_status j"
  "sj_revision (stamped s p now j) = sj_revision j" "sj_workSessionId (stamped s p now j) = sj_workSessionId j"
  "sj_lifecycleEventCursor (stamped s p now j) = sj_lifecycleEventCursor j" "sj_cancellation (stamped s p now j) = sj_cancellation j"
  "sj_activeDispatchAttemptId (stamped s p now j) = sj_activeDispatchAttemptId j" "sj_lastError (stamped s p now j) = sj_lastError j"
  by (simp_all add: stamped_def)

lemma confirm_state_simps [simp]:
  "sj_id (confirm_state s j) = sj_id j" "sj_request (confirm_state s j) = sj_request j" "sj_status (confirm_state s j) = sj_status j"
  "sj_revision (confirm_state s j) = sj_revision j" "sj_lifecycleEventCursor (confirm_state s j) = sj_lifecycleEventCursor j"
  "sj_activeDispatchAttemptId (confirm_state s j) = sj_activeDispatchAttemptId j"
  "sj_workSessionId (confirm_state s j) = sj_workSessionId j"
  by (simp_all add: confirm_state_def)

lemma set_blocker_simps [simp]:
  "sj_id (set_blocker env b j) = sj_id j" "sj_request (set_blocker env b j) = sj_request j" "sj_status (set_blocker env b j) = sj_status j"
  "sj_revision (set_blocker env b j) = sj_revision j" "sj_lifecycleEventCursor (set_blocker env b j) = sj_lifecycleEventCursor j"
  "sj_activeDispatchAttemptId (set_blocker env b j) = sj_activeDispatchAttemptId j"
  by (simp_all add: set_blocker_def)

text \<open>The columns the invariant looks at, for each update of a job row.\<close>

lemma claim_update_simps [simp]:
  "sj_id (claim_update xrev a now j) = sj_id j" "sj_request (claim_update xrev a now j) = sj_request j"
  "sj_status (claim_update xrev a now j) = SDispatching" "sj_revision (claim_update xrev a now j) = xrev + 1"
  "sj_lifecycleEventCursor (claim_update xrev a now j) = sj_lifecycleEventCursor j"
  "sj_activeDispatchAttemptId (claim_update xrev a now j) = Some a"
  by (simp_all add: claim_update_def)

lemma release_update_simps [simp]:
  "sj_id (release_update env now b c j) = sj_id j" "sj_request (release_update env now b c j) = sj_request j"
  "sj_status (release_update env now b c j) = release_status b c" "sj_revision (release_update env now b c j) = sj_revision c + 1"
  "sj_lifecycleEventCursor (release_update env now b c j) = sj_lifecycleEventCursor j"
  "sj_activeDispatchAttemptId (release_update env now b c j) = None"
  by (simp_all add: release_update_def Let_def split: option.splits)

lemma retry_update_simps [simp]:
  "sj_id (retry_update now c j) = sj_id j" "sj_request (retry_update now c j) = sj_request j"
  "sj_status (retry_update now c j) = SDue" "sj_revision (retry_update now c j) = sj_revision c + 1"
  "sj_lifecycleEventCursor (retry_update now c j) = sj_lifecycleEventCursor j"
  "sj_activeDispatchAttemptId (retry_update now c j) = sj_activeDispatchAttemptId j"
  by (simp_all add: retry_update_def)

lemma complete_update_simps [simp]:
  "sj_id (complete_update env now x a i c j) = sj_id j" "sj_request (complete_update env now x a i c j) = sj_request j"
  "sj_status (complete_update env now x a i c j) = completion_status x a c"
  "sj_revision (complete_update env now x a i c j) = sj_revision c + 1"
  "sj_lifecycleEventCursor (complete_update env now x a i c j) = sj_lifecycleEventCursor j"
  "sj_activeDispatchAttemptId (complete_update env now x a i c j) = (if x = DispatchFailed then None else Some a)"
  by (simp_all add: complete_update_def Let_def)

lemma resolve_update_simps [simp]:
  "sj_id (resolve_update now r a xrev i c j) = sj_id j" "sj_request (resolve_update now r a xrev i c j) = sj_request j"
  "sj_status (resolve_update now r a xrev i c j) = resolve_status r c"
  "sj_revision (resolve_update now r a xrev i c j) = xrev + 1"
  "sj_lifecycleEventCursor (resolve_update now r a xrev i c j) = sj_lifecycleEventCursor j"
  "sj_activeDispatchAttemptId (resolve_update now r a xrev i c j) = (if r \<in> {RAccepted, ROperatorIntervention} then Some a else None)"
  by (simp_all add: resolve_update_def Let_def)

lemma cancel_update_simps [simp]:
  "sj_id (cancel_update now q w c j) = sj_id j" "sj_request (cancel_update now q w c j) = sj_request j"
  "sj_status (cancel_update now q w c j) = SCancellationRequested" "sj_revision (cancel_update now q w c j) = sj_revision c + 1"
  "sj_lifecycleEventCursor (cancel_update now q w c j) = sj_lifecycleEventCursor j"
  "sj_activeDispatchAttemptId (cancel_update now q w c j) = sj_activeDispatchAttemptId j"
  by (simp_all add: cancel_update_def)

lemma transition_update_simps [simp]:
  "sj_id (transition_update now t c j) = sj_id j" "sj_request (transition_update now t c j) = sj_request j"
  "sj_status (transition_update now t c j) = tn_nextStatus t" "sj_revision (transition_update now t c j) = tn_expectedRevision t + 1"
  "sj_lifecycleEventCursor (transition_update now t c j) = sj_lifecycleEventCursor j"
  "sj_activeDispatchAttemptId (transition_update now t c j) = sj_activeDispatchAttemptId j"
  by (simp_all add: transition_update_def)

lemma project_update_simps [simp]:
  "sj_id (project_update now p e row j) = sj_id j" "sj_request (project_update now p e row j) = sj_request j"
  "sj_status (project_update now p e row j) = coalesce (terminal_status_of p row) (sj_status j)"
  "sj_revision (project_update now p e row j)
     = (if terminal_transition (terminal_status_of p row) then sj_revision row + 1 else sj_revision row)"
  "sj_lifecycleEventCursor (project_update now p e row j) = se_seq e"
  "sj_activeDispatchAttemptId (project_update now p e row j)
     = (if terminal_transition (terminal_status_of p row) then None else sj_activeDispatchAttemptId j)"
  by (simp_all add: project_update_def Let_def split: option.splits)

section \<open>Jobs and their attempts\<close>

text \<open>
  The invariant: keys are unique; an attempt is open exactly when it is the active attempt of its
  job; a job with an active attempt is in one of the states of a dispatched job.
\<close>

definition busy :: "sched_status \<Rightarrow> bool" where
  "busy s \<longleftrightarrow> s \<in> {SDispatching, SRunning, SUncertainDispatch, SOperatorIntervention, SAwaitingApproval, SCancellationRequested}"

definition sched_ok :: "sched_db \<Rightarrow> bool" where
  "sched_ok db \<longleftrightarrow> distinct (map sj_id (sd_jobs db)) \<and> distinct (map sa_id (sd_attempts db))
     \<and> (\<forall>a \<in> set (sd_attempts db). sa_completedAt a = None \<longrightarrow>
          (\<exists>j \<in> set (sd_jobs db). sj_id j = sa_jobId a \<and> sj_activeDispatchAttemptId j = Some (sa_id a)))
     \<and> (\<forall>j \<in> set (sd_jobs db). \<forall>x. sj_activeDispatchAttemptId j = Some x \<longrightarrow>
          busy (sj_status j) \<and> (\<exists>a \<in> set (sd_attempts db). sa_id a = x \<and> sa_jobId a = sj_id j \<and> sa_completedAt a = None))"

definition good :: "sched_db \<Rightarrow> sched_db \<Rightarrow> bool" where
  "good db db' \<longleftrightarrow> sched_ok db' \<and> rows_step (sd_jobs db) (sd_jobs db')"

lemma good_refl: "sched_ok db \<Longrightarrow> good db db"
  by (simp add: good_def)

lemma good_trans: "good a b \<Longrightarrow> good b c \<Longrightarrow> good a c"
  unfolding good_def using rows_step_trans by blast

lemma good_cong: "good db db' \<Longrightarrow> sd_jobs db'' = sd_jobs db' \<Longrightarrow> sd_attempts db'' = sd_attempts db' \<Longrightarrow> good db db''"
  by (simp add: good_def sched_ok_def)

lemma same_good: "sched_ok db \<Longrightarrow> sd_jobs db' = sd_jobs db \<Longrightarrow> sd_attempts db' = sd_attempts db \<Longrightarrow> good db db'"
  using good_cong good_refl by blast

definition keeps_attempt :: "(sched_attempt \<Rightarrow> sched_attempt) \<Rightarrow> bool" where
  "keeps_attempt g \<longleftrightarrow> (\<forall>a. sa_id (g a) = sa_id a \<and> sa_jobId (g a) = sa_jobId a)"

lemma keep_good:
  assumes ok: "sched_ok db"
    and jobs: "sd_jobs db' = sql_update P f (sd_jobs db)" and attempts: "sd_attempts db' = sql_update Q g (sd_attempts db)"
    and f: "\<And>j. j \<in> set (sd_jobs db) \<Longrightarrow> P j \<Longrightarrow> row_step j (f j) \<and> sj_activeDispatchAttemptId (f j) = sj_activeDispatchAttemptId j
      \<and> (sj_activeDispatchAttemptId j \<noteq> None \<longrightarrow> busy (sj_status (f j)))"
    and g: "\<And>a. a \<in> set (sd_attempts db) \<Longrightarrow> Q a \<Longrightarrow> sa_id (g a) = sa_id a \<and> sa_jobId (g a) = sa_jobId a
      \<and> (sa_completedAt (g a) = None \<longleftrightarrow> sa_completedAt a = None)"
  shows "good db db'"
proof -
  define F where "F = (\<lambda>j. if P j then f j else j)"
  define G where "G = (\<lambda>a. if Q a then g a else a)"
  have J: "sd_jobs db' = map F (sd_jobs db)" and A: "sd_attempts db' = map G (sd_attempts db)"
    using jobs attempts by (simp_all add: sql_update_def F_def G_def)
  have f': "sj_id (F j) = sj_id j \<and> sj_activeDispatchAttemptId (F j) = sj_activeDispatchAttemptId j
      \<and> (sj_activeDispatchAttemptId j \<noteq> None \<longrightarrow> busy (sj_status (F j)))" if "j \<in> set (sd_jobs db)" for j
    using f [OF that] ok that by (auto simp: row_step_def sched_ok_def F_def)
  have g': "sa_id (G a) = sa_id a \<and> sa_jobId (G a) = sa_jobId a \<and> (sa_completedAt (G a) = None \<longleftrightarrow> sa_completedAt a = None)"
    if "a \<in> set (sd_attempts db)" for a
    using g [OF that] by (simp add: G_def)
  have ids: "map sj_id (sd_jobs db') = map sj_id (sd_jobs db)" "map sa_id (sd_attempts db') = map sa_id (sd_attempts db)"
    unfolding J A using f' g' by (auto simp: comp_def intro!: map_cong)
  have open_active: "\<exists>j \<in> set (sd_jobs db'). sj_id j = sa_jobId a' \<and> sj_activeDispatchAttemptId j = Some (sa_id a')"
    if mem: "a' \<in> set (sd_attempts db')" and op: "sa_completedAt a' = None" for a'
  proof -
    obtain a where a: "a \<in> set (sd_attempts db)" "a' = G a" using mem unfolding A by auto
    then obtain j where j: "j \<in> set (sd_jobs db)" "sj_id j = sa_jobId a" "sj_activeDispatchAttemptId j = Some (sa_id a)"
      using g' [OF a(1)] op ok unfolding sched_ok_def by metis
    have "F j \<in> set (sd_jobs db')" unfolding J using j(1) by simp
    moreover have "sj_id (F j) = sa_jobId a' \<and> sj_activeDispatchAttemptId (F j) = Some (sa_id a')"
      using f' [OF j(1)] g' [OF a(1)] j a(2) by metis
    ultimately show ?thesis by blast
  qed
  have active_open: "busy (sj_status j') \<and> (\<exists>a \<in> set (sd_attempts db'). sa_id a = x \<and> sa_jobId a = sj_id j' \<and> sa_completedAt a = None)"
    if mem: "j' \<in> set (sd_jobs db')" and act: "sj_activeDispatchAttemptId j' = Some x" for j' x
  proof -
    obtain j where j: "j \<in> set (sd_jobs db)" "j' = F j" using mem unfolding J by auto
    then have "sj_activeDispatchAttemptId j = Some x" using f' [OF j(1)] act by metis
    moreover obtain a where a: "a \<in> set (sd_attempts db)" "sa_id a = x" "sa_jobId a = sj_id j" "sa_completedAt a = None"
      using ok j(1) calculation unfolding sched_ok_def by blast
    have "G a \<in> set (sd_attempts db')" unfolding A using a(1) by simp
    moreover have "sa_id (G a) = x \<and> sa_jobId (G a) = sj_id j' \<and> sa_completedAt (G a) = None"
      using g' [OF a(1)] f' [OF j(1)] a j(2) by metis
    ultimately show ?thesis using f' [OF j(1)] j(2) by auto
  qed
  have "rows_step (sd_jobs db) (sd_jobs db')" unfolding jobs by (rule rows_step_update) (use f in blast)
  with ids open_active active_open ok show ?thesis unfolding good_def sched_ok_def by metis
qed

lemma close_good:
  assumes ok: "sched_ok db" and ex: "ex \<in> set (sd_jobs db)" "P ex" "\<And>j. P j \<Longrightarrow> sj_id j = sj_id ex"
    and jobs: "sd_jobs db' = sql_update P f (sd_jobs db)" and attempts: "sd_attempts db' = sql_update Q g (sd_attempts db)"
    and f: "row_step ex (f ex)" "sj_activeDispatchAttemptId (f ex) = None"
    and g: "\<And>a. a \<in> set (sd_attempts db) \<Longrightarrow> Q a \<Longrightarrow> sa_id (g a) = sa_id a \<and> sa_jobId (g a) = sa_jobId a
      \<and> sa_jobId a = sj_id ex \<and> sa_completedAt (g a) \<noteq> None"
    and all: "\<And>a. a \<in> set (sd_attempts db) \<Longrightarrow> sa_jobId a = sj_id ex \<Longrightarrow> sa_completedAt a = None \<Longrightarrow> Q a"
  shows "good db db'"
proof -
  define G where "G = (\<lambda>a. if Q a then g a else a)"
  have dist: "distinct (map sj_id (sd_jobs db))" using ok by (simp add: sched_ok_def)
  have J: "sd_jobs db' = map (\<lambda>j. if j = ex then f ex else j) (sd_jobs db)"
    unfolding jobs by (rule sql_update_one_row [where P = P, OF dist ex(1,2)]) (use ex(3) in blast)
  have A: "sd_attempts db' = map G (sd_attempts db)" using attempts by (simp add: sql_update_def G_def)
  have fid: "sj_id (f ex) = sj_id ex" using f(1) by (simp add: row_step_def)
  have g': "sa_id (G a) = sa_id a \<and> sa_jobId (G a) = sa_jobId a" if "a \<in> set (sd_attempts db)" for a using g [OF that] by (simp add: G_def)
  have ids: "map sj_id (sd_jobs db') = map sj_id (sd_jobs db)" "map sa_id (sd_attempts db') = map sa_id (sd_attempts db)"
    unfolding J A using fid g' by (auto simp: comp_def intro!: map_cong)
  have open_active: "\<exists>j \<in> set (sd_jobs db'). sj_id j = sa_jobId a' \<and> sj_activeDispatchAttemptId j = Some (sa_id a')"
    if mem: "a' \<in> set (sd_attempts db')" and op: "sa_completedAt a' = None" for a'
  proof -
    obtain a where a: "a \<in> set (sd_attempts db)" "a' = G a" using mem unfolding A by auto
    then have nq: "\<not> Q a" "a' = a" using g [OF a(1)] op by (auto simp: G_def split: if_splits)
    then obtain j where j: "j \<in> set (sd_jobs db)" "sj_id j = sa_jobId a" "sj_activeDispatchAttemptId j = Some (sa_id a)"
      using op a(1) nq(2) ok unfolding sched_ok_def by metis
    have "j \<noteq> ex" using all [OF a(1)] nq op j(2) by auto
    with j have "j \<in> set (sd_jobs db')" unfolding J by force
    with j nq(2) show ?thesis by blast
  qed
  have active_open: "busy (sj_status j) \<and> (\<exists>a \<in> set (sd_attempts db'). sa_id a = x \<and> sa_jobId a = sj_id j \<and> sa_completedAt a = None)"
    if mem: "j \<in> set (sd_jobs db')" and act: "sj_activeDispatchAttemptId j = Some x" for j x
  proof -
    have j: "j \<in> set (sd_jobs db)" "j \<noteq> ex" using mem act f(2) unfolding J by (auto split: if_splits)
    then obtain a where a: "busy (sj_status j)" "a \<in> set (sd_attempts db)" "sa_id a = x" "sa_jobId a = sj_id j" "sa_completedAt a = None"
      using ok act unfolding sched_ok_def by blast
    have "sj_id j \<noteq> sj_id ex" using key_unique [OF dist j(1) ex(1)] j(2) by blast
    then have "\<not> Q a" using g [OF a(2)] a(4) by auto
    with a(2) have "a \<in> set (sd_attempts db')" unfolding A G_def by force
    with a show ?thesis by blast
  qed
  have "row_step j (f j)" if "j \<in> set (sd_jobs db)" "P j" for j
    using key_unique [OF dist that(1) ex(1)] ex(3) [OF that(2)] f(1) by metis
  then have "rows_step (sd_jobs db) (sd_jobs db')" unfolding jobs by (rule rows_step_update)
  with ids open_active active_open ok show ?thesis unfolding good_def sched_ok_def by metis
qed

text \<open>The open attempts of a job are at most its active one.\<close>

lemma open_attempt_active:
  assumes "sched_ok db" "a \<in> set (sd_attempts db)" "sa_completedAt a = None" "j \<in> set (sd_jobs db)" "sa_jobId a = sj_id j"
  shows "sj_activeDispatchAttemptId j = Some (sa_id a)"
proof -
  obtain j' where "j' \<in> set (sd_jobs db)" "sj_id j' = sa_jobId a" "sj_activeDispatchAttemptId j' = Some (sa_id a)"
    using assms unfolding sched_ok_def by metis
  with assms key_unique [of sj_id "sd_jobs db" j' j] show ?thesis unfolding sched_ok_def by metis
qed

lemma active_attempt_open:
  assumes "sched_ok db" "j \<in> set (sd_jobs db)" "sj_activeDispatchAttemptId j = Some x" "a \<in> set (sd_attempts db)" "sa_id a = x"
  shows "sa_jobId a = sj_id j \<and> sa_completedAt a = None"
proof -
  obtain a' where "a' \<in> set (sd_attempts db)" "sa_id a' = x" "sa_jobId a' = sj_id j" "sa_completedAt a' = None"
    using assms unfolding sched_ok_def by metis
  with assms key_unique [of sa_id "sd_attempts db" a' a] show ?thesis unfolding sched_ok_def by metis
qed

section \<open>Every operation keeps the invariant\<close>

lemma snd_read_back [simp]: "snd (read_back jobId e db) = db"
  by (simp add: read_back_def)

lemma one_change:
  assumes "\<not> sql_changes P t \<noteq> 1"
  obtains x where "x \<in> set t" "P x"
  using assms sql_changes_pos_iff [of P t] by auto

lemma keep_jobs_good:
  assumes "sched_ok db" "sd_jobs db' = sql_update P f (sd_jobs db)" "sd_attempts db' = sd_attempts db"
    "\<And>j. j \<in> set (sd_jobs db) \<Longrightarrow> P j \<Longrightarrow> row_step j (f j) \<and> sj_activeDispatchAttemptId (f j) = sj_activeDispatchAttemptId j
      \<and> (sj_activeDispatchAttemptId j \<noteq> None \<longrightarrow> busy (sj_status (f j)))"
  shows "good db db'"
  using assms by (intro keep_good [where Q = "\<lambda>_. False" and g = "\<lambda>a. a" and P = P and f = f]) (auto simp: sql_update_def)

lemma keep_attempts_good:
  assumes "sched_ok db" "sd_jobs db' = sd_jobs db" "sd_attempts db' = sql_update Q g (sd_attempts db)"
    "\<And>a. a \<in> set (sd_attempts db) \<Longrightarrow> Q a \<Longrightarrow> sa_id (g a) = sa_id a \<and> sa_jobId (g a) = sa_jobId a
      \<and> (sa_completedAt (g a) = None \<longleftrightarrow> sa_completedAt a = None)"
  shows "good db db'"
  using assms by (intro keep_good [where P = "\<lambda>_. False" and f = "\<lambda>j. j" and Q = Q and g = g]) (auto simp: sql_update_def)

lemma active_busy: "sched_ok db \<Longrightarrow> j \<in> set (sd_jobs db) \<Longrightarrow> sj_activeDispatchAttemptId j \<noteq> None \<Longrightarrow> busy (sj_status j)"
  by (auto simp: sched_ok_def)

lemma idle_inactive: "sched_ok db \<Longrightarrow> j \<in> set (sd_jobs db) \<Longrightarrow> \<not> busy (sj_status j) \<Longrightarrow> sj_activeDispatchAttemptId j = None"
  by (auto simp: sched_ok_def)

text \<open>Closing the active attempt of a job together with clearing it there.\<close>

lemma close_active_good:
  assumes ok: "sched_ok db" and one: "\<not> sql_changes P (sd_jobs db) \<noteq> 1" "\<not> sql_changes Q (sd_attempts db) \<noteq> 1"
    and P: "\<And>j. P j \<Longrightarrow> sj_id j = jobId \<and> sj_activeDispatchAttemptId j = Some attemptId"
    and Q: "\<And>a. Q a \<Longrightarrow> attempt_open attemptId jobId a"
    and db': "sd_jobs db' = sql_update P f (sd_jobs db)" "sd_attempts db' = sql_update Q g (sd_attempts db)"
    and f: "\<And>j. j \<in> set (sd_jobs db) \<Longrightarrow> P j \<Longrightarrow> row_step j (f j) \<and> sj_activeDispatchAttemptId (f j) = None"
    and g: "\<And>a. Q a \<Longrightarrow> sa_id (g a) = sa_id a \<and> sa_jobId (g a) = sa_jobId a \<and> sa_completedAt (g a) \<noteq> None"
  shows "good db db'"
proof -
  obtain ex where ex: "ex \<in> set (sd_jobs db)" "P ex" using one_change [OF one(1)] .
  obtain a where a: "a \<in> set (sd_attempts db)" "Q a" using one_change [OF one(2)] .
  show ?thesis
  proof (rule close_good [where P = P and Q = Q and f = f and g = g and ex = ex, OF ok ex _ db'])
    fix b assume b: "b \<in> set (sd_attempts db)" "sa_jobId b = sj_id ex" "sa_completedAt b = None"
    have "sa_id b = sa_id a"
      using open_attempt_active [OF ok b(1,3) ex(1) b(2)] P [OF ex(2)] Q [OF a(2)] by (simp add: attempt_open_def)
    then have "b = a" using key_unique [of sa_id "sd_attempts db" b a] ok a(1) b(1) by (simp add: sched_ok_def)
    with a(2) show "Q b" by simp
  qed (use P Q f [OF ex] g P [OF ex(2)] in \<open>auto simp: attempt_open_def\<close>)
qed

lemma find_job_unique:
  assumes "sched_ok db" "find_job jobId db = Some current" "j \<in> set (sd_jobs db)" "sj_id j = jobId"
  shows "j = current"
  using assms find_job_mem [OF assms(2)] key_unique [of sj_id "sd_jobs db" j current] by (simp add: sched_ok_def)

lemma create_good:
  assumes "sched_ok db"
  shows "good db (snd (sched_create env uuid outUuid now input db))"
proof -
  have append: "good db db'" if new: "sd_jobs db' = sd_jobs db @ [j]" "sd_attempts db' = sd_attempts db"
    "sj_id j \<notin> sj_id ` set (sd_jobs db)" "sj_activeDispatchAttemptId j = None" for db' j
    using new assms unfolding good_def sched_ok_def by (auto simp: rows_step_append)
  have "good db (snd (commitJob env uuid outUuid now input db))"
    unfolding commitJob_def Let_def
    by (auto simp: good_refl [OF assms] insert_allowed_def new_job_def intro!: append split: option.splits sum.splits)
  then show ?thesis unfolding sched_create_def by (auto simp: good_refl [OF assms] split: option.splits)
qed

lemma open_good:
  assumes ok: "sched_ok db" and one: "\<not> sql_changes P (sd_jobs db) \<noteq> 1"
    and P: "\<And>j. P j \<Longrightarrow> sj_id j = jobId \<and> \<not> busy (sj_status j)"
    and jobs: "sd_jobs db' = sql_update P f (sd_jobs db)" and attempts: "sd_attempts db' = sd_attempts db @ [a]"
    and a: "sa_id a \<notin> sa_id ` set (sd_attempts db)" "sa_jobId a = jobId" "sa_completedAt a = None"
    and f: "\<And>j. P j \<Longrightarrow> row_step j (f j) \<and> sj_activeDispatchAttemptId (f j) = Some (sa_id a) \<and> busy (sj_status (f j))"
  shows "good db db'"
proof -
  obtain ex where ex: "ex \<in> set (sd_jobs db)" "P ex" using one_change [OF one] .
  have dist: "distinct (map sj_id (sd_jobs db))" using ok by (simp add: sched_ok_def)
  have idle: "sj_activeDispatchAttemptId ex = None" using idle_inactive [OF ok ex(1)] P [OF ex(2)] by blast
  have J: "sd_jobs db' = map (\<lambda>j. if j = ex then f ex else j) (sd_jobs db)"
    unfolding jobs by (rule sql_update_one_row [where P = P, OF dist ex]) (use P ex(2) in metis)
  have fex: "sj_id (f ex) = jobId" "f ex \<in> set (sd_jobs db')" "sj_activeDispatchAttemptId (f ex) = Some (sa_id a)" "busy (sj_status (f ex))"
    using f [OF ex(2)] P [OF ex(2)] ex(1) unfolding J by (auto simp: row_step_def)
  have ids: "map sj_id (sd_jobs db') = map sj_id (sd_jobs db)" unfolding J using fex(1) P [OF ex(2)] by auto
  have "\<exists>j \<in> set (sd_jobs db'). sj_id j = sa_jobId b \<and> sj_activeDispatchAttemptId j = Some (sa_id b)"
    if b: "b \<in> set (sd_attempts db')" and op: "sa_completedAt b = None" for b
  proof (cases "b = a")
    case True
    with fex a(2) show ?thesis by metis
  next
    case False
    with b have "b \<in> set (sd_attempts db)" unfolding attempts by simp
    then obtain j where j: "j \<in> set (sd_jobs db)" "sj_id j = sa_jobId b" "sj_activeDispatchAttemptId j = Some (sa_id b)"
      using op ok unfolding sched_ok_def by metis
    with idle have "j \<noteq> ex" by auto
    with j(1) have "j \<in> set (sd_jobs db')" unfolding J by force
    with j show ?thesis by blast
  qed
  moreover have "busy (sj_status j) \<and> (\<exists>b \<in> set (sd_attempts db'). sa_id b = y \<and> sa_jobId b = sj_id j \<and> sa_completedAt b = None)"
    if j: "j \<in> set (sd_jobs db')" and act: "sj_activeDispatchAttemptId j = Some y" for j y
  proof (cases "j = f ex")
    case True
    with act fex a show ?thesis unfolding attempts by simp
  next
    case False
    with j have "j \<in> set (sd_jobs db)" unfolding J by (auto split: if_splits)
    with act ok obtain b where "busy (sj_status j)" "b \<in> set (sd_attempts db)" "sa_id b = y" "sa_jobId b = sj_id j" "sa_completedAt b = None"
      unfolding sched_ok_def by metis
    then show ?thesis unfolding attempts by auto
  qed
  moreover have "rows_step (sd_jobs db) (sd_jobs db')" unfolding jobs by (rule rows_step_update) (use f in blast)
  moreover have "distinct (map sa_id (sd_attempts db'))" unfolding attempts using a(1) ok by (auto simp: sched_ok_def)
  ultimately show ?thesis using ids dist unfolding good_def sched_ok_def by metis
qed

lemma claim_good:
  assumes "sched_ok db"
  shows "good db (snd (claimDispatch uuid dispatchUuid now jobId n attemptId dispatcher leaseMs db))"
proof -
  define x where "x = coalesce attemptId (''scha_'' @ uuid)"
  define a where "a = new_attempt x jobId (''disp_'' @ dispatchUuid) now dispatcher (now + coalesce leaseMs 60000)"
  let ?P = "claim_matches jobId n"
  have a: "sa_id a = x" "sa_jobId a = jobId" "sa_completedAt a = None" by (simp_all add: a_def new_attempt_def)
  have "good db (db\<lparr>sd_jobs := sql_update ?P (claim_update n x now) (sd_jobs db), sd_attempts := sd_attempts db @ [a]\<rparr>)"
    if one: "\<not> sql_changes ?P (sd_jobs db) \<noteq> 1" and fresh: "x \<notin> sa_id ` set (sd_attempts db)"
    by (rule open_good [where P = ?P and jobId = jobId and f = "claim_update n x now" and a = a, OF assms one])
      (use a fresh in \<open>auto simp: claim_matches_def row_step_def terminal_def busy_def\<close>)
  then show ?thesis
    unfolding claimDispatch_def Let_def x_def [symmetric] a_def [symmetric]
    by (auto simp: good_refl [OF assms] split: option.splits)
qed

lemma release_good:
  assumes "sched_ok db"
  shows "good db (snd (releaseDispatch env now jobId attemptId n dispatcher blocker db))"
proof (cases "find_job jobId db")
  case None
  then show ?thesis by (simp add: releaseDispatch_def good_refl [OF assms])
next
  case (Some current)
  note cur = find_job_mem [OF Some]
  let ?P = "\<lambda>j. sj_id j = jobId \<and> sj_revision j = sj_revision current
    \<and> sj_status j \<in> {SDispatching, SCancellationRequested} \<and> sj_activeDispatchAttemptId j = Some attemptId"
  let ?Q = "\<lambda>a. attempt_open attemptId jobId a \<and> sa_dispatcherInstanceId a = Some dispatcher \<and> sa_outcome a = None"
  let ?db = "db\<lparr>sd_jobs := sql_update ?P (release_update env now blocker current) (sd_jobs db),
    sd_attempts := sql_update ?Q (release_attempt env now blocker) (sd_attempts db)\<rparr>"
  have "good db ?db" if one: "\<not> sql_changes ?P (sd_jobs db) \<noteq> 1" "\<not> sql_changes ?Q (sd_attempts db) \<noteq> 1"
    by (rule close_active_good [where P = ?P and Q = ?Q and f = "release_update env now blocker current"
          and g = "release_attempt env now blocker" and jobId = jobId and attemptId = attemptId, OF assms one])
      (use cur in \<open>auto simp: row_step_def terminal_def release_attempt_def\<close>)
  with Some show ?thesis by (auto simp: releaseDispatch_def Let_def good_refl [OF assms])
qed

lemma retry_good:
  assumes "sched_ok db"
  shows "good db (snd (retryBlockedJob outUuid now jobId m db))"
proof (cases "find_job jobId db")
  case None
  then show ?thesis by (simp add: retryBlockedJob_def good_refl [OF assms])
next
  case (Some current)
  let ?P = "\<lambda>j. sj_id j = jobId \<and> sj_revision j = sj_revision current \<and> sj_status j = SBlocked"
  have "good db (db\<lparr>sd_jobs := sql_update ?P (retry_update now current) (sd_jobs db), sd_outbox := ob\<rparr>)" for ob
    by (rule keep_jobs_good [OF assms, where P = ?P and f = "retry_update now current"])
      (use idle_inactive [OF assms] in \<open>auto simp: row_step_def terminal_def busy_def\<close>)
  with Some show ?thesis by (auto simp: retryBlockedJob_def Let_def good_refl [OF assms] split: sum.splits)
qed

lemma keep_jobs_upd:
  assumes "sched_ok db"
    "\<And>j. j \<in> set (sd_jobs db) \<Longrightarrow> P j \<Longrightarrow> row_step j (f j) \<and> sj_activeDispatchAttemptId (f j) = sj_activeDispatchAttemptId j
      \<and> (sj_activeDispatchAttemptId j \<noteq> None \<longrightarrow> busy (sj_status (f j)))"
  shows "good db (db\<lparr>sd_jobs := sql_update P f (sd_jobs db)\<rparr>)"
  by (rule keep_jobs_good [OF assms(1) _ _ assms(2)]) simp_all

lemma keep_attempts_upd:
  assumes "sched_ok db"
    "\<And>a. a \<in> set (sd_attempts db) \<Longrightarrow> Q a \<Longrightarrow> sa_id (g a) = sa_id a \<and> sa_jobId (g a) = sa_jobId a
      \<and> (sa_completedAt (g a) = None \<longleftrightarrow> sa_completedAt a = None)"
  shows "good db (db\<lparr>sd_attempts := sql_update Q g (sd_attempts db)\<rparr>)"
  by (rule keep_attempts_good [OF assms(1) _ _ assms(2)]) simp_all

lemma complete_good:
  assumes "sched_ok db"
  shows "good db (snd (completeDispatch env now jobId attemptId n outcome dispatcher i db))"
proof (cases "find_job jobId db")
  case None
  then show ?thesis by (simp add: completeDispatch_def good_refl [OF assms])
next
  case (Some current)
  note cur = find_job_unique [OF assms Some]
  let ?P = "\<lambda>j. sj_id j = jobId \<and> sj_revision j = sj_revision current
    \<and> sj_status j \<in> {SDispatching, SRunning, SAwaitingApproval, SCancellationRequested} \<and> sj_activeDispatchAttemptId j = Some attemptId"
  let ?Q = "\<lambda>a. attempt_open attemptId jobId a \<and> sa_dispatcherInstanceId a = Some dispatcher"
  let ?f = "complete_update env now outcome attemptId i current" and ?g = "complete_attempt env now outcome i"
  let ?db = "db\<lparr>sd_jobs := sql_update ?P ?f (sd_jobs db), sd_attempts := sql_update ?Q ?g (sd_attempts db)\<rparr>"
  have f: "row_step j (?f j)" if "?P j" for j using that by (auto simp: row_step_def terminal_def)
  have b: "busy (completion_status outcome attemptId current)" if "outcome \<noteq> DispatchFailed"
    using that by (cases outcome) (auto simp: completion_status_def busy_def outcome_status_def lifecycle_advanced_def)
  have "good db ?db" if one: "\<not> sql_changes ?P (sd_jobs db) \<noteq> 1" "\<not> sql_changes ?Q (sd_attempts db) \<noteq> 1"
  proof (cases "outcome = DispatchFailed")
    case True
    show ?thesis
      by (rule close_active_good [where P = ?P and Q = ?Q and f = ?f and g = ?g and jobId = jobId and attemptId = attemptId, OF assms one])
        (use f True in \<open>auto simp: complete_attempt_def\<close>)
  next
    case False
    show ?thesis
      by (rule keep_good [where P = ?P and Q = ?Q and f = ?f and g = ?g, OF assms])
        (use f b False in \<open>auto simp: complete_attempt_def attempt_open_def\<close>)
  qed
  with Some show ?thesis by (auto simp: completeDispatch_def Let_def good_refl [OF assms])
qed

lemma resolve_good:
  assumes "sched_ok db"
  shows "good db (snd (resolveDispatch env now jobId attemptId n r i db))"
proof (cases "find_job jobId db")
  case None
  then show ?thesis by (simp add: resolveDispatch_def good_refl [OF assms])
next
  case (Some current)
  let ?P = "\<lambda>j. sj_id j = jobId \<and> sj_revision j = n \<and> sj_activeDispatchAttemptId j = Some attemptId
    \<and> sj_status j \<in> {SDispatching, SUncertainDispatch, SOperatorIntervention, SCancellationRequested}"
  let ?Q = "attempt_open attemptId jobId"
  let ?f = "resolve_update now r attemptId n i current" and ?g = "resolve_attempt env now r i"
  let ?db = "db\<lparr>sd_jobs := sql_update ?P ?f (sd_jobs db), sd_attempts := sql_update ?Q ?g (sd_attempts db)\<rparr>"
  have f: "row_step j (?f j)" if "?P j" for j using that by (auto simp: row_step_def terminal_def)
  have "good db ?db" if one: "\<not> sql_changes ?P (sd_jobs db) \<noteq> 1" "\<not> sql_changes ?Q (sd_attempts db) \<noteq> 1"
  proof (cases "r \<in> {RAccepted, ROperatorIntervention}")
    case False
    then have "resolution_terminal r \<or> r = RUnstarted" by (cases r) (auto simp: resolution_terminal_def)
    then show ?thesis
      by (intro close_active_good [where P = ?P and Q = ?Q and f = ?f and g = ?g and jobId = jobId and attemptId = attemptId, OF assms one])
        (use f False in \<open>auto simp: resolve_attempt_def\<close>)
  next
    case True
    show ?thesis
      by (rule keep_good [where P = ?P and Q = ?Q and f = ?f and g = ?g, OF assms])
        (use f True in \<open>auto simp: resolve_attempt_def attempt_open_def resolution_terminal_def resolve_status_def resolution_status_def busy_def\<close>)
  qed
  with Some show ?thesis by (auto simp: resolveDispatch_def Let_def good_refl [OF assms])
qed

lemma cancel_good:
  assumes "sched_ok db"
  shows "good db (snd (requestCancellation now jobId n requestId reason db))"
proof (cases "find_job jobId db")
  case None
  then show ?thesis by (simp add: requestCancellation_def good_refl [OF assms])
next
  case (Some current)
  let ?P = "\<lambda>j. sj_id j = jobId \<and> sj_revision j = n"
  let ?f = "cancel_update now requestId reason current"
  have "good db (db\<lparr>sd_jobs := sql_update ?P ?f (sd_jobs db)\<rparr>)"
    if "sj_status current \<notin> {SCancelled, SCancellationRequested}" "sj_status current \<notin> {SCompleted, SFailed}" "sj_revision current = n"
    by (rule keep_jobs_upd [OF assms])
      (use that find_job_unique [OF assms Some] in \<open>auto simp: row_step_def terminal_def busy_def\<close>)
  with Some show ?thesis by (auto simp: requestCancellation_def Let_def good_refl [OF assms])
qed

lemma cancel_attempt_good:
  assumes "sched_ok db"
  shows "good db (snd (claimCancellationAttempt now jobId requestId interval db))"
  unfolding claimCancellationAttempt_def Let_def snd_conv
  by (rule keep_jobs_upd [OF assms]) (auto simp: row_step_def cancelling_def busy_def)

lemma evidence_good:
  assumes "sched_ok db"
  shows "good db (snd (recordCancellationEvidence now jobId requestId state lastError db))"
proof -
  let ?f = "\<lambda>j. (confirm_state state j)\<lparr>sj_lastError := lastError, sj_revision := sj_revision j + 1, sj_updatedAt := now\<rparr>"
  have "good db (db\<lparr>sd_jobs := sql_update (cancelling jobId requestId) ?f (sd_jobs db)\<rparr>)"
    by (rule keep_jobs_upd [OF assms]) (auto simp: row_step_def cancelling_def busy_def)
  then show ?thesis by (auto simp: recordCancellationEvidence_def good_refl [OF assms])
qed

lemma finalize_cancel_good:
  assumes "sched_ok db"
  shows "good db (snd (finalizeCancellation now jobId requestId state reason db))"
proof -
  let ?P = "\<lambda>j. cancelling jobId requestId j \<and> cc_lastConfirmedState (sj_cancellation j) = Some state"
  let ?f = "\<lambda>j. stamped SCancelled (Some SCancellationRequested) now ((confirm_state state j)\<lparr>sj_status := SCancelled,
    sj_revision := sj_revision j + 1, sj_activeDispatchAttemptId := None,
    sj_lastError := Some (coalesce reason ''Scheduled job cancellation confirmed.''), sj_updatedAt := now\<rparr>)"
  let ?Q = "\<lambda>a. sa_jobId a = jobId \<and> sa_completedAt a = None" and ?g = "\<lambda>a. a\<lparr>sa_completedAt := Some now, sa_outcome := Some ''cancelled''\<rparr>"
  have "good db (db\<lparr>sd_jobs := sql_update ?P ?f (sd_jobs db), sd_attempts := sql_update ?Q ?g (sd_attempts db)\<rparr>)"
    if one: "\<not> sql_changes ?P (sd_jobs db) \<noteq> 1"
  proof -
    obtain ex where ex: "ex \<in> set (sd_jobs db)" "?P ex" using one_change [OF one] .
    then have "sj_id ex = jobId" by (simp add: cancelling_def)
    with ex show ?thesis
      by (intro close_good [where P = ?P and f = ?f and Q = ?Q and g = ?g and ex = ex, OF assms])
        (auto simp: cancelling_def row_step_def terminal_def)
  qed
  then show ?thesis by (auto simp: finalizeCancellation_def Let_def good_refl [OF assms])
qed

lemma uncertain_good:
  assumes "sched_ok db" "tn_nextStatus t = SUncertainDispatch" "tn_expectedSourceStatuses t = [SDispatching]"
  shows "good db (snd (transition now t db))"
proof -
  have "good db (db\<lparr>sd_jobs := sql_update (\<lambda>j. sj_id j = tn_jobId t \<and> sj_revision j = tn_expectedRevision t
      \<and> (tn_expectedSourceStatuses t \<noteq> [] \<longrightarrow> sj_status j \<in> set (tn_expectedSourceStatuses t))) (transition_update now t c) (sd_jobs db)\<rparr>)" for c
    by (rule keep_jobs_upd [OF assms(1)]) (use assms(2,3) in \<open>auto simp: row_step_def terminal_def busy_def\<close>)
  with assms show ?thesis by (auto simp: transition_def Let_def good_refl split: sum.splits option.splits)
qed

lemma bind_session_good:
  assumes "sched_ok db"
  shows "good db (snd (bindWorkSession now jobId attemptId workSessionId db))"
proof -
  let ?P = "\<lambda>j. sj_id j = jobId \<and> sj_activeDispatchAttemptId j = Some attemptId
    \<and> sj_status j \<in> {SDispatching, SRunning, SUncertainDispatch, SOperatorIntervention, SCancellationRequested}"
  let ?f = "\<lambda>j. j\<lparr>sj_workSessionId := Some workSessionId, sj_updatedAt := now\<rparr>"
  have "good db (db\<lparr>sd_jobs := sql_update ?P ?f (sd_jobs db)\<rparr>)"
    by (rule keep_jobs_upd [OF assms]) (auto simp: row_step_def busy_def)
  then show ?thesis by (auto simp: bindWorkSession_def Let_def good_refl [OF assms])
qed

lemma bind_attempt_good:
  assumes "sched_ok db"
  shows "good db (snd (bindAcpAttempt jobId attemptId workSessionId key runId attemptNumber db))"
proof -
  have "good db (db\<lparr>sd_attempts := sql_update Q (\<lambda>x. x\<lparr>sa_acp := h x\<rparr>) (sd_attempts db)\<rparr>)" for Q h
    by (rule keep_attempts_upd [OF assms]) simp
  then show ?thesis unfolding bindAcpAttempt_def Let_def by (auto simp: good_refl [OF assms] split: option.splits)
qed

lemma probe_good:
  assumes "sched_ok db"
  shows "good db (recordReconcileProbe now rnd jobId attemptId evidence db)"
proof -
  have "good db (update_attempt attemptId (\<lambda>x. x\<lparr>sa_probe := h x\<rparr>) db)" for h
    unfolding update_attempt_def by (rule keep_attempts_upd [OF assms]) simp
  then show ?thesis unfolding recordReconcileProbe_def Let_def by (auto simp: good_refl [OF assms] split: option.splits)
qed

lemma due_good:
  assumes "sched_ok db"
  shows "good db (snd (markDue now jobId db))"
proof -
  let ?f = "\<lambda>j. j\<lparr>sj_status := SDue, sj_revision := sj_revision j + 1, sj_updatedAt := now,
    sj_stamps := (sj_stamps j)\<lparr>sc_lastStateChangedAt := Some now\<rparr>\<rparr>"
  have "good db (db\<lparr>sd_jobs := sql_update (\<lambda>j. sj_id j = jobId \<and> sj_status j = SPending) ?f (sd_jobs db)\<rparr>)"
    by (rule keep_jobs_upd [OF assms])
      (use idle_inactive [OF assms] in \<open>auto simp: row_step_def terminal_def busy_def\<close>)
  then show ?thesis by (auto simp: markDue_def Let_def)
qed

lemma rearm_row_good:
  assumes "sched_ok db" "rearm_row outUuid now row db = Inr db'"
  shows "good db db'"
proof -
  let ?s = "if date_parse (jq_runAt (sj_request row)) \<le> now then SDue else SPending"
  let ?P = "\<lambda>j. sj_id j = sj_id row \<and> sj_status j \<in> {SPending, SDue, SReconciling} \<and> sj_revision j = sj_revision row"
  let ?f = "\<lambda>j. j\<lparr>sj_status := ?s, sj_updatedAt := now,
    sj_stamps := (if sj_status j \<noteq> ?s then (sj_stamps j)\<lparr>sc_lastStateChangedAt := Some now\<rparr> else sj_stamps j)\<rparr>"
  have g: "good db (db\<lparr>sd_jobs := sql_update ?P ?f (sd_jobs db)\<rparr>)"
    by (rule keep_jobs_upd [OF assms(1)])
      (use idle_inactive [OF assms(1)] in \<open>auto simp: row_step_def terminal_def busy_def\<close>)
  show ?thesis
  proof (cases "sj_status row = SReconciling")
    case True
    with assms(2) have "sd_jobs db' = sql_update ?P ?f (sd_jobs db)" "sd_attempts db' = sd_attempts db"
      by (auto simp: rearm_row_def Let_def split: sum.splits)
    with good_cong [OF g, of db'] show ?thesis by simp
  next
    case False
    with assms(2) have "sd_jobs db' = sd_jobs db" "sd_attempts db' = sd_attempts db"
      by (auto simp: rearm_row_def Let_def split: sum.splits)
    with same_good [OF assms(1)] show ?thesis by blast
  qed
qed

lemma rearm_good:
  assumes "sched_ok db"
  shows "good db (snd (reconcileNonterminalJobs uuids now cursor db))"
proof -
  have "good db (snd (rearm_rows uuids now k rows c db))" if "sched_ok db" for k rows c db
    using that
  proof (induction rows arbitrary: k c db)
    case Nil
    then show ?case by (simp add: good_refl)
  next
    case (Cons row rows)
    show ?case
    proof (cases "rearm_row (uuids k) now row db")
      case (Inl e)
      with Cons show ?thesis by (simp add: good_refl)
    next
      case (Inr db')
      with Cons.prems have g: "good db db'" by (rule rearm_row_good)
      then have "sched_ok db'" by (simp add: good_def)
      from Cons.IH [OF this] g Inr good_trans show ?thesis by auto
    qed
  qed
  moreover define rows where "rows = take 100 (order_asc sj_id
    (filter (\<lambda>j. sj_status j \<in> {SPending, SDue, SReconciling} \<and> cursor < sj_id j) (sd_jobs db)))"
  moreover obtain e c db' where run: "rearm_rows uuids now 0 rows cursor db = ((e, c), db')" by (metis surj_pair)
  moreover have "snd (reconcileNonterminalJobs uuids now cursor db) = db'"
    unfolding reconcileNonterminalJobs_def Let_def rows_def [symmetric] run by (cases e) simp_all
  ultimately show ?thesis using assms by (metis snd_conv)
qed

lemma deadlines_good:
  assumes "sched_ok db"
  shows "good db (snd (reconcileRunningDeadlines now cursor db))"
proof -
  have "good d (foldl (\<lambda>d row. if R row then deadline_request now row d else d) d rows)" if "sched_ok d" for R rows d
    using that
  proof (induction rows arbitrary: d)
    case Nil
    then show ?case by (simp add: good_refl)
  next
    case (Cons row rows)
    have g: "good d (if R row then deadline_request now row d else d)"
      using cancel_good [OF Cons.prems] good_refl [OF Cons.prems] by (simp add: deadline_request_def)
    then have "sched_ok (if R row then deadline_request now row d else d)" by (simp add: good_def)
    from Cons.IH [OF this] good_trans [OF g] show ?case by simp
  qed
  with assms show ?thesis by (simp add: reconcileRunningDeadlines_def Let_def)
qed

lemma obligation_same [simp]:
  "sd_jobs (recordReportFinalizationObligation uuid now e db) = sd_jobs db"
  "sd_attempts (recordReportFinalizationObligation uuid now e db) = sd_attempts db"
  by (simp_all add: recordReportFinalizationObligation_def split: option.splits)

lemma persist_same:
  assumes "persistReportWithinTransaction env uuid jobId runId text now db = (r, db')"
  shows "sd_jobs db' = sd_jobs db \<and> sd_attempts db' = sd_attempts db"
  using assms by (auto simp: persistReportWithinTransaction_def Let_def split: if_splits option.splits)

lemma finalize_same:
  assumes "finalizeReportObligationWithinTransaction env uuid ob now db = (r, db')"
  shows "sd_jobs db' = sd_jobs db \<and> sd_attempts db' = sd_attempts db"
  using assms by (auto simp: finalizeReportObligationWithinTransaction_def split: option.splits if_splits prod.splits sum.splits dest: persist_same)

lemma try_finalize_same [simp]:
  "sd_jobs (try_finalize env uuid ob now db) = sd_jobs db" "sd_attempts (try_finalize env uuid ob now db) = sd_attempts db"
  by (auto simp: try_finalize_def split: prod.splits sum.splits dest: finalize_same)

lemma finalize_obligation_same [simp]:
  "sd_jobs (finalize_obligation env uuid now e row db) = sd_jobs db"
  "sd_attempts (finalize_obligation env uuid now e row db) = sd_attempts db"
  by (simp_all add: finalize_obligation_def split: option.splits)

lemma finalizations_same:
  "sd_jobs (snd (reconcile_finalizations env uuids now k obs db)) = sd_jobs db
   \<and> sd_attempts (snd (reconcile_finalizations env uuids now k obs db)) = sd_attempts db"
proof (induction obs arbitrary: k db)
  case Nil
  then show ?case by simp
next
  case (Cons ob obs)
  from Cons.IH [of "Suc k" "try_finalize env (uuids k) ob now db"] show ?case by (simp add: Let_def case_prod_beta)
qed

lemma report_good: "sched_ok db \<Longrightarrow> good db (snd (persistReport env uuid jobId runId text now db))"
  using persist_same [OF prod.collapse [symmetric]]
  by (intro same_good) (auto simp: persistReport_def split: sum.splits option.splits)

lemma finalizations_good: "sched_ok db \<Longrightarrow> good db (snd (reconcilePendingReportFinalizations env uuids now limit db))"
  unfolding reconcilePendingReportFinalizations_def using same_good finalizations_same by blast

lemma no_attempt_no_projection:
  "projectScheduledJobLifecycleEvent s e c (Some (identity_of None)) = no_projection"
  by (rule project_mismatch) (simp add: identity_of_def matchesCurrentAttempt_def Let_def num_truthy_def)

lemma no_projection_status [simp]: "terminal_status_of no_projection row = None" "\<not> terminal_transition None"
  by (simp_all add: terminal_status_of_def terminal_transition_def)

lemma projection_busy:
  assumes "terminal_status_of (projectScheduledJobLifecycleEvent s e c a) row = Some s'" "\<not> terminal_transition (Some s')"
  shows "busy s'"
proof -
  let ?p = "projectScheduledJobLifecycleEvent s e c a"
  have running: "busy s'" if "lp_nextStatus (project_running u e) = Some s'" for u
    using that assms(2) by (auto simp: project_running_def workSessionTerminalOutcome_def busy_def terminal_transition_def split: if_splits)
  have next_s: "lp_nextStatus ?p = Some s'" using assms by (auto simp: terminal_status_of_def terminal_transition_def split: if_splits)
  show ?thesis
  proof (cases "s = SCancellationRequested")
    case False
    then show ?thesis using project_uncancelled [OF False, of e c a] next_s running by (metis no_projection_simps(1) option.distinct(1))
  next
    case True
    have "\<exists>previous. lp_nextStatus (projectScheduledJobLifecycleEvent previous e None a) = Some s'"
      using project_cancelling [of e c a] next_s assms(2) True by (auto simp: cancelled_by_stop_def terminal_transition_def)
    then obtain previous where "lp_nextStatus (projectScheduledJobLifecycleEvent previous e None a) = Some s'" by blast
    moreover have "projectScheduledJobLifecycleEvent SCancellationRequested e None a = no_projection
        \<or> projectScheduledJobLifecycleEvent SCancellationRequested e None a = cancelled_by_stop e"
      using project_cancelling [of e None a] by (auto simp: cancels_later_def)
    ultimately show ?thesis
      using project_uncancelled [of previous e None a] running assms(2)
      by (cases "previous = SCancellationRequested") (auto simp: cancelled_by_stop_def terminal_transition_def)
  qed
qed

lemma bind_event_identity_simps [simp]:
  "sa_id (bind_event_identity e a) = sa_id a" "sa_jobId (bind_event_identity e a) = sa_jobId a"
  "sa_completedAt (bind_event_identity e a) = sa_completedAt a" "sa_dispatchId (bind_event_identity e a) = sa_dispatchId a"
  by (simp_all add: bind_event_identity_def)

lemma update_attempt_jobs [simp]: "sd_jobs (update_attempt x g db) = sd_jobs db"
  by (simp add: update_attempt_def)

lemma active_attempt_mem:
  assumes "active_attempt row db = Some a"
  shows "a \<in> set (sd_attempts db) \<and> sj_activeDispatchAttemptId row = Some (sa_id a)"
  using assms find_Some_mem by (fastforce simp: active_attempt_def find_attempt_def truthy_def split: if_splits option.splits)

lemma project_jobs_good:
  assumes ok: "sched_ok db" and row: "row \<in> set (sd_jobs db)" and orig: "map_option sa_id (active_attempt row db) = map_option sa_id original"
    and p: "p = projectScheduledJobLifecycleEvent (sj_status row) e c (Some (identity_of (map_option (bind_event_identity e) original)))"
    and P: "P = (\<lambda>j. sj_id j = sj_id row \<and> sj_revision j = sj_revision row \<and> sj_lifecycleEventCursor j < se_seq e)" and seen: "P row"
  shows "good db (let db3 = db\<lparr>sd_jobs := sql_update P (project_update now p e row) (sd_jobs db)\<rparr>
    in if terminal_transition (terminal_status_of p row)
       then update_attempt (case original of None \<Rightarrow> [] | Some a \<Rightarrow> sa_id a) (close_attempt now p e) db3 else db3)"
proof -
  have Pj: "j = row" if "j \<in> set (sd_jobs db)" "P j" for j
    using that P row key_unique [of sj_id "sd_jobs db" j row] ok by (simp add: sched_ok_def)
  have "terminal_status_of p row = None" if "terminal (sj_status row)"
    using that unfolding p terminal_def by auto
  then have step: "row_step row (project_update now p e row row)"
    using seen P by (auto simp: row_step_def)
  show ?thesis
  proof (cases "terminal_transition (terminal_status_of p row)")
    case False
    have "busy (coalesce (terminal_status_of p row) (sj_status row))" if "sj_activeDispatchAttemptId row \<noteq> None"
      using projection_busy [of "sj_status row" e c _ row] False active_busy [OF ok row that] unfolding p
      by (cases "terminal_status_of p row") (auto simp: p)
    then have "good db (db\<lparr>sd_jobs := sql_update P (project_update now p e row) (sd_jobs db)\<rparr>)"
      by (intro keep_jobs_upd [OF ok]) (use Pj step False in auto)
    with False show ?thesis by (simp add: Let_def)
  next
    case True
    then obtain a where a: "original = Some a" using p no_attempt_no_projection by (cases original) auto
    with orig obtain a' where a': "active_attempt row db = Some a'" "sa_id a' = sa_id a" by (cases "active_attempt row db") auto
    note mem = active_attempt_mem [OF a'(1), unfolded a'(2)]
    let ?Q = "\<lambda>x. sa_id x = sa_id a"
    show ?thesis
      unfolding Let_def if_P [OF True] a option.case
    proof (rule close_good [where P = P and f = "project_update now p e row" and Q = ?Q and g = "close_attempt now p e" and ex = row, OF ok row seen])
      fix b assume b: "b \<in> set (sd_attempts db)" "sa_jobId b = sj_id row" "sa_completedAt b = None"
      show "?Q b" using open_attempt_active [OF ok b(1,3) row b(2)] mem by simp
    next
      fix b assume "b \<in> set (sd_attempts db)" "?Q b"
      then show "sa_id (close_attempt now p e b) = sa_id b \<and> sa_jobId (close_attempt now p e b) = sa_jobId b
          \<and> sa_jobId b = sj_id row \<and> sa_completedAt (close_attempt now p e b) \<noteq> None"
        using active_attempt_open [OF ok row] mem by (auto simp: close_attempt_def)
    qed (use step True P in \<open>auto simp: update_attempt_def\<close>)
  qed
qed

lemma project_row_good:
  assumes ok: "sched_ok db" and row: "row \<in> set (sd_jobs db)"
  shows "good db (snd (project_row env uuid now e row db))"
proof -
  define original where "original = active_attempt row db"
  define p where "p = projectScheduledJobLifecycleEvent (sj_status row) e (Some (cancellation_of row))
    (Some (identity_of (map_option (bind_event_identity e) original)))"
  define advances where "advances = (case original of None \<Rightarrow> False | Some a \<Rightarrow> advancesAttempt a e)"
  define g where "g = (\<lambda>x :: sched_attempt. let x1 = bind_event_identity e x in x1\<lparr>sa_execution := account_execution p advances e (sa_execution x1)\<rparr>)"
  define db1 where "db1 = (case original of None \<Rightarrow> db | Some a \<Rightarrow> update_attempt (sa_id a) g db)"
  define db2 where "db2 = (if lp_workerExecutionOutcome p \<noteq> None \<and> original \<noteq> None then finalize_obligation env uuid now e row db1 else db1)"
  define P where "P = (\<lambda>j :: sched_job. sj_id j = sj_id row \<and> sj_revision j = sj_revision row \<and> sj_lifecycleEventCursor j < se_seq e)"
  have "good db db1"
    unfolding db1_def update_attempt_def
    by (cases original) (auto simp: good_refl [OF ok] g_def Let_def intro!: keep_attempts_upd [OF ok])
  then have g2: "good db db2" by (rule good_cong) (auto simp: db2_def)
  have jobs2: "sd_jobs db2 = sd_jobs db" by (auto simp: db2_def db1_def split: option.splits)
  have atts: "map sa_id (sd_attempts db2) = map sa_id (sd_attempts db)"
    by (auto simp: db2_def db1_def update_attempt_def sql_update_def g_def Let_def split: option.splits)
  have find_id: "map_option sa_id (find (\<lambda>a. sa_id a = x) t) = map_option sa_id (find (\<lambda>a. sa_id a = x) t')"
    if "map sa_id t = map sa_id t'" for t t' x
    using that by (induction t arbitrary: t') (auto simp: Cons_eq_map_conv)
  have orig2: "map_option sa_id (active_attempt row db2) = map_option sa_id original"
    unfolding original_def active_attempt_def find_attempt_def using find_id [OF atts] by auto
  have result: "good db (if sql_changes P (sd_jobs db2) \<noteq> 1 then db
      else let db3 = db2\<lparr>sd_jobs := sql_update P (project_update now p e row) (sd_jobs db2)\<rparr>
        in if terminal_transition (terminal_status_of p row)
           then update_attempt (case original of None \<Rightarrow> [] | Some a \<Rightarrow> sa_id a) (close_attempt now p e) db3 else db3)"
  proof (cases "sql_changes P (sd_jobs db2) \<noteq> 1")
    case True
    then show ?thesis by (simp add: good_refl [OF ok])
  next
    case False
    obtain j where j: "j \<in> set (sd_jobs db)" "P j" using one_change [OF False] unfolding jobs2 .
    then have "j = row" using row key_unique [of sj_id "sd_jobs db" j row] ok by (simp add: sched_ok_def P_def)
    with j have "P row" by simp
    have "sched_ok db2" using g2 by (simp add: good_def)
    with project_jobs_good [OF this _ orig2 p_def P_def \<open>P row\<close>, of now] row good_trans [OF g2] jobs2
    show ?thesis unfolding if_not_P [OF False] by simp
  qed
  have "snd (project_row env uuid now e row db) = (if sql_changes P (sd_jobs db2) \<noteq> 1 then db
      else let db3 = db2\<lparr>sd_jobs := sql_update P (project_update now p e row) (sd_jobs db2)\<rparr>
        in if terminal_transition (terminal_status_of p row)
           then update_attempt (case original of None \<Rightarrow> [] | Some a \<Rightarrow> sa_id a) (close_attempt now p e) db3 else db3)"
    unfolding project_row_def Let_def original_def [symmetric] advances_def [symmetric] p_def [symmetric] P_def [symmetric]
      g_def [unfolded Let_def, symmetric] db1_def [symmetric] db2_def [symmetric]
    by (simp only: if_distrib [of snd] snd_conv)
  with result show ?thesis by simp
qed

lemma session_job_mem: "session_job s db = Some row \<Longrightarrow> row \<in> set (sd_jobs db) \<and> sj_workSessionId row = s"
  by (auto simp: session_job_def split: if_splits dest!: first_row_SomeD)

lemma snd_job_result [simp]: "snd (job_result r) = snd r"
  by (cases r) (auto simp: job_result_def split: sum.splits option.splits)

lemma project_good:
  assumes "sched_ok db"
  shows "good db (snd (projectEvent env uuid now e db))"
proof -
  define db0 where "db0 = recordReportFinalizationObligation uuid now e db"
  have g0: "good db db0" using assms by (intro same_good) (simp_all add: db0_def)
  then have ok0: "sched_ok db0" by (simp add: good_def)
  show ?thesis
  proof (cases "\<not> se_durable e \<or> se_seq e \<le> 0 \<or> \<not> truthy (se_sessionId e)")
    case True
    then show ?thesis by (simp add: projectEvent_def good_refl [OF assms])
  next
    case False
    show ?thesis
    proof (cases "session_job (se_sessionId e) db0")
      case None
      with g0 show ?thesis unfolding projectEvent_def if_not_P [OF False] db0_def [symmetric] Let_def by simp
    next
      case (Some row)
      with project_row_good [OF ok0, of row] session_job_mem [OF Some] good_trans [OF g0] g0 show ?thesis
        unfolding projectEvent_def if_not_P [OF False] db0_def [symmetric] Let_def by simp
    qed
  qed
qed

section \<open>Reachable databases\<close>

lemma step_good:
  assumes "sched_step db db'" "sched_ok db"
  shows "good db db'"
  using assms
proof (cases rule: sched_step.cases)
  case (st_outbox ob)
  then show ?thesis using same_good [OF assms(2)] by simp
qed (auto simp: create_good claim_good release_good retry_good complete_good resolve_good project_good report_good finalizations_good
    cancel_good cancel_attempt_good evidence_good finalize_cancel_good uncertain_good bind_session_good bind_attempt_good
    probe_good due_good rearm_good deadlines_good)

interpretation sched_inv: store_invariant sched_start sched_step sched_ok
proof
  show "sched_ok db" if "sched_start db" for db using that by (simp add: sched_start_def sched_ok_def)
  show "sched_ok db'" if "sched_ok db" "sched_step db db'" for db db' using step_good [OF that(2,1)] by (simp add: good_def)
qed

lemma steps_good:
  assumes "sched_step\<^sup>*\<^sup>* db db'" "sched_ok db"
  shows "good db db'"
  using assms
proof (induction rule: rtranclp_induct)
  case base
  then show ?case by (simp add: good_refl)
next
  case (step y z)
  then have "good db y" by blast
  moreover have "good y z" using step_good [OF step.hyps(2)] \<open>good db y\<close> by (simp add: good_def)
  ultimately show ?case by (rule good_trans)
qed

lemma find_job_iff: "sched_ok db \<Longrightarrow> find_job jobId db = Some j \<longleftrightarrow> j \<in> set (sd_jobs db) \<and> sj_id j = jobId"
  using find_job_mem find_unique_key [of sj_id "sd_jobs db" j] unfolding sched_ok_def find_job_def by metis

lemma steps_row:
  assumes "sched_ok db" "sched_step\<^sup>*\<^sup>* db db'" "find_job jobId db = Some j"
  obtains j' where "find_job jobId db' = Some j'" "row_step j j'"
proof -
  have g: "good db db'" using steps_good assms by blast
  obtain i where i: "i < length (sd_jobs db)" "sd_jobs db ! i = j" using find_job_mem [OF assms(3)] by (auto simp: in_set_conv_nth)
  then have "row_step j (sd_jobs db' ! i)" "sd_jobs db' ! i \<in> set (sd_jobs db')" using g by (auto simp: good_def rows_step_def)
  moreover have "sj_id (sd_jobs db' ! i) = jobId" using calculation(1) find_job_mem [OF assms(3)] by (simp add: row_step_def)
  ultimately show ?thesis using that g find_job_iff [of db'] by (simp add: good_def)
qed

text \<open>A job scheduled, woken and claimed, for the witnesses.\<close>

definition demo_env :: sched_env where
  "demo_env = \<lparr>sv_redactString = (\<lambda>s. s), sv_sha256 = (\<lambda>s. s)\<rparr>"

definition empty_sched :: sched_db where
  "empty_sched = \<lparr>sd_jobs = [], sd_attempts = [], sd_reports = [], sd_finalizations = [], sd_outbox = empty_outbox\<rparr>"

definition demo_sched_input :: sched_input where
  "demo_sched_input = \<lparr>si_principalId = ''alice'', si_ownerContextId = ''ctx'', si_projectId = ''p'', si_workspaceRoot = ''/w'',
     si_runAt = \<lparr>st_text = ''1970-01-01T02:00:00+02:00'', st_local = 7200000, st_offset = 120\<rparr>, si_instruction = JObj [], si_executionMode = ''read_only_audit'',
     si_policySnapshot = JObj [], si_agentName = None, si_dispatchTarget = None, si_workSessionId = None, si_maxRuntimeMs = 60000,
     si_clientMutationId = None\<rparr>"

definition demo_scheduled :: sched_db where
  "demo_scheduled = snd (sched_create demo_env ''u1'' ''o1'' 10 demo_sched_input empty_sched)"

definition demo_due :: sched_db where
  "demo_due = snd (markDue 20 ''sched_u1'' demo_scheduled)"

definition demo_dispatching :: sched_db where
  "demo_dispatching = snd (claimDispatch ''a1'' ''d1'' 30 ''sched_u1'' 2 None ''node1'' None demo_due)"

lemma demo_reachable:
  "reachable sched_start sched_step demo_due" "reachable sched_start sched_step demo_dispatching"
proof -
  have "reachable sched_start sched_step empty_sched"
    by (rule reachable_start) (simp add: sched_start_def empty_sched_def)
  then have "reachable sched_start sched_step demo_scheduled"
    unfolding demo_scheduled_def by (rule reachable_step) (rule st_create)
  then show due: "reachable sched_start sched_step demo_due"
    unfolding demo_due_def by (rule reachable_step) (rule st_due)
  then show "reachable sched_start sched_step demo_dispatching"
    unfolding demo_dispatching_def by (rule reachable_step) (rule st_claim)
qed

text \<open>
  C2. A job is executed by one worker at a time: in every reachable database the dispatch attempts of
  a job that are still open are at most one, it is the attempt the job names as active, and a job
  that is pending, due, blocked or finished has none.
\<close>

theorem one_open_attempt_per_job:
  assumes "reachable sched_start sched_step db" "a \<in> set (sd_attempts db)" "sa_completedAt a = None"
  shows "\<exists>j. find_job (sa_jobId a) db = Some j \<and> sj_activeDispatchAttemptId j = Some (sa_id a) \<and> busy (sj_status j)
    \<and> filter (\<lambda>b. sa_jobId b = sa_jobId a \<and> sa_completedAt b = None) (sd_attempts db) = [a]"
proof -
  have ok: "sched_ok db" using sched_inv.inv_reachable [OF assms(1)] .
  then obtain j where j: "j \<in> set (sd_jobs db)" "sj_id j = sa_jobId a" "sj_activeDispatchAttemptId j = Some (sa_id a)"
    using assms(2,3) unfolding sched_ok_def by metis
  have uniq: "b = a" if "b \<in> set (sd_attempts db)" "sa_jobId b = sa_jobId a" "sa_completedAt b = None" for b
    using open_attempt_active [OF ok that(1,3) j(1)] that(2) j(2,3) key_unique [of sa_id "sd_attempts db" b a] ok that(1) assms(2)
    by (simp add: sched_ok_def)
  have "distinct (sd_attempts db)" using ok by (auto simp: sched_ok_def distinct_map)
  moreover have "set (filter (\<lambda>b. sa_jobId b = sa_jobId a \<and> sa_completedAt b = None) (sd_attempts db)) = {a}"
    using uniq assms(2,3) by auto
  ultimately have "filter (\<lambda>b. sa_jobId b = sa_jobId a \<and> sa_completedAt b = None) (sd_attempts db) = [a]"
    by (intro distinct_set_single) simp_all
  then show ?thesis using j active_busy [OF ok j(1)] find_job_iff [OF ok] by auto
qed

theorem one_open_attempt_per_job_witness:
  "\<exists>j. find_job ''sched_u1'' demo_dispatching = Some j \<and> sj_activeDispatchAttemptId j = Some ''scha_a1'' \<and> busy (sj_status j)"
proof -
  have "list_ex (\<lambda>a. sa_id a = ''scha_a1'' \<and> sa_jobId a = ''sched_u1'' \<and> sa_completedAt a = None) (sd_attempts demo_dispatching)" by code_simp
  then obtain a where "a \<in> set (sd_attempts demo_dispatching)" "sa_id a = ''scha_a1''" "sa_jobId a = ''sched_u1''" "sa_completedAt a = None"
    by (auto simp: list_ex_iff)
  with one_open_attempt_per_job [OF demo_reachable(2), of a] show ?thesis by auto
qed

text \<open>
  C4. The fate of a job is final and its fences only grow: whatever steps follow, in any order, a job
  that is completed, failed or cancelled keeps that status, what was scheduled never changes, and
  the revision and the event cursor never go back.
\<close>

theorem terminal_jobs_final:
  assumes "reachable sched_start sched_step db" "sched_step\<^sup>*\<^sup>* db db'" "find_job jobId db = Some j"
  shows "\<exists>j'. find_job jobId db' = Some j' \<and> sj_request j' = sj_request j \<and> sj_revision j \<le> sj_revision j'
    \<and> sj_lifecycleEventCursor j \<le> sj_lifecycleEventCursor j' \<and> (if terminal (sj_status j) then sj_status j' = sj_status j else True)"
  using steps_row [OF sched_inv.inv_reachable [OF assms(1)] assms(2,3)] by (auto simp: row_step_def)

theorem terminal_jobs_final_witness:
  "\<exists>j'. find_job ''sched_u1'' demo_dispatching = Some j' \<and> 2 \<le> sj_revision j'"
proof -
  have "sched_step\<^sup>*\<^sup>* demo_due demo_dispatching" unfolding demo_dispatching_def by (intro r_into_rtranclp st_claim)
  moreover have "map_option sj_revision (find_job ''sched_u1'' demo_due) = Some 2" by code_simp
  then obtain j where "find_job ''sched_u1'' demo_due = Some j" "sj_revision j = 2" by auto
  ultimately show ?thesis using terminal_jobs_final [OF demo_reachable(1)] by metis
qed

text \<open>
  C3. Of all dispatchers that saw the same revision of a due job one starts it: a claim succeeds
  exactly when the job is due at the revision presented (and the attempt id is new), and once it has
  succeeded no claim with that revision ever succeeds again.
\<close>

theorem dispatch_claimed_once:
  assumes "reachable sched_start sched_step db" "find_job jobId db = Some j"
    "coalesce attemptId (''scha_'' @ uuid) \<notin> sa_id ` set (sd_attempts db)"
    "claimDispatch uuid dispatchUuid now jobId n attemptId dispatcher leaseMs db = (r, db1)" "sched_step\<^sup>*\<^sup>* db1 db2"
  shows "(case r of Inl e \<Rightarrow> e = ClaimConflict jobId \<and> db1 = db \<and> \<not> (sj_status j = SDue \<and> sj_revision j = n)
    | Inr c \<Rightarrow> sj_status j = SDue \<and> sj_revision j = n \<and> dl_revision c = n + 1
        \<and> claimDispatch uuid' dispatchUuid' now' jobId n attemptId' dispatcher' leaseMs' db2 = (Inl (ClaimConflict jobId), db2))"
proof -
  have ok: "sched_ok db" using sched_inv.inv_reachable [OF assms(1)] .
  have dist: "distinct (map sj_id (sd_jobs d))" if "sched_ok d" for d using that by (simp add: sched_ok_def)
  have changes: "sql_changes (claim_matches jobId n) (sd_jobs d) = 1 \<longleftrightarrow> sj_status i = SDue \<and> sj_revision i = n"
    if d: "sched_ok d" "find_job jobId d = Some i" for d i
    using sql_changes_eq_one_iff [OF dist [OF d(1)], of "claim_matches jobId n" jobId] find_job_unique [OF d] find_job_mem [OF d(2)]
    by (auto simp: claim_matches_def)
  have db1: "db1 = snd (claimDispatch uuid dispatchUuid now jobId n attemptId dispatcher leaseMs db)" using assms(4) by simp
  have g1: "good db db1" unfolding db1 by (rule claim_good [OF ok])
  show ?thesis
  proof (cases "sql_changes (claim_matches jobId n) (sd_jobs db) = 1")
    case False
    then have "r = Inl (ClaimConflict jobId)" "db1 = db" using assms(4) by (simp_all add: claimDispatch_def Let_def)
    with False changes [OF ok assms(2)] show ?thesis by simp
  next
    case True
    define x where "x = coalesce attemptId (''scha_'' @ uuid)"
    have one: "\<not> sql_changes (claim_matches jobId n) (sd_jobs db) \<noteq> 1" and fresh: "x \<notin> sa_id ` set (sd_attempts db)"
      using True assms(3) by (simp_all add: x_def)
    define db' where "db' = db\<lparr>sd_jobs := sql_update (claim_matches jobId n) (claim_update n x now) (sd_jobs db),
      sd_attempts := sd_attempts db @ [new_attempt x jobId (''disp_'' @ dispatchUuid) now dispatcher (now + coalesce leaseMs 60000)]\<rparr>"
    have j: "sj_status j = SDue" "sj_revision j = n" using True changes [OF ok assms(2)] by auto
    have "claim_update n x now j \<in> set (sd_jobs db')"
      using find_job_mem [OF assms(2)] j by (auto simp: db'_def set_sql_update claim_matches_def)
    moreover have run: "claimDispatch uuid dispatchUuid now jobId n attemptId dispatcher leaseMs db
        = (case find_job jobId db' of None \<Rightarrow> (Inl NotReadBack, db)
           | Some row \<Rightarrow> (Inr \<lparr>dl_jobId = jobId, dl_attemptId = x, dl_dispatchId = ''disp_'' @ dispatchUuid,
               dl_leaseExpiresAt = now + coalesce leaseMs 60000, dl_revision = sj_revision row\<rparr>, db'))"
      unfolding claimDispatch_def Let_def x_def [symmetric] if_not_P [OF one] if_not_P [OF fresh] db'_def by (rule refl)
    have ids: "map sj_id (sd_jobs db') = map sj_id (sd_jobs db)"
      by (simp add: db'_def map_sql_update)
    ultimately have f: "find_job jobId db' = Some (claim_update n x now j)"
      using find_unique_key [of sj_id "sd_jobs db'" "claim_update n x now j"] dist [OF ok] find_job_mem [OF assms(2)]
      unfolding find_job_def by simp
    with run assms(4) have r: "db1 = db'" "r = Inr \<lparr>dl_jobId = jobId, dl_attemptId = x, dl_dispatchId = ''disp_'' @ dispatchUuid,
        dl_leaseExpiresAt = now + coalesce leaseMs 60000, dl_revision = n + 1\<rparr>"
      by simp_all
    have ok1: "sched_ok db1" using g1 by (simp add: good_def)
    from f r(1) steps_row [OF ok1 assms(5)] obtain j2 where j2: "find_job jobId db2 = Some j2" "row_step (claim_update n x now j) j2" by metis
    have "sched_ok db2" using steps_good [OF assms(5) ok1] by (simp add: good_def)
    from changes [OF this j2(1)] j2(2) have "sql_changes (claim_matches jobId n) (sd_jobs db2) \<noteq> 1" by (auto simp: row_step_def)
    then have "claimDispatch uuid' dispatchUuid' now' jobId n attemptId' dispatcher' leaseMs' db2 = (Inl (ClaimConflict jobId), db2)"
      by (simp add: claimDispatch_def Let_def)
    with r j show ?thesis by simp
  qed
qed

theorem dispatch_claimed_once_witness:
  "claimDispatch ''a2'' ''d2'' 30 ''sched_u1'' 2 None ''node2'' None demo_dispatching = (Inl (ClaimConflict ''sched_u1''), demo_dispatching)"
proof -
  let ?r = "fst (claimDispatch ''a1'' ''d1'' 30 ''sched_u1'' 2 None ''node1'' None demo_due)"
  have "map_option sj_revision (find_job ''sched_u1'' demo_due) = Some 2" by code_simp
  then obtain j where j: "find_job ''sched_u1'' demo_due = Some j" by auto
  have fresh: "coalesce None (''scha_'' @ ''a1'') \<notin> sa_id ` set (sd_attempts demo_due)" by code_simp
  have "case ?r of Inl _ \<Rightarrow> False | Inr _ \<Rightarrow> True" by code_simp
  moreover have "claimDispatch ''a1'' ''d1'' 30 ''sched_u1'' 2 None ''node1'' None demo_due = (?r, demo_dispatching)"
    by (simp add: demo_dispatching_def)
  note dispatch_claimed_once [OF demo_reachable(1) j fresh this rtranclp.rtrancl_refl, of "''a2''" "''d2''" 30 None "''node2''" None]
  ultimately show ?thesis by (auto split: sum.splits)
qed

end
