(* ===== verification/Process_Output.thy ===== *)
theory Process_Output
  imports Kontrol_Prelude
begin

text \<open>
  The bounded retention of process output, src/src/process-output.ts: the head-and-tail buffer and
  the cursor-indexed log that observers poll.

  \<^item> A text of code units below 256 is its own list of code points, so \<open>Array.from\<close> is the text.
  \<^item> Limits and cursors that a caller passes are integers, lengths are natural numbers; a thrown
    error is a constructor.
  \<^item> What an observer of the log relies on is the contract \<open>cursor_log\<close>: the log stands for the
    whole history of writes, of which it has kept a suffix.
\<close>

datatype output_error = BufferLimitInvalid | LogLimitInvalid | OutputLimitInvalid | CursorInvalid

section \<open>Cutting texts\<close>

definition takeHead :: "string \<Rightarrow> nat \<Rightarrow> string" where
  "takeHead s count = take count s"

definition takeTail :: "string \<Rightarrow> nat \<Rightarrow> string" where
  "takeTail s count = (if count = 0 then [] else drop (length s - count) s)"

definition splitBudget :: "nat \<Rightarrow> nat \<times> nat" where
  "splitBudget maxCharacters = ((maxCharacters + 1) div 2, maxCharacters div 2)"

definition formatHeadTail :: "string \<Rightarrow> string \<Rightarrow> nat \<Rightarrow> string" where
  "formatHeadTail head tail omitted =
     (if omitted = 0 then head @ tail
      else head @ newline @ ''... output truncated ('' @ show_nat omitted @ '' characters omitted) ...'' @ newline @ tail)"

definition truncation_marker :: string where
  "truncation_marker = newline @ ''... output truncated ...'' @ newline"

definition truncateOutput :: "string \<Rightarrow> nat \<Rightarrow> string \<times> bool" where
  "truncateOutput output maxCharacters =
     (if length output \<le> maxCharacters then (output, False)
      else let budget = splitBudget (maxCharacters - length truncation_marker)
           in (takeHead output (fst budget) @ truncation_marker @ takeTail output (snd budget), True))"

section \<open>The head-and-tail buffer\<close>

record head_tail =
  ht_max :: nat
  ht_head :: string
  ht_tail :: string
  ht_total :: nat

definition new_head_tail :: "int \<Rightarrow> output_error + head_tail" where
  "new_head_tail maxCharacters =
     (if maxCharacters < 1 then Inl BufferLimitInvalid
      else Inr \<lparr>ht_max = nat maxCharacters, ht_head = [], ht_tail = [], ht_total = 0\<rparr>)"

definition head_tail_append :: "string \<Rightarrow> head_tail \<Rightarrow> head_tail" where
  "head_tail_append output b =
     (if output = [] then b
      else
        let previousTotal = ht_total b; b1 = b\<lparr>ht_total := ht_total b + length output\<rparr>
        in if ht_total b1 \<le> ht_max b then b1\<lparr>ht_head := ht_head b @ output\<rparr>
           else let budget = splitBudget (ht_max b)
                in if previousTotal \<le> ht_max b
                   then b1\<lparr>ht_head := takeHead (ht_head b @ output) (fst budget), ht_tail := takeTail (ht_head b @ output) (snd budget)\<rparr>
                   else b1\<lparr>ht_tail := takeTail (ht_tail b @ output) (snd budget)\<rparr>)"

definition head_tail_hasOutput :: "head_tail \<Rightarrow> bool" where
  "head_tail_hasOutput b \<longleftrightarrow> ht_total b > 0"

definition head_tail_drain :: "int \<Rightarrow> head_tail \<Rightarrow> (output_error + string \<times> bool) \<times> head_tail" where
  "head_tail_drain maxCharacters b =
     (if maxCharacters < 1 then (Inl OutputLimitInvalid, b)
      else
        let omittedByBuffer = ht_total b - length (ht_head b) - length (ht_tail b);
            retained = formatHeadTail (ht_head b) (ht_tail b) omittedByBuffer;
            output = truncateOutput retained (nat maxCharacters)
        in (Inr (fst output, omittedByBuffer > 0 \<or> snd output), b\<lparr>ht_head := [], ht_tail := [], ht_total := 0\<rparr>))"

section \<open>The output log\<close>

record output_log =
  ol_max :: nat
  ol_chunks :: "(nat \<times> string) list"
  ol_retained :: nat
  ol_writeCursor :: nat

definition new_output_log :: "int \<Rightarrow> output_error + output_log" where
  "new_output_log maxCharacters =
     (if maxCharacters < 1 then Inl LogLimitInvalid
      else Inr \<lparr>ol_max = nat maxCharacters, ol_chunks = [], ol_retained = 0, ol_writeCursor = 0\<rparr>)"

text \<open>The loop of \<open>evict\<close>: the chunks that stay and their total length.\<close>

fun evict_loop :: "nat \<Rightarrow> (nat \<times> string) list \<Rightarrow> nat \<Rightarrow> (nat \<times> string) list \<times> nat" where
  "evict_loop m (c # d # cs) retained =
     (if retained > m then evict_loop m (d # cs) (retained - length (snd c)) else (c # d # cs, retained))"
| "evict_loop m cs retained = (cs, retained)"

definition log_evict :: "output_log \<Rightarrow> output_log" where
  "log_evict l = l\<lparr>ol_chunks := fst (evict_loop (ol_max l) (ol_chunks l) (ol_retained l)),
                  ol_retained := snd (evict_loop (ol_max l) (ol_chunks l) (ol_retained l))\<rparr>"

definition log_append :: "string \<Rightarrow> output_log \<Rightarrow> nat \<times> output_log" where
  "log_append output l =
     (if output = [] then (ol_writeCursor l, l)
      else
        let incomingLength = length output; next = ol_writeCursor l + incomingLength
        in if incomingLength > ol_max l
           then let kept = takeTail output (ol_max l)
                in (next, l\<lparr>ol_chunks := [(ol_writeCursor l + incomingLength - ol_max l, kept)], ol_retained := length kept, ol_writeCursor := next\<rparr>)
           else (next, log_evict (l\<lparr>ol_chunks := ol_chunks l @ [(ol_writeCursor l, output)],
                                    ol_retained := ol_retained l + incomingLength, ol_writeCursor := next\<rparr>)))"

definition log_hasOutput :: "output_log \<Rightarrow> bool" where
  "log_hasOutput l \<longleftrightarrow> ol_retained l > 0"

definition oldestCursor :: "output_log \<Rightarrow> nat" where
  "oldestCursor l = (case ol_chunks l of [] \<Rightarrow> ol_writeCursor l | (start, _) # _ \<Rightarrow> start)"

text \<open>The loop of \<open>read\<close> over the chunks.\<close>

fun assemble :: "nat \<Rightarrow> nat \<Rightarrow> (nat \<times> string) list \<Rightarrow> string \<Rightarrow> string" where
  "assemble effectiveStart maxCharacters [] assembled = assembled"
| "assemble effectiveStart maxCharacters ((start, chunk) # chunks) assembled =
     (if length assembled \<ge> maxCharacters then assembled
      else if start + length chunk \<le> effectiveStart then assemble effectiveStart maxCharacters chunks assembled
      else let offset = effectiveStart - start
           in assemble effectiveStart maxCharacters chunks (assembled @ take (maxCharacters - length assembled) (drop offset chunk)))"

record output_page =
  op_output :: string
  op_nextCursor :: nat
  op_oldestAvailableCursor :: nat
  op_cursorLapsed :: bool
  op_truncated :: bool

definition log_read :: "int \<Rightarrow> int \<Rightarrow> output_log \<Rightarrow> output_error + output_page" where
  "log_read afterCursor maxCharacters l =
     (if maxCharacters < 1 then Inl OutputLimitInvalid
      else if afterCursor < 0 then Inl CursorInvalid
      else
        let oldest = oldestCursor l;
            lapsed = nat afterCursor < oldest;
            effectiveStart = max (nat afterCursor) oldest;
            assembled = assemble effectiveStart (nat maxCharacters) (ol_chunks l) [];
            truncatedByLimit = int (ol_writeCursor l) - int effectiveStart > int (length assembled);
            output = truncateOutput assembled (nat maxCharacters)
        in Inr \<lparr>op_output = fst output, op_nextCursor = effectiveStart + length assembled, op_oldestAvailableCursor = oldest,
                op_cursorLapsed = lapsed, op_truncated = (snd output \<or> truncatedByLimit \<or> lapsed)\<rparr>)"

section \<open>The contract of a log\<close>

text \<open>An observer polls with the cursor of its last page while others write; \<open>None\<close> is a poll that lapsed.\<close>

fun observe ::
    "(string \<Rightarrow> 'l \<Rightarrow> 'l) \<Rightarrow> (nat \<Rightarrow> nat \<Rightarrow> 'l \<Rightarrow> output_page) \<Rightarrow> (string + nat) list \<Rightarrow> 'l \<Rightarrow> nat \<Rightarrow> string \<Rightarrow> (string \<times> nat \<times> 'l) option" where
  "observe put read [] l a seen = Some (seen, a, l)"
| "observe put read (Inl w # xs) l a seen = observe put read xs (put w l) a seen"
| "observe put read (Inr m # xs) l a seen =
     (let p = read a m l
      in if op_cursorLapsed p then None else observe put read xs l (op_nextCursor p) (seen @ op_output p))"

text \<open>Polling until a page is not truncated.\<close>

fun poll :: "(nat \<Rightarrow> nat \<Rightarrow> 'l \<Rightarrow> output_page) \<Rightarrow> nat \<Rightarrow> nat \<Rightarrow> 'l \<Rightarrow> nat \<Rightarrow> string" where
  "poll read 0 m l a = []"
| "poll read (Suc n) m l a =
     (let p = read a m l in if op_truncated p then op_output p @ poll read n m l (op_nextCursor p) else op_output p)"

text \<open>
  \<open>stands l H k\<close>: the log stands for the history \<open>H\<close>, of which the first \<open>k\<close> characters are no
  longer kept. A write extends the history, keeps the limit and forgets only from the front; a read
  returns the history from the cursor on, cut to the limit, and says when the cursor is behind.
\<close>

locale cursor_log =
  fixes stands :: "'l \<Rightarrow> string \<Rightarrow> nat \<Rightarrow> bool"
    and limit :: "'l \<Rightarrow> nat"
    and put :: "string \<Rightarrow> 'l \<Rightarrow> 'l"
    and read :: "nat \<Rightarrow> nat \<Rightarrow> 'l \<Rightarrow> output_page"
  assumes kept_bound: "stands l H k \<Longrightarrow> k \<le> length H \<and> length H \<le> k + limit l"
    and write_stands: "stands l H k \<Longrightarrow> \<exists>k'. k \<le> k' \<and> stands (put w l) (H @ w) k'"
    and write_limit: "limit (put w l) = limit l"
    and write_keeps: "stands l H k \<Longrightarrow> length (H @ w) \<le> k + limit l \<Longrightarrow> stands (put w l) (H @ w) k"
    and read_output: "stands l H k \<Longrightarrow> 0 < m \<Longrightarrow> op_output (read a m l) = take m (drop (max a k) H)"
    and read_next: "stands l H k \<Longrightarrow> 0 < m \<Longrightarrow> op_nextCursor (read a m l) = max a k + length (op_output (read a m l))"
    and read_lapsed: "stands l H k \<Longrightarrow> 0 < m \<Longrightarrow> op_cursorLapsed (read a m l) \<longleftrightarrow> a < k"
    and read_truncated: "stands l H k \<Longrightarrow> 0 < m \<Longrightarrow> op_truncated (read a m l) \<longleftrightarrow> a < k \<or> max a k + m < length H"
begin

lemma observe_exact:
  assumes "stands l H k" "list_all (case_sum (\<lambda>w. True) (\<lambda>m. 0 < m)) xs" "a \<le> length H" "seen = take a H"
    "observe put read xs l a seen = Some (seen', a', l')"
  shows "\<exists>k'. stands l' (H @ concat (map (case_sum id (\<lambda>m. [])) xs)) k'
    \<and> a' \<le> length (H @ concat (map (case_sum id (\<lambda>m. [])) xs)) \<and> seen' = take a' (H @ concat (map (case_sum id (\<lambda>m. [])) xs))"
  using assms
proof (induction xs arbitrary: l H k a seen)
  case Nil
  then show ?case by auto
next
  case (Cons x xs)
  show ?case
  proof (cases x)
    case (Inl w)
    from write_stands [OF Cons.prems(1), of w] obtain k' where "stands (put w l) (H @ w) k'" by blast
    from Cons.IH [OF this, of a seen] Cons.prems Inl show ?thesis by simp
  next
    case (Inr m)
    then have m: "0 < m" using Cons.prems(2) by simp
    have nl: "\<not> a < k" using Cons.prems(5) Inr read_lapsed [OF Cons.prems(1) m, of a] by (auto simp: Let_def)
    then have out: "op_output (read a m l) = take m (drop a H)" using read_output [OF Cons.prems(1) m, of a] by (simp add: max_def)
    have nxt: "op_nextCursor (read a m l) = a + length (take m (drop a H))"
      using read_next [OF Cons.prems(1) m, of a] nl out by (simp add: max_def)
    have seen: "seen @ take m (drop a H) = take (a + length (take m (drop a H))) H"
      unfolding Cons.prems(4) by (simp add: take_add min_def)
    have bound: "a + length (take m (drop a H)) \<le> length H" using Cons.prems(3) by simp
    from Cons.IH [OF Cons.prems(1) _ bound refl] Cons.prems(2,5) Inr nl read_lapsed [OF Cons.prems(1) m, of a]
    show ?thesis by (simp add: Let_def out nxt seen)
  qed
qed

lemma poll_complete:
  assumes "stands l H k" "0 < m" "k \<le> a" "length H < a + n * m \<or> 0 < n \<and> length H \<le> a"
  shows "poll read n m l a = drop a H"
  using assms(3,4)
proof (induction n arbitrary: a)
  case 0
  then show ?case by simp
next
  case (Suc n)
  have out: "op_output (read a m l) = take m (drop a H)" using read_output [OF assms(1,2), of a] Suc.prems(1) by (simp add: max_absorb1)
  have nxt: "op_nextCursor (read a m l) = a + length (take m (drop a H))"
    using read_next [OF assms(1,2), of a] Suc.prems(1) out by (simp add: max_absorb1)
  have more: "op_truncated (read a m l) \<longleftrightarrow> a + m < length H"
    using read_truncated [OF assms(1,2), of a] Suc.prems(1) by (simp add: max_absorb1)
  show ?case
  proof (cases "a + m < length H")
    case True
    then have "poll read n m l (a + m) = drop (a + m) H" using Suc by auto
    then show ?thesis using True out nxt more by (simp add: Let_def) (metis append_take_drop_id drop_drop add.commute)
  next
    case False
    then show ?thesis using out more by (simp add: Let_def)
  qed
qed

end

section \<open>The log keeps a suffix\<close>

fun chained :: "nat \<Rightarrow> (nat \<times> string) list \<Rightarrow> bool" where
  "chained k [] = True"
| "chained k ((start, chunk) # cs) = (start = k \<and> chained (k + length chunk) cs)"

abbreviation log_text :: "(nat \<times> string) list \<Rightarrow> string" where
  "log_text cs \<equiv> concat (map snd cs)"

definition log_stands :: "output_log \<Rightarrow> string \<Rightarrow> nat \<Rightarrow> bool" where
  "log_stands l H k \<longleftrightarrow> chained k (ol_chunks l) \<and> log_text (ol_chunks l) = drop k H \<and> ol_retained l = length H - k
     \<and> ol_writeCursor l = length H \<and> k \<le> length H \<and> length H \<le> k + ol_max l \<and> (ol_chunks l = [] \<longrightarrow> k = length H)"

lemma chained_append [simp]:
  "chained k (cs @ ds) \<longleftrightarrow> chained k cs \<and> chained (k + length (log_text cs)) ds"
  by (induction cs arbitrary: k) (auto simp: add.assoc)

lemma oldestCursor_stands:
  assumes "log_stands l H k"
  shows "oldestCursor l = k"
  using assms by (auto simp: log_stands_def oldestCursor_def split: list.splits)

lemma assemble_chained:
  assumes "chained k cs"
  shows "assemble e m cs acc = acc @ take (m - length acc) (drop (e - k) (log_text cs))"
  using assms
proof (induction cs arbitrary: k acc)
  case Nil
  then show ?case by simp
next
  case (Cons c cs)
  obtain t where c: "c = (k, t)" and ch: "chained (k + length t) cs" using Cons.prems by (cases c) auto
  consider "length acc \<ge> m" | "length acc < m" "k + length t \<le> e" | "length acc < m" "e < k + length t" by linarith
  then show ?case
  proof cases
    case 1
    then show ?thesis by (simp add: c)
  next
    case 2
    then show ?thesis using Cons.IH [OF ch, of acc] by (simp add: c)
  next
    case 3
    then have "e - (k + length t) = 0" "e - k - length t = 0"
      "m - (length acc + min (length t - (e - k)) (m - length acc)) = m + (e - k) - (length acc + length t)"
      by (simp_all add: min_def)
    with 3 show ?thesis using Cons.IH [OF ch, of "acc @ take (m - length acc) (drop (e - k) t)"]
      by (simp add: c Let_def)
  qed
qed

lemma evict_loop_suffix:
  assumes "chained k cs" "r = length (log_text cs)" "cs \<noteq> []" "length (snd (last cs)) \<le> m"
  shows "\<exists>k'. k \<le> k' \<and> k' \<le> k + r \<and> chained k' (fst (evict_loop m cs r)) \<and> log_text (fst (evict_loop m cs r)) = drop (k' - k) (log_text cs)
    \<and> snd (evict_loop m cs r) = length (log_text (fst (evict_loop m cs r))) \<and> snd (evict_loop m cs r) \<le> m \<and> fst (evict_loop m cs r) \<noteq> []"
  using assms
proof (induction m cs r arbitrary: k rule: evict_loop.induct)
  case (1 m c d cs r)
  show ?case
  proof (cases "r > m")
    case True
    from 1(1) [OF True, of "k + length (snd c)"] 1(2-5) obtain k' where
      k': "k + length (snd c) \<le> k'" "k' \<le> k + r" "chained k' (fst (evict_loop m (d # cs) (r - length (snd c))))"
      "log_text (fst (evict_loop m (d # cs) (r - length (snd c)))) = drop (k' - (k + length (snd c))) (log_text (d # cs))"
      "snd (evict_loop m (d # cs) (r - length (snd c))) = length (log_text (fst (evict_loop m (d # cs) (r - length (snd c)))))"
      "snd (evict_loop m (d # cs) (r - length (snd c))) \<le> m" "fst (evict_loop m (d # cs) (r - length (snd c))) \<noteq> []"
      by (cases c) fastforce
    have "drop (k' - k) (log_text (c # d # cs)) = drop (k' - (k + length (snd c))) (log_text (d # cs))"
      using k'(1) by simp
    with k' True show ?thesis by (intro exI [of _ k']) simp
  next
    case False
    with 1(2,3) show ?thesis by (intro exI [of _ k]) simp
  qed
qed (simp, rule exI, auto)

lemma evict_loop_keeps: "r \<le> m \<Longrightarrow> evict_loop m cs r = (cs, r)"
  by (cases "(m, cs, r)" rule: evict_loop.cases) simp_all

lemma takeTail_all [simp]: "length (takeTail s n) = min n (length s)"
  by (auto simp: takeTail_def min_def)

lemma log_append_oversized:
  assumes "log_stands l H k" "length w > ol_max l" "0 < ol_max l"
  shows "log_stands (snd (log_append w l)) (H @ w) (length (H @ w) - ol_max l)"
proof -
  have "w \<noteq> []" using assms(2) by auto
  moreover have "drop (length H + length w - ol_max l) (H @ w) = drop (length w - ol_max l) w" using assms(2) by simp
  ultimately show ?thesis using assms by (simp add: log_append_def Let_def log_stands_def takeTail_def)
qed

lemma log_append_fits:
  assumes "log_stands l H k" "w \<noteq> []" "length w \<le> ol_max l"
  shows "\<exists>k'. k \<le> k' \<and> log_stands (snd (log_append w l)) (H @ w) k' \<and> (length (H @ w) \<le> k + ol_max l \<longrightarrow> k' = k)"
proof -
  let ?cs = "ol_chunks l @ [(ol_writeCursor l, w)]"
  let ?r = "ol_retained l + length w"
  let ?ev = "evict_loop (ol_max l) ?cs ?r"
  have ch: "chained k ?cs" and len: "?r = length (log_text ?cs)" and body: "log_text ?cs = drop k (H @ w)"
    using assms(1) by (auto simp: log_stands_def)
  have res: "snd (log_append w l) = l\<lparr>ol_chunks := fst ?ev, ol_retained := snd ?ev, ol_writeCursor := ol_writeCursor l + length w\<rparr>"
    using assms(2,3) by (simp add: log_append_def Let_def log_evict_def)
  show ?thesis
  proof (cases "?r \<le> ol_max l")
    case True
    then have "?ev = (?cs, ?r)" by (rule evict_loop_keeps)
    then show ?thesis using True assms(1) ch body unfolding res by (intro exI [of _ k]) (auto simp: log_stands_def)
  next
    case False
    have "length (snd (last ?cs)) \<le> ol_max l" using assms(3) by simp
    from evict_loop_suffix [OF ch len _ this] obtain k' where k': "k \<le> k'" "k' \<le> k + ?r" "chained k' (fst ?ev)"
      "log_text (fst ?ev) = drop (k' - k) (log_text ?cs)" "snd ?ev = length (log_text (fst ?ev))" "snd ?ev \<le> ol_max l" "fst ?ev \<noteq> []"
      by auto
    define ev where "ev = ?ev"
    have kept: "log_text (fst ev) = drop k' (H @ w)" unfolding ev_def k'(4) body using k'(1) by (simp only: drop_drop) simp
    then have "snd ev = length (H @ w) - k'" using k'(5) unfolding ev_def by (metis length_drop)
    moreover have "k + ?r = length (H @ w)" using assms(1) by (simp add: log_stands_def)
    moreover have "\<not> length (H @ w) \<le> k + ol_max l" using False calculation(2) by linarith
    ultimately show ?thesis using k'(1,2,3,6,7) kept assms(1) unfolding res ev_def [symmetric]
      by (intro exI [of _ k']) (simp add: log_stands_def)
  qed
qed

lemma log_append_stands:
  assumes "log_stands l H k" "0 < ol_max l"
  shows "\<exists>k'. k \<le> k' \<and> log_stands (snd (log_append w l)) (H @ w) k' \<and> (length (H @ w) \<le> k + ol_max l \<longrightarrow> k' = k)"
proof -
  consider "w = []" | "w \<noteq> []" "length w \<le> ol_max l" | "length w > ol_max l" by fastforce
  then show ?thesis
  proof cases
    case 1
    then show ?thesis using assms(1) by (auto simp: log_append_def)
  next
    case 2
    then show ?thesis using log_append_fits [OF assms(1)] by blast
  next
    case 3
    moreover have "k \<le> length H" using assms(1) by (simp add: log_stands_def)
    ultimately show ?thesis
      using log_append_oversized [OF assms(1) 3 assms(2)] by (intro exI [of _ "length (H @ w) - ol_max l"]) auto
  qed
qed

lemma log_append_max [simp]: "ol_max (snd (log_append w l)) = ol_max l"
  by (simp add: log_append_def Let_def log_evict_def)

lemma log_append_cursor: "fst (log_append w l) = ol_writeCursor (snd (log_append w l))"
  by (simp add: log_append_def Let_def log_evict_def)

lemma truncateOutput_short [simp]: "length s \<le> m \<Longrightarrow> truncateOutput s m = (s, False)"
  by (simp add: truncateOutput_def)

lemma log_read_stands:
  assumes "log_stands l H k" "0 < m"
  shows "log_read (int a) (int m) l =
    Inr \<lparr>op_output = take m (drop (max a k) H), op_nextCursor = max a k + length (take m (drop (max a k) H)),
      op_oldestAvailableCursor = k, op_cursorLapsed = (a < k), op_truncated = (a < k \<or> max a k + m < length H)\<rparr>"
proof -
  have ch: "chained k (ol_chunks l)" "log_text (ol_chunks l) = drop k H" "ol_writeCursor l = length H"
    using assms(1) by (auto simp: log_stands_def)
  have got: "assemble (max a k) m (ol_chunks l) [] = take m (drop (max a k) H)"
    using assemble_chained [OF ch(1), of "max a k" m "[]"] ch(2) by simp
  have "(int (length H) - int (max a k) > int (length (take m (drop (max a k) H)))) = (max a k + m < length H)"
    by (auto simp: min_def)
  moreover have "truncateOutput (take m (drop (max a k) H)) m = (take m (drop (max a k) H), False)" by simp
  ultimately show ?thesis using assms(2) oldestCursor_stands [OF assms(1)] got ch(3)
    by (auto simp add: log_read_def Let_def simp del: of_nat_max length_take)
qed

text \<open>The log of the code meets the contract; a page is what a successful read returns.\<close>

definition page_of :: "nat \<Rightarrow> nat \<Rightarrow> output_log \<Rightarrow> output_page" where
  "page_of a m l = (case log_read (int a) (int m) l of Inr p \<Rightarrow> p 
     | Inl _ \<Rightarrow> \<lparr>op_output = [], op_nextCursor = a, op_oldestAvailableCursor = 0, op_cursorLapsed = False, op_truncated = False\<rparr>)"

interpretation process_log: cursor_log "\<lambda>l H k. log_stands l H k \<and> 0 < ol_max l" ol_max "\<lambda>w l. snd (log_append w l)" page_of
proof (unfold_locales, goal_cases)
  case (1 l H k)
  then show ?case by (simp add: log_stands_def)
next
  case (2 l H k w)
  then show ?case using log_append_stands [of l H k w] by auto
next
  case (4 l H k w)
  then show ?case using log_append_stands [of l H k w] by auto
qed (auto simp: page_of_def log_read_stands)

lemma new_log_stands:
  assumes "new_output_log m = Inr l"
  shows "log_stands l [] 0" "0 < ol_max l" "ol_max l = nat m" "1 \<le> m"
  using assms by (auto simp: new_output_log_def log_stands_def split: if_splits)

lemma writes_stand:
  assumes "log_stands l H k" "0 < ol_max l"
  shows "\<exists>k'. k \<le> k' \<and> log_stands (fold (\<lambda>w l. snd (log_append w l)) ws l) (H @ concat ws) k'"
  using assms
proof (induction ws arbitrary: l H k)
  case Nil
  then show ?case by auto
next
  case (Cons w ws)
  from log_append_stands [OF Cons.prems, of w] obtain k1 where k1: "k \<le> k1" "log_stands (snd (log_append w l)) (H @ w) k1" by blast
  from Cons.IH [OF k1(2)] Cons.prems(2) k1(1) show ?case by (auto intro: order_trans)
qed

lemma writes_max [simp]: "ol_max (fold (\<lambda>w l. snd (log_append w l)) ws l) = ol_max l"
  by (induction ws arbitrary: l) simp_all

text \<open>
  C23. The output log is a window on everything a process wrote: after any writes to a fresh log there
  is an oldest cursor such that at most the configured number of characters lies behind it, and a
  read with any cursor and limit returns the written text from the cursor, or from the oldest
  cursor when the reader fell behind, cut to the limit; the next cursor, the lapse and the
  truncation flag say exactly which part that was.
\<close>

theorem log_read_history:
  assumes "new_output_log m = Inr l0" "l = fold (\<lambda>w l. snd (log_append w l)) ws l0" "H = concat ws" "0 < n"
  shows "\<exists>k. k \<le> length H \<and> length H - k \<le> nat m \<and> ol_retained l = length H - k
    \<and> log_read (int a) (int n) l =
      Inr \<lparr>op_output = take n (drop (max a k) H), op_nextCursor = max a k + length (take n (drop (max a k) H)),
        op_oldestAvailableCursor = k, op_cursorLapsed = (a < k), op_truncated = (a < k \<or> max a k + n < length H)\<rparr>"
proof -
  note new = new_log_stands [OF assms(1)]
  from writes_stand [OF new(1,2), of ws] obtain k where k: "log_stands l H k" unfolding assms(2,3) by auto
  moreover have "ol_max l = nat m" using new(3) by (simp add: assms(2))
  moreover have "k \<le> length H \<and> length H - k \<le> ol_max l \<and> ol_retained l = length H - k"
    using k by (auto simp: log_stands_def)
  ultimately show ?thesis using log_read_stands [OF k assms(4)] by auto
qed

theorem log_read_history_witness:
  "case new_output_log 8 of Inl _ \<Rightarrow> False
   | Inr l0 \<Rightarrow> (let l = fold (\<lambda>w l. snd (log_append w l)) [''abcd'', ''efg'', ''hi''] l0
               in case log_read 0 3 l of Inl _ \<Rightarrow> False | Inr p \<Rightarrow> op_output p = ''efg'' \<and> op_cursorLapsed p)"
proof -
  have new: "new_output_log 8 = Inr \<lparr>ol_max = 8, ol_chunks = [], ol_retained = 0, ol_writeCursor = 0\<rparr>" (is "_ = Inr ?l0")
    by (simp add: new_output_log_def)
  define l where "l = fold (\<lambda>w l. snd (log_append w l)) [''abcd'', ''efg'', ''hi''] ?l0"
  have old: "oldestCursor l = 4" unfolding l_def by code_simp
  from log_read_history [OF new l_def refl, of 3 0] obtain k where
    k: "k \<le> 9" "log_read 0 3 l = Inr \<lparr>op_output = take 3 (drop k ''abcdefghi''), op_nextCursor = k + length (take 3 (drop k ''abcdefghi'')),
        op_oldestAvailableCursor = k, op_cursorLapsed = (0 < k), op_truncated = (0 < k \<or> k + 3 < 9)\<rparr>"
    by auto
  have "k = 4" using k(2) old by (auto simp: log_read_def Let_def)
  with k show ?thesis unfolding new sum.case Let_def l_def [symmetric] by simp
qed

text \<open>
  An observer misses nothing and sees nothing twice: whatever is written between its polls, an
  observer that starts at cursor 0, always continues at the cursor it was given and was never told
  that it lapsed has seen exactly the beginning of everything written, up to its cursor. Reading
  changes nothing, so this holds for any number of observers of one log.
\<close>

theorem observer_sees_prefix:
  assumes "new_output_log m = Inr l0" "list_all (case_sum (\<lambda>w. True) (\<lambda>n. 0 < n)) xs"
    "observe (\<lambda>w l. snd (log_append w l)) page_of xs l0 0 [] = Some (seen, a, l)"
  shows "seen = take a (concat (map (case_sum id (\<lambda>n. [])) xs)) \<and> a \<le> length (concat (map (case_sum id (\<lambda>n. [])) xs))"
  using process_log.observe_exact [of l0 "[]" 0 xs 0 "[]" seen a l] assms(2,3) new_log_stands [OF assms(1)] by auto

theorem observer_sees_prefix_witness:
  "case new_output_log 7 of Inl _ \<Rightarrow> False
   | Inr l0 \<Rightarrow> (case observe (\<lambda>w l. snd (log_append w l)) page_of [Inl ''abcd'', Inr 3, Inl ''efg'', Inr 9] l0 0 [] of
        None \<Rightarrow> False | Some (seen, a, l) \<Rightarrow> seen = take a ''abcdefg'' \<and> a = 7)"
proof -
  let ?xs = "[Inl ''abcd'', Inr 3, Inl ''efg'', Inr 9] :: (string + nat) list"
  let ?l0 = "\<lparr>ol_max = 7, ol_chunks = [], ol_retained = 0, ol_writeCursor = 0\<rparr>"
  have new: "new_output_log 7 = Inr ?l0" by (simp add: new_output_log_def)
  have "map_option (\<lambda>(seen, a, l). a) (observe (\<lambda>w l. snd (log_append w l)) page_of ?xs ?l0 0 []) = Some 7" by code_simp
  then obtain seen l where run: "observe (\<lambda>w l. snd (log_append w l)) page_of ?xs ?l0 0 [] = Some (seen, 7, l)" by auto
  from observer_sees_prefix [OF new _ this] have "seen = take 7 ''abcdefg''" by simp
  with run show ?thesis unfolding new by simp
qed



section \<open>The buffer keeps both ends\<close>

definition head_tail_stands :: "head_tail \<Rightarrow> string \<Rightarrow> bool" where
  "head_tail_stands b H \<longleftrightarrow> ht_total b = length H
     \<and> (if length H \<le> ht_max b then ht_head b = H \<and> ht_tail b = []
        else ht_head b = take ((ht_max b + 1) div 2) H \<and> ht_tail b = drop (length H - ht_max b div 2) H)"

lemma takeTail_drop: "takeTail s n = drop (length s - n) s"
  by (simp add: takeTail_def)

lemma drop_tail_append:
  assumes "n \<le> length H"
  shows "drop (length (drop (length H - n) H @ w) - n) (drop (length H - n) H @ w) = drop (length (H @ w) - n) (H @ w)"
proof -
  have "drop (length H - n) H @ w = drop (length H - n) (H @ w)" using assms by simp
  moreover have "length (drop (length H - n) (H @ w)) - n + (length H - n) = length (H @ w) - n" using assms by simp
  ultimately show ?thesis by (simp only: drop_drop)
qed

lemma head_tail_append_max [simp]: "ht_max (head_tail_append w b) = ht_max b"
  by (simp add: head_tail_append_def Let_def)

lemma head_tail_append_stands:
  assumes "head_tail_stands b H"
  shows "head_tail_stands (head_tail_append w b) (H @ w)"
proof -
  consider "w = []" | "w \<noteq> []" "length (H @ w) \<le> ht_max b" | "w \<noteq> []" "length (H @ w) > ht_max b" "length H \<le> ht_max b"
    | "w \<noteq> []" "length H > ht_max b" by fastforce
  then show ?thesis
  proof cases
    case 4
    then have "ht_max b div 2 \<le> length H" by simp
    with drop_tail_append [OF this, of w] 4 assms show ?thesis
      by (simp add: head_tail_stands_def head_tail_append_def Let_def splitBudget_def takeTail_drop)
  qed (use assms in \<open>simp_all add: head_tail_stands_def head_tail_append_def Let_def splitBudget_def takeTail_drop takeHead_def\<close>)
qed

lemma head_tail_writes:
  assumes "head_tail_stands b H"
  shows "head_tail_stands (fold head_tail_append ws b) (H @ concat ws) \<and> ht_max (fold head_tail_append ws b) = ht_max b"
  using assms
proof (induction ws arbitrary: b H)
  case Nil
  then show ?case by simp
next
  case (Cons w ws)
  from Cons.IH [OF head_tail_append_stands [OF Cons.prems, of w]] show ?case by simp
qed

lemma truncateOutput_bound:
  "length (fst (truncateOutput s m)) \<le> max m (length truncation_marker)"
  by (auto simp: truncateOutput_def Let_def takeHead_def splitBudget_def)

text \<open>
  The head-and-tail buffer shows both ends of everything written to it: a drain after any writes
  returns the whole text when it fits in the buffer, and otherwise its first and its last half
  buffer around a line with the number of characters between them, and leaves the buffer empty. The
  result is cut to the caller's limit, except that the 26 characters of the truncation marker are
  never cut: a smaller limit is exceeded.
\<close>

theorem head_tail_drain_exact:
  assumes "new_head_tail m = Inr b0" "b = fold head_tail_append ws b0" "H = concat ws" "1 \<le> n"
    "head_tail_drain n b = (r, b')"
  shows "b' = b0 \<and> (\<exists>out. r = Inr out \<and> length (fst out) \<le> max (nat n) 26
    \<and> (if length H \<le> nat m then out = truncateOutput H (nat n)
       else snd out \<and> fst out = fst (truncateOutput
         (formatHeadTail (take ((nat m + 1) div 2) H) (drop (length H - nat m div 2) H) (length H - nat m)) (nat n))))"
proof -
  have "head_tail_stands b0 []" and m: "ht_max b0 = nat m" "1 \<le> m"
    using assms(1) by (auto simp: new_head_tail_def head_tail_stands_def split: if_splits)
  from head_tail_writes [OF this(1), of ws] have b: "head_tail_stands b H" "ht_max b = nat m"
    unfolding assms(2,3) using m by simp_all
  have marker: "length truncation_marker = 26" by (simp add: truncation_marker_def newline_def)
  have empty: "b\<lparr>ht_head := [], ht_tail := [], ht_total := 0\<rparr> = b0"
    using b(2) assms(1) by (cases b) (auto simp: new_head_tail_def split: if_splits)
  show ?thesis
  proof (cases "length H \<le> nat m")
    case True
    then have "head_tail_drain n b = (Inr (truncateOutput H (nat n)), b0)" using assms(4) b empty
      by (auto simp: head_tail_drain_def Let_def head_tail_stands_def formatHeadTail_def)
    then have "r = Inr (truncateOutput H (nat n))" "b' = b0" using assms(5) by simp_all
    with True show ?thesis using truncateOutput_bound [of H "nat n"] unfolding marker by simp
  next
    case False
    define kept where "kept = formatHeadTail (take ((nat m + 1) div 2) H) (drop (length H - nat m div 2) H) (length H - nat m)"
    have gap: "length H - (nat m + 1) div 2 - nat m div 2 = length H - nat m" "(nat m + 1) div 2 \<le> length H" "nat m div 2 \<le> length H"
      using False by linarith+
    have "ht_head b = take ((nat m + 1) div 2) H" "ht_tail b = drop (length H - nat m div 2) H" "ht_total b = length H"
      using b False by (simp_all add: head_tail_stands_def)
    then have "head_tail_drain n b = (Inr (fst (truncateOutput kept (nat n)), True), b0)" using assms(4) empty gap False
      by (simp add: head_tail_drain_def Let_def kept_def)
    then have "r = Inr (fst (truncateOutput kept (nat n)), True)" "b' = b0" using assms(5) by simp_all
    then show ?thesis using truncateOutput_bound [of kept "nat n"]
      unfolding marker kept_def [symmetric] if_not_P [OF False] by simp
  qed
qed

theorem head_tail_drain_exact_witness:
  "case new_head_tail 4 of Inl _ \<Rightarrow> False
   | Inr b0 \<Rightarrow> (case head_tail_drain 100 (fold head_tail_append [''abc'', ''defgh''] b0) of
        (Inr out, b') \<Rightarrow> b' = b0 \<and> snd out \<and> fst out = fst (truncateOutput (formatHeadTail ''ab'' ''gh'' 4) 100)
      | (Inl _, _) \<Rightarrow> False)"
proof -
  let ?b0 = "\<lparr>ht_max = 4, ht_head = [], ht_tail = [], ht_total = 0\<rparr>"
  have new: "new_head_tail 4 = Inr ?b0" by (simp add: new_head_tail_def)
  obtain r b' where d: "head_tail_drain 100 (fold head_tail_append [''abc'', ''defgh''] ?b0) = (r, b')" by fastforce
  have four: "Suc (Suc (Suc (Suc 0))) = 4" by simp
  from head_tail_drain_exact [OF new refl refl _ d] show ?thesis
    unfolding new sum.case d prod.case by (cases r) (auto simp: four)
qed

end
