(* ===== verification/Mcp_Admission.thy ===== *)
theory Mcp_Admission
  imports Kontrol_Prelude
begin

text \<open>
  Admission of MCP requests, src/src/server/mcp-admission.ts: the weight of a call, and the queue
  \<open>McpAdmission\<close> that bounds the weight executing at once, in total and per key.

  \<^item> A call of \<open>acquire\<close> returns a promise; the calls are numbered, \<open>am_resolved\<close> lists what the
    promises were resolved to, in order: a release function (\<open>True\<close>) or \<open>null\<close>.
  \<^item> \<open>am_grants\<close> are the release functions that were handed out and not yet called, with the key and
    the weight they have captured; a second call of one does nothing.
  \<^item> The timer of a waiter and its abort signal both run \<open>removeAndCancel\<close>. A signal that is aborted
    before the waiter is queued is the argument \<open>aborted\<close>.
  \<^item> A \<open>Map\<close> from keys to counts is a partial function. \<open>Math.max(0, a - b)\<close> is subtraction of
    natural numbers.
\<close>

section \<open>Weights\<close>

definition mcpAdmissionWeight :: "string option \<Rightarrow> string option \<Rightarrow> nat" where
  "mcpAdmissionWeight rpcMethod toolName =
     (if rpcMethod \<noteq> Some ''tools/call'' then 1
      else case toolName of
        None \<Rightarrow> 1
      | Some t \<Rightarrow>
          if t \<in> {''show_changes'', ''run_mission_verification''} then 4
          else if t \<in> {''grep'', ''glob'', ''find'', ''list_pending_reviews''} \<or> starts_with t ''git_'' then 2
          else if t \<in> {''bash'', ''exec_command'', ''write_stdin'', ''write'', ''edit'', ''apply_patch''} then 3
          else 1)"

definition MCP_UNBOUNDED_TOOL_NAMES :: "string list" where
  "MCP_UNBOUNDED_TOOL_NAMES =
     [''await_review_feedback'', ''await_work_session_events'', ''await_work_session_terminal'', ''await_workspace_events'',
      ''bash'', ''exec_command'', ''write_stdin'', ''write'', ''edit'', ''apply_patch'', ''submit_to_coding_agent'',
      ''call_acp_agent'', ''begin_supervised_work'', ''run_mission_verification'', ''provide_policy_approval'']"

definition mcpRequestHasExecutionDeadline :: "string option \<Rightarrow> string option \<Rightarrow> bool" where
  "mcpRequestHasExecutionDeadline rpcMethod toolName \<longleftrightarrow>
     rpcMethod \<noteq> Some ''tools/call'' \<or> coalesce toolName [] \<notin> set MCP_UNBOUNDED_TOOL_NAMES"

section \<open>State\<close>

record waiter =
  mw_call :: nat
  mw_key :: string
  mw_weight :: nat
  mw_settled :: bool

record admission =
  am_maxInflight :: nat
  am_maxInflightPerKey :: nat
  am_maxQueue :: nat
  am_maxQueuePerKey :: nat
  am_active :: nat
  am_activeWeight :: nat
  am_activeByKey :: "string \<rightharpoonup> nat"
  am_queuedByKey :: "string \<rightharpoonup> nat"
  am_queue :: "waiter list"
  am_closed :: bool
  am_calls :: nat
  am_grants :: "(nat \<times> string \<times> nat) list"
  am_resolved :: "(nat \<times> bool) list"

definition new_admission :: "int \<Rightarrow> int \<Rightarrow> int \<Rightarrow> int option \<Rightarrow> admission option" where
  "new_admission maxInflight maxInflightPerKey maxQueue maxQueuePerKey =
     (let perKey = coalesce maxQueuePerKey maxQueue
      in if maxInflight < 1 \<or> maxInflightPerKey < 1 \<or> maxQueue < 0 \<or> perKey < 0 then None
         else Some \<lparr>am_maxInflight = nat maxInflight, am_maxInflightPerKey = nat maxInflightPerKey, am_maxQueue = nat maxQueue,
                am_maxQueuePerKey = nat perKey, am_active = 0, am_activeWeight = 0, am_activeByKey = Map.empty,
                am_queuedByKey = Map.empty, am_queue = [], am_closed = False, am_calls = 0, am_grants = [], am_resolved = []\<rparr>)"

section \<open>Operations\<close>

definition canAdmit :: "string \<Rightarrow> nat \<Rightarrow> admission \<Rightarrow> bool" where
  "canAdmit key weight st \<longleftrightarrow>
     am_activeWeight st + weight \<le> am_maxInflight st \<and> coalesce (am_activeByKey st key) 0 + weight \<le> am_maxInflightPerKey st"

definition settle_call :: "nat \<Rightarrow> bool \<Rightarrow> admission \<Rightarrow> admission" where
  "settle_call call granted st = st\<lparr>am_resolved := am_resolved st @ [(call, granted)]\<rparr>"

definition grant_call :: "nat \<Rightarrow> string \<Rightarrow> nat \<Rightarrow> admission \<Rightarrow> admission" where
  "grant_call call key weight st =
     settle_call call True
       (st\<lparr>am_active := am_active st + 1, am_activeWeight := am_activeWeight st + weight,
          am_activeByKey := (am_activeByKey st)(key \<mapsto> coalesce (am_activeByKey st key) 0 + weight),
          am_grants := am_grants st @ [(call, key, weight)]\<rparr>)"

definition decrementQueuedKey :: "string \<Rightarrow> admission \<Rightarrow> admission" where
  "decrementQueuedKey key st =
     (let count = coalesce (am_queuedByKey st key) 1 - 1
      in st\<lparr>am_queuedByKey := (if count > 0 then (am_queuedByKey st)(key \<mapsto> count) else (am_queuedByKey st)(key := None))\<rparr>)"

definition acquire :: "string \<Rightarrow> int \<Rightarrow> bool \<Rightarrow> admission \<Rightarrow> admission" where
  "acquire key weight aborted st0 =
     (let call = am_calls st0; st = st0\<lparr>am_calls := Suc call\<rparr>
      in if am_closed st then settle_call call False st
         else if weight < 1 \<or> weight > int (am_maxInflight st) \<or> weight > int (am_maxInflightPerKey st) then settle_call call False st
         else if aborted then settle_call call False st
         else if canAdmit key (nat weight) st then grant_call call key (nat weight) st
         else if length (am_queue st) \<ge> am_maxQueue st \<or> coalesce (am_queuedByKey st key) 0 \<ge> am_maxQueuePerKey st then settle_call call False st
         else st\<lparr>am_queue := am_queue st @ [\<lparr>mw_call = call, mw_key = key, mw_weight = nat weight, mw_settled = False\<rparr>],
                 am_queuedByKey := (am_queuedByKey st)(key \<mapsto> coalesce (am_queuedByKey st key) 0 + 1)\<rparr>)"

text \<open>\<open>removeAndCancel\<close> of a waiter: it leaves the queue if it is still there and is settled if it was not.\<close>

definition removeAndCancel :: "nat \<Rightarrow> admission \<Rightarrow> admission" where
  "removeAndCancel call st =
     (case find (\<lambda>w. mw_call w = call) (am_queue st) of
        None \<Rightarrow> st
      | Some w \<Rightarrow>
          (let st1 = decrementQueuedKey (mw_key w) (st\<lparr>am_queue := remove1 w (am_queue st)\<rparr>)
           in if mw_settled w then st1 else settle_call call False st1))"

fun close_loop :: "waiter list \<Rightarrow> admission \<Rightarrow> admission" where
  "close_loop [] st = st\<lparr>am_queue := []\<rparr>"
| "close_loop (w # ws) st =
     (let st1 = decrementQueuedKey (mw_key w) st
      in close_loop ws (if mw_settled w then st1 else settle_call (mw_call w) False st1))"

definition admission_close :: "admission \<Rightarrow> admission" where
  "admission_close st = close_loop (am_queue st) (st\<lparr>am_closed := True\<rparr>)"

text \<open>The loop of \<open>drain\<close>: the waiters already passed over, and those still to be looked at.\<close>

fun drain_loop :: "waiter list \<Rightarrow> waiter list \<Rightarrow> admission \<Rightarrow> admission" where
  "drain_loop kept [] st = st\<lparr>am_queue := kept\<rparr>"
| "drain_loop kept (w # ws) st =
     (if mw_settled w then drain_loop kept ws (decrementQueuedKey (mw_key w) st)
      else if \<not> canAdmit (mw_key w) (mw_weight w) st then drain_loop (kept @ [w]) ws st
      else drain_loop kept ws (grant_call (mw_call w) (mw_key w) (mw_weight w) (decrementQueuedKey (mw_key w) st)))"

definition drain :: "admission \<Rightarrow> admission" where
  "drain st = (if am_closed st then st else drain_loop [] (am_queue st) st)"

definition release_grant :: "nat \<Rightarrow> admission \<Rightarrow> admission" where
  "release_grant call st =
     (case find (\<lambda>(c, _). c = call) (am_grants st) of
        None \<Rightarrow> st
      | Some (c, key, weight) \<Rightarrow>
          (let count = coalesce (am_activeByKey st key) weight - weight
           in drain (st\<lparr>am_grants := remove1 (c, key, weight) (am_grants st), am_active := am_active st - 1,
                am_activeWeight := am_activeWeight st - weight,
                am_activeByKey := (if count > 0 then (am_activeByKey st)(key \<mapsto> count) else (am_activeByKey st)(key := None))\<rparr>)))"

section \<open>Steps\<close>

inductive admission_step :: "admission \<Rightarrow> admission \<Rightarrow> bool" where
  ad_acquire: "admission_step st (acquire key weight aborted st)"
| ad_cancel: "admission_step st (removeAndCancel call st)"
| ad_release: "admission_step st (release_grant call st)"
| ad_close: "admission_step st (admission_close st)"

definition admission_start :: "admission \<Rightarrow> bool" where
  "admission_start st \<longleftrightarrow> (\<exists>a b c d. new_admission a b c d = Some st)"

text \<open>
  The counters are the sums they stand for; the limits hold; what is queued is unsettled, fits the
  limits by itself and does not fit now; every call is settled once or queued.
\<close>

definition key_weight :: "string \<Rightarrow> (nat \<times> string \<times> nat) list \<Rightarrow> nat" where
  "key_weight k gs = sum_list (map (\<lambda>(c, key, w). if key = k then w else 0) gs)"

definition total_weight :: "(nat \<times> string \<times> nat) list \<Rightarrow> nat" where
  "total_weight gs = sum_list (map (\<lambda>(c, key, w). w) gs)"

definition queued_for :: "string \<Rightarrow> waiter list \<Rightarrow> nat" where
  "queued_for k ws = length (filter (\<lambda>w. mw_key w = k) ws)"

definition nonzero :: "nat \<Rightarrow> nat option" where
  "nonzero n = (if n = 0 then None else Some n)"

definition counts_ok :: "admission \<Rightarrow> bool" where
  "counts_ok st \<longleftrightarrow> am_active st = length (am_grants st) \<and> am_activeWeight st = total_weight (am_grants st)
     \<and> (\<forall>k. am_activeByKey st k = nonzero (key_weight k (am_grants st)))
     \<and> (\<forall>k. key_weight k (am_grants st) \<le> am_maxInflightPerKey st) \<and> total_weight (am_grants st) \<le> am_maxInflight st
     \<and> (\<forall>g \<in> set (am_grants st). 0 < snd (snd g))"

definition queue_ok :: "admission \<Rightarrow> bool" where
  "queue_ok st \<longleftrightarrow> (\<forall>k. am_queuedByKey st k = nonzero (queued_for k (am_queue st)))
     \<and> length (am_queue st) \<le> am_maxQueue st \<and> (\<forall>k. queued_for k (am_queue st) \<le> am_maxQueuePerKey st)
     \<and> (\<forall>w \<in> set (am_queue st). \<not> mw_settled w \<and> 0 < mw_weight w \<and> mw_weight w \<le> am_maxInflight st
          \<and> mw_weight w \<le> am_maxInflightPerKey st)
     \<and> (am_closed st \<longrightarrow> am_queue st = [])"

definition calls_ok :: "admission \<Rightarrow> bool" where
  "calls_ok st \<longleftrightarrow> distinct (map fst (am_resolved st) @ map mw_call (am_queue st))
     \<and> set (map fst (am_resolved st) @ map mw_call (am_queue st)) = {..<am_calls st}
     \<and> distinct (map fst (am_grants st)) \<and> (\<forall>g \<in> set (am_grants st). (fst g, True) \<in> set (am_resolved st))"

definition waiting_blocked :: "admission \<Rightarrow> bool" where
  "waiting_blocked st \<longleftrightarrow> (\<forall>w \<in> set (am_queue st). \<not> canAdmit (mw_key w) (mw_weight w) st)"

definition admission_ok :: "admission \<Rightarrow> bool" where
  "admission_ok st \<longleftrightarrow> counts_ok st \<and> queue_ok st \<and> calls_ok st \<and> waiting_blocked st"

section \<open>Every step keeps the invariant\<close>

lemma nonzero_simps [simp]:
  "coalesce (nonzero n) 0 = n" "nonzero 0 = None" "n \<noteq> 0 \<Longrightarrow> nonzero n = Some n" "nonzero n = None \<longleftrightarrow> n = 0"
  by (simp_all add: nonzero_def)

lemma weight_append [simp]:
  "key_weight k (gs @ hs) = key_weight k gs + key_weight k hs" "total_weight (gs @ hs) = total_weight gs + total_weight hs"
  "key_weight k [(c, key, w)] = (if key = k then w else 0)" "total_weight [(c, key, w)] = w"
  by (simp_all add: key_weight_def total_weight_def)

lemma weight_remove1:
  assumes "(c, key, w) \<in> set gs"
  shows "key_weight k gs = (if key = k then w else 0) + key_weight k (remove1 (c, key, w) gs)"
    "total_weight gs = w + total_weight (remove1 (c, key, w) gs)"
  using sum_list_map_remove1 [OF assms, of "\<lambda>(c, key, w). if key = k then w else 0"]
    sum_list_map_remove1 [OF assms, of "\<lambda>(c, key, w). w"]
  by (simp_all add: key_weight_def total_weight_def)

lemma queued_for_simps [simp]:
  "queued_for k [] = 0" "queued_for k (w # ws) = (if mw_key w = k then 1 else 0) + queued_for k ws"
  "queued_for k (us @ ws) = queued_for k us + queued_for k ws"
  by (simp_all add: queued_for_def)

lemma frame_simps [simp]:
  "am_maxInflight (settle_call c g st) = am_maxInflight st" "am_maxInflightPerKey (settle_call c g st) = am_maxInflightPerKey st"
  "am_maxQueue (settle_call c g st) = am_maxQueue st" "am_maxQueuePerKey (settle_call c g st) = am_maxQueuePerKey st"
  "am_queuedByKey (settle_call c g st) = am_queuedByKey st" "am_queue (settle_call c g st) = am_queue st"
  "am_closed (settle_call c g st) = am_closed st" "am_calls (settle_call c g st) = am_calls st"
  "am_resolved (settle_call c g st) = am_resolved st @ [(c, g)]" "am_grants (settle_call c g st) = am_grants st"
  "am_maxInflight (grant_call c k w st) = am_maxInflight st" "am_maxInflightPerKey (grant_call c k w st) = am_maxInflightPerKey st"
  "am_maxQueue (grant_call c k w st) = am_maxQueue st" "am_maxQueuePerKey (grant_call c k w st) = am_maxQueuePerKey st"
  "am_queuedByKey (grant_call c k w st) = am_queuedByKey st" "am_queue (grant_call c k w st) = am_queue st"
  "am_closed (grant_call c k w st) = am_closed st" "am_calls (grant_call c k w st) = am_calls st"
  "am_resolved (grant_call c k w st) = am_resolved st @ [(c, True)]" "am_grants (grant_call c k w st) = am_grants st @ [(c, k, w)]"
  by (simp_all add: settle_call_def grant_call_def)

lemma dec_frame [simp]:
  "am_maxInflight (decrementQueuedKey k st) = am_maxInflight st" "am_maxInflightPerKey (decrementQueuedKey k st) = am_maxInflightPerKey st"
  "am_maxQueue (decrementQueuedKey k st) = am_maxQueue st" "am_maxQueuePerKey (decrementQueuedKey k st) = am_maxQueuePerKey st"
  "am_activeByKey (decrementQueuedKey k st) = am_activeByKey st" "am_queue (decrementQueuedKey k st) = am_queue st"
  "am_active (decrementQueuedKey k st) = am_active st" "am_activeWeight (decrementQueuedKey k st) = am_activeWeight st"
  "am_closed (decrementQueuedKey k st) = am_closed st" "am_calls (decrementQueuedKey k st) = am_calls st"
  "am_resolved (decrementQueuedKey k st) = am_resolved st" "am_grants (decrementQueuedKey k st) = am_grants st"
  "canAdmit key w (decrementQueuedKey k st) = canAdmit key w st"
  by (simp_all add: decrementQueuedKey_def Let_def canAdmit_def)

lemma canAdmit_frame [simp]:
  "canAdmit k w (st\<lparr>am_queue := q\<rparr>) = canAdmit k w st" "canAdmit k w (settle_call c g st) = canAdmit k w st"
  "canAdmit k w (st\<lparr>am_calls := n\<rparr>) = canAdmit k w st" "canAdmit k w (st\<lparr>am_queuedByKey := m\<rparr>) = canAdmit k w st"
  by (simp_all add: canAdmit_def settle_call_def)

lemma canAdmit_grant: "canAdmit k w (grant_call c k' w' st) \<Longrightarrow> canAdmit k w st"
  by (auto simp: canAdmit_def grant_call_def settle_call_def split: if_splits)

lemma dec_queued:
  assumes "am_queuedByKey st = (\<lambda>k. nonzero (queued_for k (xs @ w # ys)))"
  shows "am_queuedByKey (decrementQueuedKey (mw_key w) st) = (\<lambda>k. nonzero (queued_for k (xs @ ys)))"
proof
  fix k
  have "coalesce (nonzero (Suc n)) 1 - 1 = n" for n by (simp add: nonzero_def)
  then show "am_queuedByKey (decrementQueuedKey (mw_key w) st) k = nonzero (queued_for k (xs @ ys))"
    by (simp add: decrementQueuedKey_def Let_def assms)
qed

lemma grant_counts:
  assumes "counts_ok st" "canAdmit k w st" "0 < w"
  shows "counts_ok (grant_call c k w st)"
proof -
  have "am_activeByKey (grant_call c k w st) k' = nonzero (key_weight k' (am_grants st @ [(c, k, w)]))" for k'
    using assms(1,3) by (simp add: counts_ok_def grant_call_def settle_call_def)
  then show ?thesis using assms unfolding counts_ok_def
    by (auto simp: canAdmit_def grant_call_def settle_call_def)
qed

lemma counts_frame [simp]:
  "counts_ok (decrementQueuedKey k st) = counts_ok st" "counts_ok (st\<lparr>am_queue := q\<rparr>) = counts_ok st"
  "counts_ok (settle_call c g st) = counts_ok st" "counts_ok (st\<lparr>am_calls := n\<rparr>) = counts_ok st"
  "counts_ok (st\<lparr>am_queuedByKey := m\<rparr>) = counts_ok st" "counts_ok (st\<lparr>am_closed := b\<rparr>) = counts_ok st"
  by (simp_all add: counts_ok_def settle_call_def)

lemma queue_ok_alt:
  "queue_ok st \<longleftrightarrow> am_queuedByKey st = (\<lambda>k. nonzero (queued_for k (am_queue st)))
     \<and> length (am_queue st) \<le> am_maxQueue st \<and> (\<forall>k. queued_for k (am_queue st) \<le> am_maxQueuePerKey st)
     \<and> (\<forall>w \<in> set (am_queue st). \<not> mw_settled w \<and> 0 < mw_weight w \<and> mw_weight w \<le> am_maxInflight st
          \<and> mw_weight w \<le> am_maxInflightPerKey st)
     \<and> (am_closed st \<longrightarrow> am_queue st = [])"
  unfolding queue_ok_def by (simp add: fun_eq_iff)

lemma dequeue_ok:
  assumes "queue_ok (st\<lparr>am_queue := xs @ w # ys\<rparr>)"
  shows "queue_ok ((decrementQueuedKey (mw_key w) st)\<lparr>am_queue := xs @ ys\<rparr>)"
proof -
  have "queued_for k (xs @ ys) \<le> am_maxQueuePerKey st" for k
    using assms le_trans [of "queued_for k (xs @ ys)" "queued_for k (xs @ w # ys)" "am_maxQueuePerKey st"] unfolding queue_ok_def by auto
  then show ?thesis using assms dec_queued [of st xs w ys] unfolding queue_ok_alt by auto
qed

lemma settle_calls:
  assumes "calls_ok (st\<lparr>am_queue := xs @ w # ys\<rparr>)" "am_resolved st' = am_resolved st @ [(mw_call w, g)]" "am_calls st' = am_calls st"
    "am_grants st' = am_grants st @ (if g then [(mw_call w, k, n)] else [])"
  shows "calls_ok (st'\<lparr>am_queue := xs @ ys\<rparr>)"
proof -
  have "mw_call w \<notin> fst ` set (am_resolved st)" using assms(1) by (auto simp: calls_ok_def)
  moreover have "fst ` set (am_grants st) \<subseteq> fst ` set (am_resolved st)"
    using assms(1) by (force simp: calls_ok_def image_iff)
  ultimately have "mw_call w \<notin> fst ` set (am_grants st)" by blast
  with assms show ?thesis unfolding calls_ok_def by auto
qed

lemma drain_loop_ok:
  assumes "counts_ok st" "queue_ok (st\<lparr>am_queue := kept @ ws\<rparr>)" "calls_ok (st\<lparr>am_queue := kept @ ws\<rparr>)"
    "\<And>w. w \<in> set kept \<Longrightarrow> \<not> canAdmit (mw_key w) (mw_weight w) st"
  shows "admission_ok (drain_loop kept ws st)"
  using assms
proof (induction ws arbitrary: kept st)
  case Nil
  then show ?case by (simp add: admission_ok_def waiting_blocked_def)
next
  case (Cons w ws)
  have w: "\<not> mw_settled w" "0 < mw_weight w" using Cons.prems(2) by (simp_all add: queue_ok_def)
  show ?case
  proof (cases "canAdmit (mw_key w) (mw_weight w) st")
    case False
    then have "admission_ok (drain_loop (kept @ [w]) ws st)" using Cons.prems by (intro Cons.IH) auto
    with w False show ?thesis by simp
  next
    case True
    let ?st = "grant_call (mw_call w) (mw_key w) (mw_weight w) (decrementQueuedKey (mw_key w) st)"
    have "admission_ok (drain_loop kept ws ?st)"
    proof (rule Cons.IH)
      show "counts_ok ?st" using Cons.prems(1) True w by (intro grant_counts) simp_all
      show "queue_ok (?st\<lparr>am_queue := kept @ ws\<rparr>)" using dequeue_ok [OF Cons.prems(2)] by (simp add: queue_ok_def)
      show "calls_ok (?st\<lparr>am_queue := kept @ ws\<rparr>)" by (rule settle_calls [OF Cons.prems(3), of _ True]) simp_all
      show "\<not> canAdmit (mw_key v) (mw_weight v) ?st" if "v \<in> set kept" for v
        using Cons.prems(4) [OF that] canAdmit_grant [of "mw_key v" "mw_weight v" "mw_call w" "mw_key w" "mw_weight w" "decrementQueuedKey (mw_key w) st"]
        by auto
    qed
    with w True show ?thesis by simp
  qed
qed

lemma drain_ok:
  assumes "counts_ok st" "queue_ok st" "calls_ok st"
  shows "admission_ok (drain st)"
  using assms drain_loop_ok [of st "[]" "am_queue st"]
  by (auto simp: drain_def admission_ok_def waiting_blocked_def queue_ok_def)

lemma find_split:
  assumes "find P xs = Some x"
  shows "\<exists>us vs. xs = us @ x # vs \<and> P x \<and> remove1 x xs = us @ vs"
  using assms
proof (induction xs)
  case Nil
  then show ?case by simp
next
  case (Cons y xs)
  show ?case
  proof (cases "P y")
    case True
    with Cons.prems show ?thesis by (intro exI [of _ "[]"] exI [of _ xs]) simp
  next
    case False
    with Cons obtain us vs where "xs = us @ x # vs" "P x" "remove1 x xs = us @ vs" by auto
    with False show ?thesis by (intro exI [of _ "y # us"] exI [of _ vs]) auto
  qed
qed

lemma cancel_ok:
  assumes "admission_ok st"
  shows "admission_ok (removeAndCancel call st)"
proof (cases "find (\<lambda>w. mw_call w = call) (am_queue st)")
  case None
  with assms show ?thesis by (simp add: removeAndCancel_def)
next
  case (Some w)
  from find_split [OF this] obtain us vs where q: "am_queue st = us @ w # vs" "mw_call w = call" "remove1 w (am_queue st) = us @ vs"
    by blast
  let ?st = "settle_call call False (decrementQueuedKey (mw_key w) st)"
  have st: "st = st\<lparr>am_queue := us @ w # vs\<rparr>" using q(1) by (cases st) simp
  have "queue_ok (st\<lparr>am_queue := us @ w # vs\<rparr>)" "calls_ok (st\<lparr>am_queue := us @ w # vs\<rparr>)"
    using assms q(1) by (simp_all add: admission_ok_def flip: q(1))
  from dequeue_ok [OF this(1)] settle_calls [OF this(2), of ?st False] assms q
  have "admission_ok (?st\<lparr>am_queue := us @ vs\<rparr>)"
    by (auto simp: admission_ok_def waiting_blocked_def queue_ok_def)
  moreover have "\<not> mw_settled w" using assms q(1) by (simp add: admission_ok_def queue_ok_def)
  moreover have "settle_call call False (decrementQueuedKey (mw_key w) (st\<lparr>am_queue := us @ vs\<rparr>)) = ?st\<lparr>am_queue := us @ vs\<rparr>"
    by (simp add: settle_call_def decrementQueuedKey_def Let_def)
  ultimately show ?thesis using Some q(3) by (simp add: removeAndCancel_def Let_def)
qed

lemma release_ok:
  assumes "admission_ok st"
  shows "admission_ok (release_grant call st)"
proof (cases "find (\<lambda>(c, _). c = call) (am_grants st)")
  case None
  with assms show ?thesis by (simp add: release_grant_def)
next
  case (Some g)
  obtain key w where g: "g = (call, key, w)" using Some by (cases g) (auto simp: find_Some_iff)
  have mem: "(call, key, w) \<in> set (am_grants st)" using Some g by (metis find_Some_iff nth_mem)
  define gs where "gs = remove1 (call, key, w) (am_grants st)"
  define st1 where "st1 = st\<lparr>am_grants := gs, am_active := am_active st - 1, am_activeWeight := am_activeWeight st - w,
      am_activeByKey := (\<lambda>k. nonzero (key_weight k gs))\<rparr>"
  note sums = weight_remove1 [OF mem, folded gs_def]
  have ok: "counts_ok st" "queue_ok st" "calls_ok st" using assms by (simp_all add: admission_ok_def)
  have sub: "set gs \<subseteq> set (am_grants st)" unfolding gs_def by (rule set_remove1_subset)
  have "key_weight k gs \<le> am_maxInflightPerKey st" for k
    using sums(1) [of k] ok(1) by (metis counts_ok_def le_add2 le_trans)
  then have "counts_ok st1" using ok(1) sums(2) sub mem unfolding counts_ok_def st1_def
    by (auto simp: gs_def length_remove1)
  moreover have "queue_ok st1" "calls_ok st1" using ok(2,3) sub
    by (auto simp: st1_def queue_ok_def calls_ok_def gs_def distinct_map inj_on_def distinct_remove1)
  ultimately have "admission_ok (drain st1)" by (rule drain_ok)
  moreover have "(if coalesce (am_activeByKey st key) w - w > 0 then (am_activeByKey st)(key \<mapsto> coalesce (am_activeByKey st key) w - w)
      else (am_activeByKey st)(key := None)) = (\<lambda>k. nonzero (key_weight k gs))"
    using ok(1) sums(1) by (auto simp: fun_eq_iff counts_ok_def nonzero_def)
  ultimately show ?thesis using Some g by (simp add: release_grant_def Let_def st1_def gs_def)
qed

lemma settled_call_ok:
  assumes "admission_ok st"
  shows "admission_ok (settle_call (am_calls st) False (st\<lparr>am_calls := Suc (am_calls st)\<rparr>))"
  using assms unfolding admission_ok_def by (auto simp: queue_ok_def calls_ok_def waiting_blocked_def)

lemma granted_call_ok:
  assumes "admission_ok st" "canAdmit key w st" "0 < w"
  shows "admission_ok (grant_call (am_calls st) key w (st\<lparr>am_calls := Suc (am_calls st)\<rparr>))"
proof -
  let ?st = "grant_call (am_calls st) key w (st\<lparr>am_calls := Suc (am_calls st)\<rparr>)"
  have "counts_ok ?st" using assms by (intro grant_counts) (simp_all add: admission_ok_def)
  moreover have "queue_ok ?st" using assms(1) by (simp add: admission_ok_def queue_ok_def)
  moreover have "am_calls st \<notin> fst ` set (am_resolved st) \<union> mw_call ` set (am_queue st)"
    using assms(1) by (auto simp: admission_ok_def calls_ok_def)
  moreover have "fst ` set (am_grants st) \<subseteq> fst ` set (am_resolved st)"
    using assms(1) by (force simp: admission_ok_def calls_ok_def image_iff)
  ultimately show ?thesis using assms(1) canAdmit_grant [of _ _ "am_calls st" key w "st\<lparr>am_calls := Suc (am_calls st)\<rparr>"]
    unfolding admission_ok_def waiting_blocked_def calls_ok_def by (auto simp: lessThan_Suc)
qed

lemma queued_call_ok:
  assumes "admission_ok st" "\<not> am_closed st" "\<not> canAdmit key w st" "0 < w" "w \<le> am_maxInflight st" "w \<le> am_maxInflightPerKey st"
    "length (am_queue st) < am_maxQueue st" "coalesce (am_queuedByKey st key) 0 < am_maxQueuePerKey st"
  shows "admission_ok (st\<lparr>am_calls := Suc (am_calls st),
      am_queue := am_queue st @ [\<lparr>mw_call = am_calls st, mw_key = key, mw_weight = w, mw_settled = False\<rparr>],
      am_queuedByKey := (am_queuedByKey st)(key \<mapsto> coalesce (am_queuedByKey st key) 0 + 1)\<rparr>)"
  using assms unfolding admission_ok_def waiting_blocked_def calls_ok_def queue_ok_def by (auto simp: lessThan_Suc)

lemma acquire_ok:
  assumes "admission_ok st"
  shows "admission_ok (acquire key weight aborted st)"
proof (cases "am_closed st \<or> weight < 1 \<or> weight > int (am_maxInflight st) \<or> weight > int (am_maxInflightPerKey st) \<or> aborted")
  case True
  then have "acquire key weight aborted st = settle_call (am_calls st) False (st\<lparr>am_calls := Suc (am_calls st)\<rparr>)"
    by (auto simp: acquire_def Let_def)
  with settled_call_ok [OF assms] show ?thesis by simp
next
  case False
  then have w: "\<not> am_closed st" "0 < nat weight" "nat weight \<le> am_maxInflight st" "nat weight \<le> am_maxInflightPerKey st" by auto
  show ?thesis
  proof (cases "canAdmit key (nat weight) st")
    case True
    with False granted_call_ok [OF assms True w(2)] show ?thesis by (simp add: acquire_def Let_def)
  next
    case blocked: False
    show ?thesis
    proof (cases "length (am_queue st) \<ge> am_maxQueue st \<or> coalesce (am_queuedByKey st key) 0 \<ge> am_maxQueuePerKey st")
      case True
      with False blocked settled_call_ok [OF assms] show ?thesis by (auto simp: acquire_def Let_def)
    next
      case room: False
      with False blocked queued_call_ok [OF assms w(1) blocked w(2-4)] show ?thesis by (simp add: acquire_def Let_def)
    qed
  qed
qed

lemma close_loop_ok:
  assumes "counts_ok st" "queue_ok (st\<lparr>am_queue := ws, am_closed := False\<rparr>)" "calls_ok (st\<lparr>am_queue := ws\<rparr>)"
  shows "admission_ok (close_loop ws st)"
  using assms
proof (induction ws arbitrary: st)
  case Nil
  then show ?case by (simp add: admission_ok_def waiting_blocked_def queue_ok_def)
next
  case (Cons w ws)
  let ?st = "settle_call (mw_call w) False (decrementQueuedKey (mw_key w) st)"
  have w: "\<not> mw_settled w" using Cons.prems(2) by (simp add: queue_ok_def)
  have "queue_ok ((st\<lparr>am_closed := False\<rparr>)\<lparr>am_queue := [] @ w # ws\<rparr>)" using Cons.prems(2) by (simp add: queue_ok_def)
  moreover have "am_queuedByKey (decrementQueuedKey (mw_key w) (st\<lparr>am_closed := False\<rparr>)) = am_queuedByKey (decrementQueuedKey (mw_key w) st)"
    by (simp add: decrementQueuedKey_def Let_def)
  ultimately have "queue_ok (?st\<lparr>am_queue := ws, am_closed := False\<rparr>)"
    using dequeue_ok [where st = "st\<lparr>am_closed := False\<rparr>" and xs = "[]" and w = w and ys = ws] by (simp add: queue_ok_def)
  moreover have "calls_ok (?st\<lparr>am_queue := ws\<rparr>)"
    using settle_calls [where st = st and xs = "[]" and w = w and ys = ws and st' = ?st and g = False] Cons.prems(3) by simp
  ultimately have "admission_ok (close_loop ws ?st)" using Cons.prems(1) by (intro Cons.IH) simp_all
  with w show ?case by (simp add: Let_def)
qed

lemma close_ok:
  assumes "admission_ok st"
  shows "admission_ok (admission_close st)"
  unfolding admission_close_def
  by (rule close_loop_ok) (use assms in \<open>auto simp: admission_ok_def queue_ok_def calls_ok_def\<close>)

interpretation admission_inv: store_invariant admission_start admission_step admission_ok
proof
  show "admission_ok st" if "admission_start st" for st
    using that unfolding admission_start_def new_admission_def
    by (auto simp: Let_def admission_ok_def counts_ok_def queue_ok_def calls_ok_def waiting_blocked_def key_weight_def total_weight_def split: if_splits)
  show "admission_ok st'" if "admission_ok st" "admission_step st st'" for st st'
    using that(2,1) by cases (auto intro: acquire_ok cancel_ok release_ok close_ok)
qed

section \<open>What the queue guarantees\<close>

lemma blocked_waiter_grants:
  assumes "admission_ok st" "am_queue st \<noteq> []"
  shows "am_grants st \<noteq> []"
proof
  assume none: "am_grants st = []"
  from assms(2) obtain w where w: "w \<in> set (am_queue st)" by (cases "am_queue st") auto
  have "canAdmit (mw_key w) (mw_weight w) st"
    using assms(1) none w by (auto simp: admission_ok_def counts_ok_def queue_ok_def canAdmit_def key_weight_def total_weight_def)
  with assms(1) w show False by (simp add: admission_ok_def waiting_blocked_def)
qed

text \<open>How much work is left before the queue is empty.\<close>

definition backlog :: "admission \<Rightarrow> nat" where
  "backlog st = 2 * length (am_queue st) + length (am_grants st)"

lemma drain_loop_progress:
  assumes "\<And>w. w \<in> set ws \<Longrightarrow> \<not> mw_settled w"
  shows "2 * length (am_queue (drain_loop kept ws st)) + length (am_grants (drain_loop kept ws st)) \<le> 2 * length (kept @ ws) + length (am_grants st)
    \<and> set (am_resolved st) \<subseteq> set (am_resolved (drain_loop kept ws st))
    \<and> (\<forall>w \<in> set (kept @ ws). w \<in> set (am_queue (drain_loop kept ws st)) \<or> (mw_call w, True) \<in> set (am_resolved (drain_loop kept ws st)))
    \<and> am_closed (drain_loop kept ws st) = am_closed st"
  using assms
proof (induction ws arbitrary: kept st)
  case Nil
  then show ?case by simp
next
  case (Cons w ws)
  show ?case
  proof (cases "canAdmit (mw_key w) (mw_weight w) st")
    case False
    with Cons.IH [of "kept @ [w]" st] Cons.prems show ?thesis by simp
  next
    case True
    let ?st = "grant_call (mw_call w) (mw_key w) (mw_weight w) (decrementQueuedKey (mw_key w) st)"
    from Cons.IH [of kept ?st] Cons.prems True show ?thesis by auto
  qed
qed

lemma release_progress:
  assumes "admission_ok st" "\<not> am_closed st" "call \<in> fst ` set (am_grants st)"
  shows "backlog (release_grant call st) < backlog st" "\<not> am_closed (release_grant call st)"
    "set (am_resolved st) \<subseteq> set (am_resolved (release_grant call st))"
    "w \<in> set (am_queue st) \<Longrightarrow> w \<in> set (am_queue (release_grant call st)) \<or> (mw_call w, True) \<in> set (am_resolved (release_grant call st))"
proof -
  from assms(3) obtain g where f: "find (\<lambda>(c, _). c = call) (am_grants st) = Some g"
    by (cases "find (\<lambda>(c, _). c = call) (am_grants st)") (auto simp: find_None_iff)
  then obtain key n where g: "g = (call, key, n)" by (cases g) (auto simp: find_Some_iff)
  have mem: "(call, key, n) \<in> set (am_grants st)" using f g by (metis find_Some_iff nth_mem)
  define st1 where "st1 = st\<lparr>am_grants := remove1 (call, key, n) (am_grants st), am_active := am_active st - 1,
      am_activeWeight := am_activeWeight st - n,
      am_activeByKey := (if coalesce (am_activeByKey st key) n - n > 0 then (am_activeByKey st)(key \<mapsto> coalesce (am_activeByKey st key) n - n)
        else (am_activeByKey st)(key := None))\<rparr>"
  have "release_grant call st = drain st1" unfolding release_grant_def f g by (simp add: Let_def st1_def)
  then have st1: "release_grant call st = drain_loop [] (am_queue st) st1" "am_resolved st1 = am_resolved st"
    "am_grants st1 = remove1 (call, key, n) (am_grants st)" "\<not> am_closed st1"
    using assms(2) by (simp_all add: drain_def st1_def)
  have "\<not> mw_settled w" if "w \<in> set (am_queue st)" for w using assms(1) that by (simp add: admission_ok_def queue_ok_def)
  note p = drain_loop_progress [OF this, of "am_queue st" "[]" st1]
  have "length (am_grants st1) < length (am_grants st)" using mem st1(3) length_pos_if_in_set [OF mem] by (simp add: length_remove1)
  with p show "backlog (release_grant call st) < backlog st" by (simp add: backlog_def st1(1))
  show "\<not> am_closed (release_grant call st)" "set (am_resolved st) \<subseteq> set (am_resolved (release_grant call st))"
    "w \<in> set (am_queue st) \<Longrightarrow> w \<in> set (am_queue (release_grant call st)) \<or> (mw_call w, True) \<in> set (am_resolved (release_grant call st))"
    using p st1 by auto
qed

text \<open>Finishing one running request after the other, in the order an arbitrary scheduler picks them.\<close>

definition finish_one :: "(admission \<Rightarrow> nat) \<Rightarrow> admission \<Rightarrow> admission" where
  "finish_one pick st = (if am_grants st = [] then st else release_grant (pick st) st)"

lemma finish_all:
  assumes "\<And>st. am_grants st \<noteq> [] \<Longrightarrow> pick st \<in> fst ` set (am_grants st)" "admission_ok st" "\<not> am_closed st" "backlog st \<le> n"
  shows "am_queue ((finish_one pick ^^ n) st) = [] \<and> set (am_resolved st) \<subseteq> set (am_resolved ((finish_one pick ^^ n) st))
    \<and> (\<forall>w \<in> set (am_queue st). (mw_call w, True) \<in> set (am_resolved ((finish_one pick ^^ n) st)))"
  using assms(2-4)
proof (induction n arbitrary: st)
  case 0
  then show ?case by (simp add: backlog_def)
next
  case (Suc n)
  show ?case
  proof (cases "am_grants st = []")
    case True
    then have q: "am_queue st = []" using blocked_waiter_grants [OF Suc.prems(1)] by blast
    have "(finish_one pick ^^ Suc n) st = st" using True by (induction n) (simp_all add: finish_one_def)
    with q show ?thesis by simp
  next
    case False
    let ?st = "release_grant (pick st) st"
    note r = release_progress [OF Suc.prems(1,2) assms(1) [OF False]]
    have "admission_ok ?st" by (rule release_ok [OF Suc.prems(1)])
    from Suc.IH [OF this r(2)] r(1) Suc.prems(3) have ih:
      "am_queue ((finish_one pick ^^ n) ?st) = []" "set (am_resolved ?st) \<subseteq> set (am_resolved ((finish_one pick ^^ n) ?st))"
      "\<forall>w \<in> set (am_queue ?st). (mw_call w, True) \<in> set (am_resolved ((finish_one pick ^^ n) ?st))"
      by simp_all
    have "(finish_one pick ^^ Suc n) st = (finish_one pick ^^ n) ?st" using False by (simp add: funpow_swap1 finish_one_def)
    with ih r(3,4) show ?thesis by (metis subset_iff)
  qed
qed

text \<open>
  C21. Admission is bounded and exact: in every reachable state the weight of the requests executing is
  within the total limit and, for each key, within the limit per key; the queue is within its
  limits; the counters are the sums they stand for, so that no release leaks capacity; and every
  call was answered exactly once or is waiting in the queue.
\<close>

theorem admission_bounded:
  assumes "reachable admission_start admission_step st"
  shows "total_weight (am_grants st) \<le> am_maxInflight st \<and> (\<forall>k. key_weight k (am_grants st) \<le> am_maxInflightPerKey st)
    \<and> length (am_queue st) \<le> am_maxQueue st \<and> (\<forall>k. queued_for k (am_queue st) \<le> am_maxQueuePerKey st)
    \<and> am_active st = length (am_grants st) \<and> am_activeWeight st = total_weight (am_grants st)
    \<and> (\<forall>k. am_activeByKey st k = nonzero (key_weight k (am_grants st))) \<and> (\<forall>k. am_queuedByKey st k = nonzero (queued_for k (am_queue st)))
    \<and> distinct (map fst (am_resolved st) @ map mw_call (am_queue st))
    \<and> set (map fst (am_resolved st) @ map mw_call (am_queue st)) = {..<am_calls st}"
  using admission_inv.inv_reachable [OF assms] unfolding admission_ok_def counts_ok_def queue_ok_def calls_ok_def by blast

definition demo_admission :: admission where
  "demo_admission = acquire ''a'' 1 False (acquire ''b'' 3 False (acquire ''a'' 2 False (the (new_admission 4 3 5 None))))"

lemma demo_admission_reachable: "reachable admission_start admission_step demo_admission"
proof -
  have more: "reachable admission_start admission_step (acquire key w b st)" if "reachable admission_start admission_step st" for key w b st
    using that by (rule reachable_step) (rule ad_acquire)
  have "reachable admission_start admission_step (the (new_admission 4 3 5 None))"
    by (rule reachable_start, unfold admission_start_def, intro exI [of _ 4] exI [of _ 3] exI [of _ 5] exI [of _ None])
      (simp add: new_admission_def)
  then show ?thesis unfolding demo_admission_def by (intro more)
qed

theorem admission_bounded_witness:
  "total_weight (am_grants demo_admission) \<le> 4 \<and> am_active demo_admission = 2 \<and> map mw_call (am_queue demo_admission) = [1]"
proof -
  have "am_maxInflight demo_admission = 4" "length (am_grants demo_admission) = 2" "map mw_call (am_queue demo_admission) = [1]" by code_simp+
  then show ?thesis using admission_bounded [OF demo_admission_reachable] by simp
qed

text \<open>
  C22. No waiter is forgotten: as long as admission is open, whoever waits is waiting for a request
  that executes, and when the executing requests finish, in whatever order and with no further
  calls, everyone in the queue is admitted, after at most two releases per waiter and one per
  request that was executing.
\<close>

theorem waiters_admitted:
  assumes "reachable admission_start admission_step st" "\<not> am_closed st" "2 * length (am_queue st) + length (am_grants st) \<le> n"
    "\<And>st. am_grants st \<noteq> [] \<Longrightarrow> pick st \<in> fst ` set (am_grants st)"
  shows "(am_queue st = [] \<or> am_grants st \<noteq> []) \<and> am_queue ((finish_one pick ^^ n) st) = []
    \<and> list_all (\<lambda>w. (mw_call w, True) \<in> set (am_resolved ((finish_one pick ^^ n) st))) (am_queue st)"
proof -
  have ok: "admission_ok st" by (rule admission_inv.inv_reachable [OF assms(1)])
  from finish_all [OF assms(4) ok assms(2), of n] assms(3) blocked_waiter_grants [OF ok]
  show ?thesis by (auto simp: backlog_def list_all_iff)
qed

theorem waiters_admitted_witness:
  "am_queue ((finish_one (\<lambda>st. fst (hd (am_grants st))) ^^ 4) demo_admission) = []"
proof -
  have "\<not> am_closed demo_admission" "2 * length (am_queue demo_admission) + length (am_grants demo_admission) \<le> 4" by code_simp+
  from waiters_admitted [OF demo_admission_reachable this, of "\<lambda>st. fst (hd (am_grants st))"] show ?thesis by simp
qed

end
