(* ===== verification/Mutation_Receipts.thy ===== *)
theory Mutation_Receipts
  imports Kontrol_Prelude "HOL-Library.Multiset"
begin

text \<open>
  Receipts of client mutations, src/src/mutation-receipts.ts: a client that repeats a mutation under
  the same id gets the recorded result instead of a second execution. The state is the table
  \<open>client_mutation_receipts\<close>, whose primary key is principal, operation and mutation id.

  \<^item> \<open>sha256\<close> is the hash of node:crypto in hexadecimal and \<open>json_parse\<close> is \<open>JSON.parse\<close> (nothing where
    it throws); \<open>json_stringify\<close> of the prelude is \<open>JSON.stringify\<close>.
  \<^item> The work a mutation does is a function on an arbitrary world that returns its result or the
    message of the error it throws.
\<close>

section \<open>State\<close>

record receipt =
  rc_principalId :: string
  rc_operation :: string
  rc_clientMutationId :: string
  rc_requestHash :: string
  rc_status :: string
  rc_resultJson :: "string option"
  rc_createdAt :: iso_time
  rc_updatedAt :: iso_time

type_synonym receipts = "receipt table"

datatype receipt_decision = ReceiptDisabled | ReceiptNew | ReceiptReplay json | ReceiptPending | ReceiptConflict

datatype receipt_error = ReceiptNotFinalized | InvalidRetention

section \<open>Request identity\<close>

function canonicalJson :: "json \<Rightarrow> string" where
  "canonicalJson (JArr vs) = ''['' @ join '','' (map canonicalJson vs) @ '']''"
| "canonicalJson (JObj fs) = ''{'' @ join '','' (map (\<lambda>(k, v). json_string k @ '':'' @ canonicalJson v) (sort_key fst fs)) @ ''}''"
| "canonicalJson JNull = json_stringify JNull"
| "canonicalJson (JBool b) = json_stringify (JBool b)"
| "canonicalJson (JInt n) = json_stringify (JInt n)"
| "canonicalJson (JDec s) = json_stringify (JDec s)"
| "canonicalJson (JStr s) = json_stringify (JStr s)"
  by pat_completeness auto

termination
proof (relation "measure size")
  fix fs :: "(string \<times> json) list" and x and k and v :: json
  assume "x \<in> set (sort_key fst fs)" "(k, v) = x"
  then have "(k, v) \<in> set fs" by simp
  then have "size v < size_list (size_prod (\<lambda>x. 0) size) fs + 1"
    using size_list_estimation' [of "(k, v)" fs "size v" "size_prod (\<lambda>x. 0) size"] by simp
  then show "(v, JObj fs) \<in> measure size" by simp
qed (auto simp: less_Suc_eq_le intro: size_list_estimation')

definition requestHash :: "(string \<Rightarrow> string) \<Rightarrow> string \<Rightarrow> json \<Rightarrow> string" where
  "requestHash sha256 operation request = sha256 (operation @ newline @ canonicalJson request)"

section \<open>Operations\<close>

definition receipt_of :: "string \<Rightarrow> string \<Rightarrow> string \<Rightarrow> receipt \<Rightarrow> bool" where
  "receipt_of principalId operation clientMutationId r \<longleftrightarrow>
     rc_principalId r = principalId \<and> rc_operation r = operation \<and> rc_clientMutationId r = clientMutationId"

definition beginTransaction :: "string \<Rightarrow> string \<Rightarrow> string \<Rightarrow> string \<Rightarrow> iso_time \<Rightarrow> receipts \<Rightarrow> receipts \<times> nat \<times> receipt option" where
  "beginTransaction principalId operation clientMutationId h now t =
     (let present = list_ex (receipt_of principalId operation clientMutationId) t;
          t1 = (if present then t
                else t @ [\<lparr>rc_principalId = principalId, rc_operation = operation, rc_clientMutationId = clientMutationId, rc_requestHash = h,
                          rc_status = ''pending'', rc_resultJson = None, rc_createdAt = now, rc_updatedAt = now\<rparr>])
      in (t1, if present then 0 else 1, find (receipt_of principalId operation clientMutationId) t1))"

definition receipt_begin ::
    "(string \<Rightarrow> string) \<Rightarrow> (string \<Rightarrow> json option) \<Rightarrow> string \<Rightarrow> string \<Rightarrow> string option \<Rightarrow> json \<Rightarrow> iso_time \<Rightarrow> receipts \<Rightarrow> receipts \<times> receipt_decision" where
  "receipt_begin sha256 json_parse principalId operation clientMutationId request now t =
     (if \<not> truthy clientMutationId then (t, ReceiptDisabled)
      else
        let h = requestHash sha256 operation request;
            (t1, insertedChanges, row) = beginTransaction principalId operation (the clientMutationId) h now t
        in (t1, case row of
                  None \<Rightarrow> ReceiptConflict
                | Some r \<Rightarrow>
                    if rc_requestHash r \<noteq> h then ReceiptConflict
                    else if rc_status r = ''completed'' then
                      (case json_parse (coalesce (rc_resultJson r) ''null'') of None \<Rightarrow> ReceiptConflict | Some v \<Rightarrow> ReceiptReplay v)
                    else if rc_status r \<noteq> ''pending'' then ReceiptConflict
                    else if insertedChanges = 1 then ReceiptNew else ReceiptPending))"

definition receipt_complete ::
    "(string \<Rightarrow> string) \<Rightarrow> string \<Rightarrow> string \<Rightarrow> string \<Rightarrow> json \<Rightarrow> json \<Rightarrow> iso_time \<Rightarrow> receipts \<Rightarrow> receipts \<times> receipt_error option" where
  "receipt_complete sha256 principalId operation clientMutationId request result now t =
     (let h = requestHash sha256 operation request;
          P = (\<lambda>r. receipt_of principalId operation clientMutationId r \<and> rc_requestHash r = h \<and> rc_status r = ''pending'')
      in (sql_update P (\<lambda>r. r\<lparr>rc_status := ''completed'', rc_resultJson := Some (json_stringify result), rc_updatedAt := now\<rparr>) t,
          if sql_changes P t \<noteq> 1 then Some ReceiptNotFinalized else None))"

record receipt_maintenance =
  rm_deletedCompleted :: nat
  rm_pendingSample :: "(string \<times> string \<times> string \<times> iso_time) list"
  rm_pendingHasMore :: bool

definition doomed_receipts :: "iso_time \<Rightarrow> nat \<Rightarrow> receipts \<Rightarrow> receipts" where
  "doomed_receipts cutoff limit t =
     take limit (order_asc rc_updatedAt (filter (\<lambda>r. rc_status r = ''completed'' \<and> rc_updatedAt r < cutoff) t))"

definition receipt_reconcile ::
    "int option \<Rightarrow> int option \<Rightarrow> iso_time \<Rightarrow> receipts \<Rightarrow> receipts \<times> (receipt_error + receipt_maintenance)" where
  "receipt_reconcile retentionMs limit now t =
     (let retention = coalesce retentionMs (30 * 24 * 60 * 60 * 1000); n = nat (max 1 (min 500 (coalesce limit 100)))
      in if retention < 0 then (t, Inl InvalidRetention)
         else
           let doomed = doomed_receipts (now - retention) n t;
               t1 = sql_delete (\<lambda>r. r \<in> set doomed) t;
               rows = take (n + 1) (order_asc (\<lambda>r. (rc_updatedAt r, rc_principalId r, rc_operation r, rc_clientMutationId r))
                        (filter (\<lambda>r. rc_status r = ''pending'') t1))
           in (t1, Inr \<lparr>rm_deletedCompleted = length doomed,
                     rm_pendingSample = map (\<lambda>r. (rc_principalId r, rc_operation r, rc_clientMutationId r, rc_updatedAt r)) (take n rows),
                     rm_pendingHasMore = (length rows > n)\<rparr>))"

section \<open>Running a mutation\<close>

definition error_result :: "string \<Rightarrow> json" where
  "error_result text =
     JObj [(''content'', JArr [JObj [(''type'', JStr ''text''), (''text'', JStr text)]]), (''isError'', JBool True)]"

definition mutationReceiptResult :: "receipt_decision \<Rightarrow> json" where
  "mutationReceiptResult decision = error_result
     (if decision = ReceiptPending then ''This mutation is already in progress or its prior outcome is unknown. Reconcile authoritative state before retrying.''
      else if decision = ReceiptConflict then ''This client mutation ID was already used with different request content.''
      else ''Stored mutation result could not be replayed.'')"

definition runWithMutationReceipt ::
    "(string \<Rightarrow> string) \<Rightarrow> (string \<Rightarrow> json option) \<Rightarrow> string \<Rightarrow> string \<Rightarrow> string option \<Rightarrow> json \<Rightarrow> iso_time \<times> iso_time
      \<Rightarrow> ('w \<Rightarrow> (string + json) \<times> 'w) \<Rightarrow> receipts \<times> 'w \<Rightarrow> (string + json) \<times> receipts \<times> 'w" where
  "runWithMutationReceipt sha256 json_parse principalId operation clientMutationId request clock execute = (\<lambda>(t, w).
     (case receipt_begin sha256 json_parse principalId operation clientMutationId request (fst clock) t of
        (t1, ReceiptDisabled) \<Rightarrow> (let (r, w') = execute w in (r, t1, w'))
      | (t1, ReceiptReplay v) \<Rightarrow> (Inr v, t1, w)
      | (t1, ReceiptNew) \<Rightarrow>
          (let (r, w') = execute w;
               result = (case r of Inr v \<Rightarrow> v | Inl message \<Rightarrow> error_result message);
               (t2, failed) = receipt_complete sha256 principalId operation (the clientMutationId) request result (snd clock) t1
           in (Inr (if failed = None then result
                    else error_result ''Mutation committed, but its durable receipt could not be finalized. Reconcile authoritative state before retrying.''), t2, w'))
      | (t1, d) \<Rightarrow> (Inr (mutationReceiptResult d), t1, w)))"

definition mutationPrincipalId :: "string option \<Rightarrow> string option \<Rightarrow> string" where
  "mutationPrincipalId principalId role =
     (if truthy (map_option trim principalId) then the (map_option trim principalId) else ''role:'' @ coalesce role ''anonymous'')"

section \<open>Histories\<close>

text \<open>Calls of the store by any number of clients, with the answers their \<open>begin\<close> calls got.\<close>

type_synonym receipt_key = "string \<times> string \<times> string"

datatype receipt_op =
    BeginOp receipt_key json iso_time
  | CompleteOp receipt_key json json iso_time
  | ReconcileOp "int option" "int option" iso_time

definition key_row :: "receipt_key \<Rightarrow> receipts \<Rightarrow> receipt option" where
  "key_row k t = (case k of (p, opn, i) \<Rightarrow> find (receipt_of p opn i) t)"

fun receipt_step :: "(string \<Rightarrow> string) \<Rightarrow> (string \<Rightarrow> json option) \<Rightarrow> receipt_op \<Rightarrow> receipts \<Rightarrow> receipts \<times> (receipt_key \<times> receipt_decision) list" where
  "receipt_step sha256 json_parse (BeginOp (p, opn, i) request now) t =
     (case receipt_begin sha256 json_parse p opn (Some i) request now t of (t1, d) \<Rightarrow> (t1, [((p, opn, i), d)]))"
| "receipt_step sha256 json_parse (CompleteOp (p, opn, i) request result now) t =
     (fst (receipt_complete sha256 p opn i request result now t), [])"
| "receipt_step sha256 json_parse (ReconcileOp retentionMs limit now) t = (fst (receipt_reconcile retentionMs limit now t), [])"

fun receipt_run :: "(string \<Rightarrow> string) \<Rightarrow> (string \<Rightarrow> json option) \<Rightarrow> receipt_op list \<Rightarrow> receipts \<Rightarrow> receipts \<times> (receipt_key \<times> receipt_decision) list" where
  "receipt_run sha256 json_parse [] t = (t, [])"
| "receipt_run sha256 json_parse (x # xs) t =
     (let (t1, a) = receipt_step sha256 json_parse x t; (t2, as) = receipt_run sha256 json_parse xs t1 in (t2, a @ as))"

text \<open>The clean-ups of a history only reach receipts that were completed before \<open>T\<close>, and completions happen from \<open>T\<close> on.\<close>

definition within_retention :: "iso_time \<Rightarrow> receipt_op \<Rightarrow> bool" where
  "within_retention T x \<longleftrightarrow>
     (case x of
        BeginOp _ _ _ \<Rightarrow> True
      | CompleteOp _ _ _ now \<Rightarrow> T \<le> now
      | ReconcileOp retentionMs _ now \<Rightarrow> now - coalesce retentionMs (30 * 24 * 60 * 60 * 1000) \<le> T)"

definition held :: "iso_time \<Rightarrow> receipt \<Rightarrow> bool" where
  "held T r \<longleftrightarrow> rc_status r = ''pending'' \<or> rc_status r = ''completed'' \<and> T \<le> rc_updatedAt r"

lemma find_append: "find P (xs @ ys) = (case find P xs of Some x \<Rightarrow> Some x | None \<Rightarrow> find P ys)"
  by (induction xs) auto

lemma find_filter_keeps:
  assumes "find P xs = Some x" "Q x"
  shows "find P (filter Q xs) = Some x"
  using assms by (induction xs) (auto split: if_splits)

lemma find_update:
  assumes "\<And>x. P (f x) = P x"
  shows "find P (sql_update Q f xs) = map_option (\<lambda>x. if Q x then f x else x) (find P xs)"
  using assms by (induction xs) (auto simp: sql_update_def)

lemma key_row_begin:
  "key_row k (fst (receipt_begin sha256 json_parse p opn (Some i) request now t)) =
     (if k = (p, opn, i) \<and> i \<noteq> [] \<and> key_row k t = None
      then Some \<lparr>rc_principalId = p, rc_operation = opn, rc_clientMutationId = i, rc_requestHash = requestHash sha256 opn request,
             rc_status = ''pending'', rc_resultJson = None, rc_createdAt = now, rc_updatedAt = now\<rparr>
      else key_row k t)"
proof -
  have "list_ex P t \<longleftrightarrow> find P t \<noteq> None" for P :: "receipt \<Rightarrow> bool" by (induction t) auto
  then show ?thesis
    by (auto simp: receipt_begin_def beginTransaction_def Let_def key_row_def find_append receipt_of_def split: option.splits prod.splits)
qed

lemma key_row_complete:
  "key_row k (fst (receipt_complete sha256 p opn i request result now t)) =
     map_option (\<lambda>r. if k = (p, opn, i) \<and> rc_requestHash r = requestHash sha256 opn request \<and> rc_status r = ''pending''
       then r\<lparr>rc_status := ''completed'', rc_resultJson := Some (json_stringify result), rc_updatedAt := now\<rparr> else r) (key_row k t)"
proof -
  obtain p' opn' i' where k: "k = (p', opn', i')" by (cases k)
  let ?f = "\<lambda>r. r\<lparr>rc_status := ''completed'', rc_resultJson := Some (json_stringify result), rc_updatedAt := now\<rparr>"
  have "receipt_of p' opn' i' (?f r) = receipt_of p' opn' i' r" for r by (simp add: receipt_of_def)
  from find_update [of "receipt_of p' opn' i'" ?f, OF this] show ?thesis
    by (auto simp: receipt_complete_def Let_def key_row_def k receipt_of_def find_Some_iff intro!: option.map_cong)
qed

lemma key_row_reconcile:
  assumes "key_row k t = Some r" "held T r" "now - coalesce retentionMs (30 * 24 * 60 * 60 * 1000) \<le> T"
  shows "key_row k (fst (receipt_reconcile retentionMs limit now t)) = Some r"
proof -
  obtain p opn i where k: "k = (p, opn, i)" by (cases k)
  have "r \<notin> set (doomed_receipts (now - coalesce retentionMs (30 * 24 * 60 * 60 * 1000)) n t)" for n
    using assms(2,3) by (auto simp: doomed_receipts_def held_def order_asc_def dest!: in_set_takeD)
  with assms(1) show ?thesis
    by (auto simp: receipt_reconcile_def Let_def key_row_def k sql_delete_def intro: find_filter_keeps)
qed

lemma held_step:
  assumes "key_row k t = Some r" "held T r" "within_retention T x"
  shows "\<exists>r'. key_row k (fst (receipt_step sha256 json_parse x t)) = Some r' \<and> held T r' \<and> (k, ReceiptNew) \<notin> set (snd (receipt_step sha256 json_parse x t))"
proof (cases x)
  case (BeginOp k' request now)
  obtain p opn i where k': "k' = (p, opn, i)" by (cases k')
  have "snd (receipt_begin sha256 json_parse p opn (Some i) request now t) \<noteq> ReceiptNew" if "k = (p, opn, i)"
  proof -
    have "list_ex (receipt_of p opn i) t" using assms(1) that by (auto simp: key_row_def list_ex_iff find_Some_iff)
    then show ?thesis by (auto simp: receipt_begin_def beginTransaction_def Let_def split: option.splits)
  qed
  then show ?thesis using assms(1,2) key_row_begin [of k sha256 json_parse p opn i request now t]
    by (auto simp: BeginOp k' split: prod.splits)
next
  case (CompleteOp k' request result now)
  obtain p opn i where k': "k' = (p, opn, i)" by (cases k')
  show ?thesis using assms key_row_complete [of k sha256 p opn i request result now t]
    by (auto simp: CompleteOp k' held_def within_retention_def)
next
  case (ReconcileOp retentionMs limit now)
  then show ?thesis using assms key_row_reconcile [OF assms(1,2)] by (auto simp: within_retention_def)
qed

lemma held_run:
  assumes "key_row k t = Some r" "held T r" "list_all (within_retention T) xs"
  shows "(k, ReceiptNew) \<notin> set (snd (receipt_run sha256 json_parse xs t))"
  using assms
proof (induction xs arbitrary: t r)
  case Nil
  then show ?case by simp
next
  case (Cons x xs)
  from held_step [OF Cons.prems(1,2), of x] Cons.prems(3) obtain r' where
    r': "key_row k (fst (receipt_step sha256 json_parse x t)) = Some r'" "held T r'"
    "(k, ReceiptNew) \<notin> set (snd (receipt_step sha256 json_parse x t))" by auto
  from Cons.IH [OF r'(1,2)] Cons.prems(3) r'(3) show ?case by (auto simp: case_prod_beta Let_def)
qed

lemma new_step:
  assumes "(k, ReceiptNew) \<in> set (snd (receipt_step sha256 json_parse x t))"
  shows "snd (receipt_step sha256 json_parse x t) = [(k, ReceiptNew)]
    \<and> (\<exists>r. key_row k (fst (receipt_step sha256 json_parse x t)) = Some r \<and> rc_status r = ''pending'')"
proof -
  from assms obtain request now where x: "x = BeginOp k request now"
    by (cases "(sha256, json_parse, x, t)" rule: receipt_step.cases) (auto split: prod.splits)
  obtain p opn i where k: "k = (p, opn, i)" by (cases k)
  let ?b = "receipt_begin sha256 json_parse p opn (Some i) request now t"
  have new: "snd ?b = ReceiptNew" using assms by (auto simp: x k split: prod.splits)
  then have i: "i \<noteq> []" by (auto simp: receipt_begin_def)
  have "\<not> list_ex (receipt_of p opn i) t"
    using new i by (auto simp: receipt_begin_def beginTransaction_def Let_def split: option.splits if_splits)
  then have "key_row k t = None" by (auto simp: key_row_def k list_ex_iff find_None_iff)
  with key_row_begin [of k sha256 json_parse p opn i request now t] new i show ?thesis
    by (auto simp: x k split: prod.splits)
qed

text \<open>
  C18. A mutation is executed at most once within the retention period: whatever calls arrive, from
  any clients and in any order, however often the same mutation is retried, completed or left
  unfinished, and whatever clean-ups run that only reach receipts from before the period, at most
  one \<open>begin\<close> of a key in the whole history is told to execute.
\<close>

theorem executed_once_within_retention:
  assumes "list_all (within_retention T) xs"
  shows "length (filter (\<lambda>a. a = (k, ReceiptNew)) (snd (receipt_run sha256 json_parse xs t))) \<le> 1"
  using assms
proof (induction xs arbitrary: t)
  case Nil
  then show ?case by simp
next
  case (Cons x xs)
  let ?t = "fst (receipt_step sha256 json_parse x t)"
  show ?case
  proof (cases "(k, ReceiptNew) \<in> set (snd (receipt_step sha256 json_parse x t))")
    case True
    from new_step [OF this] obtain r where r: "snd (receipt_step sha256 json_parse x t) = [(k, ReceiptNew)]" "key_row k ?t = Some r" "held T r"
      by (auto simp: held_def)
    have "(k, ReceiptNew) \<notin> set (snd (receipt_run sha256 json_parse xs ?t))" using held_run [OF r(2,3)] Cons.prems by simp
    then have "filter (\<lambda>a. a = (k, ReceiptNew)) (snd (receipt_run sha256 json_parse xs ?t)) = []" by (auto simp: filter_empty_conv)
    with r(1) show ?thesis by (simp add: case_prod_beta Let_def)
  next
    case False
    then have "filter (\<lambda>a. a = (k, ReceiptNew)) (snd (receipt_step sha256 json_parse x t)) = []" by (auto simp: filter_empty_conv)
    with Cons show ?thesis by (simp add: case_prod_beta Let_def)
  qed
qed

definition demo_receipt_ops :: "receipt_op list" where
  "demo_receipt_ops = (let k = (''alice'', ''write'', ''m1'') in
     [BeginOp k JNull 10, BeginOp k JNull 11, CompleteOp k JNull (JInt 7) 12, ReconcileOp (Some 5) None 14, BeginOp k JNull 15, BeginOp k (JBool True) 16])"

theorem executed_once_within_retention_witness:
  "length (filter (\<lambda>a. a = ((''alice'', ''write'', ''m1''), ReceiptNew)) (snd (receipt_run (\<lambda>s. s) (\<lambda>s. Some JNull) demo_receipt_ops []))) \<le> 1"
proof -
  have "list_all (within_retention 12) demo_receipt_ops" by (simp add: demo_receipt_ops_def within_retention_def Let_def)
  then show ?thesis by (rule executed_once_within_retention)
qed

section \<open>Retries\<close>

lemma canonicalJson_key_order:
  assumes "mset fs = mset gs" "distinct (map fst fs)"
  shows "canonicalJson (JObj fs) = canonicalJson (JObj gs)"
proof -
  have "inj_on fst (set fs)" using assms(2) by (simp add: distinct_map)
  with assms(1) have "sort_key fst fs = sort_key fst gs" by (intro sort_key_inj_key_eq) simp_all
  then show ?thesis by simp
qed

lemma find_none_sql:
  assumes "find P t = None" "\<And>r. Q r \<Longrightarrow> P r"
  shows "sql_update Q f t = t" "sql_changes Q t = 0"
proof -
  have "\<not> Q r" if "r \<in> set t" for r using assms that by (auto simp: find_None_iff)
  then show "sql_update Q f t = t" "sql_changes Q t = 0"
    by (auto simp: sql_update_def sql_changes_def intro!: map_idI)
qed

lemma first_run:
  fixes i :: string
  assumes "key_row (p, opn, i) t = None" "i \<noteq> []" "execute w = (r, w')"
    "result = (case r of Inr v \<Rightarrow> v | Inl message \<Rightarrow> error_result message)"
  shows "runWithMutationReceipt sha256 json_parse p opn (Some i) request clock execute (t, w) =
    (Inr result, t @ [\<lparr>rc_principalId = p, rc_operation = opn, rc_clientMutationId = i, rc_requestHash = requestHash sha256 opn request,
       rc_status = ''completed'', rc_resultJson = Some (json_stringify result), rc_createdAt = fst clock, rc_updatedAt = snd clock\<rparr>], w')"
proof -
  let ?row = "\<lparr>rc_principalId = p, rc_operation = opn, rc_clientMutationId = i, rc_requestHash = requestHash sha256 opn request,
       rc_status = ''pending'', rc_resultJson = None, rc_createdAt = fst clock, rc_updatedAt = fst clock\<rparr>"
  have none: "find (receipt_of p opn i) t = None" using assms(1) by (simp add: key_row_def)
  then have "\<not> list_ex (receipt_of p opn i) t" by (auto simp: list_ex_iff find_None_iff)
  with none assms(2) have b: "receipt_begin sha256 json_parse p opn (Some i) request (fst clock) t = (t @ [?row], ReceiptNew)"
    by (simp add: receipt_begin_def beginTransaction_def Let_def find_append receipt_of_def)
  let ?P = "\<lambda>r. receipt_of p opn i r \<and> rc_requestHash r = requestHash sha256 opn request \<and> rc_status r = ''pending''"
  have "?P ?row" by (simp add: receipt_of_def)
  then have upd: "sql_update ?P f (t @ [?row]) = t @ [f ?row]" "sql_changes ?P (t @ [?row]) = 1" for f
    using find_none_sql [OF none, of ?P] unfolding sql_update_def sql_changes_def by simp_all
  have "receipt_complete sha256 p opn i request result (snd clock) (t @ [?row]) =
      (t @ [?row\<lparr>rc_status := ''completed'', rc_resultJson := Some (json_stringify result), rc_updatedAt := snd clock\<rparr>], None)"
    unfolding receipt_complete_def Let_def upd by simp
  then show ?thesis using b assms(3,4) by (simp add: runWithMutationReceipt_def Let_def)
qed

text \<open>
  A retry replays: once a mutation has run under its receipt, whether it returned or threw, a
  second run with the same mutation id returns the recorded result without doing any work when its
  request says the same (in whatever order its object keys come), and is refused without doing any
  work when the request differs, as long as the hash tells the two requests apart.
\<close>

theorem retried_mutation_replays:
  fixes i :: string
  assumes "key_row (p, opn, i) t = None" "i \<noteq> []" "execute w = (r, w')"
    "result = (case r of Inr v \<Rightarrow> v | Inl message \<Rightarrow> error_result message)"
    "json_parse (json_stringify result) = Some result"
    "runWithMutationReceipt sha256 json_parse p opn (Some i) request clock execute (t, w) = (res, t1, w1)"
  shows "res = Inr result \<and> w1 = w'
    \<and> (canonicalJson request' = canonicalJson request \<longrightarrow>
        runWithMutationReceipt sha256 json_parse p opn (Some i) request' clock' execute' (t1, w1) = (Inr result, t1, w1))
    \<and> (requestHash sha256 opn request' \<noteq> requestHash sha256 opn request \<longrightarrow>
        runWithMutationReceipt sha256 json_parse p opn (Some i) request' clock' execute' (t1, w1) = (Inr (mutationReceiptResult ReceiptConflict), t1, w1))"
proof -
  let ?row = "\<lparr>rc_principalId = p, rc_operation = opn, rc_clientMutationId = i, rc_requestHash = requestHash sha256 opn request,
       rc_status = ''completed'', rc_resultJson = Some (json_stringify result), rc_createdAt = fst clock, rc_updatedAt = snd clock\<rparr>"
  from first_run [of p opn i t execute w r w' result sha256 json_parse request clock] assms have one: "res = Inr result" "t1 = t @ [?row]" "w1 = w'" by auto
  have row: "find (receipt_of p opn i) t1 = Some ?row"
    using assms(1) by (simp add: one(2) key_row_def find_append receipt_of_def)
  have present: "list_ex (receipt_of p opn i) t1" by (simp add: one(2) receipt_of_def)
  have again: "receipt_begin sha256 json_parse p opn (Some i) request' (fst clock') t1 =
      (t1, if requestHash sha256 opn request \<noteq> requestHash sha256 opn request' then ReceiptConflict else ReceiptReplay result)"
    using row present assms(2,5) by (simp add: receipt_begin_def beginTransaction_def Let_def)
  show ?thesis using one again by (auto simp: runWithMutationReceipt_def requestHash_def)
qed

theorem retried_mutation_replays_witness:
  "let execute = (\<lambda>n. (Inr (JInt 7), n + 1)) :: nat \<Rightarrow> (string + json) \<times> nat;
       run = (\<lambda>request. runWithMutationReceipt (\<lambda>s. s) (\<lambda>s. Some (JInt 7)) ''alice'' ''write'' (Some ''m1'') request (1, 2) execute)
   in case run (JBool True) ([], 0) of (res, t1, w1) \<Rightarrow> res = Inr (JInt 7) \<and> w1 = 1 \<and> run (JBool True) (t1, w1) = (Inr (JInt 7), t1, w1)"
proof -
  define execute where "execute = ((\<lambda>n. (Inr (JInt 7), n + 1)) :: nat \<Rightarrow> (string + json) \<times> nat)"
  obtain res t1 w1 where run: "runWithMutationReceipt (\<lambda>s. s) (\<lambda>s. Some (JInt 7)) ''alice'' ''write'' (Some ''m1'') (JBool True) (1, 2) execute ([], 0) = (res, t1, w1)"
    by (metis surj_pair)
  have "key_row (''alice'', ''write'', ''m1'') [] = None" "execute 0 = (Inr (JInt 7), 1)" by (simp_all add: key_row_def execute_def)
  from retried_mutation_replays [OF this(1) _ this(2) _ _ run, of "JInt 7" "JBool True" "(1, 2)" execute] run
  show ?thesis by (auto simp: execute_def)
qed

end
