(* ===== verification/OAuth_Provider.thy ===== *)
theory OAuth_Provider
  imports Kontrol_Prelude
begin

text \<open>
  The OAuth server of a single owner: the token and client store of src/src/oauth-store.ts and the
  provider of src/src/oauth-provider.ts (password attempts and their lockout, authorization codes,
  token exchange, refresh, verification and revocation). The HTML of the password form is left out:
  the answer of \<open>authorize\<close> says which form is shown.

  \<^item> The host is an argument: the WHATWG URL parser (\<open>oh_url\<close>), \<open>checkResourceAllowed\<close> of the MCP SDK
    (\<open>oh_resourceAllowed\<close>) and SHA-256 of a token (\<open>oh_hashToken\<close>). A URL is its href.
  \<^item> Each reading of \<open>Date.now()\<close> is an argument, in milliseconds, as are random tokens and ids.
  \<^item> \<open>codes\<close> is the list of its entries in insertion order; the failure trackers are a partial
    function of the scoped key.
\<close>

section \<open>State\<close>

record parsed_url =
  ur_protocol :: string
  ur_hostname :: string
  ur_username :: string
  ur_password :: string
  ur_hash :: string

record oauth_host =
  oh_url :: "string \<Rightarrow> parsed_url option"
  oh_resourceAllowed :: "string \<Rightarrow> bool"
  oh_hashToken :: "string \<Rightarrow> string"

record oauth_client =
  cl_clientId :: string
  cl_redirectUris :: "string list"
  cl_authMethod :: string
  cl_grantTypes :: "string list"
  cl_responseTypes :: "string list"
  cl_issuedAt :: int

record client_request =
  cq_redirectUris :: "string list"
  cq_authMethod :: "string option"
  cq_grantTypes :: "string list option"
  cq_responseTypes :: "string list option"

record token_record =
  tk_clientId :: string
  tk_scopes :: "string list"
  tk_expiresAt :: int
  tk_resource :: "string option"

record oauth_store =
  os_clients :: "oauth_client table"
  os_access :: "(string \<times> token_record) table"
  os_refresh :: "(string \<times> token_record) table"

datatype oauth_error =
    RedirectNotAllowed
  | ClientLimitReached
  | DuplicateClient
  | InvalidResource
  | ScopeNotSupported
  | InvalidCode
  | RedirectMismatch
  | InvalidGrantResource
  | InvalidRefreshToken
  | ScopeDenied
  | InvalidAccessToken
  | InvalidRedirectUrl
  | ForeignKeyFailed

record token_pair =
  tp_accessTokenHash :: string
  tp_accessToken :: token_record
  tp_refreshTokenHash :: string
  tp_refreshToken :: token_record

section \<open>The store\<close>

definition CLIENT_RETENTION_SECONDS :: int where
  "CLIENT_RETENTION_SECONDS = 30 * 24 * 60 * 60"

definition MAX_OAUTH_CLIENTS :: nat where
  "MAX_OAUTH_CLIENTS = 200"

definition DCR_UNUSED_GRACE_SECONDS :: int where
  "DCR_UNUSED_GRACE_SECONDS = 24 * 60 * 60"

definition redirectHostAllowed :: "oauth_host \<Rightarrow> string list \<Rightarrow> string \<Rightarrow> bool" where
  "redirectHostAllowed host allowedHosts redirectUri =
     (case oh_url host redirectUri of
        None \<Rightarrow> False
      | Some u \<Rightarrow>
          (let isLoopback = ur_hostname u \<in> {''localhost'', ''127.0.0.1'', ''[::1]'', ''::1''}
           in ur_protocol u \<in> {''https:'', ''http:''} \<and> \<not> (ur_protocol u = ''http:'' \<and> \<not> isLoopback)
              \<and> ur_username u = [] \<and> ur_password u = [] \<and> ur_hash u = []
              \<and> (isLoopback \<or> ur_hostname u \<in> set allowedHosts)))"

definition unused_before :: "int \<Rightarrow> oauth_store \<Rightarrow> oauth_client \<Rightarrow> bool" where
  "unused_before t s c \<longleftrightarrow> cl_issuedAt c < t \<and> cl_clientId c \<notin> (\<lambda>(_, r). tk_clientId r) ` set (os_access s)
     \<and> cl_clientId c \<notin> (\<lambda>(_, r). tk_clientId r) ` set (os_refresh s)"

definition delete_unused :: "int \<Rightarrow> oauth_store \<Rightarrow> oauth_store" where
  "delete_unused t s = s\<lparr>os_clients := sql_delete (unused_before t s) (os_clients s)\<rparr>"

definition getClient :: "string \<Rightarrow> oauth_store \<Rightarrow> oauth_client option" where
  "getClient clientId s = find (\<lambda>c. cl_clientId c = clientId) (os_clients s)"

definition registerClient ::
    "oauth_host \<Rightarrow> string list \<Rightarrow> string \<Rightarrow> int \<Rightarrow> client_request \<Rightarrow> oauth_store \<Rightarrow> oauth_store \<times> (oauth_error + oauth_client)" where
  "registerClient host allowedRedirectHosts uuid now_ms client s =
     (if \<not> list_all (redirectHostAllowed host allowedRedirectHosts) (cq_redirectUris client) then (s, Inl RedirectNotAllowed)
      else
        let now = now_ms div 1000; s1 = delete_unused (now - DCR_UNUSED_GRACE_SECONDS) s
        in if length (os_clients s1) \<ge> MAX_OAUTH_CLIENTS then (s1, Inl ClientLimitReached)
           else let registered = \<lparr>cl_clientId = ''kontrol-'' @ uuid, cl_redirectUris = cq_redirectUris client,
                      cl_authMethod = coalesce (cq_authMethod client) ''none'',
                      cl_grantTypes = coalesce (cq_grantTypes client) [''authorization_code'', ''refresh_token''],
                      cl_responseTypes = coalesce (cq_responseTypes client) [''code''], cl_issuedAt = now\<rparr>
                in if cl_clientId registered \<in> cl_clientId ` set (os_clients s1) then (s1, Inl DuplicateClient)
                   else (s1\<lparr>os_clients := os_clients s1 @ [registered]\<rparr>, Inr registered))"

text \<open>\<open>insert ... on conflict(token_hash) do update\<close> on a token table, and \<open>Map.set\<close>.\<close>

definition upsert :: "string \<Rightarrow> 'r \<Rightarrow> (string \<times> 'r) list \<Rightarrow> (string \<times> 'r) list" where
  "upsert h r t = (if h \<in> fst ` set t then sql_update (\<lambda>x. fst x = h) (\<lambda>x. (fst x, r)) t else t @ [(h, r)])"

definition find_token :: "string \<Rightarrow> (string \<times> token_record) table \<Rightarrow> token_record option" where
  "find_token h t = map_option snd (find (\<lambda>x. fst x = h) t)"

definition delete_token :: "string \<Rightarrow> (string \<times> token_record) table \<Rightarrow> (string \<times> token_record) table" where
  "delete_token h t = sql_delete (\<lambda>x. fst x = h) t"

text \<open>Both token tables have a foreign key to the clients: an insert for an unknown client raises and the
  transaction is rolled back (\<open>None\<close>).\<close>

definition saveTokenPair :: "token_pair \<Rightarrow> string option \<Rightarrow> oauth_store \<Rightarrow> (oauth_store \<times> bool) option" where
  "saveTokenPair pair consumed s =
     (let s1 = (if truthy consumed then s\<lparr>os_refresh := delete_token (the consumed) (os_refresh s)\<rparr> else s);
          known = (\<lambda>r. tk_clientId r \<in> cl_clientId ` set (os_clients s))
      in if truthy consumed \<and> sql_changes (\<lambda>x. fst x = the consumed) (os_refresh s) \<noteq> 1 then Some (s1, False)
         else if \<not> known (tp_accessToken pair) \<or> \<not> known (tp_refreshToken pair) then None
         else Some (s1\<lparr>os_access := upsert (tp_accessTokenHash pair) (tp_accessToken pair) (os_access s1),
                       os_refresh := upsert (tp_refreshTokenHash pair) (tp_refreshToken pair) (os_refresh s1)\<rparr>, True))"

definition deleteExpiredTokens :: "int \<Rightarrow> oauth_store \<Rightarrow> oauth_store" where
  "deleteExpiredTokens nowSeconds s =
     (let s1 = s\<lparr>os_access := sql_delete (\<lambda>x. tk_expiresAt (snd x) < nowSeconds) (os_access s),
                os_refresh := sql_delete (\<lambda>x. tk_expiresAt (snd x) < nowSeconds) (os_refresh s)\<rparr>
      in delete_unused (nowSeconds - CLIENT_RETENTION_SECONDS) s1)"

section \<open>Password attempts\<close>

definition AUTH_MAX_FAILURES :: nat where
  "AUTH_MAX_FAILURES = 5"

definition AUTH_LOCKOUT_MS :: int where
  "AUTH_LOCKOUT_MS = 5 * 60 * 1000"

definition AUTH_GLOBAL_MAX_FAILURES :: nat where
  "AUTH_GLOBAL_MAX_FAILURES = 50"

definition MAX_OUTSTANDING_CODES :: nat where
  "MAX_OUTSTANDING_CODES = 500"

definition CODE_TTL_MS :: int where
  "CODE_TTL_MS = 5 * 60 * 1000"

record failure_tracker =
  ft_count :: nat
  ft_firstFailureAtMs :: int
  ft_lockedUntilMs :: int

datatype failure_domain = OwnerDomain | PublicDomain

definition domain_name :: "failure_domain \<Rightarrow> string" where
  "domain_name d = (case d of OwnerDomain \<Rightarrow> ''owner'' | PublicDomain \<Rightarrow> ''public'')"

definition newFailureTracker :: failure_tracker where
  "newFailureTracker = \<lparr>ft_count = 0, ft_firstFailureAtMs = 0, ft_lockedUntilMs = 0\<rparr>"

definition advanceFailureWindow :: "int \<Rightarrow> failure_tracker \<Rightarrow> failure_tracker" where
  "advanceFailureWindow nowMs t =
     (if ft_count t = 0 \<or> nowMs - ft_firstFailureAtMs t > AUTH_LOCKOUT_MS
      then t\<lparr>ft_firstFailureAtMs := nowMs, ft_count := 1\<rparr> else t\<lparr>ft_count := ft_count t + 1\<rparr>)"

record authorization_params =
  au_scopes :: "string list option"
  au_resource :: "string option"
  au_redirectUri :: string
  au_codeChallenge :: string
  au_state :: "string option"

record code_record =
  cd_clientId :: string
  cd_params :: authorization_params
  cd_expiresAtMs :: int

record oauth_config =
  og_ownerToken :: string
  og_accessTokenTtlSeconds :: int
  og_refreshTokenTtlSeconds :: int
  og_scopes :: "string list"
  og_allowedRedirectHosts :: "string list"

record provider =
  pv_config :: oauth_config
  pv_codes :: "(string \<times> code_record) list"
  pv_failures :: "string \<rightharpoonup> failure_tracker"
  pv_globalFailures :: "failure_domain \<Rightarrow> failure_tracker"
  pv_store :: oauth_store

definition scoped_key :: "failure_domain \<Rightarrow> string \<Rightarrow> string" where
  "scoped_key d key = domain_name d @ ''|'' @ key"

definition isLockedOut :: "string \<Rightarrow> int \<Rightarrow> failure_domain \<Rightarrow> provider \<Rightarrow> provider \<times> bool" where
  "isLockedOut key nowMs d p =
     (if ft_lockedUntilMs (pv_globalFailures p d) > nowMs then (p, True)
      else case pv_failures p (scoped_key d key) of
        None \<Rightarrow> (p, False)
      | Some t \<Rightarrow>
          if nowMs - ft_firstFailureAtMs t > AUTH_LOCKOUT_MS then (p\<lparr>pv_failures := (pv_failures p)(scoped_key d key := None)\<rparr>, False)
          else (p, ft_lockedUntilMs t > nowMs \<or> ft_count t \<ge> AUTH_MAX_FAILURES))"

definition lock_at :: "nat \<Rightarrow> int \<Rightarrow> failure_tracker \<Rightarrow> failure_tracker" where
  "lock_at threshold nowMs t = (if ft_count t \<ge> threshold then t\<lparr>ft_lockedUntilMs := nowMs + AUTH_LOCKOUT_MS\<rparr> else t)"

definition recordFailure :: "string \<Rightarrow> int \<Rightarrow> failure_domain \<Rightarrow> provider \<Rightarrow> provider" where
  "recordFailure key nowMs d p =
     (let t = coalesce (pv_failures p (scoped_key d key)) newFailureTracker
      in p\<lparr>pv_failures := (pv_failures p)(scoped_key d key \<mapsto> lock_at AUTH_MAX_FAILURES nowMs (advanceFailureWindow nowMs t)),
           pv_globalFailures := (pv_globalFailures p)(d := lock_at AUTH_GLOBAL_MAX_FAILURES nowMs (advanceFailureWindow nowMs (pv_globalFailures p d)))\<rparr>)"

definition clearFailures :: "string \<Rightarrow> failure_domain \<Rightarrow> provider \<Rightarrow> provider" where
  "clearFailures key d p =
     p\<lparr>pv_failures := (pv_failures p)(scoped_key d key := None), pv_globalFailures := (pv_globalFailures p)(d := newFailureTracker)\<rparr>"

definition retryAfterSeconds :: "string \<Rightarrow> int \<Rightarrow> failure_domain \<Rightarrow> provider \<Rightarrow> int" where
  "retryAfterSeconds key nowMs d p =
     (let until = max (case pv_failures p (scoped_key d key) of None \<Rightarrow> 0 | Some t \<Rightarrow> ft_lockedUntilMs t) (ft_lockedUntilMs (pv_globalFailures p d))
      in if until > nowMs then (until - nowMs + 999) div 1000 else 0)"

definition purgeExpiredFailures :: "int \<Rightarrow> provider \<Rightarrow> provider" where
  "purgeExpiredFailures nowMs p =
     p\<lparr>pv_failures := (\<lambda>k. case pv_failures p k of None \<Rightarrow> None
        | Some t \<Rightarrow> if nowMs - ft_firstFailureAtMs t > AUTH_LOCKOUT_MS then None else Some t)\<rparr>"

definition purgeExpiredCodes :: "int \<Rightarrow> provider \<Rightarrow> provider" where
  "purgeExpiredCodes nowMs p =
     (let live = filter (\<lambda>(_, r). \<not> cd_expiresAtMs r < nowMs) (pv_codes p)
      in p\<lparr>pv_codes := drop (length live - MAX_OUTSTANDING_CODES) live\<rparr>)"

section \<open>Authorization and tokens\<close>

datatype authorize_answer = PasswordForm | LockedOut int | PasswordRefused | Redirected string

definition authorize ::
    "oauth_host \<Rightarrow> bool \<Rightarrow> failure_domain \<Rightarrow> string \<Rightarrow> string \<Rightarrow> string \<Rightarrow> string \<Rightarrow> (nat \<Rightarrow> int) \<Rightarrow> authorization_params \<Rightarrow> provider
      \<Rightarrow> provider \<times> (oauth_error + authorize_answer)" where
  "authorize host post d clientId remoteAddress providedToken uuid clock params p =
     (if \<not> truthy (au_resource params) \<or> \<not> oh_resourceAllowed host (the (au_resource params)) then (p, Inl InvalidResource)
      else if \<not> list_all (\<lambda>s. s \<in> set (og_scopes (pv_config p))) (coalesce (au_scopes params) []) then (p, Inl ScopeNotSupported)
      else if \<not> post then (p, Inr PasswordForm)
      else
        let failureKey = clientId @ ''|'' @ remoteAddress; (p1, locked) = isLockedOut failureKey (clock 0) d p
        in if locked then (p1, Inr (LockedOut (retryAfterSeconds failureKey (clock 1) d p1)))
           else if providedToken \<noteq> og_ownerToken (pv_config p1) then (recordFailure failureKey (clock 1) d p1, Inr PasswordRefused)
           else
             let p2 = purgeExpiredCodes (clock 1) (clearFailures failureKey d p1); code = ''code-'' @ uuid
             in (p2\<lparr>pv_codes := upsert code \<lparr>cd_clientId = clientId, cd_params = params, cd_expiresAtMs = clock 2 + CODE_TTL_MS\<rparr> (pv_codes p2)\<rparr>,
                 if oh_url host (au_redirectUri params) = None then Inl InvalidRedirectUrl else Inr (Redirected code)))"

definition validCodeRecord :: "string \<Rightarrow> string \<Rightarrow> int \<Rightarrow> provider \<Rightarrow> code_record option" where
  "validCodeRecord clientId code nowMs p =
     (case map_of (pv_codes p) code of
        None \<Rightarrow> None
      | Some r \<Rightarrow> if cd_clientId r \<noteq> clientId \<or> cd_expiresAtMs r < nowMs then None else Some r)"

record issued_tokens =
  it_accessToken :: string
  it_expiresIn :: int
  it_refreshToken :: string
  it_scopes :: "string list"

definition issued_pair :: "oauth_host \<Rightarrow> oauth_config \<Rightarrow> string \<Rightarrow> string list \<Rightarrow> string option \<Rightarrow> int \<Rightarrow> string \<Rightarrow> string \<Rightarrow> token_pair" where
  "issued_pair host config clientId scopes resource now_ms accessToken refreshToken =
     (let now = now_ms div 1000;
          record_until = (\<lambda>ttl. \<lparr>tk_clientId = clientId, tk_scopes = scopes, tk_expiresAt = now + ttl, tk_resource = resource\<rparr>)
      in \<lparr>tp_accessTokenHash = oh_hashToken host accessToken, tp_accessToken = record_until (og_accessTokenTtlSeconds config),
          tp_refreshTokenHash = oh_hashToken host refreshToken, tp_refreshToken = record_until (og_refreshTokenTtlSeconds config)\<rparr>)"

definition issueTokens ::
    "oauth_host \<Rightarrow> string \<Rightarrow> string list \<Rightarrow> string option \<Rightarrow> string option \<Rightarrow> int \<Rightarrow> string \<Rightarrow> string \<Rightarrow> provider \<Rightarrow> provider \<times> (oauth_error + issued_tokens)" where
  "issueTokens host clientId scopes resource consumed now_ms accessToken refreshToken p =
     (case saveTokenPair (issued_pair host (pv_config p) clientId scopes resource now_ms accessToken refreshToken) consumed (pv_store p) of
        None \<Rightarrow> (p, Inl ForeignKeyFailed)
      | Some (s, saved) \<Rightarrow>
          (p\<lparr>pv_store := s\<rparr>,
           if \<not> saved then Inl InvalidRefreshToken
           else Inr \<lparr>it_accessToken = accessToken, it_expiresIn = og_accessTokenTtlSeconds (pv_config p),
                     it_refreshToken = refreshToken, it_scopes = scopes\<rparr>))"

definition exchangeAuthorizationCode ::
    "oauth_host \<Rightarrow> string \<Rightarrow> string \<Rightarrow> string option \<Rightarrow> string option \<Rightarrow> (nat \<Rightarrow> int) \<Rightarrow> string \<Rightarrow> string \<Rightarrow> provider \<Rightarrow> provider \<times> (oauth_error + issued_tokens)" where
  "exchangeAuthorizationCode host clientId code redirectUri resource clock accessToken refreshToken p =
     (case validCodeRecord clientId code (clock 0) p of
        None \<Rightarrow> (p, Inl InvalidCode)
      | Some r \<Rightarrow>
          if truthy redirectUri \<and> the redirectUri \<noteq> au_redirectUri (cd_params r) then (p, Inl RedirectMismatch)
          else if resource \<noteq> None \<and> \<not> oh_resourceAllowed host (the resource) then (p, Inl InvalidGrantResource)
          else issueTokens host clientId (coalesce (au_scopes (cd_params r)) (og_scopes (pv_config p))) (au_resource (cd_params r)) None
                 (clock 1) accessToken refreshToken (p\<lparr>pv_codes := filter (\<lambda>x. fst x \<noteq> code) (pv_codes p)\<rparr>))"

definition exchangeRefreshToken ::
    "oauth_host \<Rightarrow> string \<Rightarrow> string \<Rightarrow> string list option \<Rightarrow> string option \<Rightarrow> (nat \<Rightarrow> int) \<Rightarrow> string \<Rightarrow> string \<Rightarrow> provider \<Rightarrow> provider \<times> (oauth_error + issued_tokens)" where
  "exchangeRefreshToken host clientId refreshToken scopes resource clock accessToken newRefreshToken p =
     (let h = oh_hashToken host refreshToken
      in case find_token h (os_refresh (pv_store p)) of
           None \<Rightarrow> (p, Inl InvalidRefreshToken)
         | Some r \<Rightarrow>
             if tk_clientId r \<noteq> clientId \<or> tk_expiresAt r < clock 0 div 1000 then (p, Inl InvalidRefreshToken)
             else if resource \<noteq> None \<and> \<not> oh_resourceAllowed host (the resource) then (p, Inl InvalidGrantResource)
             else
               let requestedScopes = coalesce scopes (tk_scopes r)
               in if \<not> list_all (\<lambda>s. s \<in> set (tk_scopes r)) requestedScopes then (p, Inl ScopeDenied)
                  else issueTokens host clientId requestedScopes (or_else resource (if truthy (tk_resource r) then tk_resource r else None)) (Some h)
                         (clock 1) accessToken newRefreshToken p)"

definition verifyAccessToken :: "oauth_host \<Rightarrow> string \<Rightarrow> int \<Rightarrow> provider \<Rightarrow> oauth_error + token_record" where
  "verifyAccessToken host token now_ms p =
     (case find_token (oh_hashToken host token) (os_access (pv_store p)) of
        None \<Rightarrow> Inl InvalidAccessToken
      | Some r \<Rightarrow> if tk_expiresAt r < now_ms div 1000 then Inl InvalidAccessToken else Inr r)"

definition revokeToken :: "oauth_host \<Rightarrow> string \<Rightarrow> provider \<Rightarrow> provider" where
  "revokeToken host token p =
     (let h = oh_hashToken host token; s = pv_store p
      in p\<lparr>pv_store := s\<lparr>os_access := delete_token h (os_access s), os_refresh := delete_token h (os_refresh s)\<rparr>\<rparr>)"

definition maintenance :: "(nat \<Rightarrow> int) \<Rightarrow> provider \<Rightarrow> provider" where
  "maintenance clock p =
     (let p1 = purgeExpiredFailures (clock 1) (purgeExpiredCodes (clock 0) p)
      in p1\<lparr>pv_store := deleteExpiredTokens (clock 2 div 1000) (pv_store p1)\<rparr>)"

section \<open>Guessing the password\<close>

lemma locked_constants [simp]: "AUTH_MAX_FAILURES = 5" "AUTH_LOCKOUT_MS = 300000" "AUTH_GLOBAL_MAX_FAILURES = 50"
  by (simp_all add: AUTH_MAX_FAILURES_def AUTH_LOCKOUT_MS_def AUTH_GLOBAL_MAX_FAILURES_def)

lemma lock_at_simps [simp]:
  "ft_count (lock_at n t f) = ft_count f" "ft_firstFailureAtMs (lock_at n t f) = ft_firstFailureAtMs f"
  by (simp_all add: lock_at_def)

text \<open>What an owner or an attacker can do to the failure trackers: post the password form, or wait for maintenance.\<close>

datatype auth_op =
    PostPassword failure_domain string string string string "nat \<Rightarrow> int" authorization_params
  | Maintain "nat \<Rightarrow> int"

fun op_clock :: "auth_op \<Rightarrow> nat \<Rightarrow> int" where
  "op_clock (PostPassword d c r tok u clock params) = clock"
| "op_clock (Maintain clock) = clock"

fun op_key :: "auth_op \<Rightarrow> string option" where
  "op_key (PostPassword d c r tok u clock params) = Some (scoped_key d (c @ ''|'' @ r))"
| "op_key (Maintain clock) = None"

fun op_guess :: "auth_op \<Rightarrow> string" where
  "op_guess (PostPassword d c r tok u clock params) = tok"
| "op_guess (Maintain clock) = []"

fun auth_step :: "oauth_host \<Rightarrow> auth_op \<Rightarrow> provider \<Rightarrow> provider \<times> bool" where
  "auth_step host (PostPassword d c r tok u clock params) p =
     (let (p1, a) = authorize host True d c r tok u clock params p in (p1, a = Inr PasswordRefused))"
| "auth_step host (Maintain clock) p = (maintenance clock p, False)"

text \<open>The number of passwords from one key that were compared and refused.\<close>

fun guesses :: "oauth_host \<Rightarrow> string \<Rightarrow> auth_op list \<Rightarrow> provider \<Rightarrow> nat" where
  "guesses host key [] p = 0"
| "guesses host key (x # xs) p =
     (let (p1, refused) = auth_step host x p in (if refused \<and> op_key x = Some key then 1 else 0) + guesses host key xs p1)"

text \<open>Clock readings never go back, from \<open>t\<close> to \<open>e\<close>.\<close>

fun timely :: "int \<Rightarrow> auth_op list \<Rightarrow> int \<Rightarrow> bool" where
  "timely t [] e = (t \<le> e)"
| "timely t (x # xs) e = (t \<le> op_clock x 0 \<and> op_clock x 0 \<le> op_clock x 1 \<and> op_clock x 1 \<le> op_clock x 2 \<and> timely (op_clock x 2) xs e)"

lemma isLockedOut_failures:
  "pv_failures (fst (isLockedOut key now d p)) K = pv_failures p K
   \<or> pv_failures (fst (isLockedOut key now d p)) K = None \<and> (\<exists>t. pv_failures p K = Some t \<and> now - ft_firstFailureAtMs t > AUTH_LOCKOUT_MS)"
  by (auto simp: isLockedOut_def split: option.splits)

lemma scoped_key_inj: "scoped_key d k = scoped_key d' k' \<longleftrightarrow> d = d' \<and> k = k'"
  by (cases d; cases d') (auto simp: scoped_key_def domain_name_def)

definition spent_windows :: "int \<Rightarrow> nat \<Rightarrow> int \<Rightarrow> failure_tracker option \<Rightarrow> bool" where
  "spent_windows t0 g t f \<longleftrightarrow>
     (case f of
        None \<Rightarrow> (\<exists>k. g \<le> 5 * k \<and> t0 + int k * 300001 \<le> t)
      | Some tr \<Rightarrow> (\<exists>k. g \<le> 5 * k + ft_count tr \<and> ft_count tr \<le> 5 \<and> t0 + int k * 300001 \<le> ft_firstFailureAtMs tr \<and> ft_firstFailureAtMs tr \<le> t))"

lemma spent_windows_later: "spent_windows t0 g t f \<Longrightarrow> t \<le> t' \<Longrightarrow> spent_windows t0 g t' f"
  by (fastforce simp: spent_windows_def split: option.splits)

lemma spent_windows_aged:
  assumes "spent_windows t0 g t (Some tr)" "now - ft_firstFailureAtMs tr > 300000"
  shows "spent_windows t0 g now None"
proof -
  from assms obtain k where "g \<le> 5 * k + ft_count tr" "ft_count tr \<le> 5" "t0 + int k * 300001 \<le> ft_firstFailureAtMs tr"
    by (auto simp: spent_windows_def)
  with assms(2) show ?thesis by (auto simp: spent_windows_def intro!: exI [of _ "Suc k"])
qed

lemma spent_windows_record:
  assumes "spent_windows t0 g t f" "t \<le> now" "case f of None \<Rightarrow> True | Some tr \<Rightarrow> ft_count tr < 5"
  shows "spent_windows t0 (Suc g) now (Some (lock_at 5 now (advanceFailureWindow now (coalesce f newFailureTracker))))"
proof (cases f)
  case None
  from assms(1) None obtain k where "g \<le> 5 * k" "t0 + int k * 300001 \<le> t" by (auto simp: spent_windows_def)
  with None assms(2) show ?thesis by (auto simp: spent_windows_def advanceFailureWindow_def newFailureTracker_def intro!: exI [of _ k])
next
  case (Some tr)
  from assms(1) Some obtain k where k: "g \<le> 5 * k + ft_count tr" "ft_count tr \<le> 5" "t0 + int k * 300001 \<le> ft_firstFailureAtMs tr" "ft_firstFailureAtMs tr \<le> t"
    by (auto simp: spent_windows_def)
  show ?thesis
  proof (cases "ft_count tr = 0 \<or> now - ft_firstFailureAtMs tr > 300000")
    case True
    have "\<exists>k. Suc g \<le> 5 * k + 1 \<and> t0 + int k * 300001 \<le> now"
    proof (cases "ft_count tr = 0")
      case True
      with k assms(2) show ?thesis by (intro exI [of _ k]) auto
    next
      case False
      with \<open>ft_count tr = 0 \<or> _\<close> k show ?thesis by (intro exI [of _ "Suc k"]) auto
    qed
    with True Some show ?thesis by (simp add: spent_windows_def advanceFailureWindow_def)
  next
    case False
    with k assms(2,3) Some show ?thesis by (auto simp: spent_windows_def advanceFailureWindow_def intro!: exI [of _ k])
  qed
qed

lemma authorize_failures:
  assumes inv: "spent_windows t0 g t (pv_failures p K)" and clock: "t \<le> clock 0" "clock 0 \<le> clock 1" "clock 1 \<le> clock 2"
    and wrong: "scoped_key d (c @ ''|'' @ r) = K \<longrightarrow> tok \<noteq> og_ownerToken (pv_config p)"
  shows "case authorize host True d c r tok u clock params p of (p', a) \<Rightarrow>
    spent_windows t0 (g + (if a = Inr PasswordRefused \<and> scoped_key d (c @ ''|'' @ r) = K then 1 else 0)) (clock 2) (pv_failures p' K)"
proof -
  define key where "key = c @ ''|'' @ r"
  obtain p1 locked where l: "isLockedOut key (clock 0) d p = (p1, locked)" by force
  have cfg: "pv_config p1 = pv_config p" using l by (auto simp: isLockedOut_def split: if_splits option.splits)
  have s1: "spent_windows t0 g (clock 0) (pv_failures p1 K)"
    using isLockedOut_failures [of key "clock 0" d p K] inv clock(1) l
    by (auto intro: spent_windows_later spent_windows_aged)
  have room: "case pv_failures p1 (scoped_key d key) of None \<Rightarrow> True | Some tr \<Rightarrow> ft_count tr < 5" if "\<not> locked"
    using l that by (auto simp: isLockedOut_def split: if_splits option.splits)
  have later: "spent_windows t0 g (clock 2) (pv_failures p1 K)" using s1 clock by (auto intro: spent_windows_later)
  have rec: "spent_windows t0 (Suc g) (clock 2) (pv_failures (recordFailure key (clock 1) d p1) K)"
    if "\<not> locked" "scoped_key d key = K"
    using spent_windows_record [OF s1 clock(2)] room [OF that(1)] that(2) clock(3)
    by (auto simp: recordFailure_def Let_def intro: spent_windows_later)
  have other: "pv_failures (recordFailure key (clock 1) d p1) K = pv_failures p1 K"
      "pv_failures (purgeExpiredCodes n (clearFailures key d p1)) K = pv_failures p1 K" if "scoped_key d key \<noteq> K" for n
    using that by (auto simp: recordFailure_def clearFailures_def purgeExpiredCodes_def Let_def)
  have g0: "spent_windows t0 g (clock 2) (pv_failures p K)" using inv clock by (auto intro: spent_windows_later)
  show ?thesis
    using later rec other l cfg wrong g0 unfolding authorize_def key_def [symmetric] by (simp add: Let_def)
qed

lemma purge_failures:
  assumes "spent_windows t0 g t (pv_failures p K)" "t \<le> now"
  shows "spent_windows t0 g now (pv_failures (purgeExpiredFailures now p) K)"
  using assms by (auto simp: purgeExpiredFailures_def split: option.splits intro: spent_windows_later spent_windows_aged)

lemma auth_step_windows:
  assumes "spent_windows t0 g t (pv_failures p K)" "t \<le> op_clock x 0" "op_clock x 0 \<le> op_clock x 1" "op_clock x 1 \<le> op_clock x 2"
    and "op_key x = Some K \<longrightarrow> op_guess x \<noteq> og_ownerToken (pv_config p)"
  shows "case auth_step host x p of (p', refused) \<Rightarrow>
    spent_windows t0 (g + (if refused \<and> op_key x = Some K then 1 else 0)) (op_clock x 2) (pv_failures p' K)"
proof (cases x)
  case (PostPassword d c r tok u clock params)
  then show ?thesis using authorize_failures [of t0 g t p K clock d c r tok host u params] assms by (auto simp: Let_def split: prod.splits)
next
  case (Maintain clock)
  have "spent_windows t0 g (clock 1) (pv_failures (purgeExpiredFailures (clock 1) (purgeExpiredCodes (clock 0) p)) K)"
    using purge_failures [of t0 g t "purgeExpiredCodes (clock 0) p" K "clock 1"] assms Maintain
    by (simp add: purgeExpiredCodes_def Let_def)
  then show ?thesis using Maintain assms by (auto simp: maintenance_def Let_def intro: spent_windows_later)
qed

lemma auth_step_config: "pv_config (fst (auth_step host x p)) = pv_config p"
proof (cases x)
  case (PostPassword d c r tok u clock params)
  have "pv_config (fst (isLockedOut k n d p)) = pv_config p" for k n by (simp add: isLockedOut_def split: option.splits)
  then show ?thesis using PostPassword
    by (auto simp: authorize_def recordFailure_def clearFailures_def purgeExpiredCodes_def Let_def split: prod.splits dest: arg_cong [of _ _ fst])
      (metis fst_conv)+
next
  case (Maintain clock)
  then show ?thesis by (simp add: maintenance_def purgeExpiredCodes_def purgeExpiredFailures_def Let_def)
qed

lemma guesses_windows:
  assumes "spent_windows t0 g t (pv_failures p K)" "timely t xs e"
    "list_all (\<lambda>x. op_key x = Some K \<longrightarrow> op_guess x \<noteq> og_ownerToken (pv_config p)) xs"
  shows "\<exists>f. spent_windows t0 (g + guesses host K xs p) e f"
  using assms
proof (induction xs arbitrary: g t p)
  case Nil
  then show ?case by (auto intro: spent_windows_later)
next
  case (Cons x xs)
  obtain p1 refused where st: "auth_step host x p = (p1, refused)" by force
  have "pv_config p1 = pv_config p" using auth_step_config [of host x p] st by simp
  moreover have "spent_windows t0 (g + (if refused \<and> op_key x = Some K then 1 else 0)) (op_clock x 2) (pv_failures p1 K)"
    using auth_step_windows [of t0 g t p K x host] Cons.prems st by simp
  ultimately have "\<exists>f. spent_windows t0 (g + (if refused \<and> op_key x = Some K then 1 else 0) + guesses host K xs p1) e f"
    using Cons.prems by (intro Cons.IH) auto
  then show ?case using st by (auto simp: ac_simps split: if_splits)
qed

lemma spent_windows_bound:
  assumes "spent_windows t0 g e f"
  shows "g \<le> 5 * (nat (e - t0) div 300001 + 1)"
proof -
  obtain k where k: "g \<le> 5 * k + 5" "t0 + int k * 300001 \<le> e"
  proof (cases f)
    case None
    with assms obtain k where "g \<le> 5 * k" "t0 + int k * 300001 \<le> e" by (auto simp: spent_windows_def)
    then show ?thesis by (intro that [of k]) auto
  next
    case (Some tr)
    with assms obtain k where "g \<le> 5 * k + ft_count tr" "ft_count tr \<le> 5" "t0 + int k * 300001 \<le> ft_firstFailureAtMs tr" "ft_firstFailureAtMs tr \<le> e"
      by (auto simp: spent_windows_def)
    then show ?thesis by (intro that [of k]) auto
  qed
  have "k * 300001 \<le> nat (e - t0)" using k(2) by linarith
  then have "k \<le> nat (e - t0) div 300001" by (simp add: less_eq_div_iff_mult_less_eq)
  then have "5 * k + 5 \<le> 5 * (nat (e - t0) div 300001 + 1)" by simp
  with k(1) show ?thesis by (rule le_trans)
qed


definition sample_host :: oauth_host where
  "sample_host = \<lparr>oh_url = (\<lambda>u. Some \<lparr>ur_protocol = ''https:'', ur_hostname = u, ur_username = [], ur_password = [], ur_hash = []\<rparr>),
     oh_resourceAllowed = (\<lambda>r. r = ''r''), oh_hashToken = (\<lambda>s. ''h'' @ s)\<rparr>"

definition sample_provider :: provider where
  "sample_provider = \<lparr>pv_config = \<lparr>og_ownerToken = ''pw'', og_accessTokenTtlSeconds = 3600, og_refreshTokenTtlSeconds = 86400,
       og_scopes = [''s''], og_allowedRedirectHosts = [''c'']\<rparr>,
     pv_codes = [], pv_failures = Map.empty, pv_globalFailures = (\<lambda>_. newFailureTracker),
     pv_store = \<lparr>os_clients = [], os_access = [], os_refresh = []\<rparr>\<rparr>"

definition sample_params :: authorization_params where
  "sample_params = \<lparr>au_scopes = Some [''s''], au_resource = Some ''r'', au_redirectUri = ''c'', au_codeChallenge = ''x'', au_state = None\<rparr>"

definition sample_guess :: "int \<Rightarrow> auth_op" where
  "sample_guess t = PostPassword PublicDomain ''c'' ''a'' ''no'' ''u'' (\<lambda>_. t) sample_params"

lemmas sample_oauth = sample_host_def sample_provider_def sample_params_def sample_guess_def

lemmas password_evals = authorize_def isLockedOut_def recordFailure_def advanceFailureWindow_def newFailureTracker_def lock_at_def
  retryAfterSeconds_def clearFailures_def purgeExpiredCodes_def scoped_key_def domain_name_def upsert_def sql_update_def


section \<open>The announced lockout\<close>

lemma burst_tracker:
  assumes "pv_failures p (scoped_key d key) = None" "list_all (\<lambda>t. t - t1 \<le> 300000) ts"
  shows "pv_failures (fold (\<lambda>t. recordFailure key t d) (t1 # ts) p) (scoped_key d key) =
    Some \<lparr>ft_count = Suc (length ts), ft_firstFailureAtMs = t1, ft_lockedUntilMs = (if length ts \<ge> 4 then last (t1 # ts) + 300000 else 0)\<rparr>"
  using assms(2)
proof (induction ts rule: rev_induct)
  case Nil
  then show ?case using assms(1) by (simp add: recordFailure_def advanceFailureWindow_def newFailureTracker_def lock_at_def)
next
  case (snoc t ts)
  then show ?case by (simp add: recordFailure_def [of key t] advanceFailureWindow_def lock_at_def Let_def)
qed

lemma burst_global:
  assumes "ft_count (pv_globalFailures p d) + length ts < 50"
  shows "ft_lockedUntilMs (pv_globalFailures (fold (\<lambda>t. recordFailure key t d) ts p) d) = ft_lockedUntilMs (pv_globalFailures p d)"
  using assms
proof (induction ts arbitrary: p)
  case (Cons t ts)
  have adv: "ft_count (advanceFailureWindow t f) \<le> Suc (ft_count f)" "ft_lockedUntilMs (advanceFailureWindow t f) = ft_lockedUntilMs f" for f
    by (simp_all add: advanceFailureWindow_def)
  have "\<not> 50 \<le> ft_count (advanceFailureWindow t (pv_globalFailures p d))"
    using adv(1) [of "pv_globalFailures p d"] Cons.prems by simp
  with adv have "ft_count (pv_globalFailures (recordFailure key t d p) d) \<le> Suc (ft_count (pv_globalFailures p d))"
      "ft_lockedUntilMs (pv_globalFailures (recordFailure key t d p) d) = ft_lockedUntilMs (pv_globalFailures p d)"
    by (simp_all add: recordFailure_def lock_at_def Let_def)
  with Cons.IH [of "recordFailure key t d p"] Cons.prems show ?case by simp
qed simp

text \<open>
  What a lockout announces and what it does. After five wrong passwords of a key within one window, the
  refusal says ``try again in 300 seconds'', counted from the last failure; but the test that guards the form
  drops the record once the first failure is five minutes old, so from that moment the key may guess again:
  the lock holds exactly until five minutes after the first failure of the window.
\<close>

theorem lockout_shorter_than_announced:
  assumes "pv_failures p (scoped_key d key) = None" "length ts = 4" "list_all (\<lambda>t. t - t1 \<le> 300000) ts"
    "ft_count (pv_globalFailures p d) < 45" "ft_lockedUntilMs (pv_globalFailures p d) \<le> last ts" "last ts \<le> n" "0 \<le> last ts"
  shows "let q = fold (\<lambda>t. recordFailure key t d) (t1 # ts) p in
    retryAfterSeconds key (last ts) d q = 300 \<and> (snd (isLockedOut key n d q) \<longleftrightarrow> n \<le> t1 + 300000)"
proof -
  define q where "q = fold (\<lambda>t. recordFailure key t d) (t1 # ts) p"
  have k: "pv_failures q (scoped_key d key) =
      Some \<lparr>ft_count = 5, ft_firstFailureAtMs = t1, ft_lockedUntilMs = last ts + 300000\<rparr>"
    using burst_tracker [OF assms(1,3)] assms(2) unfolding q_def by (cases ts) simp_all
  have g: "ft_lockedUntilMs (pv_globalFailures q d) \<le> last ts"
    using burst_global [of p d "t1 # ts" key] assms(2,4,5) unfolding q_def by simp
  have "retryAfterSeconds key (last ts) d q = 300" using k g assms(7) by (simp add: retryAfterSeconds_def Let_def max_def)
  moreover have "snd (isLockedOut key n d q) \<longleftrightarrow> n \<le> t1 + 300000" using k g assms(6) by (auto simp: isLockedOut_def)
  ultimately show ?thesis unfolding q_def [symmetric] by simp
qed

theorem lockout_shorter_than_announced_witness:
  "let q = fold (\<lambda>t. recordFailure ''k'' t PublicDomain) (0 # [299000, 299000, 299000, 299000]) sample_provider in
    retryAfterSeconds ''k'' (last [299000, 299000, 299000, 299000]) PublicDomain q = 300
    \<and> (snd (isLockedOut ''k'' 300001 PublicDomain q) \<longleftrightarrow> 300001 \<le> 0 + (300000 :: int))"
  by (rule lockout_shorter_than_announced) (simp_all add: sample_provider_def newFailureTracker_def)

section \<open>The provider's operations\<close>

datatype oauth_op =
    Register string int client_request
  | Authorize bool failure_domain string string string string "nat \<Rightarrow> int" authorization_params
  | ExchangeCode string string "string option" "string option" "nat \<Rightarrow> int" string string
  | ExchangeRefresh string string "string list option" "string option" "nat \<Rightarrow> int" string string
  | Revoke string
  | Sweep "nat \<Rightarrow> int"

text \<open>The state after an operation, and whether it issued tokens.\<close>

fun oauth_exec :: "oauth_host \<Rightarrow> oauth_op \<Rightarrow> provider \<Rightarrow> provider \<times> bool" where
  "oauth_exec host (Register uuid now client) p =
     (p\<lparr>pv_store := fst (registerClient host (og_allowedRedirectHosts (pv_config p)) uuid now client (pv_store p))\<rparr>, False)"
| "oauth_exec host (Authorize post d c r tok u clock params) p = (fst (authorize host post d c r tok u clock params p), False)"
| "oauth_exec host (ExchangeCode c code redirect resource clock acc ref) p =
     (let (p1, a) = exchangeAuthorizationCode host c code redirect resource clock acc ref p in (p1, \<not> isl a))"
| "oauth_exec host (ExchangeRefresh c tok scopes resource clock acc ref) p =
     (let (p1, a) = exchangeRefreshToken host c tok scopes resource clock acc ref p in (p1, \<not> isl a))"
| "oauth_exec host (Revoke tok) p = (revokeToken host tok p, False)"
| "oauth_exec host (Sweep clock) p = (maintenance clock p, False)"

fun issued_refresh :: "oauth_host \<Rightarrow> oauth_op \<Rightarrow> string option" where
  "issued_refresh host (ExchangeCode c code redirect resource clock acc ref) = Some (oh_hashToken host ref)"
| "issued_refresh host (ExchangeRefresh c tok scopes resource clock acc ref) = Some (oh_hashToken host ref)"
| "issued_refresh host x = None"

fun issued_code :: "oauth_op \<Rightarrow> string option" where
  "issued_code (Authorize post d c r tok u clock params) = Some (''code-'' @ u)"
| "issued_code x = None"

fun spends_refresh :: "oauth_host \<Rightarrow> string \<Rightarrow> oauth_op \<Rightarrow> bool" where
  "spends_refresh host h (ExchangeRefresh c tok scopes resource clock acc ref) = (oh_hashToken host tok = h)"
| "spends_refresh host h x = False"

fun spends_code :: "string \<Rightarrow> oauth_op \<Rightarrow> bool" where
  "spends_code code (ExchangeCode c code' redirect resource clock acc ref) = (code' = code)"
| "spends_code code x = False"

text \<open>How often operations selected by \<open>P\<close> issued tokens in a run.\<close>

fun token_grants :: "oauth_host \<Rightarrow> (oauth_op \<Rightarrow> bool) \<Rightarrow> oauth_op list \<Rightarrow> provider \<Rightarrow> nat" where
  "token_grants host P [] p = 0"
| "token_grants host P (x # xs) p = (let (p1, ok) = oauth_exec host x p in (if P x \<and> ok then 1 else 0) + token_grants host P xs p1)"

subsection \<open>Frames\<close>

lemma map_fst_upsert: "map fst (upsert h r t) = (if h \<in> fst ` set t then map fst t else map fst t @ [h])"
  by (simp add: upsert_def sql_update_def)

lemma keys_upsert [simp]: "fst ` set (upsert h r t) = insert h (fst ` set t)"
  using arg_cong [OF map_fst_upsert [of h r t], of set] by (auto split: if_splits)

lemma find_token_None: "find_token h t = None \<longleftrightarrow> h \<notin> fst ` set t"
  by (auto simp: find_token_def find_None_iff image_iff)

lemma find_token_Some: "find_token h t = Some r \<Longrightarrow> (h, r) \<in> set t"
  by (induction t) (auto simp: find_token_def split: if_splits)

lemma keys_delete_token [simp]: "fst ` set (delete_token h t) = fst ` set t - {h}"
  by (auto simp: delete_token_def)

lemma isLockedOut_frame [simp]:
  "pv_store (fst (isLockedOut k n d p)) = pv_store p" "pv_codes (fst (isLockedOut k n d p)) = pv_codes p"
  "pv_config (fst (isLockedOut k n d p)) = pv_config p"
  by (simp_all add: isLockedOut_def split: option.splits)

lemma isLockedOut_eq:
  assumes "isLockedOut k n d p = (p1, locked)"
  shows "pv_store p1 = pv_store p" "pv_codes p1 = pv_codes p" "pv_config p1 = pv_config p"
  using isLockedOut_frame [of k n d p, unfolded assms] by simp_all

lemma tracker_frame [simp]:
  "pv_store (recordFailure k n d p) = pv_store p" "pv_codes (recordFailure k n d p) = pv_codes p" "pv_config (recordFailure k n d p) = pv_config p"
  "pv_store (clearFailures k d p) = pv_store p" "pv_codes (clearFailures k d p) = pv_codes p" "pv_config (clearFailures k d p) = pv_config p"
  "pv_store (purgeExpiredFailures n p) = pv_store p" "pv_codes (purgeExpiredFailures n p) = pv_codes p" "pv_config (purgeExpiredFailures n p) = pv_config p"
  by (simp_all add: recordFailure_def clearFailures_def purgeExpiredFailures_def Let_def)

lemma purgeExpiredCodes_frame [simp]:
  "pv_store (purgeExpiredCodes n p) = pv_store p" "pv_config (purgeExpiredCodes n p) = pv_config p"
  by (simp_all add: purgeExpiredCodes_def Let_def)

lemma purgeExpiredCodes_subset: "set (pv_codes (purgeExpiredCodes n p)) \<subseteq> set (pv_codes p)"
  by (auto simp: purgeExpiredCodes_def Let_def dest: in_set_dropD)

lemma authorize_cases:
  obtains (kept) "pv_codes (fst (authorize host post d c r tok u clock params p)) = pv_codes p"
  | (granted) "post" "tok = og_ownerToken (pv_config p)" "list_all (\<lambda>s. s \<in> set (og_scopes (pv_config p))) (coalesce (au_scopes params) [])"
      "pv_codes (fst (authorize host post d c r tok u clock params p)) =
       upsert (''code-'' @ u) \<lparr>cd_clientId = c, cd_params = params, cd_expiresAtMs = clock 2 + CODE_TTL_MS\<rparr>
         (pv_codes (purgeExpiredCodes (clock 1) p))"
proof -
  define key where "key = c @ ''|'' @ r"
  obtain p1 locked where l: "isLockedOut key (clock 0) d p = (p1, locked)" by force
  have fr: "pv_codes p1 = pv_codes p" "pv_config p1 = pv_config p" using l isLockedOut_eq by blast+
  have pc: "pv_codes (purgeExpiredCodes n (clearFailures k d p1)) = pv_codes (purgeExpiredCodes n p)" for n k
    using fr by (simp add: purgeExpiredCodes_def Let_def)
  have "pv_codes (fst (authorize host post d c r tok u clock params p)) = pv_codes p
    \<or> post \<and> tok = og_ownerToken (pv_config p) \<and> list_all (\<lambda>s. s \<in> set (og_scopes (pv_config p))) (coalesce (au_scopes params) [])
      \<and> pv_codes (fst (authorize host post d c r tok u clock params p)) =
        upsert (''code-'' @ u) \<lparr>cd_clientId = c, cd_params = params, cd_expiresAtMs = clock 2 + CODE_TTL_MS\<rparr>
          (pv_codes (purgeExpiredCodes (clock 1) p))"
    unfolding authorize_def key_def [symmetric] by (simp add: l fr pc Let_def)
  with kept granted show thesis by blast
qed

lemma authorize_frame [simp]:
  "pv_store (fst (authorize host post d c r tok u clock params p)) = pv_store p"
  "pv_config (fst (authorize host post d c r tok u clock params p)) = pv_config p"
proof -
  define key where "key = c @ ''|'' @ r"
  obtain p1 locked where l: "isLockedOut key (clock 0) d p = (p1, locked)" by force
  have fr: "pv_store p1 = pv_store p" "pv_config p1 = pv_config p" using l isLockedOut_eq by blast+
  show "pv_store (fst (authorize host post d c r tok u clock params p)) = pv_store p"
    "pv_config (fst (authorize host post d c r tok u clock params p)) = pv_config p"
    unfolding authorize_def key_def [symmetric] by (simp_all add: l fr Let_def)
qed

abbreviation refresh_keys :: "provider \<Rightarrow> string set" where
  "refresh_keys p \<equiv> fst ` set (os_refresh (pv_store p))"

abbreviation code_keys :: "provider \<Rightarrow> string set" where
  "code_keys p \<equiv> fst ` set (pv_codes p)"

lemma sql_changes_one: "sql_changes P t = Suc 0 \<Longrightarrow> \<exists>x \<in> set t. P x"
  by (metis One_nat_def filter_False length_0_conv nat.distinct(1) sql_changes_def)

lemma issued_pair_sel [simp]:
  "tp_accessTokenHash (issued_pair host g c scopes resource now acc ref) = oh_hashToken host acc"
  "tp_refreshTokenHash (issued_pair host g c scopes resource now acc ref) = oh_hashToken host ref"
  "tk_scopes (tp_accessToken (issued_pair host g c scopes resource now acc ref)) = scopes"
  "tk_scopes (tp_refreshToken (issued_pair host g c scopes resource now acc ref)) = scopes"
  "tk_clientId (tp_accessToken (issued_pair host g c scopes resource now acc ref)) = c"
  "tk_clientId (tp_refreshToken (issued_pair host g c scopes resource now acc ref)) = c"
  by (simp_all add: issued_pair_def Let_def)

lemma saveTokenPair_refresh:
  assumes "saveTokenPair pair consumed s = Some (s', ok)"
  shows "fst ` set (os_refresh s') =
      (if ok then {tp_refreshTokenHash pair} else {}) \<union> (fst ` set (os_refresh s) - (if truthy consumed then {the consumed} else {}))"
    and "ok \<Longrightarrow> truthy consumed \<Longrightarrow> the consumed \<in> fst ` set (os_refresh s)"
proof -
  show "fst ` set (os_refresh s') =
      (if ok then {tp_refreshTokenHash pair} else {}) \<union> (fst ` set (os_refresh s) - (if truthy consumed then {the consumed} else {}))"
    using assms unfolding saveTokenPair_def Let_def by (simp split: if_splits) (clarsimp simp: assms)+
  assume "ok" "truthy consumed"
  with assms have "sql_changes (\<lambda>x. fst x = the consumed) (os_refresh s) = Suc 0" by (simp add: saveTokenPair_def Let_def split: if_splits)
  from sql_changes_one [OF this] show "the consumed \<in> fst ` set (os_refresh s)" by (metis image_eqI)
qed

lemma issueTokens_frame [simp]:
  "pv_codes (fst (issueTokens host c scopes resource consumed now acc ref p)) = pv_codes p"
  "pv_config (fst (issueTokens host c scopes resource consumed now acc ref p)) = pv_config p"
  by (simp_all add: issueTokens_def split: option.splits prod.splits)

lemma issueTokens_cases:
  obtains (failed) e where "issueTokens host c scopes resource consumed now acc ref p = (p, Inl e)"
  | (refused) s where "issueTokens host c scopes resource consumed now acc ref p = (p\<lparr>pv_store := s\<rparr>, Inl InvalidRefreshToken)"
      "saveTokenPair (issued_pair host (pv_config p) c scopes resource now acc ref) consumed (pv_store p) = Some (s, False)"
  | (issued) s t where "issueTokens host c scopes resource consumed now acc ref p = (p\<lparr>pv_store := s\<rparr>, Inr t)"
      "saveTokenPair (issued_pair host (pv_config p) c scopes resource now acc ref) consumed (pv_store p) = Some (s, True)"
proof (cases "saveTokenPair (issued_pair host (pv_config p) c scopes resource now acc ref) consumed (pv_store p)")
  case None
  then show thesis using failed by (simp add: issueTokens_def)
next
  case (Some r)
  then obtain s ok where "saveTokenPair (issued_pair host (pv_config p) c scopes resource now acc ref) consumed (pv_store p) = Some (s, ok)"
    by (cases r) auto
  then show thesis using refused issued by (cases ok) (simp_all add: issueTokens_def)
qed

lemma issueTokens_refresh:
  "refresh_keys (fst (issueTokens host c scopes resource consumed now acc ref p)) \<subseteq>
    insert (oh_hashToken host ref) (refresh_keys p)"
proof (rule issueTokens_cases [of host c scopes resource consumed now acc ref p], goal_cases)
  case (2 s)
  with saveTokenPair_refresh(1) [OF 2(2)] show ?case by auto
next
  case (3 s t)
  with saveTokenPair_refresh(1) [OF 3(2)] show ?case by auto
qed auto

lemma issueTokens_absent:
  assumes "h \<notin> refresh_keys p" "oh_hashToken host ref \<noteq> h"
  shows "h \<notin> refresh_keys (fst (issueTokens host c scopes resource consumed now acc ref p))"
proof
  assume "h \<in> refresh_keys (fst (issueTokens host c scopes resource consumed now acc ref p))"
  from subsetD [OF issueTokens_refresh this] assms show False by (elim insertE) simp_all
qed

lemma issueTokens_consumes:
  assumes "\<not> isl (snd (issueTokens host c scopes resource (Some h) now acc ref p))" "h \<noteq> []"
  shows "h \<in> refresh_keys p
    \<and> refresh_keys (fst (issueTokens host c scopes resource (Some h) now acc ref p)) = insert (oh_hashToken host ref) (refresh_keys p - {h})"
proof (rule issueTokens_cases [of host c scopes resource "Some h" now acc ref p], goal_cases)
  case (3 s t)
  with saveTokenPair_refresh [OF 3(2)] assms(2) show ?case by simp
qed (use assms in auto)

lemma exec_exchange:
  "oauth_exec host (ExchangeCode c code redirect resource clock acc ref) p =
     (fst (exchangeAuthorizationCode host c code redirect resource clock acc ref p),
      \<not> isl (snd (exchangeAuthorizationCode host c code redirect resource clock acc ref p)))"
  "oauth_exec host (ExchangeRefresh c tok scopes resource clock acc ref) p =
     (fst (exchangeRefreshToken host c tok scopes resource clock acc ref p),
      \<not> isl (snd (exchangeRefreshToken host c tok scopes resource clock acc ref p)))"
  by (simp_all add: split_beta)

lemma exchangeCode_cases:
  obtains (refused) e where "exchangeAuthorizationCode host c code redirect resource clock acc ref p = (p, Inl e)"
  | (accepted) r where "map_of (pv_codes p) code = Some r" "cd_clientId r = c"
      "exchangeAuthorizationCode host c code redirect resource clock acc ref p =
        issueTokens host c (coalesce (au_scopes (cd_params r)) (og_scopes (pv_config p))) (au_resource (cd_params r)) None (clock 1) acc ref
          (p\<lparr>pv_codes := filter (\<lambda>x. fst x \<noteq> code) (pv_codes p)\<rparr>)"
proof (cases "validCodeRecord c code (clock 0) p")
  case None
  then show thesis by (intro refused [of InvalidCode]) (simp add: exchangeAuthorizationCode_def)
next
  case (Some r)
  then have r: "map_of (pv_codes p) code = Some r" "cd_clientId r = c" by (auto simp: validCodeRecord_def split: option.splits if_splits)
  show thesis
  proof (cases "truthy redirect \<and> the redirect \<noteq> au_redirectUri (cd_params r) \<or> resource \<noteq> None \<and> \<not> oh_resourceAllowed host (the resource)")
    case True
    with Some have "\<exists>e. exchangeAuthorizationCode host c code redirect resource clock acc ref p = (p, Inl e)"
      by (auto simp: exchangeAuthorizationCode_def)
    with refused show thesis by blast
  next
    case False
    with Some r show thesis by (intro accepted [of r]) (auto simp: exchangeAuthorizationCode_def)
  qed
qed

lemma exchangeRefresh_cases:
  obtains (refused) e where "exchangeRefreshToken host c tok scopes resource clock acc ref p = (p, Inl e)"
  | (accepted) r where "find_token (oh_hashToken host tok) (os_refresh (pv_store p)) = Some r" "tk_clientId r = c"
      "set (coalesce scopes (tk_scopes r)) \<subseteq> set (tk_scopes r)"
      "exchangeRefreshToken host c tok scopes resource clock acc ref p =
        issueTokens host c (coalesce scopes (tk_scopes r)) (or_else resource (if truthy (tk_resource r) then tk_resource r else None))
          (Some (oh_hashToken host tok)) (clock 1) acc ref p"
proof (cases "find_token (oh_hashToken host tok) (os_refresh (pv_store p))")
  case None
  then show thesis by (intro refused [of InvalidRefreshToken]) (simp add: exchangeRefreshToken_def)
next
  case (Some r)
  show thesis
  proof (cases "tk_clientId r \<noteq> c \<or> tk_expiresAt r < clock 0 div 1000 \<or> (resource \<noteq> None \<and> \<not> oh_resourceAllowed host (the resource))
      \<or> \<not> list_all (\<lambda>s. s \<in> set (tk_scopes r)) (coalesce scopes (tk_scopes r))")
    case True
    have "\<exists>e. exchangeRefreshToken host c tok scopes resource clock acc ref p = (p, Inl e)"
      using True Some unfolding exchangeRefreshToken_def Let_def by auto
    with refused show thesis by blast
  next
    case False
    show thesis using False Some by (intro accepted [of r]) (auto simp: exchangeRefreshToken_def Let_def list_all_iff)
  qed
qed

lemma exec_refresh_kept:
  assumes "issued_refresh host x \<noteq> Some h" "h \<notin> refresh_keys p"
  shows "h \<notin> refresh_keys (fst (oauth_exec host x p))"
proof (cases x)
  case (Register uuid now client)
  then show ?thesis using assms by (simp add: registerClient_def delete_unused_def Let_def)
next
  case (ExchangeCode c code redirect resource clock acc ref)
  show ?thesis
  proof (rule exchangeCode_cases [of host c code redirect resource clock acc ref p], goal_cases)
    case (2 r)
    have "oh_hashToken host ref \<noteq> h" using assms(1) ExchangeCode by simp
    with assms(2) show ?case unfolding ExchangeCode exec_exchange 2(3) fst_conv by (intro issueTokens_absent) simp_all
  qed (use ExchangeCode assms in auto)
next
  case (ExchangeRefresh c tok scopes resource clock acc ref)
  show ?thesis
  proof (rule exchangeRefresh_cases [of host c tok scopes resource clock acc ref p], goal_cases)
    case (2 r)
    have "oh_hashToken host ref \<noteq> h" using assms(1) ExchangeRefresh by simp
    with assms(2) show ?case unfolding ExchangeRefresh exec_exchange 2(4) fst_conv by (intro issueTokens_absent) simp_all
  qed (use ExchangeRefresh assms in auto)
next
  case (Revoke tok)
  then show ?thesis using assms by (simp add: revokeToken_def Let_def)
next
  case (Sweep clock)
  then show ?thesis using assms by (auto simp: maintenance_def deleteExpiredTokens_def delete_unused_def Let_def)
qed (use assms in simp)

lemma exec_refresh_spent:
  assumes "issued_refresh host x \<noteq> Some h" "spends_refresh host h x" "snd (oauth_exec host x p)" "h \<noteq> []"
  shows "h \<in> refresh_keys p \<and> h \<notin> refresh_keys (fst (oauth_exec host x p))"
proof (cases x)
  case (ExchangeRefresh c tok scopes resource clock acc ref)
  have h: "oh_hashToken host tok = h" "oh_hashToken host ref \<noteq> h" using assms(1,2) ExchangeRefresh by simp_all
  show ?thesis
  proof (rule exchangeRefresh_cases [of host c tok scopes resource clock acc ref p], goal_cases)
    case (1 e)
    with assms(3) ExchangeRefresh show ?case by (simp add: exec_exchange del: oauth_exec.simps)
  next
    case (2 r)
    have "\<not> isl (snd (issueTokens host c (coalesce scopes (tk_scopes r)) (or_else resource (if truthy (tk_resource r) then tk_resource r else None)) (Some h) (clock 1) acc ref p))"
      using assms(3) unfolding ExchangeRefresh exec_exchange 2(4) h(1) snd_conv .
    from issueTokens_consumes [OF this assms(4)] h(2) show ?case unfolding ExchangeRefresh exec_exchange 2(4) h(1) fst_conv by simp
  qed
qed (use assms in simp_all)

lemma exec_code_kept:
  assumes "issued_code x \<noteq> Some code" "code \<notin> code_keys p"
  shows "code \<notin> code_keys (fst (oauth_exec host x p))"
proof (cases x)
  case (Authorize post d c r tok u clock params)
  then have ne: "code \<noteq> ''code-'' @ u" using assms(1) by simp
  have "code_keys (purgeExpiredCodes (clock 1) p) \<subseteq> code_keys p" by (rule image_mono [OF purgeExpiredCodes_subset])
  from contra_subsetD [OF this assms(2)] have "code \<notin> code_keys (purgeExpiredCodes (clock 1) p)" .
  with assms(2) ne show ?thesis unfolding Authorize oauth_exec.simps fst_conv
    by (cases rule: authorize_cases [of host post d c r tok u clock params p]) (simp_all only: keys_upsert insert_iff simp_thms)
next
  case (ExchangeCode c code' redirect resource clock acc ref)
  show ?thesis
    by (rule exchangeCode_cases [of host c code' redirect resource clock acc ref p])
      (use assms in \<open>auto simp: ExchangeCode exec_exchange simp del: oauth_exec.simps\<close>)
next
  case (ExchangeRefresh c tok scopes resource clock acc ref)
  show ?thesis
    by (rule exchangeRefresh_cases [of host c tok scopes resource clock acc ref p])
      (use assms in \<open>auto simp: ExchangeRefresh exec_exchange simp del: oauth_exec.simps\<close>)
next
  case (Sweep clock)
  then show ?thesis using assms purgeExpiredCodes_subset [of "clock 0" p] by (auto simp: maintenance_def Let_def)
qed (use assms in \<open>simp_all add: revokeToken_def Let_def\<close>)

lemma exec_code_spent:
  assumes "spends_code code x" "snd (oauth_exec host x p)"
  shows "code \<in> code_keys p \<and> code \<notin> code_keys (fst (oauth_exec host x p))"
proof (cases x)
  case (ExchangeCode c code' redirect resource clock acc ref)
  then have "code' = code" using assms(1) by simp
  show ?thesis
  proof (rule exchangeCode_cases [of host c code' redirect resource clock acc ref p], goal_cases)
    case (1 e)
    with assms(2) show ?case unfolding ExchangeCode exec_exchange by simp
  next
    case (2 r)
    from map_of_SomeD [OF 2(1)] \<open>code' = code\<close> have "code \<in> code_keys p" by force
    then show ?case unfolding ExchangeCode exec_exchange 2(3) by (auto simp: \<open>code' = code\<close>)
  qed
qed (use assms in simp_all)

subsection \<open>Credentials are spent\<close>

lemma token_grants_le:
  assumes kept: "\<And>x p. x \<in> set xs \<Longrightarrow> \<not> live p \<Longrightarrow> \<not> live (fst (oauth_exec host x p))"
    and spent: "\<And>x p. x \<in> set xs \<Longrightarrow> P x \<Longrightarrow> snd (oauth_exec host x p) \<Longrightarrow> live p \<and> \<not> live (fst (oauth_exec host x p))"
  shows "token_grants host P xs p \<le> (if live p then 1 else 0)"
  using assms
proof (induction xs arbitrary: p)
  case (Cons x xs)
  obtain p1 ok where e: "oauth_exec host x p = (p1, ok)" by force
  have IH: "token_grants host P xs p1 \<le> (if live p1 then 1 else 0)" using Cons.prems by (intro Cons.IH) auto
  have "\<not> live p \<Longrightarrow> \<not> live p1" using Cons.prems(1) [of x p] e by simp
  moreover have "P x \<and> ok \<Longrightarrow> live p \<and> \<not> live p1" using Cons.prems(2) [of x p] e by simp
  ultimately show ?case using IH e by (auto split: if_splits)
qed simp

text \<open>
  C19. Credentials are used once. In any sequence of provider operations by any clients, in which the random
  tokens and codes drawn do not repeat the given one, a refresh token is exchanged for new tokens at most once,
  and not at all when it is not in the table at the start (expired and swept, revoked or already rotated); the
  same holds for an authorization code.
\<close>

theorem credentials_used_once:
  assumes "h \<noteq> []" "list_all (\<lambda>x. issued_refresh host x \<noteq> Some h) xs" "list_all (\<lambda>x. issued_code x \<noteq> Some code) xs"
  shows "token_grants host (spends_refresh host h) xs p \<le> (if h \<in> fst ` set (os_refresh (pv_store p)) then 1 else 0)
    \<and> token_grants host (spends_code code) xs p \<le> (if code \<in> fst ` set (pv_codes p) then 1 else 0)"
proof
  show "token_grants host (spends_refresh host h) xs p \<le> (if h \<in> refresh_keys p then 1 else 0)"
  proof (rule token_grants_le, goal_cases)
    case (1 x p)
    then show ?case using assms(2) by (intro exec_refresh_kept) (auto simp only: list_all_iff)
  next
    case (2 x p)
    then show ?case using assms(1,2) by (intro exec_refresh_spent) (auto simp only: list_all_iff)
  qed
  show "token_grants host (spends_code code) xs p \<le> (if code \<in> code_keys p then 1 else 0)"
  proof (rule token_grants_le, goal_cases)
    case (1 x p)
    then show ?case using assms(3) by (intro exec_code_kept) (auto simp only: list_all_iff)
  next
    case (2 x p)
    then show ?case by (intro exec_code_spent)
  qed
qed

definition sample_client :: oauth_client where
  "sample_client = \<lparr>cl_clientId = ''c'', cl_redirectUris = [''c''], cl_authMethod = ''none'', cl_grantTypes = [], cl_responseTypes = [], cl_issuedAt = 0\<rparr>"

definition sample_token :: token_record where
  "sample_token = \<lparr>tk_clientId = ''c'', tk_scopes = [''s''], tk_expiresAt = 1000, tk_resource = None\<rparr>"

definition sample_state :: provider where
  "sample_state = sample_provider\<lparr>pv_codes := [(''code-1'', \<lparr>cd_clientId = ''c'', cd_params = sample_params, cd_expiresAtMs = 9000\<rparr>)],
     pv_store := \<lparr>os_clients = [sample_client], os_access = [], os_refresh = [(''hr'', sample_token)]\<rparr>\<rparr>"

definition sample_exchanges :: "oauth_op list" where
  "sample_exchanges = [ExchangeRefresh ''c'' ''r'' None None (\<lambda>_. 5000) ''a1'' ''r1'', ExchangeRefresh ''c'' ''r'' None None (\<lambda>_. 5000) ''a2'' ''r2'',
     ExchangeCode ''c'' ''code-1'' None None (\<lambda>_. 5000) ''a3'' ''r3'', ExchangeCode ''c'' ''code-1'' None None (\<lambda>_. 5000) ''a4'' ''r4'']"

theorem credentials_used_once_witness:
  "token_grants sample_host (spends_refresh sample_host ''hr'') sample_exchanges sample_state
       \<le> (if ''hr'' \<in> fst ` set (os_refresh (pv_store sample_state)) then 1 else 0)
   \<and> token_grants sample_host (spends_code ''code-1'') sample_exchanges sample_state \<le> (if ''code-1'' \<in> fst ` set (pv_codes sample_state) then 1 else 0)"
  by (rule credentials_used_once) (simp_all add: sample_exchanges_def sample_host_def)

lemma sample_exchanges_grant:
  "token_grants sample_host (spends_refresh sample_host ''hr'') sample_exchanges sample_state = 1
   \<and> token_grants sample_host (spends_code ''code-1'') sample_exchanges sample_state = 1"
  by code_simp

section \<open>What every reachable state keeps\<close>

definition token_table_ok :: "string list \<Rightarrow> oauth_client list \<Rightarrow> (string \<times> token_record) list \<Rightarrow> bool" where
  "token_table_ok scopes clients t \<longleftrightarrow> distinct (map fst t)
     \<and> list_all (\<lambda>x. set (tk_scopes (snd x)) \<subseteq> set scopes \<and> tk_clientId (snd x) \<in> cl_clientId ` set clients) t"

definition oauth_ok :: "provider \<Rightarrow> bool" where
  "oauth_ok p \<longleftrightarrow> length (os_clients (pv_store p)) \<le> MAX_OAUTH_CLIENTS \<and> distinct (map cl_clientId (os_clients (pv_store p)))
     \<and> token_table_ok (og_scopes (pv_config p)) (os_clients (pv_store p)) (os_access (pv_store p))
     \<and> token_table_ok (og_scopes (pv_config p)) (os_clients (pv_store p)) (os_refresh (pv_store p))
     \<and> length (pv_codes p) \<le> Suc MAX_OUTSTANDING_CODES \<and> distinct (map fst (pv_codes p))
     \<and> list_all (\<lambda>x. set (coalesce (au_scopes (cd_params (snd x))) []) \<subseteq> set (og_scopes (pv_config p))) (pv_codes p)"

lemma token_table_ok_delete: "token_table_ok g cs t \<Longrightarrow> token_table_ok g cs (sql_delete P t)"
  by (auto simp: token_table_ok_def sql_delete_def list_all_iff intro: distinct_map_filter)

lemma set_upsert: "set (upsert h r t) \<subseteq> insert (h, r) (set t)"
  by (auto simp: upsert_def sql_update_def)

lemma token_table_ok_upsert:
  assumes "token_table_ok g cs t" "set (tk_scopes r) \<subseteq> set g" "tk_clientId r \<in> cl_clientId ` set cs"
  shows "token_table_ok g cs (upsert h r t)"
proof -
  have "distinct (map fst (upsert h r t))" using assms(1) by (auto simp: map_fst_upsert token_table_ok_def)
  moreover have "x \<in> set t \<or> x = (h, r)" if "x \<in> set (upsert h r t)" for x using that set_upsert by fast
  ultimately show ?thesis using assms unfolding token_table_ok_def list_all_iff by (metis snd_conv)
qed

lemma token_table_ok_clients:
  assumes "token_table_ok g cs t" "\<And>c. c \<in> set cs \<Longrightarrow> cl_clientId c \<in> tk_clientId ` snd ` set t \<Longrightarrow> c \<in> set cs'"
  shows "token_table_ok g cs' t"
  using assms unfolding token_table_ok_def list_all_iff by (auto simp: image_iff) (metis fst_conv snd_conv)

lemma delete_unused_ok:
  assumes "oauth_ok (p\<lparr>pv_store := s\<rparr>)"
  shows "oauth_ok (p\<lparr>pv_store := delete_unused n s\<rparr>)"
proof -
  have "token_table_ok (og_scopes (pv_config p)) (sql_delete (unused_before n s) (os_clients s)) t"
    if "token_table_ok (og_scopes (pv_config p)) (os_clients s) t" "t = os_access s \<or> t = os_refresh s" for t
    using that(2) by (intro token_table_ok_clients [OF that(1)]) (auto simp: unused_before_def image_iff split: prod.splits)
  then show ?thesis using assms
    by (auto simp: oauth_ok_def delete_unused_def sql_delete_def intro: distinct_map_filter le_trans [OF length_filter_le])
qed

lemma registerClient_ok:
  assumes "oauth_ok p"
  shows "oauth_ok (p\<lparr>pv_store := fst (registerClient host hosts uuid now client (pv_store p))\<rparr>)"
proof -
  define s1 where "s1 = delete_unused (now div 1000 - DCR_UNUSED_GRACE_SECONDS) (pv_store p)"
  have "oauth_ok (p\<lparr>pv_store := s1\<rparr>)" unfolding s1_def by (rule delete_unused_ok) (use assms in simp)
  moreover have "token_table_ok g (cs @ [c]) t" if "token_table_ok g cs t" for g cs c t
    by (rule token_table_ok_clients [OF that]) simp
  ultimately show ?thesis using assms unfolding registerClient_def Let_def s1_def [symmetric] by (auto simp: oauth_ok_def not_le)
qed

lemma issueTokens_ok:
  assumes "oauth_ok p" "set scopes \<subseteq> set (og_scopes (pv_config p))"
  shows "oauth_ok (fst (issueTokens host c scopes resource consumed now acc ref p))"
proof -
  define pair where "pair = issued_pair host (pv_config p) c scopes resource now acc ref"
  have sc: "set (tk_scopes (tp_accessToken pair)) \<subseteq> set (og_scopes (pv_config p))"
      "set (tk_scopes (tp_refreshToken pair)) \<subseteq> set (og_scopes (pv_config p))" using assms(2) by (simp_all add: pair_def)
  have "oauth_ok (p\<lparr>pv_store := s\<rparr>)" if "saveTokenPair pair consumed (pv_store p) = Some (s, ok)" for s ok
    using that assms(1) unfolding saveTokenPair_def Let_def
    by (auto simp: oauth_ok_def delete_token_def split: if_splits intro!: token_table_ok_upsert token_table_ok_delete sc del: subsetI)
  then show ?thesis using assms(1) unfolding issueTokens_def pair_def [symmetric] by (auto split: option.splits)
qed

lemma purgeExpiredCodes_ok:
  assumes "oauth_ok p"
  shows "oauth_ok (purgeExpiredCodes n p)" "length (pv_codes (purgeExpiredCodes n p)) \<le> MAX_OUTSTANDING_CODES"
proof -
  show "length (pv_codes (purgeExpiredCodes n p)) \<le> MAX_OUTSTANDING_CODES" by (simp add: purgeExpiredCodes_def Let_def)
  moreover have "distinct (map fst (pv_codes (purgeExpiredCodes n p)))" using assms
    by (simp add: purgeExpiredCodes_def Let_def oauth_ok_def drop_map [symmetric] distinct_drop distinct_map_filter)
  ultimately show "oauth_ok (purgeExpiredCodes n p)" using assms purgeExpiredCodes_subset [of n p]
    by (auto simp: oauth_ok_def list_all_iff)
qed

lemma oauth_ok_cong:
  assumes "oauth_ok p" "pv_store q = pv_store p" "pv_config q = pv_config p" "pv_codes q = pv_codes p"
  shows "oauth_ok q"
  using assms by (simp add: oauth_ok_def)

lemma authorize_ok:
  assumes "oauth_ok p"
  shows "oauth_ok (fst (authorize host post d c r tok u clock params p))"
proof (cases rule: authorize_cases [of host post d c r tok u clock params p])
  case kept
  show ?thesis by (rule oauth_ok_cong [OF assms]) (simp_all add: kept)
next
  case granted
  let ?q = "purgeExpiredCodes (clock 1) p"
  define cd where "cd = \<lparr>cd_clientId = c, cd_params = params, cd_expiresAtMs = clock 2 + CODE_TTL_MS\<rparr>"
  have ok: "oauth_ok (?q\<lparr>pv_codes := upsert (''code-'' @ u) cd (pv_codes ?q)\<rparr>)"
  proof -
    have "length (upsert k cd t) \<le> Suc (length t)" for k t by (simp add: upsert_def)
    from le_trans [OF this, of "pv_codes ?q" "Suc MAX_OUTSTANDING_CODES"] purgeExpiredCodes_ok(2) [OF assms, of "clock 1"]
    have len: "length (upsert (''code-'' @ u) cd (pv_codes ?q)) \<le> Suc MAX_OUTSTANDING_CODES" by simp
    have "set (coalesce (au_scopes (cd_params cd)) []) \<subseteq> set (og_scopes (pv_config p))"
      using granted(3) by (simp add: cd_def list_all_iff subset_iff)
    then show ?thesis using purgeExpiredCodes_ok(1) [OF assms, of "clock 1"] len set_upsert [of "''code-'' @ u" cd "pv_codes ?q"]
      unfolding oauth_ok_def by (auto simp: map_fst_upsert list_all_iff simp del: append.simps dest!: subsetD)
  qed
  show ?thesis by (rule oauth_ok_cong [OF ok]) (simp_all add: granted(4) cd_def)
qed

lemma exchange_ok:
  assumes "oauth_ok p"
  shows "oauth_ok (fst (exchangeAuthorizationCode host c code redirect resource clock acc ref p))"
    and "oauth_ok (fst (exchangeRefreshToken host c tok scopes resource clock acc ref p))"
proof -
  show "oauth_ok (fst (exchangeAuthorizationCode host c code redirect resource clock acc ref p))"
  proof (rule exchangeCode_cases [of host c code redirect resource clock acc ref p], goal_cases)
    case (2 r)
    have "set (coalesce (au_scopes (cd_params r)) (og_scopes (pv_config p))) \<subseteq> set (og_scopes (pv_config p))"
      using map_of_SomeD [OF 2(1)] assms by (cases "au_scopes (cd_params r)") (fastforce simp: oauth_ok_def list_all_iff)+
    moreover have "oauth_ok (p\<lparr>pv_codes := filter (\<lambda>x. fst x \<noteq> code) (pv_codes p)\<rparr>)"
      using assms by (auto simp: oauth_ok_def list_all_iff intro: distinct_map_filter le_trans [OF length_filter_le])
    ultimately show ?case unfolding 2(3) by (intro issueTokens_ok) simp_all
  qed (use assms in simp)
  show "oauth_ok (fst (exchangeRefreshToken host c tok scopes resource clock acc ref p))"
  proof (rule exchangeRefresh_cases [of host c tok scopes resource clock acc ref p], goal_cases)
    case (2 r)
    from find_token_Some [OF 2(1)] assms have "set (tk_scopes r) \<subseteq> set (og_scopes (pv_config p))"
      by (fastforce simp: oauth_ok_def token_table_ok_def list_all_iff)
    with 2(3) show ?case unfolding 2(4) by (intro issueTokens_ok [OF assms]) (rule subset_trans)
  qed (use assms in simp)
qed

lemma sweep_ok:
  assumes "oauth_ok p"
  shows "oauth_ok (maintenance clock p)" "oauth_ok (revokeToken host tok p)"
proof -
  define p1 where "p1 = purgeExpiredFailures (clock 1) (purgeExpiredCodes (clock 0) p)"
  have "oauth_ok p1" unfolding p1_def by (rule oauth_ok_cong [OF purgeExpiredCodes_ok(1) [OF assms]]) simp_all
  then have "oauth_ok (p1\<lparr>pv_store := deleteExpiredTokens n (pv_store p1)\<rparr>)" for n
    unfolding deleteExpiredTokens_def Let_def by (intro delete_unused_ok) (auto simp: oauth_ok_def intro: token_table_ok_delete)
  then show "oauth_ok (maintenance clock p)" unfolding maintenance_def Let_def p1_def [symmetric] by simp
  show "oauth_ok (revokeToken host tok p)"
    using assms by (auto simp: revokeToken_def Let_def oauth_ok_def delete_token_def intro: token_table_ok_delete)
qed

definition oauth_start :: "oauth_config \<Rightarrow> provider \<Rightarrow> bool" where
  "oauth_start config p \<longleftrightarrow> p = \<lparr>pv_config = config, pv_codes = [], pv_failures = Map.empty, pv_globalFailures = (\<lambda>_. newFailureTracker),
     pv_store = \<lparr>os_clients = [], os_access = [], os_refresh = []\<rparr>\<rparr>"

definition oauth_step :: "oauth_host \<Rightarrow> provider \<Rightarrow> provider \<Rightarrow> bool" where
  "oauth_step host p q \<longleftrightarrow> (\<exists>x. q = fst (oauth_exec host x p))"

interpretation oauth_inv: store_invariant "oauth_start config" "oauth_step host" "\<lambda>p. oauth_ok p \<and> pv_config p = config" for config host
proof
  show "oauth_ok p \<and> pv_config p = config" if "oauth_start config p" for p
    using that by (simp add: oauth_start_def oauth_ok_def token_table_ok_def)
  show "oauth_ok q \<and> pv_config q = config" if ok: "oauth_ok p \<and> pv_config p = config" and st: "oauth_step host p q" for p q
  proof -
    from st obtain x where q: "q = fst (oauth_exec host x p)" by (auto simp: oauth_step_def)
    have "oauth_ok q" using ok unfolding q by (cases x) (simp_all add: exec_exchange registerClient_ok authorize_ok exchange_ok sweep_ok del: oauth_exec.simps(3,4))
    moreover have "pv_config q = pv_config p" unfolding q
    proof (cases x)
      case (ExchangeCode c code redirect resource clock acc ref)
      then show "pv_config (fst (oauth_exec host x p)) = pv_config p"
        by (cases rule: exchangeCode_cases [of host c code redirect resource clock acc ref p]) (simp_all add: exec_exchange del: oauth_exec.simps)
    next
      case (ExchangeRefresh c tok scopes resource clock acc ref)
      then show "pv_config (fst (oauth_exec host x p)) = pv_config p"
        by (cases rule: exchangeRefresh_cases [of host c tok scopes resource clock acc ref p]) (simp_all add: exec_exchange del: oauth_exec.simps)
    qed (simp_all add: maintenance_def revokeToken_def Let_def)
    ultimately show ?thesis using ok by simp
  qed
qed

text \<open>
  In every state the provider can reach, at most 200 clients are registered, at most 501 authorization
  codes are outstanding, every stored token belongs to a registered client and carries only scopes the server
  was configured with, and so does a token that verifies: no sequence of registrations, authorizations,
  exchanges and refreshes widens a scope.
\<close>

theorem oauth_reachable_bounds:
  assumes "reachable (oauth_start config) (oauth_step host) p"
  shows "length (os_clients (pv_store p)) \<le> 200 \<and> length (pv_codes p) \<le> 501
    \<and> (case verifyAccessToken host token now p of
         Inl e \<Rightarrow> True
       | Inr r \<Rightarrow> set (tk_scopes r) \<subseteq> set (og_scopes config) \<and> tk_clientId r \<in> cl_clientId ` set (os_clients (pv_store p)))"
proof -
  from oauth_inv.inv_reachable [OF assms] have ok: "oauth_ok p" "pv_config p = config" by simp_all
  have "set (tk_scopes r) \<subseteq> set (og_scopes config) \<and> tk_clientId r \<in> cl_clientId ` set (os_clients (pv_store p))"
    if "verifyAccessToken host token now p = Inr r" for r
  proof -
    from that have "(oh_hashToken host token, r) \<in> set (os_access (pv_store p))"
      by (auto simp: verifyAccessToken_def split: option.splits if_splits intro: find_token_Some)
    with ok show ?thesis by (fastforce simp: oauth_ok_def token_table_ok_def list_all_iff)
  qed
  with ok show ?thesis by (auto simp: oauth_ok_def MAX_OAUTH_CLIENTS_def MAX_OUTSTANDING_CODES_def split: sum.splits)
qed

definition sample_registration :: oauth_op where
  "sample_registration = Register ''1'' 0 \<lparr>cq_redirectUris = [''c''], cq_authMethod = None, cq_grantTypes = None, cq_responseTypes = None\<rparr>"

theorem oauth_reachable_bounds_witness:
  "let p = fst (oauth_exec sample_host sample_registration sample_provider) in
   length (os_clients (pv_store p)) \<le> 200 \<and> length (pv_codes p) \<le> 501
    \<and> (case verifyAccessToken sample_host ''t'' 0 p of
         Inl e \<Rightarrow> True
       | Inr r \<Rightarrow> set (tk_scopes r) \<subseteq> set (og_scopes (pv_config sample_provider)) \<and> tk_clientId r \<in> cl_clientId ` set (os_clients (pv_store p)))
    \<and> length (os_clients (pv_store p)) = 1"
proof -
  define p where "p = fst (oauth_exec sample_host sample_registration sample_provider)"
  have "reachable (oauth_start (pv_config sample_provider)) (oauth_step sample_host) sample_provider"
    by (rule reachable_start) (simp add: oauth_start_def sample_provider_def)
  then have "reachable (oauth_start (pv_config sample_provider)) (oauth_step sample_host) p"
    by (rule reachable_step) (auto simp: oauth_step_def p_def)
  from oauth_reachable_bounds [OF this, of "''t''" 0] have
    "length (os_clients (pv_store p)) \<le> 200 \<and> length (pv_codes p) \<le> 501
      \<and> (case verifyAccessToken sample_host ''t'' 0 p of
           Inl e \<Rightarrow> True
         | Inr r \<Rightarrow> set (tk_scopes r) \<subseteq> set (og_scopes (pv_config sample_provider)) \<and> tk_clientId r \<in> cl_clientId ` set (os_clients (pv_store p)))" .
  moreover have "length (os_clients (pv_store p)) = 1" unfolding p_def by code_simp
  ultimately show ?thesis unfolding p_def [symmetric] Let_def by blast
qed

end
