(* ===== verification/Agent_Messages.thy ===== *)
theory Agent_Messages
  imports Kontrol_Prelude
begin

text \<open>
  Messages between a worker and its reviewer, their replies and the workers that wait for one:
  src/src/agent-messages.ts.

  \<^item> The three tables are one record; the ids of \<open>work_sessions\<close>, the target of their foreign keys,
    are a fourth part of it that no operation changes.
  \<^item> Clock readings and random ids are arguments, SHA-256 is a parameter. Message data is kept as the
    JSON value that the column stores as text.
  \<^item> Accepting and acknowledging a reply read first and write later. The write is a definition of
    its own, so that another process can be placed between the two.
\<close>

section \<open>State\<close>

datatype agent_message_kind = ClarificationRequest | Blocker | FindingNote | ArtifactNote | PlainNote

datatype agent_message_status = MessageOpen | MessageResolved

datatype agent_reply_status =
    PendingDelivery
  | Dispatching
  | ReconciliationRequired
  | Delivering
  | AwaitingAcknowledgement
  | Acknowledged
  | ReplyBlocked
  | ReplyCancelled

record agent_message =
  mg_id :: string
  mg_workSessionId :: string
  mg_runId :: "string option"
  mg_kind :: agent_message_kind
  mg_author :: string
  mg_title :: "string option"
  mg_body :: "string option"
  mg_data :: json
  mg_replyToId :: "string option"
  mg_status :: agent_message_status
  mg_createdAt :: iso_time
  mg_resolvedAt :: "iso_time option"

record agent_reply =
  re_id :: string
  re_messageId :: string
  re_workSessionId :: string
  re_replyRevision :: nat
  re_body :: string
  re_bodySha256 :: string
  re_reviewerPrincipalId :: string
  re_status :: agent_reply_status
  re_deliveryKey :: "string option"
  re_deliveryRunId :: "string option"
  re_deliveryAttempt :: "int option"
  re_deliveryRemoteRunId :: "string option"
  re_createdAt :: iso_time
  re_acknowledgedAt :: "iso_time option"
  re_acknowledgedRunId :: "string option"
  re_acknowledgedAttempt :: "int option"
  re_acknowledgedActorId :: "string option"

record agent_reply_wait =
  rw_id :: string
  rw_messageId :: string
  rw_workSessionId :: string
  rw_runId :: "string option"
  rw_workerAttempt :: int
  rw_expectsReply :: bool
  rw_resumeOnReply :: bool
  rw_active :: bool
  rw_createdAt :: iso_time
  rw_updatedAt :: iso_time

record message_db =
  md_messages :: "agent_message table"
  md_replies :: "agent_reply table"
  md_waits :: "agent_reply_wait table"
  md_sessions :: "string list"

datatype message_error =
    ConstraintFailed
  | EmptyReply
  | AlreadyReplied
  | MessageNotFound
  | NotReplyable
  | AlreadyResolved
  | ReplyNotFound
  | RevisionConflict
  | AcknowledgedByOther
  | NotAcknowledgeable
  | OtherAttempt
  | OtherRun
  | StaleAttempt
  | AcknowledgeConflict

section \<open>Messages\<close>

record post_input =
  pi_workSessionId :: string
  pi_runId :: "string option"
  pi_kind :: agent_message_kind
  pi_author :: "string option"
  pi_title :: "string option"
  pi_body :: "string option"
  pi_data :: "json option"
  pi_replyToId :: "string option"

definition gating_kind :: "agent_message_kind \<Rightarrow> bool" where
  "gating_kind k \<longleftrightarrow> k = ClarificationRequest \<or> k = Blocker"

definition post :: "post_input \<Rightarrow> string \<Rightarrow> iso_time \<Rightarrow> message_db \<Rightarrow> (message_error + agent_message) \<times> message_db" where
  "post input uuid now db =
     (let m = \<lparr>mg_id = ''msg_'' @ uuid, mg_workSessionId = pi_workSessionId input, mg_runId = pi_runId input, mg_kind = pi_kind input,
               mg_author = coalesce (pi_author input) ''worker'', mg_title = pi_title input, mg_body = pi_body input,
               mg_data = coalesce (pi_data input) (JObj []), mg_replyToId = pi_replyToId input,
               mg_status = (if gating_kind (pi_kind input) then MessageOpen else MessageResolved), mg_createdAt = now,
               mg_resolvedAt = (if gating_kind (pi_kind input) then None else Some now)\<rparr>
      in if mg_id m \<in> mg_id ` set (md_messages db) \<or> mg_workSessionId m \<notin> set (md_sessions db) then (Inl ConstraintFailed, db)
         else (Inr m, db\<lparr>md_messages := md_messages db @ [m]\<rparr>))"

definition get_message :: "string \<Rightarrow> message_db \<Rightarrow> agent_message option" where
  "get_message i db = find (\<lambda>m. mg_id m = i) (md_messages db)"

definition list_messages :: "string \<Rightarrow> agent_message_kind option \<Rightarrow> bool \<Rightarrow> message_db \<Rightarrow> agent_message list" where
  "list_messages sid kind openOnly db =
     order_asc mg_createdAt (filter (\<lambda>m. mg_workSessionId m = sid \<and> (case kind of None \<Rightarrow> True | Some k \<Rightarrow> mg_kind m = k)
       \<and> (openOnly \<longrightarrow> mg_status m = MessageOpen)) (md_messages db))"

definition resolve_where :: "string \<Rightarrow> iso_time \<Rightarrow> message_db \<Rightarrow> message_db" where
  "resolve_where i now db = db\<lparr>md_messages := sql_update (\<lambda>m. mg_id m = i \<and> mg_status m = MessageOpen)
     (\<lambda>m. m\<lparr>mg_status := MessageResolved, mg_resolvedAt := Some now\<rparr>) (md_messages db)\<rparr>"

definition resolve_message :: "string \<Rightarrow> iso_time \<Rightarrow> message_db \<Rightarrow> (agent_message option \<times> bool) \<times> message_db" where
  "resolve_message i now db =
     (let db' = resolve_where i now db
      in ((get_message i db', sql_changes (\<lambda>m. mg_id m = i \<and> mg_status m = MessageOpen) (md_messages db) = 1), db'))"

section \<open>Waiting workers\<close>

definition getActiveWait :: "string \<Rightarrow> message_db \<Rightarrow> agent_reply_wait option" where
  "getActiveWait i db = (case order_asc rw_updatedAt (filter (\<lambda>w. rw_messageId w = i \<and> rw_active w) (md_waits db)) of [] \<Rightarrow> None | w # _ \<Rightarrow> Some w)"

record wait_input =
  wi_messageId :: string
  wi_workSessionId :: string
  wi_runId :: "string option"
  wi_attempt :: int
  wi_expectsReply :: bool
  wi_resumeOnReply :: bool

definition waitForReply :: "wait_input \<Rightarrow> string \<Rightarrow> iso_time \<Rightarrow> message_db \<Rightarrow> (message_error + agent_reply_wait option) \<times> message_db" where
  "waitForReply input uuid now db =
     (case getActiveWait (wi_messageId input) db of
        Some existing \<Rightarrow>
          let db' = db\<lparr>md_waits := sql_update (\<lambda>w. rw_id w = rw_id existing)
                 (\<lambda>w. w\<lparr>rw_runId := or_else (wi_runId input) (rw_runId existing), rw_workerAttempt := wi_attempt input,
                        rw_expectsReply := wi_expectsReply input, rw_resumeOnReply := wi_resumeOnReply input, rw_active := True, rw_updatedAt := now\<rparr>)
                 (md_waits db)\<rparr>
          in (Inr (getActiveWait (wi_messageId input) db'), db')
      | None \<Rightarrow>
          let w = \<lparr>rw_id = ''wait_'' @ uuid, rw_messageId = wi_messageId input, rw_workSessionId = wi_workSessionId input, rw_runId = wi_runId input,
                   rw_workerAttempt = wi_attempt input, rw_expectsReply = wi_expectsReply input, rw_resumeOnReply = wi_resumeOnReply input,
                   rw_active = True, rw_createdAt = now, rw_updatedAt = now\<rparr>;
              db' = db\<lparr>md_waits := md_waits db @ [w]\<rparr>
          in if rw_id w \<in> rw_id ` set (md_waits db) \<or> wi_messageId input \<notin> mg_id ` set (md_messages db) \<or> wi_workSessionId input \<notin> set (md_sessions db)
             then (Inl ConstraintFailed, db) else (Inr (getActiveWait (wi_messageId input) db'), db'))"

definition closeWait :: "string \<Rightarrow> string \<Rightarrow> iso_time \<Rightarrow> message_db \<Rightarrow> message_db" where
  "closeWait i sid now db = db\<lparr>md_waits := sql_update (\<lambda>w. rw_messageId w = i \<and> rw_workSessionId w = sid \<and> rw_active w)
     (\<lambda>w. w\<lparr>rw_active := False, rw_updatedAt := now\<rparr>) (md_waits db)\<rparr>"

section \<open>Replies\<close>

record reply_input =
  ri_messageId :: string
  ri_workSessionId :: string
  ri_body :: string
  ri_reviewerPrincipalId :: string

definition getReply :: "string \<Rightarrow> message_db \<Rightarrow> agent_reply option" where
  "getReply i db = find (\<lambda>r. re_id r = i) (md_replies db)"

definition new_reply :: "(string \<Rightarrow> string) \<Rightarrow> reply_input \<Rightarrow> string \<Rightarrow> iso_time \<Rightarrow> agent_reply" where
  "new_reply sha256 input uuid now =
     \<lparr>re_id = ''reply_'' @ uuid, re_messageId = ri_messageId input, re_workSessionId = ri_workSessionId input, re_replyRevision = 1,
      re_body = ri_body input, re_bodySha256 = sha256 (ri_body input), re_reviewerPrincipalId = ri_reviewerPrincipalId input,
      re_status = PendingDelivery, re_deliveryKey = None, re_deliveryRunId = None, re_deliveryAttempt = None, re_deliveryRemoteRunId = None,
      re_createdAt = now, re_acknowledgedAt = None, re_acknowledgedRunId = None, re_acknowledgedAttempt = None, re_acknowledgedActorId = None\<rparr>"

text \<open>The transaction of \<open>acceptReply\<close>: primary key, the unique index on message and revision, foreign keys.\<close>

definition accept_commit ::
    "(string \<Rightarrow> string) \<Rightarrow> reply_input \<Rightarrow> string \<Rightarrow> iso_time \<Rightarrow> message_db \<Rightarrow> (message_error + agent_reply) \<times> message_db" where
  "accept_commit sha256 input uuid now db =
     (let r = new_reply sha256 input uuid now
      in if re_id r \<in> re_id ` set (md_replies db)
            \<or> (re_messageId r, re_replyRevision r) \<in> (\<lambda>x. (re_messageId x, re_replyRevision x)) ` set (md_replies db)
            \<or> re_messageId r \<notin> mg_id ` set (md_messages db) \<or> re_workSessionId r \<notin> set (md_sessions db)
         then (Inl ConstraintFailed, db)
         else (Inr r, resolve_where (ri_messageId input) now (db\<lparr>md_replies := md_replies db @ [r]\<rparr>)))"

definition acceptReply ::
    "(string \<Rightarrow> string) \<Rightarrow> reply_input \<Rightarrow> string \<Rightarrow> iso_time \<Rightarrow> message_db \<Rightarrow> (message_error + agent_reply \<times> bool) \<times> message_db" where
  "acceptReply sha256 input uuid now db =
     (if trim (ri_body input) = [] then (Inl EmptyReply, db)
      else case filter (\<lambda>r. re_messageId r = ri_messageId input) (md_replies db) of
        prior # _ \<Rightarrow>
          if re_bodySha256 prior = sha256 (ri_body input) \<and> re_reviewerPrincipalId prior = ri_reviewerPrincipalId input
             \<and> re_workSessionId prior = ri_workSessionId input
          then (Inr (prior, False), db) else (Inl AlreadyReplied, db)
      | [] \<Rightarrow>
          (case get_message (ri_messageId input) db of
             None \<Rightarrow> (Inl MessageNotFound, db)
           | Some m \<Rightarrow>
               if mg_workSessionId m \<noteq> ri_workSessionId input then (Inl MessageNotFound, db)
               else if \<not> gating_kind (mg_kind m) then (Inl NotReplyable, db)
               else if mg_status m = MessageResolved then (Inl AlreadyResolved, db)
               else case accept_commit sha256 input uuid now db of
                 (Inl e, db') \<Rightarrow> (Inl e, db')
               | (Inr r, db') \<Rightarrow> (Inr (r, True), db')))"

definition undelivered :: "agent_reply_status \<Rightarrow> bool" where
  "undelivered s \<longleftrightarrow> s \<in> {PendingDelivery, Dispatching, ReconciliationRequired, Delivering, AwaitingAcknowledgement}"

definition listPendingReplies :: "string \<Rightarrow> message_db \<Rightarrow> agent_reply list" where
  "listPendingReplies sid db = order_asc re_createdAt (filter (\<lambda>r. re_workSessionId r = sid \<and> undelivered (re_status r)) (md_replies db))"

definition listReplies :: "string \<Rightarrow> message_db \<Rightarrow> agent_reply list" where
  "listReplies sid db = order_asc re_createdAt (filter (\<lambda>r. re_workSessionId r = sid) (md_replies db))"

record ack_input =
  ai_replyId :: string
  ai_workSessionId :: string
  ai_runId :: string
  ai_attempt :: int
  ai_actorId :: string
  ai_expectedRevision :: "nat option"

text \<open>The compare-and-set of \<open>acknowledgeReply\<close> on the status that was read.\<close>

definition acknowledge_cas :: "agent_reply \<Rightarrow> ack_input \<Rightarrow> iso_time \<Rightarrow> iso_time \<Rightarrow> message_db \<Rightarrow> (message_error + agent_reply \<times> bool) \<times> message_db" where
  "acknowledge_cas existing input now now' db =
     (let sel = (\<lambda>r. re_id r = ai_replyId input \<and> re_status r = re_status existing);
          db1 = db\<lparr>md_replies := sql_update sel (\<lambda>r. r\<lparr>re_status := Acknowledged, re_acknowledgedAt := Some now, re_acknowledgedRunId := Some (ai_runId input),
                  re_acknowledgedAttempt := Some (ai_attempt input), re_acknowledgedActorId := Some (ai_actorId input)\<rparr>) (md_replies db)\<rparr>
      in if sql_changes sel (md_replies db) \<noteq> 1 then (Inl AcknowledgeConflict, db1)
         else let db2 = closeWait (re_messageId existing) (ai_workSessionId input) now' db1
              in (Inr (the (getReply (ai_replyId input) db2), True), db2))"

definition acknowledgeReply :: "ack_input \<Rightarrow> iso_time \<Rightarrow> iso_time \<Rightarrow> message_db \<Rightarrow> (message_error + agent_reply \<times> bool) \<times> message_db" where
  "acknowledgeReply input now now' db =
     (case getReply (ai_replyId input) db of
        None \<Rightarrow> (Inl ReplyNotFound, db)
      | Some existing \<Rightarrow>
          if re_workSessionId existing \<noteq> ai_workSessionId input then (Inl ReplyNotFound, db)
          else if ai_expectedRevision input \<noteq> None \<and> re_replyRevision existing \<noteq> the (ai_expectedRevision input) then (Inl RevisionConflict, db)
          else if re_status existing = Acknowledged then
            (if re_acknowledgedRunId existing = Some (ai_runId input) \<and> re_acknowledgedAttempt existing = Some (ai_attempt input)
             then (Inr (existing, False), db) else (Inl AcknowledgedByOther, db))
          else if \<not> undelivered (re_status existing) then (Inl NotAcknowledgeable, db)
          else if re_deliveryAttempt existing \<noteq> None \<and> re_deliveryAttempt existing \<noteq> Some (ai_attempt input) then (Inl OtherAttempt, db)
          else if re_deliveryRunId existing \<noteq> None \<and> re_deliveryRunId existing \<noteq> Some (ai_runId input) then (Inl OtherRun, db)
          else
            let currentAttempt = (case getActiveWait (re_messageId existing) db of None \<Rightarrow> 1 | Some w \<Rightarrow> rw_workerAttempt w)
            in if ai_attempt input < currentAttempt then (Inl StaleAttempt, db) else acknowledge_cas existing input now now' db)"

definition setReplyDelivery :: "string \<Rightarrow> agent_reply_status \<Rightarrow> agent_reply_status \<Rightarrow> message_db \<Rightarrow> agent_reply option \<times> message_db" where
  "setReplyDelivery i expected nextStatus db =
     (let sel = (\<lambda>r. re_id r = i \<and> re_status r = expected);
          db' = db\<lparr>md_replies := sql_update sel (\<lambda>r. r\<lparr>re_status := nextStatus\<rparr>) (md_replies db)\<rparr>
      in (if sql_changes sel (md_replies db) = 1 then getReply i db' else None, db'))"

record dispatch_input =
  di_replyId :: string
  di_expectedStatus :: agent_reply_status
  di_nextStatus :: agent_reply_status
  di_key :: string
  di_runId :: "string option"
  di_attemptNumber :: "int option"
  di_remoteRunId :: "string option"

definition recordReplyDispatch :: "dispatch_input \<Rightarrow> message_db \<Rightarrow> agent_reply option \<times> message_db" where
  "recordReplyDispatch input db =
     (case getReply (di_replyId input) db of
        None \<Rightarrow> (None, db)
      | Some row \<Rightarrow>
          if truthy (re_deliveryKey row) \<and> re_deliveryKey row \<noteq> Some (di_key input)
             \<or> truthy (di_runId input) \<and> truthy (re_deliveryRunId row) \<and> re_deliveryRunId row \<noteq> di_runId input then (None, db)
          else
            let sel = (\<lambda>r. re_id r = di_replyId input \<and> re_status r = di_expectedStatus input
                        \<and> (re_deliveryKey r = None \<or> re_deliveryKey r = Some (di_key input))
                        \<and> (truthy (di_runId input) \<longrightarrow> re_deliveryRunId r = None \<or> re_deliveryRunId r = di_runId input));
                db' = db\<lparr>md_replies := sql_update sel
                  (\<lambda>r. r\<lparr>re_status := di_nextStatus input, re_deliveryKey := Some (di_key input),
                         re_deliveryRunId := or_else (di_runId input) (re_deliveryRunId r),
                         re_deliveryAttempt := or_else (di_attemptNumber input) (re_deliveryAttempt r),
                         re_deliveryRemoteRunId := or_else (di_remoteRunId input) (re_deliveryRemoteRunId r)\<rparr>) (md_replies db)\<rparr>
            in (if sql_changes sel (md_replies db) = 1 then getReply (di_replyId input) db' else None, db'))"

section \<open>Steps\<close>

text \<open>
  The steps of all processes on the tables. \<open>accept_commit\<close> and \<open>acknowledge_cas\<close> stand for the writes of
  a caller that read an earlier state: only what that read fixed is required of their arguments. The
  reply dispatcher gives up on an acknowledged reply before it calls \<open>setReplyDelivery\<close> or
  \<open>recordReplyDispatch\<close> and never asks for the acknowledged status.
\<close>

inductive message_step :: "(string \<Rightarrow> string) \<Rightarrow> message_db \<Rightarrow> message_db \<Rightarrow> bool" for sha256 where
  step_post: "message_step sha256 db (snd (post input uuid now db))"
| step_resolve: "message_step sha256 db (snd (resolve_message i now db))"
| step_accept: "message_step sha256 db (snd (accept_commit sha256 input uuid now db))"
| step_acknowledge: "undelivered (re_status existing) \<Longrightarrow> message_step sha256 db (snd (acknowledge_cas existing input now now' db))"
| step_delivery: "expected \<noteq> Acknowledged \<Longrightarrow> nextStatus \<noteq> Acknowledged \<Longrightarrow> message_step sha256 db (snd (setReplyDelivery i expected nextStatus db))"
| step_dispatch: "di_expectedStatus input' \<noteq> Acknowledged \<Longrightarrow> di_nextStatus input' \<noteq> Acknowledged \<Longrightarrow>
    message_step sha256 db (snd (recordReplyDispatch input' db))"
| step_wait: "message_step sha256 db (snd (waitForReply input'' uuid now db))"
| step_close: "message_step sha256 db (closeWait i sid now db)"

inductive_cases message_stepE: "message_step sha256 db db'"

lemma acceptReply_steps: "(message_step sha256)\<^sup>*\<^sup>* db (snd (acceptReply sha256 input uuid now db))"
proof -
  have "snd (acceptReply sha256 input uuid now db) = db \<or> snd (acceptReply sha256 input uuid now db) = snd (accept_commit sha256 input uuid now db)"
    by (auto simp: acceptReply_def Let_def split: list.splits option.splits prod.splits sum.splits)
  then show ?thesis by (metis r_into_rtranclp rtranclp.rtrancl_refl step_accept)
qed

lemma acknowledgeReply_cases:
  obtains (kept) "snd (acknowledgeReply input now now' db) = db" "fst (acknowledgeReply input now now' db) \<notin> range (\<lambda>r. Inr (r, True))"
  | (cas) existing where "getReply (ai_replyId input) db = Some existing" "undelivered (re_status existing)"
      "re_workSessionId existing = ai_workSessionId input"
      "re_deliveryAttempt existing = None \<or> re_deliveryAttempt existing = Some (ai_attempt input)"
      "acknowledgeReply input now now' db = acknowledge_cas existing input now now' db"
proof (cases "getReply (ai_replyId input) db")
  case None
  then show thesis using kept by (simp add: acknowledgeReply_def image_iff)
next
  case (Some existing)
  have "acknowledgeReply input now now' db = acknowledge_cas existing input now now' db
      \<and> undelivered (re_status existing) \<and> re_workSessionId existing = ai_workSessionId input
      \<and> (re_deliveryAttempt existing = None \<or> re_deliveryAttempt existing = Some (ai_attempt input))
    \<or> snd (acknowledgeReply input now now' db) = db \<and> fst (acknowledgeReply input now now' db) \<notin> range (\<lambda>r. Inr (r, True))"
    unfolding acknowledgeReply_def Some option.case by (auto simp: Let_def)
  with Some kept cas show thesis by blast
qed

lemma acknowledgeReply_steps: "(message_step sha256)\<^sup>*\<^sup>* db (snd (acknowledgeReply input now now' db))"
  by (rule acknowledgeReply_cases [of input now now' db]) (auto intro: step_acknowledge)

subsection \<open>What happens to a reply\<close>

definition reply_after :: "agent_reply \<Rightarrow> agent_reply \<Rightarrow> bool" where
  "reply_after r r' \<longleftrightarrow> re_id r' = re_id r \<and> re_messageId r' = re_messageId r \<and> re_workSessionId r' = re_workSessionId r
     \<and> re_replyRevision r' = re_replyRevision r \<and> re_body r' = re_body r \<and> re_bodySha256 r' = re_bodySha256 r
     \<and> re_reviewerPrincipalId r' = re_reviewerPrincipalId r \<and> re_createdAt r' = re_createdAt r
     \<and> (re_deliveryKey r \<noteq> None \<longrightarrow> re_deliveryKey r' = re_deliveryKey r)
     \<and> (re_status r = Acknowledged \<longrightarrow> re_status r' = Acknowledged \<and> re_acknowledgedRunId r' = re_acknowledgedRunId r
         \<and> re_acknowledgedAttempt r' = re_acknowledgedAttempt r \<and> re_acknowledgedActorId r' = re_acknowledgedActorId r)"

lemma reply_after_refl [simp]: "reply_after r r"
  by (simp add: reply_after_def)

lemma reply_after_trans: "reply_after r r' \<Longrightarrow> reply_after r' r'' \<Longrightarrow> reply_after r r''"
  by (auto simp: reply_after_def)

text \<open>Every step maps the old replies in place and appends at most one.\<close>

lemma step_replies:
  assumes "message_step sha256 db db'"
  shows "\<exists>f new. md_replies db' = map f (md_replies db) @ new \<and> (\<forall>r. reply_after r (f r))
    \<and> (new \<noteq> [] \<longrightarrow> (\<exists>input uuid now. db' = snd (accept_commit sha256 input uuid now db) \<and> new = [new_reply sha256 input uuid now]))"
  using assms
proof cases
  case (step_post input uuid now)
  then show ?thesis by (intro exI [of _ id] exI [of _ "[]"]) (simp add: post_def Let_def)
next
  case (step_resolve i now)
  then show ?thesis by (intro exI [of _ id] exI [of _ "[]"]) (simp add: resolve_message_def resolve_where_def Let_def)
next
  case (step_accept input uuid now)
  show ?thesis
  proof (cases "fst (accept_commit sha256 input uuid now db)")
    case (Inl e)
    then have "md_replies db' = md_replies db" using step_accept by (auto simp: accept_commit_def Let_def split: if_splits)
    then show ?thesis by (intro exI [of _ id] exI [of _ "[]"]) simp
  next
    case (Inr r)
    then have "md_replies db' = md_replies db @ [new_reply sha256 input uuid now]"
      using step_accept by (auto simp: accept_commit_def Let_def resolve_where_def split: if_splits)
    with step_accept show ?thesis by (intro exI [of _ id] exI [of _ "[new_reply sha256 input uuid now]"]) auto
  qed
next
  case (step_acknowledge existing input now now')
  let ?sel = "\<lambda>r. re_id r = ai_replyId input \<and> re_status r = re_status existing"
  let ?f = "\<lambda>r. if ?sel r then r\<lparr>re_status := Acknowledged, re_acknowledgedAt := Some now, re_acknowledgedRunId := Some (ai_runId input),
      re_acknowledgedAttempt := Some (ai_attempt input), re_acknowledgedActorId := Some (ai_actorId input)\<rparr> else r"
  have "md_replies db' = map ?f (md_replies db)"
    using step_acknowledge by (simp add: acknowledge_cas_def Let_def closeWait_def sql_update_def)
  moreover have "reply_after r (?f r)" for r using step_acknowledge(2) by (auto simp: reply_after_def undelivered_def)
  ultimately show ?thesis by (intro exI [of _ ?f] exI [of _ "[]"]) simp
next
  case (step_delivery expected nextStatus i)
  let ?f = "\<lambda>r. if re_id r = i \<and> re_status r = expected then r\<lparr>re_status := nextStatus\<rparr> else r"
  have "md_replies db' = map ?f (md_replies db)" using step_delivery by (simp add: setReplyDelivery_def Let_def sql_update_def)
  moreover have "reply_after r (?f r)" for r using step_delivery by (auto simp: reply_after_def)
  ultimately show ?thesis by (intro exI [of _ ?f] exI [of _ "[]"]) simp
next
  case (step_dispatch input)
  let ?sel = "\<lambda>r. re_id r = di_replyId input \<and> re_status r = di_expectedStatus input \<and> (re_deliveryKey r = None \<or> re_deliveryKey r = Some (di_key input))
      \<and> (truthy (di_runId input) \<longrightarrow> re_deliveryRunId r = None \<or> re_deliveryRunId r = di_runId input)"
  let ?f = "\<lambda>r. if ?sel r then r\<lparr>re_status := di_nextStatus input, re_deliveryKey := Some (di_key input),
      re_deliveryRunId := or_else (di_runId input) (re_deliveryRunId r), re_deliveryAttempt := or_else (di_attemptNumber input) (re_deliveryAttempt r),
      re_deliveryRemoteRunId := or_else (di_remoteRunId input) (re_deliveryRemoteRunId r)\<rparr> else r"
  have "md_replies db' = map id (md_replies db) \<or> md_replies db' = map ?f (md_replies db)"
    using step_dispatch by (auto simp: recordReplyDispatch_def Let_def sql_update_def split: option.splits if_splits)
  then show ?thesis
  proof
    assume "md_replies db' = map id (md_replies db)"
    then show ?thesis by (intro exI [of _ id] exI [of _ "[]"]) simp
  next
    assume "md_replies db' = map ?f (md_replies db)"
    moreover have "reply_after r (?f r)" for r using step_dispatch by (auto simp: reply_after_def)
    ultimately show ?thesis by (intro exI [of _ ?f] exI [of _ "[]"]) simp
  qed
next
  case (step_wait input uuid now)
  then show ?thesis by (intro exI [of _ id] exI [of _ "[]"]) (simp add: waitForReply_def Let_def split: option.splits)
next
  case (step_close i sid now)
  then show ?thesis by (intro exI [of _ id] exI [of _ "[]"]) (simp add: closeWait_def)
qed

lemma run_replies:
  assumes "(message_step sha256)\<^sup>*\<^sup>* db db'" "r \<in> set (md_replies db)"
  shows "\<exists>r' \<in> set (md_replies db'). reply_after r r'"
  using assms
proof (induction rule: rtranclp_induct)
  case base
  then show ?case by (intro bexI [of _ r]) simp_all
next
  case (step y z)
  then obtain r1 where r1: "r1 \<in> set (md_replies y)" "reply_after r r1" by blast
  from step_replies [OF step(2)] obtain f new where "md_replies z = map f (md_replies y) @ new" "reply_after r1 (f r1)" by blast
  with r1 show ?case by (intro bexI [of _ "f r1"]) (auto intro: reply_after_trans)
qed

subsection \<open>The invariant\<close>

definition message_after :: "agent_message \<Rightarrow> agent_message \<Rightarrow> bool" where
  "message_after m m' \<longleftrightarrow> mg_id m' = mg_id m \<and> mg_kind m' = mg_kind m \<and> (mg_status m = MessageResolved \<longrightarrow> mg_status m' = MessageResolved)"

definition message_ok :: "message_db \<Rightarrow> bool" where
  "message_ok db \<longleftrightarrow> distinct (map mg_id (md_messages db)) \<and> distinct (map re_id (md_replies db)) \<and> distinct (map re_messageId (md_replies db))
     \<and> (\<forall>r \<in> set (md_replies db). re_replyRevision r = 1 \<and> (\<exists>m \<in> set (md_messages db). mg_id m = re_messageId r \<and> mg_status m = MessageResolved))
     \<and> distinct (map rw_id (md_waits db)) \<and> distinct (map rw_messageId (filter rw_active (md_waits db)))"

lemma step_messages:
  assumes "message_step sha256 db db'"
  shows "\<exists>f new. md_messages db' = map f (md_messages db) @ new \<and> (\<forall>m. message_after m (f m))
    \<and> (new = [] \<or> (\<exists>m. new = [m] \<and> mg_id m \<notin> mg_id ` set (md_messages db)))"
  using assms
proof cases
  case (step_post input uuid now)
  then show ?thesis by (intro exI [of _ id]) (simp add: post_def Let_def message_after_def)
next
  case (step_resolve i now)
  then show ?thesis
    by (intro exI [of _ "\<lambda>m. if mg_id m = i \<and> mg_status m = MessageOpen then m\<lparr>mg_status := MessageResolved, mg_resolvedAt := Some now\<rparr> else m"] exI [of _ "[]"])
      (simp add: resolve_message_def resolve_where_def Let_def sql_update_def message_after_def)
next
  case (step_accept input uuid now)
  show ?thesis
  proof (cases "fst (accept_commit sha256 input uuid now db)")
    case (Inl e)
    then have "md_messages db' = md_messages db" using step_accept by (auto simp: accept_commit_def Let_def split: if_splits)
    then show ?thesis by (intro exI [of _ id] exI [of _ "[]"]) (simp add: message_after_def)
  next
    case (Inr r)
    then have "md_messages db' = md_messages (resolve_where (ri_messageId input) now db)"
      using step_accept by (auto simp: accept_commit_def Let_def resolve_where_def split: if_splits)
    then show ?thesis
      by (intro exI [of _ "\<lambda>m. if mg_id m = ri_messageId input \<and> mg_status m = MessageOpen then m\<lparr>mg_status := MessageResolved, mg_resolvedAt := Some now\<rparr> else m"] exI [of _ "[]"])
        (simp add: resolve_where_def sql_update_def message_after_def)
  qed
qed (intro exI [of _ id] exI [of _ "[]"], simp add: message_after_def acknowledge_cas_def setReplyDelivery_def recordReplyDispatch_def waitForReply_def closeWait_def
    Let_def split: option.splits)+

lemma getActiveWait_alt:
  obtains ws where "set ws = {w \<in> set (md_waits db). rw_messageId w = i \<and> rw_active w}"
    "getActiveWait i db = (case ws of [] \<Rightarrow> None | w # _ \<Rightarrow> Some w)"
proof -
  show thesis by (rule that [of "order_asc rw_updatedAt (filter (\<lambda>w. rw_messageId w = i \<and> rw_active w) (md_waits db))"])
    (auto simp: getActiveWait_def order_asc_def)
qed

lemma getActiveWait_None: "getActiveWait i db = None \<longleftrightarrow> (\<forall>w \<in> set (md_waits db). rw_messageId w = i \<longrightarrow> \<not> rw_active w)"
proof (rule getActiveWait_alt [of db i])
  fix ws
  assume "set ws = {w \<in> set (md_waits db). rw_messageId w = i \<and> rw_active w}" "getActiveWait i db = (case ws of [] \<Rightarrow> None | w # _ \<Rightarrow> Some w)"
  then show ?thesis by (cases ws) auto
qed

lemma getActiveWait_Some:
  assumes "getActiveWait i db = Some w"
  shows "w \<in> set (md_waits db) \<and> rw_messageId w = i \<and> rw_active w"
proof (rule getActiveWait_alt [of db i])
  fix ws
  assume "set ws = {w \<in> set (md_waits db). rw_messageId w = i \<and> rw_active w}" "getActiveWait i db = (case ws of [] \<Rightarrow> None | w # _ \<Rightarrow> Some w)"
  with assms show ?thesis by (cases ws) auto
qed

definition waits_ok :: "agent_reply_wait list \<Rightarrow> bool" where
  "waits_ok ws \<longleftrightarrow> distinct (map rw_id ws) \<and> distinct (map rw_messageId (filter rw_active ws))"

lemma waits_ok_map:
  assumes "waits_ok ws" "\<And>w. w \<in> set ws \<Longrightarrow> rw_id (f w) = rw_id w \<and> rw_messageId (f w) = rw_messageId w \<and> (rw_active (f w) \<longrightarrow> rw_active w)"
  shows "waits_ok (map f ws)"
proof -
  have ids: "map rw_id (map f ws) = map rw_id ws" using assms(2) by simp
  have act: "map rw_messageId (filter rw_active (map f ws)) = map rw_messageId (filter (\<lambda>w. rw_active (f w)) (filter rw_active ws))"
    using assms(2) by (induction ws) auto
  show ?thesis using assms(1) unfolding waits_ok_def ids act by (blast intro: distinct_map_filter)
qed

lemma step_waits:
  assumes "message_step sha256 db db'" "waits_ok (md_waits db)"
  shows "waits_ok (md_waits db')"
proof -
  have close: "waits_ok (sql_update (\<lambda>w. rw_messageId w = i \<and> rw_workSessionId w = sid \<and> rw_active w) (\<lambda>w. w\<lparr>rw_active := False, rw_updatedAt := now\<rparr>) (md_waits db))" for i sid now
    unfolding sql_update_def by (rule waits_ok_map [OF assms(2)]) simp
  from assms(1) show ?thesis
  proof cases
    case (step_wait input uuid now)
    show ?thesis
    proof (cases "getActiveWait (wi_messageId input) db")
      case None
      with step_wait assms(2) have "md_waits db' = md_waits db \<or> (\<exists>w. md_waits db' = md_waits db @ [w] \<and> rw_id w \<notin> rw_id ` set (md_waits db) \<and> rw_messageId w = wi_messageId input)"
        by (auto simp: waitForReply_def Let_def)
      then show ?thesis using assms(2) iffD1 [OF getActiveWait_None None] by (auto simp: waits_ok_def)
    next
      case (Some w)
      have "rw_active v" if "v \<in> set (md_waits db)" "rw_id v = rw_id w" for v
        using that getActiveWait_Some [OF Some] assms(2) by (auto simp: waits_ok_def distinct_map dest: inj_onD)
      then show ?thesis using step_wait Some getActiveWait_Some [OF Some]
        by (auto simp: waitForReply_def Let_def sql_update_def split: if_splits intro!: waits_ok_map [OF assms(2)])
    qed
  qed (use assms(2) close in \<open>auto simp: post_def resolve_message_def resolve_where_def accept_commit_def acknowledge_cas_def setReplyDelivery_def
      recordReplyDispatch_def closeWait_def Let_def split: option.splits\<close>)
qed

lemma step_ok:
  assumes "message_ok db" "message_step sha256 db db'"
  shows "message_ok db'"
proof -
  from step_messages [OF assms(2)] obtain f new where m: "md_messages db' = map f (md_messages db) @ new" "\<And>m. message_after m (f m)"
      "new = [] \<or> (\<exists>m. new = [m] \<and> mg_id m \<notin> mg_id ` set (md_messages db))" by blast
  from step_replies [OF assms(2)] obtain g fresh where r: "md_replies db' = map g (md_replies db) @ fresh" "\<And>r. reply_after r (g r)"
      "fresh \<noteq> [] \<longrightarrow> (\<exists>input uuid now. db' = snd (accept_commit sha256 input uuid now db) \<and> fresh = [new_reply sha256 input uuid now])" by blast
  have mids: "map mg_id (md_messages db') = map mg_id (md_messages db) @ map mg_id new" using m(1,2) by (simp add: message_after_def)
  have rids: "map re_id (md_replies db') = map re_id (md_replies db) @ map re_id fresh"
      "map re_messageId (md_replies db') = map re_messageId (md_replies db) @ map re_messageId fresh"
    using r(1,2) by (simp_all add: reply_after_def)
  have old: "re_replyRevision (g x) = 1 \<and> (\<exists>m \<in> set (md_messages db'). mg_id m = re_messageId (g x) \<and> mg_status m = MessageResolved)" if "x \<in> set (md_replies db)" for x
  proof -
    from assms(1) that obtain y where y: "y \<in> set (md_messages db)" "mg_id y = re_messageId x" "mg_status y = MessageResolved" "re_replyRevision x = 1"
      by (auto simp: message_ok_def)
    with m(1,2) r(2) [of x] have "f y \<in> set (md_messages db')" "mg_id (f y) = re_messageId (g x)" "mg_status (f y) = MessageResolved"
      by (auto simp: message_after_def reply_after_def)
    with y(4) r(2) [of x] show ?thesis by (auto simp: reply_after_def)
  qed
  have new: "distinct (map re_id (md_replies db')) \<and> distinct (map re_messageId (md_replies db')) \<and>
      (\<forall>x \<in> set fresh. re_replyRevision x = 1 \<and> (\<exists>m \<in> set (md_messages db'). mg_id m = re_messageId x \<and> mg_status m = MessageResolved))"
  proof (cases fresh)
    case Nil
    then show ?thesis using assms(1) unfolding rids by (simp add: message_ok_def)
  next
    case (Cons a l)
    with r(3) obtain input uuid now where acc: "db' = snd (accept_commit sha256 input uuid now db)" and fr: "fresh = [new_reply sha256 input uuid now]" by blast
    have ne: "db' \<noteq> db" using r(1) fr arg_cong [of _ _ "\<lambda>d. length (md_replies d)"] by fastforce
    have commit: "re_id (new_reply sha256 input uuid now) \<notin> re_id ` set (md_replies db)"
        "(ri_messageId input, 1) \<notin> (\<lambda>x. (re_messageId x, re_replyRevision x)) ` set (md_replies db)" "ri_messageId input \<in> mg_id ` set (md_messages db)"
        "md_messages db' = md_messages (resolve_where (ri_messageId input) now db)"
      using ne unfolding acc by (auto simp: accept_commit_def Let_def new_reply_def resolve_where_def split: if_splits)
    have "ri_messageId input \<notin> re_messageId ` set (md_replies db)" using commit(2) assms(1) by (force simp: message_ok_def)
    moreover from commit(3) obtain y where "y \<in> set (md_messages db)" "mg_id y = ri_messageId input" by auto
    then have "\<exists>m \<in> set (md_messages db'). mg_id m = ri_messageId input \<and> mg_status m = MessageResolved"
      unfolding commit(4) resolve_where_def sql_update_def
      by (intro bexI [of _ "if mg_id y = ri_messageId input \<and> mg_status y = MessageOpen then y\<lparr>mg_status := MessageResolved, mg_resolvedAt := Some now\<rparr> else y"])
        (cases "mg_status y"; auto)+
    ultimately show ?thesis using commit(1) assms(1) unfolding rids fr by (simp add: message_ok_def new_reply_def)
  qed
  have "distinct (map mg_id (md_messages db'))" using m(3) assms(1) unfolding mids by (auto simp: message_ok_def image_iff)
  moreover have "waits_ok (md_waits db')" by (rule step_waits [OF assms(2)]) (use assms(1) in \<open>simp add: message_ok_def waits_ok_def\<close>)
  ultimately show ?thesis using new old r(1) by (auto simp: message_ok_def waits_ok_def)
qed

definition message_start :: "message_db \<Rightarrow> bool" where
  "message_start db \<longleftrightarrow> md_messages db = [] \<and> md_replies db = [] \<and> md_waits db = []"

interpretation message_inv: store_invariant message_start "message_step sha256" message_ok for sha256
proof
  show "message_ok db" if "message_start db" for db using that by (simp add: message_start_def message_ok_def)
  show "message_ok db'" if "message_ok db" "message_step sha256 db db'" for db db' using that by (rule step_ok)
qed

lemma getReply_unique:
  assumes "distinct (map re_id (md_replies db))" "r \<in> set (md_replies db)"
  shows "getReply (re_id r) db = Some r"
proof -
  have "distinct (map re_id rs) \<Longrightarrow> r \<in> set rs \<Longrightarrow> find (\<lambda>x. re_id x = re_id r) rs = Some r" for rs
    by (induction rs) auto
  with assms show ?thesis by (simp add: getReply_def)
qed

lemma getReply_mem: "getReply i db = Some r \<Longrightarrow> r \<in> set (md_replies db) \<and> re_id r = i"
  unfolding getReply_def by (metis (mono_tags, lifting) find_Some_iff nth_mem)


definition demo_posted :: message_db where
  "demo_posted = snd (post \<lparr>pi_workSessionId = ''s'', pi_runId = None, pi_kind = Blocker, pi_author = None, pi_title = None, pi_body = None, pi_data = None,
     pi_replyToId = None\<rparr> ''1'' 10 \<lparr>md_messages = [], md_replies = [], md_waits = [], md_sessions = [''s'']\<rparr>)"

definition demo_waiting :: message_db where
  "demo_waiting = snd (waitForReply \<lparr>wi_messageId = ''msg_1'', wi_workSessionId = ''s'', wi_runId = Some ''run'', wi_attempt = 2, wi_expectsReply = True,
     wi_resumeOnReply = True\<rparr> ''1'' 11 demo_posted)"

definition demo_replied :: message_db where
  "demo_replied = snd (accept_commit id \<lparr>ri_messageId = ''msg_1'', ri_workSessionId = ''s'', ri_body = ''yes'', ri_reviewerPrincipalId = ''p''\<rparr> ''1'' 12 demo_waiting)"

definition demo_ack :: ack_input where
  "demo_ack = \<lparr>ai_replyId = ''reply_1'', ai_workSessionId = ''s'', ai_runId = ''run'', ai_attempt = 2, ai_actorId = ''a'', ai_expectedRevision = None\<rparr>"

lemma demo_replied_reachable: "reachable message_start (message_step id) demo_replied"
proof -
  let ?empty = "\<lparr>md_messages = [], md_replies = [], md_waits = [], md_sessions = [''s'']\<rparr>"
  have start: "reachable message_start (message_step id) ?empty" by (rule reachable_start) (simp add: message_start_def)
  have "message_step id ?empty demo_posted" unfolding demo_posted_def by (rule step_post)
  with start have posted: "reachable message_start (message_step id) demo_posted" by (rule reachable_step)
  have "message_step id demo_posted demo_waiting" unfolding demo_waiting_def by (rule step_wait)
  with posted have waiting: "reachable message_start (message_step id) demo_waiting" by (rule reachable_step)
  have "message_step id demo_waiting demo_replied" unfolding demo_replied_def by (rule step_accept)
  with waiting show ?thesis by (rule reachable_step)
qed


text \<open>
  What a reply records is final. Whatever steps follow, an accepted reply keeps its text, author, message and session; the dispatch key once recorded for it never
  changes, so a retry is always recognised as the same dispatch; and an acknowledgement stays with
  the run, attempt and actor that gave it.
\<close>

theorem reply_record_final:
  assumes "r \<in> set (md_replies db)" "(message_step sha256)\<^sup>*\<^sup>* db db'"
  shows "\<exists>r' \<in> set (md_replies db'). re_id r' = re_id r \<and> re_messageId r' = re_messageId r \<and> re_workSessionId r' = re_workSessionId r
    \<and> re_body r' = re_body r \<and> re_reviewerPrincipalId r' = re_reviewerPrincipalId r
    \<and> (re_deliveryKey r = None \<or> re_deliveryKey r' = re_deliveryKey r)
    \<and> (re_status r \<noteq> Acknowledged \<or> re_status r' = Acknowledged \<and> re_acknowledgedRunId r' = re_acknowledgedRunId r
        \<and> re_acknowledgedAttempt r' = re_acknowledgedAttempt r \<and> re_acknowledgedActorId r' = re_acknowledgedActorId r)"
proof -
  from run_replies [OF assms(2,1)] obtain r' where "r' \<in> set (md_replies db')" "reply_after r r'" by blast
  then show ?thesis by (intro bexI [of _ r']) (auto simp: reply_after_def)
qed

definition demo_reply :: agent_reply where
  "demo_reply = new_reply id \<lparr>ri_messageId = ''msg_1'', ri_workSessionId = ''s'', ri_body = ''yes'', ri_reviewerPrincipalId = ''p''\<rparr> ''1'' 12"

theorem reply_record_final_witness:
  "\<exists>r' \<in> set (md_replies (snd (acknowledge_cas demo_reply demo_ack 13 14 demo_replied))). re_id r' = re_id demo_reply
    \<and> re_messageId r' = re_messageId demo_reply \<and> re_workSessionId r' = re_workSessionId demo_reply
    \<and> re_body r' = re_body demo_reply \<and> re_reviewerPrincipalId r' = re_reviewerPrincipalId demo_reply
    \<and> (re_deliveryKey demo_reply = None \<or> re_deliveryKey r' = re_deliveryKey demo_reply)
    \<and> (re_status demo_reply \<noteq> Acknowledged \<or> re_status r' = Acknowledged \<and> re_acknowledgedRunId r' = re_acknowledgedRunId demo_reply
        \<and> re_acknowledgedAttempt r' = re_acknowledgedAttempt demo_reply \<and> re_acknowledgedActorId r' = re_acknowledgedActorId demo_reply)"
proof (rule reply_record_final)
  have "md_replies demo_replied = [demo_reply]" by code_simp
  then show "demo_reply \<in> set (md_replies demo_replied)" by simp
  have "undelivered (re_status demo_reply)" by code_simp
  then show "(message_step id)\<^sup>*\<^sup>* demo_replied (snd (acknowledge_cas demo_reply demo_ack 13 14 demo_replied))"
    by (intro r_into_rtranclp step_acknowledge)
qed

lemma acknowledge_applied:
  assumes "message_ok db" "acknowledgeReply input now now' db = (Inr (r, True), db1)"
  shows "r \<in> set (md_replies db1)" "re_id r = ai_replyId input" "re_status r = Acknowledged" "re_acknowledgedRunId r = Some (ai_runId input)"
    "re_acknowledgedAttempt r = Some (ai_attempt input)" "re_workSessionId r = ai_workSessionId input" "message_ok db1"
proof -
  from assms(2) obtain existing where e: "getReply (ai_replyId input) db = Some existing" "undelivered (re_status existing)"
      "re_workSessionId existing = ai_workSessionId input" "acknowledge_cas existing input now now' db = (Inr (r, True), db1)"
    by (cases rule: acknowledgeReply_cases [of input now now' db]) (auto simp: image_iff)
  show "message_ok db1"
    using step_ok [OF assms(1) step_acknowledge [OF e(2), of "\<lambda>x. x" db input now now']] e(4) by simp
  define q where "q = existing\<lparr>re_status := Acknowledged, re_acknowledgedAt := Some now, re_acknowledgedRunId := Some (ai_runId input),
      re_acknowledgedAttempt := Some (ai_attempt input), re_acknowledgedActorId := Some (ai_actorId input)\<rparr>"
  from getReply_mem [OF e(1)] have ex: "existing \<in> set (md_replies db)" "re_id existing = ai_replyId input" by simp_all
  have "md_replies db1 = sql_update (\<lambda>r. re_id r = ai_replyId input \<and> re_status r = re_status existing) (\<lambda>r. r\<lparr>re_status := Acknowledged,
      re_acknowledgedAt := Some now, re_acknowledgedRunId := Some (ai_runId input), re_acknowledgedAttempt := Some (ai_attempt input),
      re_acknowledgedActorId := Some (ai_actorId input)\<rparr>) (md_replies db)"
    using e(4) by (auto simp: acknowledge_cas_def Let_def closeWait_def split: if_splits)
  then have mem: "q \<in> set (md_replies db1)" using ex by (auto simp: q_def set_sql_update)
  have "getReply (re_id q) db1 = Some q" by (rule getReply_unique [OF _ mem]) (use \<open>message_ok db1\<close> in \<open>simp add: message_ok_def\<close>)
  moreover have "r = the (getReply (ai_replyId input) db1)" using e(4) by (auto simp: acknowledge_cas_def Let_def split: if_splits)
  ultimately have "r = q" using ex by (simp add: q_def)
  with mem show "r \<in> set (md_replies db1)" "re_id r = ai_replyId input" "re_status r = Acknowledged" "re_acknowledgedRunId r = Some (ai_runId input)"
    "re_acknowledgedAttempt r = Some (ai_attempt input)" "re_workSessionId r = ai_workSessionId input" using ex e(3) by (simp_all add: q_def)
qed

text \<open>
  After an acknowledgement succeeded, at any later time the same run and attempt may repeat it and
  is told that nothing new was recorded, every other run or attempt of the session is refused, and a
  process that read the reply before the acknowledgement and writes only now loses the race; none of
  them changes the tables.
\<close>

theorem acknowledged_exactly_once:
  assumes "reachable message_start (message_step sha256) db" "acknowledgeReply input now now' db = (Inr (r, True), db1)"
    "(message_step sha256)\<^sup>*\<^sup>* db1 db2" "ai_replyId input2 = ai_replyId input" "ai_workSessionId input2 = ai_workSessionId input"
    "ai_expectedRevision input2 \<in> {None, Some 1}" "undelivered (re_status stale)"
  shows "acknowledge_cas stale input2 t t' db2 = (Inl AcknowledgeConflict, db2)
    \<and> (if ai_runId input2 = ai_runId input \<and> ai_attempt input2 = ai_attempt input
       then \<exists>r2. acknowledgeReply input2 t t' db2 = (Inr (r2, False), db2) \<and> re_body r2 = re_body r
       else acknowledgeReply input2 t t' db2 = (Inl AcknowledgedByOther, db2))"
proof -
  note ack = acknowledge_applied [OF message_inv.inv_reachable [OF assms(1)] assms(2)]
  from run_replies [OF assms(3) ack(1)] obtain r2 where r2: "r2 \<in> set (md_replies db2)" "reply_after r r2" by blast
  from assms(3) ack(7) have ok: "message_ok db2" by (induction rule: rtranclp_induct) (auto intro: step_ok)
  have get: "getReply (ai_replyId input2) db2 = Some r2"
    using getReply_unique [OF _ r2(1)] ok r2(2) ack(2) assms(4) by (simp add: message_ok_def reply_after_def)
  have rev: "re_replyRevision r2 = 1" using ok r2(1) by (simp add: message_ok_def)
  have none: "sql_changes (\<lambda>x. re_id x = ai_replyId input2 \<and> re_status x = re_status stale) (md_replies db2) = 0"
      "sql_update (\<lambda>x. re_id x = ai_replyId input2 \<and> re_status x = re_status stale) g (md_replies db2) = md_replies db2" for g
  proof -
    have "\<not> (re_id x = ai_replyId input2 \<and> re_status x = re_status stale)" if "x \<in> set (md_replies db2)" for x
      using getReply_unique [OF _ that] ok get assms(7) r2(2) ack(3) by (auto simp: message_ok_def reply_after_def undelivered_def)
    then show "sql_changes (\<lambda>x. re_id x = ai_replyId input2 \<and> re_status x = re_status stale) (md_replies db2) = 0"
      "sql_update (\<lambda>x. re_id x = ai_replyId input2 \<and> re_status x = re_status stale) g (md_replies db2) = md_replies db2"
      by (auto simp: sql_changes_def sql_update_def intro!: map_idI)
  qed
  have "acknowledge_cas stale input2 t t' db2 = (Inl AcknowledgeConflict, db2)" by (simp add: acknowledge_cas_def none)
  moreover have "acknowledgeReply input2 t t' db2 = (if ai_runId input2 = ai_runId input \<and> ai_attempt input2 = ai_attempt input
      then (Inr (r2, False), db2) else (Inl AcknowledgedByOther, db2))"
    using r2(2) ack(3-6) assms(5,6) rev unfolding acknowledgeReply_def get by (auto simp: reply_after_def)
  ultimately show ?thesis using r2(2) by (simp add: reply_after_def)
qed

definition demo_acknowledged :: "(message_error + agent_reply \<times> bool) \<times> message_db" where
  "demo_acknowledged = acknowledgeReply demo_ack 13 14 demo_replied"

theorem acknowledged_exactly_once_witness:
  "acknowledge_cas demo_reply (demo_ack\<lparr>ai_attempt := 3\<rparr>) 15 16 (snd demo_acknowledged) = (Inl AcknowledgeConflict, snd demo_acknowledged)
   \<and> acknowledgeReply (demo_ack\<lparr>ai_attempt := 3\<rparr>) 15 16 (snd demo_acknowledged) = (Inl AcknowledgedByOther, snd demo_acknowledged)"
proof -
  have "(case fst demo_acknowledged of Inl _ \<Rightarrow> False | Inr x \<Rightarrow> snd x)" by code_simp
  then obtain r where "fst demo_acknowledged = Inr (r, True)" by (auto split: sum.splits)
  then have ack: "acknowledgeReply demo_ack 13 14 demo_replied = (Inr (r, True), snd demo_acknowledged)"
    unfolding demo_acknowledged_def by (metis prod.collapse)
  have "undelivered (re_status demo_reply)" by code_simp
  then show ?thesis
    using acknowledged_exactly_once [OF demo_replied_reachable ack rtranclp.rtrancl_refl, of "demo_ack\<lparr>ai_attempt := 3\<rparr>" demo_reply 15 16] by (simp add: demo_ack_def)
qed

end
