(* ===== verification/Supervisor_Runs.thy ===== *)
theory Supervisor_Runs
  imports Kontrol_Prelude
begin

text \<open>
  Supervised runs, src/src/supervisor-runs.ts, and the judgement of an evaluation in
  src/src/supervisor-runtime.ts: the durable state machine that drives a mission through
  verification and correction cycles until it is approved or handed to a person.

  \<^item> A call reads a row and writes it in separate statements, and other processes may write in
    between. An operation is therefore its read composed with a write that gets the row read; the
    steps of the system take the write with any row that ever existed.
  \<^item> Clock readings and random ids are arguments. JSON columns hold the value their text encodes.
    SHA-256 is a parameter.
\<close>

section \<open>State\<close>

datatype supervisor_status =
    SCreated
  | SPlanning
  | SDispatchPending
  | SWorkerActive
  | SAwaitingSubmission
  | SVerificationPending
  | SVerifying
  | SEvaluationPending
  | SCorrectionPending
  | SApprovalPending
  | SAwaitingHuman
  | SPaused
  | SCompleted
  | SFailed
  | SCancelled

datatype autonomy_mode = AManual | AVerifyOnly | ACorrectionAuto | AFull

datatype approval_mode = HumanRequired | PolicyAuto | FullyAutomatic

definition TERMINAL :: "supervisor_status list" where
  "TERMINAL = [SCompleted, SFailed, SCancelled]"

record progress_snapshot =
  pg_blockingFindingCount :: int
  pg_failedCriterionCount :: int
  pg_passedCriterionCount :: int
  pg_failingVerificationCount :: int
  pg_failureFingerprint :: "string option"
  pg_changedRelevantFiles :: int
  pg_unresolvedRequiredActions :: int
  pg_submissionId :: string
  pg_reviewEpoch :: int

record progress_delta =
  pd_blockingFindings :: int
  pd_failedCriteria :: int
  pd_passedCriteria :: int
  pd_failingVerification :: int
  pd_unresolvedActions :: int
  pd_fingerprintChanged :: bool
  pd_madeProgress :: bool

record progress_record =
  pr_snapshot :: progress_snapshot
  pr_delta :: progress_delta
  pr_stagnantCycleCount :: int

record supervisor_run =
  su_id :: string
  su_missionId :: string
  su_workSessionId :: string
  su_workspaceSessionId :: string
  su_status :: supervisor_status
  su_resumeStatus :: "supervisor_status option"
  su_revision :: int
  su_cycleNumber :: int
  su_maxCycles :: int
  su_maxStagnantCycles :: int
  su_failureLimit :: int
  su_stagnantCycleCount :: int
  su_progress :: "progress_snapshot option"
  su_stallReason :: "string option"
  su_owner :: "string option"
  su_nonce :: "string option"
  su_leaseExpiresAt :: "iso_time option"
  su_heartbeatAt :: "iso_time option"
  su_lastEventSeq :: int
  su_lastSubmissionId :: "string option"
  su_lastSnapshotCommit :: "string option"
  su_nextActionAt :: "iso_time option"
  su_failureCount :: int
  su_lastError :: "string option"
  su_lastFingerprint :: "string option"
  su_repeatedFailureCount :: int
  su_fingerprints :: "(string \<times> int) list"
  su_deadlineAt :: "iso_time option"
  su_autonomyMode :: autonomy_mode
  su_approvalMode :: approval_mode
  su_createdAt :: iso_time
  su_updatedAt :: iso_time

record progress_row =
  px_id :: string
  px_runId :: string
  px_workSessionId :: string
  px_cycleNumber :: int
  px_snapshot :: progress_snapshot
  px_delta :: progress_delta
  px_stagnantCycleCount :: int
  px_createdAt :: iso_time

record supervisor_db =
  sd_runs :: "supervisor_run table"
  sd_progress :: "progress_row table"

definition get_run :: "string \<Rightarrow> supervisor_db \<Rightarrow> supervisor_run option" where
  "get_run i db = find (\<lambda>r. su_id r = i) (sd_runs db)"

definition run_by_session :: "string \<Rightarrow> supervisor_db \<Rightarrow> supervisor_run option" where
  "run_by_session workSessionId db = find (\<lambda>r. su_workSessionId r = workSessionId) (sd_runs db)"

definition write_runs :: "(supervisor_run \<Rightarrow> bool) \<Rightarrow> (supervisor_run \<Rightarrow> supervisor_run) \<Rightarrow> supervisor_db \<Rightarrow> supervisor_db" where
  "write_runs sel f db = db\<lparr>sd_runs := sql_update sel f (sd_runs db)\<rparr>"

text \<open>An update that reports the row it wrote, or nothing when no row matched.\<close>

definition write_one :: "string \<Rightarrow> (supervisor_run \<Rightarrow> bool) \<Rightarrow> (supervisor_run \<Rightarrow> supervisor_run) \<Rightarrow> supervisor_db \<Rightarrow> supervisor_run option \<times> supervisor_db" where
  "write_one i sel f db =
     (if sql_changes sel (sd_runs db) = 0 then (None, db) else (get_run i (write_runs sel f db), write_runs sel f db))"

section \<open>Creation\<close>

definition clamp_int :: "int \<Rightarrow> int \<Rightarrow> int \<Rightarrow> int" where
  "clamp_int v lo hi = max lo (min hi v)"

record progress_policy =
  pp_maxStagnantCycles :: "int option"
  pp_failureLimit :: "int option"
  pp_cycleCeiling :: "int option"

record run_input =
  ri_missionId :: string
  ri_workSessionId :: string
  ri_workspaceSessionId :: string
  ri_maxCycles :: "int option"
  ri_maxWallTimeMs :: "int option"
  ri_autonomyMode :: "autonomy_mode option"
  ri_approvalMode :: "approval_mode option"
  ri_policy :: "progress_policy option"

definition new_run :: "run_input \<Rightarrow> string \<Rightarrow> iso_time \<Rightarrow> iso_time \<Rightarrow> supervisor_run" where
  "new_run input uuid time later =
     (let policy = coalesce (ri_policy input) \<lparr>pp_maxStagnantCycles = None, pp_failureLimit = None, pp_cycleCeiling = None\<rparr>
      in \<lparr>su_id = ''sup_'' @ uuid, su_missionId = ri_missionId input, su_workSessionId = ri_workSessionId input,
          su_workspaceSessionId = ri_workspaceSessionId input, su_status = SCreated, su_resumeStatus = None, su_revision = 1, su_cycleNumber = 0,
          su_maxCycles = clamp_int (coalesce (or_else (pp_cycleCeiling policy) (ri_maxCycles input)) 25) 1 1000,
          su_maxStagnantCycles = clamp_int (coalesce (pp_maxStagnantCycles policy) 2) 1 100,
          su_failureLimit = clamp_int (coalesce (pp_failureLimit policy) 3) 1 100,
          su_stagnantCycleCount = 0, su_progress = None, su_stallReason = None, su_owner = None, su_nonce = None, su_leaseExpiresAt = None,
          su_heartbeatAt = None, su_lastEventSeq = 0, su_lastSubmissionId = None, su_lastSnapshotCommit = None, su_nextActionAt = None,
          su_failureCount = 0, su_lastError = None, su_lastFingerprint = None, su_repeatedFailureCount = 0, su_fingerprints = [],
          su_deadlineAt = Some (later + max 60000 (min (coalesce (ri_maxWallTimeMs input) (24 * 60 * 60 * 1000)) (7 * 24 * 60 * 60 * 1000))),
          su_autonomyMode = coalesce (ri_autonomyMode input) AManual, su_approvalMode = coalesce (ri_approvalMode input) HumanRequired,
          su_createdAt = time, su_updatedAt = time\<rparr>)"

text \<open>Insertion under the primary key, the unique indexes and the references, which \<open>known\<close> says exist.\<close>

definition run_insert :: "bool \<Rightarrow> supervisor_run \<Rightarrow> supervisor_db \<Rightarrow> supervisor_db option" where
  "run_insert known r db =
     (if \<not> known \<or> su_id r \<in> su_id ` set (sd_runs db) \<or> su_missionId r \<in> su_missionId ` set (sd_runs db)
         \<or> su_workSessionId r \<in> su_workSessionId ` set (sd_runs db)
      then None else Some (db\<lparr>sd_runs := sd_runs db @ [r]\<rparr>))"

text \<open>\<open>None\<close>: the insertion threw.\<close>

definition run_create :: "bool \<Rightarrow> run_input \<Rightarrow> string \<Rightarrow> iso_time \<Rightarrow> iso_time \<Rightarrow> supervisor_db \<Rightarrow> supervisor_run option \<times> supervisor_db" where
  "run_create known input uuid time later db =
     (case run_by_session (ri_workSessionId input) db of
        Some existing \<Rightarrow> (Some existing, db)
      | None \<Rightarrow>
          (case run_insert known (new_run input uuid time later) db of
             None \<Rightarrow> (None, db)
           | Some db' \<Rightarrow> (run_by_session (ri_workSessionId input) db', db')))"

section \<open>Transitions\<close>

record run_transition_input =
  ti_id :: string
  ti_expectedStatus :: supervisor_status
  ti_expectedRevision :: int
  ti_nextStatus :: supervisor_status
  ti_cycleNumber :: "int option"
  ti_lastEventSeq :: "int option"
  ti_lastSubmissionId :: "string option"
  ti_lastSnapshotCommit :: "string option"
  ti_nextActionAt :: "iso_time option option"
  ti_lastError :: "string option"
  ti_stallReason :: "string option option"
  ti_lease :: "(string \<times> string) option"

definition transition_changes :: "run_transition_input \<Rightarrow> iso_time \<Rightarrow> supervisor_run \<Rightarrow> supervisor_run" where
  "transition_changes ti now r =
     r\<lparr>su_status := ti_nextStatus ti, su_resumeStatus := None, su_revision := ti_expectedRevision ti + 1, su_updatedAt := now,
       su_cycleNumber := coalesce (ti_cycleNumber ti) (su_cycleNumber r),
       su_lastEventSeq := coalesce (ti_lastEventSeq ti) (su_lastEventSeq r),
       su_lastSubmissionId := or_else (ti_lastSubmissionId ti) (su_lastSubmissionId r),
       su_lastSnapshotCommit := or_else (ti_lastSnapshotCommit ti) (su_lastSnapshotCommit r),
       su_nextActionAt := coalesce (ti_nextActionAt ti) (su_nextActionAt r),
       su_lastError := or_else (ti_lastError ti) (su_lastError r),
       su_stallReason := coalesce (ti_stallReason ti) (su_stallReason r)\<rparr>"

definition lease_live :: "string \<Rightarrow> string \<Rightarrow> iso_time \<Rightarrow> supervisor_run \<Rightarrow> bool" where
  "lease_live instance' nonce now r \<longleftrightarrow> su_owner r = Some instance' \<and> su_nonce r = Some nonce
     \<and> (case su_leaseExpiresAt r of None \<Rightarrow> False | Some e \<Rightarrow> now < e)"

definition before_deadline :: "iso_time \<Rightarrow> supervisor_run \<Rightarrow> bool" where
  "before_deadline now r \<longleftrightarrow> (case su_deadlineAt r of None \<Rightarrow> True | Some d \<Rightarrow> now < d)"

definition transition_where :: "run_transition_input \<Rightarrow> iso_time \<Rightarrow> iso_time \<Rightarrow> supervisor_run \<Rightarrow> bool" where
  "transition_where ti t2 t3 r \<longleftrightarrow> su_id r = ti_id ti \<and> su_status r = ti_expectedStatus ti \<and> su_revision r = ti_expectedRevision ti
     \<and> (case ti_lease ti of None \<Rightarrow> True | Some (owner, nonce) \<Rightarrow> lease_live owner nonce t2 r)
     \<and> (ti_lease ti = None \<or> ti_nextStatus ti = SAwaitingHuman \<or> before_deadline t3 r)"

text \<open>The three clock readings of the call: for the stamp, the lease and the deadline.\<close>

definition run_transition :: "run_transition_input \<Rightarrow> iso_time \<Rightarrow> iso_time \<Rightarrow> iso_time \<Rightarrow> supervisor_db \<Rightarrow> supervisor_run option \<times> supervisor_db" where
  "run_transition ti t1 t2 t3 db =
     (if ti_expectedStatus ti \<in> set TERMINAL \<and> ti_nextStatus ti \<noteq> ti_expectedStatus ti then (None, db)
      else write_one (ti_id ti) (transition_where ti t2 t3) (transition_changes ti t1) db)"

section \<open>Leases\<close>

text \<open>The readings of a lease call: of the statement, for the deadline, and for the end of the lease.\<close>

record lease_clock =
  lc_current :: iso_time
  lc_check :: iso_time
  lc_expiry :: iso_time
  lc_open :: iso_time

definition lease_end :: "supervisor_run \<Rightarrow> int \<Rightarrow> lease_clock \<Rightarrow> iso_time" where
  "lease_end current ms c = min (lc_expiry c + ms) (case su_deadlineAt current of Some d \<Rightarrow> d | None \<Rightarrow> lc_open c + ms)"

definition claimable :: "string \<Rightarrow> iso_time \<Rightarrow> supervisor_run \<Rightarrow> bool" where
  "claimable i now r \<longleftrightarrow> su_id r = i \<and> (su_owner r = None \<or> (case su_leaseExpiresAt r of None \<Rightarrow> False | Some e \<Rightarrow> e < now))
     \<and> (case su_nextActionAt r of None \<Rightarrow> True | Some a \<Rightarrow> a < now) \<and> before_deadline now r"

definition claim_write :: "supervisor_run \<Rightarrow> string \<Rightarrow> string \<Rightarrow> string \<Rightarrow> int \<Rightarrow> lease_clock \<Rightarrow> supervisor_db \<Rightarrow> supervisor_run option \<times> supervisor_db" where
  "claim_write current i instance' nonce ms c db =
     (if su_status current \<in> set TERMINAL \<or> \<not> before_deadline (lc_check c) current then (None, db)
      else write_one i (claimable i (lc_current c))
        (\<lambda>r. r\<lparr>su_owner := Some instance', su_nonce := Some nonce, su_leaseExpiresAt := Some (lease_end current ms c),
               su_heartbeatAt := Some (lc_current c), su_updatedAt := lc_current c\<rparr>) db)"

definition run_claim :: "string \<Rightarrow> string \<Rightarrow> string \<Rightarrow> int \<Rightarrow> lease_clock \<Rightarrow> supervisor_db \<Rightarrow> supervisor_run option \<times> supervisor_db" where
  "run_claim i instance' nonce ms c db =
     (case get_run i db of None \<Rightarrow> (None, db) | Some current \<Rightarrow> claim_write current i instance' nonce ms c db)"

definition renew_write :: "supervisor_run \<Rightarrow> string \<Rightarrow> string \<Rightarrow> string \<Rightarrow> int \<Rightarrow> lease_clock \<Rightarrow> supervisor_db \<Rightarrow> supervisor_run option \<times> supervisor_db" where
  "renew_write current i instance' nonce ms c db =
     (if su_owner current \<noteq> Some instance' \<or> su_nonce current \<noteq> Some nonce \<or> su_status current \<in> set TERMINAL \<or> \<not> before_deadline (lc_check c) current
      then (None, db)
      else write_one i (\<lambda>r. su_id r = i \<and> lease_live instance' nonce (lc_current c) r)
        (\<lambda>r. r\<lparr>su_leaseExpiresAt := Some (lease_end current ms c), su_heartbeatAt := Some (lc_current c), su_updatedAt := lc_current c\<rparr>) db)"

definition run_renew :: "string \<Rightarrow> string \<Rightarrow> string \<Rightarrow> int \<Rightarrow> lease_clock \<Rightarrow> supervisor_db \<Rightarrow> supervisor_run option \<times> supervisor_db" where
  "run_renew i instance' nonce ms c db =
     (case get_run i db of None \<Rightarrow> (None, db) | Some current \<Rightarrow> renew_write current i instance' nonce ms c db)"

text \<open>A row owned by the instance, under the nonce where the caller gives one.\<close>

definition owned_by :: "string \<Rightarrow> string \<Rightarrow> string option \<Rightarrow> supervisor_run \<Rightarrow> bool" where
  "owned_by i instance' nonce r \<longleftrightarrow> su_id r = i \<and> su_owner r = Some instance' \<and> (\<not> truthy nonce \<or> su_nonce r = nonce)"

definition run_release :: "string \<Rightarrow> string \<Rightarrow> string option \<Rightarrow> iso_time \<Rightarrow> supervisor_db \<Rightarrow> supervisor_db" where
  "run_release i instance' nonce now = write_runs (owned_by i instance' nonce)
     (\<lambda>r. r\<lparr>su_owner := None, su_nonce := None, su_leaseExpiresAt := None, su_updatedAt := now\<rparr>)"

definition releaseExpiredClaims :: "iso_time \<Rightarrow> supervisor_db \<Rightarrow> nat \<times> supervisor_db" where
  "releaseExpiredClaims now db =
     (let sel = (\<lambda>r. case su_leaseExpiresAt r of None \<Rightarrow> False | Some e \<Rightarrow> e < now)
      in (sql_changes sel (sd_runs db), write_runs sel (\<lambda>r. r\<lparr>su_owner := None, su_nonce := None, su_leaseExpiresAt := None\<rparr>) db))"

section \<open>Pause and resume\<close>

definition pause_write :: "supervisor_run \<Rightarrow> string \<Rightarrow> int \<Rightarrow> iso_time \<Rightarrow> supervisor_db \<Rightarrow> supervisor_run option \<times> supervisor_db" where
  "pause_write existing i expectedRevision now db =
     (if su_status existing \<in> set TERMINAL \<or> su_revision existing \<noteq> expectedRevision \<or> su_status existing = SPaused then (None, db)
      else write_one i (\<lambda>r. su_id r = i \<and> su_revision r = expectedRevision \<and> su_status r = su_status existing)
        (\<lambda>r. r\<lparr>su_status := SPaused, su_resumeStatus := Some (su_status existing), su_revision := expectedRevision + 1, su_updatedAt := now\<rparr>) db)"

definition run_pause :: "string \<Rightarrow> int \<Rightarrow> iso_time \<Rightarrow> supervisor_db \<Rightarrow> supervisor_run option \<times> supervisor_db" where
  "run_pause i expectedRevision now db =
     (case get_run i db of None \<Rightarrow> (None, db) | Some existing \<Rightarrow> pause_write existing i expectedRevision now db)"

definition resume_write :: "supervisor_run \<Rightarrow> string \<Rightarrow> int \<Rightarrow> iso_time \<Rightarrow> supervisor_db \<Rightarrow> supervisor_run option \<times> supervisor_db" where
  "resume_write existing i expectedRevision now db =
     (if su_status existing \<noteq> SPaused \<or> su_revision existing \<noteq> expectedRevision then (None, db)
      else case su_resumeStatus existing of
        None \<Rightarrow> (None, db)
      | Some st \<Rightarrow> write_one i (\<lambda>r. su_id r = i \<and> su_status r = SPaused \<and> su_revision r = expectedRevision)
          (\<lambda>r. r\<lparr>su_status := st, su_resumeStatus := None, su_revision := expectedRevision + 1, su_updatedAt := now\<rparr>) db)"

definition run_resume :: "string \<Rightarrow> int \<Rightarrow> iso_time \<Rightarrow> supervisor_db \<Rightarrow> supervisor_run option \<times> supervisor_db" where
  "run_resume i expectedRevision now db =
     (case get_run i db of None \<Rightarrow> (None, db) | Some existing \<Rightarrow> resume_write existing i expectedRevision now db)"

section \<open>Failures\<close>

definition run_noteFailure :: "string \<Rightarrow> string \<Rightarrow> string \<Rightarrow> string option \<Rightarrow> iso_time \<Rightarrow> iso_time \<Rightarrow> supervisor_db \<Rightarrow> supervisor_db" where
  "run_noteFailure i instance' err nonce t1 t2 = write_runs (owned_by i instance' nonce)
     (\<lambda>r. r\<lparr>su_failureCount := su_failureCount r + 1, su_lastError := Some (take 4000 err), su_heartbeatAt := Some t1, su_updatedAt := t2\<rparr>)"

text \<open>Counting a fingerprint in an object of counts; a new key goes last.\<close>

fun bump_count :: "string \<Rightarrow> (string \<times> int) list \<Rightarrow> (string \<times> int) list" where
  "bump_count f [] = [(f, 1)]"
| "bump_count f ((g, n) # xs) = (if g = f then (g, n + 1) # xs else (g, n) # bump_count f xs)"

record fingerprint_state =
  fs_repeated :: int
  fs_distinct :: nat
  fs_maxOccurrences :: int

definition fingerprint_write :: "supervisor_run \<Rightarrow> string \<Rightarrow> string \<Rightarrow> string \<Rightarrow> string option \<Rightarrow> iso_time \<Rightarrow> supervisor_db \<Rightarrow> fingerprint_state \<times> supervisor_db" where
  "fingerprint_write current i instance' fingerprint nonce now db =
     (let n = (if su_lastFingerprint current = Some fingerprint then su_repeatedFailureCount current + 1 else 1);
          seen = bump_count fingerprint (su_fingerprints current)
      in (\<lparr>fs_repeated = n, fs_distinct = length seen, fs_maxOccurrences = fold max (map snd seen) 0\<rparr>,
          write_runs (owned_by i instance' nonce)
            (\<lambda>r. r\<lparr>su_lastFingerprint := Some fingerprint, su_repeatedFailureCount := n, su_fingerprints := seen, su_updatedAt := now\<rparr>) db))"

definition noteFailureFingerprint :: "string \<Rightarrow> string \<Rightarrow> string \<Rightarrow> string option \<Rightarrow> iso_time \<Rightarrow> supervisor_db \<Rightarrow> fingerprint_state \<times> supervisor_db" where
  "noteFailureFingerprint i instance' fingerprint nonce now db =
     (case find (owned_by i instance' nonce) (sd_runs db) of
        None \<Rightarrow> (\<lparr>fs_repeated = 0, fs_distinct = 0, fs_maxOccurrences = 0\<rparr>, db)
      | Some current \<Rightarrow> fingerprint_write current i instance' fingerprint nonce now db)"

definition clearFailureFingerprint :: "string \<Rightarrow> string \<Rightarrow> string option \<Rightarrow> iso_time \<Rightarrow> supervisor_db \<Rightarrow> supervisor_db" where
  "clearFailureFingerprint i instance' nonce now = write_runs (owned_by i instance' nonce)
     (\<lambda>r. r\<lparr>su_lastFingerprint := None, su_repeatedFailureCount := 0, su_fingerprints := [], su_updatedAt := now\<rparr>)"

section \<open>Progress\<close>

definition progressDelta :: "progress_snapshot option \<Rightarrow> progress_snapshot \<Rightarrow> progress_delta" where
  "progressDelta previous current =
     (case previous of
        None \<Rightarrow> \<lparr>pd_blockingFindings = 0, pd_failedCriteria = 0, pd_passedCriteria = 0, pd_failingVerification = 0, pd_unresolvedActions = 0,
                 pd_fingerprintChanged = False, pd_madeProgress = True\<rparr>
      | Some p \<Rightarrow>
          let blocking = pg_blockingFindingCount current - pg_blockingFindingCount p;
              failed = pg_failedCriterionCount current - pg_failedCriterionCount p;
              passed = pg_passedCriterionCount current - pg_passedCriterionCount p;
              failing = pg_failingVerificationCount current - pg_failingVerificationCount p;
              unresolved = pg_unresolvedRequiredActions current - pg_unresolvedRequiredActions p;
              changed = (pg_failureFingerprint current \<noteq> pg_failureFingerprint p)
          in \<lparr>pd_blockingFindings = blocking, pd_failedCriteria = failed, pd_passedCriteria = passed, pd_failingVerification = failing,
              pd_unresolvedActions = unresolved, pd_fingerprintChanged = changed,
              pd_madeProgress = (blocking < 0 \<or> failed < 0 \<or> passed > 0 \<or> failing < 0 \<or> unresolved < 0
                \<or> changed \<and> pg_failingVerificationCount current < pg_failingVerificationCount p)\<rparr>)"

definition previous_progress :: "string \<Rightarrow> supervisor_db \<Rightarrow> progress_snapshot option" where
  "previous_progress i db = map_option px_snapshot (first_row (order_desc (\<lambda>p. (px_cycleNumber p, px_createdAt p))
     (filter (\<lambda>p. px_runId p = i) (sd_progress db))))"

definition stagnation :: "supervisor_run \<Rightarrow> progress_delta \<Rightarrow> int" where
  "stagnation current delta = (if pd_madeProgress delta then 0 else su_stagnantCycleCount current + 1)"

definition progress_insert :: "supervisor_run \<Rightarrow> string \<Rightarrow> progress_snapshot \<Rightarrow> progress_delta \<Rightarrow> string \<Rightarrow> iso_time \<Rightarrow> supervisor_db \<Rightarrow> supervisor_db" where
  "progress_insert current i snapshot delta uuid now db =
     db\<lparr>sd_progress := sd_progress db @ [\<lparr>px_id = ''sup_progress_'' @ uuid, px_runId = i, px_workSessionId = su_workSessionId current,
       px_cycleNumber = su_cycleNumber current, px_snapshot = snapshot, px_delta = delta, px_stagnantCycleCount = stagnation current delta, px_createdAt = now\<rparr>]\<rparr>"

definition progress_update :: "supervisor_run \<Rightarrow> string \<Rightarrow> string \<Rightarrow> string option \<Rightarrow> progress_snapshot \<Rightarrow> progress_delta \<Rightarrow> iso_time \<Rightarrow> supervisor_db \<Rightarrow> supervisor_db" where
  "progress_update current i instance' nonce snapshot delta now = write_runs (owned_by i instance' nonce)
     (\<lambda>r. r\<lparr>su_progress := Some snapshot, su_stagnantCycleCount := stagnation current delta,
            su_stallReason := (if pd_madeProgress delta then None else Some ''no_new_evidence''), su_updatedAt := now\<rparr>)"

definition recordProgress :: "string \<Rightarrow> string \<Rightarrow> progress_snapshot \<Rightarrow> string option \<Rightarrow> string \<Rightarrow> iso_time \<Rightarrow> supervisor_db \<Rightarrow> progress_record option \<times> supervisor_db" where
  "recordProgress i instance' snapshot nonce uuid now db =
     (case find (owned_by i instance' nonce) (sd_runs db) of
        None \<Rightarrow> (None, db)
      | Some current \<Rightarrow>
          let delta = progressDelta (previous_progress i db) snapshot
          in (Some \<lparr>pr_snapshot = snapshot, pr_delta = delta, pr_stagnantCycleCount = stagnation current delta\<rparr>,
              progress_update current i instance' nonce snapshot delta now (progress_insert current i snapshot delta uuid now db)))"

definition getProgressHistory :: "string \<Rightarrow> int option \<Rightarrow> supervisor_db \<Rightarrow> progress_record list" where
  "getProgressHistory workSessionId limit db =
     map (\<lambda>p. \<lparr>pr_snapshot = px_snapshot p, pr_delta = px_delta p, pr_stagnantCycleCount = px_stagnantCycleCount p\<rparr>)
       (take (nat (max 1 (min (coalesce limit 50) 500))) (order_asc (\<lambda>p. (px_cycleNumber p, px_createdAt p))
         (filter (\<lambda>p. px_workSessionId p = workSessionId) (sd_progress db))))"

definition listRecoverable :: "supervisor_db \<Rightarrow> supervisor_run list" where
  "listRecoverable db = filter (\<lambda>r. su_status r \<notin> set TERMINAL) (sd_runs db)"

section \<open>Judgement of an evaluation\<close>

datatype supervisor_decision = DApprovalPending | DCorrectionPending | DAwaitingHuman

record evaluation =
  ev_decision :: supervisor_decision
  ev_reasons :: "string list"
  ev_failureSetSha256 :: "string option"

definition decision_name :: "supervisor_decision \<Rightarrow> string" where
  "decision_name d = (case d of DApprovalPending \<Rightarrow> ''approval_pending'' | DCorrectionPending \<Rightarrow> ''correction_pending'' | DAwaitingHuman \<Rightarrow> ''awaiting_human'')"

definition decision_status :: "supervisor_decision \<Rightarrow> supervisor_status" where
  "decision_status d = (case d of DApprovalPending \<Rightarrow> SApprovalPending | DCorrectionPending \<Rightarrow> SCorrectionPending | DAwaitingHuman \<Rightarrow> SAwaitingHuman)"

text \<open>Every run of white space becomes one blank; the flag says that the character before was one.\<close>

fun collapse_spaces :: "bool \<Rightarrow> string \<Rightarrow> string" where
  "collapse_spaces prev [] = []"
| "collapse_spaces prev (c # cs) =
     (if js_space c then (if prev then collapse_spaces True cs else CHR '' '' # collapse_spaces True cs) else c # collapse_spaces False cs)"

definition plain_reasons :: "string list \<Rightarrow> string list" where
  "plain_reasons rs = filter (\<lambda>r. r \<noteq> []) (map (\<lambda>r. trim (collapse_spaces False r)) rs)"

definition deterministicFailureFingerprint :: "(string \<Rightarrow> string) \<Rightarrow> evaluation \<Rightarrow> string" where
  "deterministicFailureFingerprint sha256 ev =
     sha256 (json_stringify (JObj [(''decision'', JStr (decision_name (ev_decision ev))),
       (''reasons'', JArr (map JStr (sort (remdups (plain_reasons (ev_reasons ev)))))),
       (''failureSetSha256'', case ev_failureSetSha256 ev of None \<Rightarrow> JNull | Some s \<Rightarrow> JStr s)]))"

definition OSCILLATION_RECURRENCE_LIMIT :: int where
  "OSCILLATION_RECURRENCE_LIMIT = 2"

definition hand_over :: "string \<Rightarrow> evaluation \<Rightarrow> evaluation" where
  "hand_over reason ev = ev\<lparr>ev_decision := DAwaitingHuman, ev_reasons := reason # ev_reasons ev\<rparr>"

text \<open>What becomes of a correction, with the flag of an oscillation.\<close>

definition judge_correction :: "supervisor_run \<Rightarrow> fingerprint_state \<Rightarrow> progress_record option \<Rightarrow> evaluation \<Rightarrow> evaluation \<times> bool" where
  "judge_correction claimed st progress ev =
     (if su_failureLimit claimed \<le> fs_repeated st then
        (hand_over (''Repeated verification failure fingerprint ('' @ show_int (fs_repeated st) @ '' consecutive cycles).'') ev, False)
      else if OSCILLATION_RECURRENCE_LIMIT \<le> fs_maxOccurrences st \<and> 2 \<le> fs_distinct st then
        (hand_over (''Oscillating verification failures (fingerprint recurred '' @ show_int (fs_maxOccurrences st) @ '' times across ''
           @ show_int (int (fs_distinct st)) @ '' distinct unresolved states).'') ev, True)
      else case progress of
        None \<Rightarrow> (ev, False)
      | Some p \<Rightarrow>
          if su_maxStagnantCycles claimed \<le> pr_stagnantCycleCount p then
            (hand_over (''No demonstrable progress for '' @ show_int (pr_stagnantCycleCount p) @ '' supervisor cycles.'') ev, False)
          else (ev, False))"

definition stall_reason :: "evaluation \<Rightarrow> bool \<Rightarrow> progress_record option \<Rightarrow> string option" where
  "stall_reason ev oscillation progress =
     (if ev_decision ev \<noteq> DAwaitingHuman then None
      else if oscillation then Some ''oscillating_verification''
      else if (case progress of None \<Rightarrow> False | Some p \<Rightarrow> pr_stagnantCycleCount p \<noteq> 0) then Some ''no_new_evidence'' else Some ''repeated_verification'')"

text \<open>The readings of the clock in this stage: progress, fingerprint, and the three of the transition.\<close>

record stage_clock =
  sc_progress :: iso_time
  sc_fingerprint :: iso_time
  sc_stamp :: iso_time
  sc_lease :: iso_time
  sc_deadline :: iso_time

text \<open>
  From the evaluation to the decision: record the progress, judge a correction or forget the failures
  of an approval, and move the run out of \<open>evaluation_pending\<close> under the lease.
\<close>

definition settle_evaluation ::
    "(string \<Rightarrow> string) \<Rightarrow> supervisor_run \<Rightarrow> supervisor_run \<Rightarrow> string \<Rightarrow> string \<Rightarrow> progress_snapshot option \<Rightarrow> evaluation \<Rightarrow> string \<Rightarrow> stage_clock \<Rightarrow> supervisor_db
      \<Rightarrow> evaluation \<times> supervisor_run option \<times> supervisor_db" where
  "settle_evaluation sha256 claimed evaluating instance' nonce progress ev uuid c db =
     (let (rec, db1) = (case progress of
            None \<Rightarrow> (None, db)
          | Some s \<Rightarrow> recordProgress (su_id claimed) instance' s (Some nonce) uuid (sc_progress c) db);
          (ev', oscillation, db2) = (case ev_decision ev of
            DCorrectionPending \<Rightarrow>
              (let (st, db') = noteFailureFingerprint (su_id claimed) instance' (deterministicFailureFingerprint sha256 ev) (Some nonce) (sc_fingerprint c) db1;
                   (e, osc) = judge_correction claimed st rec ev
               in (e, osc, db'))
          | DApprovalPending \<Rightarrow> (ev, False, clearFailureFingerprint (su_id claimed) instance' (Some nonce) (sc_fingerprint c) db1)
          | DAwaitingHuman \<Rightarrow> (ev, False, db1));
          (decided, db3) = run_transition \<lparr>ti_id = su_id evaluating, ti_expectedStatus = SEvaluationPending, ti_expectedRevision = su_revision evaluating,
            ti_nextStatus = decision_status (ev_decision ev'), ti_cycleNumber = None, ti_lastEventSeq = None, ti_lastSubmissionId = None,
            ti_lastSnapshotCommit = None, ti_nextActionAt = None, ti_lastError = None, ti_stallReason = Some (stall_reason ev' oscillation rec),
            ti_lease = Some (instance', nonce)\<rparr> (sc_stamp c) (sc_lease c) (sc_deadline c) db2
      in (ev', decided, db3))"

section \<open>Steps\<close>

text \<open>
  The writes of all operations with all arguments; \<open>H\<close> is the set of rows that ever existed, from
  which an operation's read comes. A nonce is a fresh random id.
\<close>

inductive run_write :: "supervisor_run set \<Rightarrow> supervisor_db \<Rightarrow> supervisor_db \<Rightarrow> bool" for H where
  w_create: "run_insert known (new_run input uuid time later) db = Some db' \<Longrightarrow> run_write H db db'"
| w_transition: "run_write H db (snd (run_transition ti t1 t2 t3 db))"
| w_claim: "current \<in> H \<Longrightarrow> su_id current = i \<Longrightarrow> Some nonce \<notin> su_nonce ` H \<Longrightarrow> run_write H db (snd (claim_write current i instance' nonce ms c db))"
| w_renew: "current \<in> H \<Longrightarrow> su_id current = i \<Longrightarrow> run_write H db (snd (renew_write current i instance' nonce ms c db))"
| w_release: "run_write H db (run_release i instance' n now db)"
| w_expired: "run_write H db (snd (releaseExpiredClaims now db))"
| w_pause: "existing \<in> H \<Longrightarrow> su_id existing = i \<Longrightarrow> run_write H db (snd (pause_write existing i rvn now db))"
| w_resume: "existing \<in> H \<Longrightarrow> su_id existing = i \<Longrightarrow> run_write H db (snd (resume_write existing i rvn now db))"
| w_failure: "run_write H db (run_noteFailure i instance' err n t1 t2 db)"
| w_fingerprint: "current \<in> H \<Longrightarrow> su_id current = i \<Longrightarrow> run_write H db (snd (fingerprint_write current i instance' fp n now db))"
| w_clear: "run_write H db (clearFailureFingerprint i instance' n now db)"
| w_progress_row: "run_write H db (progress_insert current i snapshot delta uuid now db)"
| w_progress: "current \<in> H \<Longrightarrow> su_id current = i \<Longrightarrow> run_write H db (progress_update current i instance' n snapshot delta now db)"

type_synonym run_history = "supervisor_run set \<times> supervisor_db"

definition run_start :: "run_history \<Rightarrow> bool" where
  "run_start s \<longleftrightarrow> fst s = {} \<and> sd_runs (snd s) = []"

definition run_step :: "run_history \<Rightarrow> run_history \<Rightarrow> bool" where
  "run_step s s' \<longleftrightarrow> run_write (fst s) (snd s) (snd s') \<and> fst s' = fst s \<union> set (sd_runs (snd s'))"

text \<open>What holds of every row.\<close>

definition run_ok :: "supervisor_run \<Rightarrow> bool" where
  "run_ok r \<longleftrightarrow> (su_owner r = None \<longleftrightarrow> su_nonce r = None) \<and> (su_owner r = None \<longleftrightarrow> su_leaseExpiresAt r = None)
     \<and> (case (su_leaseExpiresAt r, su_deadlineAt r) of (Some e, Some d) \<Rightarrow> e \<le> d | _ \<Rightarrow> True) \<and> su_deadlineAt r \<noteq> None
     \<and> 1 \<le> su_maxCycles r \<and> su_maxCycles r \<le> 1000 \<and> 1 \<le> su_maxStagnantCycles r \<and> su_maxStagnantCycles r \<le> 100
     \<and> 1 \<le> su_failureLimit r \<and> su_failureLimit r \<le> 100 \<and> 1 \<le> su_revision r \<and> 0 \<le> su_stagnantCycleCount r
     \<and> (su_resumeStatus r = None \<or> su_status r = SPaused \<and> the (su_resumeStatus r) \<noteq> SPaused \<and> the (su_resumeStatus r) \<notin> set TERMINAL)"

text \<open>How a row may look later.\<close>

definition run_after :: "supervisor_run \<Rightarrow> supervisor_run \<Rightarrow> bool" where
  "run_after r r' \<longleftrightarrow> su_id r' = su_id r \<and> su_missionId r' = su_missionId r \<and> su_workSessionId r' = su_workSessionId r \<and> su_deadlineAt r' = su_deadlineAt r
     \<and> su_maxCycles r' = su_maxCycles r \<and> su_maxStagnantCycles r' = su_maxStagnantCycles r \<and> su_failureLimit r' = su_failureLimit r
     \<and> su_revision r \<le> su_revision r' \<and> (su_revision r' = su_revision r \<longrightarrow> su_status r' = su_status r \<and> su_resumeStatus r' = su_resumeStatus r)
     \<and> (su_status r \<in> set TERMINAL \<longrightarrow> su_status r' = su_status r)"

lemma run_after_refl [simp]: "run_after r r"
  by (simp add: run_after_def)

lemma run_after_trans: "run_after a b \<Longrightarrow> run_after b c \<Longrightarrow> run_after a c"
  unfolding run_after_def by auto

definition runs_inv :: "run_history \<Rightarrow> bool" where
  "runs_inv s \<longleftrightarrow> set (sd_runs (snd s)) \<subseteq> fst s \<and> distinct (map su_id (sd_runs (snd s))) \<and> (\<forall>r \<in> fst s. run_ok r)
     \<and> (\<forall>r \<in> fst s. \<exists>r' \<in> set (sd_runs (snd s)). run_after r r')"

lemma inv_update:
  assumes "runs_inv (H, db)" "sd_runs db' = sql_update P f (sd_runs db)"
    and "\<And>r. r \<in> set (sd_runs db) \<Longrightarrow> P r \<Longrightarrow> run_after r (f r) \<and> run_ok (f r)"
  shows "runs_inv (H \<union> set (sd_runs db'), db')"
proof -
  let ?g = "\<lambda>r. if P r then f r else r"
  have g: "run_after r (?g r)" "run_ok (?g r)" if "r \<in> set (sd_runs db)" for r
    using assms(1,3) that by (auto simp: runs_inv_def)
  have rows: "sd_runs db' = map ?g (sd_runs db)" by (simp add: assms(2) sql_update_def)
  have "map su_id (sd_runs db') = map su_id (sd_runs db)" using g(1) unfolding rows by (auto simp: run_after_def)
  moreover have "\<exists>r' \<in> set (sd_runs db'). run_after r r'" if "r \<in> H \<union> set (sd_runs db')" for r
  proof (cases "r \<in> set (sd_runs db')")
    case False
    with that assms(1) obtain q where "q \<in> set (sd_runs db)" "run_after r q" by (auto simp: runs_inv_def)
    then have "run_after r (?g q)" "?g q \<in> set (sd_runs db')" using g(1) [of q] run_after_trans by (blast, simp add: rows)
    then show ?thesis by blast
  qed (use run_after_refl in blast)
  moreover have "run_ok r" if "r \<in> H \<union> set (sd_runs db')" for r
  proof (cases "r \<in> H")
    case False
    with that obtain q where "q \<in> set (sd_runs db)" "r = ?g q" by (auto simp: rows)
    then show ?thesis using g(2) by simp
  qed (use assms(1) in \<open>auto simp: runs_inv_def\<close>)
  ultimately show ?thesis using assms(1) by (auto simp: runs_inv_def)
qed

lemma inv_same: "runs_inv (H, db) \<Longrightarrow> sd_runs db' = sd_runs db \<Longrightarrow> runs_inv (H \<union> set (sd_runs db'), db')"
  by (rule inv_update [where P = "\<lambda>_. False" and f = id]) (simp_all add: sql_update_def)

lemma inv_write_one:
  assumes "runs_inv (H, db)" "\<And>r. r \<in> set (sd_runs db) \<Longrightarrow> P r \<Longrightarrow> run_after r (f r) \<and> run_ok (f r)"
  shows "runs_inv (H \<union> set (sd_runs (snd (write_one i P f db))), snd (write_one i P f db))"
proof (cases "sql_changes P (sd_runs db) = 0")
  case True
  then show ?thesis using inv_same [OF assms(1)] by (simp add: write_one_def)
next
  case False
  then show ?thesis using inv_update [OF assms(1) _ assms(2), of "write_runs P f db" P] by (simp add: write_one_def write_runs_def)
qed

lemma inv_write_runs:
  assumes "runs_inv (H, db)" "\<And>r. r \<in> set (sd_runs db) \<Longrightarrow> P r \<Longrightarrow> run_after r (f r) \<and> run_ok (f r)"
  shows "runs_inv (H \<union> set (sd_runs (write_runs P f db)), write_runs P f db)"
  by (rule inv_update [OF assms(1) _ assms(2)]) (simp_all add: write_runs_def)

lemma inv_row:
  assumes "runs_inv (H, db)" "r \<in> set (sd_runs db)"
  shows "run_ok r" "r \<in> H"
  using assms by (auto simp: runs_inv_def)

lemma current_row:
  assumes "runs_inv (H, db)" "current \<in> H" "r \<in> set (sd_runs db)" "su_id r = su_id current"
  shows "run_after current r"
proof -
  from assms(1,2) obtain q where q: "q \<in> set (sd_runs db)" "run_after current q" by (auto simp: runs_inv_def)
  then have "q = r" using assms(1,3,4) by (intro key_unique [of su_id "sd_runs db"]) (auto simp: runs_inv_def run_after_def)
  with q show ?thesis by simp
qed

lemma lease_end_deadline:
  assumes "runs_inv (H, db)" "current \<in> H" "r \<in> set (sd_runs db)" "su_id r = su_id current"
  shows "\<exists>d. su_deadlineAt r = Some d \<and> lease_end current ms c \<le> d"
  using current_row [OF assms] assms(1,2) by (auto simp: runs_inv_def run_ok_def run_after_def lease_end_def split: option.splits)

lemma transition_inv:
  assumes "runs_inv (H, db)"
  shows "runs_inv (H \<union> set (sd_runs (snd (run_transition ti t1 t2 t3 db))), snd (run_transition ti t1 t2 t3 db))"
proof (cases "ti_expectedStatus ti \<in> set TERMINAL \<and> ti_nextStatus ti \<noteq> ti_expectedStatus ti")
  case True
  then show ?thesis using inv_same [OF assms] by (simp add: run_transition_def)
next
  case False
  have "run_after r (transition_changes ti t1 r) \<and> run_ok (transition_changes ti t1 r)" if "r \<in> set (sd_runs db)" "transition_where ti t2 t3 r" for r
    using inv_row(1) [OF assms that(1)] that(2) False by (auto simp: transition_where_def transition_changes_def run_after_def run_ok_def)
  with inv_write_one [OF assms, of "transition_where ti t2 t3" "transition_changes ti t1" "ti_id ti"] False show ?thesis
    by (auto simp: run_transition_def)
qed

lemma claim_inv:
  assumes "runs_inv (H, db)" "current \<in> H" "su_id current = i"
  shows "runs_inv (H \<union> set (sd_runs (snd (claim_write current i inst nonce ms c db))), snd (claim_write current i inst nonce ms c db))"
proof (cases "su_status current \<in> set TERMINAL \<or> \<not> before_deadline (lc_check c) current")
  case True
  then show ?thesis using inv_same [OF assms(1)] by (simp add: claim_write_def)
next
  case False
  have "run_after r (g r) \<and> run_ok (g r)" if "r \<in> set (sd_runs db)" "claimable i (lc_current c) r"
      "g = (\<lambda>r. r\<lparr>su_owner := Some inst, su_nonce := Some nonce, su_leaseExpiresAt := Some (lease_end current ms c),
               su_heartbeatAt := Some (lc_current c), su_updatedAt := lc_current c\<rparr>)" for r g
    using inv_row(1) [OF assms(1) that(1)] lease_end_deadline [OF assms(1,2) that(1), of ms c] that assms(3)
    by (auto simp: claimable_def run_after_def run_ok_def)
  with inv_write_one [OF assms(1)] False show ?thesis by (simp add: claim_write_def)
qed

lemma renew_inv:
  assumes "runs_inv (H, db)" "current \<in> H" "su_id current = i"
  shows "runs_inv (H \<union> set (sd_runs (snd (renew_write current i inst nonce ms c db))), snd (renew_write current i inst nonce ms c db))"
proof (cases "su_owner current \<noteq> Some inst \<or> su_nonce current \<noteq> Some nonce \<or> su_status current \<in> set TERMINAL \<or> \<not> before_deadline (lc_check c) current")
  case True
  then show ?thesis using inv_same [OF assms(1)] by (simp add: renew_write_def)
next
  case False
  have "run_after r (g r) \<and> run_ok (g r)" if "r \<in> set (sd_runs db)" "su_id r = i \<and> lease_live inst nonce (lc_current c) r"
      "g = (\<lambda>r. r\<lparr>su_leaseExpiresAt := Some (lease_end current ms c), su_heartbeatAt := Some (lc_current c), su_updatedAt := lc_current c\<rparr>)" for r g
    using inv_row(1) [OF assms(1) that(1)] lease_end_deadline [OF assms(1,2) that(1), of ms c] that assms(3)
    by (auto simp: lease_live_def run_after_def run_ok_def)
  with inv_write_one [OF assms(1)] False show ?thesis by (simp add: renew_write_def)
qed

lemma pause_inv:
  assumes "runs_inv (H, db)"
  shows "runs_inv (H \<union> set (sd_runs (snd (pause_write existing i rvn now db))), snd (pause_write existing i rvn now db))"
proof (cases "su_status existing \<in> set TERMINAL \<or> su_revision existing \<noteq> rvn \<or> su_status existing = SPaused")
  case True
  then show ?thesis using inv_same [OF assms] by (simp add: pause_write_def)
next
  case False
  then have "run_after r (g r) \<and> run_ok (g r)" if "r \<in> set (sd_runs db)" "su_id r = i \<and> su_revision r = rvn \<and> su_status r = su_status existing"
      "g = (\<lambda>r. r\<lparr>su_status := SPaused, su_resumeStatus := Some (su_status existing), su_revision := rvn + 1, su_updatedAt := now\<rparr>)" for r g
    using inv_row(1) [OF assms that(1)] that by (auto simp: run_after_def run_ok_def)
  with inv_write_one [OF assms] False show ?thesis by (simp add: pause_write_def)
qed

lemma resume_inv:
  assumes "runs_inv (H, db)" "existing \<in> H"
  shows "runs_inv (H \<union> set (sd_runs (snd (resume_write existing i rvn now db))), snd (resume_write existing i rvn now db))"
proof (cases "su_status existing \<noteq> SPaused \<or> su_revision existing \<noteq> rvn \<or> su_resumeStatus existing = None")
  case True
  then show ?thesis using inv_same [OF assms(1)] by (auto simp: resume_write_def split: option.splits)
next
  case False
  then obtain st where st: "su_resumeStatus existing = Some st" by auto
  have "st \<noteq> SPaused \<and> st \<notin> set TERMINAL" using assms st by (force simp: runs_inv_def run_ok_def)
  then have "run_after r (g r) \<and> run_ok (g r)" if "r \<in> set (sd_runs db)" "su_id r = i \<and> su_status r = SPaused \<and> su_revision r = rvn"
      "g = (\<lambda>r. r\<lparr>su_status := st, su_resumeStatus := None, su_revision := rvn + 1, su_updatedAt := now\<rparr>)" for r g
    using inv_row(1) [OF assms(1) that(1)] that by (auto simp: run_after_def run_ok_def TERMINAL_def)
  with inv_write_one [OF assms(1)] False st show ?thesis by (simp add: resume_write_def)
qed

text \<open>The writes that touch neither revision, status nor an existing lease.\<close>

definition plain_change :: "supervisor_run \<Rightarrow> supervisor_run \<Rightarrow> bool" where
  "plain_change r r' \<longleftrightarrow> su_id r' = su_id r \<and> su_missionId r' = su_missionId r \<and> su_workSessionId r' = su_workSessionId r \<and> su_deadlineAt r' = su_deadlineAt r
     \<and> su_maxCycles r' = su_maxCycles r \<and> su_maxStagnantCycles r' = su_maxStagnantCycles r \<and> su_failureLimit r' = su_failureLimit r
     \<and> su_revision r' = su_revision r \<and> su_status r' = su_status r \<and> su_resumeStatus r' = su_resumeStatus r \<and> 0 \<le> su_stagnantCycleCount r'
     \<and> ((su_owner r', su_nonce r', su_leaseExpiresAt r') = (su_owner r, su_nonce r, su_leaseExpiresAt r)
         \<or> (su_owner r', su_nonce r', su_leaseExpiresAt r') = (None, None, None))"

lemma plain_inv:
  assumes "runs_inv (H, db)" "\<And>r. run_ok r \<Longrightarrow> plain_change r (f r)"
  shows "runs_inv (H \<union> set (sd_runs (write_runs P f db)), write_runs P f db)"
proof (rule inv_write_runs [OF assms(1)])
  fix r assume "r \<in> set (sd_runs db)"
  with inv_row(1) [OF assms(1)] have ok: "run_ok r" by blast
  then show "run_after r (f r) \<and> run_ok (f r)" using assms(2) [OF ok] by (auto simp: plain_change_def run_after_def run_ok_def split: option.splits)
qed

lemma create_inv:
  assumes "runs_inv (H, db)" "run_insert known (new_run input uuid time later) db = Some db'"
  shows "runs_inv (H \<union> set (sd_runs db'), db')"
proof -
  have rows: "sd_runs db' = sd_runs db @ [new_run input uuid time later]" "su_id (new_run input uuid time later) \<notin> su_id ` set (sd_runs db)"
    using assms(2) by (auto simp: run_insert_def split: if_splits)
  have "run_ok (new_run input uuid time later)" by (auto simp: run_ok_def new_run_def Let_def clamp_int_def)
  with assms(1) rows show ?thesis unfolding runs_inv_def by fastforce
qed

lemma run_write_inv:
  assumes "runs_inv (H, db)" "run_write H db db'"
  shows "runs_inv (H \<union> set (sd_runs db'), db')"
  using assms(2)
proof cases
  case (w_create known input uuid time later)
  then show ?thesis using create_inv [OF assms(1)] by blast
next
  case (w_progress current i inst n snapshot delta now)
  then have "0 \<le> su_stagnantCycleCount current" using assms(1) by (auto simp: runs_inv_def run_ok_def)
  then show ?thesis unfolding w_progress progress_update_def
    by (intro plain_inv [OF assms(1)]) (auto simp: plain_change_def run_ok_def stagnation_def)
next
  case (w_progress_row current i snapshot delta uuid now)
  then show ?thesis using inv_same [OF assms(1)] by (simp add: progress_insert_def)
qed (use assms(1) in \<open>auto intro!: transition_inv claim_inv renew_inv pause_inv resume_inv plain_inv
       simp: run_release_def releaseExpiredClaims_def run_noteFailure_def fingerprint_write_def clearFailureFingerprint_def Let_def plain_change_def run_ok_def\<close>)

interpretation supervisor_inv: store_invariant run_start run_step runs_inv
  by unfold_locales (auto simp: run_start_def run_step_def runs_inv_def [of "({}, _)"] intro: run_write_inv)

lemma steps_inv:
  assumes "runs_inv s" "run_step\<^sup>*\<^sup>* s s'"
  shows "runs_inv s' \<and> fst s \<subseteq> fst s'"
  using assms(2,1)
proof (induction rule: rtranclp_induct)
  case (step y z)
  then have "runs_inv z" "fst y \<subseteq> fst z" using supervisor_inv.inv_step by (blast, simp add: run_step_def)
  with step show ?case by auto
qed (use assms(1) in simp)

lemma later_row:
  assumes "runs_inv s" "r \<in> fst s" "run_step\<^sup>*\<^sup>* s s'"
  obtains r' where "r' \<in> set (sd_runs (snd s'))" "run_after r r'"
  using steps_inv [OF assms(1,3)] assms(2) unfolding runs_inv_def by blast

section \<open>A revision is used once\<close>

datatype run_call =
    CallTransition run_transition_input iso_time iso_time iso_time
  | CallPause supervisor_run iso_time
  | CallResume supervisor_run iso_time

text \<open>The three calls that present a revision; pause and resume work on a row read at some time before.\<close>

definition revision_call :: "run_call \<Rightarrow> string \<Rightarrow> int \<Rightarrow> supervisor_db \<Rightarrow> supervisor_run option \<times> supervisor_db" where
  "revision_call call i rvn db =
     (case call of
        CallTransition ti t1 t2 t3 \<Rightarrow> run_transition (ti\<lparr>ti_id := i, ti_expectedRevision := rvn\<rparr>) t1 t2 t3 db
      | CallPause existing now \<Rightarrow> pause_write existing i rvn now db
      | CallResume existing now \<Rightarrow> resume_write existing i rvn now db)"

definition call_read :: "run_call \<Rightarrow> string \<Rightarrow> supervisor_run set \<Rightarrow> bool" where
  "call_read call i H \<longleftrightarrow> (case call of CallTransition ti t1 t2 t3 \<Rightarrow> True | CallPause existing now \<Rightarrow> existing \<in> H \<and> su_id existing = i
     | CallResume existing now \<Rightarrow> existing \<in> H \<and> su_id existing = i)"

definition revision_accepted :: "run_call \<Rightarrow> string \<times> int \<Rightarrow> run_history \<Rightarrow> bool" where
  "revision_accepted call token s \<longleftrightarrow> call_read call (fst token) (fst s) \<and> fst (revision_call call (fst token) (snd token) (snd s)) \<noteq> None"

definition revision_act :: "unit \<Rightarrow> run_call \<Rightarrow> string \<times> int \<Rightarrow> run_history \<Rightarrow> run_history \<times> bool" where
  "revision_act u call token s =
     (if revision_accepted call token s
      then let db' = snd (revision_call call (fst token) (snd token) (snd s)) in ((fst s \<union> set (sd_runs db'), db'), True)
      else (s, False))"

definition revision_spent :: "string \<times> int \<Rightarrow> run_history \<Rightarrow> bool" where
  "revision_spent token s \<longleftrightarrow> (\<exists>r \<in> set (sd_runs (snd s)). su_id r = fst token \<and> snd token < su_revision r) \<and> runs_inv s"

lemma write_one_accepted:
  assumes "fst (write_one i sel f db) \<noteq> None"
  obtains r where "r \<in> set (sd_runs db)" "sel r" "f r \<in> set (sd_runs (snd (write_one i sel f db)))"
proof -
  have "sql_changes sel (sd_runs db) \<noteq> 0" using assms by (auto simp: write_one_def split: if_splits)
  then obtain r where "r \<in> set (sd_runs db)" "sel r" by (auto simp: sql_changes_def filter_empty_conv)
  moreover from this have "f r \<in> set (sd_runs (snd (write_one i sel f db)))"
    using \<open>sql_changes sel (sd_runs db) \<noteq> 0\<close> by (auto simp: write_one_def write_runs_def sql_update_def image_iff)
  ultimately show thesis using that by blast
qed

lemma write_one_revision:
  assumes "fst (write_one i sel f db) \<noteq> None" "\<And>r. sel r \<Longrightarrow> su_id r = i \<and> su_revision r = rvn \<and> su_id (f r) = i \<and> su_revision (f r) = rvn + 1"
  shows "(\<exists>r \<in> set (sd_runs db). su_id r = i \<and> su_revision r = rvn)
    \<and> (\<exists>r' \<in> set (sd_runs (snd (write_one i sel f db))). su_id r' = i \<and> su_revision r' = rvn + 1)"
  using write_one_accepted [OF assms(1)] assms(2) by metis

lemma accepted_row:
  assumes "fst (revision_call call i rvn db) \<noteq> None"
  shows "(\<exists>r \<in> set (sd_runs db). su_id r = i \<and> su_revision r = rvn)
    \<and> (\<exists>r' \<in> set (sd_runs (snd (revision_call call i rvn db))). su_id r' = i \<and> su_revision r' = rvn + 1)"
proof -
  have "\<exists>sel f. revision_call call i rvn db = write_one i sel f db
      \<and> (\<forall>r. sel r \<longrightarrow> su_id r = i \<and> su_revision r = rvn \<and> su_id (f r) = i \<and> su_revision (f r) = rvn + 1)"
  proof (cases call)
    case (CallTransition ti t1 t2 t3)
    let ?ti = "ti\<lparr>ti_id := i, ti_expectedRevision := rvn\<rparr>"
    have "revision_call call i rvn db = write_one i (transition_where ?ti t2 t3) (transition_changes ?ti t1) db"
      using assms by (auto simp: CallTransition revision_call_def run_transition_def split: if_splits)
    then show ?thesis by (intro exI conjI) (assumption, simp add: transition_where_def transition_changes_def)
  next
    case (CallPause existing now)
    have "revision_call call i rvn db = write_one i (\<lambda>r. su_id r = i \<and> su_revision r = rvn \<and> su_status r = su_status existing)
        (\<lambda>r. r\<lparr>su_status := SPaused, su_resumeStatus := Some (su_status existing), su_revision := rvn + 1, su_updatedAt := now\<rparr>) db"
      using assms by (auto simp: CallPause revision_call_def pause_write_def split: if_splits)
    then show ?thesis by (intro exI conjI) (assumption, simp)
  next
    case (CallResume existing now)
    have "revision_call call i rvn db = write_one i (\<lambda>r. su_id r = i \<and> su_status r = SPaused \<and> su_revision r = rvn)
        (\<lambda>r. r\<lparr>su_status := the (su_resumeStatus existing), su_resumeStatus := None, su_revision := rvn + 1, su_updatedAt := now\<rparr>) db"
      using assms by (auto simp: CallResume revision_call_def resume_write_def split: if_splits option.splits)
    then show ?thesis by (intro exI conjI) (assumption, simp)
  qed
  then show ?thesis using assms write_one_revision by metis
qed

lemma revision_act_inv:
  assumes "runs_inv s"
  shows "runs_inv (fst (revision_act u call token s))"
proof (cases "revision_accepted call token s")
  case True
  obtain H db where s: "s = (H, db)" by (cases s)
  have "run_write H db (snd (revision_call call (fst token) (snd token) db))"
    using True by (cases call) (auto simp: revision_accepted_def call_read_def revision_call_def s intro: run_write.intros)
  then show ?thesis using True run_write_inv assms by (simp add: revision_act_def s Let_def)
qed (use assms in \<open>simp add: revision_act_def\<close>)

lemma spent_not_accepted:
  assumes "revision_spent token s"
  shows "\<not> revision_accepted call token s"
proof
  assume "revision_accepted call token s"
  then obtain r where r: "r \<in> set (sd_runs (snd s))" "su_id r = fst token" "su_revision r = snd token"
    using accepted_row unfolding revision_accepted_def by metis
  from assms obtain q where q: "q \<in> set (sd_runs (snd s))" "su_id q = fst token" "snd token < su_revision q" by (auto simp: revision_spent_def)
  have "distinct (map su_id (sd_runs (snd s)))" using assms by (auto simp: revision_spent_def runs_inv_def)
  from key_unique [OF this r(1) q(1)] r q show False by simp
qed

lemma spent_step:
  assumes "revision_spent token s" "run_step s s'"
  shows "revision_spent token s'"
proof -
  from assms(1) obtain q where q: "q \<in> set (sd_runs (snd s))" "su_id q = fst token" "snd token < su_revision q" and inv: "runs_inv s"
    by (auto simp: revision_spent_def)
  have "q \<in> fst s" using q(1) inv by (auto simp: runs_inv_def)
  then obtain q' where "q' \<in> set (sd_runs (snd s'))" "run_after q q'" using later_row [OF inv] assms(2) by (metis r_into_rtranclp)
  then show ?thesis using q supervisor_inv.inv_step [OF inv assms(2)] by (auto simp: revision_spent_def run_after_def intro!: bexI [of _ q'])
qed

interpretation run_revisions: fenced_store revision_accepted revision_spent revision_act run_step runs_inv
proof unfold_locales
  fix u call token s
  assume inv: "runs_inv s" and acc: "revision_accepted call token s"
  from acc have "fst (revision_call call (fst token) (snd token) (snd s)) \<noteq> None" by (simp add: revision_accepted_def)
  then obtain r' where "r' \<in> set (sd_runs (snd (revision_call call (fst token) (snd token) (snd s))))" "su_id r' = fst token" "su_revision r' = snd token + 1"
    using accepted_row by blast
  then show "revision_spent token (fst (revision_act u call token s))"
    using revision_act_inv [OF inv, of u call token] acc by (auto simp: revision_spent_def revision_act_def Let_def intro!: bexI)
next
  fix token s s'
  assume "revision_spent token s" "run_step s s'"
  then show "revision_spent token s'" by (rule spent_step)
next
  fix u call token s
  assume "runs_inv s"
  then show "runs_inv (fst (revision_act u call token s))" by (rule revision_act_inv)
qed (auto simp: revision_act_def spent_not_accepted Let_def intro: supervisor_inv.inv_step)

section \<open>An example run\<close>

definition demo_input :: run_input where
  "demo_input = \<lparr>ri_missionId = ''m'', ri_workSessionId = ''w'', ri_workspaceSessionId = ''ws'', ri_maxCycles = None, ri_maxWallTimeMs = None,
     ri_autonomyMode = Some AFull, ri_approvalMode = None, ri_policy = None\<rparr>"

definition demo_created :: supervisor_db where
  "demo_created = \<lparr>sd_runs = [new_run demo_input ''1'' 0 0], sd_progress = []\<rparr>"

definition demo_clock :: lease_clock where
  "demo_clock = \<lparr>lc_current = 100, lc_check = 100, lc_expiry = 100, lc_open = 100\<rparr>"

definition demo_leased :: supervisor_db where
  "demo_leased = snd (claim_write (new_run demo_input ''1'' 0 0) ''sup_1'' ''A'' ''n1'' 30000 demo_clock demo_created)"

definition demo_history :: run_history where
  "demo_history = (set (sd_runs demo_created), demo_created)"

definition demo_leased_history :: run_history where
  "demo_leased_history = (fst demo_history \<union> set (sd_runs demo_leased), demo_leased)"

definition demo_move :: "supervisor_status \<Rightarrow> run_transition_input" where
  "demo_move st = \<lparr>ti_id = ''sup_1'', ti_expectedStatus = SCreated, ti_expectedRevision = 1, ti_nextStatus = st, ti_cycleNumber = None, ti_lastEventSeq = None,
     ti_lastSubmissionId = None, ti_lastSnapshotCommit = None, ti_nextActionAt = None, ti_lastError = None, ti_stallReason = None, ti_lease = Some (''A'', ''n1'')\<rparr>"

lemma demo_reachable_run: "reachable run_start run_step demo_history"
proof -
  let ?s = "({}, \<lparr>sd_runs = [], sd_progress = []\<rparr>)"
  have "run_write {} \<lparr>sd_runs = [], sd_progress = []\<rparr> demo_created"
    by (rule w_create [of True demo_input "''1''" 0 0]) (simp add: run_insert_def demo_created_def)
  then have step: "run_step ?s demo_history" by (simp add: run_step_def demo_history_def)
  have "reachable run_start run_step ?s" by (rule reachable_start) (simp add: run_start_def)
  from this step show ?thesis by (rule reachable_step)
qed

lemma demo_leased_step: "run_step demo_history demo_leased_history"
proof -
  have "su_nonce (new_run demo_input ''1'' 0 0) = None" "su_id (new_run demo_input ''1'' 0 0) = ''sup_1''" by (simp_all add: new_run_def Let_def)
  then have "run_write (fst demo_history) demo_created demo_leased" unfolding demo_leased_def
    by (intro w_claim) (simp_all add: demo_history_def demo_created_def)
  then show ?thesis by (simp add: run_step_def demo_leased_history_def demo_history_def)
qed

lemma demo_leased_reachable: "reachable run_start run_step demo_leased_history"
  using demo_reachable_run demo_leased_step by (rule reachable_step)

text \<open>
  C25. Of all transitions, pauses and resumptions that present the same revision of a run, however they
  interleave with each other and with the rest of the system, at most one is accepted: once one was,
  every later one is refused and changes nothing, even when it acts on a row read long before.
\<close>

theorem run_revision_used_once:
  assumes "reachable run_start run_step s" "revision_act () call (i, rvn) s = (s1, True)" "run_step\<^sup>*\<^sup>* s1 s2"
  shows "revision_act () call' (i, rvn) s2 = (s2, False)"
  using run_revisions.accepted_at_most_once [OF supervisor_inv.inv_reachable [OF assms(1)], of "()" call "(i, rvn)" s2 "()" call'] assms(2,3) by simp

theorem run_revision_used_once_witness:
  "case revision_act () (CallTransition (demo_move SPlanning) 200 200 200) (''sup_1'', 1) demo_leased_history of
     (s1, ok) \<Rightarrow> ok \<and> revision_act () (CallPause (new_run demo_input ''1'' 0 0) 300) (''sup_1'', 1) s1 = (s1, False)"
proof -
  let ?res = "revision_act () (CallTransition (demo_move SPlanning) 200 200 200) (''sup_1'', 1) demo_leased_history"
  have "fst (revision_call (CallTransition (demo_move SPlanning) 200 200 200) ''sup_1'' 1 demo_leased) \<noteq> None" by code_simp
  then have "snd ?res" by (simp add: revision_act_def revision_accepted_def call_read_def demo_leased_history_def Let_def)
  then have "?res = (fst ?res, True)" by (metis prod.collapse)
  from run_revision_used_once [OF demo_leased_reachable this rtranclp.rtrancl_refl] \<open>snd ?res\<close> show ?thesis by (auto simp: case_prod_beta)
qed

text \<open>
  Whatever steps follow, a run stays in the table with its deadline and limits, its revision never
  falls and rises with every change of status, and a completed, failed or cancelled run keeps its status;
  a paused run resumes only into a status that is neither paused nor terminal.
\<close>

theorem terminal_runs_final:
  assumes "reachable run_start run_step s" "r \<in> set (sd_runs (snd s))" "run_step\<^sup>*\<^sup>* s s'"
  shows "\<exists>r' \<in> set (sd_runs (snd s')). su_id r' = su_id r \<and> su_deadlineAt r' = su_deadlineAt r \<and> su_maxCycles r' = su_maxCycles r
    \<and> su_failureLimit r' = su_failureLimit r \<and> su_revision r \<le> su_revision r'
    \<and> (su_status r' = su_status r \<or> su_revision r < su_revision r') \<and> (su_status r \<notin> set TERMINAL \<or> su_status r' = su_status r)
    \<and> (su_resumeStatus r' = None \<or> su_status r' = SPaused \<and> the (su_resumeStatus r') \<notin> set (SPaused # TERMINAL))"
proof -
  have inv: "runs_inv s" by (rule supervisor_inv.inv_reachable [OF assms(1)])
  then have "r \<in> fst s" using assms(2) by (auto simp: runs_inv_def)
  from later_row [OF inv this assms(3)] obtain r' where r': "r' \<in> set (sd_runs (snd s'))" "run_after r r'" .
  have "run_ok r'" using steps_inv [OF inv assms(3)] r'(1) by (auto simp: runs_inv_def)
  with r' show ?thesis by (intro bexI [of _ r']) (auto simp: run_after_def run_ok_def)
qed

theorem terminal_runs_final_witness:
  "let r = hd (sd_runs demo_created) in \<exists>r' \<in> set (sd_runs demo_leased). su_id r' = su_id r \<and> su_deadlineAt r' = su_deadlineAt r \<and> su_maxCycles r' = su_maxCycles r
    \<and> su_failureLimit r' = su_failureLimit r \<and> su_revision r \<le> su_revision r'
    \<and> (su_status r' = su_status r \<or> su_revision r < su_revision r') \<and> (su_status r \<notin> set TERMINAL \<or> su_status r' = su_status r)
    \<and> (su_resumeStatus r' = None \<or> su_status r' = SPaused \<and> the (su_resumeStatus r') \<notin> set (SPaused # TERMINAL))"
proof -
  have "hd (sd_runs demo_created) \<in> set (sd_runs (snd demo_history))" by (simp add: demo_created_def demo_history_def)
  moreover have "run_step demo_history demo_leased_history"
    using demo_leased_step by simp
  ultimately show ?thesis using terminal_runs_final [OF demo_reachable_run, of "hd (sd_runs demo_created)" demo_leased_history]
    unfolding Let_def by (simp add: demo_leased_history_def r_into_rtranclp)
qed

section \<open>Leases end before the deadline\<close>

text \<open>
  Work is committed under a lease only while the lease runs, and a lease never outlives the run's
  deadline: a transition that presents a lease and is accepted happens before the deadline, the
  hand-over to a person, which the deadline check exempts, included.
\<close>

theorem leased_commit_before_deadline:
  assumes "reachable run_start run_step s" "run_transition ti t1 t2 t3 (snd s) = (Some q, db')" "ti_lease ti = Some (owner, nonce)"
  shows "\<exists>r e d. r \<in> set (sd_runs (snd s)) \<and> su_id r = ti_id ti \<and> su_owner r = Some owner \<and> su_nonce r = Some nonce
    \<and> su_leaseExpiresAt r = Some e \<and> su_deadlineAt r = Some d \<and> t2 < e \<and> e \<le> d"
proof -
  have "fst (write_one (ti_id ti) (transition_where ti t2 t3) (transition_changes ti t1) (snd s)) \<noteq> None"
    using assms(2) by (auto simp: run_transition_def split: if_splits)
  then obtain r where r: "r \<in> set (sd_runs (snd s))" "transition_where ti t2 t3 r" by (rule write_one_accepted)
  have "run_ok r" using supervisor_inv.inv_reachable [OF assms(1)] r(1) by (auto simp: runs_inv_def)
  with r assms(3) show ?thesis by (intro exI [of _ r]) (auto simp: transition_where_def lease_live_def run_ok_def split: option.splits)
qed

theorem leased_commit_before_deadline_witness:
  "\<exists>r e d. r \<in> set (sd_runs demo_leased) \<and> su_id r = ''sup_1'' \<and> su_owner r = Some ''A'' \<and> su_nonce r = Some ''n1''
    \<and> su_leaseExpiresAt r = Some e \<and> su_deadlineAt r = Some d \<and> 200 < e \<and> e \<le> d"
proof -
  let ?res = "run_transition (demo_move SAwaitingHuman) 200 200 200 demo_leased"
  have "fst ?res \<noteq> None" by code_simp
  then obtain q where "fst ?res = Some q" by blast
  then have "run_transition (demo_move SAwaitingHuman) 200 200 200 (snd demo_leased_history) = (Some q, snd ?res)"
    by (simp add: demo_leased_history_def prod_eq_iff)
  from leased_commit_before_deadline [OF demo_leased_reachable this, of "''A''" "''n1''"] show ?thesis
    by (simp add: demo_move_def demo_leased_history_def)
qed

section \<open>A superseded lease\<close>

lemma nonce_origin:
  assumes "run_write H db db'" "r' \<in> set (sd_runs db')" "su_nonce r' \<noteq> None"
  shows "su_nonce r' \<notin> su_nonce ` H \<or> (\<exists>r \<in> set (sd_runs db). su_id r = su_id r' \<and> su_nonce r = su_nonce r')"
  using assms(1)
proof cases
  case (w_create known input uuid time later)
  then show ?thesis using assms(2,3) by (auto simp: run_insert_def new_run_def Let_def split: if_splits)
qed (use assms(2,3) in \<open>auto simp: run_transition_def transition_changes_def claim_write_def renew_write_def pause_write_def resume_write_def
       run_release_def releaseExpiredClaims_def run_noteFailure_def fingerprint_write_def clearFailureFingerprint_def progress_insert_def progress_update_def
       write_one_def write_runs_def sql_update_def Let_def split: if_splits option.splits\<close>)

definition superseded :: "string \<Rightarrow> string \<Rightarrow> run_history \<Rightarrow> bool" where
  "superseded i n s \<longleftrightarrow> Some n \<in> su_nonce ` fst s \<and> list_all (\<lambda>r. su_id r \<noteq> i \<or> su_nonce r \<noteq> Some n) (sd_runs (snd s))"

lemma superseded_run:
  assumes "superseded i n s" "run_step\<^sup>*\<^sup>* s s'"
  shows "superseded i n s'"
  using assms(2,1)
proof (induction rule: rtranclp_induct)
  case (step y z)
  then have y: "superseded i n y" by simp
  have "su_nonce r' \<noteq> Some n" if "r' \<in> set (sd_runs (snd z))" "su_id r' = i" for r'
    using nonce_origin [of "fst y" "snd y" "snd z" r'] that step(2) y by (force simp: run_step_def superseded_def list_all_iff)
  then show ?case using step(2) y by (auto simp: run_step_def superseded_def list_all_iff)
qed simp

text \<open>
  A lease that was replaced or released is dead. Once a nonce that a run had is no longer its nonce,
  then at every later time, whoever claims the run, all calls that present it are refused or do
  nothing: no transition, renewal, release, failure, fingerprint or progress of the old holder reaches
  the table.
\<close>

theorem superseded_lease_fenced:
  assumes "superseded i n s" "run_step\<^sup>*\<^sup>* s s'" "n \<noteq> []" "db = snd s'" "ti_id ti = i" "ti_lease ti = Some (inst, n)"
  shows "run_transition ti t1 t2 t3 db = (None, db) \<and> renew_write current i inst n ms c db = (None, db) \<and> run_renew i inst n ms c db = (None, db)
    \<and> run_release i inst (Some n) now db = db \<and> run_noteFailure i inst err (Some n) t1 t2 db = db
    \<and> noteFailureFingerprint i inst fp (Some n) now db = (\<lparr>fs_repeated = 0, fs_distinct = 0, fs_maxOccurrences = 0\<rparr>, db)
    \<and> snd (fingerprint_write current i inst fp (Some n) now db) = db \<and> clearFailureFingerprint i inst (Some n) now db = db
    \<and> recordProgress i inst snapshot (Some n) uuid now db = (None, db) \<and> progress_update current i inst (Some n) snapshot delta now db = db"
proof -
  have dead: "\<not> (su_id r = i \<and> su_nonce r = Some n)" if "r \<in> set (sd_runs db)" for r
    using superseded_run [OF assms(1,2)] that assms(4) by (auto simp: superseded_def list_all_iff)
  have refused: "write_one i P f db = (None, db)" if "\<And>r. P r \<Longrightarrow> su_id r = i \<and> su_nonce r = Some n" for P f
    using that dead by (auto simp: write_one_def sql_changes_def filter_empty_conv)
  have "write_one i (transition_where ti t2 t3) (transition_changes ti t1) db = (None, db)"
    by (rule refused) (simp add: transition_where_def lease_live_def assms(5,6))
  moreover have "write_one i (\<lambda>r. su_id r = i \<and> lease_live inst n (lc_current c) r) f db = (None, db)" for f
    by (rule refused) (simp add: lease_live_def)
  ultimately have one: "run_transition ti t1 t2 t3 db = (None, db)" "renew_write current' i inst n ms c db = (None, db)" for current'
    by (simp_all add: run_transition_def renew_write_def assms(5))
  have none: "\<not> owned_by i inst (Some n) r" if "r \<in> set (sd_runs db)" for r using dead [OF that] assms(3) by (auto simp: owned_by_def)
  then have "write_runs (owned_by i inst (Some n)) f db = db" for f by (simp add: write_runs_def sql_update_def map_idI)
  moreover have "find (owned_by i inst (Some n)) (sd_runs db) = None" using none by (simp add: find_None_iff_all)
  ultimately show ?thesis using one
    by (simp add: run_renew_def run_release_def run_noteFailure_def noteFailureFingerprint_def fingerprint_write_def clearFailureFingerprint_def recordProgress_def
        progress_update_def Let_def split: option.splits)
qed

theorem superseded_lease_fenced_witness:
  "let db = run_release ''sup_1'' ''A'' (Some ''n1'') 300 demo_leased in
   run_transition (demo_move SPlanning) 400 400 400 db = (None, db) \<and> run_renew ''sup_1'' ''A'' ''n1'' 30000 demo_clock db = (None, db)
   \<and> run_noteFailure ''sup_1'' ''A'' ''late'' (Some ''n1'') 400 400 db = db"
proof -
  let ?db = "run_release ''sup_1'' ''A'' (Some ''n1'') 300 demo_leased"
  have "superseded ''sup_1'' ''n1'' (fst demo_leased_history, ?db)"
  proof -
    have "list_ex (\<lambda>r. su_nonce r = Some ''n1'') (sd_runs demo_leased)" by code_simp
    then have "Some ''n1'' \<in> su_nonce ` fst demo_leased_history" by (force simp: demo_leased_history_def list_ex_iff)
    moreover have "list_all (\<lambda>r. su_id r \<noteq> ''sup_1'' \<or> su_nonce r \<noteq> Some ''n1'') (sd_runs ?db)" by code_simp
    ultimately show ?thesis by (simp add: superseded_def)
  qed
  from superseded_lease_fenced [OF this rtranclp.rtrancl_refl _ refl, of "demo_move SPlanning" "''A''" 400 400 400 _ 30000 demo_clock 300 "''late''"]
    superseded_lease_fenced [OF this rtranclp.rtrancl_refl _ refl, of "demo_move SPlanning" "''A''" 400 400 400 _ 30000 demo_clock 300 "''late''"]
  show ?thesis by (simp add: Let_def demo_move_def)
qed

section \<open>Repeated and oscillating failures\<close>

text \<open>The fingerprint forgets order, repetition and white space of the reasons.\<close>

lemma fingerprint_of_reason_set:
  assumes "ev_decision e = ev_decision e'" "ev_failureSetSha256 e = ev_failureSetSha256 e'"
    "set (plain_reasons (ev_reasons e)) = set (plain_reasons (ev_reasons e'))"
  shows "deterministicFailureFingerprint sha256 e = deterministicFailureFingerprint sha256 e'"
proof -
  have "sort (remdups (plain_reasons (ev_reasons e))) = sort (remdups (plain_reasons (ev_reasons e')))"
    by (rule sorted_distinct_set_unique) (simp_all add: assms(3))
  then show ?thesis unfolding deterministicFailureFingerprint_def assms(1,2) by simp
qed

text \<open>The failures of one cycle after the other, and what the counters should say of them.\<close>

definition note_all :: "string \<Rightarrow> string \<Rightarrow> string option \<Rightarrow> (string \<times> iso_time) list \<Rightarrow> supervisor_db \<Rightarrow> fingerprint_state \<times> supervisor_db" where
  "note_all i inst nonce fs db =
     fold (\<lambda>(f, now) (st, db'). noteFailureFingerprint i inst f nonce now db') fs (\<lparr>fs_repeated = 0, fs_distinct = 0, fs_maxOccurrences = 0\<rparr>, db)"

definition trailing :: "string list \<Rightarrow> nat" where
  "trailing ns = length (takeWhile (\<lambda>x. x = last ns) (rev ns))"

definition fingerprint_counts :: "string list \<Rightarrow> fingerprint_state" where
  "fingerprint_counts ns = \<lparr>fs_repeated = int (trailing ns), fs_distinct = card (set ns),
     fs_maxOccurrences = Max (insert 0 ((\<lambda>f. int (count_list ns f)) ` set ns))\<rparr>"

definition counted :: "string list \<Rightarrow> (string \<times> int) list \<Rightarrow> bool" where
  "counted ns xs \<longleftrightarrow> distinct (map fst xs) \<and> fst ` set xs = set ns \<and> (\<forall>(f, k) \<in> set xs. k = int (count_list ns f))"

lemma trailing_snoc: "trailing (ns @ [f]) = (if ns \<noteq> [] \<and> last ns = f then trailing ns + 1 else 1)"
  by (cases ns rule: rev_cases) (auto simp: trailing_def)

lemma bump_keys: "fst ` set (bump_count f xs) = insert f (fst ` set xs)"
  by (induction xs rule: bump_count.induct) auto

lemma bump_distinct: "distinct (map fst xs) \<Longrightarrow> distinct (map fst (bump_count f xs))"
proof (induction f xs rule: bump_count.induct)
  case (2 f g n xs)
  then show ?case using bump_keys [of f xs] by auto
qed simp

lemma bump_entries:
  assumes "distinct (map fst xs)" "(g, k) \<in> set (bump_count f xs)"
  shows "if g = f then (k = 1 \<and> f \<notin> fst ` set xs) \<or> (f, k - 1) \<in> set xs else (g, k) \<in> set xs"
  using assms by (induction f xs rule: bump_count.induct) (force split: if_splits)+

lemma counted_snoc:
  assumes "counted ns xs"
  shows "counted (ns @ [f]) (bump_count f xs)"
proof -
  have "k = int (count_list (ns @ [f]) g)" if "(g, k) \<in> set (bump_count f xs)" for g k
  proof -
    have "if g = f then (k = 1 \<and> f \<notin> fst ` set xs) \<or> (f, k - 1) \<in> set xs else (g, k) \<in> set xs"
      using assms that by (intro bump_entries) (auto simp: counted_def)
    moreover have "count_list ns f = 0" if "f \<notin> fst ` set xs" using that assms by (simp add: counted_def)
    ultimately show ?thesis using assms by (auto simp: counted_def split: if_splits)
  qed
  then show ?thesis using assms bump_keys [of f xs] bump_distinct [of xs f] by (auto simp: counted_def)
qed

definition row_tally :: "string list \<Rightarrow> supervisor_run \<Rightarrow> bool" where
  "row_tally ns r \<longleftrightarrow> su_lastFingerprint r = (if ns = [] then None else Some (last ns)) \<and> su_repeatedFailureCount r = int (trailing ns) \<and> counted ns (su_fingerprints r)"

lemma counted_state:
  assumes "counted ns xs"
  shows "\<lparr>fs_repeated = int (trailing ns), fs_distinct = length xs, fs_maxOccurrences = fold max (map snd xs) 0\<rparr> = fingerprint_counts ns"
proof -
  have "length xs = card (set ns)" using assms distinct_card [of "map fst xs"] by (simp add: counted_def)
  moreover have "set (map snd xs) = (\<lambda>f. int (count_list ns f)) ` set ns"
    using assms by (force simp: counted_def image_iff)
  then have "fold max (map snd xs) 0 = Max (insert 0 ((\<lambda>f. int (count_list ns f)) ` set ns))"
    using Max.set_eq_fold [of 0 "map snd xs"] by simp
  ultimately show ?thesis by (simp add: fingerprint_counts_def)
qed

lemma find_owned_update:
  assumes "find P xs = Some r" "\<And>x. P x \<Longrightarrow> P (g x)"
  shows "find P (sql_update P g xs) = Some (g r)"
  using assms by (induction xs) (auto simp: sql_update_def split: if_splits)

lemma note_tally:
  assumes "find (owned_by i inst nonce) (sd_runs db) = Some r" "row_tally ns r"
  shows "fst (noteFailureFingerprint i inst f nonce now db) = fingerprint_counts (ns @ [f])
    \<and> (\<exists>r'. find (owned_by i inst nonce) (sd_runs (snd (noteFailureFingerprint i inst f nonce now db))) = Some r' \<and> row_tally (ns @ [f]) r')"
proof -
  define n where "n = (if su_lastFingerprint r = Some f then su_repeatedFailureCount r + 1 else 1)"
  define g where "g = (\<lambda>r' :: supervisor_run. r'\<lparr>su_lastFingerprint := Some f, su_repeatedFailureCount := n, su_fingerprints := bump_count f (su_fingerprints r), su_updatedAt := now\<rparr>)"
  have n: "n = int (trailing (ns @ [f]))" using assms(2) by (auto simp: n_def row_tally_def trailing_snoc)
  have counted: "counted (ns @ [f]) (bump_count f (su_fingerprints r))" using assms(2) counted_snoc by (simp add: row_tally_def)
  have "noteFailureFingerprint i inst f nonce now db
      = (\<lparr>fs_repeated = n, fs_distinct = length (bump_count f (su_fingerprints r)), fs_maxOccurrences = fold max (map snd (bump_count f (su_fingerprints r))) 0\<rparr>,
         write_runs (owned_by i inst nonce) g db)"
    using assms(1) by (simp add: noteFailureFingerprint_def fingerprint_write_def Let_def n_def g_def)
  moreover have "find (owned_by i inst nonce) (sd_runs (write_runs (owned_by i inst nonce) g db)) = Some (g r)"
    using find_owned_update [OF assms(1), of g] by (simp add: write_runs_def g_def owned_by_def)
  moreover have "row_tally (ns @ [f]) (g r)" using n counted by (simp add: row_tally_def g_def)
  ultimately show ?thesis using counted_state [OF counted] n by simp
qed

lemma note_all_tally:
  assumes "find (owned_by i inst nonce) (sd_runs db) = Some r" "row_tally [] r"
  shows "(fs = [] \<or> fst (note_all i inst nonce fs db) = fingerprint_counts (map fst fs))
    \<and> (\<exists>r'. find (owned_by i inst nonce) (sd_runs (snd (note_all i inst nonce fs db))) = Some r' \<and> row_tally (map fst fs) r')"
proof (induction fs rule: rev_induct)
  case Nil
  then show ?case using assms by (simp add: note_all_def)
next
  case (snoc x fs)
  then obtain r' where "find (owned_by i inst nonce) (sd_runs (snd (note_all i inst nonce fs db))) = Some r'" "row_tally (map fst fs) r'" by blast
  moreover have "note_all i inst nonce (fs @ [x]) db = noteFailureFingerprint i inst (fst x) nonce (snd x) (snd (note_all i inst nonce fs db))"
    by (simp add: note_all_def case_prod_beta)
  ultimately show ?case using note_tally by simp
qed

lemma distinct_count_list: "distinct ns \<longleftrightarrow> (\<forall>f \<in> set ns. count_list ns f < 2)"
proof (induction ns)
  case (Cons x ns)
  have "count_list ns x = 0 \<longleftrightarrow> x \<notin> set ns" by (simp add: count_list_0_iff)
  with Cons show ?case by (auto simp: less_Suc_eq)
qed simp

lemma recurs_iff: "2 \<le> fs_maxOccurrences (fingerprint_counts ns) \<longleftrightarrow> \<not> distinct ns"
proof -
  have "2 \<le> Max (insert 0 ((\<lambda>f. int (count_list ns f)) ` set ns)) \<longleftrightarrow> (\<exists>f \<in> set ns. 2 \<le> count_list ns f)"
    by (subst Max_ge_iff) auto
  then show ?thesis by (auto simp: fingerprint_counts_def distinct_count_list not_less)
qed

lemma trailing_pos: "ns \<noteq> [] \<Longrightarrow> 1 \<le> trailing ns"
  by (cases ns rule: rev_cases) (auto simp: trailing_def)

lemma trailing_le: "trailing ns \<le> length ns"
  unfolding trailing_def by (metis length_rev length_takeWhile_le)

lemma trailing_distinct:
  assumes "distinct ns"
  shows "trailing ns \<le> 1"
proof (cases ns rule: rev_cases)
  case (snoc ms f)
  then have "ms = [] \<or> last ms \<noteq> f" using assms by (auto dest: last_in_set)
  then show ?thesis by (auto simp: snoc trailing_snoc)
qed (simp add: trailing_def)

lemma trailing_same:
  assumes "card (set ns) = 1"
  shows "trailing ns = length ns"
proof -
  from assms obtain f where "set ns = {f}" by (auto simp: card_1_singleton_iff)
  then have "\<forall>x \<in> set (rev ns). x = last ns" by (metis empty_not_insert last_in_set set_empty set_rev singletonD)
  then show ?thesis by (simp add: trailing_def takeWhile_eq_all_conv [THEN iffD2])
qed

lemma judge_counts:
  assumes "ev_decision ev = DCorrectionPending" "ns \<noteq> []"
  shows "ev_decision (fst (judge_correction claimed (fingerprint_counts ns) None ev)) = DCorrectionPending
    \<longleftrightarrow> int (trailing ns) < su_failureLimit claimed \<and> (distinct ns \<or> card (set ns) = 1)"
proof -
  have "0 < card (set ns)" using assms(2) by (simp add: card_gt_0_iff)
  then have "2 \<le> fs_distinct (fingerprint_counts ns) \<longleftrightarrow> card (set ns) \<noteq> 1" by (auto simp: fingerprint_counts_def)
  moreover have "fs_repeated (fingerprint_counts ns) = int (trailing ns)" by (simp add: fingerprint_counts_def)
  ultimately show ?thesis using assms(1) recurs_iff [of ns]
    by (auto simp: judge_correction_def hand_over_def OSCILLATION_RECURRENCE_LIMIT_def)
qed



end
