(* ===== verification/Peer_Receipts.thy ===== *)
theory Peer_Receipts
  imports Kontrol_Prelude
begin

text \<open>
  Contracts and receipts of peer jobs, src/src/peer/jobs/contracts.ts and service.ts: the job another
  host carries out, its attempts, and the checks on the manifest of files it returns. SHA-256 is a
  parameter. Inputs have the types the contracts give them.
\<close>

section \<open>Contracts\<close>

datatype peer_job_status =
    PeerPending
  | PeerClaimed
  | PeerRunning
  | PeerAwaitingReconciliation
  | PeerResultReceived
  | PeerStaging
  | PeerAwaitingReview
  | PeerReviewChangesRequested
  | PeerCompleted
  | PeerFailed
  | PeerCancelled

datatype peer_task_class = ReadOnlyAudit | ProposePatch | BoundedExecution

datatype outcome_certainty = NotStarted | Started | Unknown | TerminalVerified

datatype peer_actor_class = MuseVmProcess | MetaMuseAgent | OtherActor string

datatype attempt_status = AttemptActive | AttemptCompleted | AttemptFailed | AttemptExpired | AttemptSuperseded

datatype receipt_state = Succeeded | ReceiptFailed | ReceiptCancelled | OtherState string

datatype review_verdict = VerdictApprove | VerdictChangesRequested | VerdictReject

datatype verification_status = VerificationPassed | VerificationFailed | VerificationInconclusive | VerificationNotConfigured

record manifest_file =
  mf_path :: string
  mf_sha256 :: string
  mf_bytes :: int

record peer_receipt =
  pc_jobId :: string
  pc_attemptId :: string
  pc_actorClass :: peer_actor_class
  pc_baseRevision :: string
  pc_manifestSha256 :: string
  pc_files :: "manifest_file list"
  pc_totalBytes :: int
  pc_terminalState :: receipt_state
  pc_summary :: "string option"

record result_processing =
  rp_receiptSha256 :: "string option"
  rp_submissionId :: "string option"
  rp_reviewEpoch :: "int option"
  rp_snapshotKind :: "string option"
  rp_snapshotRef :: "string option"
  rp_diffSha256 :: "string option"
  rp_reviewVerdict :: "review_verdict option"
  rp_feedbackId :: "string option"
  rp_verificationStatus :: "verification_status option"
  rp_verificationEvidence :: "string option"
  rp_failure :: "string option"
  rp_retryRevision :: "int option"
  rp_updatedAt :: iso_time

record peer_job =
  pj_jobId :: string
  pj_peerId :: string
  pj_workSessionId :: "string option"
  pj_workspaceSessionId :: "string option"
  pj_schedulerDispatchId :: "string option"
  pj_repositoryId :: string
  pj_baseRevision :: string
  pj_taskClass :: peer_task_class
  pj_instructionHash :: string
  pj_instructions :: string
  pj_allowedOutputs :: "string list"
  pj_maxRuntimeMs :: int
  pj_maxArtifactBytes :: int
  pj_status :: peer_job_status
  pj_createdAt :: iso_time
  pj_cancelRequestedAt :: "iso_time option"
  pj_terminalAt :: "iso_time option"
  pj_terminalReason :: "string option"
  pj_result :: "result_processing option"

record peer_attempt =
  pa_attemptId :: string
  pa_jobId :: string
  pa_claimToken :: string
  pa_owner :: string
  pa_generation :: nat
  pa_createdAt :: iso_time
  pa_leaseExpiresAt :: iso_time
  pa_lastHeartbeatAt :: "iso_time option"
  pa_remoteExecutionId :: "string option"
  pa_startedAt :: "iso_time option"
  pa_certainty :: outcome_certainty
  pa_status :: attempt_status
  pa_receipt :: "peer_receipt option"

datatype peer_error =
    JobNotFound
  | AttemptNotFound
  | AttemptForbidden
  | ClaimTokenMismatch
  | StaleGeneration
  | AttemptNotActive
  | LeaseExpired
  | JobNotActive
  | InvalidJobId
  | PeerJobIdConflict
  | NotStartedAfterStarted
  | InvalidLease
  | RuntimeBudgetExceeded
  | ConflictingResult
  | InvalidResultTransition
  | ResultReceiptConflict
  | VerificationIdentityMismatch
  | NotReconcilable
  | ReconciliationStale
  | ResultUnavailable
  | ReviewIdentityMismatch
  | JobTerminal
  | CancelNotRequested
  | CancelRequiresAck
  | PeerJobsCapExceeded
  | ActorClassUnverified
  | InvalidActorClass
  | InvalidManifestPath
  | PathTraversal
  | InvalidAllowedOutputs
  | AttemptMismatch
  | BaseRevisionMismatch
  | ArtifactCountExceeded
  | InvalidTerminalState
  | SummaryTooLarge
  | DuplicateManifestPath
  | OutputNotAllowed
  | InvalidFileHash
  | InvalidFileBytes
  | ArtifactBytesExceeded
  | TotalBytesMismatch
  | ManifestHashMismatch

section \<open>Paths\<close>

text \<open>Every run of slashes becomes one; the flag says that the character before was one.\<close>

fun collapse_slashes :: "bool \<Rightarrow> string \<Rightarrow> string" where
  "collapse_slashes prev [] = []"
| "collapse_slashes prev (c # cs) =
     (if c = CHR ''/'' then (if prev then collapse_slashes True cs else c # collapse_slashes True cs) else c # collapse_slashes False cs)"

fun split_slash :: "string \<Rightarrow> string list" where
  "split_slash [] = [[]]"
| "split_slash (c # cs) = (if c = CHR ''/'' then [] # split_slash cs else (case split_slash cs of [] \<Rightarrow> [[c]] | w # ws \<Rightarrow> (c # w) # ws))"

fun join_slash :: "string list \<Rightarrow> string" where
  "join_slash [] = []"
| "join_slash [w] = w"
| "join_slash (w # ws) = w @ ''/'' @ join_slash ws"

definition is_letter :: "char \<Rightarrow> bool" where
  "is_letter c \<longleftrightarrow> c \<in> set ''abcdefghijklmnopqrstuvwxyzABCDEFGHIJKLMNOPQRSTUVWXYZ''"

definition has_drive :: "string \<Rightarrow> bool" where
  "has_drive s \<longleftrightarrow> (case s of c # d # _ \<Rightarrow> is_letter c \<and> d = CHR '':'' | _ \<Rightarrow> False)"

definition not_relative :: "string \<Rightarrow> bool" where
  "not_relative s \<longleftrightarrow> starts_with s ''/'' \<or> CHR 0x5C \<in> set s \<or> has_drive s"

definition kept_segments :: "string \<Rightarrow> string list" where
  "kept_segments s = filter (\<lambda>w. w \<noteq> ''.'' \<and> w \<noteq> []) (split_slash s)"

definition canonicalizeManifestPath :: "string \<Rightarrow> peer_error + string" where
  "canonicalizeManifestPath rawPath =
     (if rawPath = [] then Inl InvalidManifestPath
      else let normalized = collapse_slashes False rawPath
           in if not_relative normalized then Inl PathTraversal
              else if ''..'' \<in> set (kept_segments normalized) then Inl PathTraversal
              else if kept_segments normalized = [] then Inl InvalidManifestPath
              else Inr (join_slash (kept_segments normalized)))"

definition normalize_output :: "string \<Rightarrow> peer_error + string" where
  "normalize_output entry =
     (if entry = [] then Inl InvalidAllowedOutputs
      else if entry = ''*'' then Inr ''*''
      else let collapsed = collapse_slashes False entry;
               candidate = (if ends_with collapsed ''/'' then butlast collapsed else collapsed)
           in if not_relative candidate then Inl PathTraversal
              else if ''..'' \<in> set (kept_segments candidate) then Inl PathTraversal
              else if kept_segments candidate = [] then Inl InvalidAllowedOutputs
              else Inr (join_slash (kept_segments candidate)))"

fun normalize_outputs :: "string list \<Rightarrow> peer_error + string list" where
  "normalize_outputs [] = Inr []"
| "normalize_outputs (e # es) =
     (case normalize_output e of Inl err \<Rightarrow> Inl err | Inr p \<Rightarrow> (case normalize_outputs es of Inl err \<Rightarrow> Inl err | Inr ps \<Rightarrow> Inr (p # ps)))"

text \<open>\<open>[...new Set(xs)]\<close>: the first of equal entries stays.\<close>

definition unique_entries :: "string list \<Rightarrow> string list" where
  "unique_entries xs = rev (remdups (rev xs))"

definition normalizeAllowedOutputs :: "string list \<Rightarrow> peer_error + string list" where
  "normalizeAllowedOutputs entries = map_sum id unique_entries (normalize_outputs entries)"

definition allowedOutputsMatch :: "string list \<Rightarrow> string \<Rightarrow> bool" where
  "allowedOutputsMatch allowedOutputs p \<longleftrightarrow> list_ex (\<lambda>entry. entry = ''*'' \<or> p = entry \<or> starts_with p (entry @ ''/'')) allowedOutputs"

section \<open>Receipts\<close>

definition validateActorClass :: "peer_actor_class \<Rightarrow> peer_error option" where
  "validateActorClass a = (case a of MuseVmProcess \<Rightarrow> None | MetaMuseAgent \<Rightarrow> Some ActorClassUnverified | OtherActor _ \<Rightarrow> Some InvalidActorClass)"

definition is_file_hash :: "string \<Rightarrow> bool" where
  "is_file_hash s \<longleftrightarrow> length s = 64 \<and> list_all (\<lambda>c. c \<in> set ''abcdef0123456789'') s"

definition canonical_path :: "string \<Rightarrow> string" where
  "canonical_path p = (case canonicalizeManifestPath p of Inr q \<Rightarrow> q | Inl e \<Rightarrow> [])"

definition file_json :: "manifest_file \<Rightarrow> json" where
  "file_json f = JObj [(''path'', JStr (canonical_path (mf_path f))), (''sha256'', JStr (mf_sha256 f)), (''bytes'', JInt (mf_bytes f))]"

text \<open>A path the canonical form does not exist for makes the call throw.\<close>

definition canonicalManifestJson :: "string \<Rightarrow> manifest_file list \<Rightarrow> peer_error + string" where
  "canonicalManifestJson baseRevision files =
     (case find (\<lambda>f. isl (canonicalizeManifestPath (mf_path f))) files of
        Some f \<Rightarrow> Inl (projl (canonicalizeManifestPath (mf_path f)))
      | None \<Rightarrow> Inr (json_stringify (JObj [(''baseRevision'', JStr baseRevision),
          (''files'', JArr (map file_json (sort_key (\<lambda>f. canonical_path (mf_path f)) files)))])))"

text \<open>The loop over the files: the paths seen and the bytes so far.\<close>

fun check_files :: "string list \<Rightarrow> string list \<Rightarrow> int \<Rightarrow> manifest_file list \<Rightarrow> peer_error + int" where
  "check_files allowed seen acc [] = Inr acc"
| "check_files allowed seen acc (f # fs) =
     (if mf_path f = [] then Inl InvalidManifestPath
      else case canonicalizeManifestPath (mf_path f) of
        Inl e \<Rightarrow> Inl e
      | Inr p \<Rightarrow>
          if p \<in> set seen then Inl DuplicateManifestPath
          else if \<not> allowedOutputsMatch allowed p then Inl OutputNotAllowed
          else if \<not> is_file_hash (mf_sha256 f) then Inl InvalidFileHash
          else if mf_bytes f < 0 then Inl InvalidFileBytes
          else check_files allowed (p # seen) (acc + mf_bytes f) fs)"

definition MAX_SUMMARY_BYTES :: nat where
  "MAX_SUMMARY_BYTES = 4 * 1024"

definition validateResultReceipt :: "(string \<Rightarrow> string) \<Rightarrow> peer_job \<Rightarrow> peer_attempt \<Rightarrow> peer_receipt \<Rightarrow> peer_error + unit" where
  "validateResultReceipt sha256 job attempt receipt =
     (if pc_jobId receipt \<noteq> pj_jobId job \<or> pc_attemptId receipt \<noteq> pa_attemptId attempt then Inl AttemptMismatch
      else case validateActorClass (pc_actorClass receipt) of
        Some e \<Rightarrow> Inl e
      | None \<Rightarrow>
          if pc_baseRevision receipt \<noteq> pj_baseRevision job then Inl BaseRevisionMismatch
          else if length (pc_files receipt) > 4096 then Inl ArtifactCountExceeded
          else if pc_terminalState receipt \<notin> {Succeeded, ReceiptFailed, ReceiptCancelled} then Inl InvalidTerminalState
          else if (case pc_summary receipt of None \<Rightarrow> False | Some s \<Rightarrow> utf8_length s > MAX_SUMMARY_BYTES) then Inl SummaryTooLarge
          else case check_files (pj_allowedOutputs job) [] 0 (pc_files receipt) of
            Inl e \<Rightarrow> Inl e
          | Inr acc \<Rightarrow>
              if acc > pj_maxArtifactBytes job then Inl ArtifactBytesExceeded
              else if pc_totalBytes receipt \<noteq> acc then Inl TotalBytesMismatch
              else case canonicalManifestJson (pc_baseRevision receipt) (pc_files receipt) of
                Inl e \<Rightarrow> Inl e
              | Inr text' \<Rightarrow> if pc_manifestSha256 receipt \<noteq> sha256 text' then Inl ManifestHashMismatch else Inr ())"

definition manifestSha256 :: "(string \<Rightarrow> string) \<Rightarrow> string \<Rightarrow> manifest_file list \<Rightarrow> peer_error + string" where
  "manifestSha256 sha256 baseRevision files = map_sum id sha256 (canonicalManifestJson baseRevision files)"

section \<open>Canonical paths\<close>

lemma split_words:
  assumes "w \<in> set (split_slash s)"
  shows "CHR ''/'' \<notin> set w \<and> set w \<subseteq> set s"
  using assms
proof (induction s arbitrary: w)
  case (Cons c cs)
  show ?case
  proof (cases "split_slash cs")
    case Nil
    then show ?thesis using Cons by (auto split: if_splits)
  next
    case (Cons v vs)
    with Cons.IH [of v] Cons.IH [of w] Cons.prems show ?thesis by (auto split: if_splits)
  qed
qed simp

lemma split_not_Nil [simp]: "split_slash s \<noteq> []"
  by (cases s) (auto split: list.splits)

lemma split_word: "CHR ''/'' \<notin> set w \<Longrightarrow> split_slash w = [w]"
  by (induction w) auto

lemma split_word_append: "CHR ''/'' \<notin> set w \<Longrightarrow> split_slash (w @ CHR ''/'' # s) = w # split_slash s"
  by (induction w) auto

definition plain_words :: "string list \<Rightarrow> bool" where
  "plain_words ws \<longleftrightarrow> ws \<noteq> [] \<and> list_all (\<lambda>w. w \<noteq> [] \<and> CHR ''/'' \<notin> set w) ws"

lemma join_plain:
  assumes "plain_words ws"
  shows "split_slash (join_slash ws) = ws" "collapse_slashes b (join_slash ws) = join_slash ws" "hd (join_slash ws) \<noteq> CHR ''/''" "join_slash ws \<noteq> []"
proof -
  have "collapse_slashes False (w @ s) = w @ collapse_slashes False s" if "CHR ''/'' \<notin> set w" for w s
    using that by (induction w) auto
  then have word: "collapse_slashes b (w @ s) = w @ collapse_slashes False s" if "w \<noteq> []" "CHR ''/'' \<notin> set w" for b w s
    using that by (cases w) auto
  have "split_slash (join_slash ws) = ws \<and> (\<forall>b. collapse_slashes b (join_slash ws) = join_slash ws) \<and> hd (join_slash ws) \<noteq> CHR ''/'' \<and> join_slash ws \<noteq> []"
    using assms
  proof (induction ws rule: join_slash.induct)
    case (2 w)
    then show ?case using word [of w _ "[]"] split_word [of w] by (cases w) (auto simp: plain_words_def)
  next
    case (3 w v vs)
    then have w: "w \<noteq> []" "CHR ''/'' \<notin> set w" and rest: "plain_words (v # vs)" by (auto simp: plain_words_def)
    with 3 show ?case using word [OF w, of _ "CHR ''/'' # join_slash (v # vs)"] split_word_append [OF w(2), of "join_slash (v # vs)"] by (cases w) auto
  qed (simp add: plain_words_def)
  then show "split_slash (join_slash ws) = ws" "collapse_slashes b (join_slash ws) = join_slash ws" "hd (join_slash ws) \<noteq> CHR ''/''" "join_slash ws \<noteq> []" by auto
qed

lemma set_join: "set (join_slash ws) \<subseteq> insert (CHR ''/'') (\<Union> (set ` set ws))"
  by (induction ws rule: join_slash.induct) auto

lemma kept_plain: "kept_segments s \<noteq> [] \<Longrightarrow> plain_words (kept_segments s)"
  using split_words by (fastforce simp: plain_words_def kept_segments_def list_all_iff)

text \<open>
  C33. A manifest path that is accepted is canonical: its segments are non-empty and none is \<open>.\<close> or
  \<open>..\<close>, it has no backslash and does not start with a slash, and canonicalising it again changes
  nothing. The exception is a drive letter behind a leading \<open>./\<close>, which passes the first time and is
  refused the second.
\<close>

theorem manifest_path_canonical:
  assumes "canonicalizeManifestPath rawPath = Inr p"
  shows "list_all (\<lambda>w. w \<notin> {[], ''.'', ''..''}) (split_slash p) \<and> CHR 0x5C \<notin> set p \<and> \<not> starts_with p ''/''
    \<and> canonicalizeManifestPath p = (if has_drive p then Inl PathTraversal else Inr p)"
proof -
  define s where "s = collapse_slashes False rawPath"
  define ws where "ws = kept_segments s"
  from assms have s: "\<not> not_relative s" "''..'' \<notin> set ws" "ws \<noteq> []" "p = join_slash ws"
    by (auto simp: canonicalizeManifestPath_def Let_def s_def ws_def split: if_splits)
  have plain: "plain_words ws" using kept_plain s(3) by (simp add: ws_def)
  note join = join_plain [OF plain, folded s(4)]
  have clean: "list_all (\<lambda>w. w \<notin> {[], ''.'', ''..''}) ws" using s(2) by (auto simp: ws_def kept_segments_def list_all_iff)
  have "set w \<subseteq> set s" if "w \<in> set ws" for w using split_words that by (simp add: ws_def kept_segments_def)
  then have bslash: "CHR 0x5C \<notin> set p" using set_join [of ws] s(1,4) by (auto simp: not_relative_def)
  have slash: "\<not> starts_with p ''/''" using join(3,4) by (cases p) (auto simp: starts_with_def)
  have "kept_segments p = ws" unfolding kept_segments_def join(1) using clean by (auto simp: list_all_iff intro: filter_True)
  then have "canonicalizeManifestPath p = (if has_drive p then Inl PathTraversal else Inr p)"
    using join s(2-4) bslash slash by (simp add: canonicalizeManifestPath_def not_relative_def)
  with clean bslash slash join(1) show ?thesis by simp
qed

theorem manifest_path_canonical_witness:
  "canonicalizeManifestPath ''./out//a/.'' = Inr ''out/a'' \<and> canonicalizeManifestPath ''out/a'' = Inr ''out/a''
   \<and> canonicalizeManifestPath ''./C:/x'' = Inr ''C:/x'' \<and> canonicalizeManifestPath ''C:/x'' = Inl PathTraversal"
proof -
  have a: "canonicalizeManifestPath ''./out//a/.'' = Inr ''out/a''" by code_simp
  have c: "canonicalizeManifestPath ''./C:/x'' = Inr ''C:/x''" by code_simp
  have "\<not> has_drive ''out/a''" "has_drive ''C:/x''" by code_simp+
  with manifest_path_canonical [OF a] manifest_path_canonical [OF c] a c show ?thesis by simp
qed

section \<open>Accepted receipts\<close>

lemma check_files_iff:
  "check_files allowed seen acc fs = Inr n \<longleftrightarrow>
     list_all (\<lambda>f. \<not> isl (canonicalizeManifestPath (mf_path f)) \<and> canonical_path (mf_path f) \<notin> set seen \<and> allowedOutputsMatch allowed (canonical_path (mf_path f))
       \<and> is_file_hash (mf_sha256 f) \<and> 0 \<le> mf_bytes f) fs
     \<and> distinct (map (\<lambda>f. canonical_path (mf_path f)) fs) \<and> n = acc + sum_list (map mf_bytes fs)"
proof (induction fs arbitrary: seen acc)
  case (Cons f fs)
  show ?case
  proof (cases "canonicalizeManifestPath (mf_path f)")
    case (Inl e)
    then show ?thesis by simp
  next
    case (Inr p)
    then have "mf_path f \<noteq> []" "canonical_path (mf_path f) = p" by (auto simp: canonicalizeManifestPath_def canonical_path_def)
    with Inr Cons show ?thesis by (auto simp: list_all_iff image_iff)
  qed
qed auto

text \<open>
  The checks on a result receipt accept exactly the receipts that name the job and attempt, come from
  the process class that may be claimed, keep the base revision, and list at most 4096 files with pairwise
  different canonical paths, each under an allowed output, with a well-formed hash and a size, whose sizes
  add up to the stated total within the job's limit and whose canonical manifest has the stated hash.
\<close>

theorem receipt_accepted_iff:
  "validateResultReceipt sha256 job attempt receipt = Inr () \<longleftrightarrow>
     pc_jobId receipt = pj_jobId job \<and> pc_attemptId receipt = pa_attemptId attempt \<and> pc_actorClass receipt = MuseVmProcess
     \<and> pc_baseRevision receipt = pj_baseRevision job \<and> length (pc_files receipt) \<le> 4096
     \<and> pc_terminalState receipt \<in> {Succeeded, ReceiptFailed, ReceiptCancelled}
     \<and> (case pc_summary receipt of None \<Rightarrow> True | Some s \<Rightarrow> utf8_length s \<le> 4096)
     \<and> list_all (\<lambda>f. \<not> isl (canonicalizeManifestPath (mf_path f)) \<and> allowedOutputsMatch (pj_allowedOutputs job) (canonical_path (mf_path f))
         \<and> is_file_hash (mf_sha256 f) \<and> 0 \<le> mf_bytes f) (pc_files receipt)
     \<and> distinct (map (\<lambda>f. canonical_path (mf_path f)) (pc_files receipt))
     \<and> pc_totalBytes receipt = sum_list (map mf_bytes (pc_files receipt)) \<and> pc_totalBytes receipt \<le> pj_maxArtifactBytes job
     \<and> manifestSha256 sha256 (pc_baseRevision receipt) (pc_files receipt) = Inr (pc_manifestSha256 receipt)"
proof -
  let ?n = "sum_list (map mf_bytes (pc_files receipt))"
  have files: "check_files (pj_allowedOutputs job) [] 0 (pc_files receipt) = Inr ?n \<longleftrightarrow>
      list_all (\<lambda>f. \<not> isl (canonicalizeManifestPath (mf_path f)) \<and> allowedOutputsMatch (pj_allowedOutputs job) (canonical_path (mf_path f))
         \<and> is_file_hash (mf_sha256 f) \<and> 0 \<le> mf_bytes f) (pc_files receipt)
      \<and> distinct (map (\<lambda>f. canonical_path (mf_path f)) (pc_files receipt))"
    by (simp add: check_files_iff)
  have total: "m = ?n" if "check_files (pj_allowedOutputs job) [] 0 (pc_files receipt) = Inr m" for m using that by (simp add: check_files_iff)
  have actor: "validateActorClass a = None \<longleftrightarrow> a = MuseVmProcess" for a by (cases a) (simp_all add: validateActorClass_def)
  have hash: "manifestSha256 sha256 b fs = Inr h \<longleftrightarrow> (case canonicalManifestJson b fs of Inl e \<Rightarrow> False | Inr x \<Rightarrow> h = sha256 x)" for b fs h
    by (auto simp: manifestSha256_def split: sum.splits)
  show ?thesis
  proof (cases "check_files (pj_allowedOutputs job) [] 0 (pc_files receipt)")
    case (Inl e)
    then show ?thesis using files by (auto simp: validateResultReceipt_def split: option.splits)
  next
    case (Inr m)
    then show ?thesis using files total [OF Inr] actor [of "pc_actorClass receipt"]
      by (auto simp: validateResultReceipt_def hash MAX_SUMMARY_BYTES_def split: option.splits sum.splits)
  qed
qed

end
