(* ===== verification/Peer_Jobs.thy ===== *)
theory Peer_Jobs
  imports Peer_Receipts
begin

text \<open>
  The store of peer jobs, src/src/peer/jobs/store.ts: jobs that other hosts claim, carry out under a
  lease and return a receipt for, and the processing of that receipt up to the review.

  \<^item> The store is a singleton of the server process that keeps every row in memory and writes each
    change through; the model has the rows once, as the tables. The import of the legacy file and
    the refusal of a corrupt store at start-up are not modelled.
  \<^item> Clock readings and random ids are arguments. Receipts and the immutable content of a job are
    compared by their canonical JSON in the code, by value here.
  \<^item> A call that throws leaves the tables as they were, except the renewal after the runtime budget,
    which records the expiry first. Failures of the database are not modelled.
  \<^item> A sweep of expired leases reads the swept attempts anew, and the code's index by job keeps the
    objects from before. Only ids, generations and receipts are read through that index; they are the
    same in both, since an attempt whose lease is over gets no receipt any more.
\<close>

section \<open>State\<close>

record peer_db =
  pd_jobs :: "peer_job table"
  pd_attempts :: "peer_attempt table"

definition LEASE_MS :: int where
  "LEASE_MS = 60000"

definition isTerminalJobStatus :: "peer_job_status \<Rightarrow> bool" where
  "isTerminalJobStatus st \<longleftrightarrow> st \<in> {PeerCompleted, PeerFailed, PeerCancelled, PeerReviewChangesRequested}"

definition peer_job_of :: "string \<Rightarrow> peer_db \<Rightarrow> peer_job option" where
  "peer_job_of i db = find (\<lambda>j. pj_jobId j = i) (pd_jobs db)"

definition peer_attempt_of :: "string \<Rightarrow> peer_db \<Rightarrow> peer_attempt option" where
  "peer_attempt_of i db = find (\<lambda>a. pa_attemptId a = i) (pd_attempts db)"

definition attempts_of :: "string \<Rightarrow> peer_db \<Rightarrow> peer_attempt list" where
  "attempts_of i db = filter (\<lambda>a. pa_jobId a = i) (pd_attempts db)"

definition jobGeneration :: "peer_job \<Rightarrow> peer_db \<Rightarrow> nat" where
  "jobGeneration j db = length (attempts_of (pj_jobId j) db)"

definition save_job :: "peer_job \<Rightarrow> peer_db \<Rightarrow> peer_db" where
  "save_job j db = db\<lparr>pd_jobs := sql_update (\<lambda>x. pj_jobId x = pj_jobId j) (\<lambda>_. j) (pd_jobs db)\<rparr>"

definition save_attempt :: "peer_attempt \<Rightarrow> peer_db \<Rightarrow> peer_db" where
  "save_attempt a db = db\<lparr>pd_attempts := sql_update (\<lambda>x. pa_attemptId x = pa_attemptId a) (\<lambda>_. a) (pd_attempts db)\<rparr>"

type_synonym job_result = "(peer_error + peer_job) \<times> peer_db"
type_synonym attempt_result = "(peer_error + peer_job \<times> peer_attempt) \<times> peer_db"

definition save_both :: "peer_job \<Rightarrow> peer_attempt \<Rightarrow> peer_db \<Rightarrow> attempt_result" where
  "save_both j a db = (Inr (j, a), save_attempt a (save_job j db))"

definition save_only :: "peer_job \<Rightarrow> peer_db \<Rightarrow> job_result" where
  "save_only j db = (Inr j, save_job j db)"

section \<open>Fences\<close>

definition fencedAttempt :: "string \<Rightarrow> string \<Rightarrow> string \<Rightarrow> peer_db \<Rightarrow> peer_error + peer_job \<times> peer_attempt" where
  "fencedAttempt attemptId claimToken peerId db =
     (case peer_attempt_of attemptId db of
        None \<Rightarrow> Inl AttemptNotFound
      | Some a \<Rightarrow>
          (case peer_job_of (pa_jobId a) db of
             None \<Rightarrow> Inl JobNotFound
           | Some j \<Rightarrow>
               if pa_owner a \<noteq> peerId then Inl AttemptForbidden
               else if pa_claimToken a \<noteq> claimToken then Inl ClaimTokenMismatch
               else if pa_generation a \<noteq> jobGeneration j db then Inl StaleGeneration
               else Inr (j, a)))"

definition assertActiveAttemptForFence :: "peer_attempt \<Rightarrow> iso_time \<Rightarrow> peer_error option" where
  "assertActiveAttemptForFence a now =
     (if pa_status a \<noteq> AttemptActive then Some AttemptNotActive else if pa_leaseExpiresAt a \<le> now then Some LeaseExpired else None)"

text \<open>A call on a fenced attempt, and one on a job.\<close>

definition on_attempt :: "string \<Rightarrow> string \<Rightarrow> string \<Rightarrow> (peer_job \<Rightarrow> peer_attempt \<Rightarrow> peer_db \<Rightarrow> ((peer_error + 'r) \<times> peer_db)) \<Rightarrow> peer_db \<Rightarrow> (peer_error + 'r) \<times> peer_db" where
  "on_attempt attemptId claimToken peerId f db =
     (case fencedAttempt attemptId claimToken peerId db of Inl e \<Rightarrow> (Inl e, db) | Inr (j, a) \<Rightarrow> f j a db)"

definition on_job :: "string \<Rightarrow> (peer_job \<Rightarrow> peer_db \<Rightarrow> job_result) \<Rightarrow> peer_db \<Rightarrow> job_result" where
  "on_job jobId f db = (case peer_job_of jobId db of None \<Rightarrow> (Inl JobNotFound, db) | Some j \<Rightarrow> f j db)"

text \<open>An attempt that ended without a result: back into the queue only if it certainly never began.\<close>

definition requeue_status :: "peer_attempt \<Rightarrow> peer_job_status" where
  "requeue_status a = (if pa_certainty a = NotStarted then PeerPending else PeerAwaitingReconciliation)"

section \<open>Jobs\<close>

record peer_request =
  jr_jobId :: "string option"
  jr_peerId :: string
  jr_workSessionId :: "string option"
  jr_workspaceSessionId :: "string option"
  jr_schedulerDispatchId :: "string option"
  jr_repositoryId :: string
  jr_baseRevision :: string
  jr_taskClass :: peer_task_class
  jr_instructionHash :: string
  jr_instructions :: string
  jr_allowedOutputs :: "string list"
  jr_maxRuntimeMs :: int
  jr_maxArtifactBytes :: int

definition is_job_id :: "string \<Rightarrow> bool" where
  "is_job_id s \<longleftrightarrow> map (\<lambda>c. if c \<in> {CHR ''J'', CHR ''O'', CHR ''B''} then char_of (of_char c + 32 :: nat) else c) (take 4 s) = ''job_''
     \<and> length s = 40 \<and> list_all (\<lambda>c. c \<in> set ''0123456789abcdefABCDEF-'') (drop 4 s)"

definition same_request :: "peer_job \<Rightarrow> peer_job \<Rightarrow> bool" where
  "same_request p j \<longleftrightarrow> pj_peerId p = pj_peerId j \<and> pj_workSessionId p = pj_workSessionId j \<and> pj_workspaceSessionId p = pj_workspaceSessionId j
     \<and> pj_schedulerDispatchId p = pj_schedulerDispatchId j \<and> pj_repositoryId p = pj_repositoryId j \<and> pj_baseRevision p = pj_baseRevision j
     \<and> pj_taskClass p = pj_taskClass j \<and> pj_instructionHash p = pj_instructionHash j \<and> pj_instructions p = pj_instructions j
     \<and> pj_allowedOutputs p = pj_allowedOutputs j \<and> pj_maxRuntimeMs p = pj_maxRuntimeMs j \<and> pj_maxArtifactBytes p = pj_maxArtifactBytes j"

definition new_peer_job :: "peer_request \<Rightarrow> string \<Rightarrow> string list \<Rightarrow> iso_time \<Rightarrow> peer_job" where
  "new_peer_job input jobId outputs now =
     \<lparr>pj_jobId = jobId, pj_peerId = jr_peerId input, pj_workSessionId = jr_workSessionId input, pj_workspaceSessionId = jr_workspaceSessionId input,
      pj_schedulerDispatchId = jr_schedulerDispatchId input, pj_repositoryId = jr_repositoryId input, pj_baseRevision = jr_baseRevision input,
      pj_taskClass = jr_taskClass input, pj_instructionHash = jr_instructionHash input, pj_instructions = jr_instructions input,
      pj_allowedOutputs = outputs, pj_maxRuntimeMs = jr_maxRuntimeMs input, pj_maxArtifactBytes = jr_maxArtifactBytes input,
      pj_status = PeerPending, pj_createdAt = now, pj_cancelRequestedAt = None, pj_terminalAt = None, pj_terminalReason = None, pj_result = None\<rparr>"

definition peer_createJob :: "peer_request \<Rightarrow> string \<Rightarrow> iso_time \<Rightarrow> peer_db \<Rightarrow> job_result" where
  "peer_createJob input uuid now db =
     (let jobId = coalesce (jr_jobId input) (''job_'' @ uuid)
      in if \<not> is_job_id jobId then (Inl InvalidJobId, db)
         else case normalizeAllowedOutputs (jr_allowedOutputs input) of
           Inl e \<Rightarrow> (Inl e, db)
         | Inr outputs \<Rightarrow>
             let job = new_peer_job input jobId outputs now
             in (case peer_job_of jobId db of
                   Some prior \<Rightarrow> if same_request prior job then (Inr prior, db) else (Inl PeerJobIdConflict, db)
                 | None \<Rightarrow> (Inr job, db\<lparr>pd_jobs := pd_jobs db @ [job]\<rparr>)))"

definition listJobsForPeer :: "string \<Rightarrow> bool \<Rightarrow> peer_db \<Rightarrow> peer_job list" where
  "listJobsForPeer peerId includeTerminal db =
     order_asc (\<lambda>j. (pj_createdAt j, pj_jobId j)) (filter (\<lambda>j. pj_peerId j = peerId \<and> (includeTerminal \<or> \<not> isTerminalJobStatus (pj_status j))) (pd_jobs db))"

definition listJobsForPeerPage :: "string \<Rightarrow> bool \<Rightarrow> (iso_time \<times> string) option \<Rightarrow> int \<Rightarrow> peer_db \<Rightarrow> peer_job list" where
  "listJobsForPeerPage peerId includeTerminal after limit db =
     take (nat (max 1 (min 100 limit))) (filter (\<lambda>j. case after of None \<Rightarrow> True | Some (c, i) \<Rightarrow> c < pj_createdAt j \<or> pj_createdAt j = c \<and> i < pj_jobId j)
       (listJobsForPeer peerId includeTerminal db))"

definition getLatestJobForWorkSession :: "string \<Rightarrow> string \<Rightarrow> string option \<Rightarrow> peer_db \<Rightarrow> peer_job option" where
  "getLatestJobForWorkSession peerId workSessionId excludeJobId db =
     first_row (rev (order_asc pj_createdAt (filter (\<lambda>j. pj_peerId j = peerId \<and> pj_workSessionId j = Some workSessionId
       \<and> (excludeJobId = None \<or> Some (pj_jobId j) \<noteq> excludeJobId)) (pd_jobs db))))"

definition listAttemptsForJob :: "string \<Rightarrow> peer_db \<Rightarrow> peer_attempt list" where
  "listAttemptsForJob jobId db = order_asc (\<lambda>a. (pa_createdAt a, pa_attemptId a)) (attempts_of jobId db)"

definition getAttemptSummaryForJob :: "string \<Rightarrow> peer_db \<Rightarrow> peer_attempt option \<times> peer_attempt option" where
  "getAttemptSummaryForJob jobId db =
     (first_row (order_desc pa_generation (attempts_of jobId db)),
      first_row (order_desc pa_generation (filter (\<lambda>a. pa_receipt a \<noteq> None) (attempts_of jobId db))))"

definition activeJobCount :: "peer_db \<Rightarrow> string \<Rightarrow> nat" where
  "activeJobCount db peerId = length (filter (\<lambda>j. pj_status j \<in> {PeerPending, PeerClaimed, PeerRunning, PeerAwaitingReconciliation}) (listJobsForPeer peerId False db))"

definition enforcePeerJobsCap :: "peer_db \<Rightarrow> string \<Rightarrow> nat \<Rightarrow> peer_error option" where
  "enforcePeerJobsCap db peerId maxClaimedJobs = (if activeJobCount db peerId \<ge> maxClaimedJobs then Some PeerJobsCapExceeded else None)"

section \<open>Attempts\<close>

definition peer_candidate :: "string \<Rightarrow> peer_task_class option \<Rightarrow> peer_db \<Rightarrow> peer_job option" where
  "peer_candidate peerId taskClass db =
     first_row (order_asc (\<lambda>j. (pj_createdAt j, pj_jobId j)) (filter (\<lambda>j. pj_peerId j = peerId \<and> pj_status j = PeerPending \<and> pj_cancelRequestedAt j = None
       \<and> pj_workSessionId j \<noteq> None \<and> pj_workspaceSessionId j \<noteq> None \<and> (taskClass = None \<or> taskClass = Some (pj_taskClass j))) (pd_jobs db)))"

definition new_peer_attempt :: "peer_job \<Rightarrow> string \<Rightarrow> string \<Rightarrow> string \<Rightarrow> nat \<Rightarrow> iso_time \<Rightarrow> peer_attempt" where
  "new_peer_attempt job peerId attemptId token n now =
     \<lparr>pa_attemptId = attemptId, pa_jobId = pj_jobId job, pa_claimToken = token, pa_owner = peerId, pa_generation = n, pa_createdAt = now,
      pa_leaseExpiresAt = now + LEASE_MS, pa_lastHeartbeatAt = None, pa_remoteExecutionId = None, pa_startedAt = None, pa_certainty = Unknown,
      pa_status = AttemptActive, pa_receipt = None\<rparr>"

definition claimNextJob :: "string \<Rightarrow> peer_task_class option \<Rightarrow> iso_time \<Rightarrow> string \<Rightarrow> string \<Rightarrow> peer_db \<Rightarrow> (peer_job \<times> peer_attempt) option \<times> peer_db" where
  "claimNextJob peerId taskClass now uuid token db =
     (case peer_candidate peerId taskClass db of
        None \<Rightarrow> (None, db)
      | Some job \<Rightarrow>
          let a = new_peer_attempt job peerId (''att_'' @ uuid) token (jobGeneration job db + 1) now; job' = job\<lparr>pj_status := PeerClaimed\<rparr>
          in (Some (job', a), (save_job job' db)\<lparr>pd_attempts := pd_attempts db @ [a]\<rparr>))"

definition authorizeAttempt :: "string \<Rightarrow> string \<Rightarrow> string \<Rightarrow> string \<Rightarrow> iso_time \<Rightarrow> peer_db \<Rightarrow> peer_error + peer_job \<times> peer_attempt" where
  "authorizeAttempt jobId attemptId claimToken peerId now db =
     (case peer_job_of jobId db of
        None \<Rightarrow> Inl JobNotFound
      | Some job \<Rightarrow>
          (case peer_attempt_of attemptId db of
             None \<Rightarrow> Inl AttemptNotFound
           | Some a0 \<Rightarrow>
               if pa_jobId a0 \<noteq> jobId then Inl AttemptNotFound
               else case fencedAttempt attemptId claimToken peerId db of
                 Inl e \<Rightarrow> Inl e
               | Inr (j, a) \<Rightarrow>
                   (case assertActiveAttemptForFence a now of
                      Some e \<Rightarrow> Inl e
                    | None \<Rightarrow> if pj_status j \<notin> {PeerClaimed, PeerRunning} then Inl JobNotActive else Inr (j, a))))"

definition markStarted :: "string \<Rightarrow> string \<Rightarrow> string \<Rightarrow> iso_time \<Rightarrow> string option \<Rightarrow> peer_db \<Rightarrow> attempt_result" where
  "markStarted attemptId claimToken peerId now remoteExecutionId =
     on_attempt attemptId claimToken peerId (\<lambda>j a db.
       if pa_status a \<noteq> AttemptActive then (Inl AttemptNotActive, db)
       else if pa_leaseExpiresAt a \<le> now then save_both (j\<lparr>pj_status := requeue_status a\<rparr>) (a\<lparr>pa_status := AttemptExpired\<rparr>) db
       else save_both (j\<lparr>pj_status := PeerRunning\<rparr>)
              (a\<lparr>pa_startedAt := Some now, pa_remoteExecutionId := remoteExecutionId, pa_certainty := Started\<rparr>) db)"

definition markNotStarted :: "string \<Rightarrow> string \<Rightarrow> string \<Rightarrow> iso_time \<Rightarrow> peer_db \<Rightarrow> attempt_result" where
  "markNotStarted attemptId claimToken peerId now =
     on_attempt attemptId claimToken peerId (\<lambda>j a db.
       case assertActiveAttemptForFence a now of
         Some e \<Rightarrow> (Inl e, db)
       | None \<Rightarrow> if pa_startedAt a \<noteq> None then (Inl NotStartedAfterStarted, db) else save_both j (a\<lparr>pa_certainty := NotStarted\<rparr>) db)"

text \<open>The rest of the call after the branch of a running lease always throws.\<close>

definition peer_renewLease :: "string \<Rightarrow> string \<Rightarrow> string \<Rightarrow> iso_time \<Rightarrow> int \<Rightarrow> peer_db \<Rightarrow> attempt_result" where
  "peer_renewLease attemptId claimToken peerId now leaseMs db =
     (if leaseMs \<le> 0 \<or> leaseMs > 600000 then (Inl InvalidLease, db)
      else on_attempt attemptId claimToken peerId (\<lambda>j a db.
        let remaining = pj_maxRuntimeMs j - (now - coalesce (pa_startedAt a) (pa_createdAt a))
        in if remaining \<le> 0 then (Inl RuntimeBudgetExceeded, snd (save_both (j\<lparr>pj_status := requeue_status a\<rparr>) (a\<lparr>pa_status := AttemptExpired\<rparr>) db))
           else if now < pa_leaseExpiresAt a
           then save_both j (a\<lparr>pa_leaseExpiresAt := now + min leaseMs remaining, pa_lastHeartbeatAt := Some now\<rparr>) db
           else (Inl (the (assertActiveAttemptForFence a now)), db)) db)"

definition reported_reason :: "string \<Rightarrow> peer_receipt \<Rightarrow> string" where
  "reported_reason prefix receipt = prefix @ (case pc_summary receipt of None \<Rightarrow> [] | Some s \<Rightarrow> '': '' @ take 200 s)"

definition completed_job :: "peer_job \<Rightarrow> peer_receipt \<Rightarrow> iso_time \<Rightarrow> peer_job" where
  "completed_job j receipt now =
     (case pc_terminalState receipt of
        Succeeded \<Rightarrow> j\<lparr>pj_status := PeerResultReceived, pj_terminalAt := None\<rparr>
      | ReceiptFailed \<Rightarrow> j\<lparr>pj_status := PeerFailed, pj_terminalAt := Some now, pj_terminalReason := Some (reported_reason ''peer_reported_failure'' receipt)\<rparr>
      | _ \<Rightarrow> j\<lparr>pj_status := PeerCancelled, pj_terminalAt := Some now, pj_terminalReason := Some (reported_reason ''peer_reported_cancelled'' receipt)\<rparr>)"

text \<open>The flag of the result: the same receipt was stored before.\<close>

definition completeAttempt :: "string \<Rightarrow> string \<Rightarrow> string \<Rightarrow> peer_receipt \<Rightarrow> iso_time \<Rightarrow> peer_db \<Rightarrow> (peer_error + peer_job \<times> peer_attempt \<times> bool) \<times> peer_db" where
  "completeAttempt attemptId claimToken peerId receipt now =
     on_attempt attemptId claimToken peerId (\<lambda>j a db.
       if pa_status a = AttemptCompleted then
         (if pa_receipt a = Some receipt then (Inr (j, a, True), db) else (Inl ConflictingResult, db))
       else case assertActiveAttemptForFence a now of
         Some e \<Rightarrow> (Inl e, db)
       | None \<Rightarrow>
           let j' = completed_job j receipt now; a' = a\<lparr>pa_status := AttemptCompleted, pa_certainty := TerminalVerified, pa_receipt := Some receipt\<rparr>
           in (Inr (j', a', False), snd (save_both j' a' db)))"

definition failAttempt :: "string \<Rightarrow> string \<Rightarrow> string \<Rightarrow> iso_time \<Rightarrow> peer_db \<Rightarrow> attempt_result" where
  "failAttempt attemptId claimToken peerId now =
     on_attempt attemptId claimToken peerId (\<lambda>j a db.
       case assertActiveAttemptForFence a now of
         Some e \<Rightarrow> (Inl e, db)
       | None \<Rightarrow> save_both (j\<lparr>pj_status := (if pa_certainty a \<in> {Started, Unknown} then PeerAwaitingReconciliation else PeerPending)\<rparr>)
                   (a\<lparr>pa_status := AttemptFailed\<rparr>) db)"

section \<open>Results\<close>

definition empty_processing :: "iso_time \<Rightarrow> result_processing" where
  "empty_processing now = \<lparr>rp_receiptSha256 = None, rp_submissionId = None, rp_reviewEpoch = None, rp_snapshotKind = None, rp_snapshotRef = None,
     rp_diffSha256 = None, rp_reviewVerdict = None, rp_feedbackId = None, rp_verificationStatus = None, rp_verificationEvidence = None,
     rp_failure = None, rp_retryRevision = None, rp_updatedAt = now\<rparr>"

definition markStaging :: "string \<Rightarrow> string \<Rightarrow> iso_time \<Rightarrow> peer_db \<Rightarrow> job_result" where
  "markStaging jobId receiptSha256 now =
     on_job jobId (\<lambda>j db.
       if pj_status j \<in> {PeerAwaitingReview, PeerCompleted} then (Inr j, db)
       else if pj_status j \<notin> {PeerResultReceived, PeerStaging} then (Inl InvalidResultTransition, db)
       else let rp = coalesce (pj_result j) (empty_processing now)
            in if truthy (rp_receiptSha256 rp) \<and> rp_receiptSha256 rp \<noteq> Some receiptSha256 then (Inl ResultReceiptConflict, db)
               else save_only (j\<lparr>pj_status := PeerStaging, pj_result := Some (rp\<lparr>rp_receiptSha256 := Some receiptSha256, rp_failure := None, rp_updatedAt := now\<rparr>)\<rparr>) db)"

record review_input =
  rw_receiptSha256 :: string
  rw_submissionId :: string
  rw_reviewEpoch :: int
  rw_snapshotKind :: string
  rw_snapshotRef :: string
  rw_diffSha256 :: string
  rw_verificationStatus :: "verification_status option"
  rw_verificationEvidence :: "string option"

definition markAwaitingReview :: "string \<Rightarrow> review_input \<Rightarrow> iso_time \<Rightarrow> peer_db \<Rightarrow> job_result" where
  "markAwaitingReview jobId input now =
     on_job jobId (\<lambda>j db.
       let rp = coalesce (pj_result j) (empty_processing now)
       in if pj_status j = PeerAwaitingReview \<and> rp_submissionId rp = Some (rw_submissionId input) then
            (if rp_verificationStatus rp = None \<and> rw_verificationStatus input \<noteq> None
             then save_only (j\<lparr>pj_result := Some (rp\<lparr>rp_verificationStatus := rw_verificationStatus input,
                    rp_verificationEvidence := rw_verificationEvidence input, rp_updatedAt := now\<rparr>)\<rparr>) db
             else (Inr j, db))
          else if pj_status j \<noteq> PeerStaging \<or> rp_receiptSha256 rp \<noteq> Some (rw_receiptSha256 input) then (Inl InvalidResultTransition, db)
          else save_only (j\<lparr>pj_status := PeerAwaitingReview, pj_result := Some ((empty_processing now)\<lparr>rp_receiptSha256 := Some (rw_receiptSha256 input),
                 rp_submissionId := Some (rw_submissionId input), rp_reviewEpoch := Some (rw_reviewEpoch input), rp_snapshotKind := Some (rw_snapshotKind input),
                 rp_snapshotRef := Some (rw_snapshotRef input), rp_diffSha256 := Some (rw_diffSha256 input),
                 rp_verificationStatus := rw_verificationStatus input, rp_verificationEvidence := rw_verificationEvidence input\<rparr>)\<rparr>) db)"

definition review_bound :: "peer_job \<Rightarrow> string \<Rightarrow> int \<Rightarrow> bool" where
  "review_bound j submissionId reviewEpoch \<longleftrightarrow> pj_status j = PeerAwaitingReview
     \<and> (case pj_result j of None \<Rightarrow> False | Some rp \<Rightarrow> rp_submissionId rp = Some submissionId \<and> rp_reviewEpoch rp = Some reviewEpoch)"

definition recordVerification :: "string \<Rightarrow> string \<Rightarrow> int \<Rightarrow> verification_status \<Rightarrow> string option \<Rightarrow> iso_time \<Rightarrow> peer_db \<Rightarrow> job_result" where
  "recordVerification jobId submissionId reviewEpoch st evidence now =
     on_job jobId (\<lambda>j db.
       if \<not> review_bound j submissionId reviewEpoch then (Inl VerificationIdentityMismatch, db)
       else save_only (j\<lparr>pj_result := map_option (\<lambda>rp. rp\<lparr>rp_verificationStatus := Some st, rp_verificationEvidence := evidence, rp_updatedAt := now\<rparr>) (pj_result j)\<rparr>) db)"

definition markAwaitingReconciliation :: "string \<Rightarrow> string \<Rightarrow> iso_time \<Rightarrow> peer_db \<Rightarrow> job_result" where
  "markAwaitingReconciliation jobId reason now =
     on_job jobId (\<lambda>j db.
       if pj_status j = PeerAwaitingReview \<or> isTerminalJobStatus (pj_status j) then (Inr j, db)
       else save_only (j\<lparr>pj_status := PeerAwaitingReconciliation,
              pj_result := Some ((coalesce (pj_result j) (empty_processing now))\<lparr>rp_failure := Some (take 1000 reason), rp_updatedAt := now\<rparr>)\<rparr>) db)"

definition retryResultProcessing :: "string \<Rightarrow> string \<Rightarrow> iso_time \<Rightarrow> peer_db \<Rightarrow> job_result" where
  "retryResultProcessing jobId expectedFailure now =
     on_job jobId (\<lambda>j db.
       if pj_status j \<noteq> PeerAwaitingReconciliation then (Inl NotReconcilable, db)
       else case pj_result j of
         None \<Rightarrow> (Inl ReconciliationStale, db)
       | Some rp \<Rightarrow>
           if expectedFailure = [] \<or> rp_failure rp \<noteq> Some expectedFailure then (Inl ReconciliationStale, db)
           else if \<not> list_ex (\<lambda>a. case pa_receipt a of None \<Rightarrow> False | Some r \<Rightarrow> pc_terminalState r = Succeeded) (attempts_of jobId db) then (Inl ResultUnavailable, db)
           else save_only (j\<lparr>pj_status := PeerResultReceived,
                  pj_result := Some (rp\<lparr>rp_failure := None, rp_retryRevision := Some (coalesce (rp_retryRevision rp) 0 + 1), rp_updatedAt := now\<rparr>)\<rparr>) db)"

definition finalizeReview :: "string \<Rightarrow> string \<Rightarrow> int \<Rightarrow> string \<Rightarrow> review_verdict \<Rightarrow> iso_time \<Rightarrow> peer_db \<Rightarrow> job_result" where
  "finalizeReview jobId submissionId reviewEpoch feedbackId verdict now =
     on_job jobId (\<lambda>j db.
       if isTerminalJobStatus (pj_status j) then (Inr j, db)
       else if \<not> review_bound j submissionId reviewEpoch then (Inl ReviewIdentityMismatch, db)
       else save_only (j\<lparr>pj_result := map_option (\<lambda>rp. rp\<lparr>rp_feedbackId := Some feedbackId, rp_reviewVerdict := Some verdict, rp_updatedAt := now\<rparr>) (pj_result j),
              pj_status := (case verdict of VerdictApprove \<Rightarrow> PeerCompleted | VerdictReject \<Rightarrow> PeerFailed | VerdictChangesRequested \<Rightarrow> PeerReviewChangesRequested),
              pj_terminalAt := Some now,
              pj_terminalReason := Some (case verdict of VerdictApprove \<Rightarrow> ''reviewer_approved'' | VerdictReject \<Rightarrow> ''reviewer_rejected''
                | VerdictChangesRequested \<Rightarrow> ''reviewer_requested_changes'')\<rparr>) db)"

section \<open>Cancellation\<close>

definition requestCancel :: "string \<Rightarrow> iso_time \<Rightarrow> peer_db \<Rightarrow> job_result" where
  "requestCancel jobId now =
     on_job jobId (\<lambda>j db.
       if isTerminalJobStatus (pj_status j) then (Inl JobTerminal, db)
       else if pj_cancelRequestedAt j \<noteq> None then (Inr j, db)
       else save_only (j\<lparr>pj_cancelRequestedAt := Some now\<rparr>) db)"

text \<open>The fence has checked that the attempt is the latest of its job, so the code's comparison with the latest one holds.\<close>

definition cancelAck :: "string \<Rightarrow> string \<Rightarrow> string \<Rightarrow> iso_time \<Rightarrow> peer_db \<Rightarrow> attempt_result" where
  "cancelAck attemptId claimToken peerId now =
     on_attempt attemptId claimToken peerId (\<lambda>j a db.
       let latest = first_row (order_desc pa_generation (attempts_of (pj_jobId j) db));
           reconciled = (pa_status a \<in> {AttemptExpired, AttemptSuperseded} \<and> map_option pa_attemptId latest = Some (pa_attemptId a) \<and> pa_certainty a \<in> {Started, Unknown})
       in if pj_cancelRequestedAt j = None then (Inl CancelNotRequested, db)
          else if pa_status a \<noteq> AttemptActive \<and> \<not> reconciled then (Inl AttemptNotActive, db)
          else save_both (j\<lparr>pj_status := PeerCancelled, pj_terminalAt := Some now, pj_terminalReason := Some ''cancel_acknowledged''\<rparr>)
                 (a\<lparr>pa_status := AttemptFailed\<rparr>) db)"

definition cancelUnclaimedJob :: "string \<Rightarrow> iso_time \<Rightarrow> peer_db \<Rightarrow> job_result" where
  "cancelUnclaimedJob jobId now =
     on_job jobId (\<lambda>j db.
       if isTerminalJobStatus (pj_status j) then (Inl JobTerminal, db)
       else if pj_status j \<noteq> PeerPending then (Inl CancelRequiresAck, db)
       else if list_ex (\<lambda>a. pa_status a = AttemptActive) (attempts_of jobId db) then (Inl CancelRequiresAck, db)
       else save_only (j\<lparr>pj_status := PeerCancelled, pj_terminalAt := Some now, pj_terminalReason := Some ''cancel_requested_unclaimed''\<rparr>) db)"

section \<open>Expired leases and restarts\<close>

definition expired_attempts :: "iso_time \<Rightarrow> int \<Rightarrow> peer_db \<Rightarrow> peer_attempt list" where
  "expired_attempts now limit db = take (nat (max 1 (min limit 500))) (order_asc (\<lambda>a. (pa_leaseExpiresAt a, pa_attemptId a))
     (filter (\<lambda>a. pa_status a = AttemptActive \<and> pa_leaseExpiresAt a \<le> now) (pd_attempts db)))"

definition reap_attempt :: "peer_attempt \<Rightarrow> peer_db \<Rightarrow> peer_db" where
  "reap_attempt a db =
     (case peer_job_of (pa_jobId a) db of
        None \<Rightarrow> db
      | Some j \<Rightarrow> if pj_status j \<notin> {PeerClaimed, PeerRunning} then db
                 else snd (save_both (j\<lparr>pj_status := requeue_status a\<rparr>) (a\<lparr>pa_status := AttemptExpired\<rparr>) db))"

definition reapExpiredLeases :: "iso_time \<Rightarrow> int \<Rightarrow> peer_db \<Rightarrow> peer_db" where
  "reapExpiredLeases now limit db = fold reap_attempt (expired_attempts now limit db) db"

text \<open>At start-up no process holds a lease: every active attempt is orphaned, and its job waits for a person.\<close>

definition restartReconciliation :: "iso_time \<Rightarrow> peer_db \<Rightarrow> peer_db" where
  "restartReconciliation now db =
     db\<lparr>pd_attempts := sql_update (\<lambda>a. pa_status a = AttemptActive)
          (\<lambda>a. a\<lparr>pa_status := (if now < pa_leaseExpiresAt a then AttemptSuperseded else AttemptExpired)\<rparr>) (pd_attempts db),
        pd_jobs := sql_update (\<lambda>j. pj_status j \<in> {PeerClaimed, PeerRunning}) (\<lambda>j. j\<lparr>pj_status := PeerAwaitingReconciliation\<rparr>) (pd_jobs db)\<rparr>"

section \<open>Steps\<close>

text \<open>Every operation of the store that writes, with all arguments. A renewal is marked by the attempt it names. The random id of a new attempt is one that no attempt has.\<close>

inductive peer_call :: "string option \<Rightarrow> peer_db \<Rightarrow> peer_db \<Rightarrow> bool" where
  p_create: "peer_call None db (snd (peer_createJob input uuid now db))"
| p_claim: "''att_'' @ uuid \<notin> pa_attemptId ` set (pd_attempts db) \<Longrightarrow> peer_call None db (snd (claimNextJob peerId taskClass now uuid token db))"
| p_started: "peer_call None db (snd (markStarted i token peerId now execution db))"
| p_not_started: "peer_call None db (snd (markNotStarted i token peerId now db))"
| p_renew: "peer_call (Some i) db (snd (peer_renewLease i token peerId now ms db))"
| p_complete: "peer_call None db (snd (completeAttempt i token peerId receipt now db))"
| p_fail: "peer_call None db (snd (failAttempt i token peerId now db))"
| p_staging: "peer_call None db (snd (markStaging i sha now db))"
| p_review: "peer_call None db (snd (markAwaitingReview i input now db))"
| p_verification: "peer_call None db (snd (recordVerification i submissionId epoch st evidence now db))"
| p_reconcile: "peer_call None db (snd (markAwaitingReconciliation i reason now db))"
| p_retry: "peer_call None db (snd (retryResultProcessing i failure now db))"
| p_finalize: "peer_call None db (snd (finalizeReview i submissionId epoch feedbackId verdict now db))"
| p_cancel: "peer_call None db (snd (requestCancel i now db))"
| p_ack: "peer_call None db (snd (cancelAck i token peerId now db))"
| p_unclaimed: "peer_call None db (snd (cancelUnclaimedJob i now db))"
| p_reap: "peer_call None db (reapExpiredLeases now limit db)"
| p_restart: "peer_call None db (restartReconciliation now db)"

definition peer_start :: "peer_db \<Rightarrow> bool" where
  "peer_start db \<longleftrightarrow> pd_jobs db = [] \<and> pd_attempts db = []"

definition peer_step :: "peer_db \<Rightarrow> peer_db \<Rightarrow> bool" where
  "peer_step db db' \<longleftrightarrow> (\<exists>r. peer_call r db db')"

text \<open>What holds between a job with \<open>n\<close> attempts and one of them.\<close>

definition pair_ok :: "nat \<Rightarrow> peer_job \<Rightarrow> peer_attempt \<Rightarrow> bool" where
  "pair_ok n j a \<longleftrightarrow>
     (pa_status a = AttemptActive \<longrightarrow> pa_generation a = n \<and> pj_status j \<in> {PeerClaimed, PeerRunning, PeerAwaitingReconciliation})
     \<and> (pa_generation a < n \<or> pj_status j = PeerPending \<longrightarrow> pa_certainty a = NotStarted)
     \<and> (pa_receipt a \<noteq> None \<longleftrightarrow> pa_certainty a = TerminalVerified) \<and> (pa_receipt a \<noteq> None \<longrightarrow> pa_status a \<noteq> AttemptActive)
     \<and> (pa_startedAt a \<noteq> None \<longrightarrow> pa_certainty a \<in> {Started, TerminalVerified})
     \<and> (pa_status a \<in> {AttemptExpired, AttemptSuperseded} \<and> pa_certainty a \<in> {Started, Unknown} \<longrightarrow> pj_status j = PeerAwaitingReconciliation)"

definition peer_ok :: "peer_db \<Rightarrow> bool" where
  "peer_ok db \<longleftrightarrow> distinct (map pj_jobId (pd_jobs db)) \<and> distinct (map pa_attemptId (pd_attempts db))
     \<and> (\<forall>a \<in> set (pd_attempts db). pa_jobId a \<in> pj_jobId ` set (pd_jobs db))
     \<and> (\<forall>i. map pa_generation (attempts_of i db) = [1..<Suc (length (attempts_of i db))])
     \<and> (\<forall>j \<in> set (pd_jobs db). \<forall>a \<in> set (attempts_of (pj_jobId j) db). pair_ok (jobGeneration j db) j a)"

lemma generation_unique:
  assumes "peer_ok db" "a \<in> set (attempts_of i db)" "b \<in> set (attempts_of i db)" "pa_generation a = pa_generation b"
  shows "a = b"
proof -
  have "distinct (map pa_generation (attempts_of i db))" using assms(1) unfolding peer_ok_def by (metis distinct_upt)
  then show ?thesis using assms(2-4) by (rule key_unique)
qed

lemma generation_le:
  assumes "peer_ok db" "a \<in> set (attempts_of (pj_jobId j) db)"
  shows "pa_generation a \<le> jobGeneration j db"
proof -
  have "pa_generation a \<in> set (map pa_generation (attempts_of (pj_jobId j) db))" using assms(2) by simp
  then have "pa_generation a \<in> set [1..<Suc (length (attempts_of (pj_jobId j) db))]" using assms(1) unfolding peer_ok_def by metis
  then show ?thesis by (auto simp: jobGeneration_def)
qed

text \<open>Attempts before the last stay as they are, whatever becomes of the job.\<close>

lemma older_ok: "pair_ok n j a \<Longrightarrow> pa_generation a < n \<Longrightarrow> pair_ok n j' a"
  by (auto simp: pair_ok_def)

definition same_attempt :: "peer_attempt \<Rightarrow> peer_attempt \<Rightarrow> bool" where
  "same_attempt a a' \<longleftrightarrow> pa_attemptId a' = pa_attemptId a \<and> pa_jobId a' = pa_jobId a \<and> pa_generation a' = pa_generation a"

lemma ok_change:
  assumes ok: "peer_ok db" and jobs: "pd_jobs db' = map g (pd_jobs db)" and attempts: "pd_attempts db' = map h (pd_attempts db)"
    and g: "\<And>j. j \<in> set (pd_jobs db) \<Longrightarrow> pj_jobId (g j) = pj_jobId j" and h: "\<And>a. a \<in> set (pd_attempts db) \<Longrightarrow> same_attempt a (h a)"
    and pair: "\<And>j a. j \<in> set (pd_jobs db) \<Longrightarrow> a \<in> set (attempts_of (pj_jobId j) db) \<Longrightarrow> pair_ok (jobGeneration j db) j a \<Longrightarrow> pair_ok (jobGeneration j db) (g j) (h a)"
  shows "peer_ok db'"
proof -
  have rows: "attempts_of i db' = map h (attempts_of i db)" for i
    unfolding attempts_of_def attempts filter_map o_def using h by (intro arg_cong [where f = "map h"] filter_cong) (auto simp: same_attempt_def)
  have gen: "jobGeneration (g j) db' = jobGeneration j db" if "j \<in> set (pd_jobs db)" for j using g [OF that] by (simp add: jobGeneration_def rows)
  have ids: "map pj_jobId (pd_jobs db') = map pj_jobId (pd_jobs db)" using g by (simp add: jobs)
  have attempt_ids: "map pa_attemptId (pd_attempts db') = map pa_attemptId (pd_attempts db)" using h by (simp add: attempts same_attempt_def)
  have gens: "map pa_generation (attempts_of i db') = map pa_generation (attempts_of i db)" for i
    unfolding rows using h by (auto simp: attempts_of_def same_attempt_def)
  have "pa_jobId a \<in> pj_jobId ` set (pd_jobs db')" if "a \<in> set (pd_attempts db')" for a
  proof -
    from that obtain b where "b \<in> set (pd_attempts db)" "a = h b" by (auto simp: attempts)
    then have "pa_jobId a \<in> pj_jobId ` set (pd_jobs db)" using ok h [of b] by (auto simp: peer_ok_def same_attempt_def)
    then show ?thesis using ids by (metis set_map)
  qed
  moreover have "pair_ok (jobGeneration j db') j a" if "j \<in> set (pd_jobs db')" "a \<in> set (attempts_of (pj_jobId j) db')" for j a
  proof -
    from that(1) obtain k where k: "k \<in> set (pd_jobs db)" "j = g k" by (auto simp: jobs)
    with that(2) g [OF k(1)] obtain b where "b \<in> set (attempts_of (pj_jobId k) db)" "a = h b" by (auto simp: rows)
    then show ?thesis using ok pair [OF k(1)] k gen [OF k(1)] by (auto simp: peer_ok_def)
  qed
  moreover have "map pa_generation (attempts_of i db') = [1..<Suc (length (attempts_of i db'))]" for i
    using ok unfolding gens by (simp add: rows peer_ok_def)
  ultimately show ?thesis using ok by (simp add: peer_ok_def ids attempt_ids)
qed

lemma save_both_ok:
  assumes ok: "peer_ok db" and j: "j \<in> set (pd_jobs db)" and a: "a \<in> set (attempts_of (pj_jobId j) db)" and gen: "pa_generation a = jobGeneration j db"
    and ids: "pj_jobId j' = pj_jobId j" "same_attempt a a'" and pair: "pair_ok (jobGeneration j db) j a \<Longrightarrow> pair_ok (jobGeneration j db) j' a'"
  shows "peer_ok (snd (save_both j' a' db))"
proof (rule ok_change [OF ok])
  let ?g = "\<lambda>x. if pj_jobId x = pj_jobId j' then j' else x" and ?h = "\<lambda>x. if pa_attemptId x = pa_attemptId a' then a' else x"
  show "pd_jobs (snd (save_both j' a' db)) = map ?g (pd_jobs db)" "pd_attempts (snd (save_both j' a' db)) = map ?h (pd_attempts db)"
    by (simp_all add: save_both_def save_job_def save_attempt_def sql_update_def)
  have job: "x = j" if "x \<in> set (pd_jobs db)" "pj_jobId x = pj_jobId j'" for x
    using ok that j ids(1) by (auto simp: peer_ok_def intro: key_unique [of pj_jobId "pd_jobs db"])
  have attempt: "x = a" if "x \<in> set (pd_attempts db)" "pa_attemptId x = pa_attemptId a'" for x
    using ok that a ids(2) by (auto simp: peer_ok_def same_attempt_def attempts_of_def intro: key_unique [of pa_attemptId "pd_attempts db"])
  show "pj_jobId (?g x) = pj_jobId x" if "x \<in> set (pd_jobs db)" for x by simp
  show "same_attempt x (?h x)" if "x \<in> set (pd_attempts db)" for x using attempt [OF that] ids(2) by (auto simp: same_attempt_def)
  show "pair_ok (jobGeneration x db) (?g x) (?h y)"
    if x: "x \<in> set (pd_jobs db)" and y: "y \<in> set (attempts_of (pj_jobId x) db)" and xy: "pair_ok (jobGeneration x db) x y" for x y
  proof (cases "pj_jobId x = pj_jobId j'")
    case True
    then have [simp]: "x = j" using job x by blast
    show ?thesis
    proof (cases "pa_attemptId y = pa_attemptId a'")
      case True
      then have "y = a" using attempt y by (auto simp: attempts_of_def)
      then show ?thesis using pair xy True ids(1) by simp
    next
      case False
      then have "y \<noteq> a" using ids(2) by (auto simp: same_attempt_def)
      then have "pa_generation y < jobGeneration j db"
        using generation_unique [OF ok _ a, of y] generation_le [OF ok, of y j] gen y by fastforce
      then show ?thesis using older_ok xy False ids(1) by simp
    qed
  next
    case False
    have "pa_attemptId y \<noteq> pa_attemptId a'"
    proof
      assume "pa_attemptId y = pa_attemptId a'"
      then have "y = a" using attempt y by (auto simp: attempts_of_def)
      then show False using y a False ids(1) by (auto simp: attempts_of_def)
    qed
    then show ?thesis using xy False by simp
  qed
qed

lemma save_job_ok:
  assumes ok: "peer_ok db" and j: "j \<in> set (pd_jobs db)" and ids: "pj_jobId j' = pj_jobId j"
    and pair: "\<And>a. a \<in> set (attempts_of (pj_jobId j) db) \<Longrightarrow> pa_generation a = jobGeneration j db \<Longrightarrow> pair_ok (jobGeneration j db) j a \<Longrightarrow> pair_ok (jobGeneration j db) j' a"
  shows "peer_ok (save_job j' db)"
proof (rule ok_change [OF ok])
  let ?g = "\<lambda>x. if pj_jobId x = pj_jobId j' then j' else x"
  show "pd_jobs (save_job j' db) = map ?g (pd_jobs db)" "pd_attempts (save_job j' db) = map id (pd_attempts db)"
    by (simp_all add: save_job_def sql_update_def)
  have job: "x = j" if "x \<in> set (pd_jobs db)" "pj_jobId x = pj_jobId j'" for x
    using ok that j ids by (auto simp: peer_ok_def intro: key_unique [of pj_jobId "pd_jobs db"])
  show "pj_jobId (?g x) = pj_jobId x" for x by simp
  show "same_attempt x (id x)" for x by (simp add: same_attempt_def)
  show "pair_ok (jobGeneration x db) (?g x) (id y)"
    if "x \<in> set (pd_jobs db)" "y \<in> set (attempts_of (pj_jobId x) db)" "pair_ok (jobGeneration x db) x y" for x y
    using that job [OF that(1)] pair [of y] generation_le [OF ok that(2)] older_ok by fastforce
qed

section \<open>Operations keep the invariant\<close>

text \<open>
  A call writes nothing, or a job with its latest attempt, or a job alone. The job's status, if
  terminal, stays; a call that is not \<open>strict\<close> (a renewal of a finished attempt) may break that.
\<close>

definition attempt_change :: "bool \<Rightarrow> peer_db \<Rightarrow> peer_db \<Rightarrow> bool" where
  "attempt_change strict db db' \<longleftrightarrow> db' = db \<or> (\<exists>j a j' a'. j \<in> set (pd_jobs db) \<and> a \<in> set (attempts_of (pj_jobId j) db) \<and> pa_generation a = jobGeneration j db
     \<and> db' = snd (save_both j' a' db) \<and> pj_jobId j' = pj_jobId j \<and> same_attempt a a'
     \<and> (pair_ok (jobGeneration j db) j a \<longrightarrow> pair_ok (jobGeneration j db) j' a' \<and> (strict \<and> isTerminalJobStatus (pj_status j) \<longrightarrow> pj_status j' = pj_status j)))"

definition job_change :: "peer_db \<Rightarrow> peer_db \<Rightarrow> bool" where
  "job_change db db' \<longleftrightarrow> db' = db \<or> (\<exists>j j'. j \<in> set (pd_jobs db) \<and> db' = save_job j' db \<and> pj_jobId j' = pj_jobId j
     \<and> (isTerminalJobStatus (pj_status j) \<longrightarrow> pj_status j' = pj_status j)
     \<and> (\<forall>a \<in> set (attempts_of (pj_jobId j) db). pa_generation a = jobGeneration j db \<longrightarrow> pair_ok (jobGeneration j db) j a \<longrightarrow> pair_ok (jobGeneration j db) j' a))"

lemma attempt_change_ok: "peer_ok db \<Longrightarrow> attempt_change strict db db' \<Longrightarrow> peer_ok db'"
  unfolding attempt_change_def using save_both_ok by metis

lemma job_change_ok: "peer_ok db \<Longrightarrow> job_change db db' \<Longrightarrow> peer_ok db'"
  unfolding job_change_def using save_job_ok by metis

lemma fenced:
  assumes "fencedAttempt i token peerId db = Inr (j, a)"
  shows "j \<in> set (pd_jobs db) \<and> a \<in> set (attempts_of (pj_jobId j) db) \<and> pa_generation a = jobGeneration j db \<and> peer_attempt_of i db = Some a"
  using assms unfolding fencedAttempt_def peer_job_of_def peer_attempt_of_def attempts_of_def
  by (auto split: option.splits if_splits dest!: find_Some_mem)

definition good_change :: "bool \<Rightarrow> peer_job \<Rightarrow> peer_attempt \<Rightarrow> peer_job \<Rightarrow> peer_attempt \<Rightarrow> bool" where
  "good_change strict j a j' a' \<longleftrightarrow> pj_jobId j' = pj_jobId j \<and> same_attempt a a'
     \<and> (\<forall>n. pa_generation a = n \<longrightarrow> pair_ok n j a \<longrightarrow> pair_ok n j' a' \<and> (strict \<and> isTerminalJobStatus (pj_status j) \<longrightarrow> pj_status j' = pj_status j))"

definition goes_well :: "bool \<Rightarrow> peer_job \<Rightarrow> peer_attempt \<Rightarrow> peer_db \<Rightarrow> peer_db \<Rightarrow> bool" where
  "goes_well strict j a db db' \<longleftrightarrow> db' = db \<or> (\<exists>j' a'. good_change strict j a j' a' \<and> db' = snd (save_both j' a' db))"

lemma goes_well_same [simp]: "goes_well strict j a db db"
  by (simp add: goes_well_def)

lemma goes_well_save: "good_change strict j a j' a' \<Longrightarrow> goes_well strict j a db (snd (save_both j' a' db))"
  by (auto simp: goes_well_def)

lemma on_attempt_change:
  assumes "\<And>j a. peer_attempt_of i db = Some a \<Longrightarrow> goes_well strict j a db (snd (f j a db))"
  shows "attempt_change strict db (snd (on_attempt i token peerId f db))"
proof (cases "fencedAttempt i token peerId db")
  case (Inl e)
  then show ?thesis by (simp add: on_attempt_def attempt_change_def)
next
  case (Inr ja)
  obtain j a where ja: "ja = (j, a)" by (cases ja)
  note f = fenced [OF Inr [unfolded ja]]
  have res: "snd (on_attempt i token peerId f db) = snd (f j a db)" by (simp add: on_attempt_def Inr ja)
  from assms [of a j] f have "goes_well strict j a db (snd (f j a db))" by simp
  then show ?thesis unfolding res goes_well_def good_change_def attempt_change_def using f by metis
qed

lemma good_expire:
  assumes "strict \<Longrightarrow> pa_status a = AttemptActive"
  shows "good_change strict j a (j\<lparr>pj_status := requeue_status a\<rparr>) (a\<lparr>pa_status := AttemptExpired\<rparr>)"
  using assms by (cases "pa_certainty a") (auto simp: good_change_def same_attempt_def pair_ok_def requeue_status_def isTerminalJobStatus_def)

lemma good_start:
  assumes "pa_status a = AttemptActive"
  shows "good_change strict j a (j\<lparr>pj_status := PeerRunning\<rparr>) (a\<lparr>pa_startedAt := Some now, pa_remoteExecutionId := execution, pa_certainty := Started\<rparr>)"
  using assms by (auto simp: good_change_def same_attempt_def pair_ok_def isTerminalJobStatus_def)

lemma good_not_started:
  assumes "pa_status a = AttemptActive" "pa_startedAt a = None"
  shows "good_change strict j a j (a\<lparr>pa_certainty := NotStarted\<rparr>)"
  using assms by (auto simp: good_change_def same_attempt_def pair_ok_def)

lemma good_lease: "good_change strict j a j (a\<lparr>pa_leaseExpiresAt := e, pa_lastHeartbeatAt := Some now\<rparr>)"
proof -
  have "pair_ok n j (a\<lparr>pa_leaseExpiresAt := e, pa_lastHeartbeatAt := Some now\<rparr>) = pair_ok n j a" for n
    by (cases a) (simp only: pair_ok_def peer_attempt.simps)
  then show ?thesis by (simp add: good_change_def same_attempt_def)
qed

lemma good_complete:
  assumes "pa_status a = AttemptActive"
  shows "good_change strict j a (completed_job j receipt now) (a\<lparr>pa_status := AttemptCompleted, pa_certainty := TerminalVerified, pa_receipt := Some receipt\<rparr>)"
  using assms by (cases "pc_terminalState receipt") (auto simp: good_change_def same_attempt_def pair_ok_def completed_job_def isTerminalJobStatus_def)

lemma good_fail:
  assumes "pa_status a = AttemptActive"
  shows "good_change strict j a (j\<lparr>pj_status := (if pa_certainty a \<in> {Started, Unknown} then PeerAwaitingReconciliation else PeerPending)\<rparr>) (a\<lparr>pa_status := AttemptFailed\<rparr>)"
  using assms by (cases "pa_certainty a") (auto simp: good_change_def same_attempt_def pair_ok_def isTerminalJobStatus_def)

lemma good_cancel:
  assumes "pa_status a = AttemptActive \<or> pa_status a \<in> {AttemptExpired, AttemptSuperseded} \<and> pa_certainty a \<in> {Started, Unknown}"
  shows "good_change strict j a (j\<lparr>pj_status := PeerCancelled, pj_terminalAt := t, pj_terminalReason := r\<rparr>) (a\<lparr>pa_status := AttemptFailed\<rparr>)"
  using assms by (cases "pa_status a"; cases "pa_certainty a") (simp_all add: good_change_def same_attempt_def pair_ok_def isTerminalJobStatus_def, auto)

lemma active_fence: "assertActiveAttemptForFence a now = None \<Longrightarrow> pa_status a = AttemptActive"
  by (simp add: assertActiveAttemptForFence_def split: if_splits)

lemma markStarted_change: "attempt_change True db (snd (markStarted i token peerId now execution db))"
  unfolding markStarted_def by (rule on_attempt_change) (auto intro!: goes_well_save good_expire good_start)

lemma markNotStarted_change: "attempt_change True db (snd (markNotStarted i token peerId now db))"
  unfolding markNotStarted_def by (rule on_attempt_change) (auto intro!: goes_well_save good_not_started dest: active_fence split: option.splits)

lemma completeAttempt_change: "attempt_change True db (snd (completeAttempt i token peerId receipt now db))"
  unfolding completeAttempt_def Let_def by (rule on_attempt_change) (auto intro!: goes_well_save good_complete dest: active_fence split: option.splits)

lemma failAttempt_change: "attempt_change True db (snd (failAttempt i token peerId now db))"
  unfolding failAttempt_def
proof (rule on_attempt_change)
  fix j a
  show "goes_well True j a db (snd (case assertActiveAttemptForFence a now of Some e \<Rightarrow> (Inl e, db)
       | None \<Rightarrow> save_both (j\<lparr>pj_status := (if pa_certainty a \<in> {Started, Unknown} then PeerAwaitingReconciliation else PeerPending)\<rparr>) (a\<lparr>pa_status := AttemptFailed\<rparr>) db))"
    using goes_well_save [OF good_fail [OF active_fence], of a now True j db] by (cases "assertActiveAttemptForFence a now") simp_all
qed

lemma cancelAck_change: "attempt_change True db (snd (cancelAck i token peerId now db))"
  unfolding cancelAck_def Let_def by (rule on_attempt_change) (auto intro!: goes_well_save good_cancel)

lemma renew_change:
  assumes "strict \<Longrightarrow> case peer_attempt_of i db of None \<Rightarrow> True | Some a \<Rightarrow> pa_status a = AttemptActive"
  shows "attempt_change strict db (snd (peer_renewLease i token peerId now ms db))"
proof (cases "ms \<le> 0 \<or> ms > 600000")
  case True
  then show ?thesis by (simp add: peer_renewLease_def attempt_change_def)
next
  case False
  have "attempt_change strict db (snd (on_attempt i token peerId (\<lambda>j a db.
      let remaining = pj_maxRuntimeMs j - (now - coalesce (pa_startedAt a) (pa_createdAt a))
        in if remaining \<le> 0 then (Inl RuntimeBudgetExceeded, snd (save_both (j\<lparr>pj_status := requeue_status a\<rparr>) (a\<lparr>pa_status := AttemptExpired\<rparr>) db))
           else if now < pa_leaseExpiresAt a
           then save_both j (a\<lparr>pa_leaseExpiresAt := now + min ms remaining, pa_lastHeartbeatAt := Some now\<rparr>) db
           else (Inl (the (assertActiveAttemptForFence a now)), db)) db))"
    unfolding Let_def by (rule on_attempt_change) (use assms in \<open>auto intro!: goes_well_save good_expire good_lease\<close>)
  with False show ?thesis by (simp add: peer_renewLease_def)
qed

definition quiet :: "peer_job_status \<Rightarrow> bool" where
  "quiet st \<longleftrightarrow> st \<notin> {PeerPending, PeerClaimed, PeerRunning, PeerAwaitingReconciliation}"

lemma pair_okD:
  assumes "pair_ok n j a"
  shows "pa_generation a < n \<Longrightarrow> pa_certainty a = NotStarted" "pa_receipt a \<noteq> None \<longleftrightarrow> pa_certainty a = TerminalVerified"
    "pa_receipt a \<noteq> None \<Longrightarrow> pa_status a \<noteq> AttemptActive" "pa_startedAt a \<noteq> None \<Longrightarrow> pa_certainty a \<in> {Started, TerminalVerified}"
    "pa_status a = AttemptActive \<Longrightarrow> pa_generation a = n \<and> pj_status j \<in> {PeerClaimed, PeerRunning, PeerAwaitingReconciliation}"
    "pj_status j = PeerPending \<Longrightarrow> pa_certainty a = NotStarted"
    "pa_status a \<in> {AttemptExpired, AttemptSuperseded} \<Longrightarrow> pa_certainty a \<in> {Started, Unknown} \<Longrightarrow> pj_status j = PeerAwaitingReconciliation"
proof -
  note p = assms [unfolded pair_ok_def]
  note facts = p [THEN conjunct1] p [THEN conjunct2, THEN conjunct1] p [THEN conjunct2, THEN conjunct2, THEN conjunct1]
    p [THEN conjunct2, THEN conjunct2, THEN conjunct2, THEN conjunct1] p [THEN conjunct2, THEN conjunct2, THEN conjunct2, THEN conjunct2, THEN conjunct1]
    p [THEN conjunct2, THEN conjunct2, THEN conjunct2, THEN conjunct2, THEN conjunct2]
  show "pa_generation a < n \<Longrightarrow> pa_certainty a = NotStarted" "pj_status j = PeerPending \<Longrightarrow> pa_certainty a = NotStarted"
    using facts(2) by blast+
  show "pa_receipt a \<noteq> None \<longleftrightarrow> pa_certainty a = TerminalVerified" by (rule facts(3))
  show "pa_receipt a \<noteq> None \<Longrightarrow> pa_status a \<noteq> AttemptActive" using facts(4) by blast
  show "pa_startedAt a \<noteq> None \<Longrightarrow> pa_certainty a \<in> {Started, TerminalVerified}" using facts(5) by blast
  show "pa_status a = AttemptActive \<Longrightarrow> pa_generation a = n \<and> pj_status j \<in> {PeerClaimed, PeerRunning, PeerAwaitingReconciliation}" using facts(1) by blast
  show "pa_status a \<in> {AttemptExpired, AttemptSuperseded} \<Longrightarrow> pa_certainty a \<in> {Started, Unknown} \<Longrightarrow> pj_status j = PeerAwaitingReconciliation" using facts(6) by blast
qed

text \<open>A change of the job alone, given what its new status asks of the attempt.\<close>

lemma pair_job_change:
  assumes "pair_ok n j a" "pa_status a = AttemptActive \<Longrightarrow> pj_status j' \<in> {PeerClaimed, PeerRunning, PeerAwaitingReconciliation}"
    "pj_status j' = PeerPending \<Longrightarrow> pa_certainty a = NotStarted"
    "pa_status a \<in> {AttemptExpired, AttemptSuperseded} \<Longrightarrow> pa_certainty a \<in> {Started, Unknown} \<Longrightarrow> pj_status j' = PeerAwaitingReconciliation"
  shows "pair_ok n j' a"
  unfolding pair_ok_def
proof (intro conjI)
  note d = pair_okD [OF assms(1)]
  show "pa_status a = AttemptActive \<longrightarrow> pa_generation a = n \<and> pj_status j' \<in> {PeerClaimed, PeerRunning, PeerAwaitingReconciliation}" using d(5) assms(2) by blast
  show "pa_generation a < n \<or> pj_status j' = PeerPending \<longrightarrow> pa_certainty a = NotStarted" using d(1) assms(3) by blast
  show "pa_status a \<in> {AttemptExpired, AttemptSuperseded} \<and> pa_certainty a \<in> {Started, Unknown} \<longrightarrow> pj_status j' = PeerAwaitingReconciliation" using assms(4) by blast
qed (use pair_okD(2-4) [OF assms(1)] in blast)+

lemma quiet_pair: "pair_ok n j a \<Longrightarrow> quiet (pj_status j) \<Longrightarrow> quiet (pj_status j') \<Longrightarrow> pair_ok n j' a"
  by (rule pair_job_change, assumption) (use pair_okD(5,7) in \<open>fastforce simp: quiet_def\<close>)+

lemma same_status_pair: "pj_status j' = pj_status j \<Longrightarrow> pair_ok n j' a = pair_ok n j a"
  by (simp only: pair_ok_def)

lemma reconciled_pair: "pair_ok n j a \<Longrightarrow> pj_status j' = PeerAwaitingReconciliation \<Longrightarrow> pair_ok n j' a"
  by (rule pair_job_change) simp_all

lemma unclaimed_pair: "pair_ok n j a \<Longrightarrow> pj_status j = PeerPending \<Longrightarrow> pj_status j' = PeerCancelled \<Longrightarrow> pair_ok n j' a"
  by (auto simp: pair_ok_def)

definition good_job :: "peer_db \<Rightarrow> peer_job \<Rightarrow> peer_job \<Rightarrow> bool" where
  "good_job db j j' \<longleftrightarrow> pj_jobId j' = pj_jobId j \<and> (isTerminalJobStatus (pj_status j) \<longrightarrow> pj_status j' = pj_status j)
     \<and> (\<forall>a \<in> set (attempts_of (pj_jobId j) db). pa_generation a = jobGeneration j db \<longrightarrow> pair_ok (jobGeneration j db) j a \<longrightarrow> pair_ok (jobGeneration j db) j' a)"

lemma good_same_status: "pj_jobId j' = pj_jobId j \<Longrightarrow> pj_status j' = pj_status j \<Longrightarrow> good_job db j j'"
  unfolding good_job_def using same_status_pair [of j' j] by simp

lemma good_quiet: "pj_jobId j' = pj_jobId j \<Longrightarrow> \<not> isTerminalJobStatus (pj_status j) \<Longrightarrow> quiet (pj_status j) \<Longrightarrow> quiet (pj_status j') \<Longrightarrow> good_job db j j'"
  using quiet_pair by (auto simp: good_job_def)

lemma good_reconciled: "pj_jobId j' = pj_jobId j \<Longrightarrow> \<not> isTerminalJobStatus (pj_status j) \<Longrightarrow> pj_status j' = PeerAwaitingReconciliation \<Longrightarrow> good_job db j j'"
  unfolding good_job_def using reconciled_pair by metis

lemma good_unclaimed: "pj_jobId j' = pj_jobId j \<Longrightarrow> pj_status j = PeerPending \<Longrightarrow> pj_status j' = PeerCancelled \<Longrightarrow> good_job db j j'"
  unfolding good_job_def using unclaimed_pair by (metis (no_types) insertE isTerminalJobStatus_def peer_job_status.distinct(13,15,17,19) singletonD)

lemma on_job_change:
  assumes "\<And>j. pj_jobId j = i \<Longrightarrow> snd (f j db) = db \<or> (\<exists>j'. good_job db j j' \<and> snd (f j db) = save_job j' db)"
  shows "job_change db (snd (on_job i f db))"
proof (cases "peer_job_of i db")
  case None
  then show ?thesis by (simp add: on_job_def job_change_def)
next
  case (Some j)
  then have j: "j \<in> set (pd_jobs db)" "pj_jobId j = i" by (auto simp: peer_job_of_def dest: find_Some_mem)
  have res: "snd (on_job i f db) = snd (f j db)" by (simp add: on_job_def Some)
  from assms [OF j(2)] j(1) show ?thesis unfolding res good_job_def job_change_def by metis
qed

lemma saved_only: "good_job db j j' \<Longrightarrow> snd (save_only j' db) = db \<or> (\<exists>j''. good_job db j j'' \<and> snd (save_only j' db) = save_job j'' db)"
  by (auto simp: save_only_def)

lemma markStaging_change: "job_change db (snd (markStaging i sha now db))"
  unfolding markStaging_def Let_def by (rule on_job_change) (auto intro!: saved_only good_quiet simp: isTerminalJobStatus_def quiet_def)

lemma markAwaitingReview_change: "job_change db (snd (markAwaitingReview i input now db))"
  unfolding markAwaitingReview_def Let_def
  by (rule on_job_change) (auto intro!: saved_only intro: good_same_status good_quiet simp: isTerminalJobStatus_def quiet_def)

lemma recordVerification_change: "job_change db (snd (recordVerification i submissionId epoch st evidence now db))"
  unfolding recordVerification_def by (rule on_job_change) (auto intro!: saved_only good_same_status)

lemma markAwaitingReconciliation_change: "job_change db (snd (markAwaitingReconciliation i reason now db))"
  unfolding markAwaitingReconciliation_def by (rule on_job_change) (auto intro!: saved_only good_reconciled)

lemma finalizeReview_change: "job_change db (snd (finalizeReview i submissionId epoch feedbackId verdict now db))"
  unfolding finalizeReview_def
  by (rule on_job_change) (auto intro!: saved_only good_quiet simp: quiet_def review_bound_def split: review_verdict.splits)

lemma requestCancel_change: "job_change db (snd (requestCancel i now db))"
  unfolding requestCancel_def by (rule on_job_change) (auto intro!: saved_only good_same_status)

lemma cancelUnclaimedJob_change: "job_change db (snd (cancelUnclaimedJob i now db))"
  unfolding cancelUnclaimedJob_def by (rule on_job_change) (auto intro!: saved_only good_unclaimed)

lemma receipt_latest:
  assumes "peer_ok db" "j \<in> set (pd_jobs db)" "b \<in> set (attempts_of (pj_jobId j) db)" "pa_receipt b \<noteq> None" "a \<in> set (attempts_of (pj_jobId j) db)"
    "pa_generation a = jobGeneration j db"
  shows "pa_receipt a \<noteq> None"
proof -
  have pair: "pair_ok (jobGeneration j db) j b" using assms(1-3) by (auto simp: peer_ok_def)
  have "\<not> pa_generation b < jobGeneration j db" using pair assms(4) by (auto simp: pair_ok_def)
  then have "b = a" using generation_unique [OF assms(1,3,5)] generation_le [OF assms(1,3)] assms(6) by simp
  with assms(4) show ?thesis by simp
qed

lemma retry_change:
  assumes "peer_ok db"
  shows "job_change db (snd (retryResultProcessing i failure now db))"
proof (cases "peer_job_of i db")
  case None
  then show ?thesis by (simp add: retryResultProcessing_def on_job_def job_change_def)
next
  case (Some j)
  then have j: "j \<in> set (pd_jobs db)" "pj_jobId j = i" by (auto simp: peer_job_of_def dest: find_Some_mem)
  show ?thesis
  proof (cases "snd (retryResultProcessing i failure now db) = db")
    case False
    then obtain rp where rp: "pj_result j = Some rp" "pj_status j = PeerAwaitingReconciliation"
        "list_ex (\<lambda>a. case pa_receipt a of None \<Rightarrow> False | Some r \<Rightarrow> pc_terminalState r = Succeeded) (attempts_of i db)"
      and res: "snd (retryResultProcessing i failure now db) = save_job (j\<lparr>pj_status := PeerResultReceived,
          pj_result := Some (rp\<lparr>rp_failure := None, rp_retryRevision := Some (coalesce (rp_retryRevision rp) 0 + 1), rp_updatedAt := now\<rparr>)\<rparr>) db"
      by (auto simp: retryResultProcessing_def on_job_def Some save_only_def split: option.splits if_splits)
    from rp(3) obtain b where b: "b \<in> set (attempts_of (pj_jobId j) db)" "pa_receipt b \<noteq> None" using j(2) by (auto simp: list_ex_iff split: option.splits)
    have "pair_ok n j' a" if "pair_ok n j a" "pa_receipt a \<noteq> None" "pj_status j' = PeerResultReceived" for n j' a
      using that by (auto simp: pair_ok_def)
    then have "good_job db j (j\<lparr>pj_status := PeerResultReceived,
        pj_result := Some (rp\<lparr>rp_failure := None, rp_retryRevision := Some (coalesce (rp_retryRevision rp) 0 + 1), rp_updatedAt := now\<rparr>)\<rparr>)"
      unfolding good_job_def using receipt_latest [OF assms j(1) b] rp(2) by (simp add: isTerminalJobStatus_def)
    then show ?thesis unfolding job_change_def good_job_def res using j(1) by blast
  qed (simp add: job_change_def)
qed

lemma attempts_of_jobs [simp]: "attempts_of i (db\<lparr>pd_jobs := js\<rparr>) = attempts_of i db" "jobGeneration j (db\<lparr>pd_jobs := js\<rparr>) = jobGeneration j db"
  by (simp_all add: attempts_of_def jobGeneration_def)

lemma create_ok:
  assumes "peer_ok db"
  shows "peer_ok (snd (peer_createJob input uuid now db))"
proof (cases "snd (peer_createJob input uuid now db) = db")
  case False
  define i where "i = coalesce (jr_jobId input) (''job_'' @ uuid)"
  from False obtain outputs where res: "peer_job_of i db = None" "snd (peer_createJob input uuid now db) = db\<lparr>pd_jobs := pd_jobs db @ [new_peer_job input i outputs now]\<rparr>"
    unfolding peer_createJob_def i_def [symmetric] by (auto simp: Let_def split: if_splits sum.splits option.splits)
  define j where "j = new_peer_job input i outputs now"
  have j: "peer_job_of (pj_jobId j) db = None" "snd (peer_createJob input uuid now db) = db\<lparr>pd_jobs := pd_jobs db @ [j]\<rparr>"
    using res by (simp_all add: j_def new_peer_job_def)
  then have new: "pj_jobId j \<notin> pj_jobId ` set (pd_jobs db)" by (auto simp: peer_job_of_def find_None_iff)
  have "pa_jobId a \<noteq> pj_jobId j" if "a \<in> set (pd_attempts db)" for a using assms new that unfolding peer_ok_def by metis
  then have "attempts_of (pj_jobId j) db = []" by (simp add: attempts_of_def filter_empty_conv)
  with assms new show ?thesis unfolding j(2) by (auto simp: peer_ok_def simp del: upt_Suc)
qed (use assms in simp)

lemma peer_claim_ok:
  assumes ok: "peer_ok db" and fresh: "''att_'' @ uuid \<notin> pa_attemptId ` set (pd_attempts db)"
  shows "peer_ok (snd (claimNextJob peerId taskClass now uuid token db))"
proof (cases "snd (claimNextJob peerId taskClass now uuid token db) = db")
  case False
  then obtain j a where cand: "peer_candidate peerId taskClass db = Some j" and a: "a = new_peer_attempt j peerId (''att_'' @ uuid) token (jobGeneration j db + 1) now"
      "pa_attemptId a \<notin> pa_attemptId ` set (pd_attempts db)"
    and res: "snd (claimNextJob peerId taskClass now uuid token db) = (save_job (j\<lparr>pj_status := PeerClaimed\<rparr>) db)\<lparr>pd_attempts := pd_attempts db @ [a]\<rparr>"
    using fresh by (auto simp: claimNextJob_def new_peer_attempt_def Let_def split: if_splits option.splits)
  have j: "j \<in> set (pd_jobs db)" "pj_status j = PeerPending" using first_row_SomeD [OF cand [unfolded peer_candidate_def]] by auto
  define db' where "db' = (save_job (j\<lparr>pj_status := PeerClaimed\<rparr>) db)\<lparr>pd_attempts := pd_attempts db @ [a]\<rparr>"
  have new: "pa_jobId a = pj_jobId j" "pa_generation a = Suc (length (attempts_of (pj_jobId j) db))" "pd_attempts db' = pd_attempts db @ [a]"
    by (simp_all add: a(1) new_peer_attempt_def jobGeneration_def db'_def)
  have job: "x = j" if "x \<in> set (pd_jobs db)" "pj_jobId x = pj_jobId j" for x
    using ok that j by (auto simp: peer_ok_def intro: key_unique [of pj_jobId "pd_jobs db"])
  have rows: "attempts_of i db' = attempts_of i db @ (if i = pj_jobId j then [a] else [])" for i
    by (simp add: attempts_of_def new)
  have jobs: "pd_jobs db' = map (\<lambda>x. if pj_jobId x = pj_jobId j then j\<lparr>pj_status := PeerClaimed\<rparr> else x) (pd_jobs db)"
    by (simp add: db'_def save_job_def sql_update_def)
  have ids: "map pj_jobId (pd_jobs db') = map pj_jobId (pd_jobs db)" unfolding jobs by simp
  have gens: "map pa_generation (attempts_of i db') = [1..<Suc (length (attempts_of i db'))]" for i
    using ok by (cases "i = pj_jobId j") (simp_all add: rows peer_ok_def new upt_Suc_append del: upt_Suc)
  have pairs: "pair_ok (jobGeneration x db') x b" if x: "x \<in> set (pd_jobs db')" and b: "b \<in> set (attempts_of (pj_jobId x) db')" for x b
  proof (cases "pj_jobId x = pj_jobId j")
    case True
    with x job have xj: "x = j\<lparr>pj_status := PeerClaimed\<rparr>" by (auto simp: jobs split: if_splits)
    have n: "jobGeneration x db' = jobGeneration j db + 1" by (simp add: jobGeneration_def rows True)
    show ?thesis
    proof (cases "b = a")
      case True
      then show ?thesis unfolding n by (simp add: a(1) new_peer_attempt_def pair_ok_def xj)
    next
      case False
      with b True have b: "b \<in> set (attempts_of (pj_jobId j) db)" by (simp add: rows)
      have pair: "pair_ok (jobGeneration j db) j b" using ok j(1) b by (auto simp: peer_ok_def)
      note d = pair_okD [OF pair]
      have "pa_certainty b = NotStarted" "pa_status b \<noteq> AttemptActive" using d(5,6) j(2) by auto
      moreover from this have "pa_startedAt b = None" "pa_receipt b = None" using d(2,4) by (cases "pa_startedAt b"; simp)+
      ultimately show ?thesis by (simp add: pair_ok_def)
    qed
  next
    case False
    then have "x \<in> set (pd_jobs db)" "b \<in> set (attempts_of (pj_jobId x) db)" "jobGeneration x db' = jobGeneration x db"
      using x b by (auto simp: jobs rows jobGeneration_def split: if_splits)
    then show ?thesis using ok by (auto simp: peer_ok_def)
  qed
  have "pj_jobId ` set (pd_jobs db') = pj_jobId ` set (pd_jobs db)" using ids by (metis set_map)
  then have "\<forall>b \<in> set (pd_attempts db'). pa_jobId b \<in> pj_jobId ` set (pd_jobs db')" using ok j(1) new by (auto simp: peer_ok_def simp del: upt_Suc)
  then have "peer_ok db'" unfolding peer_ok_def using ids gens pairs ok a(2) new(3) by (simp add: peer_ok_def del: upt_Suc)
  then show ?thesis unfolding res db'_def .
qed (use ok in simp)

definition keeps_terminal :: "peer_db \<Rightarrow> peer_db \<Rightarrow> bool" where
  "keeps_terminal db db' \<longleftrightarrow> (\<forall>j \<in> set (pd_jobs db). isTerminalJobStatus (pj_status j) \<longrightarrow> (\<exists>j' \<in> set (pd_jobs db'). pj_jobId j' = pj_jobId j \<and> pj_status j' = pj_status j))"

lemma keeps_terminal_refl [simp]: "keeps_terminal db db"
  by (auto simp: keeps_terminal_def)

lemma keeps_terminal_trans: "keeps_terminal a b \<Longrightarrow> keeps_terminal b c \<Longrightarrow> keeps_terminal a c"
  unfolding keeps_terminal_def by metis

lemma save_keeps_terminal:
  assumes "peer_ok db" "j \<in> set (pd_jobs db)" "pj_jobId j' = pj_jobId j" "isTerminalJobStatus (pj_status j) \<longrightarrow> pj_status j' = pj_status j"
    "pd_jobs db' = pd_jobs (save_job j' db)"
  shows "keeps_terminal db db'"
  unfolding keeps_terminal_def
proof (intro ballI impI)
  fix x assume x: "x \<in> set (pd_jobs db)" "isTerminalJobStatus (pj_status x)"
  have "x = j" if "pj_jobId x = pj_jobId j'" using assms(1-3) x that by (auto simp: peer_ok_def intro: key_unique [of pj_jobId "pd_jobs db"])
  then show "\<exists>j' \<in> set (pd_jobs db'). pj_jobId j' = pj_jobId x \<and> pj_status j' = pj_status x"
    using x assms(3-5) by (intro bexI [of _ "if pj_jobId x = pj_jobId j' then j' else x"]) (auto simp: save_job_def sql_update_def)
qed

lemma attempt_change_keeps: "peer_ok db \<Longrightarrow> attempt_change True db db' \<Longrightarrow> keeps_terminal db db'"
  unfolding attempt_change_def peer_ok_def [of db]
  by (elim disjE exE conjE) (simp, rule save_keeps_terminal, auto simp: peer_ok_def save_both_def save_attempt_def)

lemma job_change_keeps: "peer_ok db \<Longrightarrow> job_change db db' \<Longrightarrow> keeps_terminal db db'"
  unfolding job_change_def using save_keeps_terminal by (metis keeps_terminal_refl)

lemma reap_one:
  assumes ok: "peer_ok db" and a: "a \<in> set (pd_attempts db)" "pa_status a = AttemptActive"
  shows "attempt_change True db (reap_attempt a db) \<and> (\<forall>b \<in> set (pd_attempts db). pa_attemptId b \<noteq> pa_attemptId a \<longrightarrow> b \<in> set (pd_attempts (reap_attempt a db)))"
proof (cases "peer_job_of (pa_jobId a) db")
  case None
  then show ?thesis by (simp add: reap_attempt_def attempt_change_def)
next
  case (Some j)
  then have j: "j \<in> set (pd_jobs db)" "pj_jobId j = pa_jobId a" by (auto simp: peer_job_of_def dest: find_Some_mem)
  have mem: "a \<in> set (attempts_of (pj_jobId j) db)" using a(1) j(2) by (simp add: attempts_of_def)
  then have "pair_ok (jobGeneration j db) j a" using ok j(1) by (auto simp: peer_ok_def)
  then have gen: "pa_generation a = jobGeneration j db" using pair_okD(5) a(2) by blast
  have good: "good_change True j a (j\<lparr>pj_status := requeue_status a\<rparr>) (a\<lparr>pa_status := AttemptExpired\<rparr>)" by (rule good_expire) (rule a(2))
  then have "attempt_change True db (snd (save_both (j\<lparr>pj_status := requeue_status a\<rparr>) (a\<lparr>pa_status := AttemptExpired\<rparr>) db))"
    unfolding attempt_change_def good_change_def using j(1) mem gen by metis
  then show ?thesis by (auto simp: reap_attempt_def Some attempt_change_def save_both_def save_attempt_def save_job_def sql_update_def)
qed

lemma reap_fold:
  assumes "peer_ok db" "distinct (map pa_attemptId rows)" "\<forall>a \<in> set rows. a \<in> set (pd_attempts db) \<and> pa_status a = AttemptActive"
  shows "peer_ok (fold reap_attempt rows db) \<and> keeps_terminal db (fold reap_attempt rows db)"
  using assms
proof (induction rows arbitrary: db)
  case (Cons a rows)
  then have one: "attempt_change True db (reap_attempt a db)" "\<forall>b \<in> set (pd_attempts db). pa_attemptId b \<noteq> pa_attemptId a \<longrightarrow> b \<in> set (pd_attempts (reap_attempt a db))"
    using reap_one [of db a] by auto
  have "\<forall>b \<in> set rows. b \<in> set (pd_attempts (reap_attempt a db)) \<and> pa_status b = AttemptActive"
    using Cons.prems(2,3) one(2) by (auto simp: image_iff)
  then have "peer_ok (fold reap_attempt rows (reap_attempt a db)) \<and> keeps_terminal (reap_attempt a db) (fold reap_attempt rows (reap_attempt a db))"
    using Cons attempt_change_ok [OF _ one(1)] by simp
  then show ?case using attempt_change_keeps [OF Cons.prems(1) one(1)] keeps_terminal_trans by auto
qed simp

lemma reap_ok:
  assumes "peer_ok db"
  shows "peer_ok (reapExpiredLeases now limit db) \<and> keeps_terminal db (reapExpiredLeases now limit db)"
  unfolding reapExpiredLeases_def
proof (rule reap_fold [OF assms])
  let ?xs = "order_asc (\<lambda>a. (pa_leaseExpiresAt a, pa_attemptId a)) (filter (\<lambda>a. pa_status a = AttemptActive \<and> pa_leaseExpiresAt a \<le> now) (pd_attempts db))"
  have "distinct (map pa_attemptId (filter (\<lambda>a. pa_status a = AttemptActive \<and> pa_leaseExpiresAt a \<le> now) (pd_attempts db)))"
    using assms by (simp add: peer_ok_def distinct_map_filter)
  then have "distinct (map pa_attemptId ?xs)" unfolding order_asc_def distinct_map by simp
  then show "distinct (map pa_attemptId (expired_attempts now limit db))" by (simp add: expired_attempts_def take_map [symmetric])
  show "\<forall>a \<in> set (expired_attempts now limit db). a \<in> set (pd_attempts db) \<and> pa_status a = AttemptActive"
    by (auto simp: expired_attempts_def dest!: in_set_takeD)
qed

lemma restart_ok:
  assumes "peer_ok db"
  shows "peer_ok (restartReconciliation now db) \<and> keeps_terminal db (restartReconciliation now db)"
proof
  let ?g = "\<lambda>j. if pj_status j \<in> {PeerClaimed, PeerRunning} then j\<lparr>pj_status := PeerAwaitingReconciliation\<rparr> else j"
  let ?h = "\<lambda>a. if pa_status a = AttemptActive then a\<lparr>pa_status := (if now < pa_leaseExpiresAt a then AttemptSuperseded else AttemptExpired)\<rparr> else a"
  have jobs: "pd_jobs (restartReconciliation now db) = map ?g (pd_jobs db)" and attempts: "pd_attempts (restartReconciliation now db) = map ?h (pd_attempts db)"
    by (simp_all add: restartReconciliation_def sql_update_def)
  show "keeps_terminal db (restartReconciliation now db)" unfolding keeps_terminal_def jobs by (force simp: isTerminalJobStatus_def)
  show "peer_ok (restartReconciliation now db)"
  proof (rule ok_change [OF assms jobs attempts])
    fix j a assume "pair_ok (jobGeneration j db) j a"
    note d = pair_okD [OF this]
    show "pair_ok (jobGeneration j db) (?g j) (?h a)"
    proof (cases "pa_status a = AttemptActive")
      case True
      with d(5) have "pj_status (?g j) = PeerAwaitingReconciliation" by auto
      then show ?thesis using d(1,2,4) True unfolding pair_ok_def by simp
    next
      case False
      then show ?thesis using d(7) by (auto intro!: pair_job_change [OF \<open>pair_ok (jobGeneration j db) j a\<close>] dest: d(6))
    qed
  qed (simp_all add: same_attempt_def)
qed

section \<open>Properties\<close>

text \<open>Renewals of attempts that have ended are left out.\<close>

definition orderly_step :: "peer_db \<Rightarrow> peer_db \<Rightarrow> bool" where
  "orderly_step db db' \<longleftrightarrow> (\<exists>r. peer_call r db db'
     \<and> (case r of None \<Rightarrow> True | Some i \<Rightarrow> (case peer_attempt_of i db of None \<Rightarrow> True | Some a \<Rightarrow> pa_status a = AttemptActive)))"

lemma create_keeps: "keeps_terminal db (snd (peer_createJob input uuid now db))"
  by (auto simp: keeps_terminal_def peer_createJob_def Let_def split: sum.splits option.splits)

lemma peer_claim_keeps:
  assumes "peer_ok db"
  shows "keeps_terminal db (snd (claimNextJob peerId taskClass now uuid token db))"
proof (cases "peer_candidate peerId taskClass db")
  case None
  then show ?thesis by (simp add: claimNextJob_def)
next
  case (Some j)
  have j: "j \<in> set (pd_jobs db)" "pj_status j = PeerPending" using first_row_SomeD [OF Some [unfolded peer_candidate_def]] by auto
  have "keeps_terminal db (save_job (j\<lparr>pj_status := PeerClaimed\<rparr>) db)" using j by (intro save_keeps_terminal [OF assms]) (auto simp: isTerminalJobStatus_def)
  then show ?thesis by (auto simp: claimNextJob_def Some Let_def keeps_terminal_def)
qed

lemma peer_call_ok:
  assumes ok: "peer_ok db" and call: "peer_call r db db'"
  shows "peer_ok db' \<and> (orderly_step db db' \<and> r = None \<longrightarrow> keeps_terminal db db')"
proof -
  have att: "peer_ok d \<and> keeps_terminal db d" if "attempt_change True db d" for d using that attempt_change_ok [OF ok] attempt_change_keeps [OF ok] by blast
  have job: "peer_ok d \<and> keeps_terminal db d" if "job_change db d" for d using that job_change_ok [OF ok] job_change_keeps [OF ok] by blast
  show ?thesis using call
  proof cases
    case (p_renew i token peerId now ms)
    then show ?thesis using attempt_change_ok [OF ok renew_change [of False]] by simp
  next
    case (p_retry i failure now)
    then show ?thesis using job [OF retry_change [OF ok]] by simp
  qed (simp_all add: create_ok [OF ok] create_keeps peer_claim_ok [OF ok] peer_claim_keeps [OF ok] att [OF markStarted_change] att [OF markNotStarted_change]
      att [OF completeAttempt_change] att [OF failAttempt_change] att [OF cancelAck_change] job [OF markStaging_change] job [OF markAwaitingReview_change]
      job [OF recordVerification_change] job [OF markAwaitingReconciliation_change] job [OF finalizeReview_change] job [OF requestCancel_change]
      job [OF cancelUnclaimedJob_change] reap_ok [OF ok] restart_ok [OF ok])
qed

lemma orderly_ok:
  assumes "peer_ok db" "orderly_step db db'"
  shows "peer_ok db' \<and> keeps_terminal db db'"
proof -
  from assms(2) obtain r where r: "peer_call r db db'" "case r of None \<Rightarrow> True | Some i \<Rightarrow> (case peer_attempt_of i db of None \<Rightarrow> True | Some a \<Rightarrow> pa_status a = AttemptActive)"
    by (auto simp: orderly_step_def)
  show ?thesis
  proof (cases r)
    case None
    then show ?thesis using peer_call_ok [OF assms(1) r(1)] assms(2) by simp
  next
    case (Some i)
    with r(1) obtain token peerId now ms where "db' = snd (peer_renewLease i token peerId now ms db)" by (auto elim: peer_call.cases)
    then show ?thesis using renew_change [of True i db token peerId now ms] r(2) Some attempt_change_ok [OF assms(1)] attempt_change_keeps [OF assms(1)] by auto
  qed
qed

interpretation peer_inv: store_invariant peer_start peer_step peer_ok
proof unfold_locales
  show "peer_ok s" if "peer_start s" for s using that by (simp add: peer_start_def peer_ok_def attempts_of_def)
  show "peer_ok s'" if "peer_ok s" "peer_step s s'" for s s' using that peer_call_ok by (auto simp: peer_step_def)
qed

lemma latest_at_most_one:
  assumes "peer_ok db" "\<And>a. a \<in> set (attempts_of i db) \<Longrightarrow> P a \<Longrightarrow> pa_generation a = length (attempts_of i db)"
  shows "length (filter P (attempts_of i db)) \<le> 1"
proof -
  have "distinct (map pa_generation (attempts_of i db))" using assms(1) unfolding peer_ok_def by (metis distinct_upt)
  then have "distinct (map pa_generation (filter P (attempts_of i db)))" by (rule distinct_map_filter)
  moreover have "set (map pa_generation (filter P (attempts_of i db))) \<subseteq> {length (attempts_of i db)}" using assms(2) by auto
  ultimately have "length (map pa_generation (filter P (attempts_of i db))) \<le> card {length (attempts_of i db)}"
    by (metis card_mono distinct_card finite.emptyI finite_insert)
  then show ?thesis by simp
qed

text \<open>
  C13. Work that may have begun is never handed out again. In every reachable state at most one attempt of
  a job may have begun, at most one is active, the attempts are numbered in the order of their claims, and
  a claim is granted only for a job all of whose earlier attempts were reported as never begun.
\<close>

theorem work_never_repeated:
  assumes "reachable peer_start peer_step db"
  shows "length (filter (\<lambda>a. pa_certainty a \<noteq> NotStarted \<or> pa_startedAt a \<noteq> None \<or> pa_receipt a \<noteq> None) (attempts_of i db)) \<le> 1
    \<and> length (filter (\<lambda>a. pa_status a = AttemptActive) (attempts_of i db)) \<le> 1
    \<and> map pa_generation (attempts_of i db) = [1..<Suc (length (attempts_of i db))]
    \<and> (case fst (claimNextJob peerId taskClass now uuid token db) of
         Some (j, a) \<Rightarrow> list_all (\<lambda>b. pa_certainty b = NotStarted \<and> pa_startedAt b = None \<and> pa_status b \<noteq> AttemptActive) (attempts_of (pj_jobId j) db)
       | None \<Rightarrow> True)"
proof -
  have ok: "peer_ok db" by (rule peer_inv.inv_reachable [OF assms])
  have pair: "pair_ok (jobGeneration j db) j a" if "j \<in> set (pd_jobs db)" "a \<in> set (attempts_of (pj_jobId j) db)" for j a
    using ok that by (auto simp: peer_ok_def)
  have begun: "pa_certainty a \<noteq> NotStarted" if "pair_ok n j a" "pa_certainty a \<noteq> NotStarted \<or> pa_startedAt a \<noteq> None \<or> pa_receipt a \<noteq> None" for n j a
    using pair_okD(2,4) [OF that(1)] that(2) by auto
  have latest: "pa_generation a = length (attempts_of i db)" if "a \<in> set (attempts_of i db)"
      "(pa_certainty a \<noteq> NotStarted \<or> pa_startedAt a \<noteq> None \<or> pa_receipt a \<noteq> None) \<or> pa_status a = AttemptActive" for a
  proof -
    have "pa_jobId a = i" "a \<in> set (pd_attempts db)" using that(1) by (auto simp: attempts_of_def)
    then obtain j where j: "j \<in> set (pd_jobs db)" "pj_jobId j = i" using ok unfolding peer_ok_def by (metis imageE)
    note p = pair [OF j(1), of a, unfolded j(2), OF that(1)]
    show ?thesis using pair_okD(1,5) [OF p] begun [OF p] that generation_le [OF ok, of a j] j(2) by (fastforce simp: jobGeneration_def)
  qed
  have "list_all (\<lambda>b. pa_certainty b = NotStarted \<and> pa_startedAt b = None \<and> pa_status b \<noteq> AttemptActive) (attempts_of (pj_jobId j) db)"
    if "fst (claimNextJob peerId taskClass now uuid token db) = Some (j, a)" for j a
  proof -
    from that obtain j0 where cand: "peer_candidate peerId taskClass db = Some j0" "pj_jobId j = pj_jobId j0"
      by (auto simp: claimNextJob_def Let_def split: option.splits if_splits)
    have j0: "j0 \<in> set (pd_jobs db)" "pj_status j0 = PeerPending" using first_row_SomeD [OF cand(1) [unfolded peer_candidate_def]] by auto
    have "pa_certainty b = NotStarted \<and> pa_startedAt b = None \<and> pa_status b \<noteq> AttemptActive" if b: "b \<in> set (attempts_of (pj_jobId j0) db)" for b
      using pair_okD(4-6) [OF pair [OF j0(1) b]] j0(2) by (cases "pa_startedAt b") auto
    then show ?thesis by (simp add: cand(2) list_all_iff)
  qed
  then have "case fst (claimNextJob peerId taskClass now uuid token db) of
      Some (j, a) \<Rightarrow> list_all (\<lambda>b. pa_certainty b = NotStarted \<and> pa_startedAt b = None \<and> pa_status b \<noteq> AttemptActive) (attempts_of (pj_jobId j) db)
    | None \<Rightarrow> True" by (simp split: option.splits)
  moreover have "length (filter (\<lambda>a. pa_certainty a \<noteq> NotStarted \<or> pa_startedAt a \<noteq> None \<or> pa_receipt a \<noteq> None) (attempts_of i db)) \<le> 1"
    "length (filter (\<lambda>a. pa_status a = AttemptActive) (attempts_of i db)) \<le> 1"
    by (rule latest_at_most_one [OF ok], rule latest, assumption, blast)+
  moreover have "map pa_generation (attempts_of i db) = [1..<Suc (length (attempts_of i db))]" using ok unfolding peer_ok_def by blast
  ultimately show ?thesis by blast
qed

text \<open>
  C14. A completed, failed or cancelled peer job, or one sent back by the reviewer, keeps its status for
  ever, as long as nobody renews an attempt that has ended.
\<close>

theorem terminal_peer_jobs_final:
  assumes "reachable peer_start peer_step db" "j \<in> set (pd_jobs db)" "isTerminalJobStatus (pj_status j)" "orderly_step\<^sup>*\<^sup>* db db'"
  shows "\<exists>j' \<in> set (pd_jobs db'). pj_jobId j' = pj_jobId j \<and> pj_status j' = pj_status j"
proof -
  have "peer_ok db' \<and> keeps_terminal db db'"
    using assms(4)
  proof (induction rule: rtranclp_induct)
    case base
    then show ?case using peer_inv.inv_reachable [OF assms(1)] by simp
  next
    case (step y z)
    then show ?case using orderly_ok keeps_terminal_trans by blast
  qed
  then show ?thesis using assms(2,3) by (auto simp: keeps_terminal_def)
qed

text \<open>
  C32. The renewal of a lease does not ask whether the attempt is still active: once the runtime budget is
  used up, a renewal of the latest attempt of a job takes back whatever came of it. An attempt that was
  completed counts as expired, and its job, completed, failed, cancelled or under review, waits for
  reconciliation again, or is pending if the attempt was reported as never begun.
\<close>

theorem late_renewal_reopens_job:
  assumes "fencedAttempt i token peerId db = Inr (j, a)" "0 < ms" "ms \<le> 600000" "pj_maxRuntimeMs j \<le> now - coalesce (pa_startedAt a) (pa_createdAt a)"
  shows "case peer_renewLease i token peerId now ms db of
    (res, db') \<Rightarrow> res = Inl RuntimeBudgetExceeded \<and> peer_job_of (pj_jobId j) db' = Some (j\<lparr>pj_status := requeue_status a\<rparr>)
      \<and> peer_attempt_of i db' = Some (a\<lparr>pa_status := AttemptExpired\<rparr>)"
proof -
  have "peer_attempt_of i db = Some a" "peer_job_of (pa_jobId a) db = Some j" using assms(1) unfolding fencedAttempt_def by (auto split: option.splits if_splits)
  moreover from this have ids: "pj_jobId j = pa_jobId a" "pa_attemptId a = i"
    unfolding peer_job_of_def peer_attempt_of_def by (auto dest: find_Some_mem)
  ultimately have f: "peer_job_of (pj_jobId j) db = Some j" "peer_attempt_of i db = Some a" "pa_attemptId a = i" by simp_all
  have find: "find (\<lambda>x. k x = k y) (sql_update (\<lambda>x. k x = k y') (\<lambda>_. y') xs) = Some y'" if "find (\<lambda>x. k x = k y) xs = Some y" "k y' = k y"
    for k :: "'x \<Rightarrow> string" and y y' xs using that by (induction xs) (auto simp: sql_update_def)
  have "peer_renewLease i token peerId now ms db = (Inl RuntimeBudgetExceeded, snd (save_both (j\<lparr>pj_status := requeue_status a\<rparr>) (a\<lparr>pa_status := AttemptExpired\<rparr>) db))"
    using assms by (simp add: peer_renewLease_def on_attempt_def Let_def)
  moreover have "peer_job_of (pj_jobId j) (snd (save_both (j\<lparr>pj_status := requeue_status a\<rparr>) (a\<lparr>pa_status := AttemptExpired\<rparr>) db)) = Some (j\<lparr>pj_status := requeue_status a\<rparr>)"
    using find [of pj_jobId j "pd_jobs db" "j\<lparr>pj_status := requeue_status a\<rparr>"] f(1) by (simp add: peer_job_of_def save_both_def save_attempt_def save_job_def)
  moreover have "peer_attempt_of i (snd (save_both (j\<lparr>pj_status := requeue_status a\<rparr>) (a\<lparr>pa_status := AttemptExpired\<rparr>) db)) = Some (a\<lparr>pa_status := AttemptExpired\<rparr>)"
    using find [of pa_attemptId a "pd_attempts db" "a\<lparr>pa_status := AttemptExpired\<rparr>"] f(2,3) by (simp add: peer_attempt_of_def save_both_def save_attempt_def save_job_def)
  ultimately show ?thesis by simp
qed

section \<open>An approved job\<close>

definition demo_request :: peer_request where
  "demo_request = \<lparr>jr_jobId = None, jr_peerId = ''p'', jr_workSessionId = Some ''w'', jr_workspaceSessionId = Some ''x'',
     jr_schedulerDispatchId = None, jr_repositoryId = ''r'', jr_baseRevision = ''b'', jr_taskClass = ProposePatch, jr_instructionHash = ''h'', jr_instructions = ''i'',
     jr_allowedOutputs = [''src''], jr_maxRuntimeMs = 1000, jr_maxArtifactBytes = 10\<rparr>"

definition demo_uuid :: string where
  "demo_uuid = ''00000000-0000-0000-0000-000000000001''"

definition demo_receipt :: peer_receipt where
  "demo_receipt = \<lparr>pc_jobId = ''job_'' @ demo_uuid, pc_attemptId = ''att_1'', pc_actorClass = MuseVmProcess, pc_baseRevision = ''b'', pc_manifestSha256 = ''m'',
     pc_files = [], pc_totalBytes = 0, pc_terminalState = Succeeded, pc_summary = None\<rparr>"

definition demo_review :: review_input where
  "demo_review = \<lparr>rw_receiptSha256 = ''m'', rw_submissionId = ''s'', rw_reviewEpoch = 1, rw_snapshotKind = ''git'', rw_snapshotRef = ''ref'', rw_diffSha256 = ''d'',
     rw_verificationStatus = None, rw_verificationEvidence = None\<rparr>"

definition demo_created :: peer_db where
  "demo_created = snd (peer_createJob demo_request demo_uuid 0 \<lparr>pd_jobs = [], pd_attempts = []\<rparr>)"

definition demo_claimed :: peer_db where
  "demo_claimed = snd (claimNextJob ''p'' None 10 ''1'' ''t'' demo_created)"

definition demo_calls :: "(peer_db \<Rightarrow> peer_db) list" where
  "demo_calls = [\<lambda>db. snd (markStarted ''att_1'' ''t'' ''p'' 20 None db), \<lambda>db. snd (completeAttempt ''att_1'' ''t'' ''p'' demo_receipt 30 db),
     \<lambda>db. snd (markStaging (''job_'' @ demo_uuid) ''m'' 40 db), \<lambda>db. snd (markAwaitingReview (''job_'' @ demo_uuid) demo_review 50 db),
     \<lambda>db. snd (finalizeReview (''job_'' @ demo_uuid) ''s'' 1 ''f'' VerdictApprove 60 db)]"

definition demo_db :: peer_db where
  "demo_db = fold (\<lambda>f db. f db) demo_calls demo_claimed"

lemma peer_demo_reachable: "reachable peer_start peer_step demo_db"
proof -
  have start: "reachable peer_start peer_step \<lparr>pd_jobs = [], pd_attempts = []\<rparr>" by (rule reachable_start) (simp add: peer_start_def)
  have "peer_step \<lparr>pd_jobs = [], pd_attempts = []\<rparr> demo_created" unfolding peer_step_def demo_created_def by (rule exI, rule p_create)
  with start have "reachable peer_start peer_step demo_created" by (rule reachable_step)
  moreover have "pd_attempts demo_created = []" by code_simp
  then have "peer_step demo_created demo_claimed" unfolding peer_step_def demo_claimed_def by (auto intro!: exI [of _ None] p_claim)
  ultimately have claimed: "reachable peer_start peer_step demo_claimed" by (rule reachable_step)
  have run: "reachable peer_start peer_step (fold (\<lambda>f db. f db) fs db)"
    if "reachable peer_start peer_step db" "\<forall>f \<in> set fs. \<forall>db. peer_step db (f db)" for fs db
    using that by (induction fs arbitrary: db) (auto intro: reachable_step)
  have "\<forall>f \<in> set demo_calls. \<forall>db. peer_step db (f db)"
    unfolding demo_calls_def peer_step_def by (simp, intro conjI allI exI; rule peer_call.intros)
  then show ?thesis unfolding demo_db_def by (rule run [OF claimed])
qed

definition demo_job :: peer_job where
  "demo_job = (new_peer_job demo_request (''job_'' @ demo_uuid) [''src''] 0)\<lparr>pj_status := PeerCompleted, pj_terminalAt := Some 60, pj_terminalReason := Some ''reviewer_approved'',
     pj_result := Some ((empty_processing 60)\<lparr>rp_receiptSha256 := Some ''m'', rp_submissionId := Some ''s'', rp_reviewEpoch := Some 1, rp_snapshotKind := Some ''git'',
       rp_snapshotRef := Some ''ref'', rp_diffSha256 := Some ''d'', rp_feedbackId := Some ''f'', rp_reviewVerdict := Some VerdictApprove\<rparr>)\<rparr>"

definition demo_attempt :: peer_attempt where
  "demo_attempt = (new_peer_attempt demo_job ''p'' ''att_1'' ''t'' 1 10)\<lparr>pa_startedAt := Some 20, pa_status := AttemptCompleted, pa_certainty := TerminalVerified, pa_receipt := Some demo_receipt\<rparr>"

lemma demo_rows: "pd_jobs demo_db = [demo_job]" "pd_attempts demo_db = [demo_attempt]"
  by code_simp+

theorem work_never_repeated_witness:
  "length (filter (\<lambda>a. pa_certainty a \<noteq> NotStarted \<or> pa_startedAt a \<noteq> None \<or> pa_receipt a \<noteq> None) (attempts_of (pj_jobId demo_job) demo_db)) \<le> 1
   \<and> attempts_of (pj_jobId demo_job) demo_db = [demo_attempt] \<and> pa_receipt demo_attempt = Some demo_receipt"
proof -
  have "attempts_of (pj_jobId demo_job) demo_db = [demo_attempt]" "pa_receipt demo_attempt = Some demo_receipt"
    by (simp_all add: attempts_of_def demo_rows demo_attempt_def new_peer_attempt_def)
  then show ?thesis using work_never_repeated [OF peer_demo_reachable, of "pj_jobId demo_job"] by blast
qed

theorem terminal_peer_jobs_final_witness:
  "isTerminalJobStatus (pj_status demo_job) \<and> demo_job \<in> set (pd_jobs demo_db)
   \<and> (\<exists>j' \<in> set (pd_jobs (restartReconciliation 100 demo_db)). pj_jobId j' = pj_jobId demo_job \<and> pj_status j' = PeerCompleted)"
proof -
  have j: "demo_job \<in> set (pd_jobs demo_db)" "isTerminalJobStatus (pj_status demo_job)" "pj_status demo_job = PeerCompleted"
    by (simp_all add: demo_rows demo_job_def isTerminalJobStatus_def)
  have "orderly_step demo_db (restartReconciliation 100 demo_db)" unfolding orderly_step_def by (intro exI [of _ None]) (simp add: p_restart)
  then show ?thesis using terminal_peer_jobs_final [OF peer_demo_reachable j(1,2) r_into_rtranclp] j by simp
qed

theorem late_renewal_reopens_job_witness:
  "reachable peer_start peer_step demo_db \<and> pj_status demo_job = PeerCompleted
   \<and> peer_job_of (pj_jobId demo_job) (snd (peer_renewLease ''att_1'' ''t'' ''p'' 1020 60000 demo_db)) = Some (demo_job\<lparr>pj_status := PeerAwaitingReconciliation\<rparr>)"
proof -
  have "fencedAttempt ''att_1'' ''t'' ''p'' demo_db = Inr (demo_job, demo_attempt)"
    by (simp add: fencedAttempt_def peer_attempt_of_def peer_job_of_def jobGeneration_def attempts_of_def demo_rows demo_attempt_def new_peer_attempt_def)
  moreover have "pj_maxRuntimeMs demo_job \<le> 1020 - coalesce (pa_startedAt demo_attempt) (pa_createdAt demo_attempt)" "requeue_status demo_attempt = PeerAwaitingReconciliation"
    "pj_status demo_job = PeerCompleted"
    by (simp_all add: demo_job_def demo_attempt_def new_peer_job_def demo_request_def requeue_status_def coalesce_def)
  ultimately show ?thesis using late_renewal_reopens_job [of "''att_1''" "''t''" "''p''" demo_db demo_job demo_attempt 60000 1020] peer_demo_reachable by (auto split: prod.splits)
qed

end
