(* ===== verification/Session_Store.thy ===== *)
theory Session_Store
  imports Policy_Engine Work_Sessions Workspace_Leases Mission_Ledger
begin

text \<open>
  The stores of work sessions, of review submissions and feedback and of tool events
  (session-store.ts, review-store.ts, tool-event-store.ts and the listings of queries.ts under
  src/src/work-sessions). Snapshot identities are normalised as in \<open>Mission_Ledger\<close>.

  \<^item> The state has the tables, the leases that end with a session, and the policy engine whose
    grants the terminal callback revokes (the wiring of src/src/server.ts).
  \<^item> A JSON column holds the value its text stands for, or is malformed. A listed file is the JSON
    object it is. Hashes, random ids and clock readings are arguments.
  \<^item> SQLite's \<open>datetime\<close> cuts a time to whole seconds. A limit is a natural number.
  \<^item> The compact surface for the web interface, which joins seven other tables, is not modelled.
\<close>

section \<open>Rows\<close>

record workspace_entry =
  wk_id :: string
  wk_status :: string
  wk_projectId :: "string option"

record work_session =
  wn_id :: string
  wn_projectId :: "string option"
  wn_workspaceSessionId :: string
  wn_status :: work_session_status
  wn_runtimeState :: runtime_state
  wn_runtimeClassifiedAt :: "iso_time option"
  wn_completionPolicy :: completion_policy
  wn_reviewEpoch :: nat
  wn_submittedBy :: string
  wn_ownerContextId :: "string option"
  wn_principalId :: "string option"
  wn_title :: "string option"
  wn_lastConsumedFeedbackId :: "string option"
  wn_lastConsumedReviewEpoch :: nat
  wn_createdAt :: iso_time
  wn_updatedAt :: iso_time
  wn_terminalAt :: "iso_time option"

datatype json_cell = Parsed json | Malformed

datatype submission_state = SubmissionPending | SubmissionReviewed

record submission_entry =
  ub_id :: string
  ub_workSessionId :: string
  ub_submissionNumber :: nat
  ub_diff :: "string option"
  ub_diffSha256 :: "string option"
  ub_filesJson :: "json_cell option"
  ub_snapshotCommit :: "string option"
  ub_snapshotKind :: "string option"
  ub_snapshotRef :: "string option"
  ub_reviewEpoch :: nat
  ub_message :: "string option"
  ub_summaryJson :: "string option"
  ub_coverageJson :: "json_cell option"
  ub_status :: submission_state
  ub_createdAt :: iso_time

record checkpoint_coverage =
  cv_uncoveredPaths :: "string list"
  cv_backend :: string
  cv_reasons :: "string list"

record session_submission =
  uv_id :: string
  uv_workSessionId :: string
  uv_submissionNumber :: nat
  uv_diff :: "string option"
  uv_diffSha256 :: "string option"
  uv_snapshotKind :: "string option"
  uv_snapshotRef :: "string option"
  uv_snapshotCommit :: "string option"
  uv_reviewEpoch :: nat
  uv_message :: "string option"
  uv_summaryJson :: "string option"
  uv_files :: "json list option"
  uv_coverage :: "checkpoint_coverage option"
  uv_status :: submission_state
  uv_createdAt :: iso_time

datatype submission_verdict = ApproveVerdict | ChangesVerdict | RejectVerdict

record session_feedback =
  fb_id :: string
  fb_workSessionId :: string
  fb_submissionId :: string
  fb_verdict :: submission_verdict
  fb_comments :: "string option"
  fb_filesJson :: "string option"
  fb_requiredActionsJson :: "string option"
  fb_allowedNextActionsJson :: "string option"
  fb_reviewerId :: "string option"
  fb_completionReportSha256 :: "string option"
  fb_createdAt :: iso_time

record tool_event =
  te_id :: string
  te_workSessionId :: string
  te_workspaceSessionId :: "string option"
  te_tool :: string
  te_inputJson :: string
  te_outputSummary :: "string option"
  te_path :: "string option"
  te_success :: bool
  te_elapsedMs :: int
  te_createdAt :: iso_time

record session_store =
  ss_workspaces :: "workspace_entry table"
  ss_sessions :: "work_session table"
  ss_submissions :: "submission_entry table"
  ss_feedback :: "session_feedback table"
  ss_events :: "tool_event table"
  ss_runs :: "run_row table"
  ss_leases :: leases
  ss_engine :: policy_engine

section \<open>Snapshots and JSON columns\<close>

definition json_field :: "string \<Rightarrow> json \<Rightarrow> json option" where
  "json_field k v = (case v of JObj fs \<Rightarrow> js_get fs k | _ \<Rightarrow> None)"

definition is_string :: "json option \<Rightarrow> bool" where
  "is_string v = (case v of Some (JStr _) \<Rightarrow> True | _ \<Rightarrow> False)"

definition is_number :: "json option \<Rightarrow> bool" where
  "is_number v = (case v of Some (JInt _) \<Rightarrow> True | Some (JDec _) \<Rightarrow> True | _ \<Rightarrow> False)"

definition review_file_ok :: "json \<Rightarrow> bool" where
  "review_file_ok v \<longleftrightarrow> is_string (json_field ''path'' v) \<and> is_string (json_field ''type'' v)
     \<and> is_number (json_field ''additions'' v) \<and> is_number (json_field ''removals'' v)"

definition parseReviewFiles :: "json_cell option \<Rightarrow> json list option" where
  "parseReviewFiles cell = (case cell of Some (Parsed (JArr vs)) \<Rightarrow> if list_all review_file_ok vs then Some vs else None | _ \<Rightarrow> None)"

definition only_strings :: "json list \<Rightarrow> string list" where
  "only_strings vs = concat (map (\<lambda>v. case v of JStr s \<Rightarrow> [s] | _ \<Rightarrow> []) vs)"

definition parseCheckpointCoverage :: "json_cell option \<Rightarrow> checkpoint_coverage option" where
  "parseCheckpointCoverage cell =
     (case cell of
        Some (Parsed v) \<Rightarrow>
          (case (json_field ''uncoveredPaths'' v, json_field ''backend'' v, json_field ''reasons'' v) of
             (Some (JArr ps), Some (JStr b), Some (JArr rs)) \<Rightarrow>
               if b \<in> {''git'', ''filesystem''} then Some \<lparr>cv_uncoveredPaths = only_strings ps, cv_backend = b, cv_reasons = only_strings rs\<rparr> else None
           | _ \<Rightarrow> None)
      | _ \<Rightarrow> None)"

definition coverage_json :: "checkpoint_coverage \<Rightarrow> json" where
  "coverage_json c = JObj [(''uncoveredPaths'', JArr (map JStr (cv_uncoveredPaths c))), (''backend'', JStr (cv_backend c)), (''reasons'', JArr (map JStr (cv_reasons c)))]"

definition rowToSubmission :: "submission_entry \<Rightarrow> ledger_error + session_submission" where
  "rowToSubmission row =
     (case normalizeWorkspaceSnapshotIdentity (ub_snapshotKind row) (ub_snapshotRef row) (ub_snapshotCommit row) of
        Inl e \<Rightarrow> Inl e
      | Inr snapshot \<Rightarrow> Inr
          \<lparr>uv_id = ub_id row, uv_workSessionId = ub_workSessionId row, uv_submissionNumber = ub_submissionNumber row, uv_diff = ub_diff row,
           uv_diffSha256 = ub_diffSha256 row, uv_snapshotKind = map_option fst snapshot, uv_snapshotRef = map_option snd snapshot,
           uv_snapshotCommit = map_option snd snapshot, uv_reviewEpoch = ub_reviewEpoch row, uv_message = ub_message row, uv_summaryJson = ub_summaryJson row,
           uv_files = parseReviewFiles (ub_filesJson row), uv_coverage = parseCheckpointCoverage (ub_coverageJson row), uv_status = ub_status row,
           uv_createdAt = ub_createdAt row\<rparr>)"

section \<open>Sessions\<close>

definition projectIdForWorkspace :: "string \<Rightarrow> session_store \<Rightarrow> string option" where
  "projectIdForWorkspace workspaceSessionId db = Option.bind (find (\<lambda>w. wk_id w = workspaceSessionId) (ss_workspaces db)) wk_projectId"

definition latestRunForSession :: "string \<Rightarrow> session_store \<Rightarrow> latest_run option" where
  "latestRunForSession workSessionId db =
     map_option rr_run (first_row (order_desc run_row.rr_createdAt (filter (\<lambda>r. rr_workSessionId r = workSessionId) (ss_runs db))))"

definition submissions_of :: "string \<Rightarrow> session_store \<Rightarrow> submission_entry list" where
  "submissions_of i db = filter (\<lambda>s. ub_workSessionId s = i) (ss_submissions db)"

definition latest_entry :: "string \<Rightarrow> session_store \<Rightarrow> submission_entry option" where
  "latest_entry i db = first_row (order_desc ub_submissionNumber (submissions_of i db))"

text \<open>A feedback with the submission it is joined to, newest submission first.\<close>

definition joined_feedback :: "string \<Rightarrow> session_store \<Rightarrow> (session_feedback \<times> submission_entry) list" where
  "joined_feedback i db = concat (map (\<lambda>f. map (Pair f) (filter (\<lambda>s. ub_id s = fb_submissionId f) (ss_submissions db)))
     (filter (\<lambda>f. fb_workSessionId f = i) (ss_feedback db)))"

definition newest_feedback :: "(session_feedback \<times> submission_entry) list \<Rightarrow> session_feedback option" where
  "newest_feedback js = map_option fst (first_row (order_desc (\<lambda>(f, s). (ub_submissionNumber s, ub_reviewEpoch s, fb_id f)) js))"

definition getLatestFeedback :: "string \<Rightarrow> session_store \<Rightarrow> session_feedback option" where
  "getLatestFeedback workSessionId db = newest_feedback (joined_feedback workSessionId db)"

definition getLatestFeedbackAfter :: "string \<Rightarrow> string option \<Rightarrow> session_store \<Rightarrow> session_feedback option" where
  "getLatestFeedbackAfter workSessionId afterFeedbackId db =
     (if \<not> truthy afterFeedbackId then getLatestFeedback workSessionId db
      else case find (\<lambda>(f, s). Some (fb_id f) = afterFeedbackId)
             (concat (map (\<lambda>f. map (Pair f) (filter (\<lambda>s. ub_id s = fb_submissionId f) (ss_submissions db))) (ss_feedback db))) of
        None \<Rightarrow> getLatestFeedback workSessionId db
      | Some (anchor, sub) \<Rightarrow>
          if fb_workSessionId anchor \<noteq> workSessionId then getLatestFeedback workSessionId db
          else newest_feedback (filter (\<lambda>(f, s). ub_submissionNumber sub < ub_submissionNumber s) (joined_feedback workSessionId db)))"

definition countFeedback :: "string \<Rightarrow> session_store \<Rightarrow> nat" where
  "countFeedback workSessionId db = sql_changes (\<lambda>f. fb_workSessionId f = workSessionId) (ss_feedback db)"

definition getLatestSubmission :: "string \<Rightarrow> session_store \<Rightarrow> ledger_error + session_submission option" where
  "getLatestSubmission workSessionId db = (case latest_entry workSessionId db of None \<Rightarrow> Inr None | Some row \<Rightarrow> map_sum id Some (rowToSubmission row))"

definition getSubmissions :: "string \<Rightarrow> session_store \<Rightarrow> ledger_error + session_submission list" where
  "getSubmissions workSessionId db = traverse rowToSubmission (order_asc ub_submissionNumber (submissions_of workSessionId db))"

record session_view =
  sv_row :: work_session
  sv_latestSubmission :: "session_submission option"
  sv_latestFeedback :: "session_feedback option"
  sv_lifecycle :: work_session_lifecycle
  sv_runtimeState :: runtime_state

definition enrichSession :: "iso_time \<times> iso_time \<times> iso_time \<Rightarrow> session_store \<Rightarrow> work_session \<Rightarrow> ledger_error + session_view" where
  "enrichSession clock db row =
     (case getLatestSubmission (wn_id row) db of
        Inl e \<Rightarrow> Inl e
      | Inr latest \<Rightarrow>
          let runtimeState = (if wn_runtimeState row \<noteq> RPending then wn_runtimeState row
                              else runtimeStateFor clock (wn_status row) (wn_updatedAt row) (latestRunForSession (wn_id row) db))
          in Inr \<lparr>sv_row = row, sv_latestSubmission = latest, sv_latestFeedback = getLatestFeedback (wn_id row) db,
                  sv_lifecycle = lifecycleForRuntimeState (wn_status row) runtimeState, sv_runtimeState = runtimeState\<rparr>)"

datatype session_error =
    WorkspaceNotActive string
  | SessionMissing string
  | CannotSubmit string work_session_status
  | SubmissionChanged
  | SubmissionMissing string
  | SubmissionOfOtherSession
  | ConstraintFailed
  | BadSnapshot ledger_error

record session_request =
  nq_workspaceSessionId :: string
  nq_submittedBy :: string
  nq_title :: "string option"
  nq_completionPolicy :: "completion_policy option"
  nq_ownerContextId :: "string option"
  nq_principalId :: "string option"

definition new_session :: "session_request \<Rightarrow> string \<Rightarrow> iso_time \<Rightarrow> session_store \<Rightarrow> work_session" where
  "new_session input uuid now db =
     \<lparr>wn_id = ''wsess_'' @ uuid, wn_projectId = projectIdForWorkspace (nq_workspaceSessionId input) db, wn_workspaceSessionId = nq_workspaceSessionId input,
      wn_status = InProgress, wn_runtimeState = RPending, wn_runtimeClassifiedAt = Some now,
      wn_completionPolicy = coalesce (nq_completionPolicy input) AgentCompletion, wn_reviewEpoch = 0, wn_submittedBy = nq_submittedBy input,
      wn_ownerContextId = nq_ownerContextId input, wn_principalId = nq_principalId input, wn_title = nq_title input, wn_lastConsumedFeedbackId = None,
      wn_lastConsumedReviewEpoch = 0, wn_createdAt = now, wn_updatedAt = now, wn_terminalAt = None\<rparr>"

definition createWorkSession :: "session_request \<Rightarrow> string \<Rightarrow> iso_time \<Rightarrow> session_store \<Rightarrow> session_store \<times> (session_error + work_session)" where
  "createWorkSession input uuid now db =
     (case find (\<lambda>w. wk_id w = nq_workspaceSessionId input) (ss_workspaces db) of
        None \<Rightarrow> (db, Inl (WorkspaceNotActive (nq_workspaceSessionId input)))
      | Some w \<Rightarrow>
          if wk_status w \<noteq> ''active'' then (db, Inl (WorkspaceNotActive (nq_workspaceSessionId input)))
          else let s = new_session input uuid now db
               in if wn_id s \<in> wn_id ` set (ss_sessions db) then (db, Inl ConstraintFailed)
                  else (db\<lparr>ss_sessions := ss_sessions db @ [s]\<rparr>, Inr s))"

definition getWorkSession :: "iso_time \<times> iso_time \<times> iso_time \<Rightarrow> string \<Rightarrow> session_store \<Rightarrow> ledger_error + session_view option" where
  "getWorkSession clock i db = (case find (\<lambda>s. wn_id s = i) (ss_sessions db) of None \<Rightarrow> Inr None | Some row \<Rightarrow> map_sum id Some (enrichSession clock db row))"

definition workspace_scope :: "string \<Rightarrow> session_store \<Rightarrow> work_session \<Rightarrow> bool" where
  "workspace_scope w db s \<longleftrightarrow> (if truthy (projectIdForWorkspace w db) then wn_projectId s = projectIdForWorkspace w db else wn_workspaceSessionId s = w)"

definition in_scope :: "string option \<Rightarrow> session_store \<Rightarrow> work_session \<Rightarrow> bool" where
  "in_scope w db s \<longleftrightarrow> \<not> truthy w \<or> workspace_scope (the w) db s"

definition list_sessions :: "(work_session \<Rightarrow> bool) \<Rightarrow> nat \<Rightarrow> iso_time \<times> iso_time \<times> iso_time \<Rightarrow> session_store \<Rightarrow> ledger_error + session_view list" where
  "list_sessions P limit clock db = traverse (enrichSession clock db) (take limit (order_desc wn_updatedAt (filter P (ss_sessions db))))"

definition listByWorkspace :: "string \<Rightarrow> nat \<Rightarrow> iso_time \<times> iso_time \<times> iso_time \<Rightarrow> session_store \<Rightarrow> ledger_error + session_view list" where
  "listByWorkspace workspaceSessionId limit clock db = list_sessions (workspace_scope workspaceSessionId db) limit clock db"

text \<open>The callback of the server: every grant of the session's scope is revoked.\<close>

definition on_terminal :: "string \<Rightarrow> iso_time \<Rightarrow> session_store \<Rightarrow> session_store" where
  "on_terminal i now db = db\<lparr>ss_engine := revokeScope now ScWorkSession i (ss_engine db)\<rparr>"

definition release_leases :: "string \<Rightarrow> session_store \<Rightarrow> session_store" where
  "release_leases i db = db\<lparr>ss_leases := fst (releaseWorkspaceLeasesForSession i (ss_leases db))\<rparr>"

definition runtime_after :: "work_session_status \<Rightarrow> runtime_state" where
  "runtime_after status =
     (if isTerminalStatus status then RArchived
      else if status \<in> {AwaitingReview, ReviewInProgress} then RParked
      else if status = ChangesRequested then RDetached
      else RPending)"

definition updateStatus :: "string \<Rightarrow> work_session_status \<Rightarrow> iso_time \<Rightarrow> iso_time \<Rightarrow> session_store \<Rightarrow> session_store" where
  "updateStatus i status now now' db =
     (let db1 = db\<lparr>ss_sessions := sql_update (\<lambda>s. wn_id s = i)
            (\<lambda>s. s\<lparr>wn_status := status, wn_runtimeState := runtime_after status, wn_runtimeClassifiedAt := Some now, wn_updatedAt := now,
                   wn_terminalAt := (if isTerminalStatus status then Some now else wn_terminalAt s)\<rparr>) (ss_sessions db)\<rparr>
      in if isTerminalStatus status then on_terminal i now' (release_leases i db1) else db1)"

section \<open>Submissions and feedback\<close>

record submission_input =
  bi_workSessionId :: string
  bi_diff :: "string option"
  bi_diffSha256 :: "string option"
  bi_snapshotCommit :: "string option"
  bi_snapshotKind :: "string option"
  bi_snapshotRef :: "string option"
  bi_message :: "string option"
  bi_summaryJson :: "string option"
  bi_files :: "json list option"
  bi_coverage :: "checkpoint_coverage option"

definition submittable :: "work_session_status \<Rightarrow> bool" where
  "submittable st \<longleftrightarrow> st \<in> {InProgress, ChangesRequested, Resuming}"

definition new_entry :: "(string \<Rightarrow> string) \<Rightarrow> submission_input \<Rightarrow> string \<Rightarrow> (string \<times> string) option \<Rightarrow> nat \<Rightarrow> nat \<Rightarrow> iso_time \<Rightarrow> submission_entry" where
  "new_entry sha256 input uuid snapshot n epoch now =
     \<lparr>ub_id = ''wssub_'' @ uuid, ub_workSessionId = bi_workSessionId input, ub_submissionNumber = n, ub_diff = bi_diff input,
      ub_diffSha256 = Some (coalesce (bi_diffSha256 input) (sha256 (coalesce (bi_diff input) []))), ub_filesJson = map_option (\<lambda>fs. Parsed (JArr fs)) (bi_files input),
      ub_snapshotCommit = map_option snd snapshot, ub_snapshotKind = map_option fst snapshot, ub_snapshotRef = map_option snd snapshot, ub_reviewEpoch = epoch,
      ub_message = bi_message input, ub_summaryJson = bi_summaryJson input, ub_coverageJson = map_option (Parsed \<circ> coverage_json) (bi_coverage input),
      ub_status = SubmissionPending, ub_createdAt = now\<rparr>"

definition returned_submission :: "submission_input \<Rightarrow> submission_entry \<Rightarrow> session_submission" where
  "returned_submission input row =
     \<lparr>uv_id = ub_id row, uv_workSessionId = bi_workSessionId input, uv_submissionNumber = ub_submissionNumber row, uv_diff = bi_diff input,
      uv_diffSha256 = ub_diffSha256 row, uv_snapshotKind = ub_snapshotKind row, uv_snapshotRef = ub_snapshotRef row, uv_snapshotCommit = ub_snapshotRef row,
      uv_reviewEpoch = ub_reviewEpoch row, uv_message = bi_message input, uv_summaryJson = bi_summaryJson input, uv_files = bi_files input,
      uv_coverage = bi_coverage input, uv_status = SubmissionPending, uv_createdAt = ub_createdAt row\<rparr>"

definition submitForReview :: "(string \<Rightarrow> string) \<Rightarrow> submission_input \<Rightarrow> string \<Rightarrow> iso_time \<Rightarrow> session_store \<Rightarrow> session_store \<times> (session_error + session_submission)" where
  "submitForReview sha256 input uuid now db =
     (case normalizeWorkspaceSnapshotIdentity (bi_snapshotKind input) (bi_snapshotRef input) (bi_snapshotCommit input) of
        Inl e \<Rightarrow> (db, Inl (BadSnapshot e))
      | Inr snapshot \<Rightarrow>
          (case find (\<lambda>s. wn_id s = bi_workSessionId input) (ss_sessions db) of
             None \<Rightarrow> (db, Inl (SessionMissing (bi_workSessionId input)))
           | Some session \<Rightarrow>
               if \<not> submittable (wn_status session) then (db, Inl (CannotSubmit (bi_workSessionId input) (wn_status session)))
               else
                 let n = Max (insert 0 (ub_submissionNumber ` set (submissions_of (bi_workSessionId input) db))) + 1;
                     epoch = wn_reviewEpoch session + 1;
                     row = new_entry sha256 input uuid snapshot n epoch now;
                     P = (\<lambda>s. wn_id s = bi_workSessionId input \<and> wn_reviewEpoch s = wn_reviewEpoch session \<and> submittable (wn_status s))
                 in if ub_id row \<in> ub_id ` set (ss_submissions db)
                       \<or> (bi_workSessionId input, n) \<in> (\<lambda>s. (ub_workSessionId s, ub_submissionNumber s)) ` set (ss_submissions db) then (db, Inl ConstraintFailed)
                    else if sql_changes P (ss_sessions db) \<noteq> 1 then (db, Inl SubmissionChanged)
                    else (db\<lparr>ss_submissions := ss_submissions db @ [row],
                             ss_sessions := sql_update P (\<lambda>s. s\<lparr>wn_status := AwaitingReview, wn_runtimeState := RParked, wn_runtimeClassifiedAt := Some now,
                               wn_reviewEpoch := epoch, wn_updatedAt := now\<rparr>) (ss_sessions db)\<rparr>,
                          Inr (returned_submission input row))))"

record feedback_input =
  fi_workSessionId :: string
  fi_submissionId :: string
  fi_verdict :: submission_verdict
  fi_comments :: "string option"
  fi_filesJson :: "string option"
  fi_requiredActions :: "string list option"
  fi_allowedNextActions :: "string list option"
  fi_reviewerId :: "string option"
  fi_completionReportSha256 :: "string option"

definition new_feedback :: "feedback_input \<Rightarrow> string \<Rightarrow> iso_time \<Rightarrow> session_feedback" where
  "new_feedback input uuid now =
     \<lparr>fb_id = ''wsfb_'' @ uuid, fb_workSessionId = fi_workSessionId input, fb_submissionId = fi_submissionId input, fb_verdict = fi_verdict input,
      fb_comments = fi_comments input, fb_filesJson = fi_filesJson input, fb_requiredActionsJson = map_option (json_stringify \<circ> JArr \<circ> map JStr) (fi_requiredActions input),
      fb_allowedNextActionsJson = map_option (json_stringify \<circ> JArr \<circ> map JStr) (fi_allowedNextActions input), fb_reviewerId = fi_reviewerId input,
      fb_completionReportSha256 = fi_completionReportSha256 input, fb_createdAt = now\<rparr>"

definition verdict_status :: "submission_verdict \<Rightarrow> work_session_status" where
  "verdict_status v = (case v of ApproveVerdict \<Rightarrow> Approved | RejectVerdict \<Rightarrow> Rejected | ChangesVerdict \<Rightarrow> ChangesRequested)"

definition submitFeedback :: "feedback_input \<Rightarrow> string \<Rightarrow> iso_time \<Rightarrow> session_store \<Rightarrow> session_store \<times> (session_error + session_feedback)" where
  "submitFeedback input uuid now db =
     (let feedback = new_feedback input uuid now; nextStatus = verdict_status (fi_verdict input)
      in case find (\<lambda>s. ub_id s = fi_submissionId input) (ss_submissions db) of
           None \<Rightarrow> (db, Inl (SubmissionMissing (fi_submissionId input)))
         | Some sub \<Rightarrow>
             if ub_workSessionId sub \<noteq> fi_workSessionId input then (db, Inl SubmissionOfOtherSession)
             else if fb_id feedback \<in> fb_id ` set (ss_feedback db) \<or> fi_submissionId input \<in> fb_submissionId ` set (ss_feedback db) then (db, Inl ConstraintFailed)
             else let db1 = db\<lparr>ss_feedback := ss_feedback db @ [feedback],
                        ss_submissions := sql_update (\<lambda>s. ub_id s = fi_submissionId input) (\<lambda>s. s\<lparr>ub_status := SubmissionReviewed\<rparr>) (ss_submissions db),
                        ss_sessions := sql_update (\<lambda>s. wn_id s = fi_workSessionId input)
                          (\<lambda>s. s\<lparr>wn_status := nextStatus, wn_runtimeState := (if isTerminalStatus nextStatus then RArchived else RDetached),
                                 wn_runtimeClassifiedAt := Some now, wn_updatedAt := now,
                                 wn_terminalAt := (if isTerminalStatus nextStatus then Some now else wn_terminalAt s)\<rparr>) (ss_sessions db)\<rparr>
                  in (if isTerminalStatus nextStatus then release_leases (fi_workSessionId input) db1 else db1, Inr feedback))"

definition markFeedbackConsumed :: "string \<Rightarrow> string \<Rightarrow> iso_time \<Rightarrow> session_store \<Rightarrow> session_store" where
  "markFeedbackConsumed workSessionId feedbackId now db =
     (case find (\<lambda>(f, s). fb_id f = feedbackId) (joined_feedback workSessionId db) of
        None \<Rightarrow> db
      | Some (f, sub) \<Rightarrow>
          db\<lparr>ss_sessions := sql_update (\<lambda>s. wn_id s = workSessionId \<and> wn_lastConsumedReviewEpoch s < ub_reviewEpoch sub)
               (\<lambda>s. s\<lparr>wn_lastConsumedFeedbackId := Some (fb_id f), wn_lastConsumedReviewEpoch := ub_reviewEpoch sub, wn_updatedAt := now\<rparr>) (ss_sessions db)\<rparr>)"

section \<open>Tool events\<close>

record event_input =
  xe_workSessionId :: string
  xe_workspaceSessionId :: string
  xe_tool :: string
  xe_inputJson :: string
  xe_outputSummary :: "string option"
  xe_path :: "string option"
  xe_success :: bool
  xe_elapsedMs :: int

definition logToolEvent :: "event_input \<Rightarrow> string \<Rightarrow> iso_time \<Rightarrow> session_store \<Rightarrow> session_store \<times> (session_error + tool_event)" where
  "logToolEvent input uuid now db =
     (let e = \<lparr>te_id = ''wste_'' @ uuid, te_workSessionId = xe_workSessionId input, te_workspaceSessionId = Some (xe_workspaceSessionId input),
                te_tool = xe_tool input, te_inputJson = xe_inputJson input, te_outputSummary = xe_outputSummary input, te_path = xe_path input,
                te_success = xe_success input, te_elapsedMs = xe_elapsedMs input, te_createdAt = now\<rparr>
      in if te_id e \<in> te_id ` set (ss_events db) \<or> xe_workSessionId input \<notin> wn_id ` set (ss_sessions db) then (db, Inl ConstraintFailed)
         else (db\<lparr>ss_events := ss_events db @ [e]\<rparr>, Inr e))"

definition event_key :: "tool_event \<Rightarrow> iso_time \<times> string" where
  "event_key e = (te_createdAt e, te_id e)"

definition session_events :: "string \<Rightarrow> session_store \<Rightarrow> tool_event list" where
  "session_events i db = filter (\<lambda>e. te_workSessionId e = i) (ss_events db)"

definition getRecentToolEvents :: "string \<Rightarrow> nat \<Rightarrow> session_store \<Rightarrow> tool_event list" where
  "getRecentToolEvents workSessionId limit db = take limit (order_desc event_key (session_events workSessionId db))"

definition listToolEvents :: "string \<Rightarrow> string option \<Rightarrow> nat \<Rightarrow> session_store \<Rightarrow> tool_event list" where
  "listToolEvents workSessionId afterId limit db =
     (if \<not> truthy afterId then take limit (order_desc event_key (session_events workSessionId db))
      else case find (\<lambda>e. Some (te_id e) = afterId) (session_events workSessionId db) of
        None \<Rightarrow> []
      | Some anchor \<Rightarrow> take limit (order_desc event_key (filter (\<lambda>e. event_key e < event_key anchor) (session_events workSessionId db))))"

section \<open>Listings\<close>

definition sql_datetime :: "iso_time \<Rightarrow> int" where
  "sql_datetime t = t div 1000"

definition pending_review :: "iso_time \<Rightarrow> work_session \<Rightarrow> bool" where
  "pending_review now s \<longleftrightarrow> wn_status s \<in> {AwaitingReview, ReviewInProgress} \<and> wn_runtimeState s \<noteq> RStale
     \<and> sql_datetime (now - 30 * 24 * 60 * 60 * 1000) \<le> sql_datetime (wn_updatedAt s)"

definition live_session :: "iso_time \<Rightarrow> work_session \<Rightarrow> bool" where
  "live_session now s \<longleftrightarrow> wn_runtimeState s = RRunning
     \<or> wn_runtimeState s = RPending \<and> wn_status s \<in> {InProgress, Drafting, Resuming} \<and> sql_datetime (now - 60 * 60 * 1000) \<le> sql_datetime (wn_updatedAt s)"

definition listPendingReviews :: "iso_time \<Rightarrow> string option \<Rightarrow> nat \<Rightarrow> iso_time \<times> iso_time \<times> iso_time \<Rightarrow> session_store \<Rightarrow> ledger_error + session_view list" where
  "listPendingReviews now w limit clock db = list_sessions (\<lambda>s. pending_review now s \<and> in_scope w db s) limit clock db"

definition listLiveWorkSessions :: "iso_time \<Rightarrow> string option \<Rightarrow> nat \<Rightarrow> iso_time \<times> iso_time \<times> iso_time \<Rightarrow> session_store \<Rightarrow> ledger_error + session_view list" where
  "listLiveWorkSessions now w limit clock db = list_sessions (\<lambda>s. live_session now s \<and> in_scope w db s) limit clock db"

definition listRecoverableWorkSessions :: "string option \<Rightarrow> nat \<Rightarrow> iso_time \<times> iso_time \<times> iso_time \<Rightarrow> session_store \<Rightarrow> ledger_error + session_view list" where
  "listRecoverableWorkSessions w limit clock db = list_sessions (\<lambda>s. wn_runtimeState s \<in> {RDetached, RStale, ROrphaned} \<and> in_scope w db s) limit clock db"

definition listStaleWorkSessions :: "string option \<Rightarrow> nat \<Rightarrow> iso_time \<times> iso_time \<times> iso_time \<Rightarrow> session_store \<Rightarrow> ledger_error + session_view list" where
  "listStaleWorkSessions w limit clock db = list_sessions (\<lambda>s. wn_runtimeState s \<in> {RStale, ROrphaned} \<and> in_scope w db s) limit clock db"

definition listAllWorkSessions :: "string option \<Rightarrow> nat \<Rightarrow> iso_time \<times> iso_time \<times> iso_time \<Rightarrow> session_store \<Rightarrow> ledger_error + session_view list" where
  "listAllWorkSessions w limit clock db = list_sessions (\<lambda>s. \<not> truthy w \<or> w = Some (wn_workspaceSessionId s)) limit clock db"

definition countActiveWorkSessions :: "iso_time \<Rightarrow> session_store \<Rightarrow> nat" where
  "countActiveWorkSessions now db = sql_changes (live_session now) (ss_sessions db)"

definition countPendingReviews :: "iso_time \<Rightarrow> session_store \<Rightarrow> nat" where
  "countPendingReviews now db = sql_changes (pending_review now) (ss_sessions db)"

definition listActiveWorkSessionsProjection :: "iso_time \<Rightarrow> string option \<Rightarrow> session_store \<Rightarrow> (work_session \<times> nat) list" where
  "listActiveWorkSessionsProjection now w db =
     map (\<lambda>s. (s, length (submissions_of (wn_id s) db))) (take 50 (order_desc wn_updatedAt (filter (\<lambda>s. live_session now s \<and> in_scope w db s) (ss_sessions db))))"

definition needs_compaction :: "work_session \<Rightarrow> bool" where
  "needs_compaction s \<longleftrightarrow> isTerminalStatus (wn_status s) \<or> wn_runtimeState s \<in> {RParked, RStale} \<and> wn_status s \<in> {AwaitingReview, ReviewInProgress}"

definition listSessionIdsNeedingCompaction :: "string option \<Rightarrow> int \<Rightarrow> session_store \<Rightarrow> string list" where
  "listSessionIdsNeedingCompaction afterSessionId limit db =
     map wn_id (take (nat (max 1 (min 2000 limit))) (order_asc wn_id (filter (\<lambda>s. needs_compaction s
       \<and> (case afterSessionId of None \<Rightarrow> True | Some a \<Rightarrow> a = [] \<or> a < wn_id s)) (ss_sessions db))))"

section \<open>Steps\<close>

text \<open>The reconciliation of \<open>Work_Sessions\<close> on this table, which it writes two columns of.\<close>

definition session_row_of :: "work_session \<Rightarrow> session_row" where
  "session_row_of s = \<lparr>sr_id = wn_id s, sr_status = wn_status s, sr_updatedAt = wn_updatedAt s, sr_runtimeState = Some (wn_runtimeState s),
     sr_runtimeClassifiedAt = wn_runtimeClassifiedAt s\<rparr>"

definition reconcile_sessions :: "iso_time \<times> iso_time \<times> iso_time \<Rightarrow> iso_time \<Rightarrow> string option \<Rightarrow> int \<Rightarrow> session_store \<Rightarrow> session_store" where
  "reconcile_sessions clock now afterSessionId limit db =
     db\<lparr>ss_sessions := map2 (\<lambda>s r. s\<lparr>wn_runtimeState := coalesce (sr_runtimeState r) (wn_runtimeState s), wn_runtimeClassifiedAt := sr_runtimeClassifiedAt r\<rparr>)
          (ss_sessions db) (fst (reconcileRuntimeStates clock now (ss_runs db) afterSessionId limit (map session_row_of (ss_sessions db))))\<rparr>"

inductive session_step :: "session_store \<Rightarrow> session_store \<Rightarrow> bool" where
  st_create: "session_step db (fst (createWorkSession input uuid now db))"
| st_status: "session_step db (updateStatus i status now now' db)"
| st_submit: "session_step db (fst (submitForReview sha256 bi uuid now db))"
| st_feedback: "session_step db (fst (submitFeedback fi uuid now db))"
| st_consumed: "session_step db (markFeedbackConsumed i f now db)"
| st_event: "session_step db (fst (logToolEvent ei uuid now db))"
| st_reconcile: "session_step db (reconcile_sessions clock now after limit db)"
| st_lease: "lease_step (ss_leases db) ls \<Longrightarrow> session_step db (db\<lparr>ss_leases := ls\<rparr>)"
| st_others: "session_step db (db\<lparr>ss_workspaces := ws, ss_runs := rs, ss_engine := e\<rparr>)"

definition session_start :: "session_store \<Rightarrow> bool" where
  "session_start db \<longleftrightarrow> ss_sessions db = [] \<and> ss_submissions db = [] \<and> ss_feedback db = [] \<and> ss_events db = []"

section \<open>Invariant\<close>

definition consumed_ok :: "work_session \<Rightarrow> session_store \<Rightarrow> bool" where
  "consumed_ok w db \<longleftrightarrow> wn_lastConsumedReviewEpoch w = 0
     \<or> (\<exists>f \<in> set (ss_feedback db). \<exists>s \<in> set (ss_submissions db). wn_lastConsumedFeedbackId w = Some (fb_id f) \<and> ub_id s = fb_submissionId f
          \<and> ub_workSessionId s = wn_id w \<and> ub_reviewEpoch s = wn_lastConsumedReviewEpoch w)"

definition session_ok :: "session_store \<Rightarrow> bool" where
  "session_ok db \<longleftrightarrow> distinct (map wn_id (ss_sessions db)) \<and> distinct (map ub_id (ss_submissions db)) \<and> distinct (map fb_id (ss_feedback db))
     \<and> distinct (map fb_submissionId (ss_feedback db)) \<and> distinct (map te_id (ss_events db))
     \<and> (\<forall>i. map ub_submissionNumber (submissions_of i db) = [1..<Suc (length (submissions_of i db))])
     \<and> (\<forall>s \<in> set (ss_submissions db). ub_reviewEpoch s = ub_submissionNumber s \<and> ub_workSessionId s \<in> wn_id ` set (ss_sessions db))
     \<and> (\<forall>w \<in> set (ss_sessions db). wn_reviewEpoch w = length (submissions_of (wn_id w) db) \<and> consumed_ok w db)
     \<and> (\<forall>f \<in> set (ss_feedback db). \<exists>s \<in> set (ss_submissions db). ub_id s = fb_submissionId f \<and> ub_workSessionId s = fb_workSessionId f)
     \<and> (\<forall>s \<in> set (ss_submissions db). ub_status s = SubmissionReviewed \<longleftrightarrow> ub_id s \<in> fb_submissionId ` set (ss_feedback db))"

lemma session_okD:
  assumes "session_ok db"
  shows "distinct (map wn_id (ss_sessions db))" "distinct (map ub_id (ss_submissions db))" "distinct (map fb_id (ss_feedback db))"
    "distinct (map fb_submissionId (ss_feedback db))" "distinct (map te_id (ss_events db))"
    "map ub_submissionNumber (submissions_of i db) = [1..<Suc (length (submissions_of i db))]"
    "s \<in> set (ss_submissions db) \<Longrightarrow> ub_reviewEpoch s = ub_submissionNumber s"
    "s \<in> set (ss_submissions db) \<Longrightarrow> ub_workSessionId s \<in> wn_id ` set (ss_sessions db)"
    "w \<in> set (ss_sessions db) \<Longrightarrow> wn_reviewEpoch w = length (submissions_of (wn_id w) db)" "w \<in> set (ss_sessions db) \<Longrightarrow> consumed_ok w db"
    "f \<in> set (ss_feedback db) \<Longrightarrow> \<exists>s \<in> set (ss_submissions db). ub_id s = fb_submissionId f \<and> ub_workSessionId s = fb_workSessionId f"
    "s \<in> set (ss_submissions db) \<Longrightarrow> ub_status s = SubmissionReviewed \<longleftrightarrow> ub_id s \<in> fb_submissionId ` set (ss_feedback db)"
  using assms unfolding session_ok_def by blast+

definition session_core :: "work_session \<Rightarrow> string \<times> nat \<times> string option \<times> nat" where
  "session_core w = (wn_id w, wn_reviewEpoch w, wn_lastConsumedFeedbackId w, wn_lastConsumedReviewEpoch w)"

lemma same_core:
  assumes ok: "session_ok db" and core: "map session_core (ss_sessions db') = map session_core (ss_sessions db)"
    and rest: "ss_submissions db' = ss_submissions db" "ss_feedback db' = ss_feedback db" "distinct (map te_id (ss_events db'))"
  shows "session_ok db'"
proof -
  have ids: "map wn_id (ss_sessions db') = map wn_id (ss_sessions db)" using arg_cong [OF core, of "map fst"] by (simp add: session_core_def comp_def)
  have set: "wn_id ` set (ss_sessions db') = wn_id ` set (ss_sessions db)" using arg_cong [OF ids, of set] by simp
  have subs: "submissions_of i db' = submissions_of i db" for i by (simp add: submissions_of_def rest(1))
  have "wn_reviewEpoch w = length (submissions_of (wn_id w) db') \<and> consumed_ok w db'" if "w \<in> set (ss_sessions db')" for w
  proof -
    have "session_core w \<in> session_core ` set (ss_sessions db)" using that arg_cong [OF core, of set] by auto
    then obtain x where "x \<in> set (ss_sessions db)" "session_core w = session_core x" by blast
    then show ?thesis using session_okD(9,10) [OF ok, of x] by (auto simp: session_core_def subs consumed_ok_def rest(1,2))
  qed
  then show ?thesis using ok rest(3) unfolding session_ok_def by (simp add: ids set subs rest(1,2))
qed

lemma core_mem: "map session_core t = map session_core u \<Longrightarrow> w \<in> set t \<Longrightarrow> \<exists>x \<in> set u. session_core w = session_core x"
proof -
  assume "map session_core t = map session_core u" "w \<in> set t"
  then have "session_core w \<in> set (map session_core u)" by (metis image_eqI list.set_map)
  then show ?thesis by auto
qed

lemma map_core_update: "(\<And>s. session_core (f s) = session_core s) \<Longrightarrow> map session_core (sql_update P f t) = map session_core t"
  by (induction t) auto

lemma status_ok:
  assumes "session_ok db"
  shows "session_ok (updateStatus i status now now' db)"
  using assms by (intro same_core [OF assms])
    (auto simp: updateStatus_def Let_def on_terminal_def release_leases_def session_ok_def session_core_def intro!: map_core_update)

lemma reconcile_ok:
  assumes ok: "session_ok db"
  shows "session_ok (reconcile_sessions clock now after limit db)"
proof (rule same_core [OF ok])
  let ?t = "fst (reconcileRuntimeStates clock now (ss_runs db) after limit (map session_row_of (ss_sessions db)))"
  have "length ?t = length (ss_sessions db)" by (simp add: reconcileRuntimeStates_def Let_def)
  then show "map session_core (ss_sessions (reconcile_sessions clock now after limit db)) = map session_core (ss_sessions db)"
    unfolding reconcile_sessions_def by (auto simp: session_core_def intro!: nth_equalityI)
qed (use session_okD(5) [OF ok] in \<open>simp_all add: reconcile_sessions_def\<close>)

lemma create_session_ok:
  assumes ok: "session_ok db"
  shows "session_ok (fst (createWorkSession input uuid now db))"
proof (cases "fst (createWorkSession input uuid now db) = db")
  case False
  define s where "s = new_session input uuid now db"
  from False have new: "wn_id s \<notin> wn_id ` set (ss_sessions db)" and res: "fst (createWorkSession input uuid now db) = db\<lparr>ss_sessions := ss_sessions db @ [s]\<rparr>"
    by (auto simp: createWorkSession_def s_def Let_def split: option.splits if_splits)
  have none: "submissions_of (wn_id s) db = []" using session_okD(8) [OF ok] new unfolding submissions_of_def filter_empty_conv by metis
  have subs: "submissions_of i (db\<lparr>ss_sessions := t\<rparr>) = submissions_of i db" for i t by (simp add: submissions_of_def)
  have cons: "consumed_ok w (db\<lparr>ss_sessions := t\<rparr>) = consumed_ok w db" for w t by (simp add: consumed_ok_def)
  have zero: "wn_reviewEpoch s = 0" "consumed_ok s db" by (simp_all add: s_def new_session_def consumed_ok_def)
  show ?thesis using ok new none zero unfolding res session_ok_def by (simp add: subs cons ball_Un)
qed (use ok in simp)

lemma event_ok:
  assumes ok: "session_ok db"
  shows "session_ok (fst (logToolEvent ei uuid now db))"
  using session_okD(5) [OF ok] by (intro same_core [OF ok]) (auto simp: logToolEvent_def Let_def)

lemma numbers_max: "map k xs = [1..<Suc n] \<Longrightarrow> Max (insert 0 (k ` set xs)) = n"
proof -
  assume "map k xs = [1..<Suc n]"
  then have "k ` set xs = {1..n}" by (metis atLeastLessThanSuc_atLeastAtMost list.set_map set_upt)
  moreover have "Max (insert 0 {1..n}) = n" by (intro Max_eqI) auto
  ultimately show ?thesis by simp
qed

text \<open>A submission that is accepted takes the next number and the next epoch; the race and the number are never refused.\<close>

lemma submit_cases:
  assumes ok: "session_ok db"
  obtains (refused) e where "submitForReview sha256 bi uuid now db = (db, Inl e)" "e \<noteq> SubmissionChanged"
  | (accepted) w snapshot row where "normalizeWorkspaceSnapshotIdentity (bi_snapshotKind bi) (bi_snapshotRef bi) (bi_snapshotCommit bi) = Inr snapshot"
      "w \<in> set (ss_sessions db)" "wn_id w = bi_workSessionId bi" "submittable (wn_status w)"
      "row = new_entry sha256 bi uuid snapshot (Suc (length (submissions_of (wn_id w) db))) (Suc (wn_reviewEpoch w)) now" "ub_id row \<notin> ub_id ` set (ss_submissions db)"
      "submitForReview sha256 bi uuid now db = (db\<lparr>ss_submissions := ss_submissions db @ [row],
         ss_sessions := sql_update (\<lambda>s. wn_id s = wn_id w) (\<lambda>s. s\<lparr>wn_status := AwaitingReview, wn_runtimeState := RParked, wn_runtimeClassifiedAt := Some now,
           wn_reviewEpoch := Suc (wn_reviewEpoch w), wn_updatedAt := now\<rparr>) (ss_sessions db)\<rparr>, Inr (returned_submission bi row))"
proof (cases "normalizeWorkspaceSnapshotIdentity (bi_snapshotKind bi) (bi_snapshotRef bi) (bi_snapshotCommit bi)")
  case (Inl e)
  then show ?thesis using refused by (simp add: submitForReview_def)
next
  case (Inr snapshot)
  show ?thesis
  proof (cases "find (\<lambda>s. wn_id s = bi_workSessionId bi) (ss_sessions db)")
    case None
    then show ?thesis using refused Inr by (simp add: submitForReview_def)
  next
    case (Some w)
    then have w: "w \<in> set (ss_sessions db)" "wn_id w = bi_workSessionId bi" using find_Some_mem by force+
    show ?thesis
    proof (cases "submittable (wn_status w)")
      case False
      then show ?thesis using refused Inr Some by (simp add: submitForReview_def)
    next
      case True
      let ?n = "Suc (length (submissions_of (wn_id w) db))"
      let ?P = "\<lambda>s. wn_id s = bi_workSessionId bi \<and> wn_reviewEpoch s = wn_reviewEpoch w \<and> submittable (wn_status s)"
      define row where "row = new_entry sha256 bi uuid snapshot ?n (Suc (wn_reviewEpoch w)) now"
      have number: "Max (insert 0 (ub_submissionNumber ` set (submissions_of (bi_workSessionId bi) db))) + 1 = ?n"
        using numbers_max [OF session_okD(6) [OF ok, of "wn_id w"]] w(2) by simp
      have "x = w" if "x \<in> set (ss_sessions db)" "wn_id x = wn_id w" for x using key_unique [OF session_okD(1) [OF ok] that(1) w(1)] that(2) by blast
      then have P: "?P x \<longleftrightarrow> wn_id x = wn_id w" if "x \<in> set (ss_sessions db)" for x using that True w(2) by auto
      have free: "(bi_workSessionId bi, ?n) \<notin> (\<lambda>s. (ub_workSessionId s, ub_submissionNumber s)) ` set (ss_submissions db)"
      proof
        assume "(bi_workSessionId bi, ?n) \<in> (\<lambda>s. (ub_workSessionId s, ub_submissionNumber s)) ` set (ss_submissions db)"
        then have "?n \<in> set (map ub_submissionNumber (submissions_of (wn_id w) db))" by (auto simp: submissions_of_def w(2))
        then show False unfolding session_okD(6) [OF ok] by simp
      qed
      have "sql_changes ?P (ss_sessions db) = 1"
        using sql_changes_eq_one_iff [OF session_okD(1) [OF ok], of ?P "bi_workSessionId bi"] w True by blast
      moreover have "sql_update ?P g (ss_sessions db) = sql_update (\<lambda>s. wn_id s = wn_id w) g (ss_sessions db)" for g
        using P by (intro sql_update_cong_rows) auto
      ultimately show ?thesis
        using accepted [OF Inr w True row_def] refused [of ConstraintFailed] Inr Some True free number
        by (cases "ub_id row \<in> ub_id ` set (ss_submissions db)") (simp_all add: submitForReview_def row_def [symmetric] Let_def)
    qed
  qed
qed

lemma submit_ok:
  assumes ok: "session_ok db"
  shows "session_ok (fst (submitForReview sha256 bi uuid now db))"
proof (rule submit_cases [OF ok, of sha256 bi uuid now], goal_cases)
  case (1 e)
  then show ?case using ok by simp
next
  case accepted: (2 w snapshot row)
  define db' where "db' = fst (submitForReview sha256 bi uuid now db)"
  have row: "ub_workSessionId row = wn_id w" "ub_submissionNumber row = Suc (length (submissions_of (wn_id w) db))" "ub_reviewEpoch row = Suc (wn_reviewEpoch w)"
    "ub_status row = SubmissionPending" using accepted(3) by (simp_all add: accepted(5) new_entry_def)
  have db': "ss_submissions db' = ss_submissions db @ [row]" "ss_feedback db' = ss_feedback db" "ss_events db' = ss_events db"
    "ss_sessions db' = sql_update (\<lambda>s. wn_id s = wn_id w) (\<lambda>s. s\<lparr>wn_status := AwaitingReview, wn_runtimeState := RParked, wn_runtimeClassifiedAt := Some now,
           wn_reviewEpoch := Suc (wn_reviewEpoch w), wn_updatedAt := now\<rparr>) (ss_sessions db)"
    by (simp_all add: db'_def accepted(7))
  have subs: "submissions_of i db' = submissions_of i db @ (if i = wn_id w then [row] else [])" for i by (simp add: submissions_of_def db'(1) row(1))
  have ids: "map wn_id (ss_sessions db') = map wn_id (ss_sessions db)" unfolding db'(4) by (simp add: map_sql_update)
  have set: "wn_id ` set (ss_sessions db') = wn_id ` set (ss_sessions db)" using arg_cong [OF ids, of set] by simp
  have numbers: "map ub_submissionNumber (submissions_of i db') = [1..<Suc (length (submissions_of i db'))]" for i
    using session_okD(6) [OF ok, of i] by (cases "i = wn_id w") (simp_all add: subs row(2) del: upt_Suc, simp)
  have epochs: "wn_reviewEpoch x = length (submissions_of (wn_id x) db') \<and> consumed_ok x db'" if "x \<in> set (ss_sessions db')" for x
  proof -
    from that obtain y where y: "y \<in> set (ss_sessions db)" "x = (if wn_id y = wn_id w then y\<lparr>wn_status := AwaitingReview, wn_runtimeState := RParked,
        wn_runtimeClassifiedAt := Some now, wn_reviewEpoch := Suc (wn_reviewEpoch w), wn_updatedAt := now\<rparr> else y)"
      unfolding db'(4) by (auto simp: set_sql_update)
    have "consumed_ok y db'" using session_okD(10) [OF ok y(1)] by (auto simp: consumed_ok_def db')
    then have "consumed_ok x db'" by (auto simp: consumed_ok_def y(2))
    then show ?thesis using session_okD(9) [OF ok y(1)] session_okD(9) [OF ok accepted(2)] y(2) by (simp add: subs)
  qed
  have fresh: "ub_id row \<notin> fb_submissionId ` set (ss_feedback db)"
  proof
    assume "ub_id row \<in> fb_submissionId ` set (ss_feedback db)"
    then obtain f where "f \<in> set (ss_feedback db)" "fb_submissionId f = ub_id row" by auto
    then show False using session_okD(11) [OF ok, of f] accepted(6) by (metis image_eqI)
  qed
  have dist: "distinct (map ub_id (ss_submissions db'))" using session_okD(2) [OF ok] accepted(6) by (simp add: db'(1))
  have each: "ub_reviewEpoch s = ub_submissionNumber s \<and> ub_workSessionId s \<in> wn_id ` set (ss_sessions db')
      \<and> (ub_status s = SubmissionReviewed \<longleftrightarrow> ub_id s \<in> fb_submissionId ` set (ss_feedback db'))" if "s \<in> set (ss_submissions db')" for s
    using that session_okD(7,8,12) [OF ok, of s] fresh row session_okD(9) [OF ok accepted(2)] accepted(2) unfolding set db'(1,2) by auto
  have "\<exists>s \<in> set (ss_submissions db'). ub_id s = fb_submissionId f \<and> ub_workSessionId s = fb_workSessionId f" if "f \<in> set (ss_feedback db')" for f
    using session_okD(11) [OF ok] that by (auto simp: db')
  then show ?case using session_okD(1,3-5) [OF ok] dist numbers epochs each unfolding db'_def [symmetric] session_ok_def ids db'(2,3) by blast
qed

lemma feedback_cases:
  obtains (refused) e where "submitFeedback fi uuid now db = (db, Inl e)"
  | (accepted) sub db' where "sub \<in> set (ss_submissions db)" "ub_id sub = fi_submissionId fi" "ub_workSessionId sub = fi_workSessionId fi"
      "fb_id (new_feedback fi uuid now) \<notin> fb_id ` set (ss_feedback db)" "fi_submissionId fi \<notin> fb_submissionId ` set (ss_feedback db)"
      "submitFeedback fi uuid now db = (db', Inr (new_feedback fi uuid now))" "ss_feedback db' = ss_feedback db @ [new_feedback fi uuid now]"
      "ss_submissions db' = sql_update (\<lambda>s. ub_id s = fi_submissionId fi) (\<lambda>s. s\<lparr>ub_status := SubmissionReviewed\<rparr>) (ss_submissions db)"
      "ss_events db' = ss_events db" "ss_engine db' = ss_engine db"
      "ss_sessions db' = sql_update (\<lambda>s. wn_id s = fi_workSessionId fi) (\<lambda>s. s\<lparr>wn_status := verdict_status (fi_verdict fi),
         wn_runtimeState := (if isTerminalStatus (verdict_status (fi_verdict fi)) then RArchived else RDetached), wn_runtimeClassifiedAt := Some now, wn_updatedAt := now,
         wn_terminalAt := (if isTerminalStatus (verdict_status (fi_verdict fi)) then Some now else wn_terminalAt s)\<rparr>) (ss_sessions db)"
      "ss_leases db' = (if isTerminalStatus (verdict_status (fi_verdict fi)) then sql_delete (\<lambda>l. le_workSessionId l = fi_workSessionId fi) (ss_leases db) else ss_leases db)"
proof (cases "find (\<lambda>s. ub_id s = fi_submissionId fi) (ss_submissions db)")
  case None
  then show ?thesis using refused by (simp add: submitFeedback_def Let_def)
next
  case (Some sub)
  then have sub: "sub \<in> set (ss_submissions db)" "ub_id sub = fi_submissionId fi" using find_Some_mem by force+
  show ?thesis
  proof (cases "ub_workSessionId sub \<noteq> fi_workSessionId fi \<or> fb_id (new_feedback fi uuid now) \<in> fb_id ` set (ss_feedback db)
      \<or> fi_submissionId fi \<in> fb_submissionId ` set (ss_feedback db)")
    case True
    then have "submitFeedback fi uuid now db = (db, Inl (if ub_workSessionId sub \<noteq> fi_workSessionId fi then SubmissionOfOtherSession else ConstraintFailed))"
      using Some by (simp add: submitFeedback_def Let_def)
    then show ?thesis by (rule refused)
  next
    case False
    then have c: "ub_workSessionId sub = fi_workSessionId fi" "fb_id (new_feedback fi uuid now) \<notin> fb_id ` set (ss_feedback db)"
      "fi_submissionId fi \<notin> fb_submissionId ` set (ss_feedback db)" by blast+
    show ?thesis using Some c
      by (intro accepted [OF sub c, of "fst (submitFeedback fi uuid now db)"]) (simp_all add: submitFeedback_def Let_def release_leases_def releaseWorkspaceLeasesForSession_def)
  qed
qed

lemma feedback_ok:
  assumes ok: "session_ok db"
  shows "session_ok (fst (submitFeedback fi uuid now db))"
proof (rule feedback_cases [of fi uuid now db], goal_cases)
  case (1 e)
  then show ?case using ok by simp
next
  case acc: (2 sub db')
  let ?f = "new_feedback fi uuid now"
  have f: "fb_submissionId ?f = fi_submissionId fi" "fb_workSessionId ?f = fi_workSessionId fi" by (simp_all add: new_feedback_def)
  have key: "map k (ss_submissions db') = map k (ss_submissions db)" if "\<And>s. k (s\<lparr>ub_status := SubmissionReviewed\<rparr>) = k s" for k :: "submission_entry \<Rightarrow> 'k"
    using that by (simp add: acc(8) map_sql_update)
  have core: "map session_core (ss_sessions db') = map session_core (ss_sessions db)" unfolding acc(11) by (rule map_core_update) (simp add: session_core_def)
  have sessions: "\<exists>y \<in> set (ss_sessions db). session_core x = session_core y" if "x \<in> set (ss_sessions db')" for x
    using core_mem [OF core that] by blast
  have wn: "wn_id ` set (ss_sessions db') = wn_id ` set (ss_sessions db)"
    using arg_cong [OF core, of "\<lambda>t. fst ` set t"] by (simp add: session_core_def image_image)
  have ids: "distinct (map wn_id (ss_sessions db'))" using session_okD(1) [OF ok] arg_cong [OF core, of "map fst"] by (simp add: session_core_def comp_def)
  have sub_old: "\<exists>y \<in> set (ss_submissions db). ub_id s = ub_id y \<and> ub_workSessionId s = ub_workSessionId y \<and> ub_submissionNumber s = ub_submissionNumber y
      \<and> ub_reviewEpoch s = ub_reviewEpoch y \<and> (ub_status s = (if ub_id y = fi_submissionId fi then SubmissionReviewed else ub_status y))" if "s \<in> set (ss_submissions db')" for s
    using that unfolding acc(8) by (auto simp: set_sql_update)
  have sub_new: "\<exists>s \<in> set (ss_submissions db'). ub_id s = ub_id y \<and> ub_workSessionId s = ub_workSessionId y \<and> ub_reviewEpoch s = ub_reviewEpoch y"
    if "y \<in> set (ss_submissions db)" for y
    using that unfolding acc(8) sql_update_def by (intro bexI [of _ "if ub_id y = fi_submissionId fi then y\<lparr>ub_status := SubmissionReviewed\<rparr> else y"]) auto
  have rows: "length (submissions_of i db') = length (submissions_of i db) \<and> map ub_submissionNumber (submissions_of i db') = map ub_submissionNumber (submissions_of i db)" for i
  proof -
    have "map (\<lambda>s. (ub_workSessionId s, ub_submissionNumber s)) (ss_submissions db') = map (\<lambda>s. (ub_workSessionId s, ub_submissionNumber s)) (ss_submissions db)" by (rule key) simp
    from arg_cong [OF this, of "\<lambda>t. map snd (filter (\<lambda>p. fst p = i) t)"] have "map ub_submissionNumber (submissions_of i db') = map ub_submissionNumber (submissions_of i db)"
      by (simp add: submissions_of_def filter_map comp_def)
    then show ?thesis using map_eq_imp_length_eq by blast
  qed
  have "distinct (map ub_id (ss_submissions db'))" using session_okD(2) [OF ok] key [of ub_id] by simp
  moreover have "distinct (map fb_id (ss_feedback db'))" "distinct (map fb_submissionId (ss_feedback db'))"
    using session_okD(3,4) [OF ok] acc(4,5) f(1) by (simp_all add: acc(7))
  moreover have "map ub_submissionNumber (submissions_of i db') = [1..<Suc (length (submissions_of i db'))]" for i
    using session_okD(6) [OF ok, of i] rows [of i] by simp
  moreover have "ub_reviewEpoch s = ub_submissionNumber s \<and> ub_workSessionId s \<in> wn_id ` set (ss_sessions db')" if "s \<in> set (ss_submissions db')" for s
    using sub_old [OF that] session_okD(7,8) [OF ok] unfolding wn by metis
  moreover have "wn_reviewEpoch w = length (submissions_of (wn_id w) db') \<and> consumed_ok w db'" if w: "w \<in> set (ss_sessions db')" for w
  proof -
    obtain y where y: "y \<in> set (ss_sessions db)" "session_core w = session_core y" using sessions [OF w] by blast
    have "consumed_ok y db'" using session_okD(10) [OF ok y(1)] sub_new unfolding consumed_ok_def acc(7) by (fastforce simp del: ex_simps)
    then show ?thesis using y(2) session_okD(9) [OF ok y(1)] rows by (simp add: session_core_def consumed_ok_def)
  qed
  moreover have "\<exists>s \<in> set (ss_submissions db'). ub_id s = fb_submissionId g \<and> ub_workSessionId s = fb_workSessionId g" if "g \<in> set (ss_feedback db')" for g
  proof -
    have "\<exists>y \<in> set (ss_submissions db). ub_id y = fb_submissionId g \<and> ub_workSessionId y = fb_workSessionId g"
      using that session_okD(11) [OF ok, of g] acc(1-3) f by (auto simp: acc(7))
    then show ?thesis using sub_new by metis
  qed
  moreover have "ub_status s = SubmissionReviewed \<longleftrightarrow> ub_id s \<in> fb_submissionId ` set (ss_feedback db')" if s: "s \<in> set (ss_submissions db')" for s
  proof -
    obtain y where "y \<in> set (ss_submissions db)" "ub_id s = ub_id y" "ub_status s = (if ub_id y = fi_submissionId fi then SubmissionReviewed else ub_status y)"
      using sub_old [OF s] by blast
    then show ?thesis using session_okD(12) [OF ok, of y] f(1) by (auto simp: acc(7))
  qed
  ultimately show ?case using session_okD(5) [OF ok] ids unfolding acc(6) session_ok_def by (simp add: acc(9))
qed

lemma joined_SomeD:
  assumes "find P (joined_feedback i db) = Some (f, s)"
  shows "f \<in> set (ss_feedback db)" "fb_workSessionId f = i" "s \<in> set (ss_submissions db)" "ub_id s = fb_submissionId f" "P (f, s)"
  using find_Some_mem [OF assms] by (auto simp: joined_feedback_def)

lemma consumed_step_ok:
  assumes ok: "session_ok db"
  shows "session_ok (markFeedbackConsumed i fid now db)"
proof (cases "find (\<lambda>(f, s). fb_id f = fid) (joined_feedback i db)")
  case None
  then show ?thesis using ok by (simp add: markFeedbackConsumed_def)
next
  case (Some p)
  then obtain f s where fs: "find (\<lambda>(f, s). fb_id f = fid) (joined_feedback i db) = Some (f, s)" by (cases p) auto
  note d = joined_SomeD [OF fs]
  define db' where "db' = markFeedbackConsumed i fid now db"
  have db': "ss_submissions db' = ss_submissions db" "ss_feedback db' = ss_feedback db" "ss_events db' = ss_events db"
    "ss_sessions db' = sql_update (\<lambda>w. wn_id w = i \<and> wn_lastConsumedReviewEpoch w < ub_reviewEpoch s)
       (\<lambda>w. w\<lparr>wn_lastConsumedFeedbackId := Some (fb_id f), wn_lastConsumedReviewEpoch := ub_reviewEpoch s, wn_updatedAt := now\<rparr>) (ss_sessions db)"
    by (simp_all add: db'_def markFeedbackConsumed_def fs)
  have ids: "map wn_id (ss_sessions db') = map wn_id (ss_sessions db)" unfolding db'(4) by (simp add: map_sql_update)
  have set: "wn_id ` set (ss_sessions db') = wn_id ` set (ss_sessions db)" using arg_cong [OF ids, of set] by simp
  have subs: "submissions_of j db' = submissions_of j db" for j by (simp add: submissions_of_def db'(1))
  have same: "ub_workSessionId s = i"
  proof -
    obtain t where t: "t \<in> set (ss_submissions db)" "ub_id t = fb_submissionId f" "ub_workSessionId t = fb_workSessionId f" using session_okD(11) [OF ok d(1)] by blast
    then have "t = s" using key_unique [OF session_okD(2) [OF ok] t(1) d(3)] d(4) by simp
    then show ?thesis using t(3) d(2) by simp
  qed
  have "wn_reviewEpoch x = length (submissions_of (wn_id x) db') \<and> consumed_ok x db'" if "x \<in> set (ss_sessions db')" for x
  proof -
    from that obtain y where y: "y \<in> set (ss_sessions db)" "x = (if wn_id y = i \<and> wn_lastConsumedReviewEpoch y < ub_reviewEpoch s
        then y\<lparr>wn_lastConsumedFeedbackId := Some (fb_id f), wn_lastConsumedReviewEpoch := ub_reviewEpoch s, wn_updatedAt := now\<rparr> else y)"
      unfolding db'(4) by (auto simp: set_sql_update)
    show ?thesis using session_okD(9,10) [OF ok y(1)] d same y(2) by (auto simp: subs consumed_ok_def db')
  qed
  then show ?thesis using ok unfolding db'_def [symmetric] session_ok_def by (simp add: ids set subs db'(1-3))
qed

lemma session_step_ok:
  assumes step: "session_step db db'" and ok: "session_ok db"
  shows "session_ok db'"
  using step
proof cases
  case (st_lease ls)
  then show ?thesis using session_okD(5) [OF ok] by (intro same_core [OF ok]) simp_all
next
  case (st_others ws rs e)
  then show ?thesis using session_okD(5) [OF ok] by (intro same_core [OF ok]) simp_all
qed (simp_all add: create_session_ok [OF ok] status_ok [OF ok] submit_ok [OF ok] feedback_ok [OF ok] consumed_step_ok [OF ok] event_ok [OF ok] reconcile_ok [OF ok])

interpretation session_inv: store_invariant session_start session_step session_ok
proof unfold_locales
  show "session_ok s" if "session_start s" for s using that by (simp add: session_start_def session_ok_def submissions_of_def)
qed (rule session_step_ok)

section \<open>Epochs only grow\<close>

definition session_keeps :: "session_store \<Rightarrow> session_store \<Rightarrow> bool" where
  "session_keeps db db' \<longleftrightarrow> (\<forall>w \<in> set (ss_sessions db). \<exists>w' \<in> set (ss_sessions db'). wn_id w' = wn_id w
     \<and> wn_reviewEpoch w \<le> wn_reviewEpoch w' \<and> wn_lastConsumedReviewEpoch w \<le> wn_lastConsumedReviewEpoch w')"

lemma session_keeps_trans: "session_keeps a b \<Longrightarrow> session_keeps b c \<Longrightarrow> session_keeps a c"
  unfolding session_keeps_def by (metis order_trans)

lemma core_keeps: "map session_core (ss_sessions db') = map session_core (ss_sessions db) \<Longrightarrow> session_keeps db db'"
proof -
  assume core: "map session_core (ss_sessions db') = map session_core (ss_sessions db)"
  have "\<exists>w' \<in> set (ss_sessions db'). session_core w' = session_core w" if "w \<in> set (ss_sessions db)" for w
    using core_mem [OF core [symmetric] that] by force
  then show ?thesis unfolding session_keeps_def session_core_def by fastforce
qed

lemma update_keeps:
  assumes "ss_sessions db' = sql_update P g (ss_sessions db)"
    "\<And>w. w \<in> set (ss_sessions db) \<Longrightarrow> P w \<Longrightarrow> wn_id (g w) = wn_id w \<and> wn_reviewEpoch w \<le> wn_reviewEpoch (g w) \<and> wn_lastConsumedReviewEpoch w \<le> wn_lastConsumedReviewEpoch (g w)"
  shows "session_keeps db db'"
proof -
  have "\<exists>w' \<in> set (ss_sessions db'). wn_id w' = wn_id w \<and> wn_reviewEpoch w \<le> wn_reviewEpoch w' \<and> wn_lastConsumedReviewEpoch w \<le> wn_lastConsumedReviewEpoch w'"
    if "w \<in> set (ss_sessions db)" for w
    using that assms(2) [OF that] unfolding assms(1) sql_update_def by (intro bexI [of _ "if P w then g w else w"]) auto
  then show ?thesis by (simp add: session_keeps_def)
qed

lemma step_keeps:
  assumes "session_step db db'" and ok: "session_ok db"
  shows "session_keeps db db'"
  using assms(1)
proof cases
  case (st_create input uuid now)
  then show ?thesis by (auto simp: session_keeps_def createWorkSession_def Let_def split: option.splits)
next
  case (st_status i status now now')
  then show ?thesis by (intro core_keeps) (auto simp: updateStatus_def Let_def on_terminal_def release_leases_def session_core_def intro!: map_core_update)
next
  case (st_submit sha bi uuid now)
  show ?thesis
  proof (rule submit_cases [OF ok, of sha bi uuid now], goal_cases)
    case (1 e)
    then show ?case using st_submit by (simp add: session_keeps_def) blast
  next
    case (2 w snapshot row)
    have "wn_reviewEpoch x \<le> Suc (wn_reviewEpoch w)" if "x \<in> set (ss_sessions db)" "wn_id x = wn_id w" for x
      using key_unique [OF session_okD(1) [OF ok] that(1) 2(2) that(2)] by simp
    then show ?case unfolding st_submit 2(7) by (intro update_keeps [where P = "\<lambda>s. wn_id s = wn_id w"]) (simp, simp)
  qed
next
  case (st_feedback fi uuid now)
  show ?thesis
  proof (rule feedback_cases [of fi uuid now db], goal_cases)
    case (1 e)
    then show ?case using st_feedback by (simp add: session_keeps_def) blast
  next
    case (2 sub d)
    have "map session_core (ss_sessions d) = map session_core (ss_sessions db)" unfolding 2(11) by (rule map_core_update) (simp add: session_core_def)
    then show ?case using st_feedback 2(6) core_keeps by simp
  qed
next
  case (st_consumed i f now)
  show ?thesis
  proof (cases "find (\<lambda>(g, s). fb_id g = f) (joined_feedback i db)")
    case None
    then show ?thesis using st_consumed by (intro core_keeps) (simp add: markFeedbackConsumed_def)
  next
    case (Some p)
    obtain a b where p: "p = (a, b)" by (cases p)
    show ?thesis unfolding st_consumed markFeedbackConsumed_def Some p
      by (intro update_keeps [where P = "\<lambda>s. wn_id s = i \<and> wn_lastConsumedReviewEpoch s < ub_reviewEpoch b"]) (simp, auto)
  qed
next
  case (st_event xe uuid now)
  then show ?thesis by (intro core_keeps) (auto simp: logToolEvent_def Let_def)
next
  case (st_reconcile clock now after limit)
  have "length (fst (reconcileRuntimeStates clock now (ss_runs db) after limit (map session_row_of (ss_sessions db)))) = length (ss_sessions db)"
    by (simp add: reconcileRuntimeStates_def Let_def)
  then show ?thesis unfolding st_reconcile reconcile_sessions_def by (intro core_keeps) (auto simp: session_core_def intro!: nth_equalityI)
qed (intro core_keeps, simp)+

end
