(* ===== verification/Session_Reviews.thy ===== *)
theory Session_Reviews
  imports Session_Store
begin

text \<open>
  What clients of \<open>Session_Store\<close> rely on: feedback is consumed in the order of the reviews, a
  submission reads back as it was returned, the history of tool events can be walked page by page,
  and what a verdict does to the leases and grants of its session.
\<close>

section \<open>Numbers and consumed feedback\<close>

text \<open>
  C15. The submissions of a work session are numbered 1, 2, 3, ... in the order they came, its review epoch
  counts them, each has at most one feedback, and it counts as reviewed exactly when it has one.
\<close>

theorem submission_epochs:
  assumes "reachable session_start session_step db"
  shows "map ub_submissionNumber (submissions_of i db) = [1..<Suc (length (submissions_of i db))]
    \<and> map ub_reviewEpoch (submissions_of i db) = [1..<Suc (length (submissions_of i db))]
    \<and> list_all (\<lambda>w. wn_reviewEpoch w = length (submissions_of (wn_id w) db)) (ss_sessions db)
    \<and> list_all (\<lambda>s. length (filter (\<lambda>f. fb_submissionId f = ub_id s) (ss_feedback db)) = (if ub_status s = SubmissionReviewed then 1 else 0)) (ss_submissions db)"
proof -
  have ok: "session_ok db" by (rule session_inv.inv_reachable [OF assms])
  have "map ub_reviewEpoch (submissions_of i db) = map ub_submissionNumber (submissions_of i db)"
    using session_okD(7) [OF ok] by (auto simp: submissions_of_def)
  moreover have "length (filter (\<lambda>f. fb_submissionId f = ub_id s) (ss_feedback db)) = (if ub_status s = SubmissionReviewed then 1 else 0)"
    if "s \<in> set (ss_submissions db)" for s
    using session_okD(12) [OF ok that] sql_changes_eq_one_iff [OF session_okD(4) [OF ok], of "\<lambda>f. fb_submissionId f = ub_id s" "ub_id s"]
      sql_changes_zero_iff [of "\<lambda>f. fb_submissionId f = ub_id s" "ss_feedback db"] by (auto simp: sql_changes_def image_iff)
  ultimately show ?thesis using session_okD(6,9) [OF ok] by (auto simp: list_all_iff simp del: upt_Suc)
qed

text \<open>
  C16. The feedback a worker has consumed only moves forward: the epoch kept with a session never decreases,
  whatever happens later, it is at most the review epoch, and it is the epoch of the submission that the
  recorded feedback belongs to.
\<close>

theorem consumed_feedback_advances:
  assumes "reachable session_start session_step db" "session_step\<^sup>*\<^sup>* db db'" "w \<in> set (ss_sessions db)"
  shows "\<exists>w' \<in> set (ss_sessions db'). wn_id w' = wn_id w \<and> wn_lastConsumedReviewEpoch w \<le> wn_lastConsumedReviewEpoch w'
    \<and> wn_lastConsumedReviewEpoch w' \<le> wn_reviewEpoch w'
    \<and> (wn_lastConsumedReviewEpoch w' = 0
       \<or> (\<exists>f \<in> set (ss_feedback db'). \<exists>s \<in> set (submissions_of (wn_id w) db'). wn_lastConsumedFeedbackId w' = Some (fb_id f)
            \<and> ub_id s = fb_submissionId f \<and> ub_reviewEpoch s = wn_lastConsumedReviewEpoch w'))"
proof -
  have "session_ok db' \<and> session_keeps db db'"
    using assms(2)
  proof (induction rule: rtranclp_induct)
    case base
    then show ?case using session_inv.inv_reachable [OF assms(1)] by (auto simp: session_keeps_def)
  next
    case (step y z)
    then show ?case using session_step_ok step_keeps session_keeps_trans by blast
  qed
  then have ok: "session_ok db'" and "session_keeps db db'" by blast+
  then obtain w' where w': "w' \<in> set (ss_sessions db')" "wn_id w' = wn_id w" "wn_lastConsumedReviewEpoch w \<le> wn_lastConsumedReviewEpoch w'"
    using assms(3) by (auto simp: session_keeps_def)
  have consumed: "wn_lastConsumedReviewEpoch w' = 0
       \<or> (\<exists>f \<in> set (ss_feedback db'). \<exists>s \<in> set (submissions_of (wn_id w) db'). wn_lastConsumedFeedbackId w' = Some (fb_id f)
            \<and> ub_id s = fb_submissionId f \<and> ub_reviewEpoch s = wn_lastConsumedReviewEpoch w')"
    using session_okD(10) [OF ok w'(1)] w'(2) unfolding consumed_ok_def submissions_of_def by fastforce
  have "ub_reviewEpoch s \<le> wn_reviewEpoch w'" if "s \<in> set (submissions_of (wn_id w) db')" for s
  proof -
    have "ub_submissionNumber s \<in> set (map ub_submissionNumber (submissions_of (wn_id w) db'))" using that by simp
    then have "ub_submissionNumber s \<le> length (submissions_of (wn_id w) db')" unfolding session_okD(6) [OF ok] by auto
    then show ?thesis using session_okD(7) [OF ok, of s] session_okD(9) [OF ok w'(1)] that w'(2) by (simp add: submissions_of_def)
  qed
  with consumed have "wn_lastConsumedReviewEpoch w' \<le> wn_reviewEpoch w'" by (metis le0)
  with w' consumed show ?thesis by blast
qed

section \<open>Reading a submission back\<close>

lemma only_strings_map [simp]: "only_strings (map JStr xs) = xs"
  by (induction xs) (simp_all add: only_strings_def)

lemma coverage_read_back: "cv_backend c \<in> {''git'', ''filesystem''} \<Longrightarrow> parseCheckpointCoverage (Some (Parsed (coverage_json c))) = Some c"
  by (auto simp: parseCheckpointCoverage_def coverage_json_def json_field_def js_get_def)

text \<open>
  A submission that was accepted reads back exactly as it was returned, as the latest one of its session:
  the stored snapshot passes the checks on reading, and the file and coverage columns parse.
\<close>

theorem submission_reads_back:
  assumes "reachable session_start session_step db" "submitForReview sha256 bi uuid now db = (db', Inr sub)"
    "case bi_files bi of None \<Rightarrow> True | Some fs \<Rightarrow> list_all review_file_ok fs"
    "case bi_coverage bi of None \<Rightarrow> True | Some c \<Rightarrow> cv_backend c \<in> {''git'', ''filesystem''}"
  shows "getLatestSubmission (bi_workSessionId bi) db' = Inr (Some sub) \<and> uv_submissionNumber sub = Suc (length (submissions_of (bi_workSessionId bi) db))"
proof -
  have ok: "session_ok db" by (rule session_inv.inv_reachable [OF assms(1)])
  show ?thesis
  proof (rule submit_cases [OF ok, of sha256 bi uuid now], goal_cases)
    case (1 e)
    then show ?case using assms(2) by simp
  next
    case acc: (2 w snapshot row)
    have res: "db' = fst (submitForReview sha256 bi uuid now db)" "sub = returned_submission bi row" using assms(2) acc(7) by simp_all
    have row: "ub_submissionNumber row = Suc (length (submissions_of (wn_id w) db))" "ub_workSessionId row = wn_id w" using acc(3) by (simp_all add: acc(5) new_entry_def)
    have subs: "submissions_of (wn_id w) db' = submissions_of (wn_id w) db @ [row]" using row(2) by (simp add: res(1) acc(7) submissions_of_def)
    have "ub_submissionNumber s < ub_submissionNumber row" if "s \<in> set (submissions_of (wn_id w) db)" for s
    proof -
      have "ub_submissionNumber s \<in> set (map ub_submissionNumber (submissions_of (wn_id w) db))" using that by simp
      then show ?thesis unfolding session_okD(6) [OF ok] row(1) by auto
    qed
    then have "latest_entry (wn_id w) db' = Some row" unfolding latest_entry_def subs by (rule first_row_desc_last)
    moreover have "parseReviewFiles (ub_filesJson row) = bi_files bi" using assms(3)
      by (auto simp: acc(5) new_entry_def parseReviewFiles_def split: option.splits)
    moreover have "parseCheckpointCoverage (ub_coverageJson row) = bi_coverage bi" using assms(4)
      by (auto simp: acc(5) new_entry_def coverage_read_back split: option.splits) (simp add: parseCheckpointCoverage_def)
    moreover have "normalizeWorkspaceSnapshotIdentity (ub_snapshotKind row) (ub_snapshotRef row) (ub_snapshotCommit row) = Inr snapshot"
      using normalize_idem [OF acc(1)] by (simp add: acc(5) new_entry_def)
    ultimately show ?thesis
      by (simp add: getLatestSubmission_def rowToSubmission_def acc(3) [symmetric] res(2) returned_submission_def row)
        (simp add: acc(5) new_entry_def)
  qed
qed

section \<open>Verdicts, leases and grants\<close>

lemma updated_row: "w \<in> set t \<Longrightarrow> P w \<Longrightarrow> f w \<in> set (sql_update P f t)"
  by (force simp: sql_update_def)

lemma revoked_scope: "\<not> engine_has later (p, ScWorkSession, i, key) (revokeScope now ScWorkSession i e)"
proof (cases "pe_grants e")
  case None
  then show ?thesis by (simp add: engine_has_def revokeScope_def)
next
  case (Some t)
  have "\<not> hasEffective later (p, ScWorkSession, i, key) (revoke_scope_at (now, ScWorkSession, i) t)" by (simp add: hasEffective_revoke key_in_scope_def)
  then show ?thesis using Some by (simp add: engine_has_def revokeScope_def revoke_scope_at_def)
qed

text \<open>
  C31. A session can end in two ways, and only one of them takes its grants back. A status change to a
  terminal status releases the leases and revokes every approval given for the session. A verdict that
  approves or rejects the submission makes the session terminal and releases the leases too, but leaves
  every approval given for the session in force.
\<close>

theorem grants_outlive_verdict:
  assumes "reachable session_start session_step db" "submitFeedback fi uuid now db = (db', Inr f)" "fi_verdict fi \<noteq> ChangesVerdict"
    "isTerminalStatus status"
  shows "list_ex (\<lambda>w. wn_id w = fi_workSessionId fi \<and> isTerminalStatus (wn_status w)) (ss_sessions db')
    \<and> list_all (\<lambda>l. le_workSessionId l \<noteq> fi_workSessionId fi) (ss_leases db')
    \<and> isApproved later p key ctx (ss_engine db') = isApproved later p key ctx (ss_engine db)
    \<and> list_all (\<lambda>l. le_workSessionId l \<noteq> fi_workSessionId fi) (ss_leases (updateStatus (fi_workSessionId fi) status now now' db))
    \<and> \<not> engine_has later (p, ScWorkSession, fi_workSessionId fi, key) (ss_engine (updateStatus (fi_workSessionId fi) status now now' db))"
proof -
  have ok: "session_ok db" by (rule session_inv.inv_reachable [OF assms(1)])
  have terminal: "isTerminalStatus (verdict_status (fi_verdict fi))" using assms(3) by (cases "fi_verdict fi") (simp_all add: verdict_status_def isTerminalStatus_def)
  have "list_all (\<lambda>l. le_workSessionId l \<noteq> fi_workSessionId fi) (ss_leases (updateStatus (fi_workSessionId fi) status now now' db))"
    "\<not> engine_has later (p, ScWorkSession, fi_workSessionId fi, key) (ss_engine (updateStatus (fi_workSessionId fi) status now now' db))"
    using assms(4) revoked_scope by (simp_all add: updateStatus_def on_terminal_def release_leases_def releaseWorkspaceLeasesForSession_def list_all_iff)
  moreover have "list_ex (\<lambda>w. wn_id w = fi_workSessionId fi \<and> isTerminalStatus (wn_status w)) (ss_sessions db')
    \<and> list_all (\<lambda>l. le_workSessionId l \<noteq> fi_workSessionId fi) (ss_leases db') \<and> ss_engine db' = ss_engine db"
  proof (rule feedback_cases [of fi uuid now db], goal_cases)
    case (1 e)
    then show ?case using assms(2) by simp
  next
    case (2 sub d)
    have d: "d = db'" using 2(6) assms(2) by simp
    obtain w where w: "w \<in> set (ss_sessions db)" "wn_id w = fi_workSessionId fi" using session_okD(8) [OF ok 2(1)] 2(3) by auto
    then have "list_ex (\<lambda>w. wn_id w = fi_workSessionId fi \<and> isTerminalStatus (wn_status w)) (ss_sessions d)"
      unfolding 2(11) list_ex_iff using terminal by (intro bexI [OF _ updated_row [OF w(1)]]) simp_all
    then show ?case using 2(10,12) terminal d by (simp add: list_all_iff)
  qed
  ultimately show ?thesis by simp
qed

text \<open>
  The moment a session became terminal is not kept: every later change to a terminal status overwrites
  it with the time of that change.
\<close>

theorem terminal_moment_overwritten:
  assumes "reachable session_start session_step db" "w \<in> set (ss_sessions db)" "isTerminalStatus (wn_status w)" "isTerminalStatus status"
  shows "\<exists>w' \<in> set (ss_sessions (updateStatus (wn_id w) status now now' db)). wn_id w' = wn_id w \<and> wn_status w' = status \<and> wn_terminalAt w' = Some now"
proof (rule bexI)
  let ?w = "w\<lparr>wn_status := status, wn_runtimeState := runtime_after status, wn_runtimeClassifiedAt := Some now, wn_updatedAt := now, wn_terminalAt := Some now\<rparr>"
  show "wn_id ?w = wn_id w \<and> wn_status ?w = status \<and> wn_terminalAt ?w = Some now" by simp
  have "?w \<in> set (sql_update (\<lambda>s. wn_id s = wn_id w) (\<lambda>s. s\<lparr>wn_status := status, wn_runtimeState := runtime_after status, wn_runtimeClassifiedAt := Some now,
      wn_updatedAt := now, wn_terminalAt := Some now\<rparr>) (ss_sessions db))"
    using updated_row [OF assms(2), of "\<lambda>s. wn_id s = wn_id w"] by simp
  then show "?w \<in> set (ss_sessions (updateStatus (wn_id w) status now now' db))"
    using assms(4) by (simp add: updateStatus_def on_terminal_def release_leases_def)
qed

section \<open>The history of tool events\<close>

text \<open>A client that asks for the next page after the last event it has seen, at most \<open>fuel\<close> times.\<close>

fun walk_events :: "nat \<Rightarrow> string \<Rightarrow> string option \<Rightarrow> nat \<Rightarrow> session_store \<Rightarrow> tool_event list" where
  "walk_events 0 i after limit db = []"
| "walk_events (Suc fuel) i after limit db =
     (case listToolEvents i after limit db of
        [] \<Rightarrow> []
      | e # es \<Rightarrow> (e # es) @ walk_events fuel i (Some (te_id (last (e # es)))) limit db)"

lemma page_after:
  assumes ok: "session_ok db" and rows: "order_desc event_key (session_events i db) = xs @ ys" "xs \<noteq> []" "te_id (last xs) \<noteq> []"
  shows "listToolEvents i (Some (te_id (last xs))) limit db = take limit ys"
proof -
  let ?rows = "order_desc event_key (session_events i db)"
  have ids: "distinct (map te_id (session_events i db))" using session_okD(5) [OF ok] by (simp add: session_events_def distinct_map_filter)
  then have "distinct (map event_key (session_events i db))" by (auto simp: distinct_map inj_on_def event_key_def)
  from strict_sorted_order_desc [OF this] have sorted: "sorted_wrt (\<lambda>a b. event_key b < event_key a) (xs @ ys)" unfolding rows(1) .
  have xs: "xs = butlast xs @ [last xs]" using rows(2) by simp
  have mem: "last xs \<in> set (session_events i db)" using rows(1,2) by (metis UnCI last_in_set set_append set_order_desc)
  have "find (\<lambda>e. Some (te_id e) = Some (te_id (last xs))) (session_events i db) = Some (last xs)"
    using find_unique_key [OF ids mem] by simp
  moreover have "filter (\<lambda>e. event_key e < event_key (last xs)) ?rows = ys"
  proof -
    have "\<not> event_key x < event_key (last xs)" if "x \<in> set xs" for x
    proof (cases "x = last xs")
      case False
      with that xs have "x \<in> set (butlast xs)" by (metis UnE empty_iff empty_set insert_iff list.simps(15) set_append)
      moreover have "sorted_wrt (\<lambda>a b. event_key b < event_key a) (butlast xs @ [last xs])" using sorted xs by (metis sorted_wrt_append)
      ultimately show ?thesis by (auto simp: sorted_wrt_append dest: less_imp_not_less)
    qed simp
    moreover have "event_key y < event_key (last xs)" if "y \<in> set ys" for y using that sorted rows(2) by (simp add: sorted_wrt_append)
    ultimately show ?thesis unfolding rows(1) by (simp add: filter_empty_conv)
  qed
  ultimately show ?thesis using rows(3) by (simp add: listToolEvents_def filter_order_desc)
qed

lemma walk_suffix:
  assumes ok: "session_ok db" and limit: "0 < limit" and ids: "\<forall>e \<in> set (ss_events db). te_id e \<noteq> []"
    and rows: "order_desc event_key (session_events i db) = xs @ ys" and fuel: "length ys < fuel"
  shows "walk_events fuel i (if xs = [] then None else Some (te_id (last xs))) limit db = ys"
  using rows fuel
proof (induction fuel arbitrary: xs ys)
  case (Suc fuel)
  have mem: "e \<in> set (ss_events db)" if "e \<in> set (xs @ ys)" for e
    using that Suc.prems(1) set_order_desc [of event_key "session_events i db"] by (auto simp: session_events_def)
  have page: "listToolEvents i (if xs = [] then None else Some (te_id (last xs))) limit db = take limit ys"
  proof (cases "xs = []")
    case True
    then show ?thesis using Suc.prems(1) by (simp add: listToolEvents_def)
  next
    case False
    then show ?thesis using page_after [OF ok Suc.prems(1) False] ids mem [of "last xs"] by simp
  qed
  show ?case
  proof (cases ys)
    case Nil
    then show ?thesis using page by simp
  next
    case (Cons y zs)
    have ne: "take limit ys \<noteq> []" using limit Cons by simp
    have "walk_events fuel i (if xs @ take limit ys = [] then None else Some (te_id (last (xs @ take limit ys)))) limit db = drop limit ys"
      using Suc.prems limit Cons by (intro Suc.IH) auto
    then have rest: "walk_events fuel i (Some (te_id (last (take limit ys)))) limit db = drop limit ys" using ne by simp
    obtain e es where p: "take limit ys = e # es" using ne by (cases "take limit ys") auto
    have "walk_events (Suc fuel) i (if xs = [] then None else Some (te_id (last xs))) limit db = (e # es) @ drop limit ys"
      using page rest unfolding p by simp
    then show ?thesis using append_take_drop_id [of limit ys] p by simp
  qed
qed simp

text \<open>Every id of an event starts with its prefix.\<close>

lemma event_ids:
  assumes "reachable session_start session_step db"
  shows "\<forall>e \<in> set (ss_events db). te_id e \<noteq> []"
  using assms
proof induction
  case (reachable_start s)
  then show ?case by (simp add: session_start_def)
next
  case (reachable_step s s')
  have other: "ss_events (fst (submitForReview sha bi uuid now s)) = ss_events s" "ss_events (fst (submitFeedback fi uuid now s)) = ss_events s"
    "ss_events (fst (createWorkSession input uuid now s)) = ss_events s" "ss_events (updateStatus i status now now' s) = ss_events s"
    "ss_events (markFeedbackConsumed i f now s) = ss_events s" for sha bi uuid now fi input i status now' f
    by (simp_all add: submitForReview_def submitFeedback_def createWorkSession_def updateStatus_def markFeedbackConsumed_def on_terminal_def release_leases_def Let_def
        split: sum.splits option.splits)
  from reachable_step.hyps(2) show ?case
    by cases (use reachable_step.IH in \<open>auto simp: other reconcile_sessions_def logToolEvent_def Let_def\<close>)
qed

text \<open>
  C38. Asking for page after page, each time after the last event of the page before, returns every tool
  event of the session exactly once, newest first, and ends: as many questions as there are events and
  one more are enough, whatever the page size.
\<close>

theorem tool_events_walked_once:
  assumes "reachable session_start session_step db" "0 < limit" "length (session_events i db) < fuel"
  shows "walk_events fuel i None limit db = order_desc event_key (session_events i db) \<and> distinct (walk_events fuel i None limit db)
    \<and> set (walk_events fuel i None limit db) = {e \<in> set (ss_events db). te_workSessionId e = i}"
proof -
  have ok: "session_ok db" by (rule session_inv.inv_reachable [OF assms(1)])
  have walk: "walk_events fuel i None limit db = order_desc event_key (session_events i db)"
    using walk_suffix [OF ok assms(2) event_ids [OF assms(1)], of i "[]" "order_desc event_key (session_events i db)" fuel] assms(3) by simp
  have "distinct (session_events i db)" using session_okD(5) [OF ok] by (simp add: session_events_def distinct_map)
  then have "distinct (order_desc event_key (session_events i db))" by (simp add: order_desc_def)
  then show ?thesis unfolding walk by (auto simp: session_events_def)
qed

section \<open>A reviewed session\<close>

text \<open>A session with one approval for its scope, a submission that is sent back, another that is approved, and two tool events.\<close>

definition review_start :: session_store where
  "review_start = \<lparr>ss_workspaces = [\<lparr>wk_id = ''w'', wk_status = ''active'', wk_projectId = None\<rparr>], ss_sessions = [], ss_submissions = [], ss_feedback = [],
     ss_events = [], ss_runs = [], ss_leases = [], ss_engine = (empty_engine None None)\<lparr>pe_sessionApprovals := {(''p'', ScWorkSession, ''wsess_1'', ''k'')}\<rparr>\<rparr>"

definition review_request :: session_request where
  "review_request = \<lparr>nq_workspaceSessionId = ''w'', nq_submittedBy = ''a'', nq_title = None, nq_completionPolicy = None, nq_ownerContextId = None, nq_principalId = None\<rparr>"

definition reviewed_input :: submission_input where
  "reviewed_input = \<lparr>bi_workSessionId = ''wsess_1'', bi_diff = Some ''d'', bi_diffSha256 = Some ''h'', bi_snapshotCommit = None, bi_snapshotKind = None, bi_snapshotRef = Some ''fs:1'',
     bi_message = None, bi_summaryJson = None, bi_files = None, bi_coverage = None\<rparr>"

definition review_verdict_input :: "string \<Rightarrow> submission_verdict \<Rightarrow> feedback_input" where
  "review_verdict_input sub v = \<lparr>fi_workSessionId = ''wsess_1'', fi_submissionId = sub, fi_verdict = v, fi_comments = None, fi_filesJson = None, fi_requiredActions = None,
     fi_allowedNextActions = None, fi_reviewerId = None, fi_completionReportSha256 = None\<rparr>"

definition review_event :: event_input where
  "review_event = \<lparr>xe_workSessionId = ''wsess_1'', xe_workspaceSessionId = ''w'', xe_tool = ''t'', xe_inputJson = ''{}'', xe_outputSummary = None, xe_path = None,
     xe_success = True, xe_elapsedMs = 1\<rparr>"

definition review_calls :: "(session_store \<Rightarrow> session_store) list" where
  "review_calls = [\<lambda>db. fst (createWorkSession review_request ''1'' 10 db), \<lambda>db. fst (logToolEvent review_event ''1'' 11 db), \<lambda>db. fst (logToolEvent review_event ''2'' 12 db),
     \<lambda>db. fst (submitForReview id reviewed_input ''1'' 20 db), \<lambda>db. fst (submitFeedback (review_verdict_input ''wssub_1'' ChangesVerdict) ''1'' 30 db),
     \<lambda>db. markFeedbackConsumed ''wsess_1'' ''wsfb_1'' 40 db, \<lambda>db. fst (submitForReview id reviewed_input ''2'' 50 db)]"

definition reviewed_db :: session_store where
  "reviewed_db = fold (\<lambda>f db. f db) review_calls review_start"

lemma review_reachable: "reachable session_start session_step reviewed_db"
proof -
  have run: "reachable session_start session_step (fold (\<lambda>f db. f db) fs db)"
    if "reachable session_start session_step db" "\<forall>f \<in> set fs. \<forall>db. session_step db (f db)" for fs db
    using that by (induction fs arbitrary: db) (auto intro: reachable_step)
  have "\<forall>f \<in> set review_calls. \<forall>db. session_step db (f db)"
    unfolding review_calls_def by (simp add: session_step.intros)
  moreover have "session_start review_start" by (simp add: session_start_def review_start_def)
  ultimately show ?thesis unfolding reviewed_db_def by (intro run reachable_start)
qed

theorem submission_epochs_witness:
  "map ub_reviewEpoch (submissions_of ''wsess_1'' reviewed_db) = [1, 2] \<and> map ub_status (submissions_of ''wsess_1'' reviewed_db) = [SubmissionReviewed, SubmissionPending]"
proof -
  have "length (submissions_of ''wsess_1'' reviewed_db) = 2" "map ub_status (submissions_of ''wsess_1'' reviewed_db) = [SubmissionReviewed, SubmissionPending]" by code_simp+
  then show ?thesis using submission_epochs [OF review_reachable, of "''wsess_1''"] by (simp add: numeral_2_eq_2)
qed

theorem consumed_feedback_advances_witness:
  "map wn_lastConsumedReviewEpoch (ss_sessions reviewed_db) = [1]
   \<and> map wn_lastConsumedReviewEpoch (ss_sessions (markFeedbackConsumed ''wsess_1'' ''wsfb_1'' 60 reviewed_db)) = [1]"
proof -
  define w where "w = hd (ss_sessions reviewed_db)"
  define db' where "db' = markFeedbackConsumed ''wsess_1'' ''wsfb_1'' 60 reviewed_db"
  have now: "map wn_lastConsumedReviewEpoch (ss_sessions reviewed_db) = [1]" and after: "length (ss_sessions db') = 1"
    and le: "list_all (\<lambda>w. wn_lastConsumedReviewEpoch w \<le> 1) (ss_sessions db')" unfolding db'_def by code_simp+
  then have "w \<in> set (ss_sessions reviewed_db)" "wn_lastConsumedReviewEpoch w = 1" unfolding w_def by (cases "ss_sessions reviewed_db"; simp)+
  moreover have "session_step reviewed_db db'" unfolding db'_def by (rule st_consumed)
  ultimately obtain w' where "w' \<in> set (ss_sessions db')" "1 \<le> wn_lastConsumedReviewEpoch w'"
    using consumed_feedback_advances [OF review_reachable r_into_rtranclp, of db' w] by auto
  then have "map wn_lastConsumedReviewEpoch (ss_sessions db') = [1]" using after le by (cases "ss_sessions db'") auto
  with now show ?thesis by (simp add: db'_def)
qed

theorem submission_reads_back_witness:
  "case submitForReview id reviewed_input ''3'' 70 (updateStatus ''wsess_1'' InProgress 60 60 reviewed_db) of
     (db', Inr sub) \<Rightarrow> getLatestSubmission ''wsess_1'' db' = Inr (Some sub) \<and> uv_submissionNumber sub = 3 \<and> uv_snapshotKind sub = Some ''filesystem''
   | _ \<Rightarrow> False"
proof -
  define db where "db = updateStatus ''wsess_1'' InProgress 60 60 reviewed_db"
  have "session_step reviewed_db db" unfolding db_def by (rule st_status)
  with review_reachable have db: "reachable session_start session_step db" by (rule reachable_step)
  have three: "length (submissions_of ''wsess_1'' db) = 2" unfolding db_def by code_simp
  have "case snd (submitForReview id reviewed_input ''3'' 70 db) of Inr sub \<Rightarrow> uv_snapshotKind sub = Some ''filesystem'' | _ \<Rightarrow> False" unfolding db_def by code_simp
  then obtain db' sub where sub: "submitForReview id reviewed_input ''3'' 70 db = (db', Inr sub)" "uv_snapshotKind sub = Some ''filesystem''"
    by (cases "submitForReview id reviewed_input ''3'' 70 db"; cases "snd (submitForReview id reviewed_input ''3'' 70 db)") auto
  have "bi_workSessionId reviewed_input = ''wsess_1''" "bi_files reviewed_input = None" "bi_coverage reviewed_input = None" by (simp_all add: reviewed_input_def)
  then show ?thesis using submission_reads_back [OF db sub(1)] sub three unfolding db_def [symmetric] by simp
qed

theorem grants_outlive_verdict_witness:
  "case submitFeedback (review_verdict_input ''wssub_2'' ApproveVerdict) ''2'' 60 reviewed_db of
     (db', Inr f) \<Rightarrow> list_ex (\<lambda>w. wn_id w = ''wsess_1'' \<and> isTerminalStatus (wn_status w)) (ss_sessions db')
       \<and> isApproved 70 ''p'' ''k'' \<lparr>sc_workspaceId = ''w'', sc_workSessionId = Some ''wsess_1''\<rparr> (ss_engine db')
   | _ \<Rightarrow> False"
proof -
  have "case snd (submitFeedback (review_verdict_input ''wssub_2'' ApproveVerdict) ''2'' 60 reviewed_db) of Inr f \<Rightarrow> True | _ \<Rightarrow> False" by code_simp
  then obtain db' f where f: "submitFeedback (review_verdict_input ''wssub_2'' ApproveVerdict) ''2'' 60 reviewed_db = (db', Inr f)"
    by (cases "submitFeedback (review_verdict_input ''wssub_2'' ApproveVerdict) ''2'' 60 reviewed_db"; cases "snd (submitFeedback (review_verdict_input ''wssub_2'' ApproveVerdict) ''2'' 60 reviewed_db)") auto
  have "isApproved 70 ''p'' ''k'' \<lparr>sc_workspaceId = ''w'', sc_workSessionId = Some ''wsess_1''\<rparr> (ss_engine reviewed_db)" by code_simp
  moreover have "fi_workSessionId (review_verdict_input ''wssub_2'' ApproveVerdict) = ''wsess_1''" "fi_verdict (review_verdict_input ''wssub_2'' ApproveVerdict) \<noteq> ChangesVerdict"
    by (simp_all add: review_verdict_input_def)
  moreover have "isTerminalStatus Cancelled" by (simp add: isTerminalStatus_def)
  ultimately show ?thesis
    using grants_outlive_verdict [OF review_reachable f, of Cancelled 70 "''p''" "''k''" "\<lparr>sc_workspaceId = ''w'', sc_workSessionId = Some ''wsess_1''\<rparr>"] f by simp
qed

theorem tool_events_walked_once_witness:
  "map te_id (walk_events 3 ''wsess_1'' None 1 reviewed_db) = [''wste_2'', ''wste_1''] \<and> distinct (walk_events 3 ''wsess_1'' None 1 reviewed_db)"
proof -
  have "length (session_events ''wsess_1'' reviewed_db) < 3" and ids: "map te_id (walk_events 3 ''wsess_1'' None 1 reviewed_db) = [''wste_2'', ''wste_1'']" by code_simp+
  then have "distinct (walk_events 3 ''wsess_1'' None 1 reviewed_db)" using tool_events_walked_once [OF review_reachable zero_less_one, of "''wsess_1''" 3] by blast
  with ids show ?thesis ..
qed

end
