(* ===== verification/Spec2Isabelle.thy ===== *)
theory Spec2Isabelle
  imports Dispatch_Outbox Policy_Engine Work_Sessions Workspace_Leases Continuations Mission_Approval Apply_Patch Scheduled_Safety
    Process_Output Mcp_Admission Mutation_Receipts OAuth_Provider Reviewer_Jobs Supervisor_Runs
    Peer_Jobs Session_Reviews
begin

text \<open>
  A verification library of Kontrol, the control plane through which reviewers supervise coding
  agents (TypeScript under src/src).

  \<^bold>\<open>The program.\<close> Kontrol keeps its state in SQLite tables and lets independent processes (the HTTP
  server with its MCP tools, the scheduler, dispatchers, reviewers at a terminal) change them. What
  makes it correct is rarely one call: claims are raced for and fenced by tokens and revisions,
  approvals are given once and consumed once, events arrive late or twice. The theories therefore
  model a component as its tables and one definition per operation, state its step relation over all
  operations with all arguments, and prove invariants of every reachable state beside the exact
  behaviour of each operation.

  \<^bold>\<open>How the parts meet.\<close> An agent works in a \<^emph>\<open>work session\<close> on a checkout it holds the
  \<^emph>\<open>lease\<close> of. A tool call is judged by the \<^emph>\<open>policy\<close> (rules, grants, approval cards) and by the
  session's action guard; an approved edit goes through the \<^emph>\<open>patch tool\<close>. Submitted work is
  approved against the \<^emph>\<open>mission\<close> ledger; feedback returns to the agent as a \<^emph>\<open>continuation\<close>.
  A \<^emph>\<open>supervised run\<close> repeats verification and correction without a person until it is stuck.
  A worker that is stuck posts an \<^emph>\<open>agent message\<close>; submissions and such messages are shown to the
  reviewer in \<^emph>\<open>browser turns\<close>, whose replies and verdicts come back through the same tables.
  A \<^emph>\<open>peer job\<close> hands work to another host, which claims it, works under a lease and returns a receipt.
  A \<^emph>\<open>scheduled job\<close> starts such sessions later; its wake-ups and every other deferred action
  travel through the \<^emph>\<open>dispatch outbox\<close>. Clients reach the tools through the \<^emph>\<open>OAuth\<close> provider and the
  \<^emph>\<open>admission\<close> queue; a tool that changes something can be retried under a \<^emph>\<open>mutation receipt\<close>, and
  what a command prints is read back through the \<^emph>\<open>process output\<close> log.

  \<^bold>\<open>Conventions\<close> (\<open>Kontrol_Prelude\<close>). A table is the list of its rows in rowid order, an update
  reports the number of rows it wrote, a transaction that throws leaves the state as it was. Clock
  readings, random ids, hashes and the file system are arguments. Errors are constructors of a sum
  type. Numbers the code keeps below 2^53 are \<open>int\<close> or \<open>nat\<close>. The interfaces are locales:
  \<open>store_invariant\<close> (an invariant kept by every step), \<open>fenced_store\<close> (a claim token is accepted
  once), \<open>keyset_pager\<close> (a cursor walk returns every row once), \<open>run_refinement\<close> (a staged run
  implements a sequential one), \<open>grant_contract\<close> of \<open>Policy_Grants\<close> and \<open>cursor_log\<close> of
  \<open>Process_Output\<close> (what a reader may rely on); each is interpreted on the
  model's own operations.

  \<^bold>\<open>The theories.\<close>
  \<^item> \<open>Dispatch_Outbox\<close>: dispatch-outbox.ts. A raced claim has one winner, a token is used once, the
    earliest available event is handed out, reaping and failure budgets are exact.
  \<^item> \<open>Approval_Requests\<close>: approval-requests.ts. A decision is final, a one-execution approval lets
    exactly one retry through, expiry is bounded per sweep (and a backlog defeats it).
  \<^item> \<open>Policy_Rules\<close>, \<open>Policy_Grants\<close>, \<open>Policy_Engine\<close>: policy.ts and policy-grants.ts. The most
    specific rule decides, an unreadable configuration does not load, the engine's answer after
    any history of decisions and revocations is the one the history implies, with the durable
    store and without.
  \<^item> \<open>Work_Sessions\<close>, \<open>Workspace_Leases\<close>: work-session-lifecycle.ts, work-session-action-guard.ts and
    the runtime-state and lease stores of src/src/work-sessions. No mutation while a session is
    fenced, one owner per checkout, a takeover fences the old nonce.
  \<^item> \<open>Session_Store\<close>, \<open>Session_Reviews\<close>: session-store.ts, review-store.ts, tool-event-store.ts and
    queries.ts of src/src/work-sessions. Submissions and review epochs are counted without gap, each
    is reviewed once and reads back as returned, consumed feedback only moves forward, the tool
    history can be walked to its end; a verdict ends a session without revoking its grants.
  \<^item> \<open>Continuations\<close>: continuation.ts. Epochs 1, 2, 3, ... without gap, delivery once by the
    claimant.
  \<^item> \<open>Mission_Contract\<close>, \<open>Mission_Outcome\<close>, \<open>Mission_Ledger\<close>, \<open>Mission_Approval\<close>: src/src/mission
    and mission-ledger.ts. The contract check finds exactly the cycles, the memoised evaluation of
    criteria computes the least fixed point, an approval is backed by authoritative evidence, an
    agent's own claims do not count, the correction loop is bounded.
  \<^item> \<open>Patch_Format\<close>, \<open>Apply_Patch\<close>: apply-patch.ts. Parse after print is the identity, everything
    the parser accepts is well formed, a hunk is placed at the first strictest match, and staging a
    whole patch implements its actions one after the other or changes nothing.
  \<^item> \<open>Scheduled_Lifecycle\<close>, \<open>Scheduled_Jobs\<close>, \<open>Scheduled_Safety\<close>: src/src/scheduling (lifecycle
    projection, bounded counters, job store, wake-ups and deadlines of the runtime). One open
    dispatch attempt per job, one successful claim per revision, terminal states are final.
  \<^item> \<open>OAuth_Provider\<close>: oauth-store.ts and oauth-provider.ts. Refresh tokens and codes are spent once,
    password guesses are bounded per window (though a lock ends earlier than announced), clients
    and codes are bounded and no exchange widens a scope.
  \<^item> \<open>Mcp_Admission\<close>: server/mcp-admission.ts. Weights and queues stay within their limits, the
    counters are exact, and every waiting request is admitted once enough running ones finish.
  \<^item> \<open>Mutation_Receipts\<close>: mutation-receipts.ts. A mutation starts once while its receipt is retained,
    and a retry replays its result.
  \<^item> \<open>Agent_Messages\<close>: agent-messages.ts. A message has one reply and one active wait however its
    readers and writers interleave, a reply's record is final, an acknowledgement succeeds once.
  \<^item> \<open>Reviewer_Jobs\<close>: review-thread/reviewer-job-store.ts. A thread has one active browser turn, a
    prompt that may have been sent is not sent again by itself, and only a reviewer's recorded
    decision puts a presented message back into the queue.
  \<^item> \<open>Supervisor_Runs\<close>: supervisor-runs.ts and the judgement of an evaluation in
    supervisor-runtime.ts. A revision of a run is used once, a superseded lease is dead, no leased
    commit happens after the deadline, repeated and oscillating failures are handed to a person.
  \<^item> \<open>Peer_Receipts\<close>, \<open>Peer_Jobs\<close>: contracts.ts, service.ts and store.ts of src/src/peer/jobs. Work that
    may have begun is never handed out again, terminal jobs stay so (unless an ended attempt is
    renewed late), a receipt is accepted exactly when it names allowed, canonical, hashed outputs.
  \<^item> \<open>Process_Output\<close>: process-output.ts. The cursor log implements a window on everything written,
    polling it ends with all of it, the head and tail buffer keeps both ends.

  \<^bold>\<open>Loops and bounds.\<close> Every definition is total. The depth-first walks over criteria, the pattern
  compiler and the patch parser are general recursions with a proved measure (criteria not yet
  visited, characters or lines left); the projection of an event calls itself once, on the status
  before a cancellation. No definition uses fuel. Batch limits (100, 200, 250, 500 rows) are the
  code's own.

  \<^bold>\<open>Not modelled.\<close> Network and process code (HTTP and MCP transport, ACP gateway, child processes,
  the driver of the review browser, git), the database client and its migrations, file system
  snapshots, the user interface and build scripts move bytes between the outside world and the
  stores: what they guarantee rests on services the sources only call. The tool handlers and the
  review workflow are compositions of the modelled stores with such services. Of the scheduler the
  verification executions, publication receipts and the dispatch loop are left out, because they
  run commands and write files; of the mission ledger the generated identifiers and fingerprints.
  The event log and the compact session surface of the web interface, which join many tables, are
  not covered.
\<close>

end
